(* ===== verification/Prelude.thy ===== *)
theory Prelude
  imports Main "HOL-Library.Word" "HOL-Library.Char_ord" "HOL-Library.List_Lexorder"
    "HOL-Library.AList" "HOL-Library.Multiset"
begin

unbundle bit_operations_syntax

text \<open>
  Shared vocabulary of the development: error values (\<^verbatim>\<open>src/common/error.hpp\<close>,
  \<^verbatim>\<open>src/common/result.hpp\<close>), the positional vector operations that the C++ code applies to
  \<^verbatim>\<open>std::vector\<close>, the association lists that stand for \<^verbatim>\<open>std::unordered_map\<close>, and the generic
  lemmas on them that the component theories use.
\<close>

named_theorems vec_simps \<open>rewrite rules for the positional vector operations\<close>
named_theorems umap_simps \<open>rewrite rules for the unordered-map operations\<close>

section \<open>Errors and results\<close>

text \<open>\<^verbatim>\<open>common::ErrorCode\<close>, in the order of the enumeration.\<close>

datatype ErrorCode =
    kOk
  | kParseError
  | kSemanticError
  | kValidationError
  | kStorageError
  | kAuthorizationError
  | kNetworkError
  | kNotFound
  | kAlreadyExists
  | kConstraintViolation
  | kTypeMismatch
  | kNotImplemented

record Error =
  code :: ErrorCode
  message :: string

text \<open>
  The C++ exceptions that leave a function of the modelled code: \<^verbatim>\<open>std::bad_variant_access\<close>
  from \<^verbatim>\<open>std::get\<close> on the wrong alternative, \<^verbatim>\<open>std::logic_error\<close> from \<^verbatim>\<open>CompareValues\<close>,
  \<^verbatim>\<open>std::regex_error\<close> from the construction of a \<^verbatim>\<open>std::regex\<close>. \<open>UndefinedBehaviour\<close> marks the
  points where the C++ program has no defined meaning (a null child pointer, an index out of range).
\<close>

datatype exn = BadVariantAccess | LogicError | RegexError | UndefinedBehaviour

text \<open>
  \<^verbatim>\<open>common::Result<T>\<close> holds either a value or an error (\<^verbatim>\<open>MakeSuccess\<close>, \<^verbatim>\<open>MakeError\<close>); a call
  may also end in an exception. A value of \<open>'a Result\<close> is the outcome of a call.
\<close>

datatype failure = Err Error | Thrown exn

type_synonym 'a Result = "failure + 'a"

definition MakeSuccess :: "'a \<Rightarrow> 'a Result" where
  "MakeSuccess v = Inr v"

definition MakeError :: "ErrorCode \<Rightarrow> string \<Rightarrow> 'a Result" where
  "MakeError c m = Inl (Err \<lparr>code = c, message = m\<rparr>)"

fun ok :: "'a Result \<Rightarrow> bool" where
  "ok (Inr _) = True"
| "ok (Inl _) = False"

text \<open>Sequencing of calls: the first failure is the outcome of the whole.\<close>

fun bind_result :: "'a Result \<Rightarrow> ('a \<Rightarrow> 'b Result) \<Rightarrow> 'b Result" where
  "bind_result (Inl e) f = Inl e"
| "bind_result (Inr v) f = f v"

lemmas result_defs = MakeSuccess_def MakeError_def

lemma bind_result_eq_Inr [simp]:
  "bind_result r f = Inr y \<longleftrightarrow> (\<exists>v. r = Inr v \<and> f v = Inr y)"
  by (cases r) auto

lemma MakeSuccess_inject [simp]: "MakeSuccess v = Inr w \<longleftrightarrow> v = w"
  by (simp add: MakeSuccess_def)

lemma MakeSuccess_not_Inl [simp]: "MakeSuccess v \<noteq> Inl e"
  by (simp add: MakeSuccess_def)

lemma MakeError_not_Inr [simp]: "MakeError c m \<noteq> Inr v"
  by (simp add: MakeError_def)

lemma ok_iff: "ok r \<longleftrightarrow> (\<exists>v. r = Inr v)"
  by (cases r) auto

lemma ok_MakeSuccess [simp]: "ok (MakeSuccess v)"
  by (simp add: MakeSuccess_def)

lemma ok_MakeError [simp]: "\<not> ok (MakeError c m)"
  by (simp add: MakeError_def)

section \<open>Vectors\<close>

text \<open>\<^verbatim>\<open>v.insert(v.begin() + i, x)\<close> and \<^verbatim>\<open>v.erase(v.begin() + i)\<close>.\<close>

definition insert_at :: "nat \<Rightarrow> 'a \<Rightarrow> 'a list \<Rightarrow> 'a list" where
  "insert_at i x xs = take i xs @ x # drop i xs"

definition erase_at :: "nat \<Rightarrow> 'a list \<Rightarrow> 'a list" where
  "erase_at i xs = take i xs @ drop (Suc i) xs"

lemma insert_at_append [vec_simps]:
  "length xs = i \<Longrightarrow> insert_at i x (xs @ ys) = xs @ x # ys"
  by (simp add: insert_at_def)

lemma insert_at_append_Suc [vec_simps]:
  "length xs = i \<Longrightarrow> insert_at (Suc i) x (xs @ y # ys) = xs @ y # x # ys"
  by (simp add: insert_at_def)

lemma erase_at_append [vec_simps]:
  "length xs = i \<Longrightarrow> erase_at i (xs @ y # ys) = xs @ ys"
  by (simp add: erase_at_def)

lemma erase_at_append_Suc [vec_simps]:
  "length xs = i \<Longrightarrow> erase_at (Suc i) (xs @ y # z # ys) = xs @ y # ys"
  by (simp add: erase_at_def)

lemma erase_at_append_Suc_Suc [vec_simps]:
  "length xs = i \<Longrightarrow> erase_at (Suc (Suc i)) (xs @ y # z # w # ys) = xs @ y # z # ys"
  by (simp add: erase_at_def)

lemma length_insert_at [simp]: "length (insert_at i x xs) = Suc (length xs)"
  by (simp add: insert_at_def)

lemma length_erase_at [simp]: "i < length xs \<Longrightarrow> length (erase_at i xs) = length xs - 1"
  by (auto simp: erase_at_def)

lemma nth_append_Suc [vec_simps]:
  "length xs = i \<Longrightarrow> (xs @ y # z # ys) ! Suc i = z"
  by (simp add: nth_append)

lemma nth_append_Suc_Suc [vec_simps]:
  "length xs = i \<Longrightarrow> (xs @ y # z # w # ys) ! Suc (Suc i) = w"
  by (simp add: nth_append)

lemma nth_append_here [vec_simps]:
  "length xs = i \<Longrightarrow> (xs @ y # ys) ! i = y"
  by (simp add: nth_append)

lemma update_append_here [vec_simps]:
  "length xs = i \<Longrightarrow> (xs @ y # ys)[i := v] = xs @ v # ys"
  by (simp add: list_update_append)

lemma update_append_Suc [vec_simps]:
  "length xs = i \<Longrightarrow> (xs @ y # z # ys)[Suc i := v] = xs @ y # v # ys"
  by (simp add: list_update_append)

lemma split_at_nth:
  assumes "i < length xs"
  obtains ys y zs where "xs = ys @ y # zs" "length ys = i"
  using assms id_take_nth_drop [of i xs] by (metis length_take min.absorb4)

section \<open>Unordered maps\<close>

text \<open>
  A \<^verbatim>\<open>std::unordered_map\<close> is an association list with distinct keys. The order of the list is
  the order of iteration, which C++ leaves open; no theorem of the development fixes it, since
  the states the theorems range over may hold the entries in any order.
\<close>

type_synonym ('k, 'v) umap = "('k \<times> 'v) list"

definition umap_find :: "('k, 'v) umap \<Rightarrow> 'k \<Rightarrow> 'v option" where
  "umap_find m k = map_of m k"

definition umap_contains :: "('k, 'v) umap \<Rightarrow> 'k \<Rightarrow> bool" where
  "umap_contains m k = (map_of m k \<noteq> None)"

definition umap_emplace :: "'k \<Rightarrow> 'v \<Rightarrow> ('k, 'v) umap \<Rightarrow> ('k, 'v) umap" where
  "umap_emplace k v m = (if map_of m k \<noteq> None then m else m @ [(k, v)])"

definition umap_assign :: "'k \<Rightarrow> 'v \<Rightarrow> ('k, 'v) umap \<Rightarrow> ('k, 'v) umap" where
  "umap_assign k v m = AList.update k v m"

definition umap_erase :: "'k \<Rightarrow> ('k, 'v) umap \<Rightarrow> ('k, 'v) umap" where
  "umap_erase k m = AList.delete k m"

definition umap_wf :: "('k, 'v) umap \<Rightarrow> bool" where
  "umap_wf m = distinct (map fst m)"

lemma umap_find_assign [umap_simps, simp]:
  "umap_find (umap_assign k v m) j = (if j = k then Some v else umap_find m j)"
  by (simp add: umap_find_def umap_assign_def update_conv)

lemma umap_find_erase [umap_simps, simp]:
  "umap_find (umap_erase k m) j = (if j = k then None else umap_find m j)"
  by (simp add: umap_find_def umap_erase_def delete_conv)

lemma umap_find_emplace [umap_simps, simp]:
  "umap_find (umap_emplace k v m) j =
     (if j = k \<and> umap_find m k = None then Some v else umap_find m j)"
  by (auto simp: umap_find_def umap_emplace_def map_add_def split: option.splits)

lemma umap_contains_find [umap_simps]: "umap_contains m k = (umap_find m k \<noteq> None)"
  by (simp add: umap_contains_def umap_find_def)

lemma umap_wf_Nil [simp]: "umap_wf []"
  by (simp add: umap_wf_def)

lemma umap_wf_assign [simp, intro]: "umap_wf m \<Longrightarrow> umap_wf (umap_assign k v m)"
  by (simp add: umap_wf_def umap_assign_def distinct_update)

lemma umap_wf_erase [simp, intro]: "umap_wf m \<Longrightarrow> umap_wf (umap_erase k m)"
  by (simp add: umap_wf_def umap_erase_def distinct_delete)

lemma umap_wf_emplace [simp, intro]: "umap_wf m \<Longrightarrow> umap_wf (umap_emplace k v m)"
  by (auto simp: umap_wf_def umap_emplace_def map_of_eq_None_iff)

lemma umap_find_in_set: "umap_find m k = Some v \<Longrightarrow> (k, v) \<in> set m"
  by (auto simp: umap_find_def dest: map_of_SomeD)

lemma umap_wf_find: "umap_wf m \<Longrightarrow> (k, v) \<in> set m \<Longrightarrow> umap_find m k = Some v"
  by (simp add: umap_wf_def umap_find_def)

section \<open>Strictly sorted lists\<close>

lemma sorted_wrt_less_distinct: "sorted_wrt (<) (xs :: 'a::linorder list) \<Longrightarrow> distinct xs"
  by (simp add: strict_sorted_iff)

lemma sorted_wrt_drop_mid:
  "sorted_wrt P (xs @ y # ys) \<Longrightarrow> sorted_wrt P (xs @ ys)"
  by (auto simp: sorted_wrt_append)

lemma takeWhile_all_length: "(\<And>x. x \<in> set xs \<Longrightarrow> P x) \<Longrightarrow> length (takeWhile P xs) = length xs"
  by (metis takeWhile_eq_all_conv)

section \<open>Loops that may fail\<close>

text \<open>
  A loop over a vector whose body may return an error or throw: it stops at the first failure.
  \<open>mapM\<close> collects results, \<open>foldM\<close> updates local variables that are lost on failure. In
  \<open>iterate_until\<close> and \<open>map_until\<close> the updates that were made before the failure stay visible.
\<close>

primrec mapM :: "('a \<Rightarrow> 'b Result) \<Rightarrow> 'a list \<Rightarrow> 'b list Result" where
  "mapM f [] = Inr []"
| "mapM f (x # xs) = bind_result (f x) (\<lambda>y. bind_result (mapM f xs) (\<lambda>ys. Inr (y # ys)))"

primrec foldM :: "('s \<Rightarrow> 'a \<Rightarrow> 's Result) \<Rightarrow> 'a list \<Rightarrow> 's \<Rightarrow> 's Result" where
  "foldM f [] s = Inr s"
| "foldM f (x # xs) s = bind_result (f s x) (foldM f xs)"

primrec iterate_until :: "('s \<Rightarrow> 'a \<Rightarrow> 's \<times> unit Result) \<Rightarrow> 'a list \<Rightarrow> 's \<Rightarrow> 's \<times> unit Result" where
  "iterate_until f [] s = (s, Inr ())"
| "iterate_until f (x # xs) s =
     (case f s x of (s', Inl e) \<Rightarrow> (s', Inl e) | (s', Inr _) \<Rightarrow> iterate_until f xs s')"

primrec map_until :: "('a \<Rightarrow> 'a \<times> unit Result) \<Rightarrow> 'a list \<Rightarrow> 'a list \<times> unit Result" where
  "map_until f [] = ([], Inr ())"
| "map_until f (x # xs) =
     (case f x of
        (x', Inl e) \<Rightarrow> (x' # xs, Inl e)
      | (x', Inr _) \<Rightarrow> (case map_until f xs of (xs', r) \<Rightarrow> (x' # xs', r)))"

text \<open>The elements that pass a test which may fail.\<close>

primrec filterM :: "('a \<Rightarrow> bool Result) \<Rightarrow> 'a list \<Rightarrow> 'a list Result" where
  "filterM p [] = Inr []"
| "filterM p (x # xs) =
     bind_result (p x) (\<lambda>keep. bind_result (filterM p xs) (\<lambda>ys. Inr (if keep then x # ys else ys)))"

lemma mapM_Inr_iff: "mapM f xs = Inr ys \<longleftrightarrow> list_all2 (\<lambda>x y. f x = Inr y) xs ys"
proof (induction xs arbitrary: ys)
  case (Cons x xs)
  then show ?case by (cases ys) auto
qed auto

lemma mapM_append:
  "mapM f (xs @ ys) = bind_result (mapM f xs) (\<lambda>us. bind_result (mapM f ys) (\<lambda>vs. Inr (us @ vs)))"
proof (induction xs)
  case Nil
  then show ?case by (cases "mapM f ys") auto
next
  case (Cons x xs)
  then show ?case by (cases "f x"; cases "mapM f xs"; cases "mapM f ys") auto
qed

lemma mapM_cong: "xs = ys \<Longrightarrow> (\<And>x. x \<in> set ys \<Longrightarrow> f x = g x) \<Longrightarrow> mapM f xs = mapM g ys"
  by (induction xs arbitrary: ys) auto

lemma foldM_append: "foldM f (xs @ ys) s = bind_result (foldM f xs s) (foldM f ys)"
proof (induction xs arbitrary: s)
  case (Cons x xs)
  then show ?case by (cases "f s x") auto
qed simp

lemma filterM_total: "(\<And>x. x \<in> set xs \<Longrightarrow> p x = Inr (q x)) \<Longrightarrow> filterM p xs = Inr (filter q xs)"
  by (induction xs) auto

text \<open>An invariant of the loop body holds after the loop, whether it stopped early or not.\<close>

lemma iterate_until_invariant:
  assumes "I s" "\<And>s x s' r. x \<in> set xs \<Longrightarrow> I s \<Longrightarrow> f s x = (s', r) \<Longrightarrow> I s'"
    and "iterate_until f xs s = (s', r)"
  shows "I s'"
  using assms
proof (induction xs arbitrary: s)
  case (Cons x xs)
  obtain s1 r1 where f: "f s x = (s1, r1)" by (cases "f s x")
  have "I s1" using Cons.prems(1,2) f by (metis list.set_intros(1))
  show ?case
  proof (cases r1)
    case (Inl e)
    with f Cons.prems(3) \<open>I s1\<close> show ?thesis by simp
  next
    case (Inr u)
    with f Cons.prems(3) have it: "iterate_until f xs s1 = (s', r)" by simp
    show ?thesis
      by (rule Cons.IH [OF \<open>I s1\<close> _ it]) (use Cons.prems(2) in auto)
  qed
qed simp

lemma map_until_all:
  assumes "\<And>x x' r. x \<in> set xs \<Longrightarrow> f x = (x', r) \<Longrightarrow> R x x'" "\<And>x. x \<in> set xs \<Longrightarrow> R x x"
    and "map_until f xs = (xs', r)"
  shows "list_all2 R xs xs'"
  using assms
proof (induction xs arbitrary: xs' r)
  case (Cons x xs)
  obtain x1 r1 where f: "f x = (x1, r1)" by (cases "f x")
  then have "R x x1" using Cons.prems(1) by auto
  show ?case
  proof (cases r1)
    case (Inl e)
    have "list_all2 R xs xs" using Cons.prems(2) by (auto intro!: list.rel_refl_strong)
    with Inl f Cons.prems(3) \<open>R x x1\<close> show ?thesis by auto
  next
    case (Inr u)
    obtain ys q where "map_until f xs = (ys, q)" by (cases "map_until f xs")
    with Inr f Cons \<open>R x x1\<close> show ?thesis by auto
  qed
qed simp

end
