(* ===== verification/Types.thy ===== *)
theory Types
  imports Prelude
begin

text \<open>
  Values and rows (\<^verbatim>\<open>src/common/types.hpp\<close>, \<^verbatim>\<open>src/common/types.cpp\<close>) and the error contract
  (\<^verbatim>\<open>src/common/error_contract.cpp\<close>). \<^verbatim>\<open>std::int64_t\<close> and \<^verbatim>\<open>std::uint64_t\<close> are 64-bit words; a
  subtraction that leaves the range of \<^verbatim>\<open>int64_t\<close> wraps around in the model, as the machine code
  does, while the C++ standard leaves it undefined.
\<close>

section \<open>Values\<close>

datatype ValueType = kNull | kInt64 | kString

type_synonym RowId = "64 word"

definition kInvalidRowId :: RowId where
  "kInvalidRowId = - 1"

text \<open>
  \<^verbatim>\<open>InternedString\<close> is a \<^verbatim>\<open>shared_ptr<const std::string>\<close>: the address of the shared string and
  the characters it points to.
\<close>

datatype InternedString = Interned (address: nat) (chars: string)

datatype Value =
    Monostate
  | Int64 "64 word"
  | Str string
  | IStr InternedString

record RowData =
  row_id :: RowId
  row_values :: "Value list"

definition IsNull :: "Value \<Rightarrow> bool" where
  "IsNull v = (case v of Monostate \<Rightarrow> True | _ \<Rightarrow> False)"

definition IsStringValue :: "Value \<Rightarrow> bool" where
  "IsStringValue v = (case v of Str _ \<Rightarrow> True | IStr _ \<Rightarrow> True | _ \<Rightarrow> False)"

text \<open>\<^verbatim>\<open>std::get<InternedString>\<close> throws when the value holds no string.\<close>

fun AsString :: "Value \<Rightarrow> string Result" where
  "AsString (Str s) = Inr s"
| "AsString (IStr p) = Inr (chars p)"
| "AsString _ = Inl (Thrown BadVariantAccess)"

fun GetValueType :: "Value \<Rightarrow> ValueType" where
  "GetValueType Monostate = kNull"
| "GetValueType (Int64 _) = kInt64"
| "GetValueType _ = kString"

text \<open>\<^verbatim>\<open>std::string::compare\<close>: only the sign of the result is specified.\<close>

definition string_compare :: "string \<Rightarrow> string \<Rightarrow> int" where
  "string_compare a b = (if a < b then -1 else if a = b then 0 else 1)"

text \<open>The difference of integers wraps around where C++ leaves signed overflow undefined.\<close>

definition CompareValues :: "Value \<Rightarrow> Value \<Rightarrow> int Result" where
  "CompareValues lhs rhs =
     (if GetValueType lhs \<noteq> GetValueType rhs then Inl (Thrown LogicError)
      else case (lhs, rhs) of
          (Monostate, _) \<Rightarrow> Inr 0
        | (Int64 a, Int64 b) \<Rightarrow> Inr (sint (a - b))
        | _ \<Rightarrow> bind_result (AsString lhs) (\<lambda>a.
                 bind_result (AsString rhs) (\<lambda>b. Inr (string_compare a b))))"

text \<open>\<^verbatim>\<open>std::to_string\<close> on integers.\<close>

definition digit_char :: "nat \<Rightarrow> char" where
  "digit_char d = char_of (48 + d)"

fun nat_to_string :: "nat \<Rightarrow> string" where
  "nat_to_string n =
     (if n < 10 then [digit_char n] else nat_to_string (n div 10) @ [digit_char (n mod 10)])"

declare nat_to_string.simps [simp del]

definition int_to_string :: "int \<Rightarrow> string" where
  "int_to_string i = (if i < 0 then CHR ''-'' # nat_to_string (nat (- i)) else nat_to_string (nat i))"

fun ValueToString :: "Value \<Rightarrow> string" where
  "ValueToString Monostate = ''NULL''"
| "ValueToString (Int64 w) = int_to_string (sint w)"
| "ValueToString (Str s) = s"
| "ValueToString (IStr p) = chars p"

definition CanAssignToType :: "Value \<Rightarrow> ValueType \<Rightarrow> bool \<Rightarrow> bool" where
  "CanAssignToType v t allow_null =
     (if IsNull v then allow_null else if GetValueType v = t then True else False)"

section \<open>The error contract\<close>

fun ErrorCodeName :: "ErrorCode \<Rightarrow> string" where
  "ErrorCodeName kOk = ''OK''"
| "ErrorCodeName kParseError = ''PARSE_ERROR''"
| "ErrorCodeName kSemanticError = ''SEMANTIC_ERROR''"
| "ErrorCodeName kValidationError = ''VALIDATION_ERROR''"
| "ErrorCodeName kStorageError = ''STORAGE_ERROR''"
| "ErrorCodeName kAuthorizationError = ''AUTHORIZATION_ERROR''"
| "ErrorCodeName kNetworkError = ''NETWORK_ERROR''"
| "ErrorCodeName kNotFound = ''NOT_FOUND''"
| "ErrorCodeName kAlreadyExists = ''ALREADY_EXISTS''"
| "ErrorCodeName kConstraintViolation = ''CONSTRAINT_VIOLATION''"
| "ErrorCodeName kTypeMismatch = ''TYPE_MISMATCH''"
| "ErrorCodeName kNotImplemented = ''NOT_IMPLEMENTED''"

text \<open>\<^verbatim>\<open>static_cast<int>(error.code)\<close>: the position in the enumeration.\<close>

fun ErrorCode_to_int :: "ErrorCode \<Rightarrow> int" where
  "ErrorCode_to_int kOk = 0"
| "ErrorCode_to_int kParseError = 1"
| "ErrorCode_to_int kSemanticError = 2"
| "ErrorCode_to_int kValidationError = 3"
| "ErrorCode_to_int kStorageError = 4"
| "ErrorCode_to_int kAuthorizationError = 5"
| "ErrorCode_to_int kNetworkError = 6"
| "ErrorCode_to_int kNotFound = 7"
| "ErrorCode_to_int kAlreadyExists = 8"
| "ErrorCode_to_int kConstraintViolation = 9"
| "ErrorCode_to_int kTypeMismatch = 10"
| "ErrorCode_to_int kNotImplemented = 11"

text \<open>The two characters that are written escaped in the quoted SQL text.\<close>

definition backslash :: char where
  "backslash = CHR 0x5C"

definition quotation_mark :: char where
  "quotation_mark = CHR 0x22"

fun EscapeJsonText :: "string \<Rightarrow> string" where
  "EscapeJsonText [] = []"
| "EscapeJsonText (c # cs) =
     (if c = quotation_mark \<or> c = backslash then backslash # c # EscapeJsonText cs
      else c # EscapeJsonText cs)"

definition FormatErrorContract :: "Error \<Rightarrow> string \<Rightarrow> string" where
  "FormatErrorContract e sql =
     ''type='' @ ErrorCodeName (code e) @ '' code='' @ int_to_string (ErrorCode_to_int (code e)) @
     '' message='' @ message e @ '' sql='' @ [quotation_mark] @ EscapeJsonText sql @ [quotation_mark]"

section \<open>Properties\<close>

lemma IsNull_simps [simp]:
  "IsNull Monostate" "\<not> IsNull (Int64 w)" "\<not> IsNull (Str s)" "\<not> IsNull (IStr p)"
  by (simp_all add: IsNull_def)

lemma IsNull_iff: "IsNull v \<longleftrightarrow> GetValueType v = kNull"
  by (cases v) auto

lemma AsString_ok_iff: "ok (AsString v) \<longleftrightarrow> GetValueType v = kString"
  by (cases v) auto

text \<open>Values of one type always compare; values of two types never do.\<close>

lemma CompareValues_total:
  "GetValueType a = GetValueType b \<Longrightarrow> \<exists>c. CompareValues a b = Inr c"
  by (cases a; cases b) (auto simp: CompareValues_def)

lemma CompareValues_mismatch:
  "GetValueType a \<noteq> GetValueType b \<Longrightarrow> CompareValues a b = Inl (Thrown LogicError)"
  by (simp add: CompareValues_def)

text \<open>The text behind a string value, and the equality that a comparison decides.\<close>

fun same_value :: "Value \<Rightarrow> Value \<Rightarrow> bool" where
  "same_value Monostate Monostate = True"
| "same_value (Int64 a) (Int64 b) = (a = b)"
| "same_value a b = (GetValueType a = kString \<and> GetValueType b = kString \<and> AsString a = AsString b)"

lemma sint_eq_0_iff [simp]: "sint (w :: 64 word) = 0 \<longleftrightarrow> w = 0"
  by (metis signed_0 signed_word_eqI)

lemma CompareValues_zero_iff:
  "CompareValues a b = Inr 0 \<longleftrightarrow> same_value a b"
  by (cases a; cases b)
    (auto simp: CompareValues_def string_compare_def)

text \<open>Where the difference is in range, the sign of the comparison is the order of the integers.\<close>

lemma sint_diff_in_range:
  fixes a b :: "64 word"
  assumes "- (2 ^ 63) \<le> sint a - sint b" "sint a - sint b < 2 ^ 63"
  shows "sint (a - b) = sint a - sint b"
proof -
  have "sint (a - b) = signed_take_bit 63 (sint a - sint b)"
    by (simp add: sint_word_ariths(2))
  also have "\<dots> = sint a - sint b"
    using assms by (intro signed_take_bit_int_eq_self) auto
  finally show ?thesis .
qed

lemma CompareValues_int:
  fixes a b :: "64 word"
  assumes "- (2 ^ 63) \<le> sint a - sint b" "sint a - sint b < 2 ^ 63"
  shows "CompareValues (Int64 a) (Int64 b) = Inr (sint a - sint b)"
  using sint_diff_in_range [OF assms] by (simp add: CompareValues_def)

end
