(* ===== verification/Leaf_Chain.thy ===== *)
theory Leaf_Chain
  imports Prelude
begin

text \<open>
  The doubly linked list of leaves of the B*+ tree (\<^verbatim>\<open>next_leaf\<close> and \<^verbatim>\<open>prev_leaf\<close> of
  \<^verbatim>\<open>BStarPlusTree::Node\<close> in \<^verbatim>\<open>src/index/b_star_plus_tree.hpp\<close>). The raw pointers are an explicit
  store: every leaf has an address, and the store gives the two pointer fields of the leaf at an
  address. \<open>None\<close> is \<^verbatim>\<open>nullptr\<close>.
\<close>

type_synonym leaf_ptr = nat

record leaf_links =
  next_leaf :: "leaf_ptr \<Rightarrow> leaf_ptr option"
  prev_leaf :: "leaf_ptr \<Rightarrow> leaf_ptr option"
  next_address :: leaf_ptr

text \<open>A store with one leaf at address 0, and the allocation of a leaf with null pointers.\<close>

definition initial_links :: leaf_links where
  "initial_links = \<lparr>next_leaf = (\<lambda>_. None), prev_leaf = (\<lambda>_. None), next_address = 1\<rparr>"

definition new_leaf :: "leaf_links \<Rightarrow> leaf_ptr \<times> leaf_links" where
  "new_leaf L = (next_address L,
     L\<lparr>next_leaf := (next_leaf L)(next_address L := None),
       prev_leaf := (prev_leaf L)(next_address L := None),
       next_address := Suc (next_address L)\<rparr>)"

definition set_next :: "leaf_ptr \<Rightarrow> leaf_ptr option \<Rightarrow> leaf_links \<Rightarrow> leaf_links" where
  "set_next p q L = L\<lparr>next_leaf := (next_leaf L)(p := q)\<rparr>"

definition set_prev :: "leaf_ptr \<Rightarrow> leaf_ptr option \<Rightarrow> leaf_links \<Rightarrow> leaf_links" where
  "set_prev p q L = L\<lparr>prev_leaf := (prev_leaf L)(p := q)\<rparr>"

text \<open>\<^verbatim>\<open>if (p->next_leaf != nullptr) { p->next_leaf->prev_leaf = q; }\<close>\<close>

definition set_prev_of_next :: "leaf_ptr \<Rightarrow> leaf_ptr \<Rightarrow> leaf_links \<Rightarrow> leaf_links" where
  "set_prev_of_next p q L =
     (case next_leaf L p of None \<Rightarrow> L | Some n \<Rightarrow> set_prev n (Some q) L)"

text \<open>The pointer updates of \<^verbatim>\<open>SplitLeaf\<close>: a new right leaf goes behind \<open>leaf\<close>.\<close>

definition link_split :: "leaf_ptr \<Rightarrow> leaf_ptr \<Rightarrow> leaf_links \<Rightarrow> leaf_links" where
  "link_split leaf right L =
     (let L1 = set_next right (next_leaf L leaf) L;
          L2 = set_prev_of_next right right L1;
          L3 = set_prev right (Some leaf) L2
      in set_next leaf (Some right) L3)"

text \<open>The pointer updates of the 2-to-3 split: a new middle leaf between two neighbours.\<close>

definition link_middle :: "leaf_ptr \<Rightarrow> leaf_ptr \<Rightarrow> leaf_ptr \<Rightarrow> leaf_links \<Rightarrow> leaf_links" where
  "link_middle left middle right L =
     (let L1 = set_prev middle (Some left) L;
          L2 = set_next middle (Some right) L1;
          L3 = set_prev right (Some middle) L2
      in set_next left (Some middle) L3)"

text \<open>The pointer updates of \<^verbatim>\<open>MergeLeaves\<close> and of \<^verbatim>\<open>TryThreeToTwoLeaf\<close>.\<close>

definition link_merge :: "leaf_ptr \<Rightarrow> leaf_ptr \<Rightarrow> leaf_links \<Rightarrow> leaf_links" where
  "link_merge left right L =
     set_prev_of_next left left (set_next left (next_leaf L right) L)"

definition link_three_to_two ::
  "leaf_ptr \<Rightarrow> leaf_ptr \<Rightarrow> leaf_ptr \<Rightarrow> leaf_links \<Rightarrow> leaf_links" where
  "link_three_to_two left middle right L =
     (let L1 = set_next middle (next_leaf L right) L;
          L2 = set_prev_of_next middle middle L1;
          L3 = set_prev middle (Some left) L2
      in set_next left (Some middle) L3)"

section \<open>Well-formed chains\<close>

text \<open>
  \<open>segment L p as q\<close>: the leaves \<open>as\<close> are linked in this order, the first one's predecessor is
  \<open>p\<close> and the last one's successor is \<open>q\<close>.
\<close>

fun segment :: "leaf_links \<Rightarrow> leaf_ptr option \<Rightarrow> leaf_ptr list \<Rightarrow> leaf_ptr option \<Rightarrow> bool" where
  "segment L p [] q = True"
| "segment L p (a # as) q =
     (prev_leaf L a = p \<and> next_leaf L a = (case as of [] \<Rightarrow> q | b # _ \<Rightarrow> Some b) \<and>
      segment L (Some a) as q)"

definition chained :: "leaf_links \<Rightarrow> leaf_ptr list \<Rightarrow> bool" where
  "chained L as \<longleftrightarrow>
     segment L None as None \<and> distinct as \<and> (\<forall>a \<in> set as. a < next_address L)"

definition last_ptr :: "leaf_ptr option \<Rightarrow> leaf_ptr list \<Rightarrow> leaf_ptr option" where
  "last_ptr p as = (if as = [] then p else Some (last as))"

definition first_ptr :: "leaf_ptr list \<Rightarrow> leaf_ptr option \<Rightarrow> leaf_ptr option" where
  "first_ptr as q = (case as of [] \<Rightarrow> q | a # _ \<Rightarrow> Some a)"

lemma first_ptr_simps [simp]:
  "first_ptr [] q = q" "first_ptr (a # as) q = Some a"
  by (simp_all add: first_ptr_def)

lemma last_ptr_simps [simp]:
  "last_ptr p [] = p" "last_ptr p (a # as) = last_ptr (Some a) as" "last_ptr p (as @ [a]) = Some a"
  by (simp_all add: last_ptr_def)

lemma segment_append:
  "segment L p (as @ bs) q \<longleftrightarrow>
     segment L p as (first_ptr bs q) \<and> segment L (last_ptr p as) bs q"
proof (induction as arbitrary: p)
  case Nil
  then show ?case by simp
next
  case (Cons a as)
  then show ?case by (cases as; cases bs) auto
qed

text \<open>A segment depends on the pointer fields of its own leaves only.\<close>

lemma segment_frame:
  assumes "\<And>a. a \<in> set as \<Longrightarrow> next_leaf L' a = next_leaf L a"
    and "\<And>a. a \<in> set as \<Longrightarrow> prev_leaf L' a = prev_leaf L a"
  shows "segment L' p as q \<longleftrightarrow> segment L p as q"
  using assms by (induction as arbitrary: p) auto

lemmas link_defs = link_split_def link_middle_def link_merge_def link_three_to_two_def
  set_next_def set_prev_def set_prev_of_next_def new_leaf_def Let_def

section \<open>The operations keep the chain\<close>

text \<open>What a well-formed chain says about the pointers around a leaf.\<close>

lemma chained_append:
  "chained L (xs @ ys) \<longleftrightarrow>
     segment L None xs (first_ptr ys None) \<and> segment L (last_ptr None xs) ys None \<and>
     distinct (xs @ ys) \<and> (\<forall>a \<in> set (xs @ ys). a < next_address L)"
  by (simp add: chained_def segment_append)

lemma segment_next: "segment L p (a # as) q \<Longrightarrow> next_leaf L a = first_ptr as q"
  by (cases as) auto

lemma chained_split:
  assumes ch: "chained L (xs @ l # ys)" and new: "new_leaf L = (m, L1)"
  shows "chained (link_split l m L1) (xs @ l # m # ys)"
proof -
  let ?L = "link_split l m L1"
  from ch have seg: "segment L None xs (Some l)" "segment L (last_ptr None xs) (l # ys) None"
    and dist: "distinct (xs @ l # ys)" and bound: "\<forall>a \<in> set (xs @ l # ys). a < next_address L"
    by (auto simp: chained_append)
  have nl: "next_leaf L l = first_ptr ys None"
    using seg(2) by (rule segment_next)
  have m: "m = next_address L" "m \<notin> set (xs @ l # ys)"
    using bound new by (auto simp: new_leaf_def)
  have pl: "prev_leaf L l = last_ptr None xs" and L1: "L1 = snd (new_leaf L)"
    using seg(2) new by simp_all
  have xs: "segment ?L None xs (Some l) = segment L None xs (Some l)"
    using dist m new nl by (intro segment_frame; cases ys) (auto simp: link_defs)
  have ys: "segment ?L (Some m) ys None"
  proof (cases ys)
    case (Cons y ys')
    have "segment ?L (Some y) ys' None = segment L (Some y) ys' None"
      using dist m new nl Cons by (intro segment_frame) (auto simp: link_defs)
    then show ?thesis
      using seg(2) dist m nl Cons by (simp add: link_defs L1)
  qed simp
  have "prev_leaf ?L l = last_ptr None xs"
    using pl dist m nl by (cases ys) (simp_all add: link_defs L1)
  moreover have "next_leaf ?L l = Some m"
    by (simp add: link_defs)
  moreover have "prev_leaf ?L m = Some l"
    by (simp add: link_defs)
  moreover have "next_leaf ?L m = first_ptr ys None"
    using dist m nl by (cases ys) (simp_all add: link_defs L1)
  moreover have "next_address ?L = Suc m"
    using dist m nl by (cases ys) (simp_all add: link_defs L1)
  ultimately have "segment ?L (last_ptr None xs) (l # m # ys) None" "next_address ?L = Suc m"
    using ys by (simp_all add: first_ptr_def)
  moreover have "\<forall>a \<in> set (xs @ l # m # ys). a < Suc m"
    using bound m(1) by (auto intro: less_SucI)
  ultimately show ?thesis
    using xs seg(1) dist m(2) by (simp add: chained_append del: segment.simps)
qed

lemma chained_middle:
  assumes ch: "chained L (xs @ l # r # ys)" and new: "new_leaf L = (m, L1)"
  shows "chained (link_middle l m r L1) (xs @ l # m # r # ys)"
proof -
  from ch have "link_middle l m r L1 = link_split l m L1"
    using new by (auto simp: chained_append link_defs fun_eq_iff)
  with chained_split [OF ch new] show ?thesis by simp
qed

lemma chained_merge:
  assumes ch: "chained L (xs @ l # r # ys)"
  shows "chained (link_merge l r L) (xs @ l # ys)"
proof -
  let ?L = "link_merge l r L"
  from ch have seg: "segment L None xs (Some l)" "segment L (last_ptr None xs) (l # r # ys) None"
    "segment L (Some r) ys None"
    and dist: "distinct (xs @ l # r # ys)" and bound: "\<forall>a \<in> set (xs @ l # r # ys). a < next_address L"
    by (auto simp: chained_append)
  have nr: "next_leaf L r = first_ptr ys None" and pl: "prev_leaf L l = last_ptr None xs"
    using seg(2) by (auto simp: first_ptr_def)
  have xs: "segment ?L None xs (Some l) = segment L None xs (Some l)"
    using dist nr by (intro segment_frame; cases ys) (auto simp: link_defs)
  have ys: "segment ?L (Some l) ys None"
  proof (cases ys)
    case (Cons y ys')
    have "segment ?L (Some y) ys' None = segment L (Some y) ys' None"
      using dist nr Cons by (intro segment_frame) (auto simp: link_defs)
    then show ?thesis
      using seg(3) dist nr Cons by (auto simp: link_defs split: list.splits)
  qed simp
  have "prev_leaf ?L l = last_ptr None xs"
    using pl dist nr by (cases ys) (simp_all add: link_defs)
  moreover have "next_leaf ?L l = first_ptr ys None"
    using dist nr by (cases ys) (simp_all add: link_defs)
  ultimately have "segment ?L (last_ptr None xs) (l # ys) None"
    using ys by (simp add: first_ptr_def)
  moreover have "next_address ?L = next_address L"
    using nr by (cases ys) (simp_all add: link_defs)
  ultimately show ?thesis
    using xs seg(1) dist bound by (simp add: chained_append del: segment.simps)
qed

lemma chained_three_to_two:
  assumes ch: "chained L (xs @ l # m # r # ys)"
  shows "chained (link_three_to_two l m r L) (xs @ l # m # ys)"
proof -
  have "chained (link_merge m r L) ((xs @ [l]) @ m # ys)"
    using ch by (intro chained_merge) simp
  moreover have "link_three_to_two l m r L = link_merge m r L"
    using ch by (cases ys) (auto simp: chained_append link_defs fun_eq_iff)
  ultimately show ?thesis by simp
qed

lemma chained_initial: "chained initial_links [0]"
  by (simp add: chained_def initial_links_def)

end
