(* ===== verification/BStar_Tree.thy ===== *)
theory BStar_Tree
  imports Types Leaf_Chain
begin

text \<open>
  The B*+ tree index (\<^verbatim>\<open>src/index/b_star_plus_tree.hpp\<close> and \<^verbatim>\<open>.cpp\<close>), one definition per member
  function. The \<^verbatim>\<open>unique_ptr\<close> ownership of the nodes is a tree, hence a datatype; the raw leaf
  pointers live in the store of \<^verbatim>\<open>Leaf_Chain\<close>. Vector accesses whose index the code takes from
  the node itself are \<open>!\<close>; the theorems of the later theories show for every operation that it
  returns the specified tree, so no such access is out of range on a tree the operations build.
\<close>

section \<open>Nodes\<close>

type_synonym row_ids = "RowId list"

datatype Node =
    Leaf leaf_ptr "string list" "row_ids list"
  | Internal "string list" "Node list"

fun is_leaf :: "Node \<Rightarrow> bool" where
  "is_leaf (Leaf _ _ _) = True"
| "is_leaf (Internal _ _) = False"

fun node_keys :: "Node \<Rightarrow> string list" where
  "node_keys (Leaf _ ks _) = ks"
| "node_keys (Internal ks _) = ks"

text \<open>\<^verbatim>\<open>struct Split\<close>: the separator key and the new right node.\<close>

type_synonym Split = "string \<times> Node"

type_synonym IndexEntry = "string \<times> row_ids"

record BStarPlusTree =
  max_keys_per_node :: nat
  root :: Node
  links :: leaf_links

definition make_tree :: "nat \<Rightarrow> BStarPlusTree" where
  "make_tree max_keys =
     \<lparr>max_keys_per_node = max 3 max_keys, root = Leaf 0 [] [], links = initial_links\<rparr>"

text \<open>The default argument of the constructor, which is the one the program uses.\<close>

definition default_max_keys :: nat where
  "default_max_keys = 8"

definition MinLeafKeys :: "nat \<Rightarrow> nat" where
  "MinLeafKeys M = (M + 1) div 2"

definition MinInternalKeys :: "nat \<Rightarrow> nat" where
  "MinInternalKeys M = (M + 1) div 2"

text \<open>\<^verbatim>\<open>std::lower_bound\<close> and \<^verbatim>\<open>std::upper_bound\<close> on a sorted vector, as positions.\<close>

definition LowerBound :: "string list \<Rightarrow> string \<Rightarrow> nat" where
  "LowerBound ks key = length (takeWhile (\<lambda>k. k < key) ks)"

definition UpperBound :: "string list \<Rightarrow> string \<Rightarrow> nat" where
  "UpperBound ks key = length (takeWhile (\<lambda>k. k \<le> key) ks)"

definition ContainsRowId :: "row_ids \<Rightarrow> RowId \<Rightarrow> bool" where
  "ContainsRowId ids r = (r \<in> set ids)"

text \<open>The leaf reached from the root; \<open>None\<close> where the child index is out of range.\<close>

function FindLeaf :: "Node \<Rightarrow> string \<Rightarrow> (leaf_ptr \<times> string list \<times> row_ids list) option" where
  "FindLeaf (Leaf a ks vs) key = Some (a, ks, vs)"
| "FindLeaf (Internal ks cs) key =
     (let i = UpperBound ks key in
      if i < length cs then FindLeaf (cs ! i) key else None)"
  by pat_completeness auto
termination
  by (relation "measure (\<lambda>(t, _). size t)") (auto simp: less_Suc_eq_le Let_def
      intro!: trans_le_add2 size_list_estimation' [OF nth_mem])

section \<open>Splitting a full node\<close>

text \<open>\<^verbatim>\<open>SplitLeaf\<close>: the left half stays in the node, the right half goes to a new leaf behind it.\<close>

definition SplitLeaf ::
  "leaf_ptr \<Rightarrow> string list \<Rightarrow> row_ids list \<Rightarrow> leaf_links \<Rightarrow> Node \<times> Split \<times> leaf_links" where
  "SplitLeaf a ks vs L =
     (let (b, L1) = new_leaf L;
          mid = length ks div 2;
          right = Leaf b (drop mid ks) (drop mid vs)
      in (Leaf a (take mid ks) (take mid vs), (hd (drop mid ks), right), link_split a b L1))"

definition SplitInternal :: "string list \<Rightarrow> Node list \<Rightarrow> Node \<times> Split" where
  "SplitInternal ks cs =
     (let mid = length ks div 2
      in (Internal (take mid ks) (take (mid + 1) cs),
          (ks ! mid, Internal (drop (mid + 1) ks) (drop (mid + 1) cs))))"

section \<open>Rebalancing attempts\<close>

text \<open>
  A rebalancing function gets the parent (its keys and children, with the leaf store) and a child
  index. It returns \<^verbatim>\<open>false\<close> and leaves everything as it was (\<open>Refused\<close>), or it changes the
  parent (\<open>Adjusted\<close>), or it returns \<^verbatim>\<open>false\<close> after the children have been moved out of their
  nodes (\<open>Emptied\<close>), which leaves null child pointers behind.
\<close>

type_synonym parent = "string list \<times> Node list \<times> leaf_links"

datatype attempt = Refused | Adjusted parent | Emptied

text \<open>\<^verbatim>\<open>a || b\<close> on attempts.\<close>

fun or_try :: "attempt \<Rightarrow> attempt \<Rightarrow> attempt" where
  "or_try Refused b = b"
| "or_try a b = a"

fun TryRedistributeLeafWithLeft :: "nat \<Rightarrow> parent \<Rightarrow> nat \<Rightarrow> attempt" where
  "TryRedistributeLeafWithLeft M (ks, cs, L) i =
     (if i = 0 then Refused
      else case (cs ! i, cs ! (i - 1)) of
          (Leaf a lk lv, Leaf b pk pv) \<Rightarrow>
            (if M \<le> length pk \<or> lk = [] then Refused
             else Adjusted (ks[i - 1 := hd (tl lk)],
                    cs[i - 1 := Leaf b (pk @ [hd lk]) (pv @ [hd lv]), i := Leaf a (tl lk) (tl lv)],
                    L))
        | _ \<Rightarrow> Refused)"

fun TryRedistributeLeafWithRight :: "nat \<Rightarrow> parent \<Rightarrow> nat \<Rightarrow> attempt" where
  "TryRedistributeLeafWithRight M (ks, cs, L) i =
     (if length cs \<le> i + 1 then Refused
      else case (cs ! i, cs ! (i + 1)) of
          (Leaf a lk lv, Leaf b rk rv) \<Rightarrow>
            (if M \<le> length rk \<or> lk = [] then Refused
             else Adjusted (ks[i := last lk],
                    cs[i := Leaf a (butlast lk) (butlast lv), i + 1 := Leaf b (last lk # rk) (last lv # rv)],
                    L))
        | _ \<Rightarrow> Refused)"

fun TryTwoToThreeSplitLeafWithRight :: "nat \<Rightarrow> parent \<Rightarrow> nat \<Rightarrow> attempt" where
  "TryTwoToThreeSplitLeafWithRight M (ks, cs, L) i =
     (if length cs \<le> i + 1 \<or> M \<le> length ks then Refused
      else case (cs ! i, cs ! (i + 1)) of
          (Leaf a lk lv, Leaf b rk rv) \<Rightarrow>
            (if length lk < M \<or> length rk < M then Refused
             else
               let all_keys = lk @ rk;
                   all_values = lv @ rv;
                   total = length all_keys;
                   first_size = total div 3;
                   second_size = (total - first_size) div 2;
                   third_size = total - first_size - second_size
               in if first_size = 0 \<or> second_size = 0 \<or> third_size = 0 then Refused
                  else
                    let (c, L1) = new_leaf L;
                        left = Leaf a (take first_size all_keys) (take first_size all_values);
                        middle_keys = take second_size (drop first_size all_keys);
                        middle = Leaf c middle_keys (take second_size (drop first_size all_values));
                        right_keys = drop (first_size + second_size) all_keys;
                        right = Leaf b right_keys (drop (first_size + second_size) all_values)
                    in Adjusted (insert_at (i + 1) (hd right_keys) (ks[i := hd middle_keys]),
                         insert_at (i + 1) middle (cs[i := left, i + 1 := right]),
                         link_middle a c b L1))
        | _ \<Rightarrow> Refused)"

fun TryTwoToThreeSplitLeafWithLeft :: "nat \<Rightarrow> parent \<Rightarrow> nat \<Rightarrow> attempt" where
  "TryTwoToThreeSplitLeafWithLeft M (ks, cs, L) i =
     (if i = 0 \<or> M \<le> length ks then Refused
      else TryTwoToThreeSplitLeafWithRight M (ks, cs, L) (i - 1))"

fun TryRedistributeInternalWithLeft :: "nat \<Rightarrow> parent \<Rightarrow> nat \<Rightarrow> attempt" where
  "TryRedistributeInternalWithLeft M (ks, cs, L) i =
     (if i = 0 then Refused
      else case (cs ! i, cs ! (i - 1)) of
          (Internal nk nc, Internal lk lc) \<Rightarrow>
            (if M \<le> length lk \<or> nk = [] \<or> nc = [] then Refused
             else Adjusted (ks[i - 1 := hd nk],
                    cs[i - 1 := Internal (lk @ [ks ! (i - 1)]) (lc @ [hd nc]),
                       i := Internal (tl nk) (tl nc)],
                    L))
        | _ \<Rightarrow> Refused)"

fun TryRedistributeInternalWithRight :: "nat \<Rightarrow> parent \<Rightarrow> nat \<Rightarrow> attempt" where
  "TryRedistributeInternalWithRight M (ks, cs, L) i =
     (if length cs \<le> i + 1 then Refused
      else case (cs ! i, cs ! (i + 1)) of
          (Internal nk nc, Internal rk rc) \<Rightarrow>
            (if M \<le> length rk \<or> nk = [] \<or> nc = [] then Refused
             else Adjusted (ks[i := last nk],
                    cs[i := Internal (butlast nk) (butlast nc),
                       i + 1 := Internal (ks ! i # rk) (last nc # rc)],
                    L))
        | _ \<Rightarrow> Refused)"

text \<open>
  The sizes of \<^verbatim>\<open>TryTwoToThreeSplitInternalWithRight\<close> are \<^verbatim>\<open>std::size_t\<close>; \<^verbatim>\<open>right_keys_count\<close>
  cannot wrap because both nodes hold at least \<^verbatim>\<open>MaxKeys() >= 3\<close> keys there.
\<close>

fun TryTwoToThreeSplitInternalWithRight :: "nat \<Rightarrow> parent \<Rightarrow> nat \<Rightarrow> attempt" where
  "TryTwoToThreeSplitInternalWithRight M (ks, cs, L) i =
     (if length cs \<le> i + 1 \<or> M \<le> length ks then Refused
      else case (cs ! i, cs ! (i + 1)) of
          (Internal lk lc, Internal rk rc) \<Rightarrow>
            (if length lk < M \<or> length rk < M then Refused
             else
               let all_keys = lk @ ks ! i # rk;
                   all_children = lc @ rc;
                   total_keys = length all_keys;
                   left_count = total_keys div 3;
                   middle_count = (total_keys - left_count) div 2;
                   right_count = total_keys - left_count - middle_count - 2
               in if left_count = 0 \<or> middle_count = 0 \<or> right_count = 0 then Emptied
                  else
                    let sep1_index = left_count;
                        sep2_index = left_count + 1 + middle_count;
                        sep1 = all_keys ! sep1_index;
                        sep2 = all_keys ! sep2_index;
                        left = Internal (take left_count all_keys) (take (left_count + 1) all_children);
                        middle = Internal (take middle_count (drop (sep1_index + 1) all_keys))
                                   (take (middle_count + 1) (drop (left_count + 1) all_children));
                        right = Internal (drop (sep2_index + 1) all_keys)
                                   (take (right_count + 1)
                                      (drop (left_count + 1 + (middle_count + 1)) all_children))
                    in Adjusted (insert_at (i + 1) sep2 (ks[i := sep1]),
                         insert_at (i + 1) middle (cs[i := left, i + 1 := right]),
                         L))
        | _ \<Rightarrow> Refused)"

fun TryTwoToThreeSplitInternalWithLeft :: "nat \<Rightarrow> parent \<Rightarrow> nat \<Rightarrow> attempt" where
  "TryTwoToThreeSplitInternalWithLeft M (ks, cs, L) i =
     (if i = 0 \<or> M \<le> length ks then Refused
      else TryTwoToThreeSplitInternalWithRight M (ks, cs, L) (i - 1))"

section \<open>Insertion\<close>

text \<open>The chains of attempts in \<^verbatim>\<open>InsertRecursive\<close> for a child that is full.\<close>

definition AdjustFullChild :: "nat \<Rightarrow> parent \<Rightarrow> nat \<Rightarrow> attempt" where
  "AdjustFullChild M p i =
     (if is_leaf (fst (snd p) ! i)
      then or_try (TryRedistributeLeafWithLeft M p i)
             (or_try (TryRedistributeLeafWithRight M p i)
                (or_try (TryTwoToThreeSplitLeafWithRight M p i)
                   (TryTwoToThreeSplitLeafWithLeft M p i)))
      else or_try (TryRedistributeInternalWithLeft M p i)
             (or_try (TryRedistributeInternalWithRight M p i)
                (or_try (TryTwoToThreeSplitInternalWithRight M p i)
                   (TryTwoToThreeSplitInternalWithLeft M p i))))"

text \<open>The leaf case of \<^verbatim>\<open>InsertRecursive\<close>.\<close>

definition InsertIntoLeaf ::
  "nat \<Rightarrow> leaf_ptr \<Rightarrow> string list \<Rightarrow> row_ids list \<Rightarrow> string \<Rightarrow> RowId \<Rightarrow> leaf_links
     \<Rightarrow> Node \<times> Split option \<times> leaf_links" where
  "InsertIntoLeaf M a ks vs key r L =
     (let position = LowerBound ks key in
      if position < length ks \<and> ks ! position = key then
        (let ids = vs ! position
         in (Leaf a ks (vs[position := (if ContainsRowId ids r then ids else ids @ [r])]), None, L))
      else
        (let ks' = insert_at position key ks;
             vs' = insert_at position [r] vs
         in if length ks' \<le> M then (Leaf a ks' vs', None, L)
            else let (left, sp, L') = SplitLeaf a ks' vs' L in (left, Some sp, L')))"

text \<open>What \<^verbatim>\<open>InsertRecursive\<close> does with the outcome of the recursive call.\<close>

definition InsertChildSplit ::
  "nat \<Rightarrow> string list \<Rightarrow> Node list \<Rightarrow> nat \<Rightarrow> Node \<Rightarrow> Split option \<Rightarrow> Node \<times> Split option" where
  "InsertChildSplit M ks cs i c child_split =
     (case child_split of
        None \<Rightarrow> (Internal ks (cs[i := c]), None)
      | Some (separator_key, right) \<Rightarrow>
          (let ks' = insert_at i separator_key ks;
               cs' = insert_at (i + 1) right (cs[i := c])
           in if length ks' \<le> M then (Internal ks' cs', None)
              else let (left, sp) = SplitInternal ks' cs' in (left, Some sp)))"

text \<open>
  The first number bounds the depth of the recursion. A call rearranges the children before it
  descends, so the recursion is not structural; \<open>Insert\<close> passes the depth of the leaves, and
  \<open>None\<close> stands for an exhausted bound or a moved-out child.
\<close>

fun InsertRecursive ::
  "nat \<Rightarrow> nat \<Rightarrow> Node \<Rightarrow> string \<Rightarrow> RowId \<Rightarrow> leaf_links \<Rightarrow> (Node \<times> Split option \<times> leaf_links) option"
where
  "InsertRecursive M d (Leaf a ks vs) key r L = Some (InsertIntoLeaf M a ks vs key r L)"
| "InsertRecursive M 0 (Internal ks cs) key r L = None"
| "InsertRecursive M (Suc d) (Internal ks cs) key r L =
     (let i = UpperBound ks key;
          adjusted = (if M \<le> length (node_keys (cs ! i)) then AdjustFullChild M (ks, cs, L) i
                      else Refused)
      in case (case adjusted of Refused \<Rightarrow> Some (ks, cs, L) | Adjusted p \<Rightarrow> Some p | Emptied \<Rightarrow> None) of
           None \<Rightarrow> None
         | Some (ks1, cs1, L1) \<Rightarrow>
             (let i1 = UpperBound ks1 key in
              case InsertRecursive M d (cs1 ! i1) key r L1 of
                None \<Rightarrow> None
              | Some (c, child_split, L2) \<Rightarrow>
                  (let (node, sp) = InsertChildSplit M ks1 cs1 i1 c child_split
                   in Some (node, sp, L2))))"

text \<open>The depth of the leftmost leaf, as \<^verbatim>\<open>ValidateCanonicalInvariants\<close> computes it.\<close>

fun leftmost_depth :: "Node \<Rightarrow> nat" where
  "leftmost_depth (Leaf _ _ _) = 0"
| "leftmost_depth (Internal ks []) = 1"
| "leftmost_depth (Internal ks (c # cs)) = Suc (leftmost_depth c)"

definition Insert :: "BStarPlusTree \<Rightarrow> string \<Rightarrow> RowId \<Rightarrow> BStarPlusTree Result" where
  "Insert t key r =
     (case InsertRecursive (max_keys_per_node t) (leftmost_depth (root t)) (root t) key r (links t) of
        None \<Rightarrow> Inl (Thrown UndefinedBehaviour)
      | Some (node, None, L) \<Rightarrow> Inr (t\<lparr>root := node, links := L\<rparr>)
      | Some (node, Some (separator_key, right), L) \<Rightarrow>
          Inr (t\<lparr>root := Internal [separator_key] [node, right], links := L\<rparr>))"

section \<open>Removal\<close>

definition BorrowForLeaf :: "parent \<Rightarrow> nat \<Rightarrow> nat \<Rightarrow> bool \<Rightarrow> parent" where
  "BorrowForLeaf p left_index right_index borrow_from_left =
     (case p of (ks, cs, L) \<Rightarrow>
        case (cs ! left_index, cs ! right_index) of
          (Leaf a lk lv, Leaf b rk rv) \<Rightarrow>
            (if borrow_from_left then
               (ks[left_index := last lk],
                cs[left_index := Leaf a (butlast lk) (butlast lv),
                   right_index := Leaf b (last lk # rk) (last lv # rv)], L)
             else
               (ks[left_index := hd (tl rk)],
                cs[left_index := Leaf a (lk @ [hd rk]) (lv @ [hd rv]),
                   right_index := Leaf b (tl rk) (tl rv)], L))
        | _ \<Rightarrow> p)"

definition MergeLeaves :: "parent \<Rightarrow> nat \<Rightarrow> nat \<Rightarrow> parent" where
  "MergeLeaves p left_index right_index =
     (case p of (ks, cs, L) \<Rightarrow>
        case (cs ! left_index, cs ! right_index) of
          (Leaf a lk lv, Leaf b rk rv) \<Rightarrow>
            (erase_at left_index ks,
             erase_at right_index (cs[left_index := Leaf a (lk @ rk) (lv @ rv)]),
             link_merge a b L)
        | _ \<Rightarrow> p)"

definition BorrowForInternal :: "parent \<Rightarrow> nat \<Rightarrow> nat \<Rightarrow> bool \<Rightarrow> parent" where
  "BorrowForInternal p left_index right_index borrow_from_left =
     (case p of (ks, cs, L) \<Rightarrow>
        case (cs ! left_index, cs ! right_index) of
          (Internal lk lc, Internal rk rc) \<Rightarrow>
            (if borrow_from_left then
               (ks[left_index := last lk],
                cs[left_index := Internal (butlast lk) (butlast lc),
                   right_index := Internal (ks ! left_index # rk) (last lc # rc)], L)
             else
               (ks[left_index := hd rk],
                cs[left_index := Internal (lk @ [ks ! left_index]) (lc @ [hd rc]),
                   right_index := Internal (tl rk) (tl rc)], L))
        | _ \<Rightarrow> p)"

definition MergeInternal :: "parent \<Rightarrow> nat \<Rightarrow> nat \<Rightarrow> parent" where
  "MergeInternal p left_index right_index =
     (case p of (ks, cs, L) \<Rightarrow>
        case (cs ! left_index, cs ! right_index) of
          (Internal lk lc, Internal rk rc) \<Rightarrow>
            (erase_at left_index ks,
             erase_at right_index (cs[left_index := Internal (lk @ ks ! left_index # rk) (lc @ rc)]),
             L)
        | _ \<Rightarrow> p)"

fun TryThreeToTwoLeaf :: "nat \<Rightarrow> parent \<Rightarrow> nat \<Rightarrow> attempt" where
  "TryThreeToTwoLeaf M (ks, cs, L) i =
     (if length cs \<le> i + 2 then Refused
      else case (cs ! i, cs ! (i + 1), cs ! (i + 2)) of
          (Leaf a lk lv, Leaf b mk mv, Leaf c rk rv) \<Rightarrow>
            (let all_keys = lk @ mk @ rk;
                 all_values = lv @ mv @ rv;
                 left_size = length all_keys div 2;
                 right_size = length all_keys - left_size
             in if 2 * M < length all_keys then Refused
                else if length all_keys < MinLeafKeys M * 2 then Refused
                else if left_size < MinLeafKeys M \<or> right_size < MinLeafKeys M then Refused
                else Adjusted
                  (erase_at (i + 1) (ks[i := hd (drop left_size all_keys)]),
                   erase_at (i + 2)
                     (cs[i := Leaf a (take left_size all_keys) (take left_size all_values),
                         i + 1 := Leaf b (drop left_size all_keys) (drop left_size all_values)]),
                   link_three_to_two a b c L))
        | _ \<Rightarrow> Refused)"

fun TryThreeToTwoInternal :: "nat \<Rightarrow> parent \<Rightarrow> nat \<Rightarrow> attempt" where
  "TryThreeToTwoInternal M (ks, cs, L) i =
     (if length cs \<le> i + 2 then Refused
      else case (cs ! i, cs ! (i + 1), cs ! (i + 2)) of
          (Internal lk lc, Internal mk mc, Internal rk rc) \<Rightarrow>
            (let all_keys = lk @ ks ! i # mk @ ks ! (i + 1) # rk;
                 all_children = lc @ mc @ rc;
                 left_key_count = length all_keys div 2;
                 sep_index = left_key_count;
                 right_key_count = length all_keys - left_key_count - 1
             in if 2 * M + 1 < length all_keys then Emptied
                else if length all_keys < MinInternalKeys M * 2 + 1 then Emptied
                else if left_key_count < MinInternalKeys M \<or> right_key_count < MinInternalKeys M
                then Emptied
                else Adjusted
                  (erase_at (i + 1) (ks[i := all_keys ! sep_index]),
                   erase_at (i + 2)
                     (cs[i := Internal (take left_key_count all_keys)
                                (take (left_key_count + 1) all_children),
                         i + 1 := Internal (drop (sep_index + 1) all_keys)
                                (take (right_key_count + 1) (drop (left_key_count + 1) all_children))]),
                   L))
        | _ \<Rightarrow> Refused)"

text \<open>The choices between the leaf and the internal variant in \<^verbatim>\<open>FixChildUnderflow\<close>.\<close>

definition TryThreeToTwo :: "bool \<Rightarrow> nat \<Rightarrow> parent \<Rightarrow> nat \<Rightarrow> attempt" where
  "TryThreeToTwo leaf M p i = (if leaf then TryThreeToTwoLeaf M p i else TryThreeToTwoInternal M p i)"

definition MergeChildren :: "bool \<Rightarrow> parent \<Rightarrow> nat \<Rightarrow> nat \<Rightarrow> parent" where
  "MergeChildren leaf p left_index right_index =
     (if leaf then MergeLeaves p left_index right_index else MergeInternal p left_index right_index)"

definition BorrowForChild :: "bool \<Rightarrow> parent \<Rightarrow> nat \<Rightarrow> nat \<Rightarrow> bool \<Rightarrow> parent" where
  "BorrowForChild leaf p left_index right_index borrow_from_left =
     (if leaf then BorrowForLeaf p left_index right_index borrow_from_left
      else BorrowForInternal p left_index right_index borrow_from_left)"

definition FixChildUnderflow :: "nat \<Rightarrow> parent \<Rightarrow> nat \<Rightarrow> parent option" where
  "FixChildUnderflow M p i =
     (let cs = fst (snd p);
          child = cs ! i;
          leaf = is_leaf child;
          min_keys = (if leaf then MinLeafKeys M else MinInternalKeys M)
      in if min_keys \<le> length (node_keys child) \<or> length cs = 1 then Some p
         else if 0 < i \<and> min_keys < length (node_keys (cs ! (i - 1)))
         then Some (BorrowForChild leaf p (i - 1) i True)
         else if i + 1 < length cs \<and> min_keys < length (node_keys (cs ! (i + 1)))
         then Some (BorrowForChild leaf p i (i + 1) False)
         else case (if 3 \<le> length cs
                    then or_try (if 0 < i \<and> i + 1 < length cs then TryThreeToTwo leaf M p (i - 1)
                                 else Refused)
                           (or_try (if i + 2 < length cs then TryThreeToTwo leaf M p i else Refused)
                              (if 2 \<le> i then TryThreeToTwo leaf M p (i - 2) else Refused))
                    else Refused) of
                Adjusted q \<Rightarrow> Some q
              | Emptied \<Rightarrow> None
              | Refused \<Rightarrow>
                  (if length cs = 2
                   then (if 0 < i then Some (MergeChildren leaf p (i - 1) i)
                         else Some (MergeChildren leaf p i (i + 1)))
                   else Some p))"

text \<open>The leaf case of \<^verbatim>\<open>RemoveRecursive\<close>: \<open>None\<close> is \<^verbatim>\<open>return false\<close>.\<close>

definition RemoveFromLeaf ::
  "string list \<Rightarrow> row_ids list \<Rightarrow> string \<Rightarrow> RowId \<Rightarrow> (string list \<times> row_ids list) option" where
  "RemoveFromLeaf ks vs key r =
     (let position = LowerBound ks key in
      if length ks \<le> position \<or> ks ! position \<noteq> key then None
      else
        let ids = vs ! position in
        if r \<notin> set ids then None
        else
          let ids' = remove1 r ids in
          if ids' = [] then Some (erase_at position ks, erase_at position vs)
          else Some (ks, vs[position := ids']))"

function RemoveRecursive ::
  "nat \<Rightarrow> Node \<Rightarrow> string \<Rightarrow> RowId \<Rightarrow> leaf_links \<Rightarrow> (bool \<times> Node \<times> leaf_links) option" where
  "RemoveRecursive M (Leaf a ks vs) key r L =
     (case RemoveFromLeaf ks vs key r of
        None \<Rightarrow> Some (False, Leaf a ks vs, L)
      | Some (ks', vs') \<Rightarrow> Some (True, Leaf a ks' vs', L))"
| "RemoveRecursive M (Internal ks cs) key r L =
     (let i = UpperBound ks key in
      if i < length cs then
        (case RemoveRecursive M (cs ! i) key r L of
           None \<Rightarrow> None
         | Some (removed, c, L1) \<Rightarrow>
             (if \<not> removed then Some (False, Internal ks (cs[i := c]), L1)
              else case FixChildUnderflow M (ks, cs[i := c], L1) i of
                     None \<Rightarrow> None
                   | Some (ks2, cs2, L2) \<Rightarrow> Some (True, Internal ks2 cs2, L2)))
      else None)"
  by pat_completeness auto
termination
  by (relation "measure (\<lambda>(_, t, _). size t)") (auto simp: less_Suc_eq_le Let_def
      intro!: trans_le_add2 size_list_estimation' [OF nth_mem])

definition Remove :: "BStarPlusTree \<Rightarrow> string \<Rightarrow> RowId \<Rightarrow> BStarPlusTree Result" where
  "Remove t key r =
     (case RemoveRecursive (max_keys_per_node t) (root t) key r (links t) of
        None \<Rightarrow> Inl (Thrown UndefinedBehaviour)
      | Some (_, node, L) \<Rightarrow>
          Inr (t\<lparr>root := (case node of Internal ks [c] \<Rightarrow> c | _ \<Rightarrow> node), links := L\<rparr>))"

section \<open>Lookup and range scan\<close>

definition Find :: "BStarPlusTree \<Rightarrow> string \<Rightarrow> row_ids Result" where
  "Find t key =
     (case FindLeaf (root t) key of
        None \<Rightarrow> Inl (Thrown UndefinedBehaviour)
      | Some (a, ks, vs) \<Rightarrow>
          (let position = LowerBound ks key in
           if length ks \<le> position \<or> ks ! position \<noteq> key then Inr [] else Inr (vs ! position)))"

text \<open>The leaves of a tree from left to right; a leaf pointer is resolved in this list.\<close>

fun leaves :: "Node \<Rightarrow> (leaf_ptr \<times> string list \<times> row_ids list) list" where
  "leaves (Leaf a ks vs) = [(a, ks, vs)]"
| "leaves (Internal ks cs) = concat (map leaves cs)"

definition deref :: "Node \<Rightarrow> leaf_ptr \<Rightarrow> (string list \<times> row_ids list) option" where
  "deref t p = map_of (leaves t) p"

text \<open>The loop over one leaf: the entries taken from it, and whether the scan ends inside it.\<close>

fun ScanLeaf :: "string \<Rightarrow> string \<Rightarrow> string list \<Rightarrow> row_ids list \<Rightarrow> IndexEntry list \<times> bool" where
  "ScanLeaf lower upper (k # ks) (v # vs) =
     (if k < lower then ScanLeaf lower upper ks vs
      else if upper \<le> k then ([], True)
      else let (es, stop) = ScanLeaf lower upper ks vs in ((k, v) # es, stop))"
| "ScanLeaf lower upper _ _ = ([], False)"

text \<open>
  The loop over the chain of leaves. Nothing in the loop itself bounds it, so it is a partial
  function; \<open>None\<close> is a loop that never ends or a dangling pointer.
\<close>

partial_function (option) ScanChain ::
  "Node \<Rightarrow> leaf_links \<Rightarrow> string \<Rightarrow> string \<Rightarrow> leaf_ptr option \<Rightarrow> IndexEntry list option" where
  "ScanChain t L lower upper leaf =
     (case leaf of
        None \<Rightarrow> Some []
      | Some p \<Rightarrow>
          (case deref t p of
             None \<Rightarrow> None
           | Some (ks, vs) \<Rightarrow>
               (case ScanLeaf lower upper ks vs of
                  (es, stop) \<Rightarrow>
                    (if stop then Some es
                     else Option.bind (ScanChain t L lower upper (next_leaf L p))
                            (\<lambda>rest. Some (es @ rest))))))"

definition RangeScan :: "BStarPlusTree \<Rightarrow> string \<Rightarrow> string \<Rightarrow> IndexEntry list Result" where
  "RangeScan t lower upper =
     (case FindLeaf (root t) lower of
        None \<Rightarrow> Inl (Thrown UndefinedBehaviour)
      | Some (p, _, _) \<Rightarrow>
          (case ScanChain (root t) (links t) lower upper (Some p) of
             None \<Rightarrow> Inl (Thrown UndefinedBehaviour)
           | Some es \<Rightarrow> Inr es))"

section \<open>The invariant check\<close>

fun strictly_increasing :: "string list \<Rightarrow> bool" where
  "strictly_increasing (x # y # xs) = (x < y \<and> strictly_increasing (y # xs))"
| "strictly_increasing _ = True"

definition above_min :: "string option \<Rightarrow> string \<Rightarrow> bool" where
  "above_min min_key k = (case min_key of None \<Rightarrow> True | Some m \<Rightarrow> m \<le> k)"

definition below_max :: "string option \<Rightarrow> string \<Rightarrow> bool" where
  "below_max max_key k = (case max_key of None \<Rightarrow> True | Some m \<Rightarrow> k < m)"

text \<open>The checks of \<^verbatim>\<open>ValidateNode\<close> on a leaf, given the previous leaf (its address and keys).\<close>

definition ValidateLeaf ::
  "leaf_links \<Rightarrow> string option \<Rightarrow> string option \<Rightarrow> (leaf_ptr \<times> string list) option
     \<Rightarrow> leaf_ptr \<Rightarrow> string list \<Rightarrow> row_ids list \<Rightarrow> bool" where
  "ValidateLeaf L min_key max_key previous a ks vs =
     (length vs = length ks \<and>
      list_all (\<lambda>k. above_min min_key k \<and> below_max max_key k) ks \<and>
      list_all (\<lambda>v. v \<noteq> []) vs \<and>
      (case previous of
         Some (p, pks) \<Rightarrow>
           next_leaf L p = Some a \<and> prev_leaf L a = Some p \<and>
           (pks = [] \<or> ks = [] \<or> last pks < hd ks)
       | None \<Rightarrow> prev_leaf L a = None))"

text \<open>\<open>None\<close> is \<^verbatim>\<open>return false\<close>; otherwise the result is the new value of \<^verbatim>\<open>*previous_leaf\<close>.\<close>

function (sequential) ValidateNode ::
  "nat \<Rightarrow> leaf_links \<Rightarrow> Node \<Rightarrow> bool \<Rightarrow> bool \<Rightarrow> nat \<Rightarrow> nat \<Rightarrow> string option \<Rightarrow> string option
     \<Rightarrow> (leaf_ptr \<times> string list) option \<Rightarrow> (leaf_ptr \<times> string list) option option"
and ValidateChildren ::
  "nat \<Rightarrow> leaf_links \<Rightarrow> string list \<Rightarrow> Node list \<Rightarrow> bool \<Rightarrow> nat \<Rightarrow> nat \<Rightarrow> string option \<Rightarrow> string option
     \<Rightarrow> (leaf_ptr \<times> string list) option \<Rightarrow> (leaf_ptr \<times> string list) option option"
where
  "ValidateNode M L (Leaf a ks vs) is_root parent_is_root leaf_depth depth min_key max_key previous =
     (if M < length ks then None
      else if \<not> strictly_increasing ks then None
      else if \<not> is_root \<and> \<not> parent_is_root \<and> length ks < MinLeafKeys M then None
      else if depth \<noteq> leaf_depth then None
      else if \<not> ValidateLeaf L min_key max_key previous a ks vs then None
      else Some (Some (a, ks)))"
| "ValidateNode M L (Internal ks cs) is_root parent_is_root leaf_depth depth min_key max_key previous =
     (if M < length ks then None
      else if \<not> strictly_increasing ks then None
      else if \<not> is_root \<and> \<not> parent_is_root \<and> length ks < MinInternalKeys M then None
      else if length cs \<noteq> length ks + 1 then None
      else ValidateChildren M L ks cs is_root leaf_depth depth min_key max_key previous)"
| "ValidateChildren M L (k # ks) (c # cs) is_root leaf_depth depth min_key max_key previous =
     (case ValidateNode M L c False is_root leaf_depth (depth + 1) min_key (Some k) previous of
        None \<Rightarrow> None
      | Some previous' \<Rightarrow>
          ValidateChildren M L ks cs is_root leaf_depth depth (Some k) max_key previous')"
| "ValidateChildren M L [] (c # cs) is_root leaf_depth depth min_key max_key previous =
     ValidateNode M L c False is_root leaf_depth (depth + 1) min_key max_key previous"
| "ValidateChildren M L ks [] is_root leaf_depth depth min_key max_key previous = Some previous"
  by pat_completeness auto
termination
  by (relation "measure (\<lambda>x. case x of
        Inl (_, _, t, _) \<Rightarrow> size t | Inr (_, _, _, cs, _) \<Rightarrow> size_list size cs)") auto

definition ValidateCanonicalInvariants :: "BStarPlusTree \<Rightarrow> bool" where
  "ValidateCanonicalInvariants t =
     (case ValidateNode (max_keys_per_node t) (links t) (root t) True False
             (leftmost_depth (root t)) 0 None None None of
        None \<Rightarrow> False
      | Some previous \<Rightarrow>
          (case previous of None \<Rightarrow> True | Some (p, _) \<Rightarrow> next_leaf (links t) p = None))"

end
