(* ===== verification/BStar_View.thy ===== *)
theory BStar_View
  imports BStar_Tree
begin

text \<open>
  The abstract view of a B*+ tree that all its correctness proofs use. The \<^emph>\<open>outline\<close> of a node
  lists its entries and separators from left to right; an item order puts a separator right before
  an entry with the same key. A tree is ordered when its outline is strictly increasing, and most
  rebalancing steps leave the outline as it is. The other parts of the invariant are the shape
  (depth, number of keys) and the chain of leaf pointers.
\<close>

section \<open>Outline items\<close>

datatype item = Sep (item_key: string) | Ent (item_key: string)

instantiation item :: linorder
begin

fun less_item :: "item \<Rightarrow> item \<Rightarrow> bool" where
  "less_item (Sep j) (Sep k) = (j < k)"
| "less_item (Sep j) (Ent k) = (j \<le> k)"
| "less_item (Ent j) (Sep k) = (j < k)"
| "less_item (Ent j) (Ent k) = (j < k)"

definition less_eq_item :: "item \<Rightarrow> item \<Rightarrow> bool" where
  "less_eq_item x y \<longleftrightarrow> x < y \<or> x = y"

instance
proof
  fix x y z :: item
  show "(x < y) = (x \<le> y \<and> \<not> y \<le> x)"
    by (cases x; cases y) (auto simp: less_eq_item_def)
  show "x \<le> x" by (simp add: less_eq_item_def)
  show "x \<le> y \<Longrightarrow> y \<le> z \<Longrightarrow> x \<le> z"
    by (cases x; cases y; cases z) (auto simp: less_eq_item_def)
  show "x \<le> y \<Longrightarrow> y \<le> x \<Longrightarrow> x = y"
    by (cases x; cases y) (auto simp: less_eq_item_def)
  show "x \<le> y \<or> y \<le> x"
    by (cases x; cases y) (auto simp: less_eq_item_def)
qed

end

text \<open>
  \<open>join ks xs\<close> puts the separators \<open>ks\<close> between the outlines \<open>xs\<close>; the two other functions are
  its left and right parts around one child.
\<close>

fun join :: "string list \<Rightarrow> item list list \<Rightarrow> item list" where
  "join ks [] = []"
| "join [] (x # xs) = x @ concat xs"
| "join (k # ks) (x # xs) = x @ Sep k # join ks xs"

fun join_left :: "string list \<Rightarrow> item list list \<Rightarrow> item list" where
  "join_left (k # ks) (x # xs) = x @ Sep k # join_left ks xs"
| "join_left _ _ = []"

fun join_right :: "string list \<Rightarrow> item list list \<Rightarrow> item list" where
  "join_right (k # ks) (x # xs) = Sep k # x @ join_right ks xs"
| "join_right _ _ = []"

fun outline :: "Node \<Rightarrow> item list" where
  "outline (Leaf a ks vs) = map Ent ks"
| "outline (Internal ks cs) = join ks (map outline cs)"

fun entries :: "Node \<Rightarrow> IndexEntry list" where
  "entries (Leaf a ks vs) = zip ks vs"
| "entries (Internal ks cs) = concat (map entries cs)"

definition leaf_ptrs :: "Node \<Rightarrow> leaf_ptr list" where
  "leaf_ptrs t = map fst (leaves t)"

text \<open>
  The shape: all leaves at depth \<open>n\<close>, at least \<open>lo\<close> keys in this node, at least the minimum in
  every node below it, and never more than \<open>M\<close>.
\<close>

fun shape :: "nat \<Rightarrow> nat \<Rightarrow> nat \<Rightarrow> Node \<Rightarrow> bool" where
  "shape M lo 0 (Leaf a ks vs) =
     (lo \<le> length ks \<and> length ks \<le> M \<and> length vs = length ks \<and> (\<forall>v \<in> set vs. v \<noteq> []))"
| "shape M lo (Suc n) (Internal ks cs) =
     (lo \<le> length ks \<and> length ks \<le> M \<and> length cs = Suc (length ks) \<and>
      (\<forall>c \<in> set cs. shape M (MinLeafKeys M) n c))"
| "shape M lo _ _ = False"

abbreviation sorted_items :: "item list \<Rightarrow> bool" where
  "sorted_items \<equiv> sorted_wrt (<)"

text \<open>
  The orders for which the code's arithmetic keeps every node at least half full: even, and at
  least 6. The default of 8 is one of them.
\<close>

definition good_order :: "nat \<Rightarrow> bool" where
  "good_order M \<longleftrightarrow> even M \<and> 6 \<le> M"

definition tree_inv :: "BStarPlusTree \<Rightarrow> bool" where
  "tree_inv t \<longleftrightarrow>
     good_order (max_keys_per_node t) \<and>
     shape (max_keys_per_node t) (if is_leaf (root t) then 0 else 1) (leftmost_depth (root t)) (root t) \<and>
     sorted_items (outline (root t)) \<and>
     chained (links t) (leaf_ptrs (root t))"

section \<open>The reference operations on entry lists\<close>

text \<open>Adding and removing a row id in a key-sorted list of entries.\<close>

fun insert_entry :: "string \<Rightarrow> RowId \<Rightarrow> IndexEntry list \<Rightarrow> IndexEntry list" where
  "insert_entry key r [] = [(key, [r])]"
| "insert_entry key r ((k, ids) # es) =
     (if key < k then (key, [r]) # (k, ids) # es
      else if key = k then (k, if r \<in> set ids then ids else ids @ [r]) # es
      else (k, ids) # insert_entry key r es)"

fun remove_entry :: "string \<Rightarrow> RowId \<Rightarrow> IndexEntry list \<Rightarrow> IndexEntry list" where
  "remove_entry key r [] = []"
| "remove_entry key r ((k, ids) # es) =
     (if key = k then (if remove1 r ids = [] then es else (k, remove1 r ids) # es)
      else (k, ids) # remove_entry key r es)"

section \<open>Lemmas on joins\<close>

lemma join_split:
  assumes "length ks1 = length xs1" "length ks2 = length xs2"
  shows "join (ks1 @ ks2) (xs1 @ x # xs2) = join_left ks1 xs1 @ x @ join_right ks2 xs2"
  using assms(1)
proof (induction ks1 xs1 rule: list_induct2)
  case Nil
  show ?case using assms(2)
    by (induction ks2 xs2 arbitrary: x rule: list_induct2) auto
qed auto

lemma join_append:
  assumes "length xs = Suc (length ks)"
  shows "join (ks @ k # ks') (xs @ ys) = join ks xs @ Sep k # join ks' ys"
  using assms
proof (induction ks arbitrary: xs)
  case Nil
  then show ?case by (cases xs) auto
next
  case (Cons a ks)
  then show ?case by (cases xs) auto
qed

lemma join_left_append:
  "length ks = length xs \<Longrightarrow> join_left (ks @ ks') (xs @ xs') = join_left ks xs @ join_left ks' xs'"
  by (induction ks xs rule: list_induct2) auto

lemma set_join: "length xs = Suc (length ks) \<Longrightarrow> set (join ks xs) = Sep ` set ks \<union> \<Union> (set ` set xs)"
proof (induction ks arbitrary: xs)
  case Nil
  then show ?case by (cases xs) auto
next
  case (Cons k ks)
  then show ?case by (cases xs) auto
qed

section \<open>Shape and order of a node\<close>

lemma shape_key_count: "shape M lo n t \<Longrightarrow> lo \<le> length (node_keys t) \<and> length (node_keys t) \<le> M"
  by (cases "(M, lo, n, t)" rule: shape.cases) auto

lemma shape_mono: "shape M lo n t \<Longrightarrow> lo' \<le> length (node_keys t) \<Longrightarrow> shape M lo' n t"
  by (cases "(M, lo, n, t)" rule: shape.cases) auto

lemma shape_is_leaf: "shape M lo n t \<Longrightarrow> is_leaf t \<longleftrightarrow> n = 0"
  by (cases "(M, lo, n, t)" rule: shape.cases) auto

lemma shape_0E:
  assumes "shape M lo 0 t"
  obtains a ks vs where "t = Leaf a ks vs" "lo \<le> length ks" "length ks \<le> M"
    "length vs = length ks" "\<forall>v \<in> set vs. v \<noteq> []"
  using assms by (cases t) auto

lemma shape_SucE:
  assumes "shape M lo (Suc n) t"
  obtains ks cs where "t = Internal ks cs" "lo \<le> length ks" "length ks \<le> M"
    "length cs = Suc (length ks)" "\<forall>c \<in> set cs. shape M (MinLeafKeys M) n c"
  using assms by (cases t) auto

lemma shape_leftmost_depth: "shape M lo n t \<Longrightarrow> leftmost_depth t = n"
proof (induction n arbitrary: lo t)
  case 0
  then show ?case by (auto elim: shape_0E)
next
  case (Suc n)
  from Suc.prems obtain ks cs where t: "t = Internal ks cs" "length cs = Suc (length ks)"
    and cs: "\<forall>c \<in> set cs. shape M (MinLeafKeys M) n c"
    by (auto elim: shape_SucE)
  then obtain c cs' where "cs = c # cs'" by (cases cs) auto
  with t cs Suc.IH show ?case by auto
qed

lemma MinInternal_eq [simp]: "MinInternalKeys M = MinLeafKeys M"
  by (simp add: MinLeafKeys_def MinInternalKeys_def)

lemma good_order_half:
  assumes "good_order M"
  obtains m where "M = 2 * m" "3 \<le> m" "MinLeafKeys M = m"
  using assms by (auto simp: good_order_def MinLeafKeys_def elim!: evenE)

lemma good_order_default: "good_order default_max_keys"
  by (simp add: good_order_def default_max_keys_def)

text \<open>The keys of the entries are the entry items of the outline.\<close>

lemma outline_entries:
  assumes "shape M lo n t"
  shows "{k. Ent k \<in> set (outline t)} = fst ` set (entries t)"
  using assms
proof (induction n arbitrary: lo t)
  case 0
  then obtain a ks vs where t: "t = Leaf a ks vs" "length vs = length ks"
    by (auto elim: shape_0E)
  then have "fst ` set (zip ks vs) = set ks"
    by (metis list.set_map map_fst_zip)
  with t show ?case by auto
next
  case (Suc n)
  from Suc.prems obtain ks cs where t: "t = Internal ks cs" "length cs = Suc (length ks)"
    and cs: "\<forall>c \<in> set cs. shape M (MinLeafKeys M) n c"
    by (auto elim: shape_SucE)
  have "{k. Ent k \<in> set (outline t)} = (\<Union>c \<in> set cs. {k. Ent k \<in> set (outline c)})"
    using t by (auto simp: set_join)
  also have "\<dots> = (\<Union>c \<in> set cs. fst ` set (entries c))"
    using Suc.IH cs by (intro SUP_cong) blast+
  finally show ?case using t by (simp add: image_UN)
qed

lemma entries_key_in_outline:
  "shape M lo n t \<Longrightarrow> e \<in> set (entries t) \<Longrightarrow> Ent (fst e) \<in> set (outline t)"
  using outline_entries [of M lo n t] by auto

section \<open>Separators inside runs of entries\<close>

text \<open>A separator may be dropped, or put right before an entry that is not the first of its run.\<close>

lemma sorted_items_drop: "sorted_items (A @ x # B) \<Longrightarrow> sorted_items (A @ B)"
  by (rule sorted_wrt_drop_mid)

lemma sorted_items_sep:
  assumes "sorted_items (A @ map Ent (ks @ ks') @ B)" "ks \<noteq> []" "ks' \<noteq> []"
  shows "sorted_items (A @ map Ent ks @ Sep (hd ks') # map Ent ks' @ B)"
proof -
  let ?k = "hd ks'"
  from assms(2) have "last ks \<in> set ks" by simp
  have k: "?k \<in> set ks'" using assms(3) by simp
  from assms(1) have lt: "\<forall>a \<in> set (map Ent ks). \<forall>b \<in> set (map Ent ks' @ B). a < b"
    unfolding map_append append_assoc sorted_wrt_append by blast
  have ks: "Ent x < Sep ?k" if "x \<in> set ks" for x
    using bspec [OF bspec [OF lt], of "Ent x" "Ent ?k"] that k by simp
  have A: "x < Sep ?k" if "x \<in> set A" for x
  proof -
    from assms that \<open>last ks \<in> set ks\<close> have "x < Ent (last ks)"
      by (auto simp: sorted_wrt_append)
    with ks [OF \<open>last ks \<in> set ks\<close>] show ?thesis by (metis less_trans)
  qed
  have ks': "Sep ?k < Ent x" if "x \<in> set ks'" for x
    using assms(1,3) that by (cases ks') (auto simp: sorted_wrt_append sorted_wrt_map ball_Un)
  have B: "Sep ?k < x" if "x \<in> set B" for x
  proof -
    from assms that k have "Ent ?k < x" by (auto simp: sorted_wrt_append)
    then show ?thesis by (cases x) auto
  qed
  show ?thesis
    using assms(1) A ks ks' B by (auto simp: sorted_wrt_append)
qed

section \<open>Replacing a block of neighbouring children\<close>

text \<open>
  \<open>view_ok A B P Q E t L\<close>: between the outlines \<open>A\<close> and \<open>B\<close> of what surrounds it the node \<open>t\<close> is
  ordered, it holds the entries \<open>E\<close>, and between the leaves \<open>P\<close> and \<open>Q\<close> its leaves are chained.
\<close>

definition view_ok ::
  "item list \<Rightarrow> item list \<Rightarrow> leaf_ptr list \<Rightarrow> leaf_ptr list \<Rightarrow> IndexEntry list \<Rightarrow> Node \<Rightarrow> leaf_links \<Rightarrow> bool"
where
  "view_ok A B P Q E t L \<longleftrightarrow>
     sorted_items (A @ outline t @ B) \<and> entries t = E \<and> chained L (P @ leaf_ptrs t @ Q)"

text \<open>A rebalancing step replaces the children \<open>mc\<close> and the separators \<open>mk\<close> between them.\<close>

definition block_step ::
  "string list \<Rightarrow> Node list \<Rightarrow> leaf_links \<Rightarrow> string list \<Rightarrow> Node list \<Rightarrow> leaf_links \<Rightarrow> bool" where
  "block_step mk mc L mk' mc' L' \<longleftrightarrow>
     length mc = Suc (length mk) \<and> length mc' = Suc (length mk') \<and>
     (\<forall>A B. sorted_items (A @ join mk (map outline mc) @ B) \<longrightarrow>
            sorted_items (A @ join mk' (map outline mc') @ B)) \<and>
     concat (map entries mc') = concat (map entries mc) \<and>
     (\<forall>P Q. chained L (P @ concat (map leaf_ptrs mc) @ Q) \<longrightarrow>
            chained L' (P @ concat (map leaf_ptrs mc') @ Q))"

lemma leaf_ptrs_simps [simp]:
  "leaf_ptrs (Leaf a ks vs) = [a]"
  "leaf_ptrs (Internal ks cs) = concat (map leaf_ptrs cs)"
  by (simp_all add: leaf_ptrs_def [abs_def] map_concat comp_def)

lemma join_block:
  assumes "length ks1 = length xs1" "length ks2 = length xs2" "length mx = Suc (length mk)"
  shows "join (ks1 @ mk @ ks2) (xs1 @ mx @ xs2) = join_left ks1 xs1 @ join mk mx @ join_right ks2 xs2"
  using assms(3,1,2)
proof (induction mk arbitrary: mx xs1 ks1)
  case Nil
  then obtain x where "mx = [x]" by (cases mx) auto
  with Nil show ?case by (simp add: join_split)
next
  case (Cons k mk)
  then obtain x mx' where mx: "mx = x # mx'" by (cases mx) auto
  have "join ((ks1 @ [k]) @ mk @ ks2) ((xs1 @ [x]) @ mx' @ xs2)
      = join_left (ks1 @ [k]) (xs1 @ [x]) @ join mk mx' @ join_right ks2 xs2"
    using Cons mx by (intro Cons.IH) auto
  with Cons.prems mx show ?case by (simp add: join_left_append)
qed

lemma replace_block:
  assumes "view_ok A B P Q E (Internal (ks1 @ mk @ ks2) (cs1 @ mc @ cs2)) L"
    and "block_step mk mc L mk' mc' L'"
    and "length ks1 = length cs1" "length ks2 = length cs2"
  shows "view_ok A B P Q E (Internal (ks1 @ mk' @ ks2) (cs1 @ mc' @ cs2)) L'"
proof -
  let ?JL = "join_left ks1 (map outline cs1)" and ?JR = "join_right ks2 (map outline cs2)"
  have len: "length mc = Suc (length mk)" "length mc' = Suc (length mk')"
    using assms(2) by (auto simp: block_step_def)
  have "sorted_items ((A @ ?JL) @ join mk (map outline mc) @ (?JR @ B))"
    using assms len by (simp add: view_ok_def join_block)
  then have "sorted_items ((A @ ?JL) @ join mk' (map outline mc') @ (?JR @ B))"
    using assms(2) unfolding block_step_def by blast
  moreover have "chained L ((P @ concat (map leaf_ptrs cs1)) @ concat (map leaf_ptrs mc) @
      (concat (map leaf_ptrs cs2) @ Q))"
    using assms(1) by (simp add: view_ok_def)
  then have "chained L' ((P @ concat (map leaf_ptrs cs1)) @ concat (map leaf_ptrs mc') @
      (concat (map leaf_ptrs cs2) @ Q))"
    using assms(2) unfolding block_step_def by blast
  ultimately show ?thesis
    using assms len by (simp add: view_ok_def join_block block_step_def)
qed

subsection \<open>Leaf blocks\<close>

lemma zip_append_eq:
  assumes "length av = length ak" "length av' = length ak'"
    and "ak @ bk = ak' @ bk'" "av @ bv = av' @ bv'"
  shows "zip ak av @ zip bk bv = zip ak' av' @ zip bk' bv'"
  by (metis assms zip_append)

lemma leaf_shift_step:
  assumes "ak @ bk = ak' @ bk'" "av @ bv = av' @ bv'"
    and "length av = length ak" "length av' = length ak'"
    and "ak' \<noteq> []" "bk' \<noteq> []"
  shows "block_step [k] [Leaf a ak av, Leaf b bk bv] L [hd bk'] [Leaf a ak' av', Leaf b bk' bv'] L"
proof -
  have "sorted_items (A @ map Ent ak' @ Sep (hd bk') # map Ent bk' @ B)"
    if "sorted_items (A @ map Ent ak @ Sep k # map Ent bk @ B)" for A B
  proof (rule sorted_items_sep)
    show "sorted_items (A @ map Ent (ak' @ bk') @ B)"
      using sorted_items_drop [of "A @ map Ent ak" "Sep k" "map Ent bk @ B"] that
      by (metis append.assoc assms(1) map_append)
  qed (use assms in auto)
  then show ?thesis
    using zip_append_eq [OF assms(3,4,1,2)] by (simp add: block_step_def)
qed

lemma leaf_two_to_three_step:
  assumes "ak @ bk = ak' @ ck' @ bk'" "av @ bv = av' @ cv' @ bv'"
    and "length av = length ak" "length bv = length bk"
    and "length av' = length ak'" "length cv' = length ck'"
    and "ak' \<noteq> []" "bk' \<noteq> []" "ck' \<noteq> []" "new_leaf L = (c, L1)"
  shows "block_step [k] [Leaf a ak av, Leaf b bk bv] L
           [hd ck', hd bk'] [Leaf a ak' av', Leaf c ck' cv', Leaf b bk' bv'] (link_middle a c b L1)"
proof -
  have "sorted_items (A @ map Ent ak' @ Sep (hd ck') # map Ent ck' @ Sep (hd bk') # map Ent bk' @ B)"
    if "sorted_items (A @ map Ent ak @ Sep k # map Ent bk @ B)" for A B
  proof -
    have "sorted_items (A @ map Ent ((ak' @ ck') @ bk') @ B)"
      using sorted_items_drop [of "A @ map Ent ak" "Sep k" "map Ent bk @ B"] that
      by (metis append.assoc assms(1) map_append)
    then have "sorted_items (A @ map Ent (ak' @ ck') @ Sep (hd bk') # map Ent bk' @ B)"
      using assms by (intro sorted_items_sep) auto
    then show ?thesis
      using assms sorted_items_sep [of A ak' ck' "Sep (hd bk') # map Ent bk' @ B"] by simp
  qed
  moreover have "zip ak av @ zip bk bv = zip ak' av' @ zip ck' cv' @ zip bk' bv'"
    by (metis assms(1-6) zip_append)
  moreover have "chained (link_middle a c b L1) (P @ a # c # b # Q)"
    if "chained L (P @ a # b # Q)" for P Q
    using that assms(10) by (rule chained_middle)
  ultimately show ?thesis by (simp add: block_step_def)
qed

lemma leaf_merge_step:
  assumes "length av = length ak"
  shows "block_step [k] [Leaf a ak av, Leaf b bk bv] L [] [Leaf a (ak @ bk) (av @ bv)] (link_merge a b L)"
proof -
  have "sorted_items (A @ map Ent (ak @ bk) @ B)"
    if "sorted_items (A @ map Ent ak @ Sep k # map Ent bk @ B)" for A B
    using sorted_items_drop [of "A @ map Ent ak" "Sep k" "map Ent bk @ B"] that by simp
  then show ?thesis
    using assms chained_merge by (auto simp: block_step_def)
qed

lemma leaf_three_to_two_step:
  assumes "ak @ bk @ ck = ak' @ bk'" "av @ bv @ cv = av' @ bv'"
    and "length av = length ak" "length bv = length bk" "length av' = length ak'"
    and "ak' \<noteq> []" "bk' \<noteq> []"
  shows "block_step [k, j] [Leaf a ak av, Leaf b bk bv, Leaf c ck cv] L
           [hd bk'] [Leaf a ak' av', Leaf b bk' bv'] (link_three_to_two a b c L)"
proof -
  have "sorted_items (A @ map Ent ak' @ Sep (hd bk') # map Ent bk' @ B)"
    if "sorted_items (A @ map Ent ak @ Sep k # map Ent bk @ Sep j # map Ent ck @ B)" for A B
  proof (rule sorted_items_sep)
    have "sorted_items (A @ map Ent ak @ map Ent bk @ map Ent ck @ B)"
      using that sorted_items_drop [of "A @ map Ent ak" "Sep k" "map Ent bk @ Sep j # map Ent ck @ B"]
        sorted_items_drop [of "A @ map Ent ak @ map Ent bk" "Sep j" "map Ent ck @ B"] by simp
    then show "sorted_items (A @ map Ent (ak' @ bk') @ B)"
      by (metis append.assoc assms(1) map_append)
  qed (use assms in auto)
  moreover have "zip ak av @ zip bk bv @ zip ck cv = zip ak' av' @ zip bk' bv'"
    by (metis assms(1-5) zip_append)
  ultimately show ?thesis
    using chained_three_to_two by (auto simp: block_step_def)
qed

subsection \<open>Internal blocks\<close>

text \<open>Internal nodes side by side read as one node over all their keys, separators and children.\<close>

lemma outline_two_internal:
  "length lc = Suc (length lk) \<Longrightarrow> length rc = Suc (length rk) \<Longrightarrow>
   join [k] [outline (Internal lk lc), outline (Internal rk rc)]
     = join (lk @ k # rk) (map outline (lc @ rc))"
  by (simp add: join_append)

lemma outline_three_internal:
  "length lc = Suc (length lk) \<Longrightarrow> length mc = Suc (length mk) \<Longrightarrow> length rc = Suc (length rk) \<Longrightarrow>
   join [k, j] [outline (Internal lk lc), outline (Internal mk mc), outline (Internal rk rc)]
     = join (lk @ k # mk @ j # rk) (map outline (lc @ mc @ rc))"
  by (simp add: join_append)

lemma internal_block_step:
  assumes "length mc = Suc (length mk)" "length mc' = Suc (length mk')"
    and "join mk (map outline mc) = join mk' (map outline mc')"
    and "concat (map entries mc) = concat (map entries mc')"
    and "concat (map leaf_ptrs mc) = concat (map leaf_ptrs mc')"
  shows "block_step mk mc L mk' mc' L"
  using assms by (simp add: block_step_def)

end
