(* ===== verification/BStar_Insert.thy ===== *)
theory BStar_Insert
  imports BStar_View
begin

text \<open>
  Insertion into the B*+ tree: every rebalancing attempt keeps the invariant and the entries, and
  \<open>Insert\<close> adds the row id to the sorted list of entries.
\<close>

section \<open>Attempts that keep the tree\<close>

definition keeps :: "nat \<Rightarrow> nat \<Rightarrow> nat \<Rightarrow> parent \<Rightarrow> attempt \<Rightarrow> bool" where
  "keeps M lo n p att \<longleftrightarrow>
     (case p of (ks, cs, L) \<Rightarrow>
        case att of
          Refused \<Rightarrow> True
        | Emptied \<Rightarrow> False
        | Adjusted (ks', cs', L') \<Rightarrow>
            shape M lo (Suc n) (Internal ks' cs') \<and>
            (\<forall>A B P Q E. view_ok A B P Q E (Internal ks cs) L \<longrightarrow>
                         view_ok A B P Q E (Internal ks' cs') L'))"

lemma keeps_Refused [simp]: "keeps M lo n p Refused"
  by (cases p) (simp add: keeps_def)

lemma keeps_or_try: "keeps M lo n p a \<Longrightarrow> keeps M lo n p b \<Longrightarrow> keeps M lo n p (or_try a b)"
  by (cases a) auto

lemma keeps_block:
  assumes "shape M lo (Suc n) (Internal (ks1 @ mk @ ks2) (cs1 @ mc @ cs2))"
    and "block_step mk mc L mk' mc' L'"
    and "length ks1 = length cs1" "length ks2 = length cs2"
    and "\<forall>c \<in> set mc'. shape M (MinLeafKeys M) n c"
    and "length ks1 + length mk' + length ks2 \<le> M" "length mk \<le> length mk'"
  shows "keeps M lo n (ks1 @ mk @ ks2, cs1 @ mc @ cs2, L)
           (Adjusted (ks1 @ mk' @ ks2, cs1 @ mc' @ cs2, L'))"
  using assms replace_block [OF _ assms(2-4)] by (auto simp: keeps_def block_step_def)

text \<open>A parent seen around two neighbouring children.\<close>

lemma shape_pairE:
  assumes "shape M lo (Suc n) (Internal ks cs)" "Suc i < length cs"
  obtains ks1 k ks2 cs1 x y cs2 where "ks = ks1 @ [k] @ ks2" "cs = cs1 @ [x, y] @ cs2"
    "length ks1 = i" "length cs1 = i" "length ks2 = length cs2"
    "shape M (MinLeafKeys M) n x" "shape M (MinLeafKeys M) n y"
proof -
  from assms have "i < length ks" by simp
  then obtain ks1 k ks2 where ks: "ks = ks1 @ k # ks2" "length ks1 = i"
    by (rule split_at_nth)
  from assms have "i < length cs" by simp
  then obtain cs1 x cs' where cs: "cs = cs1 @ x # cs'" "length cs1 = i"
    by (rule split_at_nth)
  with assms obtain y cs2 where "cs' = y # cs2" by (cases cs') auto
  with ks cs assms show ?thesis by (intro that) auto
qed

lemma shape_leafE:
  assumes "shape M lo n (Leaf a ks vs)"
  obtains "n = 0" "lo \<le> length ks" "length ks \<le> M" "length vs = length ks" "\<forall>v \<in> set vs. v \<noteq> []"
  using assms by (cases n) auto

lemma shape_internalE:
  assumes "shape M lo n (Internal ks cs)"
  obtains m where "n = Suc m" "lo \<le> length ks" "length ks \<le> M" "length cs = Suc (length ks)"
    "\<forall>c \<in> set cs. shape M (MinLeafKeys M) m c"
  using assms by (cases n) auto

lemma TryRedistributeLeafWithLeft_keeps:
  assumes M: "good_order M" and sh: "shape M lo (Suc n) (Internal ks cs)" and i: "i < length cs"
    and full: "M \<le> length (node_keys (cs ! i))"
  shows "keeps M lo n (ks, cs, L) (TryRedistributeLeafWithLeft M (ks, cs, L) i)"
proof (cases i)
  case (Suc j)
  with i have "Suc j < length cs" by simp
  from shape_pairE [OF sh this] obtain ks1 k ks2 cs1 x y cs2 where
    p: "ks = ks1 @ [k] @ ks2" "cs = cs1 @ [x, y] @ cs2" "length ks1 = j" "length cs1 = j"
      "length ks2 = length cs2" and x: "shape M (MinLeafKeys M) n x" and y: "shape M (MinLeafKeys M) n y" .
  show ?thesis
  proof (cases "\<exists>b pk pv a lk lv. x = Leaf b pk pv \<and> y = Leaf a lk lv \<and> length pk < M")
    case True
    then obtain b pk pv a lk lv where l: "x = Leaf b pk pv" "y = Leaf a lk lv" "length pk < M"
      by blast
    from M full p l Suc obtain h lk' where lk: "lk = h # lk'" "lk' \<noteq> []" "M \<le> length lk"
      by (cases lk; cases "tl lk") (auto simp: vec_simps good_order_def)
    from y l lk obtain v lv' where lv: "lv = v # lv'" "length lv' = length lk'"
      by (cases lv) (auto elim: shape_leafE)
    have step: "block_step [k] [x, y] L [hd lk'] [Leaf b (pk @ [h]) (pv @ [v]), Leaf a lk' lv'] L"
      unfolding l using x l lk lv by (intro leaf_shift_step) (auto elim: shape_leafE)
    have "keeps M lo n (ks1 @ [k] @ ks2, cs1 @ [x, y] @ cs2, L)
        (Adjusted (ks1 @ [hd lk'] @ ks2, cs1 @ [Leaf b (pk @ [h]) (pv @ [v]), Leaf a lk' lv'] @ cs2, L))"
      using sh p x y l lk lv M by (intro keeps_block [OF _ step])
        (auto elim!: good_order_half shape_leafE)
    with p l lk lv Suc show ?thesis by (simp add: vec_simps)
  next
    case False
    with p Suc show ?thesis
      by (cases x; cases y) (auto simp: vec_simps)
  qed
qed simp

lemma TryRedistributeLeafWithRight_keeps:
  assumes M: "good_order M" and sh: "shape M lo (Suc n) (Internal ks cs)"
    and full: "M \<le> length (node_keys (cs ! i))"
  shows "keeps M lo n (ks, cs, L) (TryRedistributeLeafWithRight M (ks, cs, L) i)"
proof (cases "Suc i < length cs")
  case True
  from shape_pairE [OF sh this] obtain ks1 k ks2 cs1 x y cs2 where
    p: "ks = ks1 @ [k] @ ks2" "cs = cs1 @ [x, y] @ cs2" "length ks1 = i" "length cs1 = i"
      "length ks2 = length cs2" and x: "shape M (MinLeafKeys M) n x" and y: "shape M (MinLeafKeys M) n y" .
  show ?thesis
  proof (cases "\<exists>a lk lv b rk rv. x = Leaf a lk lv \<and> y = Leaf b rk rv \<and> length rk < M")
    case True
    then obtain a lk lv b rk rv where l: "x = Leaf a lk lv" "y = Leaf b rk rv" "length rk < M"
      by blast
    from M full p l obtain h lk' where lk: "lk = lk' @ [h]" "lk' \<noteq> []" "M \<le> length lk"
      by (cases lk rule: rev_cases; cases "butlast lk") (auto simp: vec_simps good_order_def)
    from x l lk obtain v lv' where lv: "lv = lv' @ [v]" "length lv' = length lk'"
      by (cases lv rule: rev_cases) (auto elim: shape_leafE)
    have step: "block_step [k] [x, y] L [hd (h # rk)] [Leaf a lk' lv', Leaf b (h # rk) (v # rv)] L"
      unfolding l using x l lk lv by (intro leaf_shift_step) (auto elim: shape_leafE)
    have "keeps M lo n (ks1 @ [k] @ ks2, cs1 @ [x, y] @ cs2, L)
        (Adjusted (ks1 @ [hd (h # rk)] @ ks2, cs1 @ [Leaf a lk' lv', Leaf b (h # rk) (v # rv)] @ cs2, L))"
      using sh p x y l lk lv M by (intro keeps_block [OF _ step])
        (auto elim!: good_order_half shape_leafE)
    with p l lk lv True show ?thesis by (simp add: vec_simps)
  next
    case False
    with p show ?thesis
      by (cases x; cases y) (auto simp: vec_simps)
  qed
qed simp

lemma TryRedistributeInternalWithLeft_keeps:
  assumes M: "good_order M" and sh: "shape M lo (Suc n) (Internal ks cs)" and i: "i < length cs"
    and full: "M \<le> length (node_keys (cs ! i))"
  shows "keeps M lo n (ks, cs, L) (TryRedistributeInternalWithLeft M (ks, cs, L) i)"
proof (cases i)
  case (Suc j)
  with i have "Suc j < length cs" by simp
  from shape_pairE [OF sh this] obtain ks1 k ks2 cs1 x y cs2 where
    p: "ks = ks1 @ [k] @ ks2" "cs = cs1 @ [x, y] @ cs2" "length ks1 = j" "length cs1 = j"
      "length ks2 = length cs2" and x: "shape M (MinLeafKeys M) n x" and y: "shape M (MinLeafKeys M) n y" .
  show ?thesis
  proof (cases "\<exists>lk lc nk nc. x = Internal lk lc \<and> y = Internal nk nc \<and> length lk < M")
    case True
    then obtain lk lc nk nc where l: "x = Internal lk lc" "y = Internal nk nc" "length lk < M"
      by blast
    from M full p l Suc obtain h nk' where nk: "nk = h # nk'" "M \<le> length nk"
      by (cases nk) (auto simp: vec_simps good_order_def)
    from y l nk obtain c nc' where nc: "nc = c # nc'" "length nc' = length nk"
      by (cases nc) (auto elim: shape_internalE)
    have step: "block_step [k] [x, y] L [h] [Internal (lk @ [k]) (lc @ [c]), Internal nk' nc'] L"
      unfolding l using x l nk nc
      by (intro internal_block_step) (auto elim!: shape_internalE simp: join_append)
    have "keeps M lo n (ks1 @ [k] @ ks2, cs1 @ [x, y] @ cs2, L)
        (Adjusted (ks1 @ [h] @ ks2, cs1 @ [Internal (lk @ [k]) (lc @ [c]), Internal nk' nc'] @ cs2, L))"
      using sh p x y l nk nc M by (intro keeps_block [OF _ step])
        (auto elim!: good_order_half shape_internalE)
    with p l nk nc Suc show ?thesis by (simp add: vec_simps)
  next
    case False
    with p Suc show ?thesis
      by (cases x; cases y) (auto simp: vec_simps)
  qed
qed simp

lemma TryRedistributeInternalWithRight_keeps:
  assumes M: "good_order M" and sh: "shape M lo (Suc n) (Internal ks cs)"
    and full: "M \<le> length (node_keys (cs ! i))"
  shows "keeps M lo n (ks, cs, L) (TryRedistributeInternalWithRight M (ks, cs, L) i)"
proof (cases "Suc i < length cs")
  case True
  from shape_pairE [OF sh this] obtain ks1 k ks2 cs1 x y cs2 where
    p: "ks = ks1 @ [k] @ ks2" "cs = cs1 @ [x, y] @ cs2" "length ks1 = i" "length cs1 = i"
      "length ks2 = length cs2" and x: "shape M (MinLeafKeys M) n x" and y: "shape M (MinLeafKeys M) n y" .
  show ?thesis
  proof (cases "\<exists>nk nc rk rc. x = Internal nk nc \<and> y = Internal rk rc \<and> length rk < M")
    case True
    then obtain nk nc rk rc where l: "x = Internal nk nc" "y = Internal rk rc" "length rk < M"
      by blast
    from M full p l obtain h nk' where nk: "nk = nk' @ [h]" "M \<le> length nk"
      by (cases nk rule: rev_cases) (auto simp: vec_simps good_order_def)
    from x l nk obtain c nc' where nc: "nc = nc' @ [c]" "length nc' = Suc (length nk')"
      by (cases nc rule: rev_cases) (auto elim: shape_internalE)
    have step: "block_step [k] [x, y] L [h] [Internal nk' nc', Internal (k # rk) (c # rc)] L"
      unfolding l using y l nk nc
      by (intro internal_block_step) (auto elim!: shape_internalE simp: join_append)
    have "keeps M lo n (ks1 @ [k] @ ks2, cs1 @ [x, y] @ cs2, L)
        (Adjusted (ks1 @ [h] @ ks2, cs1 @ [Internal nk' nc', Internal (k # rk) (c # rc)] @ cs2, L))"
      using sh p x y l nk nc M by (intro keeps_block [OF _ step])
        (auto elim!: good_order_half shape_internalE)
    with p l nk nc True show ?thesis by (simp add: vec_simps)
  next
    case False
    with p show ?thesis
      by (cases x; cases y) (auto simp: vec_simps)
  qed
qed simp

section \<open>The 2-to-3 splits\<close>

text \<open>A list cut into three parts, and into three parts with two elements between them.\<close>

lemma take_take_drop: "take f xs @ take s (drop f xs) @ drop (f + s) xs = xs"
  by (metis append_take_drop_id drop_drop add.commute)

lemma cut_at_two:
  assumes "l + 1 + m < length xs"
  shows "take l xs @ xs ! l # take m (drop (l + 1) xs) @ xs ! (l + 1 + m) # drop (l + 1 + m + 1) xs = xs"
proof -
  have "drop (l + 1) xs = take m (drop (l + 1) xs) @ xs ! (l + 1 + m) # drop (l + 1 + m + 1) xs"
    using assms id_take_nth_drop [of m "drop (l + 1) xs"] by (simp add: add.commute)
  then show ?thesis
    using assms id_take_nth_drop [of l xs] by simp
qed

lemma two_to_three_leaf_sizes:
  assumes "good_order M" "f = 2 * M div 3" "s = (2 * M - f) div 2" "r = 2 * M - f - s"
  shows "MinLeafKeys M \<le> f" "MinLeafKeys M \<le> s" "MinLeafKeys M \<le> r"
    "f \<le> M" "s \<le> M" "r \<le> M" "f + s < 2 * M" "0 < f" "0 < s" "0 < r"
proof -
  from assms(1) obtain m where m: "M = 2 * m" "3 \<le> m" "MinLeafKeys M = m"
    by (rule good_order_half)
  have f: "3 * f \<le> 4 * m" "4 * m \<le> 3 * f + 2" using assms(2) m by linarith+
  have s: "2 * s \<le> 4 * m - f" "4 * m - f \<le> 2 * s + 1" using assms(3) m by linarith+
  show "MinLeafKeys M \<le> f" "MinLeafKeys M \<le> s" "MinLeafKeys M \<le> r"
    "f \<le> M" "s \<le> M" "r \<le> M" "f + s < 2 * M" "0 < f" "0 < s" "0 < r"
    using f s m assms(4) by linarith+
qed

lemma two_to_three_internal_sizes:
  assumes "good_order M" "l = (2 * M + 1) div 3" "m = (2 * M + 1 - l) div 2"
    "r = 2 * M + 1 - l - m - 2"
  shows "MinLeafKeys M \<le> l" "MinLeafKeys M \<le> m" "MinLeafKeys M \<le> r"
    "l \<le> M" "m \<le> M" "r \<le> M" "l + m + r + 2 = 2 * M + 1" "0 < l" "0 < m" "0 < r"
proof -
  from assms(1) obtain h where h: "M = 2 * h" "3 \<le> h" "MinLeafKeys M = h"
    by (rule good_order_half)
  have l: "3 * l \<le> 4 * h + 1" "4 * h + 1 \<le> 3 * l + 2" using assms(2) h by linarith+
  have m: "2 * m \<le> 4 * h + 1 - l" "4 * h + 1 - l \<le> 2 * m + 1" using assms(3) h by linarith+
  show "MinLeafKeys M \<le> l" "MinLeafKeys M \<le> m" "MinLeafKeys M \<le> r"
    "l \<le> M" "m \<le> M" "r \<le> M" "l + m + r + 2 = 2 * M + 1" "0 < l" "0 < m" "0 < r"
    using l m h assms(4) by linarith+
qed

lemma TryTwoToThreeSplitLeafWithRight_keeps:
  assumes M: "good_order M" and sh: "shape M lo (Suc n) (Internal ks cs)"
  shows "keeps M lo n (ks, cs, L) (TryTwoToThreeSplitLeafWithRight M (ks, cs, L) i)"
proof (cases "Suc i < length cs \<and> length ks < M")
  case True
  then have "Suc i < length cs" by simp
  from shape_pairE [OF sh this] obtain ks1 k ks2 cs1 x y cs2 where
    p: "ks = ks1 @ [k] @ ks2" "cs = cs1 @ [x, y] @ cs2" "length ks1 = i" "length cs1 = i"
      "length ks2 = length cs2" and x: "shape M (MinLeafKeys M) n x" and y: "shape M (MinLeafKeys M) n y" .
  show ?thesis
  proof (cases "\<exists>a lk lv b rk rv. x = Leaf a lk lv \<and> y = Leaf b rk rv \<and> M \<le> length lk \<and> M \<le> length rk")
    case two: True
    then obtain a lk lv b rk rv where l: "x = Leaf a lk lv" "y = Leaf b rk rv"
      "M \<le> length lk" "M \<le> length rk" by blast
    from x y l have n: "n = 0" and len: "length lk = M" "length rk = M" "length lv = M" "length rv = M"
      and ne: "\<forall>v \<in> set (lv @ rv). v \<noteq> []"
      by (auto elim!: shape_leafE)
    define K V where "K = lk @ rk" and "V = lv @ rv"
    define f where "f = 2 * M div 3"
    define s where "s = (2 * M - f) div 2"
    note sz = two_to_three_leaf_sizes [OF M f_def s_def refl]
    obtain c L1 where new: "new_leaf L = (c, L1)" by (cases "new_leaf L")
    have lenKV: "length K = 2 * M" "length V = 2 * M" using len by (simp_all add: K_def V_def)
    let ?l = "Leaf a (take f K) (take f V)" and ?m = "Leaf c (take s (drop f K)) (take s (drop f V))"
      and ?r = "Leaf b (drop (f + s) K) (drop (f + s) V)"
    have step: "block_step [k] [x, y] L [hd (take s (drop f K)), hd (drop (f + s) K)] [?l, ?m, ?r]
        (link_middle a c b L1)"
      unfolding l using lenKV sz len new
      by (intro leaf_two_to_three_step) (auto simp: take_take_drop K_def [symmetric] V_def [symmetric])
    have neV: "\<forall>v \<in> set V. v \<noteq> []" using ne by (simp add: V_def)
    have "\<forall>c' \<in> set [?l, ?m, ?r]. shape M (MinLeafKeys M) n c'"
      using n lenKV sz neV by (auto dest!: in_set_takeD in_set_dropD)
    then have "keeps M lo n (ks1 @ [k] @ ks2, cs1 @ [x, y] @ cs2, L)
        (Adjusted (ks1 @ [hd (take s (drop f K)), hd (drop (f + s) K)] @ ks2,
          cs1 @ [?l, ?m, ?r] @ cs2, link_middle a c b L1))"
      using sh p True by (intro keeps_block [OF _ step]) auto
    moreover have "TryTwoToThreeSplitLeafWithRight M (ks, cs, L) i =
        Adjusted (ks1 @ [hd (take s (drop f K)), hd (drop (f + s) K)] @ ks2,
          cs1 @ [?l, ?m, ?r] @ cs2, link_middle a c b L1)"
      using p l True len sz new unfolding K_def V_def
      by (simp add: vec_simps Let_def f_def [symmetric] s_def [symmetric] mult_2 [symmetric])
    ultimately show ?thesis using p by simp
  next
    case False
    with p show ?thesis
      by (cases x; cases y) (auto simp: vec_simps)
  qed
qed auto

lemma TryTwoToThreeSplitLeafWithLeft_keeps:
  assumes "good_order M" "shape M lo (Suc n) (Internal ks cs)"
  shows "keeps M lo n (ks, cs, L) (TryTwoToThreeSplitLeafWithLeft M (ks, cs, L) i)"
  using TryTwoToThreeSplitLeafWithRight_keeps [OF assms]
  by (simp del: TryTwoToThreeSplitLeafWithRight.simps)

lemma TryTwoToThreeSplitInternalWithRight_keeps:
  assumes M: "good_order M" and sh: "shape M lo (Suc n) (Internal ks cs)"
  shows "keeps M lo n (ks, cs, L) (TryTwoToThreeSplitInternalWithRight M (ks, cs, L) i)"
proof (cases "Suc i < length cs \<and> length ks < M")
  case True
  then have "Suc i < length cs" by simp
  from shape_pairE [OF sh this] obtain ks1 k ks2 cs1 x y cs2 where
    p: "ks = ks1 @ [k] @ ks2" "cs = cs1 @ [x, y] @ cs2" "length ks1 = i" "length cs1 = i"
      "length ks2 = length cs2" and x: "shape M (MinLeafKeys M) n x" and y: "shape M (MinLeafKeys M) n y" .
  show ?thesis
  proof (cases "\<exists>lk lc rk rc. x = Internal lk lc \<and> y = Internal rk rc \<and> M \<le> length lk \<and> M \<le> length rk")
    case two: True
    then obtain lk lc rk rc where e: "x = Internal lk lc" "y = Internal rk rc"
      "M \<le> length lk" "M \<le> length rk" by blast
    from x y e obtain d where n: "n = Suc d"
      and len: "length lk = M" "length rk = M" "length lc = Suc M" "length rc = Suc M"
      and ch: "\<forall>c \<in> set (lc @ rc). shape M (MinLeafKeys M) d c"
      by (auto elim!: shape_internalE simp: ball_Un)
    define K C where "K = lk @ k # rk" and "C = lc @ rc"
    define l where "l = (2 * M + 1) div 3"
    define m where "m = (2 * M + 1 - l) div 2"
    define r where "r = 2 * M + 1 - l - m - 2"
    note sz = two_to_three_internal_sizes [OF M l_def m_def r_def]
    have lenKC: "length K = 2 * M + 1" "length C = 2 * M + 2" using len by (simp_all add: K_def C_def)
    let ?lk = "take l K" and ?mk = "take m (drop (l + 1) K)" and ?rk = "drop (l + 1 + m + 1) K"
      and ?lc = "take (l + 1) C" and ?mc = "take (m + 1) (drop (l + 1) C)"
      and ?rc = "take (r + 1) (drop (l + 1 + (m + 1)) C)"
    have rc: "?rc = drop (l + 1 + (m + 1)) C" using lenKC sz by simp
    have K: "?lk @ K ! l # ?mk @ K ! (l + 1 + m) # ?rk = K"
      using lenKC sz by (intro cut_at_two) auto
    have C: "?lc @ ?mc @ ?rc = C" unfolding rc by (rule take_take_drop)
    have lens: "length ?lc = Suc (length ?lk)" "length ?mc = Suc (length ?mk)" "length ?rc = Suc (length ?rk)"
      using lenKC sz by auto
    have three: "join [K ! l, K ! (l + 1 + m)]
        [outline (Internal ?lk ?lc), outline (Internal ?mk ?mc), outline (Internal ?rk ?rc)]
        = join K (map outline C)"
      using outline_three_internal [OF lens] K C by metis
    have "concat (map entries C) = concat (map entries (?lc @ ?mc @ ?rc))"
      "concat (map leaf_ptrs C) = concat (map leaf_ptrs (?lc @ ?mc @ ?rc))"
      using C by simp_all
    then have step: "block_step [k] [x, y] L [K ! l, K ! (l + 1 + m)]
        [Internal ?lk ?lc, Internal ?mk ?mc, Internal ?rk ?rc] L"
      using three outline_two_internal [of lc lk rc rk k] len
      by (intro internal_block_step) (auto simp: e K_def C_def)
    have "\<forall>c' \<in> set [Internal ?lk ?lc, Internal ?mk ?mc, Internal ?rk ?rc]. shape M (MinLeafKeys M) n c'"
      using n lens lenKC sz ch unfolding C_def [symmetric]
      by (auto dest!: in_set_takeD in_set_dropD)
    then have "keeps M lo n (ks1 @ [k] @ ks2, cs1 @ [x, y] @ cs2, L)
        (Adjusted (ks1 @ [K ! l, K ! (l + 1 + m)] @ ks2,
          cs1 @ [Internal ?lk ?lc, Internal ?mk ?mc, Internal ?rk ?rc] @ cs2, L))"
      using sh p True by (intro keeps_block [OF _ step]) auto
    moreover have "TryTwoToThreeSplitInternalWithRight M (ks, cs, L) i =
        Adjusted (ks1 @ [K ! l, K ! (l + 1 + m)] @ ks2,
          cs1 @ [Internal ?lk ?lc, Internal ?mk ?mc, Internal ?rk ?rc] @ cs2, L)"
    proof -
      have counts: "Suc (2 * M) div 3 = l" "(Suc (2 * M) - l) div 2 = m" "2 * M - Suc (l + m) = r"
        by (simp_all add: l_def m_def r_def)
      show ?thesis
        using p e True len sz
        by (simp add: vec_simps Let_def K_def [symmetric] C_def [symmetric] lenKC counts
            del: length_append take_append drop_append)
    qed
    ultimately show ?thesis using p by simp
  next
    case False
    with p show ?thesis
      by (cases x; cases y) (auto simp: vec_simps)
  qed
qed auto

lemma TryTwoToThreeSplitInternalWithLeft_keeps:
  assumes "good_order M" "shape M lo (Suc n) (Internal ks cs)"
  shows "keeps M lo n (ks, cs, L) (TryTwoToThreeSplitInternalWithLeft M (ks, cs, L) i)"
  using TryTwoToThreeSplitInternalWithRight_keeps [OF assms]
  by (simp del: TryTwoToThreeSplitInternalWithRight.simps)

lemma AdjustFullChild_keeps:
  assumes "good_order M" "shape M lo (Suc n) (Internal ks cs)" "i < length cs"
    "M \<le> length (node_keys (cs ! i))"
  shows "keeps M lo n (ks, cs, L) (AdjustFullChild M (ks, cs, L) i)"
  using assms unfolding AdjustFullChild_def
  by (auto intro!: keeps_or_try
      TryRedistributeLeafWithLeft_keeps TryRedistributeLeafWithRight_keeps
      TryTwoToThreeSplitLeafWithRight_keeps TryTwoToThreeSplitLeafWithLeft_keeps
      TryRedistributeInternalWithLeft_keeps TryRedistributeInternalWithRight_keeps
      TryTwoToThreeSplitInternalWithRight_keeps TryTwoToThreeSplitInternalWithLeft_keeps
      simp del: TryRedistributeLeafWithLeft.simps TryRedistributeLeafWithRight.simps
      TryTwoToThreeSplitLeafWithRight.simps TryTwoToThreeSplitLeafWithLeft.simps
      TryRedistributeInternalWithLeft.simps TryRedistributeInternalWithRight.simps
      TryTwoToThreeSplitInternalWithRight.simps TryTwoToThreeSplitInternalWithLeft.simps shape.simps)

section \<open>Descending to a child\<close>

lemma join_left_below:
  assumes "length ks = length xs" "sorted_items (join_left ks xs)" "\<forall>k \<in> set ks. k \<le> key"
    "x \<in> set (join_left ks xs)"
  shows "x < Ent key"
proof (cases ks rule: rev_cases)
  case (snoc ks' k)
  with assms(1) obtain xs' x' where xs: "xs = xs' @ [x']" "length ks' = length xs'"
    by (cases xs rule: rev_cases) auto
  then have "join_left ks xs = (join_left ks' xs' @ x') @ [Sep k]"
    using snoc by (simp add: join_left_append)
  with assms(2,4) have "x < Sep k \<or> x = Sep k"
    by (auto simp: sorted_wrt_append)
  moreover have "Sep k < Ent key" using assms(3) snoc by simp
  ultimately show ?thesis by (metis less_trans)
qed (use assms in simp)

lemma join_right_above:
  assumes "length ks = length xs" "sorted_items (join_right ks xs)" "ks = [] \<or> key < hd ks"
    "x \<in> set (join_right ks xs)"
  shows "Ent key < x"
proof (cases ks)
  case (Cons k ks')
  with assms(1) obtain x' xs' where xs: "xs = x' # xs'" by (cases xs) auto
  with assms(2,4) Cons have "Sep k < x \<or> x = Sep k" by auto
  moreover have "Ent key < Sep k" using assms(3) Cons by simp
  ultimately show ?thesis by (metis less_trans)
qed (use assms in simp)

lemma UpperBound_le: "UpperBound ks key \<le> length ks"
  by (simp add: UpperBound_def length_takeWhile_le)

lemma descendE:
  assumes "length cs = Suc (length ks)" "sorted_items (A @ outline (Internal ks cs) @ B)"
  obtains ks1 ks2 cs1 c cs2 where "ks = ks1 @ ks2" "cs = cs1 @ c # cs2"
    "length ks1 = UpperBound ks key" "length cs1 = UpperBound ks key" "length ks2 = length cs2"
    "\<forall>x \<in> set (join_left ks1 (map outline cs1)). x < Ent key"
    "\<forall>x \<in> set (join_right ks2 (map outline cs2)). Ent key < x"
proof -
  let ?ks1 = "takeWhile (\<lambda>k. k \<le> key) ks" and ?ks2 = "dropWhile (\<lambda>k. k \<le> key) ks"
  have "UpperBound ks key < length cs" using assms(1) UpperBound_le [of ks key] by simp
  then obtain cs1 c cs2 where cs: "cs = cs1 @ c # cs2" "length cs1 = UpperBound ks key"
    by (rule split_at_nth)
  have ks: "ks = ?ks1 @ ?ks2" "length ?ks1 = UpperBound ks key" by (simp_all add: UpperBound_def)
  have len: "length ?ks2 = length cs2"
    using assms(1) cs ks by (metis add_Suc_right add_left_cancel length_Cons length_append nat.inject)
  have "join ks (map outline cs) = join (?ks1 @ ?ks2) (map outline cs1 @ outline c # map outline cs2)"
    using cs ks by simp
  also have "\<dots> = join_left ?ks1 (map outline cs1) @ outline c @ join_right ?ks2 (map outline cs2)"
    using cs ks len by (intro join_split) auto
  finally have s: "sorted_items (A @ (join_left ?ks1 (map outline cs1) @ outline c @
      join_right ?ks2 (map outline cs2)) @ B)"
    using assms(2) by simp
  have "x < Ent key" if "x \<in> set (join_left ?ks1 (map outline cs1))" for x
    using s that cs ks by (intro join_left_below [of ?ks1 "map outline cs1"])
      (auto simp: sorted_wrt_append dest: set_takeWhileD)
  moreover have hd2: "?ks2 = [] \<or> key < hd ?ks2"
    using hd_dropWhile [of "\<lambda>k. k \<le> key" ks] by (meson not_le)
  have "Ent key < x" if "x \<in> set (join_right ?ks2 (map outline cs2))" for x
    using s that len by (intro join_right_above [OF _ _ hd2, of "map outline cs2"])
      (simp_all add: sorted_wrt_append)
  ultimately show ?thesis using that [of ?ks1 ?ks2 cs1 c cs2] cs ks len by blast
qed

section \<open>Inserting into lists of entries\<close>

lemma insert_entry_append:
  assumes "\<forall>e \<in> set es1. fst e < key" "\<forall>e \<in> set es2. key < fst e"
  shows "insert_entry key r (es1 @ es @ es2) = es1 @ insert_entry key r es @ es2"
proof -
  have "insert_entry key r (es @ es2) = insert_entry key r es @ es2"
  proof (induction es)
    case Nil
    then show ?case using assms(2) by (cases es2) auto
  qed auto
  with assms(1) show ?thesis by (induction es1) auto
qed

lemma LowerBound_splitE:
  assumes "sorted_wrt (<) ks" "length vs = length ks"
  obtains ks1 ks2 vs1 vs2 where "ks = ks1 @ ks2" "vs = vs1 @ vs2" "length ks1 = LowerBound ks key"
    "length vs1 = length ks1" "length vs2 = length ks2"
    "\<forall>k \<in> set ks1. k < key" "\<forall>k \<in> set ks2. key \<le> k"
proof -
  let ?n = "LowerBound ks key"
  let ?ks1 = "takeWhile (\<lambda>k. k < key) ks" and ?ks2 = "dropWhile (\<lambda>k. k < key) ks"
  have ks: "ks = ?ks1 @ ?ks2" "length ?ks1 = ?n" by (simp_all add: LowerBound_def)
  have "?n \<le> length ks" by (simp add: LowerBound_def length_takeWhile_le)
  moreover have "\<forall>k \<in> set ?ks2. key \<le> k"
  proof (cases ?ks2)
    case (Cons k ks')
    then have "key \<le> k" by (metis hd_dropWhile list.sel(1) list.simps(3) not_le)
    moreover have "sorted_wrt (<) ?ks2" using assms(1) ks by (metis sorted_wrt_append)
    ultimately show ?thesis using Cons by auto
  next
    case Nil
    then show ?thesis by (simp only: Nil) simp
  qed
  moreover have "\<forall>k \<in> set ?ks1. k < key" by (auto dest: set_takeWhileD)
  moreover have "length ?ks1 + length ?ks2 = length ks" by (metis ks(1) length_append)
  ultimately show ?thesis
    using assms(2) ks by (intro that [of ?ks1 ?ks2 "take ?n vs" "drop ?n vs"]) simp_all
qed

section \<open>The result of a recursive insertion\<close>

fun split_outline :: "Split option \<Rightarrow> item list" where
  "split_outline None = []"
| "split_outline (Some (s, right)) = Sep s # outline right"

fun split_entries :: "Split option \<Rightarrow> IndexEntry list" where
  "split_entries None = []"
| "split_entries (Some (s, right)) = entries right"

fun split_ptrs :: "Split option \<Rightarrow> leaf_ptr list" where
  "split_ptrs None = []"
| "split_ptrs (Some (s, right)) = leaf_ptrs right"

fun split_shape :: "nat \<Rightarrow> nat \<Rightarrow> nat \<Rightarrow> Node \<Rightarrow> Split option \<Rightarrow> bool" where
  "split_shape M lo n t None = shape M lo n t"
| "split_shape M lo n t (Some (s, right)) =
     (shape M (MinLeafKeys M) n t \<and> shape M (MinLeafKeys M) n right)"

text \<open>The node and its split sibling together hold \<open>E\<close>, ordered and chained in their surroundings.\<close>

definition grown ::
  "nat \<Rightarrow> nat \<Rightarrow> nat \<Rightarrow> item list \<Rightarrow> item list \<Rightarrow> leaf_ptr list \<Rightarrow> leaf_ptr list \<Rightarrow> IndexEntry list
     \<Rightarrow> Node \<Rightarrow> Split option \<Rightarrow> leaf_links \<Rightarrow> bool" where
  "grown M lo n A B P Q E t sp L \<longleftrightarrow>
     split_shape M lo n t sp \<and>
     sorted_items (A @ outline t @ split_outline sp @ B) \<and>
     entries t @ split_entries sp = E \<and>
     chained L (P @ leaf_ptrs t @ split_ptrs sp @ Q)"

text \<open>A leaf with a new key, before it is split.\<close>

lemma sorted_items_new_key:
  assumes "sorted_items (A @ map Ent (ks1 @ ks2) @ B)"
    and "\<forall>x \<in> set A. x < Ent key" "\<forall>x \<in> set B. Ent key < x"
    and "\<forall>k \<in> set ks1. k < key" "\<forall>k \<in> set ks2. key < k"
  shows "sorted_items (A @ map Ent (ks1 @ key # ks2) @ B)"
  using assms by (auto simp: sorted_wrt_append ball_Un)

lemma SplitLeaf_grown:
  assumes M: "good_order M" and len: "length ks = Suc M" "length vs = Suc M"
    and ne: "\<forall>v \<in> set vs. v \<noteq> []"
    and s: "sorted_items (A @ map Ent ks @ B)" and ch: "chained L (P @ a # Q)"
    and sp: "SplitLeaf a ks vs L = (left, sp, L')"
  shows "grown M lo 0 A B P Q (zip ks vs) left (Some sp) L'"
proof -
  obtain b L1 where new: "new_leaf L = (b, L1)" by (cases "new_leaf L")
  let ?m = "Suc M div 2"
  from M have m: "?m = MinLeafKeys M" "?m < Suc M" "MinLeafKeys M \<le> Suc M - ?m" "Suc M - ?m \<le> M" "0 < ?m"
    by (auto elim!: good_order_half simp: MinLeafKeys_def)
  have "sorted_items (A @ map Ent (take ?m ks) @ Sep (hd (drop ?m ks)) # map Ent (drop ?m ks) @ B)"
    using s len m by (intro sorted_items_sep) auto
  moreover have "zip (take ?m ks) (take ?m vs) @ zip (drop ?m ks) (drop ?m vs) = zip ks vs"
    by (metis append_take_drop_id drop_zip take_zip)
  moreover have "chained (link_split a b L1) (P @ a # b # Q)"
    using ch new by (rule chained_split)
  ultimately show ?thesis
    using sp new len m ne unfolding grown_def SplitLeaf_def
    by (auto simp: Let_def dest!: in_set_takeD in_set_dropD)
qed

lemma InsertIntoLeaf_grown:
  assumes M: "good_order M" and sh: "shape M lo 0 (Leaf a ks vs)"
    and v: "view_ok A B P Q E (Leaf a ks vs) L"
    and A: "\<forall>x \<in> set A. x < Ent key" and B: "\<forall>x \<in> set B. Ent key < x"
    and res: "InsertIntoLeaf M a ks vs key r L = (t, sp, L')"
  shows "grown M lo 0 A B P Q (insert_entry key r E) t sp L'"
proof -
  from v have s: "sorted_items (A @ map Ent ks @ B)" and E: "E = zip ks vs"
    and ch: "chained L (P @ a # Q)" by (auto simp: view_ok_def)
  from s have sks: "sorted_wrt (<) ks" by (simp add: sorted_wrt_append sorted_wrt_map)
  from sh have len: "length vs = length ks" "lo \<le> length ks" "length ks \<le> M" and ne: "\<forall>v \<in> set vs. v \<noteq> []"
    by auto
  from LowerBound_splitE [OF sks len(1), of key] obtain ks1 ks2 vs1 vs2 where
    d: "ks = ks1 @ ks2" "vs = vs1 @ vs2" "length ks1 = LowerBound ks key"
      "length vs1 = length ks1" "length vs2 = length ks2"
    and ks1: "\<forall>k \<in> set ks1. k < key" and ks2: "\<forall>k \<in> set ks2. key \<le> k" by metis
  have E1: "insert_entry key r E = zip ks1 vs1 @ insert_entry key r (zip ks2 vs2)"
  proof -
    have "\<forall>e \<in> set (zip ks1 vs1). fst e < key" using ks1 by (auto dest: set_zip_leftD)
    then show ?thesis
      using insert_entry_append [of "zip ks1 vs1" key "[]" r "zip ks2 vs2"] d E by simp
  qed
  show ?thesis
  proof (cases "ks2 \<noteq> [] \<and> hd ks2 = key")
    case True
    then obtain ks' v vs' where k: "ks2 = key # ks'" "vs2 = v # vs'"
      using d by (cases ks2; cases vs2) auto
    have "v \<noteq> []" using ne d k by simp
    with k d res s E1 ch len ne show ?thesis
      unfolding grown_def InsertIntoLeaf_def
      by (auto simp: Let_def vec_simps ContainsRowId_def)
  next
    case False
    then have lt: "\<forall>k \<in> set ks2. key < k"
      using ks2 sks d by (cases ks2) (auto simp: sorted_wrt_append)
    have s': "sorted_items (A @ map Ent (ks1 @ key # ks2) @ B)"
      using s A B ks1 lt d by (intro sorted_items_new_key) auto
    have E2: "insert_entry key r E = zip (ks1 @ key # ks2) (vs1 @ [r] # vs2)"
    proof -
      have "\<forall>e \<in> set (zip ks2 vs2). key < fst e" using lt by (auto dest: set_zip_leftD)
      then show ?thesis
        using insert_entry_append [of "[]" key "zip ks2 vs2" r "[]"] d E1 by simp
    qed
    have nf: "\<not> (LowerBound ks key < length ks \<and> ks ! LowerBound ks key = key)"
      using False d by (cases ks2) (auto simp: nth_append)
    have ins: "insert_at (LowerBound ks key) key ks = ks1 @ key # ks2"
      "insert_at (LowerBound ks key) [r] vs = vs1 @ [r] # vs2"
      using d by (simp_all add: vec_simps)
    have lens: "length (ks1 @ key # ks2) = Suc (length ks)" "length (vs1 @ [r] # vs2) = Suc (length ks)"
      and ne': "\<forall>v \<in> set (vs1 @ [r] # vs2). v \<noteq> []"
      using len d ne by simp_all
    show ?thesis
    proof (cases "Suc (length ks) \<le> M")
      case True
      with nf ins lens res have r: "t = Leaf a (ks1 @ key # ks2) (vs1 @ [r] # vs2)" "sp = None" "L' = L"
        by (auto simp: InsertIntoLeaf_def Let_def simp del: length_append)
      have "shape M lo 0 t" using r True lens len ne' by (simp del: length_append set_append)
      with r s' E2 ch show ?thesis unfolding grown_def by simp
    next
      case False
      with lens len have l: "length (ks1 @ key # ks2) = Suc M" "length (vs1 @ [r] # vs2) = Suc M"
        by simp_all
      obtain sp' where sp': "sp = Some sp'" "SplitLeaf a (ks1 @ key # ks2) (vs1 @ [r] # vs2) L = (t, sp', L')"
        using nf ins lens res False
        by (auto simp: InsertIntoLeaf_def Let_def split: prod.splits simp del: length_append)
      show ?thesis
        unfolding sp'(1) E2 by (rule SplitLeaf_grown [OF M l ne' s' ch sp'(2)])
    qed
  qed
qed

lemma SplitInternal_grown:
  assumes M: "good_order M" and len: "length ks = Suc M" "length cs = Suc (Suc M)"
    and sh: "\<forall>c \<in> set cs. shape M (MinLeafKeys M) n c"
    and s: "sorted_items (A @ outline (Internal ks cs) @ B)"
    and ch: "chained L (P @ leaf_ptrs (Internal ks cs) @ Q)"
    and sp: "SplitInternal ks cs = (left, sp)"
  shows "grown M lo (Suc n) A B P Q (entries (Internal ks cs)) left (Some sp) L"
proof -
  let ?m = "Suc M div 2"
  from M have m: "?m = MinLeafKeys M" "?m < Suc M" "M - ?m = MinLeafKeys M" "?m \<le> M"
    by (auto elim!: good_order_half simp: MinLeafKeys_def)
  have ks: "ks = take ?m ks @ ks ! ?m # drop (?m + 1) ks"
    using m len by (simp add: id_take_nth_drop)
  have cs: "cs = take (?m + 1) cs @ drop (?m + 1) cs" by simp
  have split: "left = Internal (take ?m ks) (take (?m + 1) cs)"
    "sp = (ks ! ?m, Internal (drop (?m + 1) ks) (drop (?m + 1) cs))"
    using sp len by (auto simp: SplitInternal_def Let_def)
  have "outline (Internal ks cs) = outline left @ split_outline (Some sp)"
    unfolding split outline.simps split_outline.simps
    using join_append [of "map outline (take (?m + 1) cs)" "take ?m ks" "ks ! ?m" "drop (?m + 1) ks"
        "map outline (drop (?m + 1) cs)"] ks cs len m
    by (metis append_take_drop_id length_map length_take map_append min.absorb4 min.absorb2
        Suc_eq_plus1 less_Suc_eq_le Suc_leI Suc_le_mono le_SucI)
  moreover have "entries (Internal ks cs) = entries left @ split_entries (Some sp)"
    "leaf_ptrs (Internal ks cs) = leaf_ptrs left @ split_ptrs (Some sp)"
    unfolding split by (simp_all flip: concat_append map_append)
  moreover have "split_shape M lo (Suc n) left (Some sp)"
    using m len sh by (auto simp: split dest!: in_set_takeD in_set_dropD)
  ultimately show ?thesis
    using s ch unfolding grown_def
    by (simp del: outline.simps entries.simps leaf_ptrs_simps split_outline.simps split_entries.simps
        split_ptrs.simps)
qed

lemma InsertChildSplit_grown:
  assumes M: "good_order M" and sh: "shape M lo (Suc n) (Internal (ks1 @ ks2) (cs1 @ c0 # cs2))"
    and i: "length ks1 = i" "length cs1 = i" "length ks2 = length cs2"
    and g: "grown M (MinLeafKeys M) n (A @ join_left ks1 (map outline cs1))
              (join_right ks2 (map outline cs2) @ B) (P @ concat (map leaf_ptrs cs1))
              (concat (map leaf_ptrs cs2) @ Q) E c csp L"
    and res: "InsertChildSplit M (ks1 @ ks2) (cs1 @ c0 # cs2) i c csp = (t, sp)"
  shows "grown M lo (Suc n) A B P Q (concat (map entries cs1) @ E @ concat (map entries cs2)) t sp L"
proof (cases csp)
  case None
  with res i have t: "t = Internal (ks1 @ ks2) (cs1 @ c # cs2)" "sp = None"
    by (auto simp: InsertChildSplit_def vec_simps)
  with g sh None i show ?thesis
    unfolding grown_def by (auto simp: join_split)
next
  case (Some p)
  obtain s right where p: "p = (s, right)" by (cases p)
  let ?ks = "ks1 @ s # ks2" and ?cs = "cs1 @ c # right # cs2"
  have upd: "insert_at i s (ks1 @ ks2) = ?ks"
    "insert_at (i + 1) right ((cs1 @ c0 # cs2)[i := c]) = ?cs"
    using i by (simp_all add: vec_simps)
  have out: "outline (Internal ?ks ?cs) = join_left ks1 (map outline cs1) @
      (outline c @ Sep s # outline right) @ join_right ks2 (map outline cs2)"
    using join_block [of ks1 "map outline cs1" ks2 "map outline cs2" "[outline c, outline right]" "[s]"] i
    by simp
  have s: "sorted_items (A @ outline (Internal ?ks ?cs) @ B)"
    using g Some p unfolding grown_def out by simp
  have ch: "chained L (P @ leaf_ptrs (Internal ?ks ?cs) @ Q)"
    using g Some p unfolding grown_def by simp
  have E: "entries (Internal ?ks ?cs) = concat (map entries cs1) @ E @ concat (map entries cs2)"
    using g Some p unfolding grown_def by auto
  have sh': "\<forall>x \<in> set ?cs. shape M (MinLeafKeys M) n x"
    using g Some p sh unfolding grown_def by auto
  show ?thesis
  proof (cases "length ?ks \<le> M")
    case True
    with res upd Some p have t: "t = Internal ?ks ?cs" "sp = None"
      by (auto simp: InsertChildSplit_def Let_def)
    have "shape M lo (Suc n) t" using True sh sh' i t by auto
    with t s ch E show ?thesis
      unfolding grown_def by (simp del: outline.simps entries.simps leaf_ptrs_simps)
  next
    case False
    with sh i have l: "length ?ks = Suc M" "length ?cs = Suc (Suc M)" by auto
    obtain sp' where sp': "sp = Some sp'" "SplitInternal ?ks ?cs = (t, sp')"
      using False res upd Some p
      by (auto simp: InsertChildSplit_def Let_def split: prod.splits)
    show ?thesis
      unfolding sp'(1) E [symmetric] by (rule SplitInternal_grown [OF M l sh' s ch sp'(2)])
  qed
qed
text \<open>The parent after the attempts at a full child.\<close>

lemma adjustedE:
  assumes M: "good_order M" and sh: "shape M lo (Suc n) (Internal ks cs)"
    and v: "view_ok A B P Q E (Internal ks cs) L" and i: "i < length cs"
    and adj: "adj = (if M \<le> length (node_keys (cs ! i)) then AdjustFullChild M (ks, cs, L) i else Refused)"
  obtains ks' cs' L' where
    "(case adj of Refused \<Rightarrow> Some (ks, cs, L) | Adjusted p \<Rightarrow> Some p | Emptied \<Rightarrow> None) = Some (ks', cs', L')"
    "shape M lo (Suc n) (Internal ks' cs')" "view_ok A B P Q E (Internal ks' cs') L'"
proof -
  have k: "keeps M lo n (ks, cs, L) adj"
    using adj AdjustFullChild_keeps [OF M sh i] by simp
  show ?thesis
  proof (cases adj)
    case Refused
    then show ?thesis using that sh v by simp
  next
    case (Adjusted p)
    then show ?thesis using that k v by (cases p) (simp add: keeps_def del: shape.simps)
  next
    case Emptied
    then show ?thesis using k by (simp add: keeps_def)
  qed
qed

lemma entries_around:
  assumes "\<forall>x \<in> set (join_left ks1 (map outline cs1)). x < Ent key"
    "\<forall>x \<in> set (join_right ks2 (map outline cs2)). Ent key < x"
    "length ks1 = length cs1" "length ks2 = length cs2"
    "\<forall>c \<in> set (cs1 @ cs2). shape M (MinLeafKeys M) n c"
  shows "\<forall>e \<in> set (concat (map entries cs1)). fst e < key"
    "\<forall>e \<in> set (concat (map entries cs2)). key < fst e"
proof -
  have "set (join_left ks1 (map outline cs1)) \<supseteq> \<Union> (set ` outline ` set cs1)"
    using assms(3) by (induction ks1 cs1 rule: list_induct2) auto
  then have "Ent (fst e) < Ent key" if "c \<in> set cs1" "e \<in> set (entries c)" for c e
    using that assms(5) entries_key_in_outline [of M "MinLeafKeys M" n c e]
    by (intro bspec [OF assms(1)]) auto
  then show "\<forall>e \<in> set (concat (map entries cs1)). fst e < key" by auto
  have "set (join_right ks2 (map outline cs2)) \<supseteq> \<Union> (set ` outline ` set cs2)"
    using assms(4) by (induction ks2 cs2 rule: list_induct2) auto
  then have "Ent key < Ent (fst e)" if "c \<in> set cs2" "e \<in> set (entries c)" for c e
    using that assms(5) entries_key_in_outline [of M "MinLeafKeys M" n c e]
    by (intro bspec [OF assms(2)]) auto
  then show "\<forall>e \<in> set (concat (map entries cs2)). key < fst e" by auto
qed

lemma InsertRecursive_grown:
  assumes M: "good_order M" and "shape M lo n t" "view_ok A B P Q E t L"
    and "\<forall>x \<in> set A. x < Ent key" "\<forall>x \<in> set B. Ent key < x"
  shows "\<exists>t' sp L'. InsertRecursive M n t key r L = Some (t', sp, L') \<and>
           grown M lo n A B P Q (insert_entry key r E) t' sp L'"
  using assms(2-)
proof (induction n arbitrary: lo t A B P Q E L)
  case 0
  then obtain a ks vs where t: "t = Leaf a ks vs" by (auto elim: shape_0E)
  obtain t' sp L' where "InsertIntoLeaf M a ks vs key r L = (t', sp, L')"
    by (cases "InsertIntoLeaf M a ks vs key r L")
  with InsertIntoLeaf_grown [OF M _ _ _ _ this] 0 t show ?case by auto
next
  case (Suc n)
  then obtain ks cs where t: "t = Internal ks cs" and len: "length cs = Suc (length ks)"
    by (auto elim: shape_SucE)
  define adj where "adj = (if M \<le> length (node_keys (cs ! UpperBound ks key))
    then AdjustFullChild M (ks, cs, L) (UpperBound ks key) else Refused)"
  have "UpperBound ks key < length cs" using UpperBound_le [of ks key] len by simp
  from adjustedE [OF M _ _ this adj_def] Suc.prems t obtain ks' cs' L1 where
    adj: "(case adj of Refused \<Rightarrow> Some (ks, cs, L) | Adjusted p \<Rightarrow> Some p | Emptied \<Rightarrow> None) = Some (ks', cs', L1)"
    and sh: "shape M lo (Suc n) (Internal ks' cs')" and v: "view_ok A B P Q E (Internal ks' cs') L1"
    by metis
  have "length cs' = Suc (length ks')" "sorted_items (A @ outline (Internal ks' cs') @ B)"
    using sh v by (simp_all add: view_ok_def)
  from descendE [OF this, of key] obtain ks1 ks2 cs1 c cs2 where
    d: "ks' = ks1 @ ks2" "cs' = cs1 @ c # cs2" "length ks1 = UpperBound ks' key"
      "length cs1 = UpperBound ks' key" "length ks2 = length cs2"
    and lo: "\<forall>x \<in> set (join_left ks1 (map outline cs1)). x < Ent key"
    and hi: "\<forall>x \<in> set (join_right ks2 (map outline cs2)). Ent key < x" .
  let ?A = "A @ join_left ks1 (map outline cs1)" and ?B = "join_right ks2 (map outline cs2) @ B"
    and ?P = "P @ concat (map leaf_ptrs cs1)" and ?Q = "concat (map leaf_ptrs cs2) @ Q"
  have "view_ok ?A ?B ?P ?Q (entries c) c L1"
    using v d by (simp add: view_ok_def join_split)
  moreover have "shape M (MinLeafKeys M) n c" using sh d by simp
  ultimately obtain c' csp L2 where
    rec: "InsertRecursive M n c key r L1 = Some (c', csp, L2)"
    and g: "grown M (MinLeafKeys M) n ?A ?B ?P ?Q (insert_entry key r (entries c)) c' csp L2"
    using Suc.IH [of "MinLeafKeys M" c ?A ?B ?P ?Q "entries c" L1] Suc.prems(3,4) lo hi
    by (auto simp: ball_Un)
  obtain t' sp where res: "InsertChildSplit M (ks1 @ ks2) (cs1 @ c # cs2) (UpperBound ks' key) c' csp = (t', sp)"
    by (cases "InsertChildSplit M (ks1 @ ks2) (cs1 @ c # cs2) (UpperBound ks' key) c' csp")
  have E: "insert_entry key r E
      = concat (map entries cs1) @ insert_entry key r (entries c) @ concat (map entries cs2)"
    using insert_entry_append [OF entries_around [OF lo hi, of M n], of r "entries c"] v d sh
    by (auto simp: view_ok_def ball_Un)
  have "grown M lo (Suc n) A B P Q (insert_entry key r E) t' sp L2"
    unfolding E using InsertChildSplit_grown [OF M _ d(3,4,5) g res] sh d by simp
  moreover have "cs' ! UpperBound ks' key = c" using d by (simp add: vec_simps)
  then have "InsertRecursive M (Suc n) t key r L = Some (t', sp, L2)"
    using rec res d by (simp add: t Let_def adj_def [symmetric] adj)
  ultimately show ?case by blast
qed

lemma Insert_correct:
  assumes "tree_inv t"
  shows "\<exists>t'. Insert t key r = Inr t' \<and> tree_inv t' \<and> max_keys_per_node t' = max_keys_per_node t \<and>
           entries (root t') = insert_entry key r (entries (root t))"
proof -
  let ?M = "max_keys_per_node t" and ?n = "leftmost_depth (root t)"
    and ?lo = "if is_leaf (root t) then 0 else 1"
  from assms have M: "good_order ?M" and sh: "shape ?M ?lo ?n (root t)"
    and v: "view_ok [] [] [] [] (entries (root t)) (root t) (links t)"
    by (auto simp: tree_inv_def view_ok_def)
  from InsertRecursive_grown [OF M sh v, of key r] obtain t' sp L' where
    rec: "InsertRecursive ?M ?n (root t) key r (links t) = Some (t', sp, L')"
    and g: "grown ?M ?lo ?n [] [] [] [] (insert_entry key r (entries (root t))) t' sp L'" by auto
  show ?thesis
  proof (cases sp)
    case None
    with g have sh': "shape ?M ?lo ?n t'" by (simp add: grown_def)
    have "is_leaf t' = is_leaf (root t)" "leftmost_depth t' = ?n"
      using sh sh' shape_is_leaf shape_leftmost_depth by blast+
    with None rec g M show ?thesis by (simp add: Insert_def tree_inv_def grown_def)
  next
    case (Some p)
    obtain s right where p: "p = (s, right)" by (cases p)
    with Some g have sh': "shape ?M (MinLeafKeys ?M) ?n t'" "shape ?M (MinLeafKeys ?M) ?n right"
      by (simp_all add: grown_def)
    then have "leftmost_depth t' = ?n" using shape_leftmost_depth by blast
    moreover have "1 \<le> ?M" using M by (simp add: good_order_def)
    ultimately show ?thesis
      using Some p rec g M sh' by (simp add: Insert_def tree_inv_def grown_def)
  qed
qed

end
