(* ===== verification/BStar_Remove.thy ===== *)
theory BStar_Remove
  imports BStar_Insert
begin

text \<open>
  Removal from the B*+ tree: every way in which \<open>FixChildUnderflow\<close> repairs a child with one key
  too few keeps the invariant and the entries, and \<open>Remove\<close> takes the row id out of the sorted list
  of entries.
\<close>

section \<open>Repairing a block of children\<close>

definition repairs ::
  "nat \<Rightarrow> nat \<Rightarrow> string list \<Rightarrow> Node list \<Rightarrow> leaf_links \<Rightarrow> string list \<Rightarrow> Node list \<Rightarrow> leaf_links \<Rightarrow> bool" where
  "repairs M n mk mc L mk' mc' L' \<longleftrightarrow>
     block_step mk mc L mk' mc' L' \<and> (\<forall>c \<in> set mc'. shape M (MinLeafKeys M) n c)"

lemma BorrowFromLeft_repairs:
  assumes M: "good_order M" and x: "shape M (MinLeafKeys M) n x" "MinLeafKeys M < length (node_keys x)"
    and y: "shape M (MinLeafKeys M - 1) n y" "length (node_keys y) < MinLeafKeys M"
    and i: "length ks1 = i" "length cs1 = i"
  shows "\<exists>k' x' y'. BorrowForChild (is_leaf y) (ks1 @ [k] @ ks2, cs1 @ [x, y] @ cs2, L) i (Suc i) True
           = (ks1 @ [k'] @ ks2, cs1 @ [x', y'] @ cs2, L) \<and> repairs M n [k] [x, y] L [k'] [x', y'] L"
proof -
  from M obtain m where m: "M = 2 * m" "3 \<le> m" "MinLeafKeys M = m" by (rule good_order_half)
  show ?thesis
  proof (cases n)
    case 0
    with x y obtain a lk lv b rk rv where l: "x = Leaf a lk lv" "y = Leaf b rk rv"
      and len: "length lv = length lk" "length rv = length rk" "m < length lk" "length lk \<le> M"
        "m - 1 \<le> length rk" "length rk < m" and ne: "\<forall>v \<in> set lv. v \<noteq> []" "\<forall>v \<in> set rv. v \<noteq> []"
      using m by (auto elim!: shape_0E)
    obtain lk' h lv' v where e: "lk = lk' @ [h]" "lv = lv' @ [v]"
      using len m by (cases lk rule: rev_cases; cases lv rule: rev_cases) auto
    have "block_step [k] [x, y] L [hd (h # rk)] [Leaf a lk' lv', Leaf b (h # rk) (v # rv)] L"
      unfolding l using e len m by (intro leaf_shift_step) auto
    with 0 l e len ne m i show ?thesis
      by (auto simp: BorrowForChild_def BorrowForLeaf_def vec_simps repairs_def)
  next
    case (Suc n')
    with x y obtain lk lc rk rc where l: "x = Internal lk lc" "y = Internal rk rc"
      and len: "length lc = Suc (length lk)" "length rc = Suc (length rk)" "m < length lk" "length lk \<le> M"
        "m - 1 \<le> length rk" "length rk < m"
      and ch: "\<forall>c \<in> set lc. shape M m n' c" "\<forall>c \<in> set rc. shape M m n' c"
      using m by (auto elim!: shape_SucE)
    obtain lk' h lc' c where e: "lk = lk' @ [h]" "lc = lc' @ [c]"
      using len m by (cases lk rule: rev_cases; cases lc rule: rev_cases) auto
    have "block_step [k] [x, y] L [h] [Internal lk' lc', Internal (k # rk) (c # rc)] L"
      unfolding l using e len by (intro internal_block_step) (auto simp: join_append)
    with Suc l e len ch m i show ?thesis
      by (auto simp: BorrowForChild_def BorrowForInternal_def vec_simps repairs_def)
  qed
qed

lemma BorrowFromRight_repairs:
  assumes M: "good_order M" and x: "shape M (MinLeafKeys M - 1) n x" "length (node_keys x) < MinLeafKeys M"
    and y: "shape M (MinLeafKeys M) n y" "MinLeafKeys M < length (node_keys y)"
    and i: "length ks1 = i" "length cs1 = i"
  shows "\<exists>k' x' y'. BorrowForChild (is_leaf x) (ks1 @ [k] @ ks2, cs1 @ [x, y] @ cs2, L) i (Suc i) False
           = (ks1 @ [k'] @ ks2, cs1 @ [x', y'] @ cs2, L) \<and> repairs M n [k] [x, y] L [k'] [x', y'] L"
proof -
  from M obtain m where m: "M = 2 * m" "3 \<le> m" "MinLeafKeys M = m" by (rule good_order_half)
  show ?thesis
  proof (cases n)
    case 0
    with x y obtain a lk lv b rk rv where l: "x = Leaf a lk lv" "y = Leaf b rk rv"
      and len: "length lv = length lk" "length rv = length rk" "m < length rk" "length rk \<le> M"
        "m - 1 \<le> length lk" "length lk < m" and ne: "\<forall>v \<in> set lv. v \<noteq> []" "\<forall>v \<in> set rv. v \<noteq> []"
      using m by (auto elim!: shape_0E)
    obtain h rk' v rv' where e: "rk = h # rk'" "rv = v # rv'" "rk' \<noteq> []"
      using len m by (cases rk; cases rv; cases "tl rk") auto
    have "block_step [k] [x, y] L [hd rk'] [Leaf a (lk @ [h]) (lv @ [v]), Leaf b rk' rv'] L"
      unfolding l using e len m by (intro leaf_shift_step) auto
    with 0 l e len ne m i show ?thesis
      by (auto simp: BorrowForChild_def BorrowForLeaf_def vec_simps repairs_def)
  next
    case (Suc n')
    with x y obtain lk lc rk rc where l: "x = Internal lk lc" "y = Internal rk rc"
      and len: "length lc = Suc (length lk)" "length rc = Suc (length rk)" "m < length rk" "length rk \<le> M"
        "m - 1 \<le> length lk" "length lk < m"
      and ch: "\<forall>c \<in> set lc. shape M m n' c" "\<forall>c \<in> set rc. shape M m n' c"
      using m by (auto elim!: shape_SucE)
    obtain h rk' c rc' where e: "rk = h # rk'" "rc = c # rc'"
      using len m by (cases rk; cases rc) auto
    have "block_step [k] [x, y] L [h] [Internal (lk @ [k]) (lc @ [c]), Internal rk' rc'] L"
      unfolding l using e len by (intro internal_block_step) (auto simp: join_append)
    with Suc l e len ch m i show ?thesis
      by (auto simp: BorrowForChild_def BorrowForInternal_def vec_simps repairs_def)
  qed
qed

lemma MergeChildren_repairs:
  assumes M: "good_order M" and x: "shape M (MinLeafKeys M - 1) n x" and y: "shape M (MinLeafKeys M - 1) n y"
    and sum: "length (node_keys x) + length (node_keys y) = M - 1"
    and i: "length ks1 = i" "length cs1 = i" and leaf: "leaf = is_leaf x"
  shows "\<exists>x' L'. MergeChildren leaf (ks1 @ [k] @ ks2, cs1 @ [x, y] @ cs2, L) i (Suc i)
           = (ks1 @ ks2, cs1 @ [x'] @ cs2, L') \<and> repairs M n [k] [x, y] L [] [x'] L'"
proof -
  from M obtain m where m: "M = 2 * m" "3 \<le> m" "MinLeafKeys M = m" by (rule good_order_half)
  show ?thesis
  proof (cases n)
    case 0
    with x y obtain a lk lv b rk rv where l: "x = Leaf a lk lv" "y = Leaf b rk rv"
      and len: "length lv = length lk" "length rv = length rk"
      and ne: "\<forall>v \<in> set lv. v \<noteq> []" "\<forall>v \<in> set rv. v \<noteq> []"
      by (auto elim!: shape_0E)
    have "block_step [k] [x, y] L [] [Leaf a (lk @ rk) (lv @ rv)] (link_merge a b L)"
      unfolding l using len by (intro leaf_merge_step) auto
    with 0 l len ne m i sum leaf show ?thesis
      by (auto simp: MergeChildren_def MergeLeaves_def vec_simps repairs_def)
  next
    case (Suc n')
    with x y obtain lk lc rk rc where l: "x = Internal lk lc" "y = Internal rk rc"
      and len: "length lc = Suc (length lk)" "length rc = Suc (length rk)"
      and ch: "\<forall>c \<in> set lc. shape M m n' c" "\<forall>c \<in> set rc. shape M m n' c"
      using m by (auto elim!: shape_SucE)
    have "block_step [k] [x, y] L [] [Internal (lk @ k # rk) (lc @ rc)] L"
      unfolding l using len by (intro internal_block_step) (auto simp: join_append)
    with Suc l len ch m i sum leaf show ?thesis
      by (auto simp: MergeChildren_def MergeInternal_def vec_simps repairs_def)
  qed
qed

text \<open>The 3-to-2 merge: its size conditions always hold when a child has underflowed.\<close>

lemma TryThreeToTwo_repairs:
  assumes M: "good_order M" and x: "shape M (MinLeafKeys M - 1) n x" and y: "shape M (MinLeafKeys M - 1) n y"
    and z: "shape M (MinLeafKeys M - 1) n z" and leaf: "leaf \<longleftrightarrow> n = 0"
    and sum: "S = length (node_keys x) + length (node_keys y) + length (node_keys z)"
      "3 * MinLeafKeys M - 1 \<le> S" "S < 2 * M"
    and i: "length ks1 = i" "length cs1 = i"
  shows "\<exists>k' x' y' L'. TryThreeToTwo leaf M (ks1 @ [k, j] @ ks2, cs1 @ [x, y, z] @ cs2, L) i
           = Adjusted (ks1 @ [k'] @ ks2, cs1 @ [x', y'] @ cs2, L') \<and>
             repairs M n [k, j] [x, y, z] L [k'] [x', y'] L'"
proof -
  from M obtain m where m: "M = 2 * m" "3 \<le> m" "MinLeafKeys M = m" by (rule good_order_half)
  have nl: "\<not> length (cs1 @ x # y # z # cs2) \<le> Suc (Suc i)" using i by simp
  show ?thesis
  proof (cases n)
    case 0
    with x y z obtain a ak av b bk bv c ck cv where l: "x = Leaf a ak av" "y = Leaf b bk bv" "z = Leaf c ck cv"
      and len: "length av = length ak" "length bv = length bk" "length cv = length ck"
      and ne: "\<forall>v \<in> set (av @ bv @ cv). v \<noteq> []"
      by (auto elim!: shape_0E simp: ball_Un)
    define K V h where "K = ak @ bk @ ck" and "V = av @ bv @ cv" and "h = S div 2"
    have lens: "length K = S" "length V = S" using len l sum by (simp_all add: K_def V_def)
    have h: "m \<le> h" "m \<le> S - h" "h \<le> M" "S - h \<le> M" "h < S" "2 * m \<le> S"
      using sum m by (auto simp: h_def)
    have step: "block_step [k, j] [x, y, z] L [hd (drop h K)]
        [Leaf a (take h K) (take h V), Leaf b (drop h K) (drop h V)] (link_three_to_two a b c L)"
      unfolding l using len lens h m
      by (intro leaf_three_to_two_step) (auto simp: K_def [symmetric] V_def [symmetric])
    have sh: "\<forall>t \<in> set [Leaf a (take h K) (take h V), Leaf b (drop h K) (drop h V)]. shape M m 0 t"
      using lens h ne unfolding V_def [symmetric] by (auto dest!: in_set_takeD in_set_dropD)
    have "TryThreeToTwo leaf M (ks1 @ [k, j] @ ks2, cs1 @ [x, y, z] @ cs2, L) i =
        Adjusted (ks1 @ [hd (drop h K)] @ ks2,
          cs1 @ [Leaf a (take h K) (take h V), Leaf b (drop h K) (drop h V)] @ cs2, link_three_to_two a b c L)"
      using 0 leaf i h m sum(3) nl unfolding l
      by (simp add: TryThreeToTwo_def vec_simps Let_def K_def [symmetric] V_def [symmetric] lens h_def [symmetric]
          del: length_append take_append drop_append)
    moreover have "repairs M n [k, j] [x, y, z] L [hd (drop h K)]
        [Leaf a (take h K) (take h V), Leaf b (drop h K) (drop h V)] (link_three_to_two a b c L)"
      using step sh 0 m by (simp only: repairs_def)
    ultimately show ?thesis by blast
  next
    case (Suc n')
    with x y z obtain ak ac bk bc ck cc where l: "x = Internal ak ac" "y = Internal bk bc" "z = Internal ck cc"
      and len: "length ac = Suc (length ak)" "length bc = Suc (length bk)" "length cc = Suc (length ck)"
      and ch: "\<forall>t \<in> set (ac @ bc @ cc). shape M m n' t"
      using m by (auto elim!: shape_SucE simp: ball_Un)
    define K C h where "K = ak @ k # bk @ j # ck" and "C = ac @ bc @ cc" and "h = (S + 2) div 2"
    have lens: "length K = S + 2" "length C = S + 3" using len l sum by (simp_all add: K_def C_def)
    have h: "m \<le> h" "m \<le> S + 1 - h" "h \<le> M" "S + 1 - h \<le> M" "h < S + 2" "2 * m + 1 \<le> S + 2" "S + 2 \<le> 2 * M + 1"
      using sum m by (auto simp: h_def)
    have hS: "Suc (S div 2) = h" "S - S div 2 = Suc S - h" by (auto simp: h_def)
    let ?x = "Internal (take h K) (take (h + 1) C)" and ?y = "Internal (drop (h + 1) K) (drop (h + 1) C)"
    have K: "take h K @ K ! h # drop (h + 1) K = K" using h lens by (simp add: id_take_nth_drop [symmetric])
    have "join [K ! h] [outline ?x, outline ?y] = join K (map outline C)"
      using outline_two_internal [of "take (h + 1) C" "take h K" "drop (h + 1) C" "drop (h + 1) K" "K ! h"] lens h
      by (simp only: K append_take_drop_id) simp
    then have step: "block_step [k, j] [x, y, z] L [K ! h] [?x, ?y] L"
      using outline_three_internal [of ac ak bc bk cc ck k j] len
      by (intro internal_block_step)
        (simp_all add: l K_def [symmetric] C_def [symmetric] flip: concat_append map_append)
    have sh: "\<forall>t \<in> set [?x, ?y]. shape M m (Suc n') t"
      using lens h ch m unfolding C_def [symmetric] by (auto dest!: in_set_takeD in_set_dropD)
    have "TryThreeToTwo leaf M (ks1 @ [k, j] @ ks2, cs1 @ [x, y, z] @ cs2, L) i =
        Adjusted (ks1 @ [K ! h] @ ks2, cs1 @ [?x, ?y] @ cs2, L)"
      using Suc leaf i h m sum(3) nl unfolding l
      by (simp add: TryThreeToTwo_def vec_simps Let_def K_def [symmetric] C_def [symmetric] lens hS
          del: length_append take_append drop_append)
    moreover have "repairs M n [k, j] [x, y, z] L [K ! h] [?x, ?y] L"
      using step sh Suc m by (simp only: repairs_def)
    ultimately show ?thesis by blast
  qed
qed

section \<open>Repairing a parent\<close>

text \<open>
  The parent \<open>p\<close> has become \<open>q\<close>: same entries, same order, same chain, at most one key less.
\<close>

definition repaired :: "nat \<Rightarrow> nat \<Rightarrow> nat \<Rightarrow> parent \<Rightarrow> parent \<Rightarrow> bool" where
  "repaired M lo n p q \<longleftrightarrow>
     (case (p, q) of ((ks, cs, L), (ks', cs', L')) \<Rightarrow>
        shape M (lo - 1) (Suc n) (Internal ks' cs') \<and>
        (\<forall>A B P Q E. view_ok A B P Q E (Internal ks cs) L \<longrightarrow> view_ok A B P Q E (Internal ks' cs') L'))"

lemma repaired_block:
  assumes "repairs M n mk mc L mk' mc' L'"
    and "length ks1 = length cs1" "length ks2 = length cs2"
    and "\<forall>c \<in> set cs1. shape M (MinLeafKeys M) n c" "\<forall>c \<in> set cs2. shape M (MinLeafKeys M) n c"
    and "length ks1 + length mk + length ks2 \<le> M" "lo \<le> length ks1 + length mk + length ks2"
    and "length mk' \<le> length mk" "length mk \<le> Suc (length mk')"
  shows "repaired M lo n (ks1 @ mk @ ks2, cs1 @ mc @ cs2, L) (ks1 @ mk' @ ks2, cs1 @ mc' @ cs2, L')"
  using assms replace_block [of _ _ _ _ _ ks1 mk ks2 cs1 mc cs2 L mk' mc' L']
  by (auto simp: repaired_def repairs_def block_step_def)

text \<open>The cases of \<open>FixChildUnderflow\<close> for a child with one key too few.\<close>

lemma FixChildUnderflow_borrow_left:
  assumes M: "good_order M" and c: "shape M (MinLeafKeys M - 1) n c" "length (node_keys c) < MinLeafKeys M"
    and x: "shape M (MinLeafKeys M) n x" "MinLeafKeys M < length (node_keys x)"
    and i: "length ks1 = i" "length cs1 = i"
  shows "\<exists>k' x' y'. FixChildUnderflow M (ks1 @ [k] @ ks2, cs1 @ [x, c] @ cs2, L) (Suc i)
           = Some (ks1 @ [k'] @ ks2, cs1 @ [x', y'] @ cs2, L) \<and> repairs M n [k] [x, c] L [k'] [x', y'] L"
  using BorrowFromLeft_repairs [OF M x c i, of k ks2 cs2 L] c(2) x(2) i
  by (auto simp: FixChildUnderflow_def Let_def vec_simps)

lemma FixChildUnderflow_borrow_right:
  assumes M: "good_order M" and c: "shape M (MinLeafKeys M - 1) n c" "length (node_keys c) < MinLeafKeys M"
    and x: "shape M (MinLeafKeys M) n x" "MinLeafKeys M < length (node_keys x)"
    and left: "i = 0 \<or> length (node_keys (cs1 ! (i - 1))) \<le> MinLeafKeys M"
    and i: "length ks1 = i" "length cs1 = i"
  shows "\<exists>k' x' y'. FixChildUnderflow M (ks1 @ [k] @ ks2, cs1 @ [c, x] @ cs2, L) i
           = Some (ks1 @ [k'] @ ks2, cs1 @ [x', y'] @ cs2, L) \<and> repairs M n [k] [c, x] L [k'] [x', y'] L"
proof -
  have "\<not> (0 < i \<and> MinLeafKeys M < length (node_keys ((cs1 @ [c, x] @ cs2) ! (i - 1))))"
    using left i by (auto simp: nth_append)
  then show ?thesis
    using BorrowFromRight_repairs [OF M c x i, of k ks2 cs2 L] c(2) x(2) i
    by (auto simp: FixChildUnderflow_def Let_def vec_simps)
qed

text \<open>When no neighbour can give a key, three nodes are merged into two, or two into one.\<close>

definition no_lender :: "nat \<Rightarrow> Node list \<Rightarrow> nat \<Rightarrow> bool" where
  "no_lender M cs i \<longleftrightarrow>
     (0 < i \<longrightarrow> length (node_keys (cs ! (i - 1))) \<le> MinLeafKeys M) \<and>
     (i + 1 < length cs \<longrightarrow> length (node_keys (cs ! (i + 1))) \<le> MinLeafKeys M)"

lemma FixChildUnderflow_no_lender:
  assumes "no_lender M cs i" "length (node_keys (cs ! i)) < MinLeafKeys M" "length cs \<noteq> 1"
  shows "FixChildUnderflow M (ks, cs, L) i =
    (let leaf = is_leaf (cs ! i); p = (ks, cs, L) in
     case (if 3 \<le> length cs
           then or_try (if 0 < i \<and> i + 1 < length cs then TryThreeToTwo leaf M p (i - 1) else Refused)
                  (or_try (if i + 2 < length cs then TryThreeToTwo leaf M p i else Refused)
                     (if 2 \<le> i then TryThreeToTwo leaf M p (i - 2) else Refused))
           else Refused) of
       Adjusted q \<Rightarrow> Some q
     | Emptied \<Rightarrow> None
     | Refused \<Rightarrow>
         (if length cs = 2
          then (if 0 < i then Some (MergeChildren leaf p (i - 1) i) else Some (MergeChildren leaf p i (i + 1)))
          else Some p))"
  using assms unfolding FixChildUnderflow_def no_lender_def by (auto simp: Let_def)

lemma FixChildUnderflow_three_to_two:
  assumes M: "good_order M" and nl: "no_lender M (cs1 @ [x, y, z] @ cs2) i"
    and i: "(cs1 @ [x, y, z] @ cs2) ! i \<in> {x, y, z}" "length (node_keys ((cs1 @ [x, y, z] @ cs2) ! i)) < MinLeafKeys M"
    and sh: "shape M (MinLeafKeys M - 1) n x" "shape M (MinLeafKeys M - 1) n y" "shape M (MinLeafKeys M - 1) n z"
    and sum: "S = length (node_keys x) + length (node_keys y) + length (node_keys z)"
      "3 * MinLeafKeys M - 1 \<le> S" "S < 2 * M"
    and j: "length ks1 = length cs1"
    and pos: "i = Suc (length cs1) \<or> i = 0 \<and> cs1 = [] \<or> i = Suc (Suc (length cs1)) \<and> cs2 = []"
  shows "\<exists>k' x' y' L'. FixChildUnderflow M (ks1 @ [k, l] @ ks2, cs1 @ [x, y, z] @ cs2, L) i
           = Some (ks1 @ [k'] @ ks2, cs1 @ [x', y'] @ cs2, L') \<and>
             repairs M n [k, l] [x, y, z] L [k'] [x', y'] L'"
proof -
  have leaf: "is_leaf ((cs1 @ [x, y, z] @ cs2) ! i) \<longleftrightarrow> n = 0"
    using i(1) sh shape_is_leaf by (metis empty_iff insert_iff)
  from TryThreeToTwo_repairs [OF M sh leaf sum j refl] obtain k' x' y' L' where
    t: "TryThreeToTwo (is_leaf ((cs1 @ [x, y, z] @ cs2) ! i)) M (ks1 @ [k, l] @ ks2, cs1 @ [x, y, z] @ cs2, L)
      (length cs1) = Adjusted (ks1 @ [k'] @ ks2, cs1 @ [x', y'] @ cs2, L')"
    and r: "repairs M n [k, l] [x, y, z] L [k'] [x', y'] L'" by blast
  have "FixChildUnderflow M (ks1 @ [k, l] @ ks2, cs1 @ [x, y, z] @ cs2, L) i
      = Some (ks1 @ [k'] @ ks2, cs1 @ [x', y'] @ cs2, L')"
    using pos t by (subst FixChildUnderflow_no_lender [OF nl i(2)]) (auto simp: Let_def Suc_le_eq)
  with r show ?thesis by blast
qed

lemma FixChildUnderflow_merge:
  assumes M: "good_order M" and nl: "no_lender M [x, y] i" and i: "i < 2"
    and "length (node_keys ([x, y] ! i)) < MinLeafKeys M"
    and x: "shape M (MinLeafKeys M - 1) n x" and y: "shape M (MinLeafKeys M - 1) n y"
    and sum: "length (node_keys x) + length (node_keys y) = M - 1"
  shows "\<exists>x' L'. FixChildUnderflow M ([k], [x, y], L) i = Some ([], [x'], L') \<and>
           repairs M n [k] [x, y] L [] [x'] L'"
proof -
  have leaf: "is_leaf ([x, y] ! i) = is_leaf x"
    using i x y shape_is_leaf by (cases i) auto
  from MergeChildren_repairs [OF M x y sum _ _ leaf, of "[]" 0 "[]" k "[]" "[]" L] obtain x' L' where
    m: "MergeChildren (is_leaf ([x, y] ! i)) ([k], [x, y], L) 0 1 = ([], [x'], L')"
    and r: "repairs M n [k] [x, y] L [] [x'] L'" by auto
  have "FixChildUnderflow M ([k], [x, y], L) i = Some ([], [x'], L')"
    using m i by (subst FixChildUnderflow_no_lender [OF nl assms(4)]) (cases i; auto simp: Let_def)+
  with r show ?thesis by blast
qed

text \<open>The neighbours of a child that has to be repaired: a lender, or who takes part in the merge.\<close>

lemma neighbours_cases:
  assumes "1 \<le> length cs1 + length cs2"
  obtains
      (left) xs x where "cs1 = xs @ [x]" "m < length (node_keys x)"
    | (right) y ys where "cs2 = y # ys" "m < length (node_keys y)" "cs1 = [] \<or> length (node_keys (last cs1)) \<le> m"
    | (middle) xs x y ys where "cs1 = xs @ [x]" "cs2 = y # ys" "length (node_keys x) \<le> m" "length (node_keys y) \<le> m"
    | (first) y z ys where "cs1 = []" "cs2 = y # z # ys" "length (node_keys y) \<le> m"
    | (final) xs x y where "cs1 = xs @ [x, y]" "cs2 = []" "length (node_keys y) \<le> m"
    | (two_l) x where "cs1 = [x]" "cs2 = []" "length (node_keys x) \<le> m"
    | (two_r) y where "cs1 = []" "cs2 = [y]" "length (node_keys y) \<le> m"
proof (cases "(cs1 \<noteq> [] \<and> m < length (node_keys (last cs1))) \<or> (cs2 \<noteq> [] \<and> m < length (node_keys (hd cs2)))")
  case True
  then show ?thesis
    using left [of "butlast cs1" "last cs1"] right [of "hd cs2" "tl cs2"] by (cases "cs1 = []") force+
next
  case False
  have c1: "cs1 = [] \<or> (\<exists>x. cs1 = [x]) \<or> (\<exists>xs x y. cs1 = xs @ [x, y])"
    by (cases cs1 rule: rev_cases; cases "butlast cs1" rule: rev_cases) auto
  have c2: "cs2 = [] \<or> (\<exists>y. cs2 = [y]) \<or> (\<exists>y z ys. cs2 = y # z # ys)"
    by (cases cs2; cases "tl cs2") auto
  show ?thesis
  proof (cases "cs1 = [] \<or> cs2 = []")
    case True
    with c1 c2 False assms show ?thesis
      by (elim disjE exE) (auto intro: first final two_l two_r)
  next
    case mid: False
    with False show ?thesis
      using middle [of "butlast cs1" "last cs1" "hd cs2" "tl cs2"] by (simp add: not_less)
  qed
qed

lemma FixChildUnderflow_repaired:
  assumes M: "good_order M" and c: "shape M (MinLeafKeys M - 1) n c"
    and cs1: "\<forall>c \<in> set cs1. shape M (MinLeafKeys M) n c" and cs2: "\<forall>c \<in> set cs2. shape M (MinLeafKeys M) n c"
    and i: "length ks1 = length cs1" "length ks2 = length cs2"
    and len: "length ks1 + length ks2 \<le> M" "lo \<le> length ks1 + length ks2" "1 \<le> lo"
  shows "\<exists>q. FixChildUnderflow M (ks1 @ ks2, cs1 @ c # cs2, L) (length cs1) = Some q \<and>
           repaired M lo n (ks1 @ ks2, cs1 @ c # cs2, L) q"
    (is "\<exists>q. FixChildUnderflow M ?p ?i = Some q \<and> _ q")
proof (cases "MinLeafKeys M \<le> length (node_keys c)")
  case True
  then have "FixChildUnderflow M ?p ?i = Some ?p"
    by (simp add: FixChildUnderflow_def Let_def vec_simps)
  moreover have "repaired M lo n ?p ?p"
    using c cs1 cs2 i len shape_mono [OF c] True by (auto simp: repaired_def)
  ultimately show ?thesis by blast
next
  case False
  from M obtain m where m: "M = 2 * m" "3 \<le> m" "MinLeafKeys M = m" by (rule good_order_half)
  have kc: "length (node_keys c) = m - 1" using False shape_key_count [OF c] m by simp
  then have lt: "length (node_keys c) < MinLeafKeys M" using m by simp
  have weak: "shape M (MinLeafKeys M - 1) n x" if "shape M (MinLeafKeys M) n x" for x
    using that shape_key_count [OF that] by (auto intro: shape_mono)
  note count = shape_key_count [of M "MinLeafKeys M" n]
  have "1 \<le> length cs1 + length cs2" using len i by simp
  then show ?thesis
  proof (cases rule: neighbours_cases [where m = m])
    case (left xs x)
    then obtain js k where ks: "ks1 = js @ [k]" "length js = length xs"
      using i by (cases ks1 rule: rev_cases) auto
    from FixChildUnderflow_borrow_left [OF M c lt, of x js "length xs" xs k ks2 cs2 L] left cs1 m ks obtain k' x' y' where
      "FixChildUnderflow M ?p ?i = Some (js @ [k'] @ ks2, xs @ [x', y'] @ cs2, L)"
      "repairs M n [k] [x, c] L [k'] [x', y'] L" by auto
    with repaired_block [OF this(2), of js xs ks2 cs2 lo] show ?thesis
      using left ks i len cs1 cs2 by auto
  next
    case (right y ys)
    then obtain k js where ks: "ks2 = k # js" "length js = length ys"
      using i by (cases ks2) auto
    have "length cs1 = 0 \<or> length (node_keys (cs1 ! (length cs1 - 1))) \<le> MinLeafKeys M"
      using right(3) m by (cases "cs1 = []") (simp_all add: last_conv_nth)
    from FixChildUnderflow_borrow_right [OF M c lt _ _ this i(1) refl, of y k js ys L] right cs2 m ks obtain k' x' y' where
      "FixChildUnderflow M ?p ?i = Some (ks1 @ [k'] @ js, cs1 @ [x', y'] @ ys, L)"
      "repairs M n [k] [c, y] L [k'] [x', y'] L" by auto
    with repaired_block [OF this(2), of ks1 cs1 js ys lo] show ?thesis
      using right ks i len cs1 cs2 by auto
  next
    case (middle xs x y ys)
    then obtain js k l hs where ks: "ks1 = js @ [k]" "ks2 = l # hs" "length js = length xs" "length hs = length ys"
      using i by (cases ks1 rule: rev_cases; cases ks2) auto
    have sh: "shape M (MinLeafKeys M) n x" "shape M (MinLeafKeys M) n y" using middle cs1 cs2 by auto
    have sz: "3 * MinLeafKeys M - 1 \<le> length (node_keys x) + length (node_keys c) + length (node_keys y)"
      "length (node_keys x) + length (node_keys c) + length (node_keys y) < 2 * M"
      using middle m kc count [OF sh(1)] count [OF sh(2)] by linarith+
    have "no_lender M (xs @ [x, c, y] @ ys) (Suc (length xs))"
      using middle m by (simp add: no_lender_def vec_simps)
    from FixChildUnderflow_three_to_two [OF M this _ _ weak [OF sh(1)] c weak [OF sh(2)] refl sz, of js k l hs L]
      middle m ks lt obtain k' x' y' L' where
      "FixChildUnderflow M ?p ?i = Some (js @ [k'] @ hs, xs @ [x', y'] @ ys, L')"
      "repairs M n [k, l] [x, c, y] L [k'] [x', y'] L'" by (auto simp: vec_simps)
    with repaired_block [OF this(2), of js xs hs ys lo] show ?thesis
      using middle ks i len cs1 cs2 by auto
  next
    case (first y z ys)
    then obtain k l hs where ks: "ks1 = []" "ks2 = k # l # hs" "length hs = length ys"
      using i by (cases ks2; cases "tl ks2") auto
    have sh: "shape M (MinLeafKeys M) n y" "shape M (MinLeafKeys M) n z" using first cs2 by auto
    have sz: "3 * MinLeafKeys M - 1 \<le> length (node_keys c) + length (node_keys y) + length (node_keys z)"
      "length (node_keys c) + length (node_keys y) + length (node_keys z) < 2 * M"
      using first m kc count [OF sh(1)] count [OF sh(2)] by linarith+
    have "no_lender M ([] @ [c, y, z] @ ys) 0"
      using first m by (simp add: no_lender_def)
    from FixChildUnderflow_three_to_two [OF M this _ _ c weak [OF sh(1)] weak [OF sh(2)] refl sz, of "[]" k l hs L]
      first m ks lt obtain k' x' y' L' where
      "FixChildUnderflow M ?p ?i = Some ([] @ [k'] @ hs, [] @ [x', y'] @ ys, L')"
      "repairs M n [k, l] [c, y, z] L [k'] [x', y'] L'" by auto
    with repaired_block [OF this(2), of "[]" "[]" hs ys lo] show ?thesis
      using first ks i len cs1 cs2 by auto
  next
    case (final xs x y)
    then obtain js k l where ks: "ks2 = []" "ks1 = js @ [k, l]" "length js = length xs"
      using i by (cases ks1 rule: rev_cases; cases "butlast ks1" rule: rev_cases) auto
    have sh: "shape M (MinLeafKeys M) n x" "shape M (MinLeafKeys M) n y" using final cs1 by auto
    have sz: "3 * MinLeafKeys M - 1 \<le> length (node_keys x) + length (node_keys y) + length (node_keys c)"
      "length (node_keys x) + length (node_keys y) + length (node_keys c) < 2 * M"
      using final m kc count [OF sh(1)] count [OF sh(2)] by linarith+
    have "no_lender M (xs @ [x, y, c] @ []) (Suc (Suc (length xs)))"
      using final m by (simp add: no_lender_def vec_simps)
    from FixChildUnderflow_three_to_two [OF M this _ _ weak [OF sh(1)] weak [OF sh(2)] c refl sz, of js k l "[]" L]
      final m ks lt obtain k' x' y' L' where
      "FixChildUnderflow M ?p ?i = Some (js @ [k'] @ [], xs @ [x', y'] @ [], L')"
      "repairs M n [k, l] [x, y, c] L [k'] [x', y'] L'" by (auto simp: vec_simps)
    with repaired_block [OF this(2), of js xs "[]" "[]" lo] show ?thesis
      using final ks i len cs1 cs2 by auto
  next
    case (two_l x)
    then obtain k where ks: "ks2 = []" "ks1 = [k]" using i by (cases ks1) auto
    have sh: "shape M (MinLeafKeys M) n x" using two_l cs1 by auto
    have sz: "length (node_keys x) + length (node_keys c) = M - 1"
      using two_l m kc count [OF sh] by linarith
    have "no_lender M [x, c] 1" using two_l m by (simp add: no_lender_def)
    from FixChildUnderflow_merge [OF M this _ _ weak [OF sh] c sz, of k L]
      two_l m ks lt obtain x' L' where
      "FixChildUnderflow M ?p ?i = Some ([] @ [] @ [], [] @ [x'] @ [], L')"
      "repairs M n [k] [x, c] L [] [x'] L'" by auto
    with repaired_block [OF this(2), of "[]" "[]" "[]" "[]" lo] show ?thesis
      using two_l ks i len cs1 cs2 by auto
  next
    case (two_r y)
    then obtain k where ks: "ks1 = []" "ks2 = [k]" using i by (cases ks2) auto
    have sh: "shape M (MinLeafKeys M) n y" using two_r cs2 by auto
    have sz: "length (node_keys c) + length (node_keys y) = M - 1"
      using two_r m kc count [OF sh] by linarith
    have "no_lender M [c, y] 0" using two_r m by (simp add: no_lender_def)
    from FixChildUnderflow_merge [OF M this _ _ c weak [OF sh] sz, of k L]
      two_r m ks lt obtain x' L' where
      "FixChildUnderflow M ?p ?i = Some ([] @ [] @ [], [] @ [x'] @ [], L')"
      "repairs M n [k] [c, y] L [] [x'] L'" by auto
    with repaired_block [OF this(2), of "[]" "[]" "[]" "[]" lo] show ?thesis
      using two_r ks i len cs1 cs2 by auto
  qed
qed

section \<open>Removing from lists of entries\<close>

lemma remove_entry_absent: "\<forall>e \<in> set es. fst e \<noteq> key \<Longrightarrow> remove_entry key r es = es"
  by (induction key r es rule: remove_entry.induct) auto

lemma remove_entry_append:
  assumes "\<forall>e \<in> set es1. fst e < key" "\<forall>e \<in> set es2. key < fst e"
  shows "remove_entry key r (es1 @ es @ es2) = es1 @ remove_entry key r es @ es2"
proof -
  have "remove_entry key r es2 = es2" using assms(2) by (intro remove_entry_absent) auto
  then have "remove_entry key r (es @ es2) = remove_entry key r es @ es2"
    by (induction es) auto
  with assms(1) show ?thesis by (induction es1) auto
qed

lemma RemoveFromLeaf_view:
  assumes sh: "shape M lo 0 (Leaf a ks vs)" and v: "view_ok A B P Q E (Leaf a ks vs) L"
  shows "case RemoveFromLeaf ks vs key r of
      None \<Rightarrow> remove_entry key r E = E
    | Some (ks', vs') \<Rightarrow> shape M (lo - 1) 0 (Leaf a ks' vs') \<and>
        view_ok A B P Q (remove_entry key r E) (Leaf a ks' vs') L"
proof -
  from v have s: "sorted_items (A @ map Ent ks @ B)" and E: "E = zip ks vs"
    and ch: "chained L (P @ a # Q)" by (auto simp: view_ok_def)
  from s have sks: "sorted_wrt (<) ks" by (simp add: sorted_wrt_append sorted_wrt_map)
  from sh have len: "length vs = length ks" "lo \<le> length ks" "length ks \<le> M" and ne: "\<forall>v \<in> set vs. v \<noteq> []"
    by auto
  from LowerBound_splitE [OF sks len(1), of key] obtain ks1 ks2 vs1 vs2 where
    d: "ks = ks1 @ ks2" "vs = vs1 @ vs2" "length ks1 = LowerBound ks key"
      "length vs1 = length ks1" "length vs2 = length ks2"
    and ks1: "\<forall>k \<in> set ks1. k < key" and ks2: "\<forall>k \<in> set ks2. key \<le> k" by metis
  have "\<forall>e \<in> set (zip ks1 vs1). fst e < key" using ks1 by (auto dest: set_zip_leftD)
  then have E1: "remove_entry key r E = zip ks1 vs1 @ remove_entry key r (zip ks2 vs2)"
    using remove_entry_append [of "zip ks1 vs1" key "[]" r "zip ks2 vs2"] d E by simp
  show ?thesis
  proof (cases "ks2 \<noteq> [] \<and> hd ks2 = key")
    case True
    then obtain ks' v vs' where k: "ks2 = key # ks'" "vs2 = v # vs'"
      using d by (cases ks2; cases vs2) auto
    have v: "v \<noteq> []" using ne d k by simp
    have s': "sorted_items (A @ map Ent (ks1 @ ks') @ B)"
      using sorted_items_drop [of "A @ map Ent ks1" "Ent key" "map Ent ks' @ B"] s d k by simp
    have e: "erase_at (LowerBound ks key) ks = ks1 @ ks'" "erase_at (LowerBound ks key) vs = vs1 @ vs'"
      "ks ! LowerBound ks key = key" "vs ! LowerBound ks key = v" "LowerBound ks key < length ks"
      "vs[LowerBound ks key := x] = vs1 @ x # vs'" for x
      using d k by (simp_all add: vec_simps)
    consider "r \<notin> set v" | "r \<in> set v" "remove1 r v = []" | "r \<in> set v" "remove1 r v \<noteq> []" by blast
    then show ?thesis
    proof cases
      case 1
      then have "RemoveFromLeaf ks vs key r = None" using e by (simp add: RemoveFromLeaf_def Let_def)
      moreover have "remove_entry key r E = E" using 1 E1 E d k v by (simp add: remove1_idem)
      ultimately show ?thesis by simp
    next
      case 2
      then have "RemoveFromLeaf ks vs key r = Some (ks1 @ ks', vs1 @ vs')"
        using e by (simp add: RemoveFromLeaf_def Let_def)
      moreover have "remove_entry key r E = zip (ks1 @ ks') (vs1 @ vs')" using 2 E1 d k by simp
      moreover have "shape M (lo - 1) 0 (Leaf a (ks1 @ ks') (vs1 @ vs'))"
        using len ne d k by auto
      ultimately show ?thesis using s' ch by (simp add: view_ok_def)
    next
      case 3
      then have "RemoveFromLeaf ks vs key r = Some (ks, vs1 @ remove1 r v # vs')"
        using e by (simp add: RemoveFromLeaf_def Let_def)
      moreover have "remove_entry key r E = zip ks (vs1 @ remove1 r v # vs')" using 3 E1 d k by simp
      moreover have "shape M (lo - 1) 0 (Leaf a ks (vs1 @ remove1 r v # vs'))"
        using len ne d k 3 by auto
      ultimately show ?thesis using s ch by (simp add: view_ok_def)
    qed
  next
    case False
    then have lt: "\<forall>k \<in> set ks2. key < k"
      using ks2 sks d by (cases ks2) (auto simp: sorted_wrt_append)
    then have "\<forall>e \<in> set (zip ks2 vs2). fst e \<noteq> key" by (auto dest: set_zip_leftD)
    then have "remove_entry key r E = E" using E1 E d by (simp add: remove_entry_absent)
    moreover have "\<not> (LowerBound ks key < length ks \<and> ks ! LowerBound ks key = key)"
      using False d by (cases ks2) (auto simp: nth_append)
    then have "RemoveFromLeaf ks vs key r = None" by (auto simp: RemoveFromLeaf_def Let_def)
    ultimately show ?thesis by simp
  qed
qed

lemma RemoveRecursive_view:
  assumes M: "good_order M" and "shape M lo n t" "view_ok A B P Q E t L" "n = 0 \<or> 1 \<le> lo"
  shows "\<exists>b t' L'. RemoveRecursive M t key r L = Some (b, t', L') \<and> shape M (lo - 1) n t' \<and>
           view_ok A B P Q (remove_entry key r E) t' L' \<and> (\<not> b \<longrightarrow> t' = t)"
  using assms(2-)
proof (induction n arbitrary: lo t A B P Q E L)
  case 0
  then obtain a ks vs where t: "t = Leaf a ks vs" by (auto elim: shape_0E)
  with RemoveFromLeaf_view [of M lo a ks vs A B P Q E L key r] 0 show ?case
    by (auto split: option.splits)
next
  case (Suc n)
  then obtain ks cs where t: "t = Internal ks cs" and len: "length cs = Suc (length ks)"
    by (auto elim: shape_SucE)
  have "sorted_items (A @ outline (Internal ks cs) @ B)" using Suc.prems t by (simp add: view_ok_def)
  from descendE [OF len this, of key] obtain ks1 ks2 cs1 c cs2 where
    d: "ks = ks1 @ ks2" "cs = cs1 @ c # cs2" "length ks1 = UpperBound ks key"
      "length cs1 = UpperBound ks key" "length ks2 = length cs2"
    and lo: "\<forall>x \<in> set (join_left ks1 (map outline cs1)). x < Ent key"
    and hi: "\<forall>x \<in> set (join_right ks2 (map outline cs2)). Ent key < x" .
  let ?A = "A @ join_left ks1 (map outline cs1)" and ?B = "join_right ks2 (map outline cs2) @ B"
    and ?P = "P @ concat (map leaf_ptrs cs1)" and ?Q = "concat (map leaf_ptrs cs2) @ Q"
  have "view_ok ?A ?B ?P ?Q (entries c) c L"
    using Suc.prems t d by (simp add: view_ok_def join_split)
  moreover have "shape M (MinLeafKeys M) n c" using Suc.prems t d by simp
  moreover have "1 \<le> MinLeafKeys M" using M by (auto elim: good_order_half)
  ultimately obtain b c' L1 where rec: "RemoveRecursive M c key r L = Some (b, c', L1)"
    and c': "shape M (MinLeafKeys M - 1) n c'" "view_ok ?A ?B ?P ?Q (remove_entry key r (entries c)) c' L1"
    and unch: "\<not> b \<longrightarrow> c' = c"
    using Suc.IH [of "MinLeafKeys M" c ?A ?B ?P ?Q "entries c" L] by blast
  have sh: "\<forall>x \<in> set cs1. shape M (MinLeafKeys M) n x" "\<forall>x \<in> set cs2. shape M (MinLeafKeys M) n x"
    using Suc.prems t d by simp_all
  have E: "remove_entry key r E
      = concat (map entries cs1) @ remove_entry key r (entries c) @ concat (map entries cs2)"
    using remove_entry_append [OF entries_around [OF lo hi, of M n], of r "entries c"] Suc.prems t d sh
    by (simp add: view_ok_def ball_Un)
  have v: "view_ok A B P Q (remove_entry key r E) (Internal (ks1 @ ks2) (cs1 @ c' # cs2)) L1"
    using c'(2) d E by (simp add: view_ok_def join_split)
  have idx: "UpperBound ks key < length cs" "cs ! UpperBound ks key = c"
    "cs[UpperBound ks key := c'] = cs1 @ c' # cs2"
    using d by (simp_all add: vec_simps)
  show ?case
  proof (cases b)
    case True
    obtain q where fx: "FixChildUnderflow M (ks1 @ ks2, cs1 @ c' # cs2, L1) (length cs1) = Some q"
      and rep: "repaired M lo n (ks1 @ ks2, cs1 @ c' # cs2, L1) q"
      using FixChildUnderflow_repaired [OF M c'(1) sh, of ks1 ks2 lo L1] Suc.prems t d by auto
    obtain ks' cs' L' where q: "q = (ks', cs', L')" by (cases q)
    have "RemoveRecursive M t key r L = Some (True, Internal ks' cs', L')"
      using rec True fx idx q d by (simp add: t Let_def)
    then show ?thesis using rep v q by (auto simp: repaired_def)
  next
    case False
    then have "t = Internal ks (cs1 @ c' # cs2)" using t d unch by simp
    moreover have "shape M (lo - 1) (Suc n) t"
      using Suc.prems(1) by (rule shape_mono) (use shape_key_count [OF Suc.prems(1)] in linarith)
    moreover have "RemoveRecursive M t key r L = Some (False, Internal ks (cs1 @ c' # cs2), L1)"
      using rec False idx by (simp add: t Let_def)
    ultimately show ?thesis using d v by auto
  qed
qed

lemma Remove_correct:
  assumes "tree_inv t"
  shows "\<exists>t'. Remove t key r = Inr t' \<and> tree_inv t' \<and> max_keys_per_node t' = max_keys_per_node t \<and>
           entries (root t') = remove_entry key r (entries (root t))"
proof -
  let ?M = "max_keys_per_node t" and ?n = "leftmost_depth (root t)"
    and ?lo = "if is_leaf (root t) then 0 else 1 :: nat"
  from assms have M: "good_order ?M" and sh: "shape ?M ?lo ?n (root t)"
    and v: "view_ok [] [] [] [] (entries (root t)) (root t) (links t)"
    by (auto simp: tree_inv_def view_ok_def)
  have "?n = 0 \<or> 1 \<le> ?lo" using shape_is_leaf [OF sh] by simp
  from RemoveRecursive_view [OF M sh v this, of key r] obtain b t' L' where
    rec: "RemoveRecursive ?M (root t) key r (links t) = Some (b, t', L')"
    and sh': "shape ?M 0 ?n t'"
    and v': "view_ok [] [] [] [] (remove_entry key r (entries (root t))) t' L'" by auto
  consider c where "t' = Internal [] [c]" | "\<forall>ks c. t' \<noteq> Internal ks [c]"
  proof (cases "\<exists>ks c. t' = Internal ks [c]")
    case True
    with sh' that(1) show ?thesis by (cases ?n) auto
  qed (use that(2) in blast)
  then show ?thesis
  proof cases
    case 1
    then obtain n where c: "shape ?M (MinLeafKeys ?M) n c" using sh' by (cases ?n) auto
    moreover have "1 \<le> MinLeafKeys ?M" using M by (auto elim: good_order_half)
    ultimately have "shape ?M (if is_leaf c then 0 else 1) (leftmost_depth c) c"
      using shape_leftmost_depth [OF c] shape_key_count [OF c] by (auto elim!: shape_mono)
    with 1 rec v' M show ?thesis
      by (auto simp: Remove_def tree_inv_def view_ok_def)
  next
    case 2
    then have "Remove t key r = Inr (t\<lparr>root := t', links := L'\<rparr>)"
      using rec by (auto simp: Remove_def split: Node.splits list.splits)
    moreover have "(if is_leaf t' then 0 else 1) \<le> length (node_keys t')"
      using sh' 2 by (cases t'; cases ?n; cases "node_keys t'") (auto simp: length_Suc_conv)
    then have "shape ?M (if is_leaf t' then 0 else 1) (leftmost_depth t') t'"
      using shape_leftmost_depth [OF sh'] by (simp add: shape_mono [OF sh'])
    ultimately show ?thesis
      using v' M by (auto simp: tree_inv_def view_ok_def)
  qed
qed

end
