(* ===== verification/BStar_Scan.thy ===== *)
theory BStar_Scan
  imports BStar_Remove
begin

text \<open>
  Lookup, range scan and the invariant check of the B*+ tree: \<open>Find\<close> and \<open>RangeScan\<close> read the sorted
  list of entries, and every tree that satisfies the invariant passes
  \<open>ValidateCanonicalInvariants\<close>.
\<close>

section \<open>Reference operations\<close>

definition lookup_entry :: "string \<Rightarrow> IndexEntry list \<Rightarrow> row_ids" where
  "lookup_entry key es = (case map_of es key of None \<Rightarrow> [] | Some ids \<Rightarrow> ids)"

definition range_entries :: "string \<Rightarrow> string \<Rightarrow> IndexEntry list \<Rightarrow> IndexEntry list" where
  "range_entries lower upper es = filter (\<lambda>e. lower \<le> fst e \<and> fst e < upper) es"

section \<open>Leaves and entries\<close>

fun leaf_entries :: "leaf_ptr \<times> string list \<times> row_ids list \<Rightarrow> IndexEntry list" where
  "leaf_entries (a, ks, vs) = zip ks vs"

lemma entries_leaves: "entries t = concat (map leaf_entries (leaves t))"
proof (induction t)
  case (Internal ks cs)
  then show ?case by (induction cs) simp_all
qed simp

lemma sorted_outline_entries:
  assumes "shape M lo n t" "sorted_items (outline t)"
  shows "sorted_wrt (<) (map fst (entries t))"
  using assms
proof (induction n arbitrary: lo t)
  case 0
  then obtain a ks vs where t: "t = Leaf a ks vs" "length vs = length ks" by (auto elim: shape_0E)
  with 0 show ?case by (simp add: sorted_wrt_map)
next
  case (Suc n)
  then obtain ks cs where t: "t = Internal ks cs" "length cs = Suc (length ks)"
    and sh: "\<forall>c \<in> set cs. shape M (MinLeafKeys M) n c" by (auto elim: shape_SucE)
  have "sorted_wrt (<) (map fst (concat (map entries cs)))"
    if "length cs = Suc (length ks)" "\<forall>c \<in> set cs. shape M (MinLeafKeys M) n c"
      "sorted_items (join ks (map outline cs))" for ks cs
    using that
  proof (induction ks arbitrary: cs)
    case Nil
    then obtain c where "cs = [c]" by (cases cs) auto
    with Nil Suc.IH show ?case by simp
  next
    case (Cons k ks)
    then obtain c cs' where cs: "cs = c # cs'" "length cs' = Suc (length ks)" by (cases cs) auto
    have s: "sorted_items (outline c)" "sorted_items (join ks (map outline cs'))"
      "\<forall>x \<in> set (outline c). \<forall>y \<in> set (join ks (map outline cs')). x < y"
      using Cons.prems(3) cs by (auto simp: sorted_wrt_append)
    have "fst e < fst e'" if "e \<in> set (entries c)" "c' \<in> set cs'" "e' \<in> set (entries c')" for e c' e'
    proof -
      have "Ent (fst e) \<in> set (outline c)" "Ent (fst e') \<in> set (outline c')"
        using that Cons.prems(2) cs by (auto intro!: entries_key_in_outline simp del: shape.simps)
      moreover have "Ent (fst e') \<in> set (join ks (map outline cs'))"
        using calculation(2) that(2) cs(2) by (auto simp: set_join)
      ultimately have "Ent (fst e) < Ent (fst e')" using s(3) by blast
      then show ?thesis by simp
    qed
    moreover have "sorted_wrt (<) (map fst (concat (map entries cs')))"
      using Cons.prems cs s by (intro Cons.IH) auto
    moreover have "sorted_wrt (<) (map fst (entries c))" using Suc.IH Cons.prems cs s by auto
    ultimately show ?case using cs by (auto simp: sorted_wrt_append)
  qed
  with t sh Suc.prems show ?case by simp
qed

section \<open>Lookup\<close>

lemma FindLeaf_leaves:
  assumes "shape M lo n t" "sorted_items (outline t)"
  shows "\<exists>a ks vs pre post. FindLeaf t key = Some (a, ks, vs) \<and> leaves t = pre @ (a, ks, vs) # post \<and>
     (\<forall>e \<in> set (concat (map leaf_entries pre)). fst e < key) \<and>
     (\<forall>e \<in> set (concat (map leaf_entries post)). key < fst e)"
  using assms
proof (induction n arbitrary: lo t)
  case 0
  then obtain a ks vs where "t = Leaf a ks vs" by (auto elim: shape_0E)
  then show ?case by (intro exI [of _ a] exI [of _ ks] exI [of _ vs] exI [of _ "[]"]) simp
next
  case (Suc n)
  then obtain ks cs where t: "t = Internal ks cs" and len: "length cs = Suc (length ks)"
    by (auto elim: shape_SucE)
  have "sorted_items ([] @ outline (Internal ks cs) @ [])" using Suc.prems t by simp
  from descendE [OF len this, of key] obtain ks1 ks2 cs1 c cs2 where
    d: "ks = ks1 @ ks2" "cs = cs1 @ c # cs2" "length ks1 = UpperBound ks key"
      "length cs1 = UpperBound ks key" "length ks2 = length cs2"
    and lo: "\<forall>x \<in> set (join_left ks1 (map outline cs1)). x < Ent key"
    and hi: "\<forall>x \<in> set (join_right ks2 (map outline cs2)). Ent key < x" .
  have sh: "\<forall>c \<in> set (cs1 @ cs2). shape M (MinLeafKeys M) n c" "shape M (MinLeafKeys M) n c"
    using Suc.prems t d by auto
  have "sorted_items (outline c)" using Suc.prems t d by (simp add: join_split sorted_wrt_append)
  from Suc.IH [OF sh(2) this] obtain a ks' vs' pre post where
    f: "FindLeaf c key = Some (a, ks', vs')" "leaves c = pre @ (a, ks', vs') # post"
      "\<forall>e \<in> set (concat (map leaf_entries pre)). fst e < key"
      "\<forall>e \<in> set (concat (map leaf_entries post)). key < fst e" by blast
  have around: "\<forall>e \<in> set (concat (map entries cs1)). fst e < key"
    "\<forall>e \<in> set (concat (map entries cs2)). key < fst e"
    using entries_around [OF lo hi _ _ sh(1)] d by simp_all
  let ?pre = "concat (map leaves cs1) @ pre" and ?post = "post @ concat (map leaves cs2)"
  have flat: "concat (map leaf_entries (concat (map leaves xs))) = concat (map entries xs)" for xs
    by (induction xs) (simp_all add: entries_leaves)
  have "FindLeaf t key = Some (a, ks', vs')" using f(1) d by (simp add: t Let_def vec_simps)
  moreover have "leaves t = ?pre @ (a, ks', vs') # ?post" using f(2) d t by simp
  moreover have "\<forall>e \<in> set (concat (map leaf_entries ?pre)). fst e < key"
    using around(1) f(3) unfolding map_append concat_append flat set_append ball_Un by blast
  moreover have "\<forall>e \<in> set (concat (map leaf_entries ?post)). key < fst e"
    using around(2) f(4) unfolding map_append concat_append flat set_append ball_Un by blast
  ultimately show ?case by blast
qed

lemma tree_inv_shape: "tree_inv t \<Longrightarrow> \<exists>lo n. shape (max_keys_per_node t) lo n (root t)"
  by (auto simp: tree_inv_def)

lemma tree_inv_sorted: "tree_inv t \<Longrightarrow> sorted_wrt (<) (map fst (entries (root t)))"
  using sorted_outline_entries by (auto simp: tree_inv_def split: if_splits)

lemma map_of_outside: "\<forall>e \<in> set es. fst e \<noteq> key \<Longrightarrow> map_of es key = None"
  by (metis imageE map_of_eq_None_iff)

lemma shape_leaves:
  "shape M lo n t \<Longrightarrow> (a, ks, vs) \<in> set (leaves t) \<Longrightarrow> length vs = length ks \<and> (\<forall>v \<in> set vs. v \<noteq> [])"
proof (induction n arbitrary: lo t)
  case 0
  then show ?case by (auto elim!: shape_0E)
next
  case (Suc n)
  from Suc.prems(1) obtain ks' cs where t: "t = Internal ks' cs" "\<forall>c \<in> set cs. shape M (MinLeafKeys M) n c"
    by (rule shape_SucE)
  then obtain c where "shape M (MinLeafKeys M) n c" "(a, ks, vs) \<in> set (leaves c)"
    using Suc.prems(2) by auto
  with Suc.IH show ?case by blast
qed

lemma Find_correct:
  assumes "tree_inv t"
  shows "Find t key = Inr (lookup_entry key (entries (root t)))"
proof -
  from assms obtain lo n where sh: "shape (max_keys_per_node t) lo n (root t)"
    using tree_inv_shape by blast
  moreover have "sorted_items (outline (root t))" using assms by (simp add: tree_inv_def)
  ultimately obtain a ks vs pre post where
    f: "FindLeaf (root t) key = Some (a, ks, vs)" "leaves (root t) = pre @ (a, ks, vs) # post"
    and lt: "\<forall>e \<in> set (concat (map leaf_entries pre)). fst e < key"
    and gt: "\<forall>e \<in> set (concat (map leaf_entries post)). key < fst e"
    using FindLeaf_leaves by metis
  have len: "length vs = length ks" using shape_leaves [OF sh, of a ks vs] f(2) by simp
  have E: "entries (root t) = concat (map leaf_entries pre) @ zip ks vs @ concat (map leaf_entries post)"
    using f(2) by (simp add: entries_leaves)
  then have sks: "sorted_wrt (<) ks"
    using tree_inv_sorted [OF assms] len by (simp add: sorted_wrt_append)
  have "map_of (concat (map leaf_entries pre)) key = None" "map_of (concat (map leaf_entries post)) key = None"
    using lt gt by (intro map_of_outside; blast)+
  then have look: "map_of (entries (root t)) key = map_of (zip ks vs) key"
    unfolding E by (auto simp: map_add_def split: option.splits)
  from LowerBound_splitE [OF sks len, of key] obtain ks1 ks2 vs1 vs2 where
    d: "ks = ks1 @ ks2" "vs = vs1 @ vs2" "length ks1 = LowerBound ks key"
      "length vs1 = length ks1" "length vs2 = length ks2"
    and ks1: "\<forall>k \<in> set ks1. k < key" and ks2: "\<forall>k \<in> set ks2. key \<le> k" by metis
  have "key \<notin> set ks1" using ks1 by auto
  then have look2: "map_of (zip ks vs) key = map_of (zip ks2 vs2) key"
    unfolding d(1,2) using d(4) by (auto simp: map_add_def split: option.splits dest: map_of_SomeD set_zip_leftD)
  show ?thesis
  proof (cases "ks2 \<noteq> [] \<and> hd ks2 = key")
    case True
    then obtain ks' v vs' where k: "ks2 = key # ks'" "vs2 = v # vs'"
      using d by (cases ks2; cases vs2) auto
    have "ks ! LowerBound ks key = key" "vs ! LowerBound ks key = v" "LowerBound ks key < length ks"
      using d k by (simp_all add: vec_simps)
    with f look look2 k show ?thesis by (simp add: Find_def lookup_entry_def Let_def)
  next
    case False
    have "\<forall>k \<in> set ks2. key < k"
      using False ks2 sks d by (cases ks2) (auto simp: sorted_wrt_append)
    then have "map_of (zip ks2 vs2) key = None"
      by (intro map_of_outside) (auto dest: set_zip_leftD)
    moreover have "\<not> (LowerBound ks key < length ks \<and> ks ! LowerBound ks key = key)"
      using False d by (cases ks2) (auto simp: nth_append)
    ultimately show ?thesis using f look look2 by (auto simp: Find_def lookup_entry_def Let_def)
  qed
qed

section \<open>Range scan\<close>

lemma ScanLeaf_range:
  assumes "length vs = length ks" "sorted_wrt (<) ks" "ScanLeaf lower upper ks vs = (es, stop)"
  shows "es = range_entries lower upper (zip ks vs) \<and> (stop \<longrightarrow> (\<exists>k \<in> set ks. upper \<le> k))"
  using assms
proof (induction ks arbitrary: vs es stop)
  case (Cons k ks)
  then obtain v vs' where vs: "vs = v # vs'" "length vs' = length ks" by (cases vs) auto
  have beyond: "range_entries lower upper (zip ks vs') = []" if "upper \<le> k"
    unfolding range_entries_def
    using Cons.prems(2) that by (intro filter_False) (auto dest!: set_zip_leftD)
  show ?case
  proof (cases "k < lower \<or> upper \<le> k")
    case True
    with Cons vs beyond show ?thesis by (auto simp: range_entries_def split: if_splits)
  next
    case False
    obtain es' stop' where r: "ScanLeaf lower upper ks vs' = (es', stop')"
      by (cases "ScanLeaf lower upper ks vs'")
    with Cons.IH [OF vs(2) _ r] Cons.prems False vs show ?thesis
      by (auto simp: range_entries_def)
  qed
qed (auto simp: range_entries_def)

lemma range_entries_append:
  "range_entries lower upper (es @ es') = range_entries lower upper es @ range_entries lower upper es'"
  by (simp add: range_entries_def)

lemma ScanChain_range:
  assumes "leaves t = pre @ ls" "chained L (map fst (leaves t))"
    and "\<forall>(a, ks, vs) \<in> set (leaves t). length vs = length ks"
    and "sorted_wrt (<) (map fst (concat (map leaf_entries ls)))"
  shows "ScanChain t L lower upper (first_ptr (map fst ls) None)
    = Some (range_entries lower upper (concat (map leaf_entries ls)))"
  using assms(1,4)
proof (induction ls arbitrary: pre)
  case Nil
  then show ?case by (simp add: ScanChain.simps range_entries_def)
next
  case (Cons l ls)
  obtain a ks vs where l: "l = (a, ks, vs)" by (cases l)
  have len: "length vs = length ks" using assms(3) Cons.prems(1) l by auto
  have "map_of (leaves t) a = Some (ks, vs)"
    using assms(2) Cons.prems(1) l by (intro map_of_is_SomeI) (auto simp: chained_def)
  then have here: "deref t a = Some (ks, vs)" by (simp add: deref_def)
  have nxt: "next_leaf L a = first_ptr (map fst ls) None"
    using assms(2) Cons.prems(1) l segment_next by (auto simp: chained_append)
  have sks: "sorted_wrt (<) ks" and s: "sorted_wrt (<) (map fst (concat (map leaf_entries ls)))"
    and above: "\<forall>k \<in> set ks. \<forall>e \<in> set (concat (map leaf_entries ls)). k < fst e"
    using Cons.prems(2) l len by (auto simp: sorted_wrt_append)
  have rest: "ScanChain t L lower upper (first_ptr (map fst ls) None)
      = Some (range_entries lower upper (concat (map leaf_entries ls)))"
    using Cons.IH [of "pre @ [l]"] Cons.prems(1) s by simp
  obtain es stop where scan: "ScanLeaf lower upper ks vs = (es, stop)"
    by (cases "ScanLeaf lower upper ks vs")
  have es: "es = range_entries lower upper (zip ks vs)" using ScanLeaf_range [OF len sks scan] ..
  show ?case
  proof (cases stop)
    case True
    then obtain k where k: "k \<in> set ks" "upper \<le> k" using ScanLeaf_range [OF len sks scan] by blast
    have "range_entries lower upper (concat (map leaf_entries ls)) = []"
      unfolding range_entries_def
    proof (rule filter_False, intro ballI notI)
      fix e assume "e \<in> set (concat (map leaf_entries ls))" "lower \<le> fst e \<and> fst e < upper"
      with above k have "k < fst e" "fst e < upper" by blast+
      with k(2) show False by (metis less_trans not_le)
    qed
    with True here scan es l show ?thesis
      by (simp add: ScanChain.simps [of t L lower upper "Some a"] range_entries_append)
  next
    case False
    with here scan es l nxt rest show ?thesis
      by (simp add: ScanChain.simps [of t L lower upper "Some a"] range_entries_append)
  qed
qed

lemma RangeScan_correct:
  assumes "tree_inv t"
  shows "RangeScan t lower upper = Inr (range_entries lower upper (entries (root t)))"
proof -
  from assms obtain lo n where sh: "shape (max_keys_per_node t) lo n (root t)"
    using tree_inv_shape by blast
  moreover have "sorted_items (outline (root t))" using assms by (simp add: tree_inv_def)
  ultimately obtain a ks vs pre post where
    f: "FindLeaf (root t) lower = Some (a, ks, vs)" "leaves (root t) = pre @ (a, ks, vs) # post"
    and lt: "\<forall>e \<in> set (concat (map leaf_entries pre)). fst e < lower"
    using FindLeaf_leaves by metis
  let ?ls = "(a, ks, vs) # post"
  have E: "entries (root t) = concat (map leaf_entries pre) @ concat (map leaf_entries ?ls)"
    using f(2) by (simp add: entries_leaves)
  have "chained (links t) (map fst (leaves (root t)))"
    using assms by (simp add: tree_inv_def leaf_ptrs_def)
  moreover have "\<forall>(a, ks, vs) \<in> set (leaves (root t)). length vs = length ks"
    using shape_leaves [OF sh] by blast
  moreover have "sorted_wrt (<) (map fst (concat (map leaf_entries ?ls)))"
    using tree_inv_sorted [OF assms] unfolding E map_append sorted_wrt_append by blast
  ultimately have "ScanChain (root t) (links t) lower upper (Some a)
      = Some (range_entries lower upper (concat (map leaf_entries ?ls)))"
    using ScanChain_range [OF f(2), of "links t" lower upper] by simp
  moreover have "range_entries lower upper (concat (map leaf_entries pre)) = []"
    unfolding range_entries_def using lt by (intro filter_False) (metis leD)
  ultimately show ?thesis
    using f(1) E by (simp add: RangeScan_def range_entries_append)
qed

section \<open>The invariant check\<close>

lemma strictly_increasing_sorted: "sorted_wrt (<) ks \<Longrightarrow> strictly_increasing ks"
  by (induction ks rule: strictly_increasing.induct) auto

lemma join_sorted_keys:
  "length xs = Suc (length ks) \<Longrightarrow> sorted_items (join ks xs) \<Longrightarrow> sorted_wrt (<) ks"
proof (induction ks arbitrary: xs)
  case (Cons k ks)
  then obtain x xs' where xs: "xs = x # xs'" "length xs' = Suc (length ks)" by (cases xs) auto
  with Cons have "sorted_wrt (<) ks" by (simp add: sorted_wrt_append)
  moreover have "\<forall>y \<in> set (join ks xs'). Sep k < y" using Cons.prems(2) xs by (simp add: sorted_wrt_append)
  then have "\<forall>j \<in> set ks. k < j" using xs(2) by (simp add: set_join ball_Un)
  ultimately show ?case by simp
qed simp

lemma segment_last: "segment L p as q \<Longrightarrow> as \<noteq> [] \<Longrightarrow> next_leaf L (last as) = q"
  by (induction as arbitrary: p) (auto split: list.splits)

lemma leaves_nonempty: "shape M lo n t \<Longrightarrow> leaves t \<noteq> []"
proof (induction n arbitrary: lo t)
  case 0
  then show ?case by (auto elim!: shape_0E)
next
  case (Suc n)
  from Suc.prems obtain ks cs where t: "t = Internal ks cs" "length cs = Suc (length ks)"
    "\<forall>c \<in> set cs. shape M (MinLeafKeys M) n c" by (rule shape_SucE)
  then obtain c cs' where "cs = c # cs'" by (cases cs) auto
  with t Suc.IH show ?case by auto
qed

text \<open>The value of \<^verbatim>\<open>*previous_leaf\<close> after a node has been visited: its last leaf.\<close>

definition last_leaf :: "Node \<Rightarrow> leaf_ptr \<times> string list" where
  "last_leaf t = (case last (leaves t) of (a, ks, vs) \<Rightarrow> (a, ks))"

definition within :: "string option \<Rightarrow> string option \<Rightarrow> item list \<Rightarrow> bool" where
  "within lo hi xs \<longleftrightarrow>
     (\<forall>m. lo = Some m \<longrightarrow> (\<forall>x \<in> set xs. Sep m < x)) \<and> (\<forall>m. hi = Some m \<longrightarrow> (\<forall>x \<in> set xs. x < Sep m))"

text \<open>The leaf visited before is linked to the first of the leaves \<open>as\<close> and lies below the items \<open>xs\<close>.\<close>

definition follows :: "leaf_links \<Rightarrow> (leaf_ptr \<times> string list) option \<Rightarrow> leaf_ptr list \<Rightarrow> item list \<Rightarrow> bool" where
  "follows L previous as xs \<longleftrightarrow>
     (\<forall>p pks. previous = Some (p, pks) \<longrightarrow>
        next_leaf L p = Some (hd as) \<and> (\<forall>k \<in> set pks. \<forall>x \<in> set xs. Ent k < x))"

lemma last_leaf_props:
  assumes "shape M lo n t"
  shows "fst (last_leaf t) = last (leaf_ptrs t)" "\<forall>k \<in> set (snd (last_leaf t)). Ent k \<in> set (outline t)"
proof -
  have ne: "leaves t \<noteq> []" using assms by (rule leaves_nonempty)
  obtain a ks vs where l: "last (leaves t) = (a, ks, vs)" by (cases "last (leaves t)")
  have mem: "(a, ks, vs) \<in> set (leaves t)" using l ne by (metis last_in_set)
  have "length vs = length ks" using shape_leaves [OF assms mem] by simp
  then have "\<forall>k \<in> set ks. \<exists>v. (k, v) \<in> set (zip ks vs)"
    by (metis in_set_impl_in_set_zip1)
  moreover have "set (zip ks vs) \<subseteq> set (entries t)" using mem by (force simp: entries_leaves)
  ultimately show "\<forall>k \<in> set (snd (last_leaf t)). Ent k \<in> set (outline t)"
    using l entries_key_in_outline [OF assms] by (fastforce simp: last_leaf_def)
  show "fst (last_leaf t) = last (leaf_ptrs t)"
    using l ne by (simp add: last_leaf_def leaf_ptrs_def last_map)
qed

lemma ValidateLeaf_ok:
  assumes "shape M lo 0 (Leaf a ks vs)" "within lo_key hi_key (map Ent ks)"
    "prev_leaf L a = map_option fst previous" "follows L previous [a] (map Ent ks)"
  shows "ValidateLeaf L lo_key hi_key previous a ks vs"
proof -
  have "above_min lo_key k \<and> below_max hi_key k" if "k \<in> set ks" for k
    using assms(2) that by (auto simp: within_def above_min_def below_max_def split: option.splits)
  moreover have "last pks < hd ks" if "previous = Some (p, pks)" "pks \<noteq> []" "ks \<noteq> []" for p pks
    using assms(4) that by (fastforce simp: follows_def)
  then have "case previous of Some (p, pks) \<Rightarrow> pks = [] \<or> ks = [] \<or> last pks < hd ks | None \<Rightarrow> True"
    by (auto split: option.splits)
  ultimately show ?thesis
    using assms(1,3,4) by (auto simp: ValidateLeaf_def list_all_iff follows_def split: option.splits)
qed

text \<open>The loop over the children, given that the check passes on every child.\<close>

lemma ValidateChildren_ok:
  assumes node: "\<And>c lo hi prev q. shape M (MinLeafKeys M) n c \<Longrightarrow> sorted_items (outline c) \<Longrightarrow>
      within lo hi (outline c) \<Longrightarrow> segment L (map_option fst prev) (leaf_ptrs c) q \<Longrightarrow>
      follows L prev (leaf_ptrs c) (outline c) \<Longrightarrow>
      ValidateNode M L c False pr leaf_depth (depth + 1) lo hi prev = Some (Some (last_leaf c))"
    and "length cs = Suc (length ks)" "\<forall>c \<in> set cs. shape M (MinLeafKeys M) n c"
    and "sorted_items (join ks (map outline cs))" "within lo hi (join ks (map outline cs))"
    and "segment L (map_option fst prev) (concat (map leaf_ptrs cs)) q"
    and "follows L prev (concat (map leaf_ptrs cs)) (join ks (map outline cs))"
  shows "ValidateChildren M L ks cs pr leaf_depth depth lo hi prev = Some (Some (last_leaf (last cs)))"
  using assms(2-)
proof (induction ks arbitrary: cs lo prev)
  case Nil
  then obtain c where "cs = [c]" by (cases cs) auto
  with Nil node show ?case by simp
next
  case (Cons k ks)
  then obtain c cs' where cs: "cs = c # cs'" "length cs' = Suc (length ks)" by (cases cs) auto
  let ?js = "join ks (map outline cs')" and ?as = "concat (map leaf_ptrs cs')"
  have sh: "shape M (MinLeafKeys M) n c" "\<forall>c \<in> set cs'. shape M (MinLeafKeys M) n c"
    using Cons.prems(2) cs by simp_all
  have s: "sorted_items (outline c)" "sorted_items ?js" "\<forall>x \<in> set (outline c). x < Sep k"
    "\<forall>x \<in> set ?js. Sep k < x" "\<forall>x \<in> set (outline c). \<forall>y \<in> set ?js. x < y"
    using Cons.prems(3) cs by (auto simp: sorted_wrt_append)
  have ne: "leaf_ptrs c \<noteq> []" using leaves_nonempty [OF sh(1)] by (simp add: leaf_ptrs_def)
  have ne': "?as \<noteq> []" using cs sh(2) leaves_nonempty by (cases cs') (auto simp: leaf_ptrs_def)
  have seg: "segment L (map_option fst prev) (leaf_ptrs c) (first_ptr ?as q)"
    "segment L (Some (last (leaf_ptrs c))) ?as q"
    using Cons.prems(5) cs ne by (auto simp: segment_append last_ptr_def)
  have "ValidateNode M L c False pr leaf_depth (depth + 1) lo (Some k) prev = Some (Some (last_leaf c))"
  proof (rule node [OF sh(1) s(1) _ seg(1)])
    show "within lo (Some k) (outline c)"
      using Cons.prems(4) cs s(3) by (simp add: within_def)
    show "follows L prev (leaf_ptrs c) (outline c)"
      using Cons.prems(6) cs ne by (auto simp: follows_def)
  qed
  moreover have "ValidateChildren M L ks cs' pr leaf_depth depth (Some k) hi (Some (last_leaf c))
      = Some (Some (last_leaf (last cs')))"
  proof (rule Cons.IH [OF cs(2) sh(2) s(2)])
    show "within (Some k) hi ?js" using Cons.prems(4) cs s(4) by (simp add: within_def)
    show "segment L (map_option fst (Some (last_leaf c))) ?as q"
      using seg(2) last_leaf_props(1) [OF sh(1)] by simp
    have "next_leaf L (last (leaf_ptrs c)) = Some (hd ?as)"
      using segment_last [OF seg(1) ne] ne' by (cases ?as) auto
    then show "follows L (Some (last_leaf c)) ?as ?js"
      using last_leaf_props [OF sh(1)] s(5) by (auto simp: follows_def)
  qed
  ultimately show ?case using cs by auto
qed

lemma ValidateNode_ok:
  assumes "shape M lo n t" "sorted_items (outline t)" "within lo_key hi_key (outline t)"
    and "segment L (map_option fst prev) (leaf_ptrs t) q" "follows L prev (leaf_ptrs t) (outline t)"
    and "rt \<or> pr \<or> MinLeafKeys M \<le> lo" "leaf_depth = depth + n"
  shows "ValidateNode M L t rt pr leaf_depth depth lo_key hi_key prev = Some (Some (last_leaf t))"
  using assms
proof (induction n arbitrary: lo t rt pr depth lo_key hi_key prev q)
  case 0
  then obtain a ks vs where t: "t = Leaf a ks vs" by (auto elim: shape_0E)
  have "strictly_increasing ks"
    using 0 t by (intro strictly_increasing_sorted) (simp add: sorted_wrt_map)
  moreover have "ValidateLeaf L lo_key hi_key prev a ks vs"
    using 0 t by (intro ValidateLeaf_ok [of M lo]) simp_all
  ultimately show ?case using 0 t by (auto simp: last_leaf_def)
next
  case (Suc n)
  then obtain ks cs where t: "t = Internal ks cs" and len: "length cs = Suc (length ks)"
    and sh: "\<forall>c \<in> set cs. shape M (MinLeafKeys M) n c" by (auto elim: shape_SucE)
  have "strictly_increasing ks"
    using Suc.prems(2) t len join_sorted_keys [of "map outline cs" ks]
    by (intro strictly_increasing_sorted) simp
  moreover have "ValidateChildren M L ks cs rt leaf_depth depth lo_key hi_key prev
      = Some (Some (last_leaf (last cs)))"
    using Suc.prems t len sh
    by (intro ValidateChildren_ok [where n = n and q = q] Suc.IH [where lo = "MinLeafKeys M"]) simp_all
  moreover have "last_leaf t = last_leaf (last cs)"
  proof -
    have "cs \<noteq> []" using len by auto
    then have "leaves t = concat (map leaves (butlast cs)) @ leaves (last cs)"
      unfolding t by (metis append_butlast_last_id concat.simps concat_append append_Nil2 leaves.simps(2) list.map(1,2) map_append)
    moreover have "leaves (last cs) \<noteq> []" using sh \<open>cs \<noteq> []\<close> leaves_nonempty last_in_set by blast
    ultimately show ?thesis by (simp add: last_leaf_def)
  qed
  ultimately show ?case using Suc.prems t len by auto
qed

lemma Validate_correct:
  assumes "tree_inv t"
  shows "ValidateCanonicalInvariants t"
proof -
  from assms have sh: "shape (max_keys_per_node t) (if is_leaf (root t) then 0 else 1) (leftmost_depth (root t)) (root t)"
    and s: "sorted_items (outline (root t))" and ch: "segment (links t) None (leaf_ptrs (root t)) None"
    by (auto simp: tree_inv_def chained_def)
  from ValidateNode_ok [OF sh s, of None None "links t" None None True False "leftmost_depth (root t)" 0] ch
  have "ValidateNode (max_keys_per_node t) (links t) (root t) True False (leftmost_depth (root t)) 0 None None None
      = Some (Some (last_leaf (root t)))"
    by (simp add: within_def follows_def)
  moreover have "next_leaf (links t) (fst (last_leaf (root t))) = None"
    using segment_last [OF ch] leaves_nonempty [OF sh] last_leaf_props(1) [OF sh] by (simp add: leaf_ptrs_def)
  ultimately show ?thesis
    by (auto simp: ValidateCanonicalInvariants_def split: prod.splits)
qed

end
