(* ===== verification/Index_Interface.thy ===== *)
theory Index_Interface
  imports BStar_Scan
begin

text \<open>
  The interface between the B*+ tree and its clients (the execution engine and the runtime state):
  the operations the clients call and the laws they rely on, as a locale over an abstract index.
  What the clients need is proved once from the laws, and the tree interprets the locale.
\<close>

section \<open>Entry lists\<close>

lemma set_insert_entry_fresh:
  "\<forall>e \<in> set es. fst e \<noteq> k \<Longrightarrow> set (insert_entry k r es) = insert (k, [r]) (set es)"
  by (induction k r es rule: insert_entry.induct) auto

lemma lookup_insert_entry:
  "sorted_wrt (<) (map fst es) \<Longrightarrow>
   lookup_entry j (insert_entry k r es) =
     (if j = k then (if r \<in> set (lookup_entry k es) then lookup_entry k es else lookup_entry k es @ [r])
      else lookup_entry j es)"
proof (induction k r es rule: insert_entry.induct)
  case (2 key r k ids es)
  have "map_of es key = None" if "key < k"
    using 2(2) that by (intro map_of_outside) auto
  with 2 show ?case by (auto simp: lookup_entry_def)
qed (simp add: lookup_entry_def)

lemma lookup_remove_entry:
  "sorted_wrt (<) (map fst es) \<Longrightarrow>
   lookup_entry j (remove_entry k r es) =
     (if j = k then remove1 r (lookup_entry k es) else lookup_entry j es)"
proof (induction k r es rule: remove_entry.induct)
  case (2 key r k ids es)
  have "map_of es k = None"
    using 2(2) by (intro map_of_outside) auto
  with 2 show ?case by (auto simp: lookup_entry_def)
qed (simp add: lookup_entry_def)

section \<open>The interface\<close>

text \<open>An index that holds each of the pairs \<open>kvs\<close> of a key and a row id, and nothing else.\<close>

definition pair_entries :: "(string \<times> RowId) list \<Rightarrow> IndexEntry set" where
  "pair_entries kvs = (\<lambda>(k, r). (k, [r])) ` set kvs"

locale row_index =
  fixes new_index :: "'i"
    and ins :: "'i \<Rightarrow> string \<Rightarrow> RowId \<Rightarrow> 'i Result"
    and del :: "'i \<Rightarrow> string \<Rightarrow> RowId \<Rightarrow> 'i Result"
    and find :: "'i \<Rightarrow> string \<Rightarrow> row_ids Result"
    and scan :: "'i \<Rightarrow> string \<Rightarrow> string \<Rightarrow> IndexEntry list Result"
    and check :: "'i \<Rightarrow> bool"
    and inv :: "'i \<Rightarrow> bool"
    and view :: "'i \<Rightarrow> IndexEntry list"
  assumes new_inv: "inv new_index"
    and new_view: "view new_index = []"
    and ins_ok: "inv t \<Longrightarrow> \<exists>t'. ins t k r = Inr t' \<and> inv t' \<and> view t' = insert_entry k r (view t)"
    and del_ok: "inv t \<Longrightarrow> \<exists>t'. del t k r = Inr t' \<and> inv t' \<and> view t' = remove_entry k r (view t)"
    and find_ok: "inv t \<Longrightarrow> find t k = Inr (lookup_entry k (view t))"
    and scan_ok: "inv t \<Longrightarrow> scan t lower upper = Inr (range_entries lower upper (view t))"
    and check_ok: "inv t \<Longrightarrow> check t"
    and view_sorted: "inv t \<Longrightarrow> sorted_wrt (<) (map fst (view t))"
begin

text \<open>What a lookup returns after an insertion and after a removal.\<close>

lemma find_ins:
  assumes "inv t" "ins t k r = Inr t'" "find t j = Inr ids"
  shows "find t' j = Inr (if j = k \<and> r \<notin> set ids then ids @ [r] else ids)"
  using assms ins_ok [OF assms(1), of k r] find_ok view_sorted
  by (auto simp: lookup_insert_entry)

lemma find_del:
  assumes "inv t" "del t k r = Inr t'" "find t j = Inr ids"
  shows "find t' j = Inr (if j = k then remove1 r ids else ids)"
  using assms del_ok [OF assms(1), of k r] find_ok view_sorted
  by (auto simp: lookup_remove_entry)

definition represents :: "'i \<Rightarrow> (string \<times> RowId) list \<Rightarrow> bool" where
  "represents t kvs \<longleftrightarrow> inv t \<and> distinct (map fst kvs) \<and> set (view t) = pair_entries kvs"

lemma represents_new: "represents new_index []"
  by (simp add: represents_def new_inv new_view pair_entries_def)

lemma represents_find:
  assumes "represents t kvs"
  shows "find t k = Inr (case map_of kvs k of None \<Rightarrow> [] | Some r \<Rightarrow> [r])"
proof -
  have inv: "inv t" and dist: "distinct (map fst kvs)" and set: "set (view t) = pair_entries kvs"
    using assms by (auto simp: represents_def)
  have dv: "distinct (map fst (view t))"
    using view_sorted [OF inv] by (rule sorted_wrt_less_distinct)
  show ?thesis
  proof (cases "map_of kvs k")
    case None
    then have "\<forall>e \<in> set (view t). fst e \<noteq> k"
      using set by (auto simp: pair_entries_def map_of_eq_None_iff image_iff)
    with None show ?thesis using find_ok [OF inv] by (simp add: lookup_entry_def map_of_outside)
  next
    case (Some r)
    then have "(k, [r]) \<in> set (view t)" using set by (force simp: pair_entries_def dest: map_of_SomeD)
    then have "map_of (view t) k = Some [r]" using dv by simp
    with Some show ?thesis using find_ok [OF inv] by (simp add: lookup_entry_def)
  qed
qed

lemma represents_ins:
  assumes "represents t kvs" "k \<notin> fst ` set kvs"
  shows "\<exists>t'. ins t k r = Inr t' \<and> represents t' (kvs @ [(k, r)])"
proof -
  have inv: "inv t" and dist: "distinct (map fst kvs)" and set: "set (view t) = pair_entries kvs"
    using assms by (auto simp: represents_def)
  have "fst ` set (view t) = fst ` set kvs" unfolding set pair_entries_def by force
  then have "\<forall>e \<in> set (view t). fst e \<noteq> k" using assms(2) by blast
  moreover obtain t' where t': "ins t k r = Inr t'" "inv t'" "view t' = insert_entry k r (view t)"
    using ins_ok [OF inv] by blast
  ultimately have "set (view t') = pair_entries (kvs @ [(k, r)])"
    by (simp add: set_insert_entry_fresh set) (simp add: pair_entries_def)
  with t' dist assms(2) show ?thesis by (auto simp: represents_def)
qed

lemma represents_cong: "represents t kvs \<Longrightarrow> set kvs = set kvs' \<Longrightarrow> distinct (map fst kvs') \<Longrightarrow> represents t kvs'"
  by (simp add: represents_def pair_entries_def)

text \<open>A range scan returns the rows with their key in the range, each of them once.\<close>

lemma represents_scan:
  assumes "represents t kvs"
  obtains es where "scan t lower upper = Inr es"
    "\<forall>e \<in> set es. \<exists>r. snd e = [r]" "distinct (map fst es)"
    "set es = pair_entries (filter (\<lambda>(k, r). lower \<le> k \<and> k < upper) kvs)"
proof
  have inv: "inv t" and set: "set (view t) = pair_entries kvs"
    using assms by (auto simp: represents_def)
  let ?es = "range_entries lower upper (view t)"
  show "scan t lower upper = Inr ?es" by (rule scan_ok [OF inv])
  have "set ?es \<subseteq> set (view t)" by (auto simp: range_entries_def)
  then show "\<forall>e \<in> set ?es. \<exists>r. snd e = [r]" using set by (auto simp: pair_entries_def)
  show "distinct (map fst ?es)"
    using sorted_wrt_less_distinct [OF view_sorted [OF inv]] by (simp add: range_entries_def distinct_map_filter)
  show "set ?es = pair_entries (filter (\<lambda>(k, r). lower \<le> k \<and> k < upper) kvs)"
    using set by (auto simp: range_entries_def pair_entries_def)
qed

lemma represents_check: "represents t kvs \<Longrightarrow> check t"
  by (simp add: represents_def check_ok)

end

section \<open>The B*+ tree provides the interface\<close>

lemma make_tree_inv: "tree_inv (make_tree default_max_keys)"
  by (simp add: tree_inv_def make_tree_def default_max_keys_def good_order_def chained_initial)

interpretation bstar: row_index "make_tree default_max_keys" Insert Remove Find RangeScan
  ValidateCanonicalInvariants tree_inv "\<lambda>t. entries (root t)"
proof
  fix t k r lower upper
  assume t: "tree_inv t"
  show "\<exists>t'. Insert t k r = Inr t' \<and> tree_inv t' \<and> entries (root t') = insert_entry k r (entries (root t))"
    using Insert_correct [OF t] by blast
  show "\<exists>t'. Remove t k r = Inr t' \<and> tree_inv t' \<and> entries (root t') = remove_entry k r (entries (root t))"
    using Remove_correct [OF t] by blast
  show "Find t k = Inr (lookup_entry k (entries (root t)))" using t by (rule Find_correct)
  show "RangeScan t lower upper = Inr (range_entries lower upper (entries (root t)))"
    using t by (rule RangeScan_correct)
  show "ValidateCanonicalInvariants t" using t by (rule Validate_correct)
  show "sorted_wrt (<) (map fst (entries (root t)))" using t by (rule tree_inv_sorted)
qed (use make_tree_inv in \<open>simp_all add: make_tree_def\<close>)

section \<open>Histories of operations\<close>

datatype index_op = InsertOp string RowId | RemoveOp string RowId

primrec run_ops :: "index_op list \<Rightarrow> BStarPlusTree \<Rightarrow> BStarPlusTree Result" where
  "run_ops [] t = Inr t"
| "run_ops (op # ops) t =
     bind_result (case op of InsertOp k r \<Rightarrow> Insert t k r | RemoveOp k r \<Rightarrow> Remove t k r) (run_ops ops)"

primrec spec_ops :: "index_op list \<Rightarrow> IndexEntry list \<Rightarrow> IndexEntry list" where
  "spec_ops [] es = es"
| "spec_ops (op # ops) es =
     spec_ops ops (case op of InsertOp k r \<Rightarrow> insert_entry k r es | RemoveOp k r \<Rightarrow> remove_entry k r es)"

lemma run_ops_correct:
  assumes "tree_inv t"
  shows "\<exists>t'. run_ops ops t = Inr t' \<and> tree_inv t' \<and> entries (root t') = spec_ops ops (entries (root t))"
  using assms
proof (induction ops arbitrary: t)
  case (Cons op ops)
  obtain t1 where t1: "(case op of InsertOp k r \<Rightarrow> Insert t k r | RemoveOp k r \<Rightarrow> Remove t k r) = Inr t1" "tree_inv t1"
      "entries (root t1) = (case op of InsertOp k r \<Rightarrow> insert_entry k r (entries (root t))
                                    | RemoveOp k r \<Rightarrow> remove_entry k r (entries (root t)))"
    using bstar.ins_ok [OF Cons.prems] bstar.del_ok [OF Cons.prems] by (cases op) (auto, metis+)
  with Cons.IH [OF t1(2)] show ?case by auto
qed simp

lemma make_tree_good: "good_order M \<Longrightarrow> tree_inv (make_tree M) \<and> entries (root (make_tree M)) = []"
  by (simp add: tree_inv_def make_tree_def good_order_def chained_initial max_def)

section \<open>Properties of the index\<close>

text \<open>
  C1. Any sequence of insertions and removals on a new tree whose order is even and at least 6 (the
  program uses 8) returns a tree that passes the code's own invariant check, and on which every
  lookup and every range scan answers as on the sorted list of entries that the same sequence
  builds.
\<close>

theorem index_history_correct:
  assumes "good_order M"
  shows "\<exists>t. run_ops ops (make_tree M) = Inr t \<and> ValidateCanonicalInvariants t \<and>
           (\<forall>k. Find t k = Inr (lookup_entry k (spec_ops ops []))) \<and>
           (\<forall>lower upper. RangeScan t lower upper = Inr (range_entries lower upper (spec_ops ops [])))"
proof -
  from make_tree_good [OF assms] run_ops_correct [of "make_tree M" ops] obtain t where
    "run_ops ops (make_tree M) = Inr t" "tree_inv t" "entries (root t) = spec_ops ops []" by auto
  then show ?thesis using bstar.check_ok bstar.find_ok bstar.scan_ok by auto
qed

theorem index_history_correct_witness:
  "\<exists>t. run_ops [InsertOp ''b'' 2, InsertOp ''a'' 1, RemoveOp ''b'' 2] (make_tree 8) = Inr t \<and>
       ValidateCanonicalInvariants t \<and> Find t ''a'' = Inr [1] \<and> Find t ''b'' = Inr []"
  using index_history_correct [of 8 "[InsertOp ''b'' 2, InsertOp ''a'' 1, RemoveOp ''b'' 2]"]
  by (auto simp: good_order_def lookup_entry_def less_char_def)

text \<open>
  \<open>Insert\<close> always returns on a tree that satisfies the invariant; the new tree satisfies it too,
  and its entries are the old ones with the row id added under its key, at most once.
\<close>

theorem Insert_refines:
  assumes "tree_inv t"
  shows "\<exists>t'. Insert t key r = Inr t' \<and> tree_inv t' \<and> entries (root t') = insert_entry key r (entries (root t))"
  using assms by (rule bstar.ins_ok)

theorem Insert_refines_witness:
  "\<exists>t'. Insert (make_tree 8) ''k'' 7 = Inr t' \<and> tree_inv t' \<and> entries (root t') = [(''k'', [7])]"
  using Insert_refines [OF make_tree_good [THEN conjunct1], of 8 "''k''" 7]
  by (simp add: good_order_def make_tree_def)

text \<open>
  \<open>Remove\<close> always returns on a tree that satisfies the invariant, whatever borrowing, merging or
  collapse of the root it takes; the new tree satisfies the invariant, and its entries are the old
  ones without the row id, a key without row ids being dropped.
\<close>

theorem Remove_refines:
  assumes "tree_inv t"
  shows "\<exists>t'. Remove t key r = Inr t' \<and> tree_inv t' \<and> entries (root t') = remove_entry key r (entries (root t))"
  using assms by (rule bstar.del_ok)

theorem Remove_refines_witness:
  "\<exists>t'. Remove (make_tree 8) ''k'' 7 = Inr t' \<and> tree_inv t' \<and> entries (root t') = []"
  using Remove_refines [OF make_tree_good [THEN conjunct1], of 8 "''k''" 7]
  by (simp add: good_order_def make_tree_def)

text \<open>
  \<open>RangeScan\<close> ends on every tree that satisfies the invariant, although its loop follows leaf
  pointers, and returns the entries with a key in the half-open range, in key order.
\<close>

theorem RangeScan_refines:
  assumes "tree_inv t"
  shows "RangeScan t lower upper
    = Inr (filter (\<lambda>e. lower \<le> fst e \<and> fst e < upper) (entries (root t)))"
  using bstar.scan_ok [OF assms] by (simp add: range_entries_def)

theorem RangeScan_refines_witness:
  "RangeScan (make_tree 8) ''a'' ''b'' = Inr []"
  using RangeScan_refines [OF make_tree_good [THEN conjunct1], of 8 "''a''" "''b''"]
  by (simp add: good_order_def make_tree_def)

text \<open>
  For an odd number of keys per node \<open>SplitInternal\<close> makes a right node with fewer keys than
  \<open>MinInternalKeys\<close>, which \<open>ValidateCanonicalInvariants\<close> rejects below the children of the root.
\<close>

lemma SplitInternal_odd_underfull:
  assumes "odd M" "length ks = Suc M" "SplitInternal ks cs = (left, sep, right)"
  shows "length (node_keys right) < MinInternalKeys M"
  using assms by (auto simp: SplitInternal_def Let_def MinLeafKeys_def elim!: oddE)

text \<open>
  For an odd number of keys per node the 3-to-2 merge of internal nodes can meet more keys than
  two nodes hold. \<open>TryThreeToTwoInternal\<close> then gives up after it has moved the children out of the
  three nodes, which leaves null pointers behind.
\<close>

theorem TryThreeToTwoInternal_odd_empties:
  assumes "odd M" "length lk = MinInternalKeys M - 1" "length mk = MinInternalKeys M" "length rk = M"
  shows "TryThreeToTwoInternal M ([k, j], [Internal lk lc, Internal mk mc, Internal rk rc], L) 0 = Emptied"
  using assms by (auto simp: Let_def MinLeafKeys_def elim!: oddE)

theorem TryThreeToTwoInternal_odd_empties_witness:
  "TryThreeToTwoInternal 3 ([''d'', ''h''],
     [Internal [''b''] (replicate 2 (Leaf 0 [] [])), Internal [''e'', ''f''] (replicate 3 (Leaf 0 [] [])),
      Internal [''i'', ''j'', ''k''] (replicate 4 (Leaf 0 [] []))], initial_links) 0 = Emptied"
  using TryThreeToTwoInternal_odd_empties [of 3 "[''b'']" "[''e'', ''f'']" "[''i'', ''j'', ''k'']"]
  by (simp add: MinLeafKeys_def)

end
