(* ===== verification/Storage.thy ===== *)
theory Storage
  imports Types
begin

text \<open>
  Schemas and the catalog (\<^verbatim>\<open>src/catalog/schema.hpp\<close>, \<^verbatim>\<open>catalog.cpp\<close>), the string pool
  (\<^verbatim>\<open>src/storage/string_pool.cpp\<close>) and the table heap (\<^verbatim>\<open>src/storage/table_heap.cpp\<close>). What
  the clients rely on is stated as two locales, an interner of strings and a store of rows with
  distinct row ids, which the pool and the heap interpret.
\<close>

section \<open>Schemas\<close>

datatype ColumnConstraint = kNone | kNotNull | kIndexed

record ColumnDefinition =
  col_name :: string
  col_type :: ValueType
  col_constraint :: ColumnConstraint
  col_default :: "Value option"

record IndexDefinition =
  index_name :: string
  index_column :: string
  index_unique :: bool
  is_primary_access_path :: bool

record TableSchema =
  schema_database :: string
  schema_table :: string
  columns :: "ColumnDefinition list"
  schema_indexes :: "IndexDefinition list"

section \<open>The catalog\<close>

record Catalog =
  root_path :: string
  catalog_databases :: "string list"
  catalog_tables :: "TableSchema list"

definition make_catalog :: "string \<Rightarrow> Catalog" where
  "make_catalog path = \<lparr>root_path = path, catalog_databases = [], catalog_tables = []\<rparr>"

definition CatalogCreateDatabase :: "string \<Rightarrow> Catalog \<Rightarrow> Catalog" where
  "CatalogCreateDatabase name c = c\<lparr>catalog_databases := catalog_databases c @ [name]\<rparr>"

definition CatalogDropDatabase :: "string \<Rightarrow> Catalog \<Rightarrow> Catalog" where
  "CatalogDropDatabase name c = c\<lparr>catalog_databases := filter (\<lambda>n. n \<noteq> name) (catalog_databases c)\<rparr>"

definition RegisterTable :: "TableSchema \<Rightarrow> Catalog \<Rightarrow> Catalog" where
  "RegisterTable s c = c\<lparr>catalog_tables := catalog_tables c @ [s]\<rparr>"

definition FindTable :: "Catalog \<Rightarrow> string \<Rightarrow> string \<Rightarrow> TableSchema option" where
  "FindTable c database_name table_name =
     List.find (\<lambda>t. schema_database t = database_name \<and> schema_table t = table_name) (catalog_tables c)"

section \<open>The string pool\<close>

text \<open>\<open>next_string\<close> is the address of the next \<^verbatim>\<open>make_shared\<close>; the pool keeps every string alive.\<close>

record StringPool =
  pool_index :: "(string, InternedString) umap"
  next_string :: nat

definition empty_pool :: StringPool where
  "empty_pool = \<lparr>pool_index = [], next_string = 0\<rparr>"

definition Intern :: "string \<Rightarrow> StringPool \<Rightarrow> InternedString \<times> StringPool" where
  "Intern s pool =
     (case umap_find (pool_index pool) s of
        Some p \<Rightarrow> (p, pool)
      | None \<Rightarrow>
          (let owned = Interned (next_string pool) s
           in (owned, pool\<lparr>pool_index := umap_emplace s owned (pool_index pool),
                           next_string := next_string pool + 1\<rparr>)))"

definition UniqueCount :: "StringPool \<Rightarrow> nat" where
  "UniqueCount pool = length (pool_index pool)"

definition pool_wf :: "StringPool \<Rightarrow> bool" where
  "pool_wf pool \<longleftrightarrow>
     umap_wf (pool_index pool) \<and>
     (\<forall>(s, p) \<in> set (pool_index pool). chars p = s \<and> address p < next_string pool) \<and>
     inj_on (\<lambda>(s, p). address p) (set (pool_index pool))"

lemma pool_wf_empty: "pool_wf empty_pool"
  by (simp add: pool_wf_def empty_pool_def)

lemma Intern_known: "umap_find (pool_index pool) s = Some p \<Longrightarrow> Intern s pool = (p, pool)"
  by (simp add: Intern_def)

lemma Intern_wf:
  assumes "pool_wf pool" "Intern s pool = (p, pool')"
  shows "pool_wf pool'" "chars p = s" "umap_find (pool_index pool') s = Some p"
    "\<And>s' q. umap_find (pool_index pool) s' = Some q \<Longrightarrow> umap_find (pool_index pool') s' = Some q"
proof -
  show "chars p = s"
    using assms umap_find_in_set [of "pool_index pool" s p]
    by (auto simp: Intern_def Let_def pool_wf_def split: option.splits)
  show "umap_find (pool_index pool') s = Some p"
    "\<And>s' q. umap_find (pool_index pool) s' = Some q \<Longrightarrow> umap_find (pool_index pool') s' = Some q"
    using assms by (auto simp: Intern_def Let_def split: option.splits)
  show "pool_wf pool'"
  proof (cases "umap_find (pool_index pool) s")
    case None
    then have "pool_index pool' = pool_index pool @ [(s, Interned (next_string pool) s)]"
      "next_string pool' = next_string pool + 1"
      using assms(2) by (auto simp: Intern_def Let_def umap_emplace_def umap_find_def)
    moreover have "s \<notin> fst ` set (pool_index pool)"
      using None by (simp add: umap_find_def map_of_eq_None_iff)
    ultimately show ?thesis
      using assms(1) by (fastforce simp: pool_wf_def umap_wf_def inj_on_def)
  next
    case (Some q)
    with assms show ?thesis by (simp add: Intern_known)
  qed
qed

section \<open>The table heap\<close>

record TableHeap =
  heap_schema :: TableSchema
  heap_rows :: "RowData list"
  next_row_id :: RowId

definition make_heap :: "TableSchema \<Rightarrow> TableHeap" where
  "make_heap s = \<lparr>heap_schema = s, heap_rows = [], next_row_id = 0\<rparr>"

definition HeapInsert :: "RowData \<Rightarrow> TableHeap \<Rightarrow> RowId \<times> TableHeap" where
  "HeapInsert row h =
     (let (row', next') =
        (if row_id row = kInvalidRowId
         then (row\<lparr>row_id := next_row_id h\<rparr>, next_row_id h + 1)
         else if next_row_id h \<le> row_id row then (row, row_id row + 1)
         else (row, next_row_id h))
      in (row_id row', h\<lparr>heap_rows := heap_rows h @ [row'], next_row_id := next'\<rparr>))"

definition ScanAll :: "TableHeap \<Rightarrow> RowData list" where
  "ScanAll h = heap_rows h"

definition FindByRowId :: "TableHeap \<Rightarrow> RowId \<Rightarrow> RowData option" where
  "FindByRowId h rid = List.find (\<lambda>row. row_id row = rid) (heap_rows h)"

definition next_after :: "RowId \<Rightarrow> RowData list \<Rightarrow> RowId" where
  "next_after = foldl (\<lambda>next row.
     if row_id row \<noteq> kInvalidRowId \<and> next \<le> row_id row then row_id row + 1 else next)"

definition HeapReplaceAll :: "RowData list \<Rightarrow> TableHeap \<Rightarrow> TableHeap" where
  "HeapReplaceAll rows h = h\<lparr>heap_rows := rows, next_row_id := next_after 0 rows\<rparr>"

subsection \<open>The invariant\<close>

text \<open>The row ids are valid, distinct and below the next one to be given out.\<close>

definition rows_below :: "RowId \<Rightarrow> RowData list \<Rightarrow> bool" where
  "rows_below next rows \<longleftrightarrow> distinct (map row_id rows) \<and> (\<forall>row \<in> set rows. row_id row < next)"

definition heap_inv :: "TableHeap \<Rightarrow> bool" where
  "heap_inv h \<longleftrightarrow> rows_below (next_row_id h) (heap_rows h)"

lemma below_invalid: "(r :: RowId) < n \<Longrightarrow> r \<noteq> kInvalidRowId"
  unfolding kInvalidRowId_def by (metis word_n1_ge linorder_not_less)

lemma less_next: "(r :: RowId) \<noteq> kInvalidRowId \<Longrightarrow> s < r + 1 \<longleftrightarrow> s \<le> r"
proof -
  assume r: "r \<noteq> kInvalidRowId"
  then have "1 + r \<noteq> 0" by (metis add.inverse_unique kInvalidRowId_def)
  then have "unat (1 + r) = Suc (unat r)" by (rule unatSuc)
  then show ?thesis by (simp add: word_less_nat_alt word_le_nat_alt add.commute less_Suc_eq_le)
qed

lemma rows_below_mono: "rows_below n rows \<Longrightarrow> n \<le> n' \<Longrightarrow> rows_below n' rows"
  by (auto simp: rows_below_def)

lemma rows_below_append:
  assumes "rows_below n rows" "row_id row = n" "n \<noteq> kInvalidRowId"
  shows "rows_below (n + 1) (rows @ [row])"
  using assms by (auto simp: rows_below_def less_next)

lemma next_after_mono: "n \<le> next_after n rows"
proof (induction rows arbitrary: n)
  case (Cons row rows)
  show ?case
  proof (cases "row_id row \<noteq> kInvalidRowId \<and> n \<le> row_id row")
    case True
    then have "n \<le> row_id row + 1" by (metis less_next order_less_imp_le order_le_less_trans order_refl)
    with True Cons [of "row_id row + 1"] show ?thesis by (simp add: next_after_def)
  next
    case False
    with Cons [of n] show ?thesis by (auto simp: next_after_def)
  qed
qed (simp add: next_after_def)

lemma next_after_bound:
  "row \<in> set rows \<Longrightarrow> row_id row \<noteq> kInvalidRowId \<Longrightarrow> row_id row < next_after n rows"
proof (induction rows arbitrary: n)
  case (Cons r rows)
  define n' where "n' = (if row_id r \<noteq> kInvalidRowId \<and> n \<le> row_id r then row_id r + 1 else n)"
  have step: "next_after n (r # rows) = next_after n' rows" by (simp add: next_after_def n'_def)
  show ?case
  proof (cases "row = r")
    case True
    with Cons.prems(2) have "row_id row < n'" by (auto simp: n'_def less_next)
    with step next_after_mono [of n' rows] show ?thesis by simp
  next
    case False
    with Cons step show ?thesis by simp
  qed
qed simp

lemma heap_inv_make: "heap_inv (make_heap s)"
  by (simp add: heap_inv_def make_heap_def rows_below_def)

lemma HeapInsert_fresh:
  assumes "heap_inv h" "next_row_id h \<noteq> kInvalidRowId" "row_id row = kInvalidRowId"
    and "HeapInsert row h = (r, h')"
  shows "r = next_row_id h" "heap_rows h' = heap_rows h @ [row\<lparr>row_id := r\<rparr>]" "heap_inv h'"
    "next_row_id h' = next_row_id h + 1" "heap_schema h' = heap_schema h"
  using assms rows_below_append [of "next_row_id h" "heap_rows h" "row\<lparr>row_id := next_row_id h\<rparr>"]
  by (auto simp: HeapInsert_def heap_inv_def)

lemma HeapReplaceAll_inv:
  assumes "distinct (map row_id rows)" "\<forall>row \<in> set rows. row_id row \<noteq> kInvalidRowId"
  shows "heap_inv (HeapReplaceAll rows h)"
  using assms next_after_bound by (auto simp: heap_inv_def HeapReplaceAll_def rows_below_def)

lemma find_distinct:
  "distinct (map f xs) \<Longrightarrow> x \<in> set xs \<Longrightarrow> List.find (\<lambda>y. f y = f x) xs = Some x"
  by (induction xs) auto

lemma FindByRowId_iff:
  assumes "heap_inv h"
  shows "FindByRowId h r = Some row \<longleftrightarrow> row \<in> set (heap_rows h) \<and> row_id row = r"
proof
  assume "FindByRowId h r = Some row"
  then show "row \<in> set (heap_rows h) \<and> row_id row = r"
    by (auto simp: FindByRowId_def find_Some_iff)
next
  assume "row \<in> set (heap_rows h) \<and> row_id row = r"
  with assms show "FindByRowId h r = Some row"
    using find_distinct [of row_id "heap_rows h" row] by (auto simp: FindByRowId_def heap_inv_def rows_below_def)
qed

section \<open>The interfaces\<close>

locale interner =
  fixes intern :: "string \<Rightarrow> 'p \<Rightarrow> InternedString \<times> 'p"
    and known :: "'p \<Rightarrow> string \<Rightarrow> InternedString option"
    and wf :: "'p \<Rightarrow> bool"
  assumes intern_wf: "wf p \<Longrightarrow> intern s p = (q, p') \<Longrightarrow> wf p'"
    and intern_chars: "wf p \<Longrightarrow> intern s p = (q, p') \<Longrightarrow> chars q = s"
    and intern_known: "wf p \<Longrightarrow> intern s p = (q, p') \<Longrightarrow> known p' s = Some q"
    and intern_keeps: "wf p \<Longrightarrow> intern s p = (q, p') \<Longrightarrow> known p s' = Some q' \<Longrightarrow> known p' s' = Some q'"
    and known_result: "wf p \<Longrightarrow> known p s = Some q \<Longrightarrow> intern s p = (q, p)"
    and known_inj: "wf p \<Longrightarrow> known p s = Some q \<Longrightarrow> known p s' = Some q' \<Longrightarrow> address q = address q' \<Longrightarrow> s = s'"
begin

text \<open>Two strings interned one after the other share their address exactly when they are equal.\<close>

lemma intern_shares:
  assumes "wf p" "intern s p = (q, p1)" "intern s' p1 = (q', p2)"
  shows "address q = address q' \<longleftrightarrow> s = s'"
proof
  have wf1: "wf p1" using assms intern_wf by blast
  have k: "known p1 s = Some q" using assms intern_known by blast
  show "s = s'" if "address q = address q'"
    by (rule known_inj [OF intern_wf [OF wf1 assms(3)] intern_keeps [OF wf1 assms(3) k]
          intern_known [OF wf1 assms(3)] that])
  show "address q = address q'" if "s = s'"
    using that assms(3) known_result [OF wf1 k] by simp
qed

end

interpretation pool: interner Intern "\<lambda>pool s. umap_find (pool_index pool) s" pool_wf
proof
  fix pool :: StringPool and s s' q q' pool'
  assume wf: "pool_wf pool"
  { assume k: "umap_find (pool_index pool) s = Some q"
    then show "Intern s pool = (q, pool)" by (rule Intern_known)
    assume k': "umap_find (pool_index pool) s' = Some q'" and a: "address q = address q'"
    from wf have "inj_on (\<lambda>(s, p). address p) (set (pool_index pool))" by (simp add: pool_wf_def)
    from inj_onD [OF this, of "(s, q)" "(s', q')"] show "s = s'"
      using umap_find_in_set [OF k] umap_find_in_set [OF k'] a by simp }
  assume i: "Intern s pool = (q, pool')"
  show "pool_wf pool'" "chars q = s" "umap_find (pool_index pool') s = Some q"
    by (rule Intern_wf [OF wf i])+
  assume "umap_find (pool_index pool) s' = Some q'"
  then show "umap_find (pool_index pool') s' = Some q'" by (rule Intern_wf(4) [OF wf i])
qed

locale row_store =
  fixes add :: "RowData \<Rightarrow> 'h \<Rightarrow> RowId \<times> 'h"
    and scan :: "'h \<Rightarrow> RowData list"
    and get :: "'h \<Rightarrow> RowId \<Rightarrow> RowData option"
    and replace :: "RowData list \<Rightarrow> 'h \<Rightarrow> 'h"
    and inv :: "'h \<Rightarrow> bool"
    and full :: "'h \<Rightarrow> bool"
  assumes scan_distinct: "inv h \<Longrightarrow> distinct (map row_id (scan h))"
    and scan_valid: "inv h \<Longrightarrow> row \<in> set (scan h) \<Longrightarrow> row_id row \<noteq> kInvalidRowId"
    and get_iff: "inv h \<Longrightarrow> get h r = Some row \<longleftrightarrow> row \<in> set (scan h) \<and> row_id row = r"
    and add_scan: "add row h = (r, h') \<Longrightarrow> row_id row = kInvalidRowId \<Longrightarrow> scan h' = scan h @ [row\<lparr>row_id := r\<rparr>]"
    and add_inv: "inv h \<Longrightarrow> \<not> full h \<Longrightarrow> row_id row = kInvalidRowId \<Longrightarrow> add row h = (r, h') \<Longrightarrow> inv h'"
    and replace_scan: "scan (replace rows h) = rows"
    and replace_inv: "distinct (map row_id rows) \<Longrightarrow> \<forall>row \<in> set rows. row_id row \<noteq> kInvalidRowId \<Longrightarrow>
      inv (replace rows h)"
begin

text \<open>A row that was added is found under the id it was given, and every other row as before.\<close>

lemma get_add:
  assumes "inv h" "\<not> full h" "row_id row = kInvalidRowId" "add row h = (r, h')"
  shows "get h' s = (if s = r then Some (row\<lparr>row_id := r\<rparr>) else get h s)"
proof -
  have inv': "inv h'" using assms add_inv by blast
  have sc: "scan h' = scan h @ [row\<lparr>row_id := r\<rparr>]" using assms add_scan by blast
  have fresh: "r \<notin> row_id ` set (scan h)" using scan_distinct [OF inv'] sc by auto
  have *: "get h' s = Some x \<longleftrightarrow> (if s = r then x = row\<lparr>row_id := r\<rparr> else get h s = Some x)" for x
    using get_iff [OF inv', of s x] get_iff [OF assms(1), of s x] sc fresh by auto
  show ?thesis
  proof (cases "s = r")
    case False
    with * have "\<And>x. get h' s = Some x \<longleftrightarrow> get h s = Some x" by simp
    then have "get h' s = get h s" by (metis not_Some_eq)
    with False show ?thesis by simp
  qed (use * in auto)
qed

end

lemma HeapInsert_rows:
  "HeapInsert row h = (r, h') \<Longrightarrow> row_id row = kInvalidRowId \<Longrightarrow> heap_rows h' = heap_rows h @ [row\<lparr>row_id := r\<rparr>]"
  by (auto simp: HeapInsert_def)

interpretation heap: row_store HeapInsert ScanAll FindByRowId HeapReplaceAll heap_inv
  "\<lambda>h. next_row_id h = kInvalidRowId"
proof
  fix h h' r row rows
  show "row_id row \<noteq> kInvalidRowId" if "heap_inv h" "row \<in> set (ScanAll h)"
    using that below_invalid by (auto simp: ScanAll_def heap_inv_def rows_below_def)
  show "FindByRowId h r = Some row \<longleftrightarrow> row \<in> set (ScanAll h) \<and> row_id row = r" if "heap_inv h"
    using FindByRowId_iff [OF that] by (simp add: ScanAll_def)
  show "ScanAll h' = ScanAll h @ [row\<lparr>row_id := r\<rparr>]"
    if "HeapInsert row h = (r, h')" "row_id row = kInvalidRowId"
    unfolding ScanAll_def using that by (rule HeapInsert_rows)
  show "heap_inv h'"
    if "heap_inv h" "\<not> next_row_id h = kInvalidRowId" "row_id row = kInvalidRowId" "HeapInsert row h = (r, h')"
    using that by (rule HeapInsert_fresh(3))
  show "heap_inv (HeapReplaceAll rows h)"
    if "distinct (map row_id rows)" "\<forall>row \<in> set rows. row_id row \<noteq> kInvalidRowId"
    using that by (rule HeapReplaceAll_inv)
qed (simp_all add: ScanAll_def heap_inv_def rows_below_def HeapReplaceAll_def)

end
