(* ===== verification/Index_Key.thy ===== *)
theory Index_Key
  imports Storage
begin

text \<open>
  Column lookup and the encoding of values as index keys. The source has both twice, in
  \<^verbatim>\<open>src/execution/execution_engine.cpp\<close> and in \<^verbatim>\<open>src/core/runtime_state.cpp\<close>; both copies are
  modelled and shown equal. The encoding embeds the order of the values into the order of the
  keys.
\<close>

section \<open>Definitions\<close>

fun find_column :: "string \<Rightarrow> ColumnDefinition list \<Rightarrow> nat \<Rightarrow> nat option" where
  "find_column name [] i = None"
| "find_column name (c # cs) i = (if col_name c = name then Some i else find_column name cs (Suc i))"

definition FindColumnIndex :: "TableSchema \<Rightarrow> string \<Rightarrow> nat option" where
  "FindColumnIndex schema name = find_column name (columns schema) 0"

definition runtime_FindColumnIndex :: "TableSchema \<Rightarrow> string \<Rightarrow> nat option" where
  "runtime_FindColumnIndex schema name = find_column name (columns schema) 0"

text \<open>
  \<^verbatim>\<open>std::hex << std::setw(16) << std::setfill('0')\<close>: a 64-bit number has at most sixteen hexadecimal
  digits, so the output always has exactly sixteen.
\<close>

definition hex_digit :: "nat \<Rightarrow> char" where
  "hex_digit d = char_of (if d < 10 then 48 + d else 87 + d)"

primrec hex_fixed :: "nat \<Rightarrow> nat \<Rightarrow> string" where
  "hex_fixed 0 n = []"
| "hex_fixed (Suc k) n = hex_digit (n div 16 ^ k mod 16) # hex_fixed k n"

definition EncodeIndexKey :: "Value \<Rightarrow> ValueType \<Rightarrow> string Result" where
  "EncodeIndexKey v t =
     (if IsNull v then Inr ''N''
      else if t = kInt64 then
        (case v of
           Int64 w \<Rightarrow> Inr (CHR ''I'' # hex_fixed 16 (unat (w XOR push_bit 63 1)))
         | _ \<Rightarrow> Inl (Thrown BadVariantAccess))
      else bind_result (AsString v) (\<lambda>s. Inr (CHR ''S'' # s)))"

definition runtime_EncodeIndexKey :: "Value \<Rightarrow> ValueType \<Rightarrow> string Result" where
  "runtime_EncodeIndexKey v t =
     (case v of
        Monostate \<Rightarrow> Inr ''N''
      | _ \<Rightarrow>
          (if t = kInt64 then
             (case v of
                Int64 w \<Rightarrow> Inr (CHR ''I'' # hex_fixed 16 (unat (w XOR push_bit 63 1)))
              | _ \<Rightarrow> Inl (Thrown BadVariantAccess))
           else bind_result (AsString v) (\<lambda>s. Inr (CHR ''S'' # s))))"

lemma runtime_FindColumnIndex_eq [simp]: "runtime_FindColumnIndex = FindColumnIndex"
  by (simp add: fun_eq_iff runtime_FindColumnIndex_def FindColumnIndex_def)

lemma runtime_EncodeIndexKey_eq [simp]: "runtime_EncodeIndexKey = EncodeIndexKey"
  by (auto simp: fun_eq_iff runtime_EncodeIndexKey_def EncodeIndexKey_def split: Value.splits)

section \<open>Column lookup\<close>

lemma find_column_Some:
  "find_column name cs i = Some j \<Longrightarrow> i \<le> j \<and> j < i + length cs \<and> col_name (cs ! (j - i)) = name"
proof (induction name cs i rule: find_column.induct)
  case (2 name c cs i)
  show ?case
  proof (cases "col_name c = name")
    case False
    with 2 have *: "Suc i \<le> j \<and> j < Suc i + length cs \<and> col_name (cs ! (j - Suc i)) = name" by simp
    then have "j - i = Suc (j - Suc i)" by linarith
    with * show ?thesis by auto
  qed (use 2 in auto)
qed simp

lemma FindColumnIndex_Some:
  "FindColumnIndex schema name = Some i \<Longrightarrow> i < length (columns schema) \<and> col_name (columns schema ! i) = name"
  unfolding FindColumnIndex_def using find_column_Some [of name "columns schema" 0 i] by simp

lemma find_column_None: "find_column name cs i = None \<longleftrightarrow> name \<notin> col_name ` set cs"
  by (induction name cs i rule: find_column.induct) auto

section \<open>The order of keys\<close>

lemma hex_digit_less: "a < 16 \<Longrightarrow> b < 16 \<Longrightarrow> hex_digit a < hex_digit b \<longleftrightarrow> a < b"
  by (auto simp: hex_digit_def less_char_def)

lemma hex_digit_eq: "a < 16 \<Longrightarrow> b < 16 \<Longrightarrow> hex_digit a = hex_digit b \<longleftrightarrow> a = b"
  using hex_digit_less by (metis nat_neq_iff)

lemma mod_less_split:
  fixes m n p :: nat
  assumes "0 < p"
  shows "m mod (p * 16) < n mod (p * 16) \<longleftrightarrow>
    m div p mod 16 < n div p mod 16 \<or> m div p mod 16 = n div p mod 16 \<and> m mod p < n mod p"
proof -
  let ?a = "m div p mod 16" and ?b = "n div p mod 16" and ?r = "m mod p" and ?s = "n mod p"
  have e: "m mod (p * 16) = p * ?a + ?r" "n mod (p * 16) = p * ?b + ?s" by (simp_all add: mod_mult2_eq)
  have r: "?r < p" "?s < p" using assms by simp_all
  have lt: "p * a + r < p * b + s" if "a < b" "r < p" for a b r s :: nat
  proof -
    have "p * Suc a \<le> p * b" using that(1) by (intro mult_le_mono2) simp
    then show ?thesis using that(2) by simp
  qed
  show ?thesis unfolding e
  proof (cases ?a ?b rule: linorder_cases)
    case less
    then show "p * ?a + ?r < p * ?b + ?s \<longleftrightarrow> ?a < ?b \<or> ?a = ?b \<and> ?r < ?s" using lt [OF less r(1)] by simp
  next
    case equal
    then show "p * ?a + ?r < p * ?b + ?s \<longleftrightarrow> ?a < ?b \<or> ?a = ?b \<and> ?r < ?s" by simp
  next
    case greater
    then show "p * ?a + ?r < p * ?b + ?s \<longleftrightarrow> ?a < ?b \<or> ?a = ?b \<and> ?r < ?s" using lt [OF greater r(2), of ?r] by simp
  qed
qed

lemma hex_fixed_less: "hex_fixed k m < hex_fixed k n \<longleftrightarrow> m mod 16 ^ k < n mod 16 ^ k"
proof (induction k)
  case (Suc k)
  have "m div 16 ^ k mod 16 < 16" "n div 16 ^ k mod 16 < 16" by simp_all
  with Suc mod_less_split [of "16 ^ k" m n] show ?case
    by (simp add: hex_digit_less hex_digit_eq mult.commute)
qed simp

text \<open>Flipping the sign bit adds \<open>2 ^ 63\<close>, which maps the signed range onto the unsigned one in order.\<close>

lemma flip_sign: "(w :: 64 word) XOR push_bit 63 1 = w + 2 ^ 63"
proof -
  have flip: "w XOR push_bit 63 1 = (if bit w 63 then unset_bit else set_bit) 63 w"
    by (metis flip_bit_eq_if flip_bit_eq_xor)
  show ?thesis
  proof (cases "bit w 63")
    case True
    have "set_bit 63 (unset_bit 63 w) = w"
      using True by (intro bit_eqI) (auto simp: bit_simps)
    moreover have "set_bit 63 (unset_bit 63 w) = unset_bit 63 w + 2 ^ 63"
      by (simp add: set_bit_eq bit_simps)
    ultimately have "unset_bit 63 w = w - 2 ^ 63" by (metis add_diff_cancel_right')
    also have "(2 :: 64 word) ^ 63 + 2 ^ 63 = 0" by simp
    then have "w - 2 ^ 63 = w + 2 ^ 63" by (simp only: diff_eq_eq add.assoc add_0_right)
    finally show ?thesis using True flip by simp
  next
    case False
    then show ?thesis using flip by (simp add: set_bit_eq)
  qed
qed

lemma ordered_value: "int (unat ((w :: 64 word) XOR push_bit 63 1)) = sint w + 2 ^ 63"
proof -
  have "uint (of_int (sint w + 2 ^ 63) :: 64 word) = take_bit 64 (sint w + 2 ^ 63)"
    by (simp only: unsigned_of_int) simp
  moreover have "of_int (sint w + 2 ^ 63) = w + 2 ^ 63" by simp
  ultimately have "uint (w + 2 ^ 63) = take_bit 64 (sint w + 2 ^ 63)" by metis
  also have "\<dots> = sint w + 2 ^ 63"
    using sint_range_size [of w] by (intro take_bit_int_eq_self) (auto simp: word_size)
  finally show ?thesis unfolding flip_sign by simp
qed

section \<open>The encoding embeds the order\<close>

text \<open>The order of two values of one type: integers by their signed value, strings by their text.\<close>

fun value_less :: "Value \<Rightarrow> Value \<Rightarrow> bool" where
  "value_less (Int64 a) (Int64 b) = (sint a < sint b)"
| "value_less a b = (case (AsString a, AsString b) of (Inr s, Inr t) \<Rightarrow> s < t | _ \<Rightarrow> False)"

lemma EncodeIndexKey_total:
  assumes "GetValueType v = t" "t \<noteq> kNull"
  shows "\<exists>k. EncodeIndexKey v t = Inr k"
  using assms by (cases v) (auto simp: EncodeIndexKey_def)

lemma int_key_less:
  fixes a b :: "64 word"
  shows "hex_fixed 16 (unat (a XOR push_bit 63 1)) < hex_fixed 16 (unat (b XOR push_bit 63 1)) \<longleftrightarrow> sint a < sint b"
proof -
  have "unat w mod 16 ^ 16 = unat w" for w :: "64 word"
    using unsigned_less [of w, where ?'a = nat] by simp
  moreover have "unat (a XOR push_bit 63 1) < unat (b XOR push_bit 63 1) \<longleftrightarrow> sint a < sint b"
    using ordered_value [of a] ordered_value [of b] by linarith
  ultimately show ?thesis by (simp only: hex_fixed_less)
qed

lemma EncodeIndexKey_less:
  assumes "GetValueType a = t" "GetValueType b = t" "t \<noteq> kNull"
    and "EncodeIndexKey a t = Inr ka" "EncodeIndexKey b t = Inr kb"
  shows "ka < kb \<longleftrightarrow> value_less a b"
  using assms int_key_less
  by (cases a; cases b) (auto simp: EncodeIndexKey_def simp del: push_bit_of_1)

lemma EncodeIndexKey_eq:
  assumes "GetValueType a = t" "GetValueType b = t" "t \<noteq> kNull"
    and "EncodeIndexKey a t = Inr ka" "EncodeIndexKey b t = Inr kb"
  shows "ka = kb \<longleftrightarrow> same_value a b"
proof (cases "t = kInt64")
  case True
  with assms obtain x y where ab: "a = Int64 x" "b = Int64 y" by (cases a; cases b) auto
  have "ka = kb \<longleftrightarrow> \<not> ka < kb \<and> \<not> kb < ka" by (metis less_irrefl linorder_less_linear)
  also have "\<dots> \<longleftrightarrow> sint x = sint y"
    using EncodeIndexKey_less [OF assms] EncodeIndexKey_less [OF assms(2,1,3,5,4)] ab by auto
  also have "\<dots> \<longleftrightarrow> x = y" by (metis signed_word_eqI)
  finally show ?thesis using ab by simp
next
  case False
  with assms show ?thesis by (cases a; cases b) (auto simp: EncodeIndexKey_def)
qed

text \<open>The keys of a column begin with the letter of its type, below the bounds of the open scans.\<close>

lemma EncodeIndexKey_below:
  assumes "GetValueType v \<noteq> kNull" "EncodeIndexKey v t = Inr k"
  shows "k < [CHR 0xFF, CHR 0xFF, CHR 0xFF, CHR 0xFF]" "[] \<le> k"
  using assms by (cases v; auto simp: EncodeIndexKey_def less_char_def split: if_splits)+

end
