(* ===== verification/Runtime_State.thy ===== *)
theory Runtime_State
  imports Index_Interface Index_Key
begin

text \<open>
  The in-memory runtime objects (\<^verbatim>\<open>src/core/runtime_state.cpp\<close>): databases, tables with their heap
  and indexes, the copy that a transaction works on, the consistency check behind
  \<^verbatim>\<open>CHECK INDEX\<close> and the rebuild behind \<^verbatim>\<open>REBUILD INDEX\<close>.
\<close>

section \<open>State\<close>

record TableRuntime =
  schema :: TableSchema
  heap :: TableHeap
  indexes :: "(string, BStarPlusTree) umap"

record DatabaseRuntime =
  db_name :: string
  tables :: "(string, TableRuntime) umap"

record RuntimeState =
  databases :: "(string, DatabaseRuntime) umap"

text \<open>\<^verbatim>\<open>row.values[i]\<close>: an index out of range has no defined meaning.\<close>

definition row_value :: "RowData \<Rightarrow> nat \<Rightarrow> Value Result" where
  "row_value row i = (if i < length (row_values row) then Inr (row_values row ! i)
                      else Inl (Thrown UndefinedBehaviour))"

text \<open>One empty tree per index definition; a second definition for the same column is ignored.\<close>

definition new_indexes :: "TableSchema \<Rightarrow> (string, BStarPlusTree) umap" where
  "new_indexes s =
     foldl (\<lambda>m ix. umap_emplace (index_column ix) (make_tree default_max_keys) m) [] (schema_indexes s)"

section \<open>Copying\<close>

text \<open>The entry of one row in one index of the copy; an index without a column is skipped.\<close>

definition clone_entry :: "TableSchema \<Rightarrow> RowData \<Rightarrow> string \<times> BStarPlusTree \<Rightarrow> (string \<times> BStarPlusTree) Result" where
  "clone_entry s row entry =
     (case entry of (column_name, index_tree) \<Rightarrow>
        (case find_column column_name (columns s) 0 of
           None \<Rightarrow> Inr entry
         | Some i \<Rightarrow>
             bind_result (row_value row i) (\<lambda>value.
               bind_result
                 (case value of
                    Monostate \<Rightarrow> Inr ''N''
                  | _ \<Rightarrow>
                      (if col_type (columns s ! i) = kInt64 then
                         (case value of
                            Int64 w \<Rightarrow> Inr (CHR ''I'' # hex_fixed 16 (unat (w XOR push_bit 63 1)))
                          | _ \<Rightarrow> Inl (Thrown BadVariantAccess))
                       else bind_result (AsString value) (\<lambda>text. Inr (CHR ''S'' # text))))
                 (\<lambda>key. bind_result (Insert index_tree key (row_id row))
                          (\<lambda>tree. Inr (column_name, tree))))))"

definition CloneTableRuntime :: "TableRuntime \<Rightarrow> TableRuntime Result" where
  "CloneTableRuntime source =
     (let s = schema source;
          rows = ScanAll (heap source);
          h = foldl (\<lambda>h row. snd (HeapInsert row h)) (make_heap s) rows
      in bind_result (foldM (\<lambda>trees row. mapM (clone_entry s row) trees) rows (new_indexes s))
           (\<lambda>trees. Inr \<lparr>schema = s, heap = h, indexes = trees\<rparr>))"

definition CloneDatabaseRuntime :: "DatabaseRuntime \<Rightarrow> DatabaseRuntime Result" where
  "CloneDatabaseRuntime db =
     bind_result (mapM (\<lambda>(name, t). bind_result (CloneTableRuntime t) (\<lambda>t'. Inr (name, t'))) (tables db))
       (\<lambda>ts. Inr \<lparr>db_name = db_name db, tables = ts\<rparr>)"

definition CloneRuntimeState :: "RuntimeState \<Rightarrow> RuntimeState Result" where
  "CloneRuntimeState source =
     bind_result (mapM (\<lambda>(name, db). bind_result (CloneDatabaseRuntime db) (\<lambda>db'. Inr (name, db')))
                    (databases source))
       (\<lambda>dbs. Inr \<lparr>databases = dbs\<rparr>)"

section \<open>Checking\<close>

text \<open>The loop over the rows of one index, with the set of keys seen so far.\<close>

definition check_row ::
  "string \<Rightarrow> TableSchema \<Rightarrow> nat \<Rightarrow> BStarPlusTree \<Rightarrow> string list \<Rightarrow> RowData \<Rightarrow> string list Result" where
  "check_row place s i index_tree seen_keys row =
     bind_result (row_value row i) (\<lambda>value.
       bind_result (runtime_EncodeIndexKey value (col_type (columns s ! i))) (\<lambda>encoded.
         if encoded \<in> set seen_keys
         then MakeError kStorageError (''duplicate indexed key in heap for '' @ place)
         else bind_result (Find index_tree encoded) (\<lambda>found.
                if found \<noteq> [row_id row]
                then MakeError kStorageError (''index lookup mismatch for '' @ place)
                else Inr (seen_keys @ [encoded]))))"

definition check_index :: "string \<Rightarrow> TableSchema \<Rightarrow> RowData list \<Rightarrow> string \<times> BStarPlusTree \<Rightarrow> unit Result" where
  "check_index place s rows entry =
     (case entry of (column_name, index_tree) \<Rightarrow>
        (let full_place = place @ ''.'' @ column_name in
         if \<not> ValidateCanonicalInvariants index_tree
         then MakeError kStorageError (''index invariants broken for '' @ full_place)
         else case runtime_FindColumnIndex s column_name of
                None \<Rightarrow> MakeError kStorageError (''indexed column missing in schema: '' @ full_place)
              | Some i \<Rightarrow>
                  bind_result (foldM (check_row full_place s i index_tree) rows []) (\<lambda>_. Inr ())))"

definition check_table :: "string \<Rightarrow> string \<times> TableRuntime \<Rightarrow> unit Result" where
  "check_table database_name entry =
     (case entry of (table_name, t) \<Rightarrow>
        foldM (\<lambda>_. check_index (database_name @ ''.'' @ table_name) (schema t) (ScanAll (heap t))) (indexes t) ())"

definition ValidateRuntimeIndexConsistency :: "RuntimeState \<Rightarrow> bool Result" where
  "ValidateRuntimeIndexConsistency state =
     bind_result
       (foldM (\<lambda>_ (database_name, db). foldM (\<lambda>_. check_table database_name) (tables db) ()) (databases state) ())
       (\<lambda>_. MakeSuccess True)"

section \<open>Rebuilding\<close>

definition rebuild_runtime_entry ::
  "string \<Rightarrow> TableSchema \<Rightarrow> RowData \<Rightarrow> string \<times> BStarPlusTree \<Rightarrow> (string \<times> BStarPlusTree) \<times> unit Result" where
  "rebuild_runtime_entry place s row entry =
     (case entry of (column_name, index_tree) \<Rightarrow>
        (case
           (case runtime_FindColumnIndex s column_name of
              None \<Rightarrow> MakeError kStorageError
                (''indexed column missing in schema during rebuild: '' @ place @ ''.'' @ column_name)
            | Some i \<Rightarrow>
                bind_result (row_value row i) (\<lambda>value.
                  bind_result (runtime_EncodeIndexKey value (col_type (columns s ! i))) (\<lambda>encoded.
                    Insert index_tree encoded (row_id row)))) of
           Inl e \<Rightarrow> (entry, Inl e)
         | Inr tree \<Rightarrow> ((column_name, tree), Inr ())))"

definition rebuild_runtime_table :: "string \<Rightarrow> string \<times> TableRuntime \<Rightarrow> (string \<times> TableRuntime) \<times> unit Result" where
  "rebuild_runtime_table database_name entry =
     (case entry of (table_name, t) \<Rightarrow>
        (case iterate_until
                (\<lambda>trees row. map_until (rebuild_runtime_entry (database_name @ ''.'' @ table_name) (schema t) row) trees)
                (ScanAll (heap t)) (new_indexes (schema t)) of
           (trees, r) \<Rightarrow> ((table_name, t\<lparr>indexes := trees\<rparr>), r)))"

definition rebuild_runtime_database :: "string \<times> DatabaseRuntime \<Rightarrow> (string \<times> DatabaseRuntime) \<times> unit Result" where
  "rebuild_runtime_database entry =
     (case entry of (name, db) \<Rightarrow>
        (case map_until (rebuild_runtime_table name) (tables db) of
           (ts, r) \<Rightarrow> ((name, db\<lparr>tables := ts\<rparr>), r)))"

definition RebuildRuntimeIndexes :: "RuntimeState \<Rightarrow> RuntimeState \<times> bool Result" where
  "RebuildRuntimeIndexes state =
     (case map_until rebuild_runtime_database (databases state) of
        (dbs, Inl e) \<Rightarrow> (state\<lparr>databases := dbs\<rparr>, Inl e)
      | (dbs, Inr _) \<Rightarrow>
          (let state' = state\<lparr>databases := dbs\<rparr> in (state', ValidateRuntimeIndexConsistency state')))"

section \<open>The invariant of a table\<close>

text \<open>A column that accepts no \<^verbatim>\<open>NULL\<close>.\<close>

definition allows_null :: "ColumnDefinition \<Rightarrow> bool" where
  "allows_null c \<longleftrightarrow> col_constraint c \<noteq> kNotNull \<and> col_constraint c \<noteq> kIndexed"

definition row_fits :: "TableSchema \<Rightarrow> RowData \<Rightarrow> bool" where
  "row_fits s row \<longleftrightarrow>
     list_all2 (\<lambda>c v. CanAssignToType v (col_type c) (allows_null c)) (columns s) (row_values row)"

text \<open>The key of a row in the index on column \<open>i\<close>.\<close>

definition row_key :: "TableSchema \<Rightarrow> nat \<Rightarrow> RowData \<Rightarrow> string Result" where
  "row_key s i row =
     bind_result (row_value row i) (\<lambda>v.
       if IsNull v then Inl (Thrown UndefinedBehaviour) else EncodeIndexKey v (col_type (columns s ! i)))"

definition index_pairs :: "TableSchema \<Rightarrow> nat \<Rightarrow> RowData list \<Rightarrow> (string \<times> RowId) list Result" where
  "index_pairs s i rows = mapM (\<lambda>row. bind_result (row_key s i row) (\<lambda>k. Inr (k, row_id row))) rows"

text \<open>The index on a column holds the key of every row, with the id of that row alone.\<close>

definition index_holds :: "TableSchema \<Rightarrow> RowData list \<Rightarrow> string \<times> BStarPlusTree \<Rightarrow> bool" where
  "index_holds s rows entry \<longleftrightarrow>
     (\<exists>i kvs. FindColumnIndex s (fst entry) = Some i \<and> index_pairs s i rows = Inr kvs \<and>
              bstar.represents (snd entry) kvs)"

definition index_columns :: "TableSchema \<Rightarrow> string list" where
  "index_columns s = map fst (new_indexes s)"

definition table_inv :: "TableRuntime \<Rightarrow> bool" where
  "table_inv t \<longleftrightarrow>
     heap_inv (heap t) \<and>
     (\<forall>row \<in> set (heap_rows (heap t)). row_fits (schema t) row) \<and>
     map fst (indexes t) = index_columns (schema t) \<and>
     (\<forall>entry \<in> set (indexes t). index_holds (schema t) (heap_rows (heap t)) entry)"

definition state_inv :: "RuntimeState \<Rightarrow> bool" where
  "state_inv st \<longleftrightarrow>
     umap_wf (databases st) \<and>
     (\<forall>(n, db) \<in> set (databases st). umap_wf (tables db) \<and> (\<forall>(m, t) \<in> set (tables db). table_inv t))"

section \<open>New indexes\<close>

lemma new_indexes_wf: "distinct (map fst (new_indexes s))"
proof -
  have "umap_wf (foldl (\<lambda>m ix. umap_emplace (index_column ix) (make_tree default_max_keys) m) m ixs)"
    if "umap_wf m" for m ixs
    using that by (induction ixs arbitrary: m) auto
  from this [of "[]"] show ?thesis by (simp add: new_indexes_def umap_wf_def)
qed

lemma foldl_emplace_set:
  "set (foldl (\<lambda>m ix. umap_emplace (f ix) v m) m xs) \<subseteq> set m \<union> (\<lambda>ix. (f ix, v)) ` set xs"
proof (induction xs arbitrary: m)
  case (Cons x xs)
  have "set (umap_emplace (f x) v m) \<subseteq> insert (f x, v) (set m)" by (auto simp: umap_emplace_def)
  with Cons [of "umap_emplace (f x) v m"] show ?case by auto
qed simp

lemma new_indexes_mem:
  "(c, t) \<in> set (new_indexes s) \<Longrightarrow> t = make_tree default_max_keys \<and> (\<exists>ix \<in> set (schema_indexes s). c = index_column ix)"
  using foldl_emplace_set [of index_column "make_tree default_max_keys" "[]" "schema_indexes s"]
  by (auto simp: new_indexes_def)

lemma index_holds_new:
  assumes "entry \<in> set (new_indexes s)" "FindColumnIndex s (fst entry) = Some i"
  shows "index_holds s [] entry"
  using assms new_indexes_mem [of "fst entry" "snd entry" s] bstar.represents_new
  by (auto simp: index_holds_def index_pairs_def)

section \<open>Adding a row to an index\<close>

definition keys_distinct :: "TableSchema \<Rightarrow> string \<Rightarrow> RowData list \<Rightarrow> bool" where
  "keys_distinct s c rows \<longleftrightarrow>
     (\<exists>i kvs. FindColumnIndex s c = Some i \<and> index_pairs s i rows = Inr kvs \<and> distinct (map fst kvs))"

lemma index_holds_keys: "index_holds s rows (c, t) \<Longrightarrow> keys_distinct s c rows"
  by (auto simp: index_holds_def keys_distinct_def bstar.represents_def)

lemma index_pairs_append:
  "index_pairs s i (xs @ ys) = bind_result (index_pairs s i xs) (\<lambda>us. bind_result (index_pairs s i ys) (\<lambda>vs. Inr (us @ vs)))"
  by (simp add: index_pairs_def mapM_append)

lemma keys_distinct_prefix: "keys_distinct s c (xs @ ys) \<Longrightarrow> keys_distinct s c xs"
  by (auto simp: keys_distinct_def index_pairs_append)

lemma index_holds_find:
  assumes "index_holds s rows (c, t)" "FindColumnIndex s c = Some i" "index_pairs s i rows = Inr kvs"
  shows "Find t k = Inr (case map_of kvs k of None \<Rightarrow> [] | Some r \<Rightarrow> [r])"
  using assms bstar.represents_find by (auto simp: index_holds_def)

lemma index_holds_insert:
  assumes "index_holds s rows (c, t)" "FindColumnIndex s c = Some i" "row_key s i row = Inr k" "Find t k = Inr []"
  shows "\<exists>t'. Insert t k (row_id row) = Inr t' \<and> index_holds s (rows @ [row]) (c, t')"
proof -
  from assms(1,2) obtain kvs where kvs: "index_pairs s i rows = Inr kvs" "bstar.represents t kvs"
    by (auto simp: index_holds_def)
  have "map_of kvs k = None"
    using bstar.represents_find [OF kvs(2), of k] assms(4) by (auto split: option.splits)
  then have "k \<notin> fst ` set kvs" by (simp add: map_of_eq_None_iff)
  from bstar.represents_ins [OF kvs(2) this, of "row_id row"] obtain t' where
    "Insert t k (row_id row) = Inr t'" "bstar.represents t' (kvs @ [(k, row_id row)])" by blast
  moreover have "index_pairs s i (rows @ [row]) = Inr (kvs @ [(k, row_id row)])"
    using kvs(1) assms(3) by (simp add: index_pairs_append) (simp add: index_pairs_def)
  ultimately show ?thesis using assms(2) by (auto simp: index_holds_def)
qed

text \<open>The next row of a table whose keys are distinct goes into the index.\<close>

lemma index_holds_next:
  assumes "index_holds s rows (c, t)" "keys_distinct s c (rows @ [row])"
  obtains i v k t' where "FindColumnIndex s c = Some i" "row_value row i = Inr v" "\<not> IsNull v"
    "EncodeIndexKey v (col_type (columns s ! i)) = Inr k" "Find t k = Inr []"
    "Insert t k (row_id row) = Inr t'" "index_holds s (rows @ [row]) (c, t')"
proof -
  from assms(2) obtain i kvs' where i: "FindColumnIndex s c = Some i"
    and p: "index_pairs s i (rows @ [row]) = Inr kvs'" and d: "distinct (map fst kvs')"
    by (auto simp: keys_distinct_def)
  from p obtain kvs us where kvs: "index_pairs s i rows = Inr kvs" "index_pairs s i [row] = Inr us" "kvs' = kvs @ us"
    by (auto simp: index_pairs_append)
  from kvs(2) obtain k where k: "row_key s i row = Inr k" "us = [(k, row_id row)]"
    by (auto simp: index_pairs_def)
  then obtain v where v: "row_value row i = Inr v" "\<not> IsNull v" "EncodeIndexKey v (col_type (columns s ! i)) = Inr k"
    by (auto simp: row_key_def split: if_splits)
  have "map_of kvs k = None" using d k kvs(3) by (simp add: map_of_eq_None_iff)
  then have f: "Find t k = Inr []" using index_holds_find [OF assms(1) i kvs(1)] by simp
  from index_holds_insert [OF assms(1) i k(1) f] show ?thesis using that i v f by blast
qed

section \<open>Loops over rows and indexes\<close>

lemma mapM_trees:
  assumes "\<And>c t. (c, t) \<in> set trees \<Longrightarrow> \<exists>t'. f (c, t) = Inr (c, t') \<and> Q (c, t')"
  shows "\<exists>trees'. mapM f trees = Inr trees' \<and> map fst trees' = map fst trees \<and> (\<forall>e \<in> set trees'. Q e)"
  using assms
proof (induction trees)
  case (Cons e trees)
  obtain c t where e: "e = (c, t)" by (cases e)
  from Cons.prems [of c t] e obtain t' where "f (c, t) = Inr (c, t')" "Q (c, t')" by auto
  with Cons e show ?case by auto
qed simp

lemma map_until_trees:
  assumes "\<And>c t. (c, t) \<in> set trees \<Longrightarrow> \<exists>t'. f (c, t) = ((c, t'), Inr ()) \<and> Q (c, t')"
  shows "\<exists>trees'. map_until f trees = (trees', Inr ()) \<and> map fst trees' = map fst trees \<and> (\<forall>e \<in> set trees'. Q e)"
  using assms
proof (induction trees)
  case (Cons e trees)
  obtain c t where e: "e = (c, t)" by (cases e)
  from Cons.prems [of c t] e obtain t' where "f (c, t) = ((c, t'), Inr ())" "Q (c, t')" by auto
  with Cons e show ?case by auto
qed simp

text \<open>Every index of a table gets every row, when the keys of the rows are distinct.\<close>

lemma foldM_trees:
  assumes "\<And>row c t pre. keys_distinct s c (pre @ [row]) \<Longrightarrow> index_holds s pre (c, t) \<Longrightarrow>
      \<exists>t'. f row (c, t) = Inr (c, t') \<and> index_holds s (pre @ [row]) (c, t')"
    and "\<forall>c \<in> fst ` set trees. keys_distinct s c (pre @ rows)" "\<forall>e \<in> set trees. index_holds s pre e"
  shows "\<exists>trees'. foldM (\<lambda>ts row. mapM (f row) ts) rows trees = Inr trees' \<and>
    map fst trees' = map fst trees \<and> (\<forall>e \<in> set trees'. index_holds s (pre @ rows) e)"
  using assms(2,3)
proof (induction rows arbitrary: pre trees)
  case (Cons row rows)
  have "\<exists>trees1. mapM (f row) trees = Inr trees1 \<and> map fst trees1 = map fst trees \<and>
      (\<forall>e \<in> set trees1. index_holds s (pre @ [row]) e)"
    using Cons.prems keys_distinct_prefix [of s _ "pre @ [row]" rows]
    by (intro mapM_trees assms(1)) force+
  then obtain trees1 where t1: "mapM (f row) trees = Inr trees1" "map fst trees1 = map fst trees"
    "\<forall>e \<in> set trees1. index_holds s (pre @ [row]) e" by blast
  then have "fst ` set trees1 = fst ` set trees" by (metis set_map)
  with Cons.IH [of trees1 "pre @ [row]"] Cons.prems t1 show ?case by auto
qed auto

lemma iterate_until_trees:
  assumes "\<And>row c t pre. keys_distinct s c (pre @ [row]) \<Longrightarrow> index_holds s pre (c, t) \<Longrightarrow>
      \<exists>t'. f row (c, t) = ((c, t'), Inr ()) \<and> index_holds s (pre @ [row]) (c, t')"
    and "\<forall>c \<in> fst ` set trees. keys_distinct s c (pre @ rows)" "\<forall>e \<in> set trees. index_holds s pre e"
  shows "\<exists>trees'. iterate_until (\<lambda>ts row. map_until (f row) ts) rows trees = (trees', Inr ()) \<and>
    map fst trees' = map fst trees \<and> (\<forall>e \<in> set trees'. index_holds s (pre @ rows) e)"
  using assms(2,3)
proof (induction rows arbitrary: pre trees)
  case (Cons row rows)
  have "\<exists>trees1. map_until (f row) trees = (trees1, Inr ()) \<and> map fst trees1 = map fst trees \<and>
      (\<forall>e \<in> set trees1. index_holds s (pre @ [row]) e)"
    using Cons.prems keys_distinct_prefix [of s _ "pre @ [row]" rows]
    by (intro map_until_trees assms(1)) force+
  then obtain trees1 where t1: "map_until (f row) trees = (trees1, Inr ())" "map fst trees1 = map fst trees"
    "\<forall>e \<in> set trees1. index_holds s (pre @ [row]) e" by blast
  then have "fst ` set trees1 = fst ` set trees" by (metis set_map)
  with Cons.IH [of trees1 "pre @ [row]"] Cons.prems t1 show ?case by auto
qed auto

section \<open>The copy of a table\<close>

lemma clone_entry_eq:
  "clone_entry s row (c, t) =
     (case FindColumnIndex s c of
        None \<Rightarrow> Inr (c, t)
      | Some i \<Rightarrow>
          bind_result (row_value row i) (\<lambda>v.
            bind_result (EncodeIndexKey v (col_type (columns s ! i))) (\<lambda>k.
              bind_result (Insert t k (row_id row)) (\<lambda>t'. Inr (c, t')))))"
  unfolding clone_entry_def runtime_EncodeIndexKey_eq [symmetric] runtime_EncodeIndexKey_def FindColumnIndex_def
  by (simp split: option.splits)

lemma clone_entry_holds:
  assumes "keys_distinct s c (pre @ [row])" "index_holds s pre (c, t)"
  shows "\<exists>t'. clone_entry s row (c, t) = Inr (c, t') \<and> index_holds s (pre @ [row]) (c, t')"
proof -
  from index_holds_next [OF assms(2,1)] obtain i v k t' where
    "FindColumnIndex s c = Some i" "row_value row i = Inr v" "EncodeIndexKey v (col_type (columns s ! i)) = Inr k"
    "Insert t k (row_id row) = Inr t'" and h: "index_holds s (pre @ [row]) (c, t')" by metis
  then have "clone_entry s row (c, t) = Inr (c, t')" by (simp add: clone_entry_eq)
  with h show ?thesis by blast
qed

text \<open>Re-inserting rows with valid ids keeps them as they are.\<close>

lemma HeapInsert_valid:
  assumes "rows_below (next_row_id h) (heap_rows h)" "row_id row \<noteq> kInvalidRowId"
    "row_id row \<notin> row_id ` set (heap_rows h)"
  shows "heap_rows (snd (HeapInsert row h)) = heap_rows h @ [row]" "heap_inv (snd (HeapInsert row h))"
proof -
  show "heap_rows (snd (HeapInsert row h)) = heap_rows h @ [row]"
    using assms(2) by (simp add: HeapInsert_def)
  have "\<forall>x \<in> set (heap_rows h). row_id x < next_row_id h" using assms(1) by (simp add: rows_below_def)
  then show "heap_inv (snd (HeapInsert row h))"
    using assms by (auto simp: HeapInsert_def heap_inv_def rows_below_def less_next)
qed

lemma foldl_HeapInsert:
  assumes "distinct (map row_id (heap_rows h @ rows))" "\<forall>row \<in> set rows. row_id row \<noteq> kInvalidRowId" "heap_inv h"
  shows "heap_inv (foldl (\<lambda>h row. snd (HeapInsert row h)) h rows) \<and>
    heap_rows (foldl (\<lambda>h row. snd (HeapInsert row h)) h rows) = heap_rows h @ rows"
  using assms
proof (induction rows arbitrary: h)
  case (Cons row rows)
  have "row_id row \<notin> row_id ` set (heap_rows h)" using Cons.prems(1) by auto
  from HeapInsert_valid [OF _ _ this] Cons.prems have
    "heap_rows (snd (HeapInsert row h)) = heap_rows h @ [row]" "heap_inv (snd (HeapInsert row h))"
    by (simp_all add: heap_inv_def)
  with Cons.IH [of "snd (HeapInsert row h)"] Cons.prems show ?case by simp
qed simp

lemma table_inv_keys:
  assumes "table_inv t" "c \<in> set (index_columns (schema t))"
  shows "keys_distinct (schema t) c (heap_rows (heap t))"
proof -
  from assms have "c \<in> fst ` set (indexes t)" by (metis set_map table_inv_def)
  with assms(1) index_holds_keys show ?thesis by (auto simp: table_inv_def)
qed

lemma table_inv_new_indexes:
  assumes "table_inv t" "entry \<in> set (new_indexes (schema t))"
  shows "index_holds (schema t) [] entry"
proof -
  have "fst entry \<in> set (index_columns (schema t))" using assms(2) by (simp add: index_columns_def)
  then obtain i where "FindColumnIndex (schema t) (fst entry) = Some i"
    using table_inv_keys [OF assms(1)] by (auto simp: keys_distinct_def)
  with assms(2) show ?thesis by (rule index_holds_new)
qed

lemma CloneTableRuntime_correct:
  assumes "table_inv t"
  shows "\<exists>t'. CloneTableRuntime t = Inr t' \<and> table_inv t' \<and> schema t' = schema t \<and>
    heap_rows (heap t') = heap_rows (heap t)"
proof -
  let ?s = "schema t" and ?rows = "heap_rows (heap t)"
  let ?h = "foldl (\<lambda>h row. snd (HeapInsert row h)) (make_heap ?s) ?rows"
  have h: "heap_inv ?h" "heap_rows ?h = ?rows"
    using foldl_HeapInsert [of "make_heap ?s" ?rows] assms heap.scan_distinct heap.scan_valid heap_inv_make
    by (auto simp: table_inv_def make_heap_def ScanAll_def)
  have "\<exists>trees'. foldM (\<lambda>ts row. mapM (clone_entry ?s row) ts) ?rows (new_indexes ?s) = Inr trees' \<and>
      map fst trees' = map fst (new_indexes ?s) \<and> (\<forall>e \<in> set trees'. index_holds ?s ([] @ ?rows) e)"
    using assms table_inv_keys table_inv_new_indexes
    by (intro foldM_trees clone_entry_holds) (auto simp: index_columns_def)
  then obtain trees' where "foldM (\<lambda>ts row. mapM (clone_entry ?s row) ts) ?rows (new_indexes ?s) = Inr trees'"
    "map fst trees' = index_columns ?s" "\<forall>e \<in> set trees'. index_holds ?s ?rows e"
    by (auto simp: index_columns_def)
  with h assms show ?thesis
    by (auto simp: CloneTableRuntime_def ScanAll_def Let_def table_inv_def)
qed

section \<open>The consistency check\<close>

lemma check_rows_pass:
  assumes "index_holds s (pre @ rows) (c, t)" "FindColumnIndex s c = Some i" "index_pairs s i pre = Inr kvs"
  shows "\<exists>seen. foldM (check_row place s i t) rows (map fst kvs) = Inr seen"
  using assms
proof (induction rows arbitrary: pre kvs)
  case (Cons row rows)
  from Cons.prems obtain all where all: "index_pairs s i (pre @ row # rows) = Inr all" "bstar.represents t all"
    by (auto simp: index_holds_def)
  from all(1) Cons.prems(3) obtain k post where k: "row_key s i row = Inr k" "all = kvs @ (k, row_id row) # post"
    by (auto simp: index_pairs_append) (auto simp: index_pairs_def)
  have d: "distinct (map fst all)" using all(2) by (simp add: bstar.represents_def)
  then have "map_of all k = Some (row_id row)" using k(2) by (intro map_of_is_SomeI) auto
  then have "Find t k = Inr [row_id row]"
    using bstar.represents_find [OF all(2), of k] by simp
  moreover have "k \<notin> set (map fst kvs)" using d k(2) by auto
  ultimately have "check_row place s i t (map fst kvs) row = Inr (map fst kvs @ [k])"
    using k(1) by (auto simp: check_row_def row_key_def split: if_splits)
  moreover have "index_pairs s i (pre @ [row]) = Inr (kvs @ [(k, row_id row)])"
    using Cons.prems(3) k(1) by (simp add: index_pairs_append) (simp add: index_pairs_def)
  ultimately show ?case
    using Cons.IH [of "pre @ [row]" "kvs @ [(k, row_id row)]"] Cons.prems(1,2) by simp
qed simp

lemma foldM_units: "(\<And>x. x \<in> set xs \<Longrightarrow> f x = Inr ()) \<Longrightarrow> foldM (\<lambda>_. f) xs () = Inr ()"
  by (induction xs) auto

lemma check_table_pass:
  assumes "table_inv t"
  shows "check_table d (n, t) = Inr ()"
  unfolding check_table_def prod.case
proof (rule foldM_units)
  fix entry assume e: "entry \<in> set (indexes t)"
  obtain c tree where ct: "entry = (c, tree)" by (cases entry)
  from assms e ct have h: "index_holds (schema t) ([] @ heap_rows (heap t)) (c, tree)" by (auto simp: table_inv_def)
  then obtain i where i: "FindColumnIndex (schema t) c = Some i" by (auto simp: index_holds_def)
  from h have "ValidateCanonicalInvariants tree" by (auto simp: index_holds_def intro: bstar.represents_check)
  moreover have "\<exists>seen. foldM (check_row place (schema t) i tree) (heap_rows (heap t)) [] = Inr seen" for place
    using check_rows_pass [OF h i, of "[]" place] by (simp add: index_pairs_def)
  ultimately show "check_index (d @ ''.'' @ n) (schema t) (ScanAll (heap t)) entry = Inr ()"
    using i by (auto simp: check_index_def ct Let_def ScanAll_def dest: spec)
qed

lemma ValidateRuntimeIndexConsistency_pass:
  assumes "state_inv st"
  shows "ValidateRuntimeIndexConsistency st = MakeSuccess True"
proof -
  have "foldM (\<lambda>_. check_table n) (tables db) () = Inr ()" if "(n, db) \<in> set (databases st)" for n db
    using assms that by (intro foldM_units) (auto simp: state_inv_def intro!: check_table_pass)
  then have "foldM (\<lambda>_ (n, db). foldM (\<lambda>_. check_table n) (tables db) ()) (databases st) () = Inr ()"
    by (intro foldM_units) auto
  then show ?thesis by (simp add: ValidateRuntimeIndexConsistency_def)
qed

section \<open>The rebuild\<close>

lemma rebuild_runtime_entry_holds:
  assumes "keys_distinct s c (pre @ [row])" "index_holds s pre (c, t)"
  shows "\<exists>t'. rebuild_runtime_entry place s row (c, t) = ((c, t'), Inr ()) \<and> index_holds s (pre @ [row]) (c, t')"
proof -
  from index_holds_next [OF assms(2,1)] obtain i v k t' where
    "FindColumnIndex s c = Some i" "row_value row i = Inr v" "EncodeIndexKey v (col_type (columns s ! i)) = Inr k"
    "Insert t k (row_id row) = Inr t'" and h: "index_holds s (pre @ [row]) (c, t')" by metis
  then have "rebuild_runtime_entry place s row (c, t) = ((c, t'), Inr ())" by (simp add: rebuild_runtime_entry_def)
  with h show ?thesis by blast
qed

lemma rebuild_runtime_table_correct:
  assumes "table_inv t"
  shows "\<exists>t'. rebuild_runtime_table d (n, t) = ((n, t'), Inr ()) \<and> table_inv t' \<and> schema t' = schema t \<and> heap t' = heap t"
proof -
  let ?s = "schema t" and ?rows = "heap_rows (heap t)" and ?p = "d @ ''.'' @ n"
  have "\<exists>trees'. iterate_until (\<lambda>ts row. map_until (rebuild_runtime_entry ?p ?s row) ts) ?rows (new_indexes ?s)
        = (trees', Inr ()) \<and>
      map fst trees' = map fst (new_indexes ?s) \<and> (\<forall>e \<in> set trees'. index_holds ?s ([] @ ?rows) e)"
    using assms table_inv_keys table_inv_new_indexes
    by (intro iterate_until_trees rebuild_runtime_entry_holds) (auto simp: index_columns_def)
  with assms show ?thesis
    by (auto simp: rebuild_runtime_table_def ScanAll_def table_inv_def index_columns_def)
qed

section \<open>The whole state\<close>

text \<open>Two states with the same databases, tables and rows; the indexes may be other trees.\<close>

definition same_table :: "string \<times> TableRuntime \<Rightarrow> string \<times> TableRuntime \<Rightarrow> bool" where
  "same_table x y \<longleftrightarrow> fst y = fst x \<and> schema (snd y) = schema (snd x) \<and>
     heap_rows (heap (snd y)) = heap_rows (heap (snd x))"

definition same_database :: "string \<times> DatabaseRuntime \<Rightarrow> string \<times> DatabaseRuntime \<Rightarrow> bool" where
  "same_database x y \<longleftrightarrow> fst y = fst x \<and> db_name (snd y) = db_name (snd x) \<and>
     list_all2 same_table (tables (snd x)) (tables (snd y))"

definition same_contents :: "RuntimeState \<Rightarrow> RuntimeState \<Rightarrow> bool" where
  "same_contents st st' \<longleftrightarrow> list_all2 same_database (databases st) (databases st')"

lemma list_all2_names: "list_all2 R xs ys \<Longrightarrow> (\<And>x y. R x y \<Longrightarrow> fst y = fst x) \<Longrightarrow> map fst ys = map fst xs"
  by (induction rule: list_all2_induct) auto

lemma mapM_list_all2:
  assumes "\<And>x. x \<in> set xs \<Longrightarrow> \<exists>y. f x = Inr y \<and> R x y"
  shows "\<exists>ys. mapM f xs = Inr ys \<and> list_all2 R xs ys"
  using assms
proof (induction xs)
  case (Cons x xs)
  from Cons.prems [of x] obtain y where "f x = Inr y" "R x y" by auto
  with Cons show ?case by auto
qed simp

lemma map_until_list_all2:
  assumes "\<And>x. x \<in> set xs \<Longrightarrow> \<exists>y. f x = (y, Inr ()) \<and> R x y"
  shows "\<exists>ys. map_until f xs = (ys, Inr ()) \<and> list_all2 R xs ys"
  using assms
proof (induction xs)
  case (Cons x xs)
  from Cons.prems [of x] obtain y where "f x = (y, Inr ())" "R x y" by auto
  with Cons show ?case by auto
qed simp

definition database_inv :: "DatabaseRuntime \<Rightarrow> bool" where
  "database_inv db \<longleftrightarrow> umap_wf (tables db) \<and> (\<forall>(m, t) \<in> set (tables db). table_inv t)"

lemma state_inv_alt:
  "state_inv st \<longleftrightarrow> umap_wf (databases st) \<and> (\<forall>x \<in> set (databases st). database_inv (snd x))"
  by (simp add: state_inv_def database_inv_def split_def)

lemma list_all2_right: "list_all2 (\<lambda>x y. R x y \<and> P (snd y)) xs ys \<Longrightarrow> \<forall>y \<in> set ys. P (snd y)"
  by (induction rule: list_all2_induct) auto

lemma database_inv_similar:
  assumes "database_inv db" "list_all2 (\<lambda>x y. same_table x y \<and> table_inv (snd y)) (tables db) ts"
  shows "database_inv (db\<lparr>tables := ts\<rparr>)"
proof -
  have "map fst ts = map fst (tables db)" using assms(2) by (rule list_all2_names) (simp add: same_table_def)
  moreover have "\<forall>y \<in> set ts. table_inv (snd y)"
    using assms(2) by (rule list_all2_right)
  ultimately show ?thesis using assms(1) by (simp add: database_inv_def umap_wf_def split_def)
qed

lemma state_inv_similar:
  assumes "state_inv st" "list_all2 (\<lambda>x y. same_database x y \<and> database_inv (snd y)) (databases st) dbs"
  shows "state_inv (st\<lparr>databases := dbs\<rparr>)" "same_contents st (st\<lparr>databases := dbs\<rparr>)"
proof -
  have "map fst dbs = map fst (databases st)" using assms(2) by (rule list_all2_names) (simp add: same_database_def)
  moreover have "\<forall>y \<in> set dbs. database_inv (snd y)"
    using assms(2) by (rule list_all2_right)
  ultimately show "state_inv (st\<lparr>databases := dbs\<rparr>)" using assms(1) by (simp add: state_inv_alt umap_wf_def)
  show "same_contents st (st\<lparr>databases := dbs\<rparr>)"
    using assms(2) by (auto simp: same_contents_def elim: list_all2_mono)
qed

lemma CloneDatabaseRuntime_correct:
  assumes "database_inv db"
  shows "\<exists>db'. CloneDatabaseRuntime db = Inr db' \<and> same_database (n, db) (n, db') \<and> database_inv db'"
proof -
  have "\<exists>ts. mapM (\<lambda>(name, t). bind_result (CloneTableRuntime t) (\<lambda>t'. Inr (name, t'))) (tables db) = Inr ts \<and>
      list_all2 (\<lambda>x y. same_table x y \<and> table_inv (snd y)) (tables db) ts"
  proof (rule mapM_list_all2)
    fix x assume x: "x \<in> set (tables db)"
    obtain m t where mt: "x = (m, t)" by (cases x)
    with assms x have "table_inv t" by (auto simp: database_inv_def)
    from CloneTableRuntime_correct [OF this] mt
    show "\<exists>y. (case x of (name, t) \<Rightarrow> bind_result (CloneTableRuntime t) (\<lambda>t'. Inr (name, t'))) = Inr y \<and>
        same_table x y \<and> table_inv (snd y)"
      by (auto simp: same_table_def)
  qed
  then obtain ts where "CloneDatabaseRuntime db = Inr (db\<lparr>tables := ts\<rparr>)"
    "list_all2 (\<lambda>x y. same_table x y \<and> table_inv (snd y)) (tables db) ts"
    by (cases db) (auto simp: CloneDatabaseRuntime_def)
  with database_inv_similar [OF assms] show ?thesis
    by (auto simp: same_database_def elim: list_all2_mono)
qed

lemma CloneRuntimeState_correct:
  assumes "state_inv st"
  shows "\<exists>st'. CloneRuntimeState st = Inr st' \<and> state_inv st' \<and> same_contents st st'"
proof -
  have "\<exists>dbs. mapM (\<lambda>(name, db). bind_result (CloneDatabaseRuntime db) (\<lambda>db'. Inr (name, db'))) (databases st)
        = Inr dbs \<and> list_all2 (\<lambda>x y. same_database x y \<and> database_inv (snd y)) (databases st) dbs"
  proof (rule mapM_list_all2)
    fix x assume x: "x \<in> set (databases st)"
    obtain n db where nd: "x = (n, db)" by (cases x)
    with assms x have "database_inv db" by (auto simp: state_inv_alt)
    from CloneDatabaseRuntime_correct [OF this, of n] nd
    show "\<exists>y. (case x of (name, db) \<Rightarrow> bind_result (CloneDatabaseRuntime db) (\<lambda>db'. Inr (name, db'))) = Inr y \<and>
        same_database x y \<and> database_inv (snd y)" by auto
  qed
  then obtain dbs where "CloneRuntimeState st = Inr (st\<lparr>databases := dbs\<rparr>)"
    "list_all2 (\<lambda>x y. same_database x y \<and> database_inv (snd y)) (databases st) dbs"
    by (cases st) (auto simp: CloneRuntimeState_def)
  with state_inv_similar [OF assms] show ?thesis by auto
qed

lemma rebuild_runtime_database_correct:
  assumes "database_inv db"
  shows "\<exists>y. rebuild_runtime_database (n, db) = (y, Inr ()) \<and> same_database (n, db) y \<and> database_inv (snd y)"
proof -
  have "\<exists>ts. map_until (rebuild_runtime_table n) (tables db) = (ts, Inr ()) \<and>
      list_all2 (\<lambda>x y. same_table x y \<and> table_inv (snd y)) (tables db) ts"
  proof (rule map_until_list_all2)
    fix x assume x: "x \<in> set (tables db)"
    obtain m t where mt: "x = (m, t)" by (cases x)
    with assms x have "table_inv t" by (auto simp: database_inv_def)
    from rebuild_runtime_table_correct [OF this, of n m] mt
    show "\<exists>y. rebuild_runtime_table n x = (y, Inr ()) \<and> same_table x y \<and> table_inv (snd y)"
      by (auto simp: same_table_def)
  qed
  then obtain ts where "rebuild_runtime_database (n, db) = ((n, db\<lparr>tables := ts\<rparr>), Inr ())"
    "list_all2 (\<lambda>x y. same_table x y \<and> table_inv (snd y)) (tables db) ts"
    by (auto simp: rebuild_runtime_database_def)
  with database_inv_similar [OF assms] show ?thesis
    by (auto simp: same_database_def elim: list_all2_mono)
qed

lemma RebuildRuntimeIndexes_correct:
  assumes "state_inv st"
  shows "\<exists>st'. RebuildRuntimeIndexes st = (st', MakeSuccess True) \<and> state_inv st' \<and> same_contents st st'"
proof -
  have "\<exists>dbs. map_until rebuild_runtime_database (databases st) = (dbs, Inr ()) \<and>
      list_all2 (\<lambda>x y. same_database x y \<and> database_inv (snd y)) (databases st) dbs"
  proof (rule map_until_list_all2)
    fix x assume x: "x \<in> set (databases st)"
    obtain n db where nd: "x = (n, db)" by (cases x)
    with assms x have "database_inv db" by (auto simp: state_inv_alt)
    from rebuild_runtime_database_correct [OF this, of n] nd
    show "\<exists>y. rebuild_runtime_database x = (y, Inr ()) \<and> same_database x y \<and> database_inv (snd y)" by simp
  qed
  then obtain dbs where d: "map_until rebuild_runtime_database (databases st) = (dbs, Inr ())"
    "list_all2 (\<lambda>x y. same_database x y \<and> database_inv (snd y)) (databases st) dbs" by blast
  note i = state_inv_similar [OF assms d(2)]
  with ValidateRuntimeIndexConsistency_pass [OF i(1)] d(1) show ?thesis
    by (simp add: RebuildRuntimeIndexes_def Let_def)
qed

end
