(* ===== verification/Ast.thy ===== *)
theory Ast
  imports Types
begin

text \<open>
  The abstract syntax of SQL (\<^verbatim>\<open>src/parser/ast.hpp\<close>): one constructor per alternative of the
  variants, one record per structure. The owned child expressions (\<^verbatim>\<open>unique_ptr\<close>) are subterms.
\<close>

datatype AggregateKind = kSum | kCount | kAvg

datatype ComparisonOperator = kEqual | kNotEqual | kLess | kGreater | kLessEqual | kGreaterEqual

datatype LogicalOperator = kAnd | kOr

datatype Expression =
    LiteralExpression Value
  | ColumnReferenceExpression "string option" "string option" string
  | BinaryComparisonExpression ComparisonOperator Expression Expression
  | LogicalExpression LogicalOperator Expression Expression
  | BetweenExpression Expression Expression Expression
  | LikeExpression Expression Expression
  | AggregateCallExpression AggregateKind string

record QualifiedName =
  database_name :: "string option"
  object_name :: string

record AstColumn =
  ast_name :: string
  ast_type :: ValueType
  ast_not_null :: bool
  ast_indexed :: bool
  ast_default :: "Value option"

record SelectItem =
  is_wildcard :: bool
  item_column :: string
  item_alias :: "string option"
  item_aggregate :: "AggregateKind option"

type_synonym Assignment = "string \<times> Expression"

record InsertStatement =
  insert_table :: QualifiedName
  insert_columns :: "string list"
  insert_rows :: "Expression list list"

record UpdateStatement =
  update_table :: QualifiedName
  assignments :: "Assignment list"
  update_where :: "Expression option"

record DeleteStatement =
  delete_table :: QualifiedName
  delete_where :: "Expression option"

record SelectStatement =
  select_table :: QualifiedName
  select_items :: "SelectItem list"
  select_where :: "Expression option"

datatype RevertMode = kAtOrBefore | kExact | kLatest

record RevertStatement =
  revert_table :: QualifiedName
  revert_timestamp :: string
  revert_mode :: RevertMode

datatype Statement =
    UnknownStatement string
  | CreateDatabaseStatement string
  | DropDatabaseStatement string
  | UseDatabaseStatement string
  | CreateTableStatement QualifiedName "AstColumn list"
  | DropTableStatement QualifiedName
  | InsertStmt InsertStatement
  | UpdateStmt UpdateStatement
  | DeleteStmt DeleteStatement
  | SelectStmt SelectStatement
  | RevertStmt RevertStatement
  | BeginTransactionStatement
  | CommitTransactionStatement
  | RollbackTransactionStatement
  | CheckIndexStatement
  | RebuildIndexStatement

end
