(* ===== verification/Expressions.thy ===== *)
theory Expressions
  imports Runtime_State Ast
begin

text \<open>
  Evaluation of expressions and the selection of rows
  (\<^verbatim>\<open>src/execution/execution_engine.cpp\<close>, from \<^verbatim>\<open>EvaluatePredicate\<close> to \<^verbatim>\<open>FilterRows\<close>). The regular
  expressions of \<^verbatim>\<open>LIKE\<close> are a language of their own (\<^verbatim>\<open>std::regex\<close>): the matcher is an argument
  \<open>rx\<close>, where \<open>rx pattern text\<close> is \<open>None\<close> when the pattern is not a regular expression
  (\<^verbatim>\<open>std::regex_error\<close>) and otherwise tells whether the whole text matches. Every theorem holds for
  every matcher.
\<close>

type_synonym regex = "string \<Rightarrow> string \<Rightarrow> bool option"

section \<open>Values and predicates\<close>

fun EvaluateValueExpression :: "Expression \<Rightarrow> TableSchema \<Rightarrow> RowData \<Rightarrow> Value Result" where
  "EvaluateValueExpression (LiteralExpression v) s row = MakeSuccess v"
| "EvaluateValueExpression (ColumnReferenceExpression d t column_name) s row =
     (case FindColumnIndex s column_name of
        None \<Rightarrow> MakeError kSemanticError (''unknown column: '' @ column_name)
      | Some i \<Rightarrow> row_value row i)"
| "EvaluateValueExpression e s row =
     MakeError kNotImplemented ''expression is not a scalar value expression''"

fun compared_holds :: "ComparisonOperator \<Rightarrow> int \<Rightarrow> bool" where
  "compared_holds kEqual c = (c = 0)"
| "compared_holds kNotEqual c = (c \<noteq> 0)"
| "compared_holds kLess c = (c < 0)"
| "compared_holds kGreater c = (c > 0)"
| "compared_holds kLessEqual c = (c \<le> 0)"
| "compared_holds kGreaterEqual c = (c \<ge> 0)"

text \<open>
  Operands that are evaluated before any of them is checked: an exception of one of them leaves the
  function, an error of one of them becomes the given error.
\<close>

fun all_ok :: "string \<Rightarrow> Value Result list \<Rightarrow> unit Result" where
  "all_ok m [] = Inr ()"
| "all_ok m (Inr v # rs) = all_ok m rs"
| "all_ok m (Inl (Thrown e) # rs) = Inl (Thrown e)"
| "all_ok m (Inl (Err e) # rs) =
     (case all_ok m rs of Inl (Thrown x) \<Rightarrow> Inl (Thrown x) | _ \<Rightarrow> MakeError kTypeMismatch m)"

definition evaluate_between :: "Value Result \<Rightarrow> Value Result \<Rightarrow> Value Result \<Rightarrow> bool Result" where
  "evaluate_between value lower upper =
     bind_result (all_ok ''BETWEEN evaluation failed'' [value, lower, upper]) (\<lambda>_.
       bind_result value (\<lambda>v. bind_result lower (\<lambda>l. bind_result upper (\<lambda>u.
         if GetValueType v \<noteq> GetValueType l \<or> GetValueType v \<noteq> GetValueType u
         then MakeError kTypeMismatch ''BETWEEN type mismatch''
         else bind_result (CompareValues v l) (\<lambda>c1.
                bind_result (CompareValues v u) (\<lambda>c2. MakeSuccess (c1 \<ge> 0 \<and> c2 < 0)))))))"

definition evaluate_like :: "regex \<Rightarrow> Value Result \<Rightarrow> Value Result \<Rightarrow> bool Result" where
  "evaluate_like rx value pattern =
     bind_result (all_ok ''LIKE evaluation failed'' [value, pattern]) (\<lambda>_.
       bind_result value (\<lambda>v. bind_result pattern (\<lambda>p.
         if GetValueType v \<noteq> kString \<or> GetValueType p \<noteq> kString
         then MakeError kTypeMismatch ''LIKE accepts only string operands''
         else bind_result (AsString p) (\<lambda>re. bind_result (AsString v) (\<lambda>txt.
                (case rx re txt of None \<Rightarrow> Inl (Thrown RegexError) | Some b \<Rightarrow> MakeSuccess b))))))"

definition truthy :: "Value \<Rightarrow> bool Result" where
  "truthy v =
     (if IsNull v then MakeSuccess False
      else case v of
          Int64 w \<Rightarrow> MakeSuccess (w \<noteq> 0)
        | _ \<Rightarrow> bind_result (AsString v) (\<lambda>s. MakeSuccess (s \<noteq> [])))"

fun EvaluatePredicate :: "regex \<Rightarrow> Expression \<Rightarrow> TableSchema \<Rightarrow> RowData \<Rightarrow> bool Result" where
  "EvaluatePredicate rx (LogicalExpression op left right) s row =
     bind_result (EvaluatePredicate rx left s row) (\<lambda>l.
       bind_result (EvaluatePredicate rx right s row) (\<lambda>r.
         MakeSuccess (if op = kAnd then l \<and> r else l \<or> r)))"
| "EvaluatePredicate rx (BinaryComparisonExpression op left right) s row =
     bind_result (EvaluateValueExpression left s row) (\<lambda>l.
       bind_result (EvaluateValueExpression right s row) (\<lambda>r.
         if GetValueType l \<noteq> GetValueType r
         then MakeError kTypeMismatch ''comparison type mismatch''
         else bind_result (CompareValues l r) (\<lambda>c. MakeSuccess (compared_holds op c))))"
| "EvaluatePredicate rx (BetweenExpression value lower upper) s row =
     evaluate_between (EvaluateValueExpression value s row) (EvaluateValueExpression lower s row)
       (EvaluateValueExpression upper s row)"
| "EvaluatePredicate rx (LikeExpression value pattern) s row =
     evaluate_like rx (EvaluateValueExpression value s row) (EvaluateValueExpression pattern s row)"
| "EvaluatePredicate rx e s row = bind_result (EvaluateValueExpression e s row) truthy"

text \<open>An absent \<^verbatim>\<open>WHERE\<close> clause accepts every row.\<close>

definition passes :: "regex \<Rightarrow> Expression option \<Rightarrow> TableSchema \<Rightarrow> RowData \<Rightarrow> bool Result" where
  "passes rx clause s row =
     (case clause of None \<Rightarrow> Inr True | Some e \<Rightarrow> EvaluatePredicate rx e s row)"

section \<open>Selection of rows\<close>

definition row_lookup :: "RowData list \<Rightarrow> RowId \<Rightarrow> RowData option" where
  "row_lookup rows = map_of (map (\<lambda>row. (row_id row, row)) rows)"

text \<open>The rows of the candidate ids, in the order of the candidates; an unknown id is skipped.\<close>

definition append_candidates ::
  "regex \<Rightarrow> Expression option \<Rightarrow> TableSchema \<Rightarrow> RowData list \<Rightarrow> row_ids \<Rightarrow> RowData list Result" where
  "append_candidates rx clause s rows ids =
     filterM (passes rx clause s) (List.map_filter (row_lookup rows) ids)"

definition scan_ids :: "BStarPlusTree \<Rightarrow> string \<Rightarrow> string \<Rightarrow> row_ids Result" where
  "scan_ids tree lower upper =
     bind_result (RangeScan tree lower upper) (\<lambda>entries. Inr (concat (map snd entries)))"

fun candidate_row_ids :: "ComparisonOperator \<Rightarrow> BStarPlusTree \<Rightarrow> string \<Rightarrow> row_ids Result" where
  "candidate_row_ids kEqual tree encoded = Find tree encoded"
| "candidate_row_ids kLess tree encoded = scan_ids tree [] (encoded @ [CHR 0xFF])"
| "candidate_row_ids kLessEqual tree encoded = scan_ids tree [] (encoded @ [CHR 0xFF])"
| "candidate_row_ids kGreater tree encoded = scan_ids tree encoded [CHR 0xFF, CHR 0xFF, CHR 0xFF, CHR 0xFF]"
| "candidate_row_ids kGreaterEqual tree encoded = scan_ids tree encoded [CHR 0xFF, CHR 0xFF, CHR 0xFF, CHR 0xFF]"
| "candidate_row_ids kNotEqual tree encoded = Inr []"

text \<open>The column of an expression with its position and index, when it has both.\<close>

definition indexed_column :: "TableSchema \<Rightarrow> (string, BStarPlusTree) umap \<Rightarrow> Expression \<Rightarrow> (nat \<times> BStarPlusTree) option" where
  "indexed_column s ixs e =
     (case e of
        ColumnReferenceExpression d t column_name \<Rightarrow>
          (case (FindColumnIndex s column_name, umap_find ixs column_name) of
             (Some i, Some tree) \<Rightarrow> Some (i, tree)
           | _ \<Rightarrow> None)
      | _ \<Rightarrow> None)"

text \<open>The index paths of \<^verbatim>\<open>FilterRows\<close>: \<open>None\<close> where the code goes on to the sequential scan.\<close>

definition index_path ::
  "regex \<Rightarrow> RowData list \<Rightarrow> Expression \<Rightarrow> TableSchema \<Rightarrow> (string, BStarPlusTree) umap
     \<Rightarrow> RowData list option Result" where
  "index_path rx rows clause s ixs =
     (case clause of
        BinaryComparisonExpression op left (LiteralExpression literal) \<Rightarrow>
          (case indexed_column s ixs left of
             None \<Rightarrow> Inr None
           | Some (i, tree) \<Rightarrow>
               bind_result (EncodeIndexKey literal (col_type (columns s ! i))) (\<lambda>encoded.
                 bind_result (candidate_row_ids op tree encoded) (\<lambda>ids.
                   bind_result (append_candidates rx (Some clause) s rows ids) (\<lambda>filtered.
                     Inr (if op \<noteq> kNotEqual then Some filtered else None)))))
      | BetweenExpression value (LiteralExpression lower) (LiteralExpression upper) \<Rightarrow>
          (case indexed_column s ixs value of
             None \<Rightarrow> Inr None
           | Some (i, tree) \<Rightarrow>
               bind_result (EncodeIndexKey lower (col_type (columns s ! i))) (\<lambda>lower_key.
                 bind_result (EncodeIndexKey upper (col_type (columns s ! i))) (\<lambda>upper_key.
                   bind_result (scan_ids tree lower_key upper_key) (\<lambda>ids.
                     bind_result (append_candidates rx (Some clause) s rows ids) (\<lambda>filtered.
                       Inr (Some filtered))))))
      | _ \<Rightarrow> Inr None)"

text \<open>
  \<^verbatim>\<open>FilterRows\<close> with the value it stores in \<^verbatim>\<open>*used_index_path\<close>; its only caller passes the table.
\<close>

definition FilterRows ::
  "regex \<Rightarrow> RowData list \<Rightarrow> Expression option \<Rightarrow> TableSchema \<Rightarrow> TableRuntime option
     \<Rightarrow> (RowData list \<times> bool) Result" where
  "FilterRows rx rows clause s table_runtime =
     bind_result
       (case (clause, table_runtime) of
          (Some e, Some t) \<Rightarrow> index_path rx rows e s (indexes t)
        | _ \<Rightarrow> Inr None)
       (\<lambda>found. case found of
          Some filtered \<Rightarrow> Inr (filtered, True)
        | None \<Rightarrow> bind_result (filterM (passes rx clause s) rows) (\<lambda>filtered. Inr (filtered, False)))"

section \<open>Comparison and order\<close>

text \<open>The difference of two integers stays in the range of \<^verbatim>\<open>int64_t\<close>.\<close>

fun no_overflow :: "Value \<Rightarrow> Value \<Rightarrow> bool" where
  "no_overflow (Int64 a) (Int64 b) \<longleftrightarrow> - (2 ^ 63) \<le> sint a - sint b \<and> sint a - sint b < 2 ^ 63"
| "no_overflow _ _ \<longleftrightarrow> True"

lemma string_compare_sign:
  "string_compare a b < 0 \<longleftrightarrow> a < b" "string_compare a b = 0 \<longleftrightarrow> a = b" "0 < string_compare a b \<longleftrightarrow> b < a"
  by (auto simp: string_compare_def not_less_iff_gr_or_eq)

lemma CompareValues_sign:
  assumes "GetValueType v = GetValueType w" "GetValueType w \<noteq> kNull" "no_overflow v w"
  obtains c where "CompareValues v w = Inr c" "c < 0 \<longleftrightarrow> value_less v w" "c = 0 \<longleftrightarrow> same_value v w"
    "0 < c \<longleftrightarrow> value_less w v"
proof (cases "GetValueType w = kInt64")
  case True
  with assms obtain a b where vw: "v = Int64 a" "w = Int64 b" by (cases v; cases w) auto
  have "CompareValues v w = Inr (sint a - sint b)"
    using CompareValues_int assms(3) vw by simp
  moreover have "sint a = sint b \<longleftrightarrow> a = b" by (metis signed_word_eqI)
  ultimately show ?thesis using that vw by simp
next
  case False
  then obtain a b where vw: "AsString v = Inr a" "AsString w = Inr b" "CompareValues v w = Inr (string_compare a b)"
    "value_less v w \<longleftrightarrow> a < b" "value_less w v \<longleftrightarrow> b < a" "same_value v w \<longleftrightarrow> a = b"
    using assms(1,2) by (cases v; cases w) (auto simp: CompareValues_def)
  show ?thesis using that [OF vw(3)] vw(4-6) string_compare_sign by simp
qed

lemma CompareValues_key:
  assumes "GetValueType v = t" "GetValueType w = t" "t \<noteq> kNull" "no_overflow v w"
    and "EncodeIndexKey v t = Inr kv" "EncodeIndexKey w t = Inr kw"
  obtains c where "CompareValues v w = Inr c" "c < 0 \<longleftrightarrow> kv < kw" "c = 0 \<longleftrightarrow> kv = kw" "0 < c \<longleftrightarrow> kw < kv"
proof -
  have "GetValueType v = GetValueType w" "GetValueType w \<noteq> kNull" using assms by simp_all
  from CompareValues_sign [OF this assms(4)] obtain c where
    "CompareValues v w = Inr c" "c < 0 \<longleftrightarrow> value_less v w" "c = 0 \<longleftrightarrow> same_value v w" "0 < c \<longleftrightarrow> value_less w v" by metis
  with that EncodeIndexKey_less [OF assms(1-3,5,6)] EncodeIndexKey_less [OF assms(2,1,3,6,5)]
    EncodeIndexKey_eq [OF assms(1-3,5,6)] show ?thesis by metis
qed

section \<open>Candidates from the index\<close>

text \<open>An indexed column: its position, its type and the key of every row.\<close>

definition indexed_rows :: "TableSchema \<Rightarrow> nat \<Rightarrow> BStarPlusTree \<Rightarrow> RowData list \<Rightarrow> bool" where
  "indexed_rows s i tree rows \<longleftrightarrow>
     distinct (map row_id rows) \<and>
     (\<exists>kvs. index_pairs s i rows = Inr kvs \<and> bstar.represents tree kvs)"

lemma row_key_typed:
  assumes "row_fits s row" "row_key s i row = Inr k" "i < length (columns s)"
  obtains v where "row_value row i = Inr v" "GetValueType v = col_type (columns s ! i)"
    "col_type (columns s ! i) \<noteq> kNull" "EncodeIndexKey v (col_type (columns s ! i)) = Inr k"
proof -
  from assms(2) obtain v where v: "row_value row i = Inr v" "\<not> IsNull v"
    "EncodeIndexKey v (col_type (columns s ! i)) = Inr k"
    by (auto simp: row_key_def split: if_splits)
  then have "v = row_values row ! i" by (auto simp: row_value_def split: if_splits)
  with assms(1,3) v(2) have "GetValueType v = col_type (columns s ! i)"
    by (auto simp: row_fits_def list_all2_conv_all_nth CanAssignToType_def split: if_splits)
  with that v show ?thesis by (metis IsNull_iff)
qed

lemma index_pairs_map:
  assumes "index_pairs s i rows = Inr kvs"
  obtains key where "kvs = map (\<lambda>row. (key row, row_id row)) rows" "\<forall>row \<in> set rows. row_key s i row = Inr (key row)"
proof
  let ?key = "\<lambda>row. projr (row_key s i row)"
  have "list_all2 (\<lambda>row kv. bind_result (row_key s i row) (\<lambda>k. Inr (k, row_id row)) = Inr kv) rows kvs"
    using assms by (simp add: index_pairs_def mapM_Inr_iff)
  then have "kvs = map (\<lambda>row. (?key row, row_id row)) rows \<and> (\<forall>row \<in> set rows. row_key s i row = Inr (?key row))"
    by (induction rule: list_all2_induct) auto
  then show "kvs = map (\<lambda>row. (?key row, row_id row)) rows" "\<forall>row \<in> set rows. row_key s i row = Inr (?key row)"
    by simp_all
qed

lemma concat_singletons:
  assumes "\<forall>e \<in> set es. \<exists>r. snd e = [r]"
  shows "concat (map snd es) = map (\<lambda>e. hd (snd e)) es"
  using assms by (induction es) auto

lemma scan_ids_rows:
  assumes "bstar.represents tree (map (\<lambda>row. (key row, row_id row)) rows)" "distinct (map row_id rows)"
  shows "\<exists>ids. scan_ids tree lower upper = Inr ids \<and> distinct ids \<and>
    set ids = row_id ` {row \<in> set rows. lower \<le> key row \<and> key row < upper}"
proof -
  let ?kvs = "map (\<lambda>row. (key row, row_id row)) rows"
  obtain es where
    es: "RangeScan tree lower upper = Inr es" "\<forall>e \<in> set es. \<exists>r. snd e = [r]" "distinct (map fst es)"
      "set es = pair_entries (filter (\<lambda>(k, r). lower \<le> k \<and> k < upper) ?kvs)"
    by (rule bstar.represents_scan [OF assms(1)])
  let ?ids = "map (\<lambda>e. hd (snd e)) es"
  have mem: "\<exists>row \<in> set rows. e = (key row, [row_id row]) \<and> lower \<le> key row \<and> key row < upper"
    if "e \<in> set es" for e
    using that unfolding es(4) by (auto simp: pair_entries_def)
  have "inj_on (\<lambda>e. hd (snd e)) (set es)"
  proof (rule inj_onI)
    fix x y assume "x \<in> set es" "y \<in> set es" "hd (snd x) = hd (snd y)"
    moreover from \<open>x \<in> set es\<close> mem obtain r where r: "r \<in> set rows" "x = (key r, [row_id r])" by blast
    moreover from \<open>y \<in> set es\<close> mem obtain r' where r': "r' \<in> set rows" "y = (key r', [row_id r'])" by blast
    ultimately have "row_id r = row_id r'" by simp
    with assms(2) r(1) r'(1) have "r = r'" by (auto simp: distinct_map dest: inj_onD)
    with r r' show "x = y" by simp
  qed
  then have "distinct ?ids" using es(3) by (simp add: distinct_map)
  moreover have "set ?ids = row_id ` {row \<in> set rows. lower \<le> key row \<and> key row < upper}"
    unfolding set_map es(4) pair_entries_def by (auto simp: image_iff) force
  ultimately show ?thesis using es concat_singletons [OF es(2)] by (simp add: scan_ids_def)
qed

text \<open>The rows of distinct candidates, as a multiset.\<close>

lemma row_lookup_Some:
  assumes "distinct (map row_id rows)"
  shows "row_lookup rows r = Some row \<longleftrightarrow> row \<in> set rows \<and> row_id row = r"
proof -
  have "distinct (map fst (map (\<lambda>row. (row_id row, row)) rows))" using assms by (simp add: comp_def)
  then show ?thesis unfolding row_lookup_def by (auto simp: map_of_eq_Some_iff)
qed

lemma set_map_filter_eq: "set (List.map_filter f xs) = {y. \<exists>x \<in> set xs. f x = Some y}"
  by (induction xs) (auto simp: List.map_filter_simps split: option.splits)

lemma map_filter_lookup:
  assumes "distinct (map row_id rows)" "distinct ids"
  shows "mset (List.map_filter (row_lookup rows) ids) = mset (filter (\<lambda>row. row_id row \<in> set ids) rows)"
proof (subst set_eq_iff_mset_eq_distinct [symmetric])
  have "inj_on (the \<circ> row_lookup rows) (set (filter (\<lambda>x. row_lookup rows x \<noteq> None) ids))"
  proof (rule inj_onI)
    fix x y assume "x \<in> set (filter (\<lambda>x. row_lookup rows x \<noteq> None) ids)" "y \<in> set (filter (\<lambda>x. row_lookup rows x \<noteq> None) ids)"
      and e: "(the \<circ> row_lookup rows) x = (the \<circ> row_lookup rows) y"
    then obtain a b where "row_lookup rows x = Some a" "row_lookup rows y = Some b" by auto
    with e show "x = y" using row_lookup_Some [OF assms(1)] by (metis comp_apply option.sel)
  qed
  then show "distinct (List.map_filter (row_lookup rows) ids)"
    using assms(2) by (simp add: List.map_filter_def distinct_map)
  show "distinct (filter (\<lambda>row. row_id row \<in> set ids) rows)" using assms(1) by (simp add: distinct_map)
  show "set (List.map_filter (row_lookup rows) ids) = set (filter (\<lambda>row. row_id row \<in> set ids) rows)"
    by (auto simp: set_map_filter_eq row_lookup_Some [OF assms(1)])
qed

text \<open>Filtering the candidates gives the rows that pass, when every row that passes is a candidate.\<close>

lemma append_candidates_filter:
  assumes "distinct (map row_id rows)" "distinct ids"
    and "\<And>row. row \<in> set rows \<Longrightarrow> passes rx clause s row = Inr (q row)"
    and "\<And>row. row \<in> set rows \<Longrightarrow> q row \<Longrightarrow> row_id row \<in> set ids"
  shows "\<exists>filtered. append_candidates rx clause s rows ids = Inr filtered \<and>
    filterM (passes rx clause s) rows = Inr (filter q rows) \<and> mset filtered = mset (filter q rows)"
proof -
  let ?cands = "List.map_filter (row_lookup rows) ids"
  have "set ?cands \<subseteq> set rows"
    by (auto simp: set_map_filter_eq row_lookup_Some [OF assms(1)])
  then have "append_candidates rx clause s rows ids = Inr (filter q ?cands)"
    unfolding append_candidates_def using assms(3) by (intro filterM_total) auto
  moreover have "mset (filter q ?cands) = mset (filter q (filter (\<lambda>row. row_id row \<in> set ids) rows))"
    using map_filter_lookup [OF assms(1,2)] by (metis mset_filter)
  moreover have "filter q (filter (\<lambda>row. row_id row \<in> set ids) rows) = filter q rows"
    using assms(4) by (auto intro: filter_cong)
  moreover have "filterM (passes rx clause s) rows = Inr (filter q rows)"
    using assms(3) by (rule filterM_total)
  ultimately show ?thesis by metis
qed

section \<open>The index path\<close>

text \<open>What an entry of a consistent table says about its column.\<close>

lemma table_inv_index:
  assumes "table_inv t" "indexed_column (schema t) (indexes t) e = Some (i, tree)"
  obtains key where
    "bstar.represents tree (map (\<lambda>row. (key row, row_id row)) (heap_rows (heap t)))"
    "\<forall>row \<in> set (heap_rows (heap t)). row_key (schema t) i row = Inr (key row)"
    "i < length (columns (schema t))" "\<forall>row. EvaluateValueExpression e (schema t) row = row_value row i"
    "distinct (map row_id (heap_rows (heap t)))"
proof -
  from assms(2) obtain d u c where e: "e = ColumnReferenceExpression d u c"
    and i: "FindColumnIndex (schema t) c = Some i" and ix: "umap_find (indexes t) c = Some tree"
    by (auto simp: indexed_column_def split: Expression.splits option.splits)
  from umap_find_in_set [OF ix] assms(1) have "index_holds (schema t) (heap_rows (heap t)) (c, tree)"
    by (auto simp: table_inv_def)
  with i obtain kvs where kvs: "index_pairs (schema t) i (heap_rows (heap t)) = Inr kvs" "bstar.represents tree kvs"
    by (auto simp: index_holds_def)
  from index_pairs_map [OF kvs(1)] obtain key where
    "kvs = map (\<lambda>row. (key row, row_id row)) (heap_rows (heap t))"
    "\<forall>row \<in> set (heap_rows (heap t)). row_key (schema t) i row = Inr (key row)" by blast
  moreover have "distinct (map row_id (heap_rows (heap t)))"
    using assms(1) by (simp add: table_inv_def heap_inv_def rows_below_def)
  moreover have "\<forall>row. EvaluateValueExpression e (schema t) row = row_value row i"
    using e i by simp
  ultimately show ?thesis using that kvs(2) FindColumnIndex_Some [OF i] by blast
qed

lemma candidate_row_ids_rows:
  assumes rep: "bstar.represents tree (map (\<lambda>row. (key row, row_id row)) rows)" and d: "distinct (map row_id rows)"
    and op: "op \<noteq> kNotEqual"
    and below: "\<forall>row \<in> set rows. key row < [CHR 0xFF, CHR 0xFF, CHR 0xFF, CHR 0xFF]"
    and enc: "encoded < encoded @ [CHR 0xFF]"
    and cmp: "\<forall>row \<in> set rows. c row < 0 \<longleftrightarrow> key row < encoded"
      "\<forall>row \<in> set rows. (c row :: int) = 0 \<longleftrightarrow> key row = encoded"
  shows "\<exists>ids. candidate_row_ids op tree encoded = Inr ids \<and> distinct ids \<and>
    (\<forall>row \<in> set rows. compared_holds op (c row) \<longrightarrow> row_id row \<in> set ids)"
proof -
  have le: "c row \<le> 0 \<Longrightarrow> key row < encoded @ [CHR 0xFF]" if "row \<in> set rows" for row
    using cmp that enc by (metis less_trans order_le_less)
  have ge: "0 \<le> c row \<Longrightarrow> encoded \<le> key row" if "row \<in> set rows" for row
    using cmp that by (metis not_le)
  note scans = scan_ids_rows [OF rep d]
  show ?thesis
  proof (cases op)
    case kEqual
    have "Find tree encoded = Inr (case map_of (map (\<lambda>row. (key row, row_id row)) rows) encoded of None \<Rightarrow> [] | Some r \<Rightarrow> [r])"
      by (rule bstar.represents_find [OF rep])
    moreover have "map_of (map (\<lambda>row. (key row, row_id row)) rows) (key row) = Some (row_id row)" if "row \<in> set rows" for row
      using rep that by (intro map_of_is_SomeI) (auto simp: bstar.represents_def comp_def)
    ultimately show ?thesis using kEqual cmp(2)
      by (auto split: option.splits)
  next
    case kLess
    with scans [of "[]" "encoded @ [CHR 0xFF]"] le show ?thesis by fastforce
  next
    case kLessEqual
    with scans [of "[]" "encoded @ [CHR 0xFF]"] le show ?thesis by fastforce
  next
    case kGreater
    with scans [of encoded "[CHR 0xFF, CHR 0xFF, CHR 0xFF, CHR 0xFF]"] ge below show ?thesis by fastforce
  next
    case kGreaterEqual
    with scans [of encoded "[CHR 0xFF, CHR 0xFF, CHR 0xFF, CHR 0xFF]"] ge below show ?thesis by fastforce
  qed (use op in simp)
qed

definition key_compare :: "string \<Rightarrow> string \<Rightarrow> int" where
  "key_compare k encoded = (if k < encoded then - 1 else if k = encoded then 0 else 1)"

lemma key_compare_sign: "key_compare k e < 0 \<longleftrightarrow> k < e" "key_compare k e = 0 \<longleftrightarrow> k = e"
  by (auto simp: key_compare_def)

lemma less_append_char: "(encoded :: string) < encoded @ [c]"
  by (induction encoded) simp_all

text \<open>The comparison with a literal, read off the keys.\<close>

lemma compared_holds_key:
  assumes "GetValueType v = t" "GetValueType w = t" "t \<noteq> kNull" "op = kEqual \<or> no_overflow v w"
    and "EncodeIndexKey v t = Inr kv" "EncodeIndexKey w t = Inr kw"
  obtains c where "CompareValues v w = Inr c" "compared_holds op c \<longleftrightarrow> compared_holds op (key_compare kv kw)"
proof (cases "no_overflow v w")
  case True
  obtain c where "CompareValues v w = Inr c" "c < 0 \<longleftrightarrow> kv < kw" "c = 0 \<longleftrightarrow> kv = kw" "0 < c \<longleftrightarrow> kw < kv"
    by (rule CompareValues_key [OF assms(1-3) True assms(5,6)])
  then show ?thesis using that by (cases op) (auto simp: key_compare_def split: if_splits)
next
  case False
  then have op: "op = kEqual" using assms(4) by simp
  obtain c where c: "CompareValues v w = Inr c" using CompareValues_total [of v w] assms by auto
  then have "c = 0 \<longleftrightarrow> same_value v w" using CompareValues_zero_iff [of v w] by simp
  also have "\<dots> \<longleftrightarrow> kv = kw" using EncodeIndexKey_eq [OF assms(1-3,5,6)] by simp
  finally show ?thesis using that c op by (simp add: key_compare_def)
qed

lemma index_comparison_correct:
  assumes inv: "table_inv t" and op: "op \<noteq> kNotEqual"
    and col: "indexed_column (schema t) (indexes t) e = Some (i, tree)"
    and lit: "GetValueType lit = col_type (columns (schema t) ! i)" "\<not> IsNull lit"
    and ovf: "op = kEqual \<or> (\<forall>row \<in> set (heap_rows (heap t)). no_overflow (row_values row ! i) lit)"
  shows "\<exists>rs seq. FilterRows rx (ScanAll (heap t)) (Some (BinaryComparisonExpression op e (LiteralExpression lit)))
        (schema t) (Some t) = Inr (rs, True) \<and>
      FilterRows rx (ScanAll (heap t)) (Some (BinaryComparisonExpression op e (LiteralExpression lit)))
        (schema t) None = Inr (seq, False) \<and> mset rs = mset seq"
proof -
  let ?s = "schema t" and ?rows = "heap_rows (heap t)" and ?ty = "col_type (columns (schema t) ! i)"
  let ?clause = "BinaryComparisonExpression op e (LiteralExpression lit)"
  have ty: "?ty \<noteq> kNull" using lit by (metis IsNull_iff)
  obtain key where rep: "bstar.represents tree (map (\<lambda>row. (key row, row_id row)) ?rows)"
    and keys: "\<forall>row \<in> set ?rows. row_key ?s i row = Inr (key row)" and i: "i < length (columns ?s)"
    and val: "\<forall>row. EvaluateValueExpression e ?s row = row_value row i" and d: "distinct (map row_id ?rows)"
    by (rule table_inv_index [OF inv col])
  obtain encoded where enc: "EncodeIndexKey lit ?ty = Inr encoded"
    using EncodeIndexKey_total [OF lit(1) ty] by blast
  have row: "passes rx (Some ?clause) ?s row = Inr (compared_holds op (key_compare (key row) encoded)) \<and>
      key row < [CHR 0xFF, CHR 0xFF, CHR 0xFF, CHR 0xFF]" if r: "row \<in> set ?rows" for row
  proof -
    have "row_fits ?s row" using inv r by (simp add: table_inv_def)
    with keys r i obtain v where v: "row_value row i = Inr v" "GetValueType v = ?ty"
      "EncodeIndexKey v ?ty = Inr (key row)" by (metis row_key_typed)
    have "v = row_values row ! i" using v(1) by (auto simp: row_value_def split: if_splits)
    then have "op = kEqual \<or> no_overflow v lit" using ovf r by auto
    then obtain c where "CompareValues v lit = Inr c" "compared_holds op c \<longleftrightarrow> compared_holds op (key_compare (key row) encoded)"
      by (rule compared_holds_key [OF v(2) lit(1) ty _ v(3) enc])
    then show ?thesis
      using val v lit ty EncodeIndexKey_below(1) [of v ?ty "key row"] by (simp add: passes_def MakeSuccess_def)
  qed
  have "\<exists>ids. candidate_row_ids op tree encoded = Inr ids \<and> distinct ids \<and>
      (\<forall>row \<in> set ?rows. compared_holds op (key_compare (key row) encoded) \<longrightarrow> row_id row \<in> set ids)"
    by (rule candidate_row_ids_rows [OF rep d op _ less_append_char]) (use row in \<open>auto simp: key_compare_sign\<close>)
  then obtain ids where ids: "candidate_row_ids op tree encoded = Inr ids" "distinct ids"
    "\<forall>row \<in> set ?rows. compared_holds op (key_compare (key row) encoded) \<longrightarrow> row_id row \<in> set ids" by blast
  obtain rs where "append_candidates rx (Some ?clause) ?s ?rows ids = Inr rs"
    "filterM (passes rx (Some ?clause) ?s) ?rows = Inr (filter (\<lambda>row. compared_holds op (key_compare (key row) encoded)) ?rows)"
    "mset rs = mset (filter (\<lambda>row. compared_holds op (key_compare (key row) encoded)) ?rows)"
    using append_candidates_filter [OF d ids(2), of rx "Some ?clause" ?s "\<lambda>row. compared_holds op (key_compare (key row) encoded)"]
      row ids(3) by blast
  with col enc ids(1) op show ?thesis
    by (simp add: FilterRows_def index_path_def ScanAll_def)
qed

lemma index_between_correct:
  assumes inv: "table_inv t"
    and col: "indexed_column (schema t) (indexes t) e = Some (i, tree)"
    and lit: "GetValueType l = col_type (columns (schema t) ! i)" "GetValueType u = col_type (columns (schema t) ! i)"
      "\<not> IsNull l" "\<not> IsNull u"
    and ovf: "\<forall>row \<in> set (heap_rows (heap t)). no_overflow (row_values row ! i) l \<and> no_overflow (row_values row ! i) u"
  shows "\<exists>rs seq. FilterRows rx (ScanAll (heap t)) (Some (BetweenExpression e (LiteralExpression l) (LiteralExpression u)))
        (schema t) (Some t) = Inr (rs, True) \<and>
      FilterRows rx (ScanAll (heap t)) (Some (BetweenExpression e (LiteralExpression l) (LiteralExpression u)))
        (schema t) None = Inr (seq, False) \<and> mset rs = mset seq"
proof -
  let ?s = "schema t" and ?rows = "heap_rows (heap t)" and ?ty = "col_type (columns (schema t) ! i)"
  let ?clause = "BetweenExpression e (LiteralExpression l) (LiteralExpression u)"
  have ty: "?ty \<noteq> kNull" using lit by (metis IsNull_iff)
  obtain key where rep: "bstar.represents tree (map (\<lambda>row. (key row, row_id row)) ?rows)"
    and keys: "\<forall>row \<in> set ?rows. row_key ?s i row = Inr (key row)" and i: "i < length (columns ?s)"
    and val: "\<forall>row. EvaluateValueExpression e ?s row = row_value row i" and d: "distinct (map row_id ?rows)"
    by (rule table_inv_index [OF inv col])
  obtain lk uk where enc: "EncodeIndexKey l ?ty = Inr lk" "EncodeIndexKey u ?ty = Inr uk"
    using EncodeIndexKey_total [OF lit(1) ty] EncodeIndexKey_total [OF lit(2) ty] by blast
  have row: "passes rx (Some ?clause) ?s row = Inr (lk \<le> key row \<and> key row < uk)" if r: "row \<in> set ?rows" for row
  proof -
    have "row_fits ?s row" using inv r by (simp add: table_inv_def)
    with keys r i obtain v where v: "row_value row i = Inr v" "GetValueType v = ?ty"
      "EncodeIndexKey v ?ty = Inr (key row)" by (metis row_key_typed)
    have "v = row_values row ! i" using v(1) by (auto simp: row_value_def split: if_splits)
    then have no: "no_overflow v l" "no_overflow v u" using ovf r by auto
    obtain c1 where c1: "CompareValues v l = Inr c1" "c1 < 0 \<longleftrightarrow> key row < lk"
      by (rule CompareValues_key [OF v(2) lit(1) ty no(1) v(3) enc(1)])
    obtain c2 where c2: "CompareValues v u = Inr c2" "c2 < 0 \<longleftrightarrow> key row < uk"
      by (rule CompareValues_key [OF v(2) lit(2) ty no(2) v(3) enc(2)])
    have "0 \<le> c1 \<longleftrightarrow> lk \<le> key row" using c1(2) by (metis not_le)
    with c1 c2 show ?thesis
      using val v lit by (simp add: passes_def evaluate_between_def MakeSuccess_def)
  qed
  obtain ids where ids: "scan_ids tree lk uk = Inr ids" "distinct ids"
    "set ids = row_id ` {row \<in> set ?rows. lk \<le> key row \<and> key row < uk}"
    using scan_ids_rows [OF rep d] by blast
  obtain rs where "append_candidates rx (Some ?clause) ?s ?rows ids = Inr rs"
    "filterM (passes rx (Some ?clause) ?s) ?rows = Inr (filter (\<lambda>row. lk \<le> key row \<and> key row < uk) ?rows)"
    "mset rs = mset (filter (\<lambda>row. lk \<le> key row \<and> key row < uk) ?rows)"
    using append_candidates_filter [OF d ids(2), of rx "Some ?clause" ?s "\<lambda>row. lk \<le> key row \<and> key row < uk"] row ids(3)
    by blast
  with col enc ids(1) show ?thesis
    by (simp add: FilterRows_def index_path_def ScanAll_def)
qed

end
