(* ===== verification/Planner.thy ===== *)
theory Planner
  imports Expressions
begin

text \<open>
  The planner (\<^verbatim>\<open>src/planner/planner.cpp\<close>, \<^verbatim>\<open>src/planner/plan.hpp\<close>): it maps a statement to a tree of
  plan nodes. The planner's pointer to the runtime state, which may be null, is an option.
\<close>

section \<open>Plans\<close>

datatype PlanNodeKind =
    kPlanCreateDatabase
  | kPlanDropDatabase
  | kPlanUseDatabase
  | kPlanCreateTable
  | kPlanDropTable
  | kPlanSeqScan
  | kPlanIndexScan
  | kPlanFilter
  | kPlanProject
  | kPlanAggregate
  | kPlanInsert
  | kPlanUpdate
  | kPlanDelete
  | kPlanRevert
  | kPlanBeginTransaction
  | kPlanCommitTransaction
  | kPlanRollbackTransaction
  | kPlanCheckIndex
  | kPlanRebuildIndex
  | kPlanRemoteShardDispatch

datatype PlanNode =
  PlanNode (plan_kind: PlanNodeKind) (plan_detail: string) (plan_statement: "Statement option")
    (plan_children: "PlanNode list")

section \<open>Building a plan\<close>

definition QualifiedNameToString :: "QualifiedName \<Rightarrow> string" where
  "QualifiedNameToString name =
     (case database_name name of Some d \<Rightarrow> d @ ''.'' @ object_name name | None \<Rightarrow> object_name name)"

definition SelectItemText :: "SelectItem \<Rightarrow> string" where
  "SelectItemText item =
     (case item_aggregate item of
        Some kSum \<Rightarrow> ''SUM('' @ item_column item @ '')''
      | Some kCount \<Rightarrow> ''COUNT('' @ item_column item @ '')''
      | Some kAvg \<Rightarrow> ''AVG('' @ item_column item @ '')''
      | None \<Rightarrow> item_column item) @
     (case item_alias item of Some a \<Rightarrow> '' AS '' @ a | None \<Rightarrow> [])"

fun join_comma :: "string list \<Rightarrow> string" where
  "join_comma [] = []"
| "join_comma [x] = x"
| "join_comma (x # xs) = x @ '', '' @ join_comma xs"

definition SelectItemsSummary :: "SelectItem list \<Rightarrow> string" where
  "SelectItemsSummary items =
     (if length items = 1 \<and> is_wildcard (hd items) then ''*'' else join_comma (map SelectItemText items))"

definition ExtractIndexedCandidateColumn :: "Expression \<Rightarrow> string option" where
  "ExtractIndexedCandidateColumn e =
     (case e of
        BinaryComparisonExpression op left right \<Rightarrow>
          (if op \<notin> {kEqual, kLess, kGreater, kLessEqual, kGreaterEqual} then None
           else case (left, right) of
               (ColumnReferenceExpression d t c, LiteralExpression v) \<Rightarrow> Some c
             | _ \<Rightarrow> None)
      | BetweenExpression value lower upper \<Rightarrow>
          (case (value, lower, upper) of
             (ColumnReferenceExpression d t c, LiteralExpression l, LiteralExpression u) \<Rightarrow> Some c
           | _ \<Rightarrow> None)
      | _ \<Rightarrow> None)"

definition TableHasIndexOnColumn :: "RuntimeState option \<Rightarrow> QualifiedName \<Rightarrow> string \<Rightarrow> bool" where
  "TableHasIndexOnColumn state name column_name =
     (case state of
        None \<Rightarrow> False
      | Some st \<Rightarrow>
          (case database_name name of
             None \<Rightarrow> False
           | Some d \<Rightarrow>
               (case umap_find (databases st) d of
                  None \<Rightarrow> False
                | Some db \<Rightarrow>
                    (case umap_find (tables db) (object_name name) of
                       None \<Rightarrow> False
                     | Some t \<Rightarrow> umap_contains (indexes t) column_name))))"

text \<open>The scan below a \<^verbatim>\<open>SELECT\<close>, an index scan where the planner finds an index.\<close>

definition select_scan :: "RuntimeState option \<Rightarrow> Statement \<Rightarrow> SelectStatement \<Rightarrow> PlanNode" where
  "select_scan state stmt sel =
     (let table = QualifiedNameToString (select_table sel);
          seq = PlanNode kPlanSeqScan (''scan '' @ table) (Some stmt) []
      in case select_where sel of
           None \<Rightarrow> seq
         | Some e \<Rightarrow>
             (case ExtractIndexedCandidateColumn e of
                Some c \<Rightarrow>
                  (if TableHasIndexOnColumn state (select_table sel) c
                   then PlanNode kPlanIndexScan (''index scan '' @ table @ '' on '' @ c) (Some stmt) []
                   else seq)
              | None \<Rightarrow> seq))"

definition plan_select :: "RuntimeState option \<Rightarrow> Statement \<Rightarrow> SelectStatement \<Rightarrow> PlanNode" where
  "plan_select state stmt sel =
     (let scan = select_scan state stmt sel;
          child = (if select_where sel = None then scan else PlanNode kPlanFilter ''filter'' (Some stmt) [scan]);
          node = PlanNode kPlanProject
            (''select '' @ SelectItemsSummary (select_items sel) @ '' from '' @
             QualifiedNameToString (select_table sel)) (Some stmt) [child]
      in if select_items sel \<noteq> [] \<and> item_aggregate (hd (select_items sel)) \<noteq> None
         then PlanNode kPlanAggregate ''aggregate'' (Some stmt) [node]
         else node)"

definition plan_leaf :: "PlanNodeKind \<Rightarrow> string \<Rightarrow> Statement \<Rightarrow> PlanNode Result" where
  "plan_leaf k detail stmt = MakeSuccess (PlanNode k detail (Some stmt) [])"

definition BuildPlan :: "RuntimeState option \<Rightarrow> Statement \<Rightarrow> PlanNode Result" where
  "BuildPlan state stmt =
     (case stmt of
        CreateDatabaseStatement d \<Rightarrow> plan_leaf kPlanCreateDatabase (''create database '' @ d) stmt
      | DropDatabaseStatement d \<Rightarrow> plan_leaf kPlanDropDatabase (''drop database '' @ d) stmt
      | UseDatabaseStatement d \<Rightarrow> plan_leaf kPlanUseDatabase (''use database '' @ d) stmt
      | CreateTableStatement name cols \<Rightarrow>
          plan_leaf kPlanCreateTable (''create table '' @ QualifiedNameToString name) stmt
      | DropTableStatement name \<Rightarrow>
          plan_leaf kPlanDropTable (''drop table '' @ QualifiedNameToString name) stmt
      | InsertStmt ins \<Rightarrow>
          plan_leaf kPlanInsert
            (''insert into '' @ QualifiedNameToString (insert_table ins) @ '' rows='' @
             nat_to_string (length (insert_rows ins))) stmt
      | UpdateStmt upd \<Rightarrow>
          plan_leaf kPlanUpdate
            (''update '' @ QualifiedNameToString (update_table upd) @ '' assignments='' @
             nat_to_string (length (assignments upd))) stmt
      | DeleteStmt del \<Rightarrow>
          plan_leaf kPlanDelete (''delete from '' @ QualifiedNameToString (delete_table del)) stmt
      | SelectStmt sel \<Rightarrow> MakeSuccess (plan_select state stmt sel)
      | RevertStmt rv \<Rightarrow>
          plan_leaf kPlanRevert
            (''revert '' @ QualifiedNameToString (revert_table rv) @ '' to '' @ revert_timestamp rv) stmt
      | BeginTransactionStatement \<Rightarrow> plan_leaf kPlanBeginTransaction ''begin transaction'' stmt
      | CommitTransactionStatement \<Rightarrow> plan_leaf kPlanCommitTransaction ''commit transaction'' stmt
      | RollbackTransactionStatement \<Rightarrow> plan_leaf kPlanRollbackTransaction ''rollback transaction'' stmt
      | CheckIndexStatement \<Rightarrow> plan_leaf kPlanCheckIndex ''check index'' stmt
      | RebuildIndexStatement \<Rightarrow> plan_leaf kPlanRebuildIndex ''rebuild index'' stmt
      | UnknownStatement raw \<Rightarrow> MakeError kParseError ''cannot build plan for unknown statement'')"

section \<open>Properties\<close>

lemma BuildPlan_ok_iff: "ok (BuildPlan state stmt) \<longleftrightarrow> (\<forall>raw. stmt \<noteq> UnknownStatement raw)"
  by (cases stmt) (simp_all add: BuildPlan_def plan_leaf_def)

lemma BuildPlan_statement:
  "BuildPlan state stmt = Inr plan \<Longrightarrow> plan_statement plan = Some stmt"
  by (cases stmt) (auto simp: BuildPlan_def plan_leaf_def plan_select_def Let_def)

text \<open>The kinds that occur in a plan.\<close>

fun plan_kinds :: "PlanNode \<Rightarrow> PlanNodeKind set" where
  "plan_kinds (PlanNode k d s cs) = insert k (\<Union> (plan_kinds ` set cs))"

lemma select_scan_kind:
  "plan_kind (select_scan state stmt sel) = kPlanIndexScan \<longleftrightarrow>
     (\<exists>e c. select_where sel = Some e \<and> ExtractIndexedCandidateColumn e = Some c \<and>
            TableHasIndexOnColumn state (select_table sel) c)"
  by (auto simp: select_scan_def Let_def split: option.splits)

end
