(* ===== verification/Version_Store.thy ===== *)
theory Version_Store
  imports Storage
begin

text \<open>
  The append-only change log (\<^verbatim>\<open>src/versioning/version_store.cpp\<close>). The system clock and the time
  zone are outside the program: a reading of the clock is the broken-down local time with its
  microseconds, and \<open>GenerateTimestamp\<close> formats it as the code does. What the execution engine
  relies on is the locale \<open>change_log\<close>.
\<close>

section \<open>Records\<close>

datatype ChangeKind =
    kCreateDatabase
  | kDropDatabase
  | kCreateTable
  | kDropTable
  | kInsertRow
  | kUpdateRow
  | kDeleteRow

record ChangeRecord =
  rec_kind :: ChangeKind
  rec_database :: string
  rec_table :: string
  rec_timestamp :: string
  rec_row_id :: RowId
  rec_schema :: "TableSchema option"
  before_row :: "RowData option"
  after_row :: "RowData option"

record VersionStore =
  records :: "ChangeRecord list"

section \<open>Timestamps\<close>

record clock_reading =
  year :: nat
  month :: nat
  day :: nat
  hour :: nat
  minute :: nat
  second :: nat
  micros :: nat

text \<open>\<^verbatim>\<open>std::setw(w)\<close> with \<^verbatim>\<open>std::setfill('0')\<close>.\<close>

definition zero_padded :: "nat \<Rightarrow> nat \<Rightarrow> string" where
  "zero_padded w n =
     (let s = nat_to_string n in replicate (w - length s) (CHR ''0'') @ s)"

definition GenerateTimestamp :: "clock_reading \<Rightarrow> string" where
  "GenerateTimestamp t =
     nat_to_string (year t) @ ''.'' @ zero_padded 2 (month t) @ ''.'' @ zero_padded 2 (day t) @ ''-'' @
     zero_padded 2 (hour t) @ '':'' @ zero_padded 2 (minute t) @ '':'' @ zero_padded 2 (second t) @
     ''.'' @ zero_padded 6 (micros t)"

section \<open>Operations\<close>

definition VersionAppend :: "clock_reading \<Rightarrow> ChangeRecord \<Rightarrow> VersionStore \<Rightarrow> string \<times> VersionStore" where
  "VersionAppend now r vs =
     (let r' = (if rec_timestamp r = [] then r\<lparr>rec_timestamp := GenerateTimestamp now\<rparr> else r)
      in (rec_timestamp r', vs\<lparr>records := records vs @ [r']\<rparr>))"

definition VersionReplaceAll :: "ChangeRecord list \<Rightarrow> VersionStore \<Rightarrow> VersionStore" where
  "VersionReplaceAll rs vs = vs\<lparr>records := rs\<rparr>"

definition VersionClear :: "VersionStore \<Rightarrow> VersionStore" where
  "VersionClear vs = vs\<lparr>records := []\<rparr>"

definition AllRecords :: "VersionStore \<Rightarrow> ChangeRecord list" where
  "AllRecords vs = records vs"

definition for_table :: "string \<Rightarrow> string \<Rightarrow> ChangeRecord \<Rightarrow> bool" where
  "for_table database_name table_name r \<longleftrightarrow> rec_database r = database_name \<and> rec_table r = table_name"

definition HistoryForTable :: "VersionStore \<Rightarrow> string \<Rightarrow> string \<Rightarrow> ChangeRecord list" where
  "HistoryForTable vs database_name table_name = filter (for_table database_name table_name) (records vs)"

text \<open>The loops that keep the largest timestamp.\<close>

definition later :: "string option \<Rightarrow> string \<Rightarrow> string option" where
  "later best ts = (case best of None \<Rightarrow> Some ts | Some b \<Rightarrow> if b < ts then Some ts else Some b)"

definition LatestTimestampForTable :: "VersionStore \<Rightarrow> string \<Rightarrow> string \<Rightarrow> string option" where
  "LatestTimestampForTable vs database_name table_name =
     foldl (\<lambda>latest r.
         if rec_database r \<noteq> database_name \<or> rec_table r \<noteq> table_name then latest
         else later latest (rec_timestamp r))
       None (records vs)"

definition LatestTimestampAtOrBefore ::
  "VersionStore \<Rightarrow> string \<Rightarrow> string \<Rightarrow> string \<Rightarrow> string option" where
  "LatestTimestampAtOrBefore vs database_name table_name timestamp =
     foldl (\<lambda>best r.
         if rec_database r \<noteq> database_name \<or> rec_table r \<noteq> table_name \<or> timestamp < rec_timestamp r
         then best
         else later best (rec_timestamp r))
       None (records vs)"

definition HasExactTimestampForTable :: "VersionStore \<Rightarrow> string \<Rightarrow> string \<Rightarrow> string \<Rightarrow> bool" where
  "HasExactTimestampForTable vs database_name table_name timestamp =
     list_ex (\<lambda>r. rec_database r = database_name \<and> rec_table r = table_name \<and> rec_timestamp r = timestamp)
       (records vs)"

section \<open>The latest timestamps\<close>

definition greatest :: "string set \<Rightarrow> string option" where
  "greatest S = (if S = {} then None else Some (Max S))"

lemma later_greatest: "finite S \<Longrightarrow> later (greatest S) ts = greatest (insert ts S)"
proof (cases "S = {}")
  case False
  assume "finite S"
  with False have "Max (insert ts S) = (if Max S < ts then ts else Max S)"
    by (auto simp: max_def linorder_not_le simp del: Max_less_iff Max_ge_iff dest: leD)
  with False show ?thesis by (simp add: later_def greatest_def del: Max_insert Max_less_iff)
qed (simp add: later_def greatest_def)

lemma foldl_later:
  assumes "finite S"
  shows "foldl (\<lambda>best r. if P r then best else later best (rec_timestamp r)) (greatest S) rs
    = greatest (S \<union> rec_timestamp ` {r \<in> set rs. \<not> P r})"
  using assms
proof (induction rs arbitrary: S)
  case (Cons r rs)
  show ?case
  proof (cases "P r")
    case True
    then have "{x \<in> set (r # rs). \<not> P x} = {x \<in> set rs. \<not> P x}" by auto
    with True Cons show ?thesis by simp
  next
    case False
    then have "{x \<in> set (r # rs). \<not> P x} = insert r {x \<in> set rs. \<not> P x}" by auto
    with False Cons.IH [of "insert (rec_timestamp r) S"] Cons.prems show ?thesis
      by (simp add: later_greatest)
  qed
qed simp

lemma LatestTimestampForTable_greatest:
  "LatestTimestampForTable vs db tbl = greatest (rec_timestamp ` set (HistoryForTable vs db tbl))"
proof -
  have "{r \<in> set (records vs). \<not> (rec_database r \<noteq> db \<or> rec_table r \<noteq> tbl)} = set (HistoryForTable vs db tbl)"
    by (auto simp: HistoryForTable_def for_table_def)
  moreover have "greatest {} = None" by (simp add: greatest_def)
  ultimately show ?thesis
    using foldl_later [of "{}" "\<lambda>r. rec_database r \<noteq> db \<or> rec_table r \<noteq> tbl" "records vs"]
    unfolding LatestTimestampForTable_def by (simp only: finite.emptyI Un_empty_left)
qed

lemma LatestTimestampAtOrBefore_greatest:
  "LatestTimestampAtOrBefore vs db tbl ts
    = greatest {t \<in> rec_timestamp ` set (HistoryForTable vs db tbl). t \<le> ts}"
proof -
  have "rec_timestamp ` {r \<in> set (records vs). \<not> (rec_database r \<noteq> db \<or> rec_table r \<noteq> tbl \<or> ts < rec_timestamp r)}
      = {t \<in> rec_timestamp ` set (HistoryForTable vs db tbl). t \<le> ts}"
    by (auto simp: HistoryForTable_def for_table_def not_less)
  moreover have "greatest {} = None" by (simp add: greatest_def)
  ultimately show ?thesis
    using foldl_later [of "{}" "\<lambda>r. rec_database r \<noteq> db \<or> rec_table r \<noteq> tbl \<or> ts < rec_timestamp r" "records vs"]
    unfolding LatestTimestampAtOrBefore_def by (simp only: finite.emptyI Un_empty_left)
qed

lemma HasExact_iff:
  "HasExactTimestampForTable vs db tbl ts \<longleftrightarrow> ts \<in> rec_timestamp ` set (HistoryForTable vs db tbl)"
  by (auto simp: HasExactTimestampForTable_def HistoryForTable_def for_table_def list_ex_iff)

section \<open>The interface\<close>

locale change_log =
  fixes append :: "clock_reading \<Rightarrow> ChangeRecord \<Rightarrow> 'v \<Rightarrow> string \<times> 'v"
    and history :: "'v \<Rightarrow> string \<Rightarrow> string \<Rightarrow> ChangeRecord list"
    and latest :: "'v \<Rightarrow> string \<Rightarrow> string \<Rightarrow> string option"
    and latest_until :: "'v \<Rightarrow> string \<Rightarrow> string \<Rightarrow> string \<Rightarrow> string option"
    and has_exact :: "'v \<Rightarrow> string \<Rightarrow> string \<Rightarrow> string \<Rightarrow> bool"
  assumes append_history:
      "append now r v = (ts, v') \<Longrightarrow>
       history v' db tbl = history v db tbl @ (if for_table db tbl r then [r\<lparr>rec_timestamp := ts\<rparr>] else [])"
    and latest_max: "latest v db tbl = greatest (rec_timestamp ` set (history v db tbl))"
    and latest_until_max:
      "latest_until v db tbl ts = greatest {t \<in> rec_timestamp ` set (history v db tbl). t \<le> ts}"
    and has_exact_iff: "has_exact v db tbl ts \<longleftrightarrow> ts \<in> rec_timestamp ` set (history v db tbl)"
begin

text \<open>The latest timestamp bounds every record of the table.\<close>

lemma latest_bound:
  assumes "latest v db tbl = Some ts" "r \<in> set (history v db tbl)"
  shows "rec_timestamp r \<le> ts"
  using assms by (auto simp: latest_max greatest_def split: if_splits)

lemma latest_None: "latest v db tbl = None \<longleftrightarrow> history v db tbl = []"
  by (simp add: latest_max greatest_def)

text \<open>A timestamp at or before another one is one of the table's own, and no later one qualifies.\<close>

lemma latest_until_exact:
  assumes "has_exact v db tbl ts"
  shows "latest_until v db tbl ts = Some ts"
proof -
  have "Max {t \<in> rec_timestamp ` set (history v db tbl). t \<le> ts} = ts"
    using assms by (intro Max_eqI) (auto simp: has_exact_iff)
  moreover have "ts \<in> {t \<in> rec_timestamp ` set (history v db tbl). t \<le> ts}"
    using assms by (simp add: has_exact_iff)
  ultimately show ?thesis unfolding latest_until_max greatest_def by auto
qed

end

interpretation versions: change_log VersionAppend HistoryForTable LatestTimestampForTable
  LatestTimestampAtOrBefore HasExactTimestampForTable
proof
  show "HistoryForTable v' db tbl
      = HistoryForTable v db tbl @ (if for_table db tbl r then [r\<lparr>rec_timestamp := ts\<rparr>] else [])"
    if "VersionAppend now r v = (ts, v')" for now r v ts v' db tbl
    using that by (auto simp: VersionAppend_def Let_def HistoryForTable_def for_table_def)
qed (rule LatestTimestampForTable_greatest LatestTimestampAtOrBefore_greatest HasExact_iff)+

section \<open>The format of timestamps\<close>

text \<open>
  The pattern that \<^verbatim>\<open>REVERT\<close> checks, \<^verbatim>\<open>^\d{4}\.\d{2}\.\d{2}-\d{2}:\d{2}:\d{2}\.\d{6}$\<close>: in the
  template a \<open>d\<close> stands for a digit and every other character for itself.
\<close>

definition is_digit :: "char \<Rightarrow> bool" where
  "is_digit c \<longleftrightarrow> CHR ''0'' \<le> c \<and> c \<le> CHR ''9''"

definition fits_template :: "string \<Rightarrow> string \<Rightarrow> bool" where
  "fits_template template s =
     list_all2 (\<lambda>t c. if t = CHR ''d'' then is_digit c else c = t) template s"

definition timestamp_pattern :: "string \<Rightarrow> bool" where
  "timestamp_pattern s = fits_template ''dddd.dd.dd-dd:dd:dd.dddddd'' s"

lemma is_digit_digit_char: "d < 10 \<Longrightarrow> is_digit (digit_char d)"
  by (simp add: is_digit_def digit_char_def less_eq_char_def)

lemma nat_to_string_digits: "list_all is_digit (nat_to_string n)"
proof (induction n rule: nat_to_string.induct)
  case (1 n)
  then show ?case
    by (subst nat_to_string.simps) (simp add: is_digit_digit_char)
qed

lemma nat_to_string_length:
  assumes "n < 10 ^ Suc k"
  shows "length (nat_to_string n) \<le> Suc k"
  using assms
proof (induction k arbitrary: n)
  case 0
  then show ?case by (subst nat_to_string.simps) simp
next
  case (Suc k)
  then have "n div 10 < 10 ^ Suc k" by (simp add: less_mult_imp_div_less mult.commute)
  with Suc.IH [of "n div 10"] show ?case by (subst nat_to_string.simps) simp
qed

lemma nat_to_string_length_ge: "10 ^ k \<le> n \<Longrightarrow> Suc k \<le> length (nat_to_string n)"
proof (induction k arbitrary: n)
  case 0
  then show ?case by (subst nat_to_string.simps) simp
next
  case (Suc k)
  have "(1::nat) \<le> 10 ^ k" by simp
  then have "\<not> n < 10" using Suc.prems unfolding power_Suc by linarith
  moreover have "10 ^ k \<le> n div 10" using Suc.prems by (simp add: less_eq_div_iff_mult_less_eq mult.commute)
  ultimately have "10 ^ k \<le> n div 10" "\<not> n < 10" by auto
  with Suc.IH [of "n div 10"] show ?case by (subst nat_to_string.simps) simp
qed

lemma fits_digits:
  "list_all is_digit s \<Longrightarrow> length s = k \<Longrightarrow> fits_template (replicate k (CHR ''d'')) s"
  by (auto simp: fits_template_def list_all2_conv_all_nth list_all_length)

lemma fits_append:
  "fits_template t s \<Longrightarrow> fits_template t' s' \<Longrightarrow> fits_template (t @ t') (s @ s')"
  by (simp add: fits_template_def list_all2_appendI)

lemma zero_padded_fits:
  assumes "n < 10 ^ Suc k"
  shows "fits_template (replicate (Suc k) (CHR ''d'')) (zero_padded (Suc k) n)"
proof (rule fits_digits)
  show "list_all is_digit (zero_padded (Suc k) n)"
    using nat_to_string_digits [of n]
    by (auto simp: zero_padded_def Let_def list_all_iff is_digit_def less_eq_char_def)
  show "length (zero_padded (Suc k) n) = Suc k"
    using nat_to_string_length [OF assms] by (simp add: zero_padded_def Let_def)
qed

definition calendar_reading :: "clock_reading \<Rightarrow> bool" where
  "calendar_reading t \<longleftrightarrow>
     1000 \<le> year t \<and> year t \<le> 9999 \<and> month t \<le> 12 \<and> day t \<le> 31 \<and> hour t \<le> 23 \<and>
     minute t \<le> 59 \<and> second t \<le> 60 \<and> micros t < 1000000"

lemma GenerateTimestamp_fits:
  assumes "calendar_reading t"
  shows "timestamp_pattern (GenerateTimestamp t)"
proof -
  have y: "fits_template (replicate 4 (CHR ''d'')) (nat_to_string (year t))"
    using assms nat_to_string_length [of "year t" 3] nat_to_string_length_ge [of 3 "year t"]
    by (intro fits_digits) (auto simp: calendar_reading_def nat_to_string_digits)
  have two: "fits_template (replicate 2 (CHR ''d'')) (zero_padded 2 n)" if "n < 100" for n
    using zero_padded_fits [of n 1] that by (simp add: numeral_2_eq_2)
  have six: "fits_template (replicate 6 (CHR ''d'')) (zero_padded 6 (micros t))"
    using zero_padded_fits [of "micros t" 5] assms by (simp add: calendar_reading_def)
  have sep: "fits_template ''.'' ''.''" "fits_template ''-'' ''-''" "fits_template '':'' '':''"
    by (simp_all add: fits_template_def)
  have pat: "timestamp_pattern s = fits_template (replicate 4 (CHR ''d'') @ ''.'' @ replicate 2 (CHR ''d'') @ ''.'' @
      replicate 2 (CHR ''d'') @ ''-'' @ replicate 2 (CHR ''d'') @ '':'' @ replicate 2 (CHR ''d'') @ '':'' @
      replicate 2 (CHR ''d'') @ ''.'' @ replicate 6 (CHR ''d'')) s" for s
    by (simp add: timestamp_pattern_def numeral_eq_Suc)
  show ?thesis
    unfolding GenerateTimestamp_def pat
    by (intro fits_append y two six sep; use assms in \<open>simp add: calendar_reading_def\<close>)
qed

end
