(* ===== verification/Execution.thy ===== *)
theory Execution
  imports Planner Version_Store "HOL-Library.Signed_Division"
begin

text \<open>
  The execution engine (\<^verbatim>\<open>src/execution/execution_engine.cpp\<close>): one definition per statement kind and
  per helper. The state of the engine is the four objects it holds references to, and the number of
  clock readings so far. A statement returns the new state together with its result, since a
  statement that ends in an error may already have changed the state. The clock (\<open>clock n\<close> is the
  \<open>n\<close>-th reading) and the regular expression matcher are arguments.
\<close>

section \<open>State\<close>

record SessionContext =
  client_id :: string
  user_id :: "string option"
  current_database :: string

record QueryResult =
  result_rows :: "RowData list"
  column_names :: "string list"
  result_message :: string

record Engine =
  catalog :: Catalog
  runtime :: RuntimeState
  versions :: VersionStore
  pool :: StringPool
  clock_reads :: nat

type_synonym clock = "nat \<Rightarrow> clock_reading"

definition message_result :: "string \<Rightarrow> QueryResult Result" where
  "message_result m = MakeSuccess \<lparr>result_rows = [], column_names = [], result_message = m\<rparr>"

definition ResolveDatabaseName :: "SessionContext \<Rightarrow> string option \<Rightarrow> string Result" where
  "ResolveDatabaseName session requested =
     (case requested of
        Some d \<Rightarrow> MakeSuccess d
      | None \<Rightarrow>
          (if current_database session = [] then MakeError kValidationError ''no active database selected''
           else MakeSuccess (current_database session)))"

text \<open>
  What every statement on a table does first: the database name, the database and the table. The
  result is the database's name with the table.
\<close>

definition find_database :: "Engine \<Rightarrow> SessionContext \<Rightarrow> QualifiedName \<Rightarrow> (string \<times> DatabaseRuntime) Result" where
  "find_database eng session name =
     bind_result (ResolveDatabaseName session (database_name name)) (\<lambda>d.
       case umap_find (databases (runtime eng)) d of
         None \<Rightarrow> MakeError kNotFound (''database not found: '' @ d)
       | Some db \<Rightarrow> Inr (d, db))"

definition locate_table :: "Engine \<Rightarrow> SessionContext \<Rightarrow> QualifiedName \<Rightarrow> (string \<times> TableRuntime) Result" where
  "locate_table eng session name =
     bind_result (find_database eng session name) (\<lambda>(d, db).
       case umap_find (tables db) (object_name name) of
         None \<Rightarrow> MakeError kNotFound (''table not found: '' @ object_name name)
       | Some t \<Rightarrow> Inr (d, t))"

text \<open>Writing through the reference to the table inside the runtime state.\<close>

definition put_table :: "string \<Rightarrow> string \<Rightarrow> TableRuntime \<Rightarrow> Engine \<Rightarrow> Engine" where
  "put_table d n t eng =
     (case umap_find (databases (runtime eng)) d of
        None \<Rightarrow> eng
      | Some db \<Rightarrow>
          eng\<lparr>runtime := (runtime eng)\<lparr>databases :=
            umap_assign d (db\<lparr>tables := umap_assign n t (tables db)\<rparr>) (databases (runtime eng))\<rparr>\<rparr>)"

section \<open>Rows\<close>

definition InternStringValue :: "Value \<Rightarrow> StringPool \<Rightarrow> Value \<times> StringPool" where
  "InternStringValue v p =
     (case v of
        Str s \<Rightarrow> (case Intern s p of (q, p') \<Rightarrow> (IStr q, p'))
      | _ \<Rightarrow> (v, p))"

fun intern_values :: "Value list \<Rightarrow> StringPool \<Rightarrow> Value list \<times> StringPool" where
  "intern_values [] p = ([], p)"
| "intern_values (v # vs) p =
     (case InternStringValue v p of
        (v', p1) \<Rightarrow> (case intern_values vs p1 of (vs', p2) \<Rightarrow> (v' # vs', p2)))"

definition InternStringValues :: "RowData \<Rightarrow> StringPool \<Rightarrow> RowData \<times> StringPool" where
  "InternStringValues row p =
     (case intern_values (row_values row) p of (vs, p') \<Rightarrow> (row\<lparr>row_values := vs\<rparr>, p'))"

text \<open>The loop of \<^verbatim>\<open>ValidateRowAgainstSchema\<close> over the columns and the values at their positions.\<close>

fun validate_values ::
  "ColumnDefinition list \<Rightarrow> Value list \<Rightarrow> StringPool \<Rightarrow> (Value list \<times> StringPool) \<times> unit Result" where
  "validate_values [] vs p = ((vs, p), Inr ())"
| "validate_values (c # cs) [] p = (([], p), Inl (Thrown UndefinedBehaviour))"
| "validate_values (c # cs) (v # vs) p =
     (let v1 = (if IsNull v then (case col_default c of Some d \<Rightarrow> d | None \<Rightarrow> v) else v);
          (v2, p1) = InternStringValue v1 p;
          allow_null = (col_constraint c \<noteq> kNotNull \<and> col_constraint c \<noteq> kIndexed)
      in if \<not> CanAssignToType v2 (col_type c) allow_null
         then ((v2 # vs, p1),
               MakeError kConstraintViolation
                 (''type/nullability constraint violation for column: '' @ col_name c))
         else (case validate_values cs vs p1 of ((vs', p2), r) \<Rightarrow> ((v2 # vs', p2), r)))"

definition ValidateRowAgainstSchema :: "RowData \<Rightarrow> TableSchema \<Rightarrow> StringPool \<Rightarrow> (RowData \<times> StringPool) \<times> unit Result" where
  "ValidateRowAgainstSchema row s p =
     (case validate_values (columns s) (row_values row) p of
        ((vs, p'), r) \<Rightarrow> ((row\<lparr>row_values := vs\<rparr>, p'), r))"

section \<open>Indexes\<close>

definition rebuild_entry :: "TableSchema \<Rightarrow> RowData \<Rightarrow> string \<times> BStarPlusTree \<Rightarrow> (string \<times> BStarPlusTree) Result" where
  "rebuild_entry s row entry =
     (case entry of (column_name, index_tree) \<Rightarrow>
        (case FindColumnIndex s column_name of
           None \<Rightarrow> MakeError kSemanticError (''indexed column not found in schema: '' @ column_name)
         | Some i \<Rightarrow>
             bind_result (row_value row i) (\<lambda>value.
               if IsNull value
               then MakeError kConstraintViolation (''INDEXED column cannot be NULL: '' @ column_name)
               else bind_result (EncodeIndexKey value (col_type (columns s ! i))) (\<lambda>key.
                      bind_result (Find index_tree key) (\<lambda>ids.
                        if ids \<noteq> []
                        then MakeError kConstraintViolation (''duplicate value for INDEXED column: '' @ column_name)
                        else bind_result (Insert index_tree key (row_id row)) (\<lambda>tree.
                               Inr (column_name, tree)))))))"

text \<open>\<^verbatim>\<open>RebuildIndexes\<close> works on a local map and assigns it to the table at the end.\<close>

definition RebuildIndexes :: "TableSchema \<Rightarrow> RowData list \<Rightarrow> (string, BStarPlusTree) umap Result" where
  "RebuildIndexes s rows = foldM (\<lambda>trees row. mapM (rebuild_entry s row) trees) rows (new_indexes s)"

section \<open>History\<close>

definition RowValuesEqual :: "RowData \<Rightarrow> RowData \<Rightarrow> bool Result" where
  "RowValuesEqual lhs rhs =
     (if length (row_values lhs) \<noteq> length (row_values rhs) then Inr False
      else foldM (\<lambda>equal (l, r).
             if \<not> equal then Inr False
             else if GetValueType l \<noteq> GetValueType r then Inr False
             else bind_result (CompareValues l r) (\<lambda>c. Inr (c = 0)))
           (zip (row_values lhs) (row_values rhs)) True)"

definition AppendChangeEvent ::
  "clock \<Rightarrow> ChangeKind \<Rightarrow> string \<Rightarrow> string \<Rightarrow> TableSchema option \<Rightarrow> RowData option \<Rightarrow> RowData option
     \<Rightarrow> Engine \<Rightarrow> Engine" where
  "AppendChangeEvent clk kind d n s before after eng =
     eng\<lparr>versions := snd (VersionAppend (clk (clock_reads eng))
            \<lparr>rec_kind = kind, rec_database = d, rec_table = n, rec_timestamp = [],
             rec_row_id = (case after of Some row \<Rightarrow> row_id row
                           | None \<Rightarrow> (case before of Some row \<Rightarrow> row_id row | None \<Rightarrow> kInvalidRowId)),
             rec_schema = s, before_row = before, after_row = after\<rparr> (versions eng)),
         clock_reads := clock_reads eng + 1\<rparr>"

definition replay_record :: "(RowId, RowData) umap \<Rightarrow> ChangeRecord \<Rightarrow> (RowId, RowData) umap" where
  "replay_record rows_by_id r =
     (case rec_kind r of
        kCreateTable \<Rightarrow> []
      | kDropTable \<Rightarrow> []
      | kInsertRow \<Rightarrow> (case after_row r of Some row \<Rightarrow> umap_assign (row_id row) row rows_by_id | None \<Rightarrow> rows_by_id)
      | kUpdateRow \<Rightarrow> (case after_row r of Some row \<Rightarrow> umap_assign (row_id row) row rows_by_id | None \<Rightarrow> rows_by_id)
      | kDeleteRow \<Rightarrow> (case before_row r of Some row \<Rightarrow> umap_erase (row_id row) rows_by_id | None \<Rightarrow> rows_by_id)
      | kCreateDatabase \<Rightarrow> rows_by_id
      | kDropDatabase \<Rightarrow> rows_by_id)"

definition ReconstructTableStateAt :: "VersionStore \<Rightarrow> string \<Rightarrow> string \<Rightarrow> string \<Rightarrow> RowData list" where
  "ReconstructTableStateAt vs d n timestamp =
     sort_key row_id
       (map snd (foldl (\<lambda>m r. if timestamp < rec_timestamp r then m else replay_record m r) []
                   (HistoryForTable vs d n)))"

section \<open>Databases and tables\<close>

definition ExecuteCreateDatabase :: "clock \<Rightarrow> string \<Rightarrow> Engine \<Rightarrow> Engine \<times> QueryResult Result" where
  "ExecuteCreateDatabase clk name eng =
     (if umap_contains (databases (runtime eng)) name
      then (eng, MakeError kAlreadyExists (''database already exists: '' @ name))
      else
        let eng1 = eng\<lparr>catalog := CatalogCreateDatabase name (catalog eng),
                       runtime := (runtime eng)\<lparr>databases :=
                         umap_emplace name \<lparr>db_name = name, tables = []\<rparr> (databases (runtime eng))\<rparr>\<rparr>
        in (AppendChangeEvent clk kCreateDatabase name [] None None None eng1,
            message_result ''database created''))"

definition ExecuteUseDatabase :: "string \<Rightarrow> Engine \<Rightarrow> SessionContext \<Rightarrow> SessionContext \<times> QueryResult Result" where
  "ExecuteUseDatabase name eng session =
     (if \<not> umap_contains (databases (runtime eng)) name
      then (session, MakeError kNotFound (''database not found: '' @ name))
      else (session\<lparr>current_database := name\<rparr>, message_result ''database selected''))"

definition ExecuteDropDatabase ::
  "clock \<Rightarrow> string \<Rightarrow> Engine \<Rightarrow> SessionContext \<Rightarrow> (Engine \<times> SessionContext) \<times> QueryResult Result" where
  "ExecuteDropDatabase clk name eng session =
     (if \<not> umap_contains (databases (runtime eng)) name
      then ((eng, session), MakeError kNotFound (''database not found: '' @ name))
      else
        let eng1 = eng\<lparr>runtime := (runtime eng)\<lparr>databases := umap_erase name (databases (runtime eng))\<rparr>,
                       catalog := CatalogDropDatabase name (catalog eng)\<rparr>;
            session1 = (if current_database session = name then session\<lparr>current_database := []\<rparr> else session)
        in ((AppendChangeEvent clk kDropDatabase name [] None None None eng1, session1),
            message_result ''database dropped''))"

fun make_columns :: "AstColumn list \<Rightarrow> StringPool \<Rightarrow> ColumnDefinition list \<times> StringPool" where
  "make_columns [] p = ([], p)"
| "make_columns (col # cols) p =
     (let constraint = (if ast_indexed col then kIndexed else if ast_not_null col then kNotNull else kNone);
          (default, p1) =
            (case ast_default col of
               None \<Rightarrow> (None, p)
             | Some v \<Rightarrow> (case InternStringValue v p of (v', p') \<Rightarrow> (Some v', p')));
          (rest, p2) = make_columns cols p1
      in (\<lparr>col_name = ast_name col, col_type = ast_type col, col_constraint = constraint,
           col_default = default\<rparr> # rest, p2))"

definition make_index_definitions :: "string \<Rightarrow> AstColumn list \<Rightarrow> IndexDefinition list" where
  "make_index_definitions table cols =
     map (\<lambda>col. \<lparr>index_name = ''idx_'' @ table @ ''_'' @ ast_name col, index_column = ast_name col,
                  index_unique = True, is_primary_access_path = True\<rparr>)
       (filter ast_indexed cols)"

definition ExecuteCreateTable ::
  "clock \<Rightarrow> QualifiedName \<Rightarrow> AstColumn list \<Rightarrow> Engine \<Rightarrow> SessionContext \<Rightarrow> Engine \<times> QueryResult Result" where
  "ExecuteCreateTable clk name cols eng session =
     (case find_database eng session name of
        Inl e \<Rightarrow> (eng, Inl e)
      | Inr (d, db) \<Rightarrow>
          (if umap_contains (tables db) (object_name name)
           then (eng, MakeError kAlreadyExists (''table already exists: '' @ object_name name))
           else
             let (columns', p) = make_columns cols (pool eng);
                 s = \<lparr>schema_database = d, schema_table = object_name name, columns = columns',
                      schema_indexes = make_index_definitions (object_name name) cols\<rparr>;
                 t = \<lparr>schema = s, heap = make_heap s, indexes = new_indexes s\<rparr>;
                 eng1 = put_table d (object_name name) t (eng\<lparr>pool := p\<rparr>);
                 eng2 = AppendChangeEvent clk kCreateTable d (object_name name) (Some s) None None eng1
             in (eng2\<lparr>catalog := RegisterTable s (catalog eng2)\<rparr>, message_result ''table created'')))"

definition ExecuteDropTable ::
  "clock \<Rightarrow> QualifiedName \<Rightarrow> Engine \<Rightarrow> SessionContext \<Rightarrow> Engine \<times> QueryResult Result" where
  "ExecuteDropTable clk name eng session =
     (case find_database eng session name of
        Inl e \<Rightarrow> (eng, Inl e)
      | Inr (d, db) \<Rightarrow>
          (case umap_find (tables db) (object_name name) of
             None \<Rightarrow> (eng, MakeError kNotFound (''table not found: '' @ object_name name))
           | Some t \<Rightarrow>
               let eng1 = eng\<lparr>runtime := (runtime eng)\<lparr>databases :=
                     umap_assign d (db\<lparr>tables := umap_erase (object_name name) (tables db)\<rparr>)
                       (databases (runtime eng))\<rparr>\<rparr>
               in (AppendChangeEvent clk kDropTable d (object_name name) (Some (schema t)) None None eng1,
                   message_result ''table dropped'')))"

section \<open>INSERT\<close>

text \<open>\<^verbatim>\<open>input_to_schema\<close>: the position of every named column.\<close>

definition input_positions :: "TableSchema \<Rightarrow> string list \<Rightarrow> nat list Result" where
  "input_positions s names =
     mapM (\<lambda>name. case FindColumnIndex s name of
                    None \<Rightarrow> MakeError kSemanticError (''unknown column in INSERT: '' @ name)
                  | Some i \<Rightarrow> Inr i) names"

text \<open>The literals of an input row at their positions; more literals than names run off the vector.\<close>

fun fill_values :: "Expression list \<Rightarrow> nat list \<Rightarrow> Value list \<Rightarrow> Value list Result" where
  "fill_values [] positions vs = Inr vs"
| "fill_values (LiteralExpression v # es) positions vs =
     (case positions of
        [] \<Rightarrow> Inl (Thrown UndefinedBehaviour)
      | i # is \<Rightarrow> fill_values es is (vs[i := v]))"
| "fill_values (e # es) positions vs =
     MakeError kValidationError ''INSERT currently accepts only literal values''"

text \<open>The uniqueness check of a row against one index; an index without a column is skipped.\<close>

definition check_unique :: "TableSchema \<Rightarrow> RowData \<Rightarrow> string \<times> BStarPlusTree \<Rightarrow> unit Result" where
  "check_unique s row entry =
     (case entry of (column, index_tree) \<Rightarrow>
        (case FindColumnIndex s column of
           None \<Rightarrow> Inr ()
         | Some i \<Rightarrow>
             bind_result (row_value row i) (\<lambda>value.
               if IsNull value
               then MakeError kConstraintViolation (''INDEXED column cannot be NULL: '' @ column)
               else bind_result (EncodeIndexKey value (col_type (columns s ! i))) (\<lambda>encoded_key.
                      bind_result (Find index_tree encoded_key) (\<lambda>ids.
                        if ids \<noteq> []
                        then MakeError kConstraintViolation (''duplicate value for INDEXED column: '' @ column)
                        else Inr ())))))"

definition insert_into_index ::
  "TableSchema \<Rightarrow> RowData \<Rightarrow> string \<times> BStarPlusTree \<Rightarrow> (string \<times> BStarPlusTree) \<times> unit Result" where
  "insert_into_index s row entry =
     (case entry of (column, index_tree) \<Rightarrow>
        (case FindColumnIndex s column of
           None \<Rightarrow> (entry, Inr ())
         | Some i \<Rightarrow>
             (case bind_result (row_value row i) (\<lambda>value.
                     bind_result (EncodeIndexKey value (col_type (columns s ! i))) (\<lambda>key.
                       Insert index_tree key (row_id row))) of
                Inl e \<Rightarrow> (entry, Inl e)
              | Inr tree \<Rightarrow> ((column, tree), Inr ()))))"

text \<open>One round of the loop over the input rows, on the table and the engine.\<close>

definition insert_row ::
  "clock \<Rightarrow> string \<Rightarrow> nat list \<Rightarrow> TableRuntime \<times> Engine \<Rightarrow> Expression list
     \<Rightarrow> (TableRuntime \<times> Engine) \<times> unit Result" where
  "insert_row clk d positions state input_row =
     (case state of (t, eng) \<Rightarrow>
        (case fill_values input_row positions (replicate (length (columns (schema t))) Monostate) of
           Inl e \<Rightarrow> ((t, eng), Inl e)
         | Inr vs \<Rightarrow>
             (let (row1, p1) = InternStringValues \<lparr>row_id = kInvalidRowId, row_values = vs\<rparr> (pool eng)
              in case ValidateRowAgainstSchema row1 (schema t) p1 of
                   ((row2, p2), Inl e) \<Rightarrow> ((t, eng\<lparr>pool := p2\<rparr>), Inl e)
                 | ((row2, p2), Inr _) \<Rightarrow>
                     (let eng2 = eng\<lparr>pool := p2\<rparr>
                      in case foldM (\<lambda>_. check_unique (schema t) row2) (indexes t) () of
                           Inl e \<Rightarrow> ((t, eng2), Inl e)
                         | Inr _ \<Rightarrow>
                             (let (rid, h) = HeapInsert row2 (heap t);
                                  row3 = row2\<lparr>row_id := rid\<rparr>
                              in case map_until (insert_into_index (schema t) row3) (indexes t) of
                                   (ixs, Inl e) \<Rightarrow> ((t\<lparr>heap := h, indexes := ixs\<rparr>, eng2), Inl e)
                                 | (ixs, Inr _) \<Rightarrow>
                                     ((t\<lparr>heap := h, indexes := ixs\<rparr>,
                                       AppendChangeEvent clk kInsertRow d (schema_table (schema t)) None None
                                         (Some row3) eng2), Inr ()))))))"

definition ExecuteInsert ::
  "clock \<Rightarrow> InsertStatement \<Rightarrow> Engine \<Rightarrow> SessionContext \<Rightarrow> Engine \<times> QueryResult Result" where
  "ExecuteInsert clk ins eng session =
     (case locate_table eng session (insert_table ins) of
        Inl e \<Rightarrow> (eng, Inl e)
      | Inr (d, t) \<Rightarrow>
          (case input_positions (schema t) (insert_columns ins) of
             Inl e \<Rightarrow> (eng, Inl e)
           | Inr positions \<Rightarrow>
               (case iterate_until (insert_row clk d positions) (insert_rows ins) (t, eng) of
                  ((t', eng'), r) \<Rightarrow>
                    (put_table d (object_name (insert_table ins)) t' eng',
                     bind_result r (\<lambda>_. message_result ''rows inserted'')))))"

section \<open>UPDATE\<close>

definition apply_assignment :: "TableSchema \<Rightarrow> RowData \<Rightarrow> Assignment \<Rightarrow> RowData Result" where
  "apply_assignment s row a =
     (case a of (column_name, e) \<Rightarrow>
        (case FindColumnIndex s column_name of
           None \<Rightarrow> MakeError kSemanticError (''unknown column in UPDATE: '' @ column_name)
         | Some i \<Rightarrow>
             bind_result (EvaluateValueExpression e s row) (\<lambda>v.
               if i < length (row_values row) then Inr (row\<lparr>row_values := (row_values row)[i := v]\<rparr>)
               else Inl (Thrown UndefinedBehaviour))))"

text \<open>One round of the loop over the rows: the rows so far, their number and the engine.\<close>

definition update_row ::
  "regex \<Rightarrow> clock \<Rightarrow> UpdateStatement \<Rightarrow> string \<Rightarrow> TableSchema \<Rightarrow> (RowData list \<times> nat) \<times> Engine \<Rightarrow> RowData
     \<Rightarrow> ((RowData list \<times> nat) \<times> Engine) \<times> unit Result" where
  "update_row rx clk upd d s state row =
     (case state of ((rows, cnt), eng) \<Rightarrow>
        (case passes rx (update_where upd) s row of
           Inl e \<Rightarrow> (state, Inl e)
         | Inr should_update \<Rightarrow>
             (if \<not> should_update then (((rows @ [row], cnt), eng), Inr ())
              else case foldM (apply_assignment s) (assignments upd) row of
                     Inl e \<Rightarrow> (state, Inl e)
                   | Inr row1 \<Rightarrow>
                       (let (row2, p1) = InternStringValues row1 (pool eng)
                        in case ValidateRowAgainstSchema row2 s p1 of
                             ((row3, p2), Inl e) \<Rightarrow> (((rows, cnt), eng\<lparr>pool := p2\<rparr>), Inl e)
                           | ((row3, p2), Inr _) \<Rightarrow>
                               (((rows @ [row3], cnt + 1),
                                 AppendChangeEvent clk kUpdateRow d (schema_table s) None (Some row) (Some row3)
                                   (eng\<lparr>pool := p2\<rparr>)), Inr ())))))"

definition ExecuteUpdate ::
  "regex \<Rightarrow> clock \<Rightarrow> UpdateStatement \<Rightarrow> Engine \<Rightarrow> SessionContext \<Rightarrow> Engine \<times> QueryResult Result" where
  "ExecuteUpdate rx clk upd eng session =
     (case locate_table eng session (update_table upd) of
        Inl e \<Rightarrow> (eng, Inl e)
      | Inr (d, t) \<Rightarrow>
          (case iterate_until (update_row rx clk upd d (schema t)) (ScanAll (heap t)) (([], 0), eng) of
             ((_, eng'), Inl e) \<Rightarrow> (eng', Inl e)
           | (((rows, cnt), eng'), Inr _) \<Rightarrow>
               (case RebuildIndexes (schema t) rows of
                  Inl e \<Rightarrow> (eng', Inl e)
                | Inr ixs \<Rightarrow>
                    (put_table d (object_name (update_table upd))
                       (t\<lparr>indexes := ixs, heap := HeapReplaceAll rows (heap t)\<rparr>) eng',
                     message_result (''updated '' @ nat_to_string cnt @ '' row(s)'')))))"

section \<open>DELETE\<close>

definition delete_row ::
  "regex \<Rightarrow> clock \<Rightarrow> DeleteStatement \<Rightarrow> string \<Rightarrow> TableSchema \<Rightarrow> (RowData list \<times> nat) \<times> Engine \<Rightarrow> RowData
     \<Rightarrow> ((RowData list \<times> nat) \<times> Engine) \<times> unit Result" where
  "delete_row rx clk del d s state row =
     (case state of ((kept_rows, cnt), eng) \<Rightarrow>
        (case passes rx (delete_where del) s row of
           Inl e \<Rightarrow> (state, Inl e)
         | Inr should_delete \<Rightarrow>
             (if should_delete
              then (((kept_rows, cnt + 1),
                     AppendChangeEvent clk kDeleteRow d (schema_table s) None (Some row) None eng), Inr ())
              else (((kept_rows @ [row], cnt), eng), Inr ()))))"

definition ExecuteDelete ::
  "regex \<Rightarrow> clock \<Rightarrow> DeleteStatement \<Rightarrow> Engine \<Rightarrow> SessionContext \<Rightarrow> Engine \<times> QueryResult Result" where
  "ExecuteDelete rx clk del eng session =
     (case locate_table eng session (delete_table del) of
        Inl e \<Rightarrow> (eng, Inl e)
      | Inr (d, t) \<Rightarrow>
          (case iterate_until (delete_row rx clk del d (schema t)) (ScanAll (heap t)) (([], 0), eng) of
             ((_, eng'), Inl e) \<Rightarrow> (eng', Inl e)
           | (((kept_rows, cnt), eng'), Inr _) \<Rightarrow>
               (case RebuildIndexes (schema t) kept_rows of
                  Inl e \<Rightarrow> (eng', Inl e)
                | Inr ixs \<Rightarrow>
                    (put_table d (object_name (delete_table del))
                       (t\<lparr>indexes := ixs, heap := HeapReplaceAll kept_rows (heap t)\<rparr>) eng',
                     message_result (''deleted '' @ nat_to_string cnt @ '' row(s)'')))))"

section \<open>SELECT\<close>

text \<open>\<^verbatim>\<open>std::int64_t\<close> arithmetic of the aggregates: the counters and the acc wrap around at 64 bits.\<close>

definition count_rows :: "nat option \<Rightarrow> RowData list \<Rightarrow> 64 word Result" where
  "count_rows column_index rows =
     (case column_index of
        None \<Rightarrow> Inr (of_nat (length rows))
      | Some i \<Rightarrow>
          foldM (\<lambda>cnt row. bind_result (row_value row i) (\<lambda>v. Inr (if IsNull v then cnt else cnt + 1)))
            rows 0)"

text \<open>The sum wraps around where C++ leaves signed overflow undefined.\<close>

definition sum_rows :: "nat \<Rightarrow> RowData list \<Rightarrow> (64 word \<times> 64 word) Result" where
  "sum_rows i rows =
     foldM (\<lambda>(acc, cnt) row.
         bind_result (row_value row i) (\<lambda>v.
           case v of
             Monostate \<Rightarrow> Inr (acc, cnt)
           | Int64 w \<Rightarrow> Inr (acc + w, cnt + 1)
           | _ \<Rightarrow> MakeError kTypeMismatch ''SUM/AVG require INT column values''))
       rows (0, 0)"

text \<open>\<^verbatim>\<open>sum / count\<close> on \<^verbatim>\<open>std::int64_t\<close> truncates toward zero.\<close>

definition average :: "64 word \<Rightarrow> 64 word \<Rightarrow> Value" where
  "average acc cnt = (if cnt = 0 then Monostate else Int64 (word_of_int (sint acc sdiv sint cnt)))"

definition aggregate_value :: "AggregateKind \<Rightarrow> string \<Rightarrow> nat option \<Rightarrow> RowData list \<Rightarrow> Value Result" where
  "aggregate_value kind column_name column_index rows =
     (case kind of
        kCount \<Rightarrow> bind_result (count_rows column_index rows) (\<lambda>n. Inr (Int64 n))
      | _ \<Rightarrow>
          (case column_index of
             None \<Rightarrow> MakeError kSemanticError (''SUM/AVG do not support wildcard '' @ [CHR 0x27, CHR ''*'', CHR 0x27])
           | Some i \<Rightarrow>
               bind_result (sum_rows i rows) (\<lambda>(acc, cnt).
                 Inr (if kind = kSum then Int64 acc else average acc cnt))))"

text \<open>The loop over the items of an aggregate query: the column names and the values.\<close>

definition aggregate_item :: "TableSchema \<Rightarrow> RowData list \<Rightarrow> SelectItem \<Rightarrow> (string \<times> Value) Result" where
  "aggregate_item s rows item =
     (case item_aggregate item of
        None \<Rightarrow> MakeError kSemanticError ''aggregate SELECT cannot contain non-aggregate items''
      | Some kind \<Rightarrow>
          bind_result
            (if item_column item = ''*'' then Inr None
             else case FindColumnIndex s (item_column item) of
                    None \<Rightarrow> MakeError kSemanticError (''unknown column in SELECT: '' @ item_column item)
                  | Some i \<Rightarrow> Inr (Some i))
            (\<lambda>column_index.
               bind_result (aggregate_value kind (item_column item) column_index rows) (\<lambda>v.
                 Inr (case item_alias item of
                        Some a \<Rightarrow> a
                      | None \<Rightarrow> if item_column item = ''*'' then ''count'' else item_column item, v))))"

definition select_aggregate :: "TableSchema \<Rightarrow> SelectItem list \<Rightarrow> RowData list \<Rightarrow> QueryResult Result" where
  "select_aggregate s items rows =
     bind_result (mapM (aggregate_item s rows) items) (\<lambda>cells.
       MakeSuccess \<lparr>result_rows = [\<lparr>row_id = kInvalidRowId, row_values = map snd cells\<rparr>],
                    column_names = map fst cells, result_message = ''selected 1 row(s)''\<rparr>)"

definition project_row :: "TableSchema \<Rightarrow> SelectItem list \<Rightarrow> RowData \<Rightarrow> RowData Result" where
  "project_row s items row =
     (if length items = 1 \<and> is_wildcard (hd items) then Inr row
      else bind_result
             (mapM (\<lambda>item. case FindColumnIndex s (item_column item) of
                             None \<Rightarrow> MakeError kSemanticError (''unknown column in SELECT: '' @ item_column item)
                           | Some i \<Rightarrow> row_value row i) items)
             (\<lambda>vs. Inr \<lparr>row_id = kInvalidRowId, row_values = vs\<rparr>))"

text \<open>The column names are filled in when the first row is projected: no rows, no names.\<close>

definition projected_names :: "TableSchema \<Rightarrow> SelectItem list \<Rightarrow> string list" where
  "projected_names s items =
     (if length items = 1 \<and> is_wildcard (hd items) then map col_name (columns s)
      else map (\<lambda>item. case item_alias item of Some a \<Rightarrow> a | None \<Rightarrow> item_column item) items)"

definition select_projection :: "TableSchema \<Rightarrow> SelectItem list \<Rightarrow> RowData list \<Rightarrow> QueryResult Result" where
  "select_projection s items rows =
     bind_result (mapM (project_row s items) rows) (\<lambda>out.
       MakeSuccess \<lparr>result_rows = out,
                    column_names = (if rows = [] then [] else projected_names s items),
                    result_message = ''selected '' @ nat_to_string (length out) @ '' row(s)''\<rparr>)"

definition ExecuteSelect :: "regex \<Rightarrow> SelectStatement \<Rightarrow> Engine \<Rightarrow> SessionContext \<Rightarrow> QueryResult Result" where
  "ExecuteSelect rx sel eng session =
     bind_result (locate_table eng session (select_table sel)) (\<lambda>(d, t).
       bind_result (FilterRows rx (ScanAll (heap t)) (select_where sel) (schema t) (Some t)) (\<lambda>(rows, used).
         if select_items sel \<noteq> [] \<and> item_aggregate (hd (select_items sel)) \<noteq> None
         then select_aggregate (schema t) (select_items sel) rows
         else select_projection (schema t) (select_items sel) rows))"

section \<open>REVERT\<close>

definition revert_target :: "RevertStatement \<Rightarrow> string \<Rightarrow> VersionStore \<Rightarrow> string option Result" where
  "revert_target rv d vs =
     (let n = object_name (revert_table rv) in
      if revert_mode rv = kLatest then Inr (LatestTimestampForTable vs d n)
      else if \<not> timestamp_pattern (revert_timestamp rv)
      then MakeError kValidationError
             ''invalid REVERT timestamp format, expected YYYY.MM.DD-HH:MM:SS.ffffff''
      else if revert_mode rv = kExact
      then Inr (if HasExactTimestampForTable vs d n (revert_timestamp rv) then Some (revert_timestamp rv) else None)
      else Inr (LatestTimestampAtOrBefore vs d n (revert_timestamp rv)))"

definition rows_by_id :: "RowData list \<Rightarrow> (RowId, RowData) umap" where
  "rows_by_id rows = foldl (\<lambda>m row. umap_emplace (row_id row) row m) [] rows"

text \<open>The change events of a revert: deletions and updates of current rows, then insertions.\<close>

definition revert_current ::
  "clock \<Rightarrow> string \<Rightarrow> string \<Rightarrow> (RowId, RowData) umap \<Rightarrow> Engine \<Rightarrow> RowId \<times> RowData \<Rightarrow> Engine \<times> unit Result" where
  "revert_current clk d n target_by_id eng entry =
     (case entry of (rid, current_row) \<Rightarrow>
        (case umap_find target_by_id rid of
           None \<Rightarrow> (AppendChangeEvent clk kDeleteRow d n None (Some current_row) None eng, Inr ())
         | Some target_row \<Rightarrow>
             (case RowValuesEqual current_row target_row of
                Inl e \<Rightarrow> (eng, Inl e)
              | Inr True \<Rightarrow> (eng, Inr ())
              | Inr False \<Rightarrow>
                  (AppendChangeEvent clk kUpdateRow d n None (Some current_row) (Some target_row) eng, Inr ()))))"

definition revert_added ::
  "clock \<Rightarrow> string \<Rightarrow> string \<Rightarrow> (RowId, RowData) umap \<Rightarrow> Engine \<Rightarrow> RowId \<times> RowData \<Rightarrow> Engine" where
  "revert_added clk d n current_by_id eng entry =
     (case entry of (rid, target_row) \<Rightarrow>
        (if umap_contains current_by_id rid then eng
         else AppendChangeEvent clk kInsertRow d n None None (Some target_row) eng))"

definition revert_table_to ::
  "clock \<Rightarrow> string \<Rightarrow> string \<Rightarrow> TableRuntime \<Rightarrow> string \<Rightarrow> Engine \<Rightarrow> Engine \<times> QueryResult Result" where
  "revert_table_to clk d n t target_timestamp eng =
     (let target_rows = ReconstructTableStateAt (versions eng) d n target_timestamp in
      if list_ex (\<lambda>row. length (row_values row) \<noteq> length (columns (schema t))) target_rows
      then (eng, MakeError kValidationError ''history row shape mismatch for table schema'')
      else
        let current_by_id = rows_by_id (ScanAll (heap t));
            target_by_id = rows_by_id target_rows;
            tn = schema_table (schema t)
        in case iterate_until (revert_current clk d tn target_by_id) current_by_id eng of
             (eng1, Inl e) \<Rightarrow> (eng1, Inl e)
           | (eng1, Inr _) \<Rightarrow>
               (let eng2 = foldl (revert_added clk d tn current_by_id) eng1 target_by_id
                in case RebuildIndexes (schema t) target_rows of
                     Inl e \<Rightarrow> (eng2, Inl e)
                   | Inr ixs \<Rightarrow>
                       (put_table d n (t\<lparr>indexes := ixs, heap := HeapReplaceAll target_rows (heap t)\<rparr>) eng2,
                        message_result (''reverted to '' @ target_timestamp))))"

definition ExecuteRevert ::
  "clock \<Rightarrow> RevertStatement \<Rightarrow> Engine \<Rightarrow> SessionContext \<Rightarrow> Engine \<times> QueryResult Result" where
  "ExecuteRevert clk rv eng session =
     (case locate_table eng session (revert_table rv) of
        Inl e \<Rightarrow> (eng, Inl e)
      | Inr (d, t) \<Rightarrow>
          (case revert_target rv d (versions eng) of
             Inl e \<Rightarrow> (eng, Inl e)
           | Inr None \<Rightarrow> (eng, MakeError kNotFound ''no history available for REVERT'')
           | Inr (Some ts) \<Rightarrow> revert_table_to clk d (object_name (revert_table rv)) t ts eng))"

section \<open>Index commands and dispatch\<close>

definition ExecuteCheckIndex :: "Engine \<Rightarrow> QueryResult Result" where
  "ExecuteCheckIndex eng =
     bind_result (ValidateRuntimeIndexConsistency (runtime eng)) (\<lambda>_. message_result ''index check passed'')"

definition ExecuteRebuildIndex :: "Engine \<Rightarrow> Engine \<times> QueryResult Result" where
  "ExecuteRebuildIndex eng =
     (case RebuildRuntimeIndexes (runtime eng) of
        (st, r) \<Rightarrow> (eng\<lparr>runtime := st\<rparr>, bind_result r (\<lambda>_. message_result ''index rebuild completed'')))"

definition Execute ::
  "regex \<Rightarrow> clock \<Rightarrow> PlanNode \<Rightarrow> Engine \<Rightarrow> SessionContext \<Rightarrow> (Engine \<times> SessionContext) \<times> QueryResult Result" where
  "Execute rx clk plan eng session =
     (case plan_statement plan of
        None \<Rightarrow> ((eng, session), MakeError kValidationError ''plan has no attached statement'')
      | Some stmt \<Rightarrow>
          (let with_session = (\<lambda>(eng', r). ((eng', session), r)) in
           case stmt of
             CreateDatabaseStatement n \<Rightarrow> with_session (ExecuteCreateDatabase clk n eng)
           | UseDatabaseStatement n \<Rightarrow>
               (case ExecuteUseDatabase n eng session of (session', r) \<Rightarrow> ((eng, session'), r))
           | DropDatabaseStatement n \<Rightarrow> ExecuteDropDatabase clk n eng session
           | CreateTableStatement name cols \<Rightarrow> with_session (ExecuteCreateTable clk name cols eng session)
           | DropTableStatement name \<Rightarrow> with_session (ExecuteDropTable clk name eng session)
           | InsertStmt ins \<Rightarrow> with_session (ExecuteInsert clk ins eng session)
           | UpdateStmt upd \<Rightarrow> with_session (ExecuteUpdate rx clk upd eng session)
           | DeleteStmt del \<Rightarrow> with_session (ExecuteDelete rx clk del eng session)
           | SelectStmt sel \<Rightarrow> with_session (eng, ExecuteSelect rx sel eng session)
           | RevertStmt rv \<Rightarrow> with_session (ExecuteRevert clk rv eng session)
           | CheckIndexStatement \<Rightarrow> with_session (eng, ExecuteCheckIndex eng)
           | RebuildIndexStatement \<Rightarrow> with_session (ExecuteRebuildIndex eng)
           | _ \<Rightarrow> with_session (eng, MakeError kNotImplemented
                    (''plan kind is not implemented: '' @ plan_detail plan))))"

end
