(* ===== verification/Execution_Invariant.thy ===== *)
theory Execution_Invariant
  imports Execution
begin

text \<open>
  The invariant of the engine and its preservation by every statement, on success and on failure:
  row ids are distinct, every row fits its schema, and every index of every table holds exactly the
  keys of the table's rows.
\<close>

section \<open>Values and rows\<close>

lemma InternStringValue_wf:
  assumes "pool_wf p" "InternStringValue v p = (v', p')"
  shows "pool_wf p'" "GetValueType v' = GetValueType v" "same_value v v'"
  using assms pool.intern_wf [of p] pool.intern_chars [of p]
  by (cases v; auto simp: InternStringValue_def split: prod.splits)+

lemma intern_values_wf:
  "pool_wf p \<Longrightarrow> intern_values vs p = (vs', p') \<Longrightarrow> pool_wf p' \<and> list_all2 same_value vs vs'"
proof (induction vs p arbitrary: vs' p' rule: intern_values.induct)
  case (2 v vs p)
  obtain v1 p1 where v1: "InternStringValue v p = (v1, p1)" by (cases "InternStringValue v p")
  obtain vs2 p2 where vs2: "intern_values vs p1 = (vs2, p2)" by (cases "intern_values vs p1")
  from InternStringValue_wf [OF 2(2) v1] 2(1) [OF v1 [symmetric] _ vs2] 2(3) v1 vs2
  show ?case by auto
qed simp

lemma InternStringValues_wf:
  assumes "pool_wf p" "InternStringValues row p = (row', p')"
  shows "pool_wf p'" "row_id row' = row_id row" "list_all2 same_value (row_values row) (row_values row')"
  using assms intern_values_wf [of p "row_values row"]
  by (auto simp: InternStringValues_def split: prod.splits)

lemma validate_values_wf:
  assumes "pool_wf p" "validate_values cs vs p = ((vs', p'), r)"
  shows "pool_wf p' \<and> (r = Inr () \<longrightarrow> length vs = length cs \<longrightarrow>
    list_all2 (\<lambda>c v. CanAssignToType v (col_type c) (allows_null c)) cs vs')"
  using assms
proof (induction cs vs p arbitrary: vs' p' r rule: validate_values.induct)
  case (3 c cs v vs p)
  let ?v1 = "if IsNull v then (case col_default c of Some d \<Rightarrow> d | None \<Rightarrow> v) else v"
  obtain v2 p1 where v2: "InternStringValue ?v1 p = (v2, p1)" by (cases "InternStringValue ?v1 p")
  have p1: "pool_wf p1" by (rule InternStringValue_wf(1) [OF 3(2) v2])
  obtain vs2 p2 r2 where rec: "validate_values cs vs p1 = ((vs2, p2), r2)"
    by (cases "validate_values cs vs p1") auto
  show ?case
  proof (cases "CanAssignToType v2 (col_type c) (allows_null c)")
    case True
    from 3(1) [OF refl refl v2 [symmetric] refl _ p1 rec] True
    have "pool_wf p2 \<and> (r2 = Inr () \<longrightarrow> length vs = length cs \<longrightarrow>
        list_all2 (\<lambda>c v. CanAssignToType v (col_type c) (allows_null c)) cs vs2)"
      by (simp add: allows_null_def)
    with 3(3) v2 rec True show ?thesis by (auto simp: Let_def allows_null_def)
  next
    case False
    with 3(3) v2 p1 show ?thesis by (auto simp: Let_def allows_null_def MakeError_def)
  qed
qed auto

lemma ValidateRowAgainstSchema_wf:
  assumes "pool_wf p" "ValidateRowAgainstSchema row s p = ((row', p'), r)"
  shows "pool_wf p'" "row_id row' = row_id row"
    "r = Inr () \<Longrightarrow> length (row_values row) = length (columns s) \<Longrightarrow> row_fits s row'"
  using assms validate_values_wf [of p "columns s" "row_values row"]
  by (auto simp: ValidateRowAgainstSchema_def row_fits_def split: prod.splits)

lemma fill_values_length: "fill_values es is vs = Inr vs' \<Longrightarrow> length vs' = length vs"
  by (induction es "is" vs rule: fill_values.induct) (auto split: list.splits)

section \<open>Rebuilding indexes\<close>

lemma rebuild_entry_holds:
  assumes "keys_distinct s c (pre @ [row])" "index_holds s pre (c, t)"
  shows "\<exists>t'. rebuild_entry s row (c, t) = Inr (c, t') \<and> index_holds s (pre @ [row]) (c, t')"
proof -
  from index_holds_next [OF assms(2,1)] obtain i v k t' where
    "FindColumnIndex s c = Some i" "row_value row i = Inr v" "\<not> IsNull v"
    "EncodeIndexKey v (col_type (columns s ! i)) = Inr k" "Find t k = Inr []"
    "Insert t k (row_id row) = Inr t'" and h: "index_holds s (pre @ [row]) (c, t')" by metis
  then have "rebuild_entry s row (c, t) = Inr (c, t')" by (simp add: rebuild_entry_def)
  with h show ?thesis by blast
qed

lemma rebuild_entry_sound:
  assumes "index_holds s pre (c, t)" "rebuild_entry s row (c, t) = Inr e"
  shows "fst e = c \<and> index_holds s (pre @ [row]) e"
proof -
  from assms(2) obtain i v k t' where
    i: "FindColumnIndex s c = Some i" and v: "row_value row i = Inr v" "\<not> IsNull v"
    and k: "EncodeIndexKey v (col_type (columns s ! i)) = Inr k" and f: "Find t k = Inr []"
    and t': "Insert t k (row_id row) = Inr t'" "e = (c, t')"
    by (auto simp: rebuild_entry_def split: option.splits if_splits)
  have "row_key s i row = Inr k" using v k by (simp add: row_key_def)
  from index_holds_insert [OF assms(1) i this f] t' show ?thesis by auto
qed

lemma rebuild_trees_sound:
  assumes "foldM (\<lambda>trees row. mapM (rebuild_entry s row) trees) rows trees = Inr trees'"
    and "\<forall>e \<in> set trees. index_holds s pre e"
  shows "map fst trees' = map fst trees \<and> (\<forall>e \<in> set trees'. index_holds s (pre @ rows) e)"
  using assms
proof (induction rows arbitrary: pre trees)
  case (Cons row rows)
  then obtain trees1 where m: "mapM (rebuild_entry s row) trees = Inr trees1"
    and f: "foldM (\<lambda>trees row. mapM (rebuild_entry s row) trees) rows trees1 = Inr trees'" by auto
  have "list_all2 (\<lambda>x y. rebuild_entry s row x = Inr y) trees trees1" using m by (simp add: mapM_Inr_iff)
  then have "map fst trees1 = map fst trees \<and> (\<forall>e \<in> set trees1. index_holds s (pre @ [row]) e)"
    using Cons.prems(2)
  proof (induction rule: list_all2_induct)
    case (Cons x xs y ys)
    from Cons.prems Cons.hyps(1) rebuild_entry_sound [of s pre "fst x" "snd x" row y]
    have "fst y = fst x \<and> index_holds s (pre @ [row]) y" by simp
    with Cons show ?case by auto
  qed simp
  with Cons.IH [OF f, of "pre @ [row]"] show ?case by simp
qed simp

lemma RebuildIndexes_sound:
  assumes "RebuildIndexes s rows = Inr ixs" "\<forall>c \<in> set (index_columns s). FindColumnIndex s c \<noteq> None"
  shows "map fst ixs = index_columns s \<and> (\<forall>e \<in> set ixs. index_holds s rows e)"
proof -
  have "\<forall>e \<in> set (new_indexes s). index_holds s [] e"
    using assms(2) index_holds_new by (auto simp: index_columns_def)
  from rebuild_trees_sound [OF assms(1) [unfolded RebuildIndexes_def] this] show ?thesis
    by (simp add: index_columns_def)
qed

lemma RebuildIndexes_complete:
  assumes "\<forall>c \<in> set (index_columns s). keys_distinct s c rows"
  shows "\<exists>ixs. RebuildIndexes s rows = Inr ixs"
proof -
  have "\<forall>e \<in> set (new_indexes s). index_holds s [] e"
    using assms index_holds_new by (auto simp: index_columns_def keys_distinct_def)
  then have "\<exists>trees'. foldM (\<lambda>ts row. mapM (rebuild_entry s row) ts) rows (new_indexes s) = Inr trees' \<and>
      map fst trees' = map fst (new_indexes s) \<and> (\<forall>e \<in> set trees'. index_holds s ([] @ rows) e)"
    using assms by (intro foldM_trees rebuild_entry_holds) (auto simp: index_columns_def)
  then show ?thesis by (auto simp: RebuildIndexes_def)
qed

text \<open>A table keeps the invariant when its rows are replaced and its indexes rebuilt.\<close>

lemma table_inv_columns:
  assumes "table_inv t"
  shows "\<forall>c \<in> set (index_columns (schema t)). FindColumnIndex (schema t) c \<noteq> None"
  using table_inv_keys [OF assms] by (auto simp: keys_distinct_def)

lemma table_inv_replace:
  assumes "table_inv t" "RebuildIndexes (schema t) rows = Inr ixs"
    and "distinct (map row_id rows)" "\<forall>row \<in> set rows. row_id row \<noteq> kInvalidRowId \<and> row_fits (schema t) row"
  shows "table_inv (t\<lparr>indexes := ixs, heap := HeapReplaceAll rows (heap t)\<rparr>)"
proof -
  have "heap_inv (HeapReplaceAll rows (heap t))" using assms by (intro heap.replace_inv) auto
  with RebuildIndexes_sound [OF assms(2) table_inv_columns [OF assms(1)]] assms show ?thesis
    by (simp add: table_inv_def HeapReplaceAll_def)
qed

section \<open>INSERT\<close>

lemma foldM_units_iff: "foldM (\<lambda>_. f) xs () = Inr u \<longleftrightarrow> (\<forall>x \<in> set xs. f x = Inr ())"
  by (induction xs) (auto simp: unit_eq)

lemma row_value_id [simp]: "row_value (row\<lparr>row_id := r\<rparr>) i = row_value row i"
  by (simp add: row_value_def)

lemma row_fits_id [simp]: "row_fits s (row\<lparr>row_id := r\<rparr>) = row_fits s row"
  by (simp add: row_fits_def)

lemma insert_into_index_holds:
  assumes "index_holds s rows (c, t)" "check_unique s row (c, t) = Inr ()"
  shows "\<exists>t'. insert_into_index s (row\<lparr>row_id := r\<rparr>) (c, t) = ((c, t'), Inr ()) \<and>
    index_holds s (rows @ [row\<lparr>row_id := r\<rparr>]) (c, t')"
proof -
  from assms(1) obtain i where i: "FindColumnIndex s c = Some i" by (auto simp: index_holds_def)
  with assms(2) obtain v k where v: "row_value row i = Inr v" "\<not> IsNull v"
    "EncodeIndexKey v (col_type (columns s ! i)) = Inr k" and f: "Find t k = Inr []"
    by (auto simp: check_unique_def split: if_splits)
  then have "row_key s i (row\<lparr>row_id := r\<rparr>) = Inr k" by (simp add: row_key_def)
  from index_holds_insert [OF assms(1) i this f] obtain t' where
    "Insert t k r = Inr t'" "index_holds s (rows @ [row\<lparr>row_id := r\<rparr>]) (c, t')" by auto
  with i v show ?thesis by (auto simp: insert_into_index_def)
qed

text \<open>
  A round of the insertion loop either fails and changes nothing but the string pool, or it appends
  one row under the next row id, enters it in every index and records the event.
\<close>

definition row_added :: "clock \<Rightarrow> string \<Rightarrow> TableRuntime \<Rightarrow> Engine \<Rightarrow> TableRuntime \<Rightarrow> Engine \<Rightarrow> RowData \<Rightarrow> bool" where
  "row_added clk d t eng t' eng' row \<longleftrightarrow>
     (\<exists>p. pool_wf p \<and>
        eng' = AppendChangeEvent clk kInsertRow d (schema_table (schema t)) None None (Some row) (eng\<lparr>pool := p\<rparr>)) \<and>
     table_inv t' \<and> schema t' = schema t \<and> heap_rows (heap t') = heap_rows (heap t) @ [row] \<and>
     row_id row = next_row_id (heap t) \<and> next_row_id (heap t') = next_row_id (heap t) + 1"

lemma insert_row_cases:
  assumes inv: "table_inv t" "pool_wf (pool eng)" and room: "next_row_id (heap t) \<noteq> kInvalidRowId"
    and res: "insert_row clk d positions (t, eng) input_row = ((t', eng'), r)"
  shows "(\<exists>e p. r = Inl e \<and> t' = t \<and> eng' = eng\<lparr>pool := p\<rparr> \<and> pool_wf p) \<or>
    (r = Inr () \<and> (\<exists>row. row_added clk d t eng t' eng' row))"
proof (cases "fill_values input_row positions (replicate (length (columns (schema t))) Monostate)")
  case (Inl e)
  with res inv(2) show ?thesis by (auto simp: insert_row_def intro!: exI [of _ "pool eng"])
next
  case (Inr vs)
  note fill = this
  have len: "length vs = length (columns (schema t))" using fill_values_length [OF Inr] by simp
  let ?row0 = "\<lparr>row_id = kInvalidRowId, row_values = vs\<rparr>"
  obtain row1 p1 where i: "InternStringValues ?row0 (pool eng) = (row1, p1)"
    by (cases "InternStringValues ?row0 (pool eng)")
  note i' = InternStringValues_wf [OF inv(2) i]
  obtain row2 p2 q where v: "ValidateRowAgainstSchema row1 (schema t) p1 = ((row2, p2), q)"
    by (cases "ValidateRowAgainstSchema row1 (schema t) p1") auto
  note v' = ValidateRowAgainstSchema_wf [OF i'(1) v]
  have len1: "length (row_values row1) = length (columns (schema t))" using i'(3) len by (auto dest: list_all2_lengthD)
  show ?thesis
  proof (cases q)
    case (Inl e)
    with res fill i v v'(1) show ?thesis by (auto simp: insert_row_def)
  next
    case (Inr u)
    note q = this
    then have fits: "row_fits (schema t) row2" using v'(3) len1 by simp
    show ?thesis
    proof (cases "foldM (\<lambda>_. check_unique (schema t) row2) (indexes t) ()")
      case (Inl e)
      with res fill i v q have "r = Inl e \<and> t' = t \<and> eng' = eng\<lparr>pool := p2\<rparr>" by (simp add: insert_row_def)
      with v'(1) show ?thesis by blast
    next
      case (Inr w)
      then have uniq: "\<forall>x \<in> set (indexes t). check_unique (schema t) row2 x = Inr ()"
        by (simp add: foldM_units_iff)
      obtain rid h where hp: "HeapInsert row2 (heap t) = (rid, h)" by (cases "HeapInsert row2 (heap t)")
      have rid2: "row_id row2 = kInvalidRowId" using v'(2) i'(2) by simp
      have "heap_inv (heap t)" using inv(1) by (simp add: table_inv_def)
      note h = HeapInsert_fresh [OF this room rid2 hp]
      have "\<exists>ixs. map_until (insert_into_index (schema t) (row2\<lparr>row_id := rid\<rparr>)) (indexes t) = (ixs, Inr ()) \<and>
          map fst ixs = map fst (indexes t) \<and>
          (\<forall>e \<in> set ixs. index_holds (schema t) (heap_rows (heap t) @ [row2\<lparr>row_id := rid\<rparr>]) e)"
        using inv(1) uniq by (intro map_until_trees insert_into_index_holds) (auto simp: table_inv_def)
      then obtain ixs where ixs: "map_until (insert_into_index (schema t) (row2\<lparr>row_id := rid\<rparr>)) (indexes t) = (ixs, Inr ())"
        "map fst ixs = map fst (indexes t)"
        "\<forall>e \<in> set ixs. index_holds (schema t) (heap_rows (heap t) @ [row2\<lparr>row_id := rid\<rparr>]) e" by blast
      have "table_inv (t\<lparr>heap := h, indexes := ixs\<rparr>)"
        using inv(1) h ixs(2,3) fits by (auto simp: table_inv_def)
      with res fill i v v'(1) q Inr hp ixs(1) h show ?thesis
        by (auto simp: insert_row_def row_added_def)
    qed
  qed
qed

lemma AppendChangeEvent_simps [simp]:
  "runtime (AppendChangeEvent clk k d n s b a eng) = runtime eng"
  "pool (AppendChangeEvent clk k d n s b a eng) = pool eng"
  "catalog (AppendChangeEvent clk k d n s b a eng) = catalog eng"
  "clock_reads (AppendChangeEvent clk k d n s b a eng) = Suc (clock_reads eng)"
  by (simp_all add: AppendChangeEvent_def)

lemma unat_plus_one: "(r :: RowId) \<noteq> kInvalidRowId \<Longrightarrow> unat (r + 1) = Suc (unat r)"
  using unatSuc [of r] by (simp add: kInvalidRowId_def add.commute eq_neg_iff_add_eq_0)

lemma kInvalid_unat: "unat (r :: RowId) < 2 ^ 64 - 1 \<Longrightarrow> r \<noteq> kInvalidRowId"
  by (auto simp: kInvalidRowId_def unsigned_minus_1_eq_mask mask_eq_exp_minus_1)

lemma insert_rows_inv:
  assumes "table_inv t" "pool_wf (pool eng)" "unat (next_row_id (heap t)) + length rows < 2 ^ 64"
    and "iterate_until (insert_row clk d positions) rows (t, eng) = ((t', eng'), r)"
  shows "table_inv t' \<and> pool_wf (pool eng') \<and> schema t' = schema t \<and> runtime eng' = runtime eng"
  using assms
proof (induction rows arbitrary: t eng)
  case (Cons row rows)
  obtain t1 eng1 r1 where s: "insert_row clk d positions (t, eng) row = ((t1, eng1), r1)"
    by (cases "insert_row clk d positions (t, eng) row") auto
  have room: "next_row_id (heap t) \<noteq> kInvalidRowId" using Cons.prems(3) by (intro kInvalid_unat) simp
  from insert_row_cases [OF Cons.prems(1,2) room s] show ?case
  proof (elim disjE exE conjE)
    fix e p assume "r1 = Inl e" "t1 = t" "eng1 = eng\<lparr>pool := p\<rparr>" "pool_wf p"
    with Cons.prems s show ?thesis by auto
  next
    fix row' assume ok: "r1 = Inr ()" and a: "row_added clk d t eng t1 eng1 row'"
    then have "table_inv t1" "pool_wf (pool eng1)" "schema t1 = schema t" "runtime eng1 = runtime eng"
      "unat (next_row_id (heap t1)) + length rows < 2 ^ 64"
      using Cons.prems(3) unat_plus_one [OF room] by (auto simp: row_added_def)
    with Cons.IH [of t1 eng1] Cons.prems(4) s ok show ?thesis by auto
  qed
qed auto

section \<open>The invariant of the engine\<close>

text \<open>
  Every table is stored under the names in its schema, and the indexes in its schema are those of its columns that are declared as
  indexed.
\<close>

definition column_indexes :: "string \<Rightarrow> ColumnDefinition list \<Rightarrow> IndexDefinition list" where
  "column_indexes n cols =
     map (\<lambda>c. \<lparr>index_name = ''idx_'' @ n @ ''_'' @ col_name c, index_column = col_name c,
               index_unique = True, is_primary_access_path = True\<rparr>)
       (filter (\<lambda>c. col_constraint c = kIndexed) cols)"

definition canonical_schema :: "string \<Rightarrow> string \<Rightarrow> TableSchema \<Rightarrow> bool" where
  "canonical_schema d n s \<longleftrightarrow>
     schema_database s = d \<and> schema_table s = n \<and> schema_indexes s = column_indexes n (columns s)"

definition named :: "RuntimeState \<Rightarrow> bool" where
  "named st \<longleftrightarrow>
     (\<forall>d db n t. umap_find (databases st) d = Some db \<longrightarrow> umap_find (tables db) n = Some t \<longrightarrow>
        canonical_schema d n (schema t))"

definition engine_inv :: "Engine \<Rightarrow> bool" where
  "engine_inv eng \<longleftrightarrow> state_inv (runtime eng) \<and> named (runtime eng) \<and> pool_wf (pool eng)"

lemma state_inv_find:
  "state_inv st \<Longrightarrow> umap_find (databases st) d = Some db \<Longrightarrow> database_inv db"
  using umap_find_in_set by (fastforce simp: state_inv_alt)

lemma database_inv_find: "database_inv db \<Longrightarrow> umap_find (tables db) n = Some t \<Longrightarrow> table_inv t"
  using umap_find_in_set by (fastforce simp: database_inv_def)

lemma set_update: "set (AList.update k v xs) \<subseteq> insert (k, v) (set xs)"
  by (induction xs) auto

lemma state_inv_assign:
  assumes "state_inv st" "database_inv db"
  shows "state_inv (st\<lparr>databases := umap_assign d db (databases st)\<rparr>)"
  using assms set_update [of d db "databases st"] by (auto simp: state_inv_alt umap_assign_def [symmetric])

lemma database_inv_assign:
  assumes "database_inv db" "table_inv t"
  shows "database_inv (db\<lparr>tables := umap_assign n t (tables db)\<rparr>)"
  using assms set_update [of n t "tables db"]
  by (force simp: database_inv_def umap_assign_def [symmetric])

lemma put_table_inv:
  assumes "engine_inv eng" "table_inv t" "canonical_schema d n (schema t)"
  shows "engine_inv (put_table d n t eng)"
proof (cases "umap_find (databases (runtime eng)) d")
  case (Some db)
  have "database_inv (db\<lparr>tables := umap_assign n t (tables db)\<rparr>)"
    using assms Some by (intro database_inv_assign) (auto simp: engine_inv_def dest: state_inv_find)
  then have "state_inv ((runtime eng)\<lparr>databases := umap_assign d (db\<lparr>tables := umap_assign n t (tables db)\<rparr>)
      (databases (runtime eng))\<rparr>)"
    using assms(1) by (intro state_inv_assign) (simp_all add: engine_inv_def)
  with Some assms show ?thesis by (auto simp: put_table_def engine_inv_def named_def)
qed (use assms in \<open>simp add: put_table_def\<close>)

lemma put_table_simps [simp]:
  "catalog (put_table d n t eng) = catalog eng"
  "versions (put_table d n t eng) = versions eng"
  "pool (put_table d n t eng) = pool eng"
  "clock_reads (put_table d n t eng) = clock_reads eng"
  by (simp_all add: put_table_def split: option.split)

lemma locate_table_inv:
  assumes "engine_inv eng" "locate_table eng session name = Inr (d, t)"
  shows "table_inv t" "schema_database (schema t) = d" "schema_table (schema t) = object_name name"
    "\<exists>db. umap_find (databases (runtime eng)) d = Some db \<and> umap_find (tables db) (object_name name) = Some t"
    "canonical_schema d (object_name name) (schema t)"
proof -
  from assms(2) obtain db where db: "umap_find (databases (runtime eng)) d = Some db"
    "umap_find (tables db) (object_name name) = Some t"
    by (auto simp: locate_table_def find_database_def split: option.splits)
  with assms(1) have "canonical_schema d (object_name name) (schema t)" by (auto simp: engine_inv_def named_def)
  with db assms(1) show "table_inv t" "schema_database (schema t) = d" "schema_table (schema t) = object_name name"
    "\<exists>db. umap_find (databases (runtime eng)) d = Some db \<and> umap_find (tables db) (object_name name) = Some t"
    "canonical_schema d (object_name name) (schema t)"
    by (auto simp: engine_inv_def canonical_schema_def dest: state_inv_find database_inv_find)
qed

lemma engine_inv_append [simp]: "engine_inv (AppendChangeEvent clk k d n s b a eng) = engine_inv eng"
  by (simp add: engine_inv_def)

lemma engine_inv_pool: "engine_inv eng \<Longrightarrow> pool_wf p \<Longrightarrow> engine_inv (eng\<lparr>pool := p\<rparr>)"
  by (simp add: engine_inv_def)

lemma ExecuteInsert_inv:
  assumes "engine_inv eng" "ExecuteInsert clk ins eng session = (eng', r)"
    and "\<And>d t. locate_table eng session (insert_table ins) = Inr (d, t) \<Longrightarrow>
      unat (next_row_id (heap t)) + length (insert_rows ins) < 2 ^ 64"
  shows "engine_inv eng'"
proof (cases "locate_table eng session (insert_table ins)")
  case (Inr dt)
  obtain d t where dt: "dt = (d, t)" by (cases dt)
  note loc = locate_table_inv [OF assms(1) Inr [unfolded dt]]
  show ?thesis
  proof (cases "input_positions (schema t) (insert_columns ins)")
    case Inl
    with assms Inr dt show ?thesis by (auto simp: ExecuteInsert_def)
  next
    case pos: (Inr positions)
    obtain t1 eng1 r1 where it: "iterate_until (insert_row clk d positions) (insert_rows ins) (t, eng) = ((t1, eng1), r1)"
      by (cases "iterate_until (insert_row clk d positions) (insert_rows ins) (t, eng)") auto
    have "pool_wf (pool eng)" using assms(1) by (simp add: engine_inv_def)
    from insert_rows_inv [OF loc(1) this assms(3) it] Inr dt assms(1) have
      "table_inv t1" "schema t1 = schema t" "engine_inv eng1" by (auto simp: engine_inv_def)
    moreover have "eng' = put_table d (object_name (insert_table ins)) t1 eng1"
      using assms(2) Inr dt pos it by (auto simp: ExecuteInsert_def)
    ultimately show ?thesis using loc by (auto intro: put_table_inv)
  qed
qed (use assms in \<open>auto simp: ExecuteInsert_def\<close>)

section \<open>UPDATE and DELETE\<close>

lemma apply_assignments_shape:
  "foldM (apply_assignment s) as row = Inr row' \<Longrightarrow>
   row_id row' = row_id row \<and> length (row_values row') = length (row_values row)"
proof (induction as arbitrary: row)
  case (Cons a as)
  then obtain row1 where r: "apply_assignment s row a = Inr row1" "foldM (apply_assignment s) as row1 = Inr row'" by auto
  from r(1) have "row_id row1 = row_id row \<and> length (row_values row1) = length (row_values row)"
    by (auto simp: apply_assignment_def split: prod.splits option.splits if_splits)
  with Cons.IH [OF r(2)] show ?case by simp
qed simp

lemma row_fits_length: "row_fits s row \<Longrightarrow> length (row_values row) = length (columns s)"
  by (auto simp: row_fits_def dest: list_all2_lengthD)

text \<open>
  What one round of the update loop and one round of the deletion loop do: on success the kept row
  has the id of the row read and fits the schema.
\<close>

lemma update_row_step:
  assumes "pool_wf (pool eng)" "row_fits s row" "update_row rx clk upd d s ((acc, n), eng) row = (((acc', n'), eng'), r)"
  shows "pool_wf (pool eng') \<and> runtime eng' = runtime eng \<and> catalog eng' = catalog eng \<and>
    (r = Inr () \<longrightarrow> (\<exists>row'. acc' = acc @ [row'] \<and> row_id row' = row_id row \<and> row_fits s row'))"
proof (cases "passes rx (update_where upd) s row")
  case (Inl e)
  with assms show ?thesis by (auto simp: update_row_def)
next
  case (Inr b)
  note pass = this
  show ?thesis
  proof (cases "b \<and> (\<exists>row1. foldM (apply_assignment s) (assignments upd) row = Inr row1)")
    case False
    with pass assms show ?thesis
      by (cases "foldM (apply_assignment s) (assignments upd) row") (auto simp: update_row_def split: if_splits)
  next
    case True
    then obtain row1 where row1: "foldM (apply_assignment s) (assignments upd) row = Inr row1" and b: b by auto
    obtain row2 p1 where i: "InternStringValues row1 (pool eng) = (row2, p1)" by (cases "InternStringValues row1 (pool eng)")
    obtain row3 p2 q where v: "ValidateRowAgainstSchema row2 s p1 = ((row3, p2), q)"
      by (cases "ValidateRowAgainstSchema row2 s p1") auto
    note i' = InternStringValues_wf [OF assms(1) i] and v' = ValidateRowAgainstSchema_wf [OF InternStringValues_wf(1) [OF assms(1) i] v]
    have "length (row_values row2) = length (columns s)"
      using i'(3) apply_assignments_shape [OF row1] row_fits_length [OF assms(2)] by (auto dest: list_all2_lengthD)
    with v' i'(2) apply_assignments_shape [OF row1] have
      "pool_wf p2" "row_id row3 = row_id row" "q = Inr () \<Longrightarrow> row_fits s row3" by simp_all
    with assms(3) pass b row1 i v show ?thesis by (cases q) (auto simp: update_row_def)
  qed
qed

lemma delete_row_step:
  assumes "delete_row rx clk del d s ((acc, n), eng) row = (((acc', n'), eng'), r)"
  shows "pool eng' = pool eng \<and> runtime eng' = runtime eng \<and> catalog eng' = catalog eng \<and>
    (r = Inr () \<longrightarrow> acc' = acc \<or> acc' = acc @ [row])"
  using assms by (auto simp: delete_row_def split: sum.splits if_splits)

lemma update_rows_inv:
  assumes "pool_wf (pool eng)" "\<forall>row \<in> set rows. row_fits s row"
    and "iterate_until (update_row rx clk upd d s) rows ((acc, n), eng) = (((acc', n'), eng'), r)"
  shows "pool_wf (pool eng') \<and> runtime eng' = runtime eng \<and> catalog eng' = catalog eng \<and>
    (r = Inr () \<longrightarrow> (\<exists>new. acc' = acc @ new \<and> map row_id new = map row_id rows \<and> (\<forall>row \<in> set new. row_fits s row)))"
  using assms
proof (induction rows arbitrary: acc n eng)
  case (Cons row rows)
  obtain acc1 n1 eng1 r1 where s: "update_row rx clk upd d s ((acc, n), eng) row = (((acc1, n1), eng1), r1)"
    by (cases "update_row rx clk upd d s ((acc, n), eng) row") auto
  have step: "pool_wf (pool eng1) \<and> runtime eng1 = runtime eng \<and> catalog eng1 = catalog eng \<and>
      (r1 = Inr () \<longrightarrow> (\<exists>row'. acc1 = acc @ [row'] \<and> row_id row' = row_id row \<and> row_fits s row'))"
    using update_row_step [OF Cons.prems(1) _ s] Cons.prems(2) by simp
  show ?case
  proof (cases r1)
    case (Inl e)
    with Cons.prems(3) s step show ?thesis by auto
  next
    case (Inr u)
    then obtain row' where row': "acc1 = acc @ [row']" "row_id row' = row_id row" "row_fits s row'" using step by auto
    from Inr Cons.prems(3) s have "iterate_until (update_row rx clk upd d s) rows ((acc1, n1), eng1) = (((acc', n'), eng'), r)"
      by simp
    from Cons.IH [OF _ _ this] step Cons.prems(2) have IH: "pool_wf (pool eng') \<and> runtime eng' = runtime eng1 \<and>
        catalog eng' = catalog eng1 \<and>
        (r = Inr () \<longrightarrow> (\<exists>new. acc' = acc1 @ new \<and> map row_id new = map row_id rows \<and> (\<forall>row \<in> set new. row_fits s row)))"
      by simp
    moreover have "\<exists>new. acc' = acc @ new \<and> map row_id new = map row_id (row # rows) \<and> (\<forall>row \<in> set new. row_fits s row)"
      if r: "r = Inr ()"
    proof -
      from IH r obtain new where "acc' = acc1 @ new" "map row_id new = map row_id rows" "\<forall>row \<in> set new. row_fits s row" by blast
      with row' show ?thesis by (intro exI [of _ "row' # new"]) simp
    qed
    ultimately show ?thesis using step by simp
  qed
qed auto

lemma delete_rows_inv:
  assumes "iterate_until (delete_row rx clk del d s) rows ((acc, n), eng) = (((acc', n'), eng'), r)"
  shows "pool eng' = pool eng \<and> runtime eng' = runtime eng \<and> catalog eng' = catalog eng \<and>
    (r = Inr () \<longrightarrow> (\<exists>kept. acc' = acc @ kept \<and> kept \<in> set (subseqs rows)))"
  using assms
proof (induction rows arbitrary: acc n eng)
  case (Cons row rows)
  obtain acc1 n1 eng1 r1 where s: "delete_row rx clk del d s ((acc, n), eng) row = (((acc1, n1), eng1), r1)"
    by (cases "delete_row rx clk del d s ((acc, n), eng) row") auto
  note step = delete_row_step [OF s]
  show ?case
  proof (cases r1)
    case (Inl e)
    with Cons.prems s step show ?thesis by auto
  next
    case (Inr u)
    with Cons.prems s have "iterate_until (delete_row rx clk del d s) rows ((acc1, n1), eng1) = (((acc', n'), eng'), r)" by simp
    from Cons.IH [OF this] step Inr show ?thesis
      by (auto simp: Let_def)
  qed
qed auto

lemma subseq_distinct:
  assumes "kept \<in> set (subseqs rows)"
  shows "set kept \<subseteq> set rows" "distinct (map f rows) \<Longrightarrow> distinct (map f kept)"
proof -
  have "set kept \<subseteq> set rows \<and> (distinct (map f rows) \<longrightarrow> distinct (map f kept))"
    using assms by (induction rows arbitrary: kept) (auto simp: Let_def, blast+)
  then show "set kept \<subseteq> set rows" "distinct (map f rows) \<Longrightarrow> distinct (map f kept)" by auto
qed

lemma keys_distinct_subseq:
  assumes "keys_distinct s c rows" "kept \<in> set (subseqs rows)"
  shows "keys_distinct s c kept"
proof -
  from assms(1) obtain i kvs where i: "FindColumnIndex s c = Some i" and p: "index_pairs s i rows = Inr kvs"
    and d: "distinct (map fst kvs)" by (auto simp: keys_distinct_def)
  from index_pairs_map [OF p] obtain key where k: "kvs = map (\<lambda>row. (key row, row_id row)) rows"
    "\<forall>row \<in> set rows. row_key s i row = Inr (key row)" by blast
  have "set kept \<subseteq> set rows" by (rule subseq_distinct(1) [OF assms(2)])
  then have "index_pairs s i kept = Inr (map (\<lambda>row. (key row, row_id row)) kept)"
    using k(2) by (auto simp: index_pairs_def mapM_Inr_iff list_all2_map2 intro!: list.rel_refl_strong)
  moreover have "distinct (map key kept)"
    using d k(1) subseq_distinct(2) [OF assms(2), of key] by (simp add: comp_def)
  ultimately show ?thesis using i by (auto simp: keys_distinct_def comp_def)
qed

lemma table_inv_rows:
  assumes "table_inv t"
  shows "distinct (map row_id (heap_rows (heap t)))"
    "row \<in> set (heap_rows (heap t)) \<Longrightarrow> row_id row \<noteq> kInvalidRowId \<and> row_fits (schema t) row"
  using assms heap.scan_distinct heap.scan_valid by (auto simp: table_inv_def ScanAll_def)

lemma ExecuteUpdate_inv:
  assumes "engine_inv eng" "ExecuteUpdate rx clk upd eng session = (eng', r)"
  shows "engine_inv eng'"
proof (cases "locate_table eng session (update_table upd)")
  case (Inr dt)
  obtain d t where dt: "dt = (d, t)" by (cases dt)
  note loc = locate_table_inv [OF assms(1) Inr [unfolded dt]]
  obtain acc n eng1 q where it: "iterate_until (update_row rx clk upd d (schema t)) (ScanAll (heap t)) (([], 0), eng)
      = (((acc, n), eng1), q)"
    by (cases "iterate_until (update_row rx clk upd d (schema t)) (ScanAll (heap t)) (([], 0), eng)") auto
  have up: "pool_wf (pool eng1) \<and> runtime eng1 = runtime eng \<and> catalog eng1 = catalog eng \<and>
      (q = Inr () \<longrightarrow> (\<exists>new. acc = [] @ new \<and> map row_id new = map row_id (ScanAll (heap t)) \<and>
         (\<forall>row \<in> set new. row_fits (schema t) row)))"
    by (rule update_rows_inv [OF _ _ it])
      (use assms(1) table_inv_rows(2) [OF loc(1)] in \<open>auto simp: engine_inv_def ScanAll_def\<close>)
  have e1: "engine_inv eng1" using assms(1) up by (simp add: engine_inv_def)
  show ?thesis
  proof (cases "\<exists>ixs. q = Inr () \<and> RebuildIndexes (schema t) acc = Inr ixs")
    case True
    then obtain ixs where q: "q = Inr ()" and ixs: "RebuildIndexes (schema t) acc = Inr ixs" by blast
    have ids: "map row_id acc = map row_id (heap_rows (heap t))" and fits: "\<forall>row \<in> set acc. row_fits (schema t) row"
      using up q by (auto simp: ScanAll_def)
    have "distinct (map row_id acc)" using ids table_inv_rows(1) [OF loc(1)] by simp
    moreover have "row_id row \<noteq> kInvalidRowId" if "row \<in> set acc" for row
    proof -
      have "row_id row \<in> set (map row_id (heap_rows (heap t)))" using that ids by (metis image_eqI list.set_map)
      then obtain old where "old \<in> set (heap_rows (heap t))" "row_id old = row_id row" by auto
      then show ?thesis using table_inv_rows(2) [OF loc(1), of old] by simp
    qed
    ultimately have "table_inv (t\<lparr>indexes := ixs, heap := HeapReplaceAll acc (heap t)\<rparr>)"
      using fits by (intro table_inv_replace [OF loc(1) ixs]) auto
    moreover have "eng' = put_table d (object_name (update_table upd))
        (t\<lparr>indexes := ixs, heap := HeapReplaceAll acc (heap t)\<rparr>) eng1"
      using assms(2) Inr dt it q ixs by (auto simp: ExecuteUpdate_def)
    ultimately show ?thesis using loc e1 by (auto intro: put_table_inv)
  next
    case False
    with assms(2) Inr dt it have "eng' = eng1"
      by (cases q; cases "RebuildIndexes (schema t) acc") (auto simp: ExecuteUpdate_def)
    with e1 show ?thesis by simp
  qed
qed (use assms in \<open>auto simp: ExecuteUpdate_def\<close>)

lemma ExecuteDelete_cases:
  assumes "engine_inv eng" "locate_table eng session (delete_table del) = Inr (d, t)"
    and it: "iterate_until (delete_row rx clk del d (schema t)) (ScanAll (heap t)) (([], 0), eng)
      = (((kept, n), eng1), q)"
  shows "(\<exists>e. q = Inl e \<and> ExecuteDelete rx clk del eng session = (eng1, Inl e)) \<or>
    (\<exists>ixs. q = Inr () \<and> kept \<in> set (subseqs (heap_rows (heap t))) \<and> RebuildIndexes (schema t) kept = Inr ixs \<and>
       table_inv (t\<lparr>indexes := ixs, heap := HeapReplaceAll kept (heap t)\<rparr>) \<and>
       ExecuteDelete rx clk del eng session =
         (put_table d (object_name (delete_table del)) (t\<lparr>indexes := ixs, heap := HeapReplaceAll kept (heap t)\<rparr>) eng1,
          message_result (''deleted '' @ nat_to_string n @ '' row(s)'')))"
proof (cases q)
  case (Inl e)
  with assms(2) it show ?thesis by (auto simp: ExecuteDelete_def)
next
  case (Inr u)
  note loc = locate_table_inv [OF assms(1,2)]
  have sub: "kept \<in> set (subseqs (heap_rows (heap t)))"
    using delete_rows_inv [OF it] Inr by (auto simp: ScanAll_def)
  have "\<forall>c \<in> set (index_columns (schema t)). keys_distinct (schema t) c kept"
    using table_inv_keys [OF loc(1)] keys_distinct_subseq [OF _ sub] by blast
  then obtain ixs where ixs: "RebuildIndexes (schema t) kept = Inr ixs" using RebuildIndexes_complete by blast
  have "table_inv (t\<lparr>indexes := ixs, heap := HeapReplaceAll kept (heap t)\<rparr>)"
    using table_inv_rows [OF loc(1)] subseq_distinct [OF sub]
    by (intro table_inv_replace [OF loc(1) ixs]) auto
  with Inr sub ixs assms(2) it show ?thesis by (auto simp: ExecuteDelete_def)
qed

lemma ExecuteDelete_inv:
  assumes "engine_inv eng" "ExecuteDelete rx clk del eng session = (eng', r)"
  shows "engine_inv eng'"
proof (cases "locate_table eng session (delete_table del)")
  case (Inr dt)
  obtain d t where dt: "dt = (d, t)" by (cases dt)
  note loc = locate_table_inv [OF assms(1) Inr [unfolded dt]]
  obtain kept n eng1 q where it: "iterate_until (delete_row rx clk del d (schema t)) (ScanAll (heap t)) (([], 0), eng)
      = (((kept, n), eng1), q)"
    by (cases "iterate_until (delete_row rx clk del d (schema t)) (ScanAll (heap t)) (([], 0), eng)") auto
  have e1: "engine_inv eng1" using delete_rows_inv [OF it] assms(1) by (simp add: engine_inv_def)
  from ExecuteDelete_cases [OF assms(1) Inr [unfolded dt] it] assms(2) show ?thesis
    using e1 loc by (auto intro!: put_table_inv)
qed (use assms in \<open>auto simp: ExecuteDelete_def\<close>)

section \<open>Databases and tables\<close>

lemma set_erase: "set (umap_erase k m) \<subseteq> set m"
  by (auto simp: umap_erase_def AList.delete_eq)

lemma set_emplace: "set (umap_emplace k v m) \<subseteq> insert (k, v) (set m)"
  by (auto simp: umap_emplace_def)

lemma umap_find_Nil: "umap_find [] k = None"
  by (simp add: umap_find_def)

lemma ExecuteCreateDatabase_inv:
  assumes "engine_inv eng" "ExecuteCreateDatabase clk name eng = (eng', r)"
  shows "engine_inv eng'"
proof (cases "umap_contains (databases (runtime eng)) name")
  case False
  let ?st = "(runtime eng)\<lparr>databases := umap_emplace name \<lparr>db_name = name, tables = []\<rparr> (databases (runtime eng))\<rparr>"
  have "state_inv ?st"
    using assms(1) set_emplace [of name "\<lparr>db_name = name, tables = []\<rparr>" "databases (runtime eng)"]
    by (fastforce simp: engine_inv_def state_inv_alt database_inv_def)
  moreover have "named ?st" using assms(1) by (auto simp: engine_inv_def named_def umap_find_Nil split: if_splits option.splits)
  ultimately have "engine_inv (eng\<lparr>catalog := CatalogCreateDatabase name (catalog eng), runtime := ?st\<rparr>)"
    using assms(1) by (simp add: engine_inv_def)
  with assms(2) False show ?thesis by (auto simp: ExecuteCreateDatabase_def Let_def)
qed (use assms in \<open>auto simp: ExecuteCreateDatabase_def\<close>)

lemma ExecuteDropDatabase_inv:
  assumes "engine_inv eng" "ExecuteDropDatabase clk name eng session = ((eng', session'), r)"
  shows "engine_inv eng'"
proof (cases "umap_contains (databases (runtime eng)) name")
  case True
  let ?st = "(runtime eng)\<lparr>databases := umap_erase name (databases (runtime eng))\<rparr>"
  have "state_inv ?st"
    using assms(1) set_erase [of name "databases (runtime eng)"] by (auto simp: engine_inv_def state_inv_alt)
  moreover have "named ?st" using assms(1) by (auto simp: engine_inv_def named_def split: if_splits)
  ultimately have "engine_inv (eng\<lparr>runtime := ?st, catalog := CatalogDropDatabase name (catalog eng)\<rparr>)"
    using assms(1) by (simp add: engine_inv_def)
  with assms(2) True show ?thesis by (auto simp: ExecuteDropDatabase_def Let_def)
qed (use assms in \<open>auto simp: ExecuteDropDatabase_def\<close>)

lemma make_columns_wf:
  "pool_wf p \<Longrightarrow> make_columns cols p = (cs, p') \<Longrightarrow> pool_wf p' \<and> map col_name cs = map ast_name cols"
proof (induction cols p arbitrary: cs p' rule: make_columns.induct)
  case (2 col cols p)
  obtain dv p1 where dv: "(case ast_default col of None \<Rightarrow> (None, p)
      | Some v \<Rightarrow> (case InternStringValue v p of (v', p') \<Rightarrow> (Some v', p'))) = (dv, p1)" by fastforce
  have p1: "pool_wf p1"
    using 2(2) dv InternStringValue_wf(1) [OF 2(2)] by (auto split: option.splits prod.splits)
  obtain rest p2 where rest: "make_columns cols p1 = (rest, p2)" by (cases "make_columns cols p1")
  from 2(1) [OF refl dv [symmetric] refl p1 rest] 2(3) dv rest show ?case by (auto simp: Let_def)
qed simp

lemma make_columns_indexes:
  "make_columns cols p = (cs, p') \<Longrightarrow> make_index_definitions n cols = column_indexes n cs"
proof (induction cols p arbitrary: cs p' rule: make_columns.induct)
  case (2 col cols p)
  obtain dv p1 where dv: "(case ast_default col of None \<Rightarrow> (None, p)
      | Some v \<Rightarrow> (case InternStringValue v p of (v', p') \<Rightarrow> (Some v', p'))) = (dv, p1)" by fastforce
  obtain rest p2 where rest: "make_columns cols p1 = (rest, p2)" by (cases "make_columns cols p1")
  from 2(1) [OF refl dv [symmetric] refl rest] 2(2) dv rest show ?case
    by (auto simp: Let_def make_index_definitions_def column_indexes_def split: if_splits)
qed (simp add: make_index_definitions_def column_indexes_def)

lemma find_column_exists: "name \<in> set (map col_name cs) \<Longrightarrow> find_column name cs i \<noteq> None"
  by (induction cs arbitrary: i) auto

lemma table_inv_created:
  assumes "map col_name (columns s) = map ast_name cols" "schema_indexes s = make_index_definitions n cols"
  shows "table_inv \<lparr>schema = s, heap = make_heap s, indexes = new_indexes s\<rparr>"
proof -
  have "index_holds s [] entry" if e: "entry \<in> set (new_indexes s)" for entry
  proof -
    have "fst entry \<in> set (map col_name (columns s))"
      using new_indexes_mem [of "fst entry" "snd entry" s] e assms by (auto simp: make_index_definitions_def)
    then obtain i where "FindColumnIndex s (fst entry) = Some i"
      using find_column_exists [of "fst entry" "columns s" 0] by (auto simp: FindColumnIndex_def)
    with e show ?thesis by (rule index_holds_new)
  qed
  then show ?thesis using heap_inv_make [of s] by (simp add: table_inv_def make_heap_def index_columns_def)
qed

lemma find_database_Some:
  "find_database eng session name = Inr (d, db) \<Longrightarrow> umap_find (databases (runtime eng)) d = Some db"
  by (auto simp: find_database_def split: option.splits)

text \<open>The table a successful \<^verbatim>\<open>CREATE TABLE\<close> stores.\<close>

lemma ExecuteCreateTable_cases:
  assumes "engine_inv eng" "find_database eng session name = Inr (d, db)" "umap_find (tables db) (object_name name) = None"
  shows "\<exists>t p. ExecuteCreateTable clk name cols eng session =
      ((AppendChangeEvent clk kCreateTable d (object_name name) (Some (schema t)) None None
          (put_table d (object_name name) t (eng\<lparr>pool := p\<rparr>)))\<lparr>catalog := RegisterTable (schema t) (catalog eng)\<rparr>,
       message_result ''table created'') \<and>
    pool_wf p \<and> table_inv t \<and> canonical_schema d (object_name name) (schema t) \<and> heap_rows (heap t) = []"
proof -
  obtain cs p where c: "make_columns cols (pool eng) = (cs, p)" by (cases "make_columns cols (pool eng)")
  have wf: "pool_wf p" "map col_name cs = map ast_name cols"
    using make_columns_wf [OF _ c] assms(1) by (simp_all add: engine_inv_def)
  let ?s = "\<lparr>schema_database = d, schema_table = object_name name, columns = cs,
    schema_indexes = make_index_definitions (object_name name) cols\<rparr>"
  let ?t = "\<lparr>schema = ?s, heap = make_heap ?s, indexes = new_indexes ?s\<rparr>"
  have "table_inv ?t" by (rule table_inv_created [of _ cols "object_name name"]) (simp_all add: wf)
  moreover have "heap_rows (make_heap ?s) = []" by (simp add: make_heap_def)
  moreover have "canonical_schema d (object_name name) ?s" using make_columns_indexes [OF c] by (simp add: canonical_schema_def)
  ultimately show ?thesis
    using assms(2,3) c wf(1) by (intro exI [of _ ?t] exI [of _ p])
      (simp add: ExecuteCreateTable_def umap_contains_find Let_def)
qed

lemma ExecuteCreateTable_inv:
  assumes "engine_inv eng" "ExecuteCreateTable clk name cols eng session = (eng', r)"
  shows "engine_inv eng'"
proof (cases "find_database eng session name")
  case (Inr ddb)
  obtain d db where ddb: "ddb = (d, db)" by (cases ddb)
  show ?thesis
  proof (cases "umap_find (tables db) (object_name name)")
    case None
    from ExecuteCreateTable_cases [OF assms(1) Inr [unfolded ddb] None] obtain t p where
      ct: "ExecuteCreateTable clk name cols eng session =
      ((AppendChangeEvent clk kCreateTable d (object_name name) (Some (schema t)) None None
          (put_table d (object_name name) t (eng\<lparr>pool := p\<rparr>)))\<lparr>catalog := RegisterTable (schema t) (catalog eng)\<rparr>,
       message_result ''table created'')" and
      t: "pool_wf p" "table_inv t" "canonical_schema d (object_name name) (schema t)"
      by blast
    have "engine_inv (put_table d (object_name name) t (eng\<lparr>pool := p\<rparr>))"
      using t assms(1) by (intro put_table_inv engine_inv_pool) auto
    with assms(2) ct show ?thesis by (auto simp: engine_inv_def)
  qed (use assms Inr ddb in \<open>auto simp: ExecuteCreateTable_def umap_contains_find\<close>)
qed (use assms in \<open>auto simp: ExecuteCreateTable_def\<close>)

lemma ExecuteDropTable_inv:
  assumes "engine_inv eng" "ExecuteDropTable clk name eng session = (eng', r)"
  shows "engine_inv eng'"
proof (cases "find_database eng session name")
  case (Inr ddb)
  obtain d db where ddb: "ddb = (d, db)" by (cases ddb)
  have db: "umap_find (databases (runtime eng)) d = Some db" using find_database_Some Inr ddb by simp
  let ?db = "db\<lparr>tables := umap_erase (object_name name) (tables db)\<rparr>"
  let ?st = "(runtime eng)\<lparr>databases := umap_assign d ?db (databases (runtime eng))\<rparr>"
  have "database_inv db" using assms(1) db state_inv_find by (auto simp: engine_inv_def)
  then have "database_inv ?db"
    using set_erase [of "object_name name" "tables db"] by (auto simp: database_inv_def)
  then have "state_inv ?st" using assms(1) by (intro state_inv_assign) (simp_all add: engine_inv_def)
  moreover have "named ?st" using assms(1) db by (auto simp: engine_inv_def named_def split: if_splits)
  ultimately have "engine_inv (eng\<lparr>runtime := ?st\<rparr>)" using assms(1) by (simp add: engine_inv_def)
  with assms Inr ddb show ?thesis by (auto simp: ExecuteDropTable_def Let_def split: option.splits)
qed (use assms in \<open>auto simp: ExecuteDropTable_def\<close>)

section \<open>REBUILD INDEX\<close>

lemma list_all2_find:
  "list_all2 R xs ys \<Longrightarrow> (\<And>x y. R x y \<Longrightarrow> fst y = fst x) \<Longrightarrow> umap_find ys k = Some v \<Longrightarrow>
   \<exists>u. umap_find xs k = Some u \<and> R (k, u) (k, v)"
proof (induction rule: list_all2_induct)
  case (Cons x xs y ys)
  show ?case
  proof (cases "fst y = k")
    case True
    with Cons.prems Cons.hyps show ?thesis by (cases x; cases y) (force simp: umap_find_def)
  next
    case False
    with Cons.prems(2) have "umap_find ys k = Some v" by (cases y) (simp add: umap_find_def)
    with Cons.IH Cons.prems(1) obtain u where "umap_find xs k = Some u" "R (k, u) (k, v)" by blast
    moreover have "fst x \<noteq> k" using False Cons.prems(1) [OF Cons.hyps(1)] by simp
    ultimately show ?thesis by (cases x) (simp add: umap_find_def)
  qed
qed (simp add: umap_find_def)

lemma same_contents_find:
  assumes "same_contents st st'" "umap_find (databases st') d = Some db'" "umap_find (tables db') n = Some t'"
  shows "\<exists>db t. umap_find (databases st) d = Some db \<and> umap_find (tables db) n = Some t \<and>
    schema t' = schema t \<and> heap_rows (heap t') = heap_rows (heap t)"
proof -
  from assms(1,2) obtain db where db: "umap_find (databases st) d = Some db" "same_database (d, db) (d, db')"
    using list_all2_find [of same_database "databases st" "databases st'" d db']
    by (auto simp: same_contents_def same_database_def)
  then obtain t where "umap_find (tables db) n = Some t" "same_table (n, t) (n, t')"
    using assms(3) list_all2_find [of same_table "tables db" "tables db'" n t']
    by (auto simp: same_database_def same_table_def)
  with db(1) show ?thesis by (auto simp: same_table_def)
qed

lemma named_same_contents: "named st \<Longrightarrow> same_contents st st' \<Longrightarrow> named st'"
  unfolding named_def using same_contents_find by metis

lemma ExecuteRebuildIndex_correct:
  assumes "engine_inv eng"
  shows "\<exists>st. ExecuteRebuildIndex eng = (eng\<lparr>runtime := st\<rparr>, message_result ''index rebuild completed'') \<and>
    engine_inv (eng\<lparr>runtime := st\<rparr>) \<and> same_contents (runtime eng) st"
proof -
  have "state_inv (runtime eng)" using assms by (simp add: engine_inv_def)
  then obtain st where "RebuildRuntimeIndexes (runtime eng) = (st, MakeSuccess True)" "state_inv st"
    "same_contents (runtime eng) st" using RebuildRuntimeIndexes_correct by blast
  with assms named_same_contents show ?thesis
    by (auto simp: ExecuteRebuildIndex_def engine_inv_def MakeSuccess_def)
qed

section \<open>REVERT\<close>

text \<open>The rows of a table that its history mentions: what the table is allowed to contain.\<close>

definition after_fits :: "TableSchema \<Rightarrow> ChangeRecord \<Rightarrow> bool" where
  "after_fits s r \<longleftrightarrow> (\<forall>row. after_row r = Some row \<longrightarrow> row_id row \<noteq> kInvalidRowId \<and> row_fits s row)"

definition row_map :: "(RowData \<Rightarrow> bool) \<Rightarrow> (RowId, RowData) umap \<Rightarrow> bool" where
  "row_map P m \<longleftrightarrow> umap_wf m \<and> (\<forall>(k, row) \<in> set m. row_id row = k \<and> P row)"

lemma row_map_Nil [simp]: "row_map P []"
  by (simp add: row_map_def)

lemma row_map_assign: "row_map P m \<Longrightarrow> P row \<Longrightarrow> row_map P (umap_assign (row_id row) row m)"
  using set_update [of "row_id row" row m] by (auto simp: row_map_def umap_assign_def [symmetric])

lemma row_map_erase: "row_map P m \<Longrightarrow> row_map P (umap_erase k m)"
  using set_erase [of k m] by (auto simp: row_map_def)

lemma row_map_replay:
  assumes "row_map P m" "\<And>row. after_row r = Some row \<Longrightarrow> P row"
  shows "row_map P (replay_record m r)"
  using assms by (auto simp: replay_record_def split: ChangeKind.split option.split intro: row_map_assign row_map_erase)

lemma row_map_replay_until:
  assumes "row_map P m" "\<forall>r \<in> set rs. \<forall>row. after_row r = Some row \<longrightarrow> P row"
  shows "row_map P (foldl (\<lambda>m r. if ts < rec_timestamp r then m else replay_record m r) m rs)"
  using assms
proof (induction rs arbitrary: m)
  case (Cons r rs)
  have "row_map P (if ts < rec_timestamp r then m else replay_record m r)"
    using Cons.prems row_map_replay [of P m r] by auto
  from Cons.IH [OF this] Cons.prems(2) show ?case by simp
qed simp

lemma row_map_ids: "row_map P m \<Longrightarrow> map row_id (map snd m) = map fst m"
  by (auto simp: row_map_def)

lemma distinct_map_sort_key: "distinct (map f xs) \<Longrightarrow> distinct (map f (sort_key g xs))"
  by (simp add: distinct_map)

lemma ReconstructTableStateAt_rows:
  assumes "\<forall>r \<in> set (HistoryForTable vs d n). \<forall>row. after_row r = Some row \<longrightarrow> P row"
  shows "distinct (map row_id (ReconstructTableStateAt vs d n ts))"
    "\<forall>row \<in> set (ReconstructTableStateAt vs d n ts). P row"
proof -
  let ?m = "foldl (\<lambda>m r. if ts < rec_timestamp r then m else replay_record m r) [] (HistoryForTable vs d n)"
  have m: "row_map P ?m" by (rule row_map_replay_until [OF row_map_Nil assms])
  have "distinct (map row_id (map snd ?m))"
    using m unfolding row_map_ids [OF m] by (simp add: row_map_def umap_wf_def)
  then show "distinct (map row_id (ReconstructTableStateAt vs d n ts))"
    unfolding ReconstructTableStateAt_def by (rule distinct_map_sort_key)
  show "\<forall>row \<in> set (ReconstructTableStateAt vs d n ts). P row"
    using m by (auto simp: ReconstructTableStateAt_def row_map_def)
qed

lemma revert_current_frame:
  "revert_current clk d n m eng e = (eng', r) \<Longrightarrow>
   runtime eng' = runtime eng \<and> pool eng' = pool eng \<and> catalog eng' = catalog eng"
  by (auto simp: revert_current_def split: prod.splits option.splits sum.splits bool.splits)

lemma revert_events_frame:
  "iterate_until (revert_current clk d n m) es eng = (eng', r) \<Longrightarrow>
   runtime eng' = runtime eng \<and> pool eng' = pool eng \<and> catalog eng' = catalog eng"
proof (induction es arbitrary: eng)
  case (Cons e es)
  obtain eng1 r1 where s: "revert_current clk d n m eng e = (eng1, r1)" by (cases "revert_current clk d n m eng e")
  with revert_current_frame [OF s] Cons show ?case by (cases r1) auto
qed simp

lemma revert_added_frame:
  "runtime (foldl (revert_added clk d n m) eng es) = runtime eng \<and>
   pool (foldl (revert_added clk d n m) eng es) = pool eng \<and>
   catalog (foldl (revert_added clk d n m) eng es) = catalog eng"
  by (induction es arbitrary: eng) (auto simp: revert_added_def split: prod.splits)

text \<open>
  A revert either leaves the stored tables alone or installs the reconstructed rows; in both cases
  the events it appends touch neither the tables nor the pool.
\<close>

lemma revert_table_to_cases:
  assumes "revert_table_to clk d n t ts eng = (eng', r)"
  shows "\<exists>eng2. runtime eng2 = runtime eng \<and> pool eng2 = pool eng \<and> catalog eng2 = catalog eng \<and>
    ((\<exists>e. r = Inl e \<and> eng' = eng2) \<or>
     (\<exists>ixs. RebuildIndexes (schema t) (ReconstructTableStateAt (versions eng) d n ts) = Inr ixs \<and>
        r = message_result (''reverted to '' @ ts) \<and>
        eng' = put_table d n (t\<lparr>indexes := ixs,
          heap := HeapReplaceAll (ReconstructTableStateAt (versions eng) d n ts) (heap t)\<rparr>) eng2))"
proof -
  let ?rows = "ReconstructTableStateAt (versions eng) d n ts"
  obtain eng1 q where it: "iterate_until (revert_current clk d (schema_table (schema t)) (rows_by_id ?rows))
      (rows_by_id (ScanAll (heap t))) eng = (eng1, q)"
    by (cases "iterate_until (revert_current clk d (schema_table (schema t)) (rows_by_id ?rows))
      (rows_by_id (ScanAll (heap t))) eng")
  let ?eng2 = "foldl (revert_added clk d (schema_table (schema t)) (rows_by_id (ScanAll (heap t)))) eng1 (rows_by_id ?rows)"
  have f1: "runtime eng1 = runtime eng \<and> pool eng1 = pool eng \<and> catalog eng1 = catalog eng"
    by (rule revert_events_frame [OF it])
  have f2: "runtime ?eng2 = runtime eng \<and> pool ?eng2 = pool eng \<and> catalog ?eng2 = catalog eng"
    using revert_added_frame f1 by simp
  show ?thesis
  proof (cases "list_ex (\<lambda>row. length (row_values row) \<noteq> length (columns (schema t))) ?rows")
    case True
    with assms show ?thesis by (auto simp: revert_table_to_def MakeError_def)
  next
    case False
    note shape = this
    show ?thesis
    proof (cases q)
      case (Inl e)
      with assms shape it f1 show ?thesis by (auto simp: revert_table_to_def Let_def)
    next
      case (Inr u)
      with assms shape it f2 show ?thesis
        by (cases "RebuildIndexes (schema t) ?rows") (auto simp: revert_table_to_def Let_def)
    qed
  qed
qed

lemma ExecuteRevert_inv:
  assumes "engine_inv eng" "ExecuteRevert clk rv eng session = (eng', r)"
    and "\<And>d t. locate_table eng session (revert_table rv) = Inr (d, t) \<Longrightarrow>
      \<forall>rec \<in> set (HistoryForTable (versions eng) d (object_name (revert_table rv))). after_fits (schema t) rec"
  shows "engine_inv eng'"
proof (cases "locate_table eng session (revert_table rv)")
  case (Inr dt)
  obtain d t where dt: "dt = (d, t)" by (cases dt)
  note loc = locate_table_inv [OF assms(1) Inr [unfolded dt]]
  let ?n = "object_name (revert_table rv)"
  show ?thesis
  proof (cases "\<exists>ts. revert_target rv d (versions eng) = Inr (Some ts)")
    case True
    then obtain ts where ts: "revert_target rv d (versions eng) = Inr (Some ts)" by blast
    let ?rows = "ReconstructTableStateAt (versions eng) d ?n ts"
    have rv: "revert_table_to clk d ?n t ts eng = (eng', r)"
      using assms(2) Inr dt ts by (simp add: ExecuteRevert_def)
    have "\<forall>rec \<in> set (HistoryForTable (versions eng) d ?n). \<forall>row. after_row rec = Some row \<longrightarrow>
        row_id row \<noteq> kInvalidRowId \<and> row_fits (schema t) row"
      using assms(3) [of d t] Inr dt by (simp add: after_fits_def)
    note rows = ReconstructTableStateAt_rows(2) [OF this] and dist = ReconstructTableStateAt_rows(1) [OF this]
    from revert_table_to_cases [OF rv] obtain eng2 where
      e2: "runtime eng2 = runtime eng" "pool eng2 = pool eng" and
      c: "eng' = eng2 \<or> (\<exists>ixs. RebuildIndexes (schema t) ?rows = Inr ixs \<and>
        eng' = put_table d ?n (t\<lparr>indexes := ixs, heap := HeapReplaceAll ?rows (heap t)\<rparr>) eng2)" by blast
    have inv2: "engine_inv eng2" using assms(1) e2 by (simp add: engine_inv_def)
    from c show ?thesis
    proof (elim disjE exE conjE)
      fix ixs assume ix: "RebuildIndexes (schema t) ?rows = Inr ixs" and
        e: "eng' = put_table d ?n (t\<lparr>indexes := ixs, heap := HeapReplaceAll ?rows (heap t)\<rparr>) eng2"
      from table_inv_replace [OF loc(1) ix dist rows] e loc inv2 show ?thesis by (auto intro: put_table_inv)
    qed (use inv2 in simp)
  next
    case False
    with assms(1,2) Inr dt show ?thesis
      by (cases "revert_target rv d (versions eng)") (auto simp: ExecuteRevert_def split: option.splits)
  qed
qed (use assms in \<open>auto simp: ExecuteRevert_def\<close>)

end
