(* ===== verification/Execution_History.thy ===== *)
theory Execution_History
  imports Execution_Invariant
begin

text \<open>
  What the change log says about the tables. Replaying the log of a table gives the rows of its
  heap, up to the representation of strings; every statement that succeeds keeps it so, and
  \<^verbatim>\<open>REVERT\<close> reads the rows of an earlier moment off the log.
\<close>

section \<open>Rows up to the representation of strings\<close>

definition same_row :: "RowData \<Rightarrow> RowData \<Rightarrow> bool" where
  "same_row a b \<longleftrightarrow> row_id a = row_id b \<and> list_all2 same_value (row_values a) (row_values b)"

lemma same_value_refl [simp]: "same_value v v"
  by (cases v) auto

lemma same_value_sym: "same_value v w \<Longrightarrow> same_value w v"
  by (cases v; cases w) auto

lemma same_value_trans: "same_value u v \<Longrightarrow> same_value v w \<Longrightarrow> same_value u w"
  by (cases u; cases v; cases w) auto

lemma same_row_refl [simp]: "same_row a a"
  by (simp add: same_row_def list_all2_refl)

lemma same_row_trans: "same_row a b \<Longrightarrow> same_row b c \<Longrightarrow> same_row a c"
  unfolding same_row_def using list_all2_trans [of same_value same_value same_value] same_value_trans by metis

lemma RowValuesEqual_True:
  assumes "RowValuesEqual a b = Inr True" "row_id a = row_id b"
  shows "same_row a b"
proof -
  let ?step = "\<lambda>equal (l, r). if \<not> equal then Inr False
             else if GetValueType l \<noteq> GetValueType r then Inr False
             else bind_result (CompareValues l r) (\<lambda>c. Inr (c = 0))"
  have stays: "foldM ?step ps False = Inr False" for ps by (induction ps) auto
  have "list_all (\<lambda>(l, r). same_value l r) ps" if "foldM ?step ps True = Inr True" for ps
    using that
  proof (induction ps)
    case (Cons p ps)
    obtain l r where p: "p = (l, r)" by (cases p)
    from Cons.prems p obtain e where e: "?step True (l, r) = Inr e" "foldM ?step ps e = Inr True" by auto
    with stays have "e" by (cases e) auto
    with e(1) have "same_value l r" by (auto simp: CompareValues_zero_iff split: if_splits)
    with Cons.IH e(2) p \<open>e\<close> show ?case by simp
  qed simp
  with assms show ?thesis
    by (auto simp: RowValuesEqual_def same_row_def list_all2_iff list_all_iff split: if_splits)
qed

text \<open>Two finite maps from row ids to rows that hold the same rows.\<close>

definition same_rows :: "(RowId \<Rightarrow> RowData option) \<Rightarrow> (RowId \<Rightarrow> RowData option) \<Rightarrow> bool" where
  "same_rows f g \<longleftrightarrow> (\<forall>k. rel_option same_row (f k) (g k))"

lemma same_rows_refl [simp]: "same_rows f f"
  by (simp add: same_rows_def option.rel_refl)

lemma same_rows_trans: "same_rows f g \<Longrightarrow> same_rows g h \<Longrightarrow> same_rows f h"
proof -
  have "rel_option same_row x z" if "rel_option same_row x y" "rel_option same_row y z" for x y z
    using that by (cases x; cases y; cases z) (auto intro: same_row_trans)
  then show "same_rows f g \<Longrightarrow> same_rows g h \<Longrightarrow> same_rows f h" unfolding same_rows_def by blast
qed

lemma same_rows_upd: "same_rows f g \<Longrightarrow> rel_option same_row x y \<Longrightarrow> same_rows (f(k := x)) (g(k := y))"
  by (simp add: same_rows_def)

section \<open>The rows of a list by id\<close>

lemma row_lookup_Nil [simp]: "row_lookup [] = Map.empty"
  by (simp add: row_lookup_def)

lemma row_lookup_append: "row_lookup (xs @ ys) = row_lookup ys ++ row_lookup xs"
  by (simp add: row_lookup_def)

lemma row_lookup_None: "row_lookup xs k = None \<longleftrightarrow> k \<notin> row_id ` set xs"
  by (auto simp: row_lookup_def map_of_eq_None_iff image_image)

lemma row_lookup_added:
  assumes "row_id row \<notin> row_id ` set xs"
  shows "row_lookup (xs @ [row]) = (row_lookup xs)(row_id row \<mapsto> row)"
proof
  fix k
  have "row_lookup xs (row_id row) = None" using assms by (simp add: row_lookup_None)
  then show "row_lookup (xs @ [row]) k = ((row_lookup xs)(row_id row \<mapsto> row)) k"
    by (auto simp: row_lookup_append row_lookup_def map_add_def split: option.split)
qed

lemma row_lookup_mid:
  assumes "distinct (map row_id (p @ row # q))"
  shows "row_lookup (p @ row # q) = (row_lookup (p @ q))(row_id row \<mapsto> row)"
proof
  fix k
  have "row_lookup p (row_id row) = None" using assms by (auto simp: row_lookup_None)
  moreover have "row_lookup (row # q) = (row_lookup q)(row_id row \<mapsto> row)" by (simp add: row_lookup_def)
  ultimately show "row_lookup (p @ row # q) k = ((row_lookup (p @ q))(row_id row \<mapsto> row)) k"
    by (auto simp: row_lookup_append map_add_def split: option.split)
qed

lemma row_lookup_replaced:
  assumes "distinct (map row_id (p @ row # q))" "row_id row' = row_id row"
  shows "row_lookup (p @ row' # q) = (row_lookup (p @ row # q))(row_id row' \<mapsto> row')"
proof -
  have "distinct (map row_id (p @ row' # q))" using assms by simp
  from row_lookup_mid [OF this] row_lookup_mid [OF assms(1)] assms(2) show ?thesis by simp
qed

lemma row_lookup_removed:
  assumes "distinct (map row_id (p @ row # q))"
  shows "row_lookup (p @ q) = (row_lookup (p @ row # q))(row_id row := None)"
proof -
  have "row_lookup (p @ q) (row_id row) = None" using assms by (auto simp: row_lookup_None)
  then show ?thesis by (auto simp: row_lookup_mid [OF assms])
qed

section \<open>Events\<close>

text \<open>
  \<open>events P f g eng eng'\<close>: the records that \<open>eng'\<close> has more than \<open>eng\<close> satisfy \<open>P\<close>, and replaying
  them takes the rows \<open>f\<close> to the rows \<open>g\<close>.
\<close>

definition replays :: "ChangeRecord list \<Rightarrow> (RowId \<Rightarrow> RowData option) \<Rightarrow> (RowId \<Rightarrow> RowData option) \<Rightarrow> bool" where
  "replays rs f g \<longleftrightarrow> (\<forall>m. same_rows (umap_find m) f \<longrightarrow> same_rows (umap_find (foldl replay_record m rs)) g)"

definition events ::
  "(ChangeRecord \<Rightarrow> bool) \<Rightarrow> (RowId \<Rightarrow> RowData option) \<Rightarrow> (RowId \<Rightarrow> RowData option) \<Rightarrow> Engine \<Rightarrow> Engine \<Rightarrow> bool" where
  "events P f g eng eng' \<longleftrightarrow>
     (\<exists>rs. records (versions eng') = records (versions eng) @ rs \<and> (\<forall>r \<in> set rs. P r) \<and> replays rs f g)"

text \<open>The same without the rows: for statements that end in an error.\<close>

definition logs :: "(ChangeRecord \<Rightarrow> bool) \<Rightarrow> Engine \<Rightarrow> Engine \<Rightarrow> bool" where
  "logs P eng eng' \<longleftrightarrow> (\<exists>rs. records (versions eng') = records (versions eng) @ rs \<and> (\<forall>r \<in> set rs. P r))"

lemma events_logs: "events P f g eng eng' \<Longrightarrow> logs P eng eng'"
  by (auto simp: events_def logs_def)

lemma replays_trans: "replays rs f g \<Longrightarrow> replays rs' g h \<Longrightarrow> replays (rs @ rs') f h"
  by (simp add: replays_def)

lemma events_same: "versions eng' = versions eng \<Longrightarrow> same_rows f g \<Longrightarrow> events P f g eng eng'"
  unfolding events_def replays_def by (intro exI [of _ "[]"]) (auto intro: same_rows_trans)

lemma events_trans: "events P f g eng eng' \<Longrightarrow> events P g h eng' eng'' \<Longrightarrow> events P f h eng eng''"
proof -
  assume "events P f g eng eng'" "events P g h eng' eng''"
  then obtain rs rs' where "records (versions eng') = records (versions eng) @ rs" "\<forall>r \<in> set rs. P r" "replays rs f g"
    "records (versions eng'') = records (versions eng') @ rs'" "\<forall>r \<in> set rs'. P r" "replays rs' g h"
    unfolding events_def by blast
  then show ?thesis unfolding events_def by (intro exI [of _ "rs @ rs'"]) (auto intro: replays_trans)
qed

lemma logs_same: "versions eng' = versions eng \<Longrightarrow> logs P eng eng'"
  by (simp add: logs_def)

lemma logs_trans: "logs P eng eng' \<Longrightarrow> logs P eng' eng'' \<Longrightarrow> logs P eng eng''"
proof -
  assume "logs P eng eng'" "logs P eng' eng''"
  then obtain rs rs' where "records (versions eng') = records (versions eng) @ rs" "\<forall>r \<in> set rs. P r"
    "records (versions eng'') = records (versions eng') @ rs'" "\<forall>r \<in> set rs'. P r"
    unfolding logs_def by blast
  then show ?thesis unfolding logs_def by (intro exI [of _ "rs @ rs'"]) auto
qed

lemma events_weaken: "events P f g eng eng' \<Longrightarrow> same_rows g h \<Longrightarrow> events P f h eng eng'"
  unfolding events_def replays_def by (blast intro: same_rows_trans)

text \<open>The record of an event.\<close>

lemma AppendChangeEvent_record:
  "\<exists>ts. records (versions (AppendChangeEvent clk k d n s b a eng)) = records (versions eng) @
     [\<lparr>rec_kind = k, rec_database = d, rec_table = n, rec_timestamp = ts,
       rec_row_id = (case a of Some row \<Rightarrow> row_id row
                     | None \<Rightarrow> (case b of Some row \<Rightarrow> row_id row | None \<Rightarrow> kInvalidRowId)),
       rec_schema = s, before_row = b, after_row = a\<rparr>]"
  by (auto simp: AppendChangeEvent_def VersionAppend_def Let_def)

text \<open>An event of table \<open>n\<close> of database \<open>d\<close> whose row fits the schema.\<close>

definition table_event :: "string \<Rightarrow> string \<Rightarrow> TableSchema \<Rightarrow> ChangeRecord \<Rightarrow> bool" where
  "table_event d n s r \<longleftrightarrow> for_table d n r \<and> after_fits s r"

lemma umap_find_replay:
  "umap_find (replay_record m r) =
     (case rec_kind r of
        kCreateTable \<Rightarrow> Map.empty
      | kDropTable \<Rightarrow> Map.empty
      | kInsertRow \<Rightarrow> (case after_row r of Some row \<Rightarrow> (umap_find m)(row_id row \<mapsto> row) | None \<Rightarrow> umap_find m)
      | kUpdateRow \<Rightarrow> (case after_row r of Some row \<Rightarrow> (umap_find m)(row_id row \<mapsto> row) | None \<Rightarrow> umap_find m)
      | kDeleteRow \<Rightarrow> (case before_row r of Some row \<Rightarrow> (umap_find m)(row_id row := None) | None \<Rightarrow> umap_find m)
      | _ \<Rightarrow> umap_find m)"
  by (auto simp: replay_record_def fun_eq_iff umap_find_Nil split: ChangeKind.split option.split)

lemma event_put:
  assumes "row_id row \<noteq> kInvalidRowId" "row_fits s row" "k = kInsertRow \<or> k = kUpdateRow"
  shows "events (table_event d n s) f (f(row_id row \<mapsto> row)) eng (AppendChangeEvent clk k d n None b (Some row) eng)"
proof -
  obtain ts where rec: "records (versions (AppendChangeEvent clk k d n None b (Some row) eng)) = records (versions eng) @
     [\<lparr>rec_kind = k, rec_database = d, rec_table = n, rec_timestamp = ts, rec_row_id = row_id row,
       rec_schema = None, before_row = b, after_row = Some row\<rparr>]"
    using AppendChangeEvent_record [of clk k d n None b "Some row" eng] by auto
  show ?thesis unfolding events_def rec
    by (rule exI, rule conjI [OF refl])
      (use assms in \<open>auto simp: replays_def umap_find_replay table_event_def for_table_def after_fits_def
         intro!: same_rows_upd\<close>)
qed

lemma event_delete:
  "events (table_event d n s) f (f(row_id row := None)) eng (AppendChangeEvent clk kDeleteRow d n None (Some row) None eng)"
proof -
  obtain ts where rec: "records (versions (AppendChangeEvent clk kDeleteRow d n None (Some row) None eng)) = records (versions eng) @
     [\<lparr>rec_kind = kDeleteRow, rec_database = d, rec_table = n, rec_timestamp = ts, rec_row_id = row_id row,
       rec_schema = None, before_row = Some row, after_row = None\<rparr>]"
    using AppendChangeEvent_record [of clk kDeleteRow d n None "Some row" None eng] by auto
  show ?thesis unfolding events_def rec
    by (rule exI, rule conjI [OF refl])
      (auto simp: replays_def umap_find_replay table_event_def for_table_def after_fits_def intro!: same_rows_upd)
qed

section \<open>INSERT\<close>

definition ids_sorted :: "RowData list \<Rightarrow> bool" where
  "ids_sorted rows \<longleftrightarrow> sorted_wrt (<) (map row_id rows)"

lemma insert_rows_events:
  assumes "table_inv t" "pool_wf (pool eng)" "unat (next_row_id (heap t)) + length rows < 2 ^ 64"
    and "iterate_until (insert_row clk d positions) rows (t, eng) = ((t', eng'), r)"
  shows "events (table_event d (schema_table (schema t)) (schema t))
      (row_lookup (heap_rows (heap t))) (row_lookup (heap_rows (heap t'))) eng eng'"
    and "ids_sorted (heap_rows (heap t)) \<Longrightarrow> ids_sorted (heap_rows (heap t'))"
proof -
  have "events (table_event d (schema_table (schema t)) (schema t))
      (row_lookup (heap_rows (heap t))) (row_lookup (heap_rows (heap t'))) eng eng' \<and>
      (ids_sorted (heap_rows (heap t)) \<longrightarrow> ids_sorted (heap_rows (heap t')))"
    using assms
  proof (induction rows arbitrary: t eng)
    case Nil
    then show ?case by (auto intro: events_same)
  next
    case (Cons row rows)
    obtain t1 eng1 r1 where s: "insert_row clk d positions (t, eng) row = ((t1, eng1), r1)"
      by (cases "insert_row clk d positions (t, eng) row") auto
    have room: "next_row_id (heap t) \<noteq> kInvalidRowId" using Cons.prems(3) by (intro kInvalid_unat) simp
    from insert_row_cases [OF Cons.prems(1,2) room s] show ?case
    proof (elim disjE exE conjE)
      fix e p assume "r1 = Inl e" "t1 = t" "eng1 = eng\<lparr>pool := p\<rparr>" "pool_wf p"
      with Cons.prems s show ?thesis by (auto intro: events_same)
    next
      fix row' assume ok: "r1 = Inr ()" and a: "row_added clk d t eng t1 eng1 row'"
      then obtain p where e1: "eng1 = AppendChangeEvent clk kInsertRow d (schema_table (schema t)) None None (Some row') (eng\<lparr>pool := p\<rparr>)"
        and t1: "table_inv t1" "pool_wf (pool eng1)" "schema t1 = schema t"
          "heap_rows (heap t1) = heap_rows (heap t) @ [row']" "row_id row' = next_row_id (heap t)"
          "next_row_id (heap t1) = next_row_id (heap t) + 1" by (auto simp: row_added_def)
      have below: "\<forall>x \<in> set (heap_rows (heap t)). row_id x < row_id row'"
        using Cons.prems(1) t1(5) by (auto simp: table_inv_def heap_inv_def rows_below_def)
      have fit: "row_id row' \<noteq> kInvalidRowId \<and> row_fits (schema t) row'"
        using table_inv_rows(2) [OF t1(1), of row'] t1(3,4) by simp
      have "events (table_event d (schema_table (schema t)) (schema t)) (row_lookup (heap_rows (heap t)))
          (row_lookup (heap_rows (heap t1))) (eng\<lparr>pool := p\<rparr>) eng1"
        unfolding e1 t1(4) using below fit
        by (subst row_lookup_added) (auto intro!: event_put)
      moreover have "events P f f eng (eng\<lparr>pool := p\<rparr>)" for P f by (rule events_same) simp_all
      ultimately have step: "events (table_event d (schema_table (schema t)) (schema t)) (row_lookup (heap_rows (heap t)))
          (row_lookup (heap_rows (heap t1))) eng eng1" using events_trans by blast
      have "unat (next_row_id (heap t1)) + length rows < 2 ^ 64"
        using Cons.prems(3) unat_plus_one [OF room] t1(6) by simp
      moreover have "iterate_until (insert_row clk d positions) rows (t1, eng1) = ((t', eng'), r)"
        using Cons.prems(4) s ok by simp
      ultimately have IH: "events (table_event d (schema_table (schema t)) (schema t))
          (row_lookup (heap_rows (heap t1))) (row_lookup (heap_rows (heap t'))) eng1 eng'"
        "ids_sorted (heap_rows (heap t1)) \<longrightarrow> ids_sorted (heap_rows (heap t'))"
        using Cons.IH [OF t1(1,2)] t1(3) by simp_all
      moreover have "ids_sorted (heap_rows (heap t)) \<longrightarrow> ids_sorted (heap_rows (heap t1))"
        using below t1(4) by (auto simp: ids_sorted_def sorted_wrt_append)
      ultimately show ?thesis using events_trans [OF step IH(1)] by blast
    qed
  qed
  then show "events (table_event d (schema_table (schema t)) (schema t))
      (row_lookup (heap_rows (heap t))) (row_lookup (heap_rows (heap t'))) eng eng'"
    "ids_sorted (heap_rows (heap t)) \<Longrightarrow> ids_sorted (heap_rows (heap t'))" by blast+
qed

section \<open>UPDATE and DELETE\<close>

lemma update_row_event:
  assumes "pool_wf (pool eng)" "row_fits s row" "row_id row \<noteq> kInvalidRowId"
    and "update_row rx clk upd d s ((acc, n), eng) row = (((acc', n'), eng'), r)"
    and "distinct (map row_id (acc @ row # rest))"
  shows "logs (table_event d (schema_table s) s) eng eng'"
    and "r = Inr () \<Longrightarrow> events (table_event d (schema_table s) s)
      (row_lookup (acc @ row # rest)) (row_lookup (acc' @ rest)) eng eng'"
proof -
  have "logs (table_event d (schema_table s) s) eng eng' \<and>
    (r = Inr () \<longrightarrow> events (table_event d (schema_table s) s)
      (row_lookup (acc @ row # rest)) (row_lookup (acc' @ rest)) eng eng')"
  proof (cases "\<exists>row1. passes rx (update_where upd) s row = Inr True \<and>
      foldM (apply_assignment s) (assignments upd) row = Inr row1")
    case False
    with assms(4) show ?thesis
      by (auto simp: update_row_def split: sum.splits if_splits intro: logs_same events_same)
  next
    case True
    then obtain row1 where pass: "passes rx (update_where upd) s row = Inr True" and
      row1: "foldM (apply_assignment s) (assignments upd) row = Inr row1" by blast
    obtain row2 p1 where i: "InternStringValues row1 (pool eng) = (row2, p1)" by (cases "InternStringValues row1 (pool eng)")
    obtain row3 p2 q where v: "ValidateRowAgainstSchema row2 s p1 = ((row3, p2), q)"
      by (cases "ValidateRowAgainstSchema row2 s p1") auto
    show ?thesis
    proof (cases q)
      case (Inl e)
      with assms(4) pass row1 i v show ?thesis by (auto simp: update_row_def intro: logs_same)
    next
      case (Inr u)
      with assms(4) pass row1 i v have res: "r = Inr ()" "acc' = acc @ [row3]"
        "eng' = AppendChangeEvent clk kUpdateRow d (schema_table s) None (Some row) (Some row3) (eng\<lparr>pool := p2\<rparr>)"
        by (auto simp: update_row_def)
      with update_row_step [OF assms(1,2,4)] have row3: "row_id row3 = row_id row" "row_fits s row3" by auto
      have "events (table_event d (schema_table s) s) (row_lookup (acc @ row # rest))
          ((row_lookup (acc @ row # rest))(row_id row3 \<mapsto> row3)) (eng\<lparr>pool := p2\<rparr>) eng'"
        unfolding res(3) using assms(3) row3 by (intro event_put) auto
      then have "events (table_event d (schema_table s) s) (row_lookup (acc @ row # rest))
          (row_lookup (acc' @ rest)) (eng\<lparr>pool := p2\<rparr>) eng'"
        using row_lookup_replaced [OF assms(5) row3(1)] res(2) by simp
      moreover have "events P f f eng (eng\<lparr>pool := p2\<rparr>)" for P f by (rule events_same) simp_all
      ultimately show ?thesis using events_trans events_logs by blast
    qed
  qed
  then show "logs (table_event d (schema_table s) s) eng eng'"
    "r = Inr () \<Longrightarrow> events (table_event d (schema_table s) s)
      (row_lookup (acc @ row # rest)) (row_lookup (acc' @ rest)) eng eng'" by blast+
qed

lemma delete_row_event:
  assumes "delete_row rx clk del d s ((acc, n), eng) row = (((acc', n'), eng'), r)"
    and "distinct (map row_id (acc @ row # rest))"
  shows "logs (table_event d (schema_table s) s) eng eng' \<and>
    (r = Inr () \<longrightarrow> events (table_event d (schema_table s) s)
      (row_lookup (acc @ row # rest)) (row_lookup (acc' @ rest)) eng eng')"
proof (cases "passes rx (delete_where del) s row = Inr True")
  case True
  have "events (table_event d (schema_table s) s) (row_lookup (acc @ row # rest)) (row_lookup (acc @ rest)) eng
      (AppendChangeEvent clk kDeleteRow d (schema_table s) None (Some row) None eng)"
    using event_delete row_lookup_removed [OF assms(2)] by simp
  with True assms(1) show ?thesis by (auto simp: delete_row_def dest: events_logs)
next
  case False
  with assms(1) show ?thesis
    by (auto simp: delete_row_def split: sum.splits if_splits intro: logs_same events_same)
qed

lemma update_rows_events:
  assumes "pool_wf (pool eng)" "\<forall>row \<in> set rows. row_fits s row \<and> row_id row \<noteq> kInvalidRowId"
    and "distinct (map row_id (acc @ rows))"
    and "iterate_until (update_row rx clk upd d s) rows ((acc, n), eng) = (((acc', n'), eng'), r)"
  shows "logs (table_event d (schema_table s) s) eng eng' \<and>
    (r = Inr () \<longrightarrow> events (table_event d (schema_table s) s)
      (row_lookup (acc @ rows)) (row_lookup acc') eng eng')"
  using assms
proof (induction rows arbitrary: acc n eng)
  case Nil
  then show ?case by (auto intro: logs_same events_same)
next
  case (Cons row rows)
  obtain acc1 n1 eng1 r1 where s: "update_row rx clk upd d s ((acc, n), eng) row = (((acc1, n1), eng1), r1)"
    by (cases "update_row rx clk upd d s ((acc, n), eng) row") auto
  have fit: "row_fits s row" "row_id row \<noteq> kInvalidRowId" using Cons.prems(2) by simp_all
  note step = update_row_step [OF Cons.prems(1) fit(1) s]
    and ev = update_row_event [OF Cons.prems(1) fit s Cons.prems(3)]
  show ?case
  proof (cases r1)
    case (Inl e)
    with Cons.prems(4) s ev(1) show ?thesis by auto
  next
    case (Inr u)
    then obtain row' where row': "acc1 = acc @ [row']" "row_id row' = row_id row" using step by auto
    have it: "iterate_until (update_row rx clk upd d s) rows ((acc1, n1), eng1) = (((acc', n'), eng'), r)"
      using Inr Cons.prems(4) s by simp
    have d: "distinct (map row_id (acc1 @ rows))" using Cons.prems(3) row' by simp
    have wf: "pool_wf (pool eng1)" using step by simp
    have fits: "\<forall>row \<in> set rows. row_fits s row \<and> row_id row \<noteq> kInvalidRowId" using Cons.prems(2) by simp
    have ok: "r1 = Inr ()" using Inr by simp
    from Cons.IH [OF wf fits d it] ev(1) ev(2) [OF ok] show ?thesis using logs_trans events_trans by blast
  qed
qed

lemma delete_rows_events:
  assumes "distinct (map row_id (acc @ rows))"
    and "iterate_until (delete_row rx clk del d s) rows ((acc, n), eng) = (((acc', n'), eng'), r)"
  shows "logs (table_event d (schema_table s) s) eng eng' \<and>
    (r = Inr () \<longrightarrow> events (table_event d (schema_table s) s)
      (row_lookup (acc @ rows)) (row_lookup acc') eng eng')"
  using assms
proof (induction rows arbitrary: acc n eng)
  case Nil
  then show ?case by (auto intro: logs_same events_same)
next
  case (Cons row rows)
  obtain acc1 n1 eng1 r1 where s: "delete_row rx clk del d s ((acc, n), eng) row = (((acc1, n1), eng1), r1)"
    by (cases "delete_row rx clk del d s ((acc, n), eng) row") auto
  note ev = delete_row_event [OF s Cons.prems(1)] and step = delete_row_step [OF s]
  show ?case
  proof (cases r1)
    case (Inl e)
    with Cons.prems(2) s ev show ?thesis by auto
  next
    case (Inr u)
    have it: "iterate_until (delete_row rx clk del d s) rows ((acc1, n1), eng1) = (((acc', n'), eng'), r)"
      using Inr Cons.prems(2) s by simp
    have ok: "r1 = Inr ()" using Inr by simp
    with step consider "acc1 = acc" | "acc1 = acc @ [row]" by auto
    then have d: "distinct (map row_id (acc1 @ rows))" using Cons.prems(1) by cases simp_all
    from Cons.IH [OF d it] ev ok show ?thesis using logs_trans events_trans by blast
  qed
qed

section \<open>REVERT\<close>

lemma rows_by_id_eq:
  assumes "distinct (map row_id rows)"
  shows "rows_by_id rows = map (\<lambda>row. (row_id row, row)) rows"
proof -
  have "foldl (\<lambda>m row. umap_emplace (row_id row) row m) (map (\<lambda>row. (row_id row, row)) xs) rows
      = map (\<lambda>row. (row_id row, row)) (xs @ rows)" if "distinct (map row_id (xs @ rows))" for xs
    using that
  proof (induction rows arbitrary: xs)
    case (Cons row rows)
    have "umap_emplace (row_id row) row (map (\<lambda>row. (row_id row, row)) xs) = map (\<lambda>row. (row_id row, row)) (xs @ [row])"
      using Cons.prems by (simp add: umap_emplace_def map_of_eq_None_iff image_image)
    with Cons.IH [of "xs @ [row]"] Cons.prems show ?case by simp
  qed simp
  from this [of "[]"] assms show ?thesis by (simp add: rows_by_id_def)
qed

lemma rows_by_id_find: "distinct (map row_id rows) \<Longrightarrow> umap_find (rows_by_id rows) = row_lookup rows"
  by (simp add: rows_by_id_eq umap_find_def row_lookup_def fun_eq_iff)

definition target_ok :: "TableSchema \<Rightarrow> (RowId, RowData) umap \<Rightarrow> bool" where
  "target_ok s m \<longleftrightarrow> (\<forall>k row. umap_find m k = Some row \<longrightarrow> row_id row = k \<and> k \<noteq> kInvalidRowId \<and> row_fits s row)"

lemma revert_current_event:
  assumes "target_ok s m" "row_id row = k" "f k = Some row" "revert_current clk d n m eng (k, row) = (eng', r)"
  shows "logs (table_event d n s) eng eng' \<and>
    (r = Inr () \<longrightarrow> events (table_event d n s) f (f(k := umap_find m k)) eng eng')"
proof (cases "umap_find m k")
  case None
  with assms(4) have "eng' = AppendChangeEvent clk kDeleteRow d n None (Some row) None eng" by (simp add: revert_current_def)
  with event_delete [of d n s f row eng clk] None assms(2) show ?thesis by (auto dest: events_logs)
next
  case (Some row')
  with assms(1) have row': "row_id row' = k" "k \<noteq> kInvalidRowId" "row_fits s row'" by (auto simp: target_ok_def)
  consider e where "RowValuesEqual row row' = Inl e" | "RowValuesEqual row row' = Inr True" | "RowValuesEqual row row' = Inr False"
    by (cases "RowValuesEqual row row'") auto
  then show ?thesis
  proof cases
    case 1
    with Some assms(4) show ?thesis by (auto simp: revert_current_def intro: logs_same)
  next
    case 2
    with Some assms(4) have "eng' = eng" by (simp add: revert_current_def)
    moreover have "same_rows f (f(k := Some row'))"
      using RowValuesEqual_True [OF 2] assms(2,3) row'(1) by (simp add: same_rows_def option.rel_refl)
    ultimately show ?thesis using Some by (auto intro: logs_same events_same)
  next
    case 3
    with Some assms(4) have "eng' = AppendChangeEvent clk kUpdateRow d n None (Some row) (Some row') eng"
      by (simp add: revert_current_def)
    with event_put [of row' s kUpdateRow d n f eng clk "Some row"] Some row' show ?thesis by (auto dest: events_logs)
  qed
qed

lemma revert_current_events:
  assumes "target_ok s m" "distinct (map fst es)" "\<forall>(k, row) \<in> set es. row_id row = k \<and> f k = Some row"
    and "iterate_until (revert_current clk d n m) es eng = (eng', r)"
  shows "logs (table_event d n s) eng eng' \<and>
    (r = Inr () \<longrightarrow>
       events (table_event d n s) f (\<lambda>k. if k \<in> fst ` set es then umap_find m k else f k) eng eng')"
  using assms
proof (induction es arbitrary: f eng)
  case Nil
  then show ?case by (auto intro: logs_same events_same)
next
  case (Cons e es)
  obtain k row where e: "e = (k, row)" by (cases e)
  obtain eng1 r1 where s: "revert_current clk d n m eng e = (eng1, r1)" by (cases "revert_current clk d n m eng e")
  from Cons.prems(3) e have k: "row_id row = k" "f k = Some row" by auto
  note ev = revert_current_event [where f = f, OF Cons.prems(1) k s [unfolded e]]
  show ?case
  proof (cases r1)
    case (Inl x)
    with Cons.prems(4) s ev show ?thesis by auto
  next
    case (Inr u)
    have it: "iterate_until (revert_current clk d n m) es eng1 = (eng', r)" using Cons.prems(4) s Inr by simp
    let ?f = "f(k := umap_find m k)"
    have "\<forall>(k, row) \<in> set es. row_id row = k \<and> ?f k = Some row"
      using Cons.prems(2,3) e by (auto simp: rev_image_eqI)
    moreover have "distinct (map fst es)" using Cons.prems(2) by simp
    ultimately have IH: "logs (table_event d n s) eng1 eng' \<and>
        (r = Inr () \<longrightarrow> events (table_event d n s) ?f (\<lambda>k. if k \<in> fst ` set es then umap_find m k else ?f k) eng1 eng')"
      by (intro Cons.IH [where f = ?f, OF Cons.prems(1) _ _ it])
    have "(\<lambda>k. if k \<in> fst ` set es then umap_find m k else ?f k)
        = (\<lambda>k. if k \<in> fst ` set (e # es) then umap_find m k else f k)" using e by auto
    moreover have "r1 = Inr ()" using Inr by simp
    ultimately show ?thesis using IH ev logs_trans events_trans by simp blast
  qed
qed

lemma revert_added_events:
  assumes "\<forall>(k, row) \<in> set es. row_id row = k \<and> T k = Some row \<and> k \<noteq> kInvalidRowId \<and> row_fits s row"
  shows "events (table_event d n s) f (\<lambda>k. if k \<in> fst ` set es \<and> \<not> umap_contains c k then T k else f k) eng
    (foldl (revert_added clk d n c) eng es)"
  using assms
proof (induction es arbitrary: f eng)
  case Nil
  then show ?case by (auto intro: events_same)
next
  case (Cons e es)
  obtain k row where e: "e = (k, row)" by (cases e)
  with Cons.prems have k: "row_id row = k" "T k = Some row" "k \<noteq> kInvalidRowId" "row_fits s row" by auto
  let ?f = "if umap_contains c k then f else f(k \<mapsto> row)"
  have step: "events (table_event d n s) f ?f eng (revert_added clk d n c eng e)"
    using k e event_put [of row s kInsertRow d n f eng clk None]
    by (auto simp: revert_added_def intro: events_same)
  have "(\<lambda>j. if j \<in> fst ` set es \<and> \<not> umap_contains c j then T j else ?f j)
      = (\<lambda>j. if j \<in> fst ` set (e # es) \<and> \<not> umap_contains c j then T j else f j)" using e k(2) by auto
  with Cons.IH [of ?f "revert_added clk d n c eng e"] Cons.prems events_trans [OF step] show ?case by simp
qed

text \<open>The events of a revert take the rows of the heap to the reconstructed rows.\<close>

lemma revert_events:
  assumes cur: "distinct (map row_id rows)" and tgt: "distinct (map row_id rows')"
    and fits: "\<forall>row \<in> set rows'. row_id row \<noteq> kInvalidRowId \<and> row_fits s row"
    and it: "iterate_until (revert_current clk d n (rows_by_id rows')) (rows_by_id rows) eng = (eng1, Inr u)"
  shows "events (table_event d n s) (row_lookup rows) (row_lookup rows') eng
    (foldl (revert_added clk d n (rows_by_id rows)) eng1 (rows_by_id rows'))"
proof -
  have T: "umap_find (rows_by_id rows') = row_lookup rows'" by (rule rows_by_id_find [OF tgt])
  have ok: "target_ok s (rows_by_id rows')"
    using fits by (auto simp: target_ok_def T row_lookup_Some [OF tgt])
  have es: "rows_by_id rows = map (\<lambda>row. (row_id row, row)) rows" by (rule rows_by_id_eq [OF cur])
  have "\<forall>(k, row) \<in> set (rows_by_id rows). row_id row = k \<and> row_lookup rows k = Some row"
    by (auto simp: es row_lookup_Some [OF cur])
  with revert_current_events [where f = "row_lookup rows", OF ok _ _ it] cur es
  have 1: "events (table_event d n s) (row_lookup rows)
      (\<lambda>k. if k \<in> row_id ` set rows then row_lookup rows' k else row_lookup rows k) eng eng1"
    unfolding T by (simp add: comp_def image_image)
  have "\<forall>(k, row) \<in> set (rows_by_id rows'). row_id row = k \<and> row_lookup rows' k = Some row \<and>
      k \<noteq> kInvalidRowId \<and> row_fits s row"
    using fits by (auto simp: rows_by_id_eq [OF tgt] row_lookup_Some [OF tgt])
  from revert_added_events [OF this, of d n "\<lambda>k. if k \<in> row_id ` set rows then row_lookup rows' k else row_lookup rows k"
      "rows_by_id rows" eng1 clk]
  have 2: "events (table_event d n s) (\<lambda>k. if k \<in> row_id ` set rows then row_lookup rows' k else row_lookup rows k)
      (\<lambda>k. if k \<in> row_id ` set rows' \<and> k \<notin> row_id ` set rows then row_lookup rows' k
           else if k \<in> row_id ` set rows then row_lookup rows' k else row_lookup rows k) eng1
      (foldl (revert_added clk d n (rows_by_id rows)) eng1 (rows_by_id rows'))"
    by (simp add: rows_by_id_eq [OF tgt] umap_contains_find rows_by_id_find [OF cur] row_lookup_None image_image)
  have "(\<lambda>k. if k \<in> row_id ` set rows' \<and> k \<notin> row_id ` set rows then row_lookup rows' k
           else if k \<in> row_id ` set rows then row_lookup rows' k else row_lookup rows k) = row_lookup rows'"
    by (auto simp: fun_eq_iff) (metis row_lookup_None)
  with events_trans [OF 1 2] show ?thesis by simp
qed

section \<open>Tables and their history\<close>

definition has_table :: "Engine \<Rightarrow> string \<Rightarrow> string \<Rightarrow> TableRuntime \<Rightarrow> bool" where
  "has_table eng d n t \<longleftrightarrow>
     (\<exists>db. umap_find (databases (runtime eng)) d = Some db \<and> umap_find (tables db) n = Some t)"

text \<open>Every row in the history of a table fits the schema of the table.\<close>

definition history_typed :: "Engine \<Rightarrow> bool" where
  "history_typed eng \<longleftrightarrow>
     (\<forall>d n t. has_table eng d n t \<longrightarrow> (\<forall>r \<in> set (HistoryForTable (versions eng) d n). after_fits (schema t) r))"

text \<open>Replaying the history of a table gives its rows, and the rows are in the order of their ids.\<close>

definition synced :: "Engine \<Rightarrow> bool" where
  "synced eng \<longleftrightarrow>
     (\<forall>d n t. has_table eng d n t \<longrightarrow>
        same_rows (umap_find (foldl replay_record [] (HistoryForTable (versions eng) d n)))
          (row_lookup (heap_rows (heap t))) \<and>
        ids_sorted (heap_rows (heap t)))"

lemma has_table_unique: "has_table eng d n t \<Longrightarrow> has_table eng d n t' \<Longrightarrow> t = t'"
  by (auto simp: has_table_def)

lemma has_table_put:
  "has_table (put_table d n t eng) d' n' t' \<longleftrightarrow>
     (if d' = d \<and> n' = n then t' = t \<and> umap_find (databases (runtime eng)) d \<noteq> None else has_table eng d' n' t')"
  by (cases "umap_find (databases (runtime eng)) d") (auto simp: has_table_def put_table_def)

lemma has_table_runtime: "runtime eng' = runtime eng \<Longrightarrow> has_table eng' = has_table eng"
  by (simp add: has_table_def fun_eq_iff)

lemma locate_has_table:
  "engine_inv eng \<Longrightarrow> locate_table eng session name = Inr (d, t) \<Longrightarrow> has_table eng d (object_name name) t"
  unfolding has_table_def by (rule locate_table_inv(4))

lemma HistoryForTable_append:
  assumes "records (versions eng') = records (versions eng) @ rs" "\<forall>r \<in> set rs. for_table d n r"
  shows "HistoryForTable (versions eng') d' n' =
    HistoryForTable (versions eng) d' n' @ (if d' = d \<and> n' = n then rs else [])"
proof -
  have "filter (for_table d' n') rs = (if d' = d \<and> n' = n then rs else [])"
    using assms(2) by (auto simp: for_table_def filter_id_conv filter_empty_conv)
  then show ?thesis using assms(1) by (simp add: HistoryForTable_def)
qed

lemma logs_typed:
  assumes "history_typed eng" "logs (table_event d n (schema t)) eng eng1" "has_table eng d n t"
    and "has_table eng' = has_table eng \<or> has_table eng' = has_table (put_table d n t' eng)"
    and "schema t' = schema t" "versions eng' = versions eng1"
  shows "history_typed eng'"
proof -
  from assms(2) obtain rs where rs: "records (versions eng1) = records (versions eng) @ rs"
    "\<forall>r \<in> set rs. table_event d n (schema t) r" unfolding logs_def by blast
  have hist: "HistoryForTable (versions eng') d' n' =
      HistoryForTable (versions eng) d' n' @ (if d' = d \<and> n' = n then rs else [])" for d' n'
    unfolding assms(6) by (rule HistoryForTable_append [OF rs(1)]) (use rs(2) in \<open>auto simp: table_event_def\<close>)
  have "\<forall>r \<in> set (HistoryForTable (versions eng') d' n'). after_fits (schema u) r"
    if u: "has_table eng' d' n' u" for d' n' u
  proof (cases "d' = d \<and> n' = n")
    case True
    with assms(4) u assms(3,5) have "schema u = schema t"
      by (auto simp: has_table_put split: if_splits dest: has_table_unique)
    with True hist [of d' n'] assms(1,3) rs(2) show ?thesis by (auto simp: history_typed_def table_event_def)
  next
    case False
    with assms(4) u have "has_table eng d' n' u" by (auto simp: has_table_put split: if_splits)
    with False hist [of d' n'] assms(1) show ?thesis by (auto simp: history_typed_def)
  qed
  then show ?thesis unfolding history_typed_def by blast
qed

lemma events_synced:
  assumes "synced eng" "events (table_event d n s) (row_lookup (heap_rows (heap t))) (row_lookup (heap_rows (heap t'))) eng eng1"
    and "has_table eng d n t" "has_table eng' = has_table (put_table d n t' eng)" "versions eng' = versions eng1"
    and "ids_sorted (heap_rows (heap t'))"
  shows "synced eng'"
proof -
  from assms(2) obtain rs where rs: "records (versions eng1) = records (versions eng) @ rs"
    "\<forall>r \<in> set rs. table_event d n s r" "replays rs (row_lookup (heap_rows (heap t))) (row_lookup (heap_rows (heap t')))"
    unfolding events_def by blast
  have hist: "HistoryForTable (versions eng') d' n' =
      HistoryForTable (versions eng) d' n' @ (if d' = d \<and> n' = n then rs else [])" for d' n'
    unfolding assms(5) by (rule HistoryForTable_append [OF rs(1)]) (use rs(2) in \<open>auto simp: table_event_def\<close>)
  have "same_rows (umap_find (foldl replay_record [] (HistoryForTable (versions eng') d' n')))
      (row_lookup (heap_rows (heap u))) \<and> ids_sorted (heap_rows (heap u))"
    if u: "has_table eng' d' n' u" for d' n' u
  proof (cases "d' = d \<and> n' = n")
    case True
    with assms(4) u have "u = t'" by (auto simp: has_table_put)
    moreover have "same_rows (umap_find (foldl replay_record [] (HistoryForTable (versions eng) d n)))
        (row_lookup (heap_rows (heap t)))" using assms(1,3) by (auto simp: synced_def)
    ultimately show ?thesis using True hist [of d' n'] rs(3) assms(6) by (auto simp: replays_def)
  next
    case False
    with assms(4) u have "has_table eng d' n' u" by (auto simp: has_table_put split: if_splits)
    with False hist [of d' n'] assms(1) show ?thesis by (auto simp: synced_def)
  qed
  then show ?thesis unfolding synced_def by blast
qed

lemma ids_sorted_map: "map row_id xs = map row_id ys \<Longrightarrow> ids_sorted xs = ids_sorted ys"
  by (simp add: ids_sorted_def)

lemma ids_sorted_subseq: "xs \<in> set (subseqs ys) \<Longrightarrow> ids_sorted ys \<Longrightarrow> ids_sorted xs"
proof (induction ys arbitrary: xs)
  case (Cons y ys)
  then consider "xs \<in> set (subseqs ys)" | zs where "xs = y # zs" "zs \<in> set (subseqs ys)" by (auto simp: Let_def)
  then show ?case
  proof cases
    case 1
    with Cons show ?thesis by (auto simp: ids_sorted_def)
  next
    case 2
    with Cons subseq_distinct(1) [OF 2(2)] show ?thesis by (auto simp: ids_sorted_def)
  qed
qed simp

section \<open>Statements on rows\<close>

lemma has_table_put_runtime:
  "runtime eng1 = runtime eng \<Longrightarrow> has_table (put_table d n t eng1) = has_table (put_table d n t eng)"
  using has_table_runtime [of eng1 eng] by (simp add: fun_eq_iff has_table_put)

lemma ExecuteInsert_history:
  assumes "engine_inv eng" "history_typed eng" "ExecuteInsert clk ins eng session = (eng', r)"
    and "\<And>d t. locate_table eng session (insert_table ins) = Inr (d, t) \<Longrightarrow>
      unat (next_row_id (heap t)) + length (insert_rows ins) < 2 ^ 64"
  shows "history_typed eng' \<and> (synced eng \<longrightarrow> synced eng')"
proof (cases "locate_table eng session (insert_table ins)")
  case (Inr dt)
  obtain d t where dt: "dt = (d, t)" by (cases dt)
  note loc = locate_table_inv [OF assms(1) Inr [unfolded dt]] and has = locate_has_table [OF assms(1) Inr [unfolded dt]]
  let ?n = "object_name (insert_table ins)"
  show ?thesis
  proof (cases "input_positions (schema t) (insert_columns ins)")
    case Inl
    with assms Inr dt show ?thesis by (auto simp: ExecuteInsert_def)
  next
    case pos: (Inr positions)
    obtain t1 eng1 r1 where it: "iterate_until (insert_row clk d positions) (insert_rows ins) (t, eng) = ((t1, eng1), r1)"
      by (cases "iterate_until (insert_row clk d positions) (insert_rows ins) (t, eng)") auto
    have wf: "pool_wf (pool eng)" using assms(1) by (simp add: engine_inv_def)
    have room: "unat (next_row_id (heap t)) + length (insert_rows ins) < 2 ^ 64" using assms(4) Inr dt by simp
    have t1: "schema t1 = schema t" "runtime eng1 = runtime eng" using insert_rows_inv [OF loc(1) wf room it] by auto
    have e: "eng' = put_table d ?n t1 eng1" using assms(3) Inr dt pos it by (auto simp: ExecuteInsert_def)
    have ht: "has_table eng' = has_table (put_table d ?n t1 eng)" and v: "versions eng' = versions eng1"
      unfolding e using has_table_put_runtime [OF t1(2)] by simp_all
    note ev = insert_rows_events [OF loc(1) wf room it, unfolded loc(3)]
    have "history_typed eng'"
      by (rule logs_typed [OF assms(2) events_logs [OF ev(1)] has disjI2 [OF ht] t1(1) v])
    moreover have "synced eng'" if "synced eng"
      by (rule events_synced [OF that ev(1) has ht v]) (use that has ev(2) in \<open>auto simp: synced_def\<close>)
    ultimately show ?thesis by blast
  qed
qed (use assms in \<open>auto simp: ExecuteInsert_def\<close>)

lemma ExecuteUpdate_history:
  assumes "engine_inv eng" "history_typed eng" "ExecuteUpdate rx clk upd eng session = (eng', r)"
  shows "history_typed eng' \<and> (synced eng \<longrightarrow> ok r \<longrightarrow> synced eng')"
proof (cases "locate_table eng session (update_table upd)")
  case (Inr dt)
  obtain d t where dt: "dt = (d, t)" by (cases dt)
  note loc = locate_table_inv [OF assms(1) Inr [unfolded dt]] and has = locate_has_table [OF assms(1) Inr [unfolded dt]]
  let ?n = "object_name (update_table upd)"
  obtain acc n eng1 q where it: "iterate_until (update_row rx clk upd d (schema t)) (ScanAll (heap t)) (([], 0), eng)
      = (((acc, n), eng1), q)"
    by (cases "iterate_until (update_row rx clk upd d (schema t)) (ScanAll (heap t)) (([], 0), eng)") auto
  have wf: "pool_wf (pool eng)" using assms(1) by (simp add: engine_inv_def)
  have fits: "\<forall>row \<in> set (ScanAll (heap t)). row_fits (schema t) row \<and> row_id row \<noteq> kInvalidRowId"
    using table_inv_rows(2) [OF loc(1)] by (auto simp: ScanAll_def)
  then have fits': "\<forall>row \<in> set (ScanAll (heap t)). row_fits (schema t) row" by blast
  have "distinct (map row_id ([] @ ScanAll (heap t)))" using table_inv_rows(1) [OF loc(1)] by (simp add: ScanAll_def)
  note ev = update_rows_events [OF wf fits this it, unfolded loc(3)] and up = update_rows_inv [OF wf fits' it]
  show ?thesis
  proof (cases "\<exists>ixs. q = Inr () \<and> RebuildIndexes (schema t) acc = Inr ixs")
    case True
    then obtain ixs where q: "q = Inr ()" and ixs: "RebuildIndexes (schema t) acc = Inr ixs" by blast
    let ?t = "t\<lparr>indexes := ixs, heap := HeapReplaceAll acc (heap t)\<rparr>"
    have e: "eng' = put_table d ?n ?t eng1" using assms(3) Inr dt it q ixs by (auto simp: ExecuteUpdate_def)
    have ht: "has_table eng' = has_table (put_table d ?n ?t eng)" and v: "versions eng' = versions eng1"
      unfolding e using has_table_put_runtime [of eng1 eng] up by blast simp
    have rows: "heap_rows (heap ?t) = acc" by (simp add: HeapReplaceAll_def)
    have "history_typed eng'" by (rule logs_typed [OF assms(2) _ has disjI2 [OF ht] _ v]) (use ev in simp_all)
    moreover have "synced eng'" if "synced eng"
    proof (rule events_synced [OF that _ has ht v])
      show "events (table_event d ?n (schema t)) (row_lookup (heap_rows (heap t))) (row_lookup (heap_rows (heap ?t))) eng eng1"
        using ev q rows by (simp add: ScanAll_def)
      have "map row_id acc = map row_id (heap_rows (heap t))" using up q by (auto simp: ScanAll_def)
      from ids_sorted_map [OF this] show "ids_sorted (heap_rows (heap ?t))"
        using that has rows by (auto simp: synced_def)
    qed
    ultimately show ?thesis by blast
  next
    case False
    with assms(3) Inr dt it have e: "eng' = eng1" and "\<not> ok r"
      by (cases q; cases "RebuildIndexes (schema t) acc"; auto simp: ExecuteUpdate_def)+
    have ht: "has_table eng' = has_table eng" using up e has_table_runtime [of eng1 eng] by blast
    have "history_typed eng'" by (rule logs_typed [OF assms(2) _ has disjI1 [OF ht] refl]) (use ev e in simp_all)
    with \<open>\<not> ok r\<close> show ?thesis by blast
  qed
qed (use assms in \<open>auto simp: ExecuteUpdate_def\<close>)

lemma ExecuteDelete_history:
  assumes "engine_inv eng" "history_typed eng" "ExecuteDelete rx clk del eng session = (eng', r)"
  shows "history_typed eng' \<and> (synced eng \<longrightarrow> ok r \<longrightarrow> synced eng')"
proof (cases "locate_table eng session (delete_table del)")
  case (Inr dt)
  obtain d t where dt: "dt = (d, t)" by (cases dt)
  note loc = locate_table_inv [OF assms(1) Inr [unfolded dt]] and has = locate_has_table [OF assms(1) Inr [unfolded dt]]
  let ?n = "object_name (delete_table del)"
  obtain kept n eng1 q where it: "iterate_until (delete_row rx clk del d (schema t)) (ScanAll (heap t)) (([], 0), eng)
      = (((kept, n), eng1), q)"
    by (cases "iterate_until (delete_row rx clk del d (schema t)) (ScanAll (heap t)) (([], 0), eng)") auto
  have "distinct (map row_id ([] @ ScanAll (heap t)))" using table_inv_rows(1) [OF loc(1)] by (simp add: ScanAll_def)
  note ev = delete_rows_events [OF this it, unfolded loc(3)] and up = delete_rows_inv [OF it]
  from ExecuteDelete_cases [OF assms(1) Inr [unfolded dt] it] show ?thesis
  proof (elim disjE exE conjE)
    fix e assume "q = Inl e" "ExecuteDelete rx clk del eng session = (eng1, Inl e)"
    with assms(3) have e: "eng' = eng1" and r: "\<not> ok r" by auto
    have ht: "has_table eng' = has_table eng" using up e has_table_runtime [of eng1 eng] by blast
    have "history_typed eng'" by (rule logs_typed [OF assms(2) _ has disjI1 [OF ht] refl]) (use ev e in simp_all)
    with r show ?thesis by blast
  next
    fix ixs
    let ?t = "t\<lparr>indexes := ixs, heap := HeapReplaceAll kept (heap t)\<rparr>"
    assume q: "q = Inr ()" and sub: "kept \<in> set (subseqs (heap_rows (heap t)))" and
      ex: "ExecuteDelete rx clk del eng session =
        (put_table d ?n ?t eng1, message_result (''deleted '' @ nat_to_string n @ '' row(s)''))"
    with assms(3) have e: "eng' = put_table d ?n ?t eng1" by simp
    have ht: "has_table eng' = has_table (put_table d ?n ?t eng)" and v: "versions eng' = versions eng1"
      unfolding e using has_table_put_runtime [of eng1 eng] up by blast simp
    have rows: "heap_rows (heap ?t) = kept" by (simp add: HeapReplaceAll_def)
    have "history_typed eng'" by (rule logs_typed [OF assms(2) _ has disjI2 [OF ht] _ v]) (use ev in simp_all)
    moreover have "synced eng'" if "synced eng"
    proof (rule events_synced [OF that _ has ht v])
      show "events (table_event d ?n (schema t)) (row_lookup (heap_rows (heap t))) (row_lookup (heap_rows (heap ?t))) eng eng1"
        using ev q rows by (simp add: ScanAll_def)
      show "ids_sorted (heap_rows (heap ?t))"
        using ids_sorted_subseq [OF sub] that has rows by (auto simp: synced_def)
    qed
    ultimately show ?thesis by blast
  qed
qed (use assms in \<open>auto simp: ExecuteDelete_def\<close>)

lemma ReconstructTableStateAt_sorted: "ids_sorted (ReconstructTableStateAt vs d n ts)"
proof -
  have "distinct (map row_id (ReconstructTableStateAt vs d n ts))"
    by (rule ReconstructTableStateAt_rows(1) [of vs d n "\<lambda>_. True"]) simp
  moreover have "sorted (map row_id (ReconstructTableStateAt vs d n ts))" by (simp add: ReconstructTableStateAt_def)
  ultimately show ?thesis by (simp add: ids_sorted_def strict_sorted_iff)
qed

lemma revert_table_to_events:
  assumes inv: "table_inv t" and typed: "\<forall>r \<in> set (HistoryForTable (versions eng) d n). after_fits (schema t) r"
    and name: "schema_table (schema t) = n" and rv: "revert_table_to clk d n t ts eng = (eng', r)"
  defines "rows \<equiv> ReconstructTableStateAt (versions eng) d n ts"
  shows "\<exists>eng2. runtime eng2 = runtime eng \<and> logs (table_event d n (schema t)) eng eng2 \<and>
    (\<not> ok r \<and> eng' = eng2 \<or>
     (\<exists>ixs. eng' = put_table d n (t\<lparr>indexes := ixs, heap := HeapReplaceAll rows (heap t)\<rparr>) eng2 \<and>
        events (table_event d n (schema t)) (row_lookup (heap_rows (heap t))) (row_lookup rows) eng eng2))"
proof (cases "list_ex (\<lambda>row. length (row_values row) \<noteq> length (columns (schema t))) rows")
  case True
  with rv have "eng' = eng" "\<not> ok r" by (auto simp: revert_table_to_def rows_def)
  then show ?thesis by (auto intro: logs_same)
next
  case False
  have after: "\<forall>r \<in> set (HistoryForTable (versions eng) d n). \<forall>row. after_row r = Some row \<longrightarrow>
      row_id row \<noteq> kInvalidRowId \<and> row_fits (schema t) row" using typed by (simp add: after_fits_def)
  note tgt = ReconstructTableStateAt_rows [OF after, of ts, folded rows_def]
    and cur = table_inv_rows(1) [OF inv]
  obtain eng1 q where it: "iterate_until (revert_current clk d n (rows_by_id rows)) (rows_by_id (heap_rows (heap t))) eng = (eng1, q)"
    by (cases "iterate_until (revert_current clk d n (rows_by_id rows)) (rows_by_id (heap_rows (heap t))) eng")
  note frame = revert_events_frame [OF it]
  have ok: "target_ok (schema t) (rows_by_id rows)"
    using tgt(2) by (auto simp: target_ok_def rows_by_id_find [OF tgt(1)] row_lookup_Some [OF tgt(1)])
  have "\<forall>(k, row) \<in> set (rows_by_id (heap_rows (heap t))). row_id row = k \<and> row_lookup (heap_rows (heap t)) k = Some row"
    by (auto simp: rows_by_id_eq [OF cur] row_lookup_Some [OF cur])
  moreover have "distinct (map fst (rows_by_id (heap_rows (heap t))))" using cur by (simp add: rows_by_id_eq comp_def)
  ultimately have l1: "logs (table_event d n (schema t)) eng eng1"
    using revert_current_events [where f = "row_lookup (heap_rows (heap t))", OF ok _ _ it] by blast
  show ?thesis
  proof (cases q)
    case (Inl e)
    with rv False it name have "eng' = eng1" "\<not> ok r"
      by (auto simp: revert_table_to_def rows_def Let_def ScanAll_def)
    with frame l1 show ?thesis by blast
  next
    case (Inr u)
    let ?eng2 = "foldl (revert_added clk d n (rows_by_id (heap_rows (heap t)))) eng1 (rows_by_id rows)"
    have ev: "events (table_event d n (schema t)) (row_lookup (heap_rows (heap t))) (row_lookup rows) eng ?eng2"
      by (rule revert_events [OF cur tgt it [unfolded Inr]])
    have rt: "runtime ?eng2 = runtime eng" using revert_added_frame frame by simp
    from rv False it name Inr have "\<not> ok r \<and> eng' = ?eng2 \<or>
      (\<exists>ixs. eng' = put_table d n (t\<lparr>indexes := ixs, heap := HeapReplaceAll rows (heap t)\<rparr>) ?eng2)"
      by (cases "RebuildIndexes (schema t) rows") (auto simp: revert_table_to_def rows_def Let_def ScanAll_def)
    with ev rt events_logs [OF ev] show ?thesis by blast
  qed
qed

lemma ExecuteRevert_history:
  assumes "engine_inv eng" "history_typed eng" "ExecuteRevert clk rv eng session = (eng', r)"
  shows "history_typed eng' \<and> (synced eng \<longrightarrow> ok r \<longrightarrow> synced eng')"
proof (cases "locate_table eng session (revert_table rv)")
  case (Inr dt)
  obtain d t where dt: "dt = (d, t)" by (cases dt)
  note loc = locate_table_inv [OF assms(1) Inr [unfolded dt]] and has = locate_has_table [OF assms(1) Inr [unfolded dt]]
  let ?n = "object_name (revert_table rv)"
  show ?thesis
  proof (cases "\<exists>ts. revert_target rv d (versions eng) = Inr (Some ts)")
    case True
    then obtain ts where ts: "revert_target rv d (versions eng) = Inr (Some ts)" by blast
    let ?rows = "ReconstructTableStateAt (versions eng) d ?n ts"
    have rv: "revert_table_to clk d ?n t ts eng = (eng', r)" using assms(3) Inr dt ts by (simp add: ExecuteRevert_def)
    have typed: "\<forall>r \<in> set (HistoryForTable (versions eng) d ?n). after_fits (schema t) r"
      using assms(2) has by (simp add: history_typed_def)
    from revert_table_to_events [OF loc(1) typed loc(3) rv] obtain eng2 where
      rt: "runtime eng2 = runtime eng" and l: "logs (table_event d ?n (schema t)) eng eng2" and
      c: "\<not> ok r \<and> eng' = eng2 \<or>
        (\<exists>ixs. eng' = put_table d ?n (t\<lparr>indexes := ixs, heap := HeapReplaceAll ?rows (heap t)\<rparr>) eng2 \<and>
           events (table_event d ?n (schema t)) (row_lookup (heap_rows (heap t))) (row_lookup ?rows) eng eng2)" by blast
    from c show ?thesis
    proof (elim disjE exE conjE)
      assume "\<not> ok r" and e: "eng' = eng2"
      have ht: "has_table eng' = has_table eng" using has_table_runtime [OF rt] e by simp
      have "history_typed eng'" by (rule logs_typed [OF assms(2) l has disjI1 [OF ht] refl]) (simp add: e)
      with \<open>\<not> ok r\<close> show ?thesis by blast
    next
      fix ixs
      let ?t = "t\<lparr>indexes := ixs, heap := HeapReplaceAll ?rows (heap t)\<rparr>"
      assume e: "eng' = put_table d ?n ?t eng2" and
        ev: "events (table_event d ?n (schema t)) (row_lookup (heap_rows (heap t))) (row_lookup ?rows) eng eng2"
      have ht: "has_table eng' = has_table (put_table d ?n ?t eng)" and v: "versions eng' = versions eng2"
        unfolding e using has_table_put_runtime [OF rt] by simp_all
      have rows: "heap_rows (heap ?t) = ?rows" by (simp add: HeapReplaceAll_def)
      have "history_typed eng'" by (rule logs_typed [OF assms(2) l has disjI2 [OF ht] _ v]) simp
      moreover have "synced eng'" if "synced eng"
        by (rule events_synced [OF that _ has ht v])
          (unfold rows, rule ev, rule ReconstructTableStateAt_sorted)
      ultimately show ?thesis by blast
    qed
  next
    case False
    with assms(2,3) Inr dt show ?thesis
      by (cases "revert_target rv d (versions eng)") (auto simp: ExecuteRevert_def split: option.splits)
  qed
qed (use assms in \<open>auto simp: ExecuteRevert_def\<close>)

section \<open>Databases, tables and indexes\<close>

text \<open>An event that holds no row and concerns a table that does not exist afterwards.\<close>

lemma history_other:
  assumes "history_typed eng" "records (versions eng') = records (versions eng) @ [r]" "after_row r = None"
    and "\<And>d n t. has_table eng' d n t \<Longrightarrow> has_table eng d n t \<and> \<not> for_table d n r"
  shows "history_typed eng' \<and> (synced eng \<longrightarrow> synced eng')"
proof -
  have "HistoryForTable (versions eng') d n = HistoryForTable (versions eng) d n" if "has_table eng' d n t" for d n t
    using assms(2,4) that by (simp add: HistoryForTable_def)
  with assms(1,4) show ?thesis unfolding history_typed_def synced_def by metis
qed

lemma ExecuteCreateDatabase_history:
  assumes "history_typed eng" "ExecuteCreateDatabase clk name eng = (eng', r)"
  shows "history_typed eng' \<and> (synced eng \<longrightarrow> synced eng')"
proof (cases "umap_contains (databases (runtime eng)) name")
  case False
  let ?eng1 = "eng\<lparr>catalog := CatalogCreateDatabase name (catalog eng),
      runtime := (runtime eng)\<lparr>databases := umap_emplace name \<lparr>db_name = name, tables = []\<rparr> (databases (runtime eng))\<rparr>\<rparr>"
  have e: "eng' = AppendChangeEvent clk kCreateDatabase name [] None None None ?eng1"
    using assms(2) False by (simp add: ExecuteCreateDatabase_def)
  obtain ts where rec: "records (versions eng') = records (versions eng) @
     [\<lparr>rec_kind = kCreateDatabase, rec_database = name, rec_table = [], rec_timestamp = ts,
       rec_row_id = kInvalidRowId, rec_schema = None, before_row = None, after_row = None\<rparr>]"
    unfolding e using AppendChangeEvent_record [of clk kCreateDatabase name "[]" None None None ?eng1] by auto
  have tab: "has_table eng d n t \<and> d \<noteq> name" if "has_table eng' d n t" for d n t
    using that False unfolding e by (auto simp: has_table_def umap_contains_find umap_find_Nil split: if_splits option.splits)
  show ?thesis by (rule history_other [OF assms(1) rec]) (use tab in \<open>auto simp: for_table_def\<close>)
qed (use assms in \<open>auto simp: ExecuteCreateDatabase_def\<close>)

lemma ExecuteDropDatabase_history:
  assumes "history_typed eng" "ExecuteDropDatabase clk name eng session = ((eng', session'), r)"
  shows "history_typed eng' \<and> (synced eng \<longrightarrow> synced eng')"
proof (cases "umap_contains (databases (runtime eng)) name")
  case True
  let ?eng1 = "eng\<lparr>runtime := (runtime eng)\<lparr>databases := umap_erase name (databases (runtime eng))\<rparr>,
      catalog := CatalogDropDatabase name (catalog eng)\<rparr>"
  have e: "eng' = AppendChangeEvent clk kDropDatabase name [] None None None ?eng1"
    using assms(2) True by (simp add: ExecuteDropDatabase_def Let_def)
  obtain ts where rec: "records (versions eng') = records (versions eng) @
     [\<lparr>rec_kind = kDropDatabase, rec_database = name, rec_table = [], rec_timestamp = ts,
       rec_row_id = kInvalidRowId, rec_schema = None, before_row = None, after_row = None\<rparr>]"
    unfolding e using AppendChangeEvent_record [of clk kDropDatabase name "[]" None None None ?eng1] by auto
  have tab: "has_table eng d n t \<and> d \<noteq> name" if "has_table eng' d n t" for d n t
    using that unfolding e by (auto simp: has_table_def split: if_splits)
  show ?thesis by (rule history_other [OF assms(1) rec]) (use tab in \<open>auto simp: for_table_def\<close>)
qed (use assms in \<open>auto simp: ExecuteDropDatabase_def\<close>)

lemma ExecuteDropTable_history:
  assumes "history_typed eng" "ExecuteDropTable clk name eng session = (eng', r)"
  shows "history_typed eng' \<and> (synced eng \<longrightarrow> synced eng')"
proof (cases "\<exists>d db t. find_database eng session name = Inr (d, db) \<and> umap_find (tables db) (object_name name) = Some t")
  case True
  then obtain d db t where f: "find_database eng session name = Inr (d, db)"
    and t: "umap_find (tables db) (object_name name) = Some t" by blast
  let ?n = "object_name name"
  let ?eng1 = "eng\<lparr>runtime := (runtime eng)\<lparr>databases :=
      umap_assign d (db\<lparr>tables := umap_erase ?n (tables db)\<rparr>) (databases (runtime eng))\<rparr>\<rparr>"
  have e: "eng' = AppendChangeEvent clk kDropTable d ?n (Some (schema t)) None None ?eng1"
    using assms(2) f t by (simp add: ExecuteDropTable_def)
  obtain ts where rec: "records (versions eng') = records (versions eng) @
     [\<lparr>rec_kind = kDropTable, rec_database = d, rec_table = ?n, rec_timestamp = ts,
       rec_row_id = kInvalidRowId, rec_schema = Some (schema t), before_row = None, after_row = None\<rparr>]"
    unfolding e using AppendChangeEvent_record [of clk kDropTable d ?n "Some (schema t)" None None ?eng1] by auto
  have tab: "has_table eng d' n' u \<and> \<not> (d' = d \<and> n' = ?n)" if "has_table eng' d' n' u" for d' n' u
    using that find_database_Some [OF f] unfolding e by (auto simp: has_table_def split: if_splits)
  show ?thesis by (rule history_other [OF assms(1) rec]) (use tab in \<open>auto simp: for_table_def\<close>)
next
  case False
  with assms show ?thesis
    by (cases "find_database eng session name") (auto simp: ExecuteDropTable_def split: option.splits)
qed

lemma ExecuteRebuildIndex_history:
  assumes "engine_inv eng" "history_typed eng" "ExecuteRebuildIndex eng = (eng', r)"
  shows "history_typed eng' \<and> (synced eng \<longrightarrow> synced eng')"
proof -
  obtain st where e: "eng' = eng\<lparr>runtime := st\<rparr>" "same_contents (runtime eng) st"
    using ExecuteRebuildIndex_correct [OF assms(1)] assms(3) by auto
  have "\<exists>u. has_table eng d n u \<and> schema t = schema u \<and> heap_rows (heap t) = heap_rows (heap u)"
    if "has_table eng' d n t" for d n t
    using that same_contents_find [OF e(2)] unfolding e(1) has_table_def by fastforce
  moreover have "versions eng' = versions eng" using e(1) by simp
  ultimately show ?thesis using assms(2) unfolding history_typed_def synced_def by metis
qed

lemma ExecuteCreateTable_history:
  assumes "engine_inv eng" "history_typed eng" "ExecuteCreateTable clk name cols eng session = (eng', r)"
    and "\<And>d db. find_database eng session name = Inr (d, db) \<Longrightarrow>
      \<forall>rec \<in> set (HistoryForTable (versions eng) d (object_name name)). after_row rec = None"
  shows "history_typed eng' \<and> (synced eng \<longrightarrow> synced eng')"
proof (cases "\<exists>d db. find_database eng session name = Inr (d, db) \<and> umap_find (tables db) (object_name name) = None")
  case True
  then obtain d db where f: "find_database eng session name = Inr (d, db)"
    and none: "umap_find (tables db) (object_name name) = None" by blast
  let ?n = "object_name name"
  from ExecuteCreateTable_cases [OF assms(1) f none] obtain t p where
    ct: "ExecuteCreateTable clk name cols eng session =
      ((AppendChangeEvent clk kCreateTable d ?n (Some (schema t)) None None
          (put_table d ?n t (eng\<lparr>pool := p\<rparr>)))\<lparr>catalog := RegisterTable (schema t) (catalog eng)\<rparr>,
       message_result ''table created'')" and empty: "heap_rows (heap t) = []" by blast
  let ?eng1 = "put_table d ?n t (eng\<lparr>pool := p\<rparr>)"
  have e: "eng' = (AppendChangeEvent clk kCreateTable d ?n (Some (schema t)) None None ?eng1)
      \<lparr>catalog := RegisterTable (schema t) (catalog eng)\<rparr>" using assms(3) ct by simp
  obtain ts where rec: "records (versions eng') = records (versions eng) @
     [\<lparr>rec_kind = kCreateTable, rec_database = d, rec_table = ?n, rec_timestamp = ts,
       rec_row_id = kInvalidRowId, rec_schema = Some (schema t), before_row = None, after_row = None\<rparr>]"
    (is "_ = _ @ [?rec]")
    unfolding e using AppendChangeEvent_record [of clk kCreateTable d ?n "Some (schema t)" None None ?eng1] by auto
  have hist: "HistoryForTable (versions eng') d' n' =
      HistoryForTable (versions eng) d' n' @ (if d' = d \<and> n' = ?n then [?rec] else [])" for d' n'
    by (rule HistoryForTable_append [OF rec]) (simp add: for_table_def)
  have tab: "if d' = d \<and> n' = ?n then u = t else has_table eng d' n' u" if "has_table eng' d' n' u" for d' n' u
  proof -
    have "has_table ?eng1 d' n' u" using that unfolding e by (simp add: has_table_def)
    then show ?thesis using has_table_runtime [of "eng\<lparr>pool := p\<rparr>" eng] by (auto simp: has_table_put split: if_splits)
  qed
  have "after_fits (schema u) r" if "has_table eng' d' n' u" "r \<in> set (HistoryForTable (versions eng') d' n')" for d' n' u r
  proof (cases "d' = d \<and> n' = ?n")
    case True
    with that(2) hist [of d' n'] assms(4) [OF f] have "after_row r = None" by auto
    then show ?thesis by (simp add: after_fits_def)
  next
    case False
    with tab [OF that(1)] that(2) hist [of d' n'] assms(2) show ?thesis by (auto simp: history_typed_def)
  qed
  moreover have "same_rows (umap_find (foldl replay_record [] (HistoryForTable (versions eng') d' n')))
      (row_lookup (heap_rows (heap u))) \<and> ids_sorted (heap_rows (heap u))"
    if "synced eng" "has_table eng' d' n' u" for d' n' u
  proof (cases "d' = d \<and> n' = ?n")
    case True
    with tab [OF that(2)] empty hist [of d' n'] show ?thesis
      by (simp add: umap_find_replay ids_sorted_def same_rows_def)
  next
    case False
    with tab [OF that(2)] hist [of d' n'] that(1) show ?thesis by (auto simp: synced_def)
  qed
  ultimately show ?thesis unfolding history_typed_def synced_def by blast
next
  case False
  with assms(2,3) show ?thesis
    by (cases "find_database eng session name") (auto simp: ExecuteCreateTable_def umap_contains_find)
qed

section \<open>Reading the log\<close>

lemma replay_until: "foldl (\<lambda>m r. if ts < rec_timestamp r then m else replay_record m r) m rs
    = foldl replay_record m (filter (\<lambda>r. rec_timestamp r \<le> ts) rs)"
  by (induction rs arbitrary: m) auto

lemma row_lookup_Reconstruct:
  "row_lookup (ReconstructTableStateAt vs d n ts) =
     umap_find (foldl replay_record [] (filter (\<lambda>r. rec_timestamp r \<le> ts) (HistoryForTable vs d n)))"
proof
  fix k
  let ?m = "foldl (\<lambda>m r. if ts < rec_timestamp r then m else replay_record m r) [] (HistoryForTable vs d n)"
  have m: "row_map (\<lambda>_. True) ?m" by (rule row_map_replay_until) simp_all
  have dist: "distinct (map row_id (ReconstructTableStateAt vs d n ts))"
    by (rule ReconstructTableStateAt_rows(1) [of vs d n "\<lambda>_. True"]) simp
  have "row_lookup (ReconstructTableStateAt vs d n ts) k = Some row \<longleftrightarrow> umap_find ?m k = Some row" for row
  proof -
    have "row \<in> set (ReconstructTableStateAt vs d n ts) \<and> row_id row = k \<longleftrightarrow> (k, row) \<in> set ?m"
      using m by (force simp: ReconstructTableStateAt_def row_map_def)
    also have "\<dots> \<longleftrightarrow> umap_find ?m k = Some row"
      using m umap_find_in_set [of ?m k row] umap_wf_find [of ?m k row] by (auto simp: row_map_def)
    finally show ?thesis by (simp add: row_lookup_Some [OF dist])
  qed
  then show "row_lookup (ReconstructTableStateAt vs d n ts) k =
      umap_find (foldl replay_record [] (filter (\<lambda>r. rec_timestamp r \<le> ts) (HistoryForTable vs d n))) k"
    unfolding replay_until by (metis not_Some_eq)
qed

lemma same_rows_lists:
  assumes "same_rows (row_lookup xs) (row_lookup ys)" "ids_sorted xs" "ids_sorted ys"
  shows "list_all2 same_row xs ys"
proof -
  have d: "distinct (map row_id xs)" "distinct (map row_id ys)"
    using assms(2,3) sorted_wrt_less_distinct by (auto simp: ids_sorted_def)
  have "row_lookup xs k = None \<longleftrightarrow> row_lookup ys k = None" for k
    using assms(1) unfolding same_rows_def by (metis option.rel_distinct(1) option.rel_distinct(2) not_None_eq)
  then have "set (map row_id xs) = set (map row_id ys)" by (auto simp: row_lookup_None)
  then have ids: "map row_id xs = map row_id ys"
    using assms(2,3) strict_sorted_equal unfolding ids_sorted_def by metis
  then have len: "length xs = length ys" by (metis length_map)
  show ?thesis
  proof (rule list_all2_all_nthI [OF len])
    fix i assume i: "i < length xs"
    then have "row_id (xs ! i) = row_id (ys ! i)" using ids len by (metis nth_map)
    moreover have "row_lookup xs (row_id (xs ! i)) = Some (xs ! i)" "row_lookup ys (row_id (ys ! i)) = Some (ys ! i)"
      using i len by (simp_all add: row_lookup_Some [OF d(1)] row_lookup_Some [OF d(2)])
    ultimately show "same_row (xs ! i) (ys ! i)" using assms(1) unfolding same_rows_def
      by (metis option.rel_inject(2))
  qed
qed

text \<open>
  The rows of a moment: the log holds the table's events up to the moment and later ones, apart in
  time.
\<close>

lemma Reconstruct_moment:
  assumes "synced eng" "has_table eng d n t"
    and "HistoryForTable vs d n = HistoryForTable (versions eng) d n @ after"
    and "\<forall>r \<in> set (HistoryForTable (versions eng) d n). rec_timestamp r \<le> ts"
    and "\<forall>r \<in> set after. ts < rec_timestamp r"
  shows "list_all2 same_row (ReconstructTableStateAt vs d n ts) (ScanAll (heap t))"
proof -
  have "filter (\<lambda>r. rec_timestamp r \<le> ts) (HistoryForTable vs d n) = HistoryForTable (versions eng) d n"
    using assms(3-5) by (auto simp: filter_id_conv filter_empty_conv not_le)
  then have "same_rows (row_lookup (ReconstructTableStateAt vs d n ts)) (row_lookup (heap_rows (heap t)))"
    using assms(1,2) by (auto simp: row_lookup_Reconstruct synced_def)
  then show ?thesis unfolding ScanAll_def
    by (rule same_rows_lists) (use assms(1,2) ReconstructTableStateAt_sorted in \<open>auto simp: synced_def\<close>)
qed

end
