(* ===== verification/Execution_Run.thy ===== *)
theory Execution_Run
  imports Execution_History
begin

text \<open>
  Runs of the engine: the statements from which every reachable state is built, the invariant of
  the reachable states, and the properties of the executor that rest on it.
\<close>

section \<open>Runs\<close>

text \<open>The engine before the first statement, with an empty data directory.\<close>

definition initial_engine :: "string \<Rightarrow> Engine" where
  "initial_engine path =
     \<lparr>catalog = make_catalog path, runtime = \<lparr>databases = []\<rparr>, versions = \<lparr>records = []\<rparr>,
      pool = empty_pool, clock_reads = 0\<rparr>"

text \<open>
  What a statement may rely on. An \<^verbatim>\<open>INSERT\<close> has ids left for its rows: the counter has 64 bits. A
  \<^verbatim>\<open>CREATE TABLE\<close> takes a name under which no row was ever stored, since a later \<^verbatim>\<open>REVERT\<close> reads the
  rows of a dropped table of that name.
\<close>

definition admissible :: "Statement \<Rightarrow> Engine \<Rightarrow> SessionContext \<Rightarrow> bool" where
  "admissible stmt eng session =
     (case stmt of
        InsertStmt ins \<Rightarrow>
          (case locate_table eng session (insert_table ins) of
             Inl e \<Rightarrow> True
           | Inr (d, t) \<Rightarrow> unat (next_row_id (heap t)) + length (insert_rows ins) < 2 ^ 64)
      | CreateTableStatement name cols \<Rightarrow>
          (case find_database eng session name of
             Inl e \<Rightarrow> True
           | Inr (d, db) \<Rightarrow>
               list_all (\<lambda>r. after_row r = None) (HistoryForTable (versions eng) d (object_name name)))
      | _ \<Rightarrow> True)"

text \<open>One statement after the other: the planner's plan, executed.\<close>

definition submit ::
  "regex \<Rightarrow> clock \<Rightarrow> Statement \<Rightarrow> Engine \<times> SessionContext \<Rightarrow> (Engine \<times> SessionContext) \<times> QueryResult Result" where
  "submit rx clk stmt state =
     (case state of (eng, session) \<Rightarrow>
        (case BuildPlan (Some (runtime eng)) stmt of
           Inl e \<Rightarrow> ((eng, session), Inl e)
         | Inr plan \<Rightarrow> Execute rx clk plan eng session))"

fun run :: "regex \<Rightarrow> clock \<Rightarrow> Statement list \<Rightarrow> Engine \<times> SessionContext \<Rightarrow> Engine \<times> SessionContext" where
  "run rx clk [] state = state"
| "run rx clk (stmt # stmts) state = run rx clk stmts (fst (submit rx clk stmt state))"

fun admissible_run :: "regex \<Rightarrow> clock \<Rightarrow> Statement list \<Rightarrow> Engine \<times> SessionContext \<Rightarrow> bool" where
  "admissible_run rx clk [] state = True"
| "admissible_run rx clk (stmt # stmts) state =
     (admissible stmt (fst state) (snd state) \<and> admissible_run rx clk stmts (fst (submit rx clk stmt state)))"

text \<open>
  The states the engine can reach: every statement may come from another session, and a statement
  that fails is a step too.
\<close>

inductive reachable :: "regex \<Rightarrow> clock \<Rightarrow> Engine \<Rightarrow> bool" for rx clk where
  reachable_init: "reachable rx clk (initial_engine path)"
| reachable_step: "reachable rx clk eng \<Longrightarrow> admissible stmt eng session \<Longrightarrow>
    submit rx clk stmt (eng, session) = ((eng', session'), r) \<Longrightarrow> reachable rx clk eng'"

inductive_cases reachable_cases: "reachable rx clk eng"

text \<open>
  The statements whose failure leaves the log ahead of the heap: they append an event for every row
  before they know whether the statement succeeds.
\<close>

fun logs_first :: "Statement \<Rightarrow> bool" where
  "logs_first (UpdateStmt upd) = True"
| "logs_first (DeleteStmt del) = True"
| "logs_first (RevertStmt rv) = True"
| "logs_first _ = False"

inductive recorded :: "regex \<Rightarrow> clock \<Rightarrow> Engine \<Rightarrow> bool" for rx clk where
  recorded_init: "recorded rx clk (initial_engine path)"
| recorded_step: "recorded rx clk eng \<Longrightarrow> admissible stmt eng session \<Longrightarrow>
    submit rx clk stmt (eng, session) = ((eng', session'), r) \<Longrightarrow> logs_first stmt \<longrightarrow> ok r \<Longrightarrow> recorded rx clk eng'"

section \<open>The invariant\<close>

definition engine_ok :: "Engine \<Rightarrow> bool" where
  "engine_ok eng \<longleftrightarrow> engine_inv eng \<and> history_typed eng"

lemma initial_engine_ok: "engine_ok (initial_engine path)" "synced (initial_engine path)"
  by (auto simp: engine_ok_def engine_inv_def initial_engine_def state_inv_def named_def umap_find_Nil
      pool_wf_empty history_typed_def synced_def has_table_def)

text \<open>One statement.\<close>

lemma Execute_ok:
  assumes "engine_ok eng" "plan_statement plan = Some stmt" "admissible stmt eng session"
    and ex: "Execute rx clk plan eng session = ((eng', session'), r)"
  shows "engine_ok eng' \<and> (synced eng \<longrightarrow> (logs_first stmt \<longrightarrow> ok r) \<longrightarrow> synced eng')"
proof -
  have inv: "engine_inv eng" "history_typed eng" using assms(1) by (simp_all add: engine_ok_def)
  show ?thesis
  proof (cases stmt)
    case (CreateDatabaseStatement n)
    with ex assms(2) have e: "ExecuteCreateDatabase clk n eng = (eng', r)" by (simp add: Execute_def split: prod.splits)
    with ExecuteCreateDatabase_inv [OF inv(1) e] ExecuteCreateDatabase_history [OF inv(2) e] show ?thesis
      by (simp add: engine_ok_def)
  next
    case (DropDatabaseStatement n)
    with ex assms(2) have e: "ExecuteDropDatabase clk n eng session = ((eng', session'), r)" by (simp add: Execute_def)
    with ExecuteDropDatabase_inv [OF inv(1) e] ExecuteDropDatabase_history [OF inv(2) e] show ?thesis
      by (simp add: engine_ok_def)
  next
    case (CreateTableStatement name cols)
    with ex assms(2) have e: "ExecuteCreateTable clk name cols eng session = (eng', r)"
      by (simp add: Execute_def split: prod.splits)
    have "\<And>d db. find_database eng session name = Inr (d, db) \<Longrightarrow>
        \<forall>rec \<in> set (HistoryForTable (versions eng) d (object_name name)). after_row rec = None"
      using assms(3) CreateTableStatement by (auto simp: admissible_def list_all_iff)
    with ExecuteCreateTable_inv [OF inv(1) e] ExecuteCreateTable_history [OF inv e] show ?thesis
      by (simp add: engine_ok_def)
  next
    case (DropTableStatement name)
    with ex assms(2) have e: "ExecuteDropTable clk name eng session = (eng', r)" by (simp add: Execute_def split: prod.splits)
    with ExecuteDropTable_inv [OF inv(1) e] ExecuteDropTable_history [OF inv(2) e] show ?thesis
      by (simp add: engine_ok_def)
  next
    case (InsertStmt ins)
    with ex assms(2) have e: "ExecuteInsert clk ins eng session = (eng', r)" by (simp add: Execute_def split: prod.splits)
    have "\<And>d t. locate_table eng session (insert_table ins) = Inr (d, t) \<Longrightarrow>
        unat (next_row_id (heap t)) + length (insert_rows ins) < 2 ^ 64"
      using assms(3) InsertStmt by (auto simp: admissible_def)
    with ExecuteInsert_inv [OF inv(1) e] ExecuteInsert_history [OF inv e] show ?thesis
      by (simp add: engine_ok_def)
  next
    case (UpdateStmt upd)
    with ex assms(2) have e: "ExecuteUpdate rx clk upd eng session = (eng', r)" by (simp add: Execute_def split: prod.splits)
    with ExecuteUpdate_inv [OF inv(1) e] ExecuteUpdate_history [OF inv e] UpdateStmt show ?thesis
      by (simp add: engine_ok_def)
  next
    case (DeleteStmt del)
    with ex assms(2) have e: "ExecuteDelete rx clk del eng session = (eng', r)" by (simp add: Execute_def split: prod.splits)
    with ExecuteDelete_inv [OF inv(1) e] ExecuteDelete_history [OF inv e] DeleteStmt show ?thesis
      by (simp add: engine_ok_def)
  next
    case (RevertStmt rv)
    with ex assms(2) have e: "ExecuteRevert clk rv eng session = (eng', r)" by (simp add: Execute_def split: prod.splits)
    have "\<And>d t. locate_table eng session (revert_table rv) = Inr (d, t) \<Longrightarrow>
        \<forall>rec \<in> set (HistoryForTable (versions eng) d (object_name (revert_table rv))). after_fits (schema t) rec"
      using inv(2) locate_has_table [OF inv(1)] unfolding history_typed_def by blast
    with ExecuteRevert_inv [OF inv(1) e] ExecuteRevert_history [OF inv e] RevertStmt show ?thesis
      by (simp add: engine_ok_def)
  next
    case RebuildIndexStatement
    with ex assms(2) have e: "ExecuteRebuildIndex eng = (eng', r)" by (simp add: Execute_def split: prod.splits)
    with ExecuteRebuildIndex_correct [OF inv(1)] ExecuteRebuildIndex_history [OF inv e] show ?thesis
      by (auto simp: engine_ok_def)
  next
    case (UseDatabaseStatement n)
    with ex assms(1,2) show ?thesis by (auto simp: Execute_def split: prod.splits)
  qed (use ex assms(1,2) in \<open>simp_all add: Execute_def\<close>)
qed

lemma submit_ok:
  assumes "engine_ok eng" "admissible stmt eng session" "submit rx clk stmt (eng, session) = ((eng', session'), r)"
  shows "engine_ok eng' \<and> (synced eng \<longrightarrow> (logs_first stmt \<longrightarrow> ok r) \<longrightarrow> synced eng')"
proof (cases "BuildPlan (Some (runtime eng)) stmt")
  case (Inr plan)
  with assms(3) have "Execute rx clk plan eng session = ((eng', session'), r)" by (simp add: submit_def)
  from Execute_ok [OF assms(1) BuildPlan_statement [OF Inr] assms(2) this] show ?thesis .
qed (use assms in \<open>simp add: submit_def\<close>)

lemma reachable_ok: "reachable rx clk eng \<Longrightarrow> engine_ok eng"
  by (induction rule: reachable.induct) (auto intro: initial_engine_ok dest: submit_ok)

lemma recorded_synced: "recorded rx clk eng \<Longrightarrow> engine_ok eng \<and> synced eng"
proof (induction rule: recorded.induct)
  case (recorded_step eng stmt session eng' session' r)
  then show ?case using submit_ok by blast
qed (simp add: initial_engine_ok)

lemma admissible_run_reachable:
  "admissible_run rx clk stmts (eng, session) \<Longrightarrow> reachable rx clk eng \<Longrightarrow>
   reachable rx clk (fst (run rx clk stmts (eng, session)))"
proof (induction stmts arbitrary: eng session)
  case (Cons stmt stmts)
  obtain eng' session' r where s: "submit rx clk stmt (eng, session) = ((eng', session'), r)"
    by (cases "submit rx clk stmt (eng, session)") auto
  from Cons.prems s have "reachable rx clk eng'" by (auto intro: reachable_step)
  with Cons s show ?case by simp
qed simp

section \<open>A run\<close>

definition sample_clock :: clock where
  "sample_clock n = \<lparr>year = 2024, month = 1, day = 2, hour = 3, minute = 4, second = 5, micros = n\<rparr>"

definition no_regex :: regex where
  "no_regex p s = None"

definition sample_session :: SessionContext where
  "sample_session = \<lparr>client_id = ''c'', user_id = None, current_database = ''d''\<rparr>"

definition sample_name :: QualifiedName where
  "sample_name = \<lparr>database_name = None, object_name = ''t''\<rparr>"

definition sample_columns :: "AstColumn list" where
  "sample_columns =
     [\<lparr>ast_name = ''k'', ast_type = kString, ast_not_null = False, ast_indexed = True, ast_default = None\<rparr>]"

definition sample_insert :: "string list \<Rightarrow> Statement" where
  "sample_insert ks = InsertStmt \<lparr>insert_table = sample_name, insert_columns = [''k''],
     insert_rows = map (\<lambda>k. [LiteralExpression (Str k)]) ks\<rparr>"

definition sample_statements :: "Statement list" where
  "sample_statements = [CreateDatabaseStatement ''d'', CreateTableStatement sample_name sample_columns]"

lemmas sample_defs = sample_session_def sample_name_def sample_columns_def sample_insert_def sample_statements_def
  initial_engine_def empty_pool_def

lemmas statement_defs = submit_def BuildPlan_def plan_leaf_def Execute_def admissible_def
  ExecuteCreateDatabase_def ExecuteCreateTable_def ExecuteInsert_def ExecuteUpdate_def
  find_database_def locate_table_def ResolveDatabaseName_def AppendChangeEvent_def VersionAppend_def
  put_table_def make_heap_def make_index_definitions_def new_indexes_def HistoryForTable_def for_table_def
  MakeSuccess_def MakeError_def message_result_def umap_contains_def umap_find_def umap_assign_def umap_emplace_def Let_def

definition sample_engine :: Engine where
  "sample_engine = fst (run no_regex sample_clock (sample_statements @ [sample_insert [''a'', ''b'']])
     (initial_engine ''db'', sample_session))"

lemma sample_admissible:
  "admissible_run no_regex sample_clock (sample_statements @ [sample_insert [''a'', ''b'']])
     (initial_engine ''db'', sample_session)"
  by (simp add: sample_defs statement_defs)

lemma sample_reachable: "reachable no_regex sample_clock sample_engine"
  unfolding sample_engine_def by (rule admissible_run_reachable [OF sample_admissible reachable_init])

lemmas row_defs = input_positions_def FindColumnIndex_def insert_row_def InternStringValues_def
  InternStringValue_def Intern_def ValidateRowAgainstSchema_def IsNull_def CanAssignToType_def
  check_unique_def row_value_def EncodeIndexKey_def HeapInsert_def insert_into_index_def

lemmas tree_defs = Find_def Insert_def InsertIntoLeaf_def make_tree_def default_max_keys_def LowerBound_def
  UpperBound_def insert_at_def ContainsRowId_def less_char_def

lemma sample_table:
  "\<exists>t. has_table sample_engine ''d'' ''t'' t \<and> heap_rows (heap t) =
     [\<lparr>row_id = 0, row_values = [IStr (Interned 0 ''a'')]\<rparr>, \<lparr>row_id = 1, row_values = [IStr (Interned 1 ''b'')]\<rparr>]"
  unfolding sample_engine_def
  by (simp add: sample_defs statement_defs row_defs tree_defs) (simp add: has_table_def umap_find_def)

lemma admissible_run_recorded:
  "admissible_run rx clk stmts (eng, session) \<Longrightarrow> list_all (\<lambda>stmt. \<not> logs_first stmt) stmts \<Longrightarrow> recorded rx clk eng \<Longrightarrow>
   recorded rx clk (fst (run rx clk stmts (eng, session)))"
proof (induction stmts arbitrary: eng session)
  case (Cons stmt stmts)
  obtain eng' session' r where s: "submit rx clk stmt (eng, session) = ((eng', session'), r)"
    by (cases "submit rx clk stmt (eng, session)") auto
  from Cons.prems s have "recorded rx clk eng'" by (auto intro: recorded_step)
  with Cons s show ?case by simp
qed simp

lemma sample_recorded: "recorded no_regex sample_clock sample_engine"
  unfolding sample_engine_def
  by (rule admissible_run_recorded [OF sample_admissible _ recorded_init]) (simp add: sample_defs)

lemma sample_history:
  "map rec_timestamp (HistoryForTable (versions sample_engine) ''d'' ''t'') = map (\<lambda>n. GenerateTimestamp (sample_clock n)) [1, 2, 3]"
  unfolding sample_engine_def
  by (simp add: sample_defs statement_defs row_defs tree_defs numeral_2_eq_2 numeral_3_eq_3)

lemma digit_chars:
  "char_of (48 :: nat) = CHR ''0''" "char_of (49 :: nat) = CHR ''1''" "char_of (50 :: nat) = CHR ''2''"
  "char_of (51 :: nat) = CHR ''3''" "char_of (52 :: nat) = CHR ''4''" "char_of (53 :: nat) = CHR ''5''"
  by code_simp+

lemma five_zeros: "replicate 5 x = [x, x, x, x, x]"
  by (simp add: numeral_eq_Suc)

lemma sample_timestamps:
  "GenerateTimestamp (sample_clock 1) = ''2024.01.02-03:04:05.000001''"
  "GenerateTimestamp (sample_clock 2) = ''2024.01.02-03:04:05.000002''"
  "GenerateTimestamp (sample_clock 3) = ''2024.01.02-03:04:05.000003''"
  "GenerateTimestamp (sample_clock 4) = ''2024.01.02-03:04:05.000004''"
  by (simp_all add: GenerateTimestamp_def sample_clock_def zero_padded_def nat_to_string.simps digit_char_def digit_chars five_zeros)

definition sample_later :: Engine where
  "sample_later = fst (run no_regex sample_clock
     (sample_statements @ [sample_insert [''a'', ''b''], sample_insert [''c'']]) (initial_engine ''db'', sample_session))"

lemma sample_later_reachable: "reachable no_regex sample_clock sample_later"
proof -
  have "admissible_run no_regex sample_clock (sample_statements @ [sample_insert [''a'', ''b''], sample_insert [''c'']])
      (initial_engine ''db'', sample_session)"
    by (simp add: sample_defs statement_defs row_defs tree_defs)
  from admissible_run_reachable [OF this reachable_init] show ?thesis by (simp add: sample_later_def)
qed

lemma sample_later_history:
  "\<exists>after. HistoryForTable (versions sample_later) ''d'' ''t'' = HistoryForTable (versions sample_engine) ''d'' ''t'' @ after \<and>
     map rec_timestamp after = [GenerateTimestamp (sample_clock 4)]"
  unfolding sample_engine_def sample_later_def
  by (simp add: sample_defs statement_defs row_defs tree_defs eval_nat_numeral)

lemma sample_later_table:
  "\<exists>t0 t. has_table sample_engine ''d'' ''t'' t0 \<and> length (heap_rows (heap t0)) = 2 \<and>
     locate_table sample_later sample_session sample_name = Inr (''d'', t) \<and> schema t = schema t0"
  unfolding sample_engine_def sample_later_def
  by (simp add: sample_defs statement_defs row_defs tree_defs has_table_def)

section \<open>Rows with the same values\<close>

lemma EncodeIndexKey_same: "same_value v w \<Longrightarrow> EncodeIndexKey v ty = EncodeIndexKey w ty"
  by (cases v; cases w) (auto simp: EncodeIndexKey_def)

lemma IsNull_same: "same_value v w \<Longrightarrow> IsNull v = IsNull w"
  by (cases v; cases w) (auto simp: IsNull_def)

lemma row_key_same: "same_row a b \<Longrightarrow> row_key s i a = row_key s i b"
proof -
  assume "same_row a b"
  then have l: "list_all2 same_value (row_values a) (row_values b)" by (simp add: same_row_def)
  have "same_value (row_values a ! i) (row_values b ! i)" if "i < length (row_values b)"
    using list_all2_nthD2 [OF l that] .
  with list_all2_lengthD [OF l] IsNull_same EncodeIndexKey_same show ?thesis
    by (auto simp: row_key_def row_value_def)
qed

lemma index_pairs_same: "list_all2 same_row xs ys \<Longrightarrow> index_pairs s i xs = index_pairs s i ys"
proof (induction rule: list_all2_induct)
  case (Cons x xs y ys)
  then have "row_key s i x = row_key s i y" "row_id x = row_id y"
    by (auto simp: row_key_same) (simp add: same_row_def)
  with Cons show ?case by (simp add: index_pairs_def)
qed simp

lemma keys_distinct_same: "list_all2 same_row xs ys \<Longrightarrow> keys_distinct s c xs = keys_distinct s c ys"
  by (simp add: keys_distinct_def index_pairs_same)

lemma RowValuesEqual_total: "\<exists>b. RowValuesEqual x y = Inr b"
proof -
  have step: "\<exists>b. (if \<not> a then Inr False
             else if GetValueType l \<noteq> GetValueType r then Inr False
             else bind_result (CompareValues l r) (\<lambda>c. Inr (c = 0))) = (Inr b :: bool Result)" for a l r
    by (cases l; cases r) (auto simp: CompareValues_def)
  have "\<exists>b. foldM (\<lambda>equal (l, r).
             if \<not> equal then Inr False
             else if GetValueType l \<noteq> GetValueType r then Inr False
             else bind_result (CompareValues l r) (\<lambda>c. Inr (c = 0))) ps a = Inr b" for ps a
  proof (induction ps arbitrary: a)
    case (Cons p ps)
    obtain l r where p: "p = (l, r)" by (cases p)
    from step [of a l r] Cons.IH show ?case unfolding p by fastforce
  qed simp
  then show ?thesis by (auto simp: RowValuesEqual_def)
qed

lemma revert_current_total: "\<exists>eng'. revert_current clk d n m eng e = (eng', Inr ())"
proof (cases e)
  case (Pair k row)
  show ?thesis
  proof (cases "umap_find m k")
    case (Some row')
    obtain b where "RowValuesEqual row row' = Inr b" using RowValuesEqual_total by blast
    with Some Pair show ?thesis by (cases b) (simp_all add: revert_current_def)
  qed (simp add: Pair revert_current_def)
qed

lemma revert_currents_total: "\<exists>eng'. iterate_until (revert_current clk d n m) es eng = (eng', Inr ())"
proof (induction es arbitrary: eng)
  case (Cons e es)
  obtain eng1 where "revert_current clk d n m eng e = (eng1, Inr ())" using revert_current_total by blast
  with Cons [of eng1] show ?case by simp
qed simp

text \<open>A revert succeeds when the reconstructed rows fit the schema and its indexes.\<close>

lemma revert_table_to_succeeds:
  assumes "\<forall>row \<in> set rows. row_fits (schema t) row" "\<forall>c \<in> set (index_columns (schema t)). keys_distinct (schema t) c rows"
    and "ReconstructTableStateAt (versions eng) d n ts = rows"
  shows "\<exists>eng2 ixs. revert_table_to clk d n t ts eng =
    (put_table d n (t\<lparr>indexes := ixs, heap := HeapReplaceAll rows (heap t)\<rparr>) eng2, message_result (''reverted to '' @ ts)) \<and>
    runtime eng2 = runtime eng"
proof -
  have shape: "\<not> list_ex (\<lambda>row. length (row_values row) \<noteq> length (columns (schema t))) rows"
    using assms(1) row_fits_length by (auto simp: list_ex_iff)
  obtain eng1 where it: "iterate_until (revert_current clk d (schema_table (schema t)) (rows_by_id rows))
      (rows_by_id (ScanAll (heap t))) eng = (eng1, Inr ())" using revert_currents_total by blast
  obtain ixs where "RebuildIndexes (schema t) rows = Inr ixs" using RebuildIndexes_complete [OF assms(2)] by blast
  then have "revert_table_to clk d n t ts eng =
    (put_table d n (t\<lparr>indexes := ixs, heap := HeapReplaceAll rows (heap t)\<rparr>)
       (foldl (revert_added clk d (schema_table (schema t)) (rows_by_id (ScanAll (heap t)))) eng1 (rows_by_id rows)),
     message_result (''reverted to '' @ ts))"
    using shape it assms(3) by (simp add: revert_table_to_def Let_def)
  moreover have "runtime (foldl (revert_added clk d (schema_table (schema t)) (rows_by_id (ScanAll (heap t)))) eng1
      (rows_by_id rows)) = runtime eng"
    using revert_events_frame [OF it] revert_added_frame by simp
  ultimately show ?thesis by blast
qed

section \<open>Properties\<close>

text \<open>
  C2. In every state the engine reaches, by any admissible statements of any sessions, failed ones
  included, \<^verbatim>\<open>CHECK INDEX\<close> passes: every index of every table satisfies the tree's own check and finds
  every row under its key. \<^verbatim>\<open>REBUILD INDEX\<close> succeeds and keeps every table and row.
\<close>

theorem reachable_check_index:
  assumes "reachable rx clk eng"
  shows "ExecuteCheckIndex eng = message_result ''index check passed'' \<and>
    (\<exists>st. ExecuteRebuildIndex eng = (eng\<lparr>runtime := st\<rparr>, message_result ''index rebuild completed'') \<and>
          same_contents (runtime eng) st)"
proof -
  have inv: "engine_inv eng" using reachable_ok [OF assms] by (simp add: engine_ok_def)
  then have "ValidateRuntimeIndexConsistency (runtime eng) = MakeSuccess True"
    by (intro ValidateRuntimeIndexConsistency_pass) (simp add: engine_inv_def)
  with ExecuteRebuildIndex_correct [OF inv] show ?thesis by (auto simp: ExecuteCheckIndex_def MakeSuccess_def)
qed

theorem reachable_check_index_witness:
  "ExecuteCheckIndex sample_engine = message_result ''index check passed''"
  using reachable_check_index [OF sample_reachable] by blast

text \<open>
  C22. In every reachable state the rows of a table have distinct ids, every row has a value of the
  column's type for every column (\<^verbatim>\<open>NULL\<close> only where the column allows it), and no two rows agree on an
  indexed column.
\<close>

theorem reachable_rows:
  assumes "reachable rx clk eng" "has_table eng d n t"
  shows "distinct (map row_id (ScanAll (heap t))) \<and>
    (\<forall>row \<in> set (ScanAll (heap t)). row_fits (schema t) row) \<and>
    (\<forall>c i a b. umap_contains (indexes t) c \<longrightarrow> FindColumnIndex (schema t) c = Some i \<longrightarrow>
       a \<in> set (ScanAll (heap t)) \<longrightarrow> b \<in> set (ScanAll (heap t)) \<longrightarrow>
       same_value (row_values a ! i) (row_values b ! i) \<longrightarrow> a = b)"
proof -
  have inv: "table_inv t" using reachable_ok [OF assms(1)] assms(2)
    by (auto simp: engine_ok_def engine_inv_def has_table_def dest: state_inv_find database_inv_find)
  have "a = b" if c: "umap_contains (indexes t) c" and i: "FindColumnIndex (schema t) c = Some i"
    and ab: "a \<in> set (heap_rows (heap t))" "b \<in> set (heap_rows (heap t))"
    and same: "same_value (row_values a ! i) (row_values b ! i)" for c i a b
  proof -
    from c have "c \<in> set (index_columns (schema t))"
      using inv by (auto simp: table_inv_def umap_contains_find umap_find_def dest!: map_of_SomeD)
        (metis fst_conv image_eqI set_map)
    from table_inv_keys [OF inv this] i obtain kvs where kvs: "index_pairs (schema t) i (heap_rows (heap t)) = Inr kvs"
      "distinct (map fst kvs)" by (auto simp: keys_distinct_def)
    from index_pairs_map [OF kvs(1)] obtain key where
      k: "kvs = map (\<lambda>row. (key row, row_id row)) (heap_rows (heap t))"
      "\<forall>row \<in> set (heap_rows (heap t)). row_key (schema t) i row = Inr (key row)" by blast
    have "i < length (columns (schema t))" using FindColumnIndex_Some [OF i] by simp
    then have "row_value a i = Inr (row_values a ! i)" "row_value b i = Inr (row_values b ! i)"
      using ab table_inv_rows(2) [OF inv] row_fits_length [of "schema t"] by (simp_all add: row_value_def)
    then have "row_key (schema t) i a = row_key (schema t) i b"
      using IsNull_same [OF same] EncodeIndexKey_same [OF same] by (simp add: row_key_def)
    with k(2) ab have "key a = key b" by simp
    moreover have "inj_on key (set (heap_rows (heap t)))" using kvs(2) k(1) by (simp add: comp_def distinct_map)
    ultimately show ?thesis using ab by (simp add: inj_on_eq_iff)
  qed
  with table_inv_rows [OF inv] show ?thesis unfolding ScanAll_def by blast
qed

theorem reachable_rows_witness:
  "\<exists>t. has_table sample_engine ''d'' ''t'' t \<and> length (ScanAll (heap t)) = 2 \<and>
       distinct (map row_id (ScanAll (heap t))) \<and> (\<forall>row \<in> set (ScanAll (heap t)). row_fits (schema t) row)"
proof -
  obtain t where t: "has_table sample_engine ''d'' ''t'' t" "length (heap_rows (heap t)) = 2" using sample_table by auto
  with reachable_rows [OF sample_reachable t(1)] show ?thesis by (auto simp: ScanAll_def)
qed

text \<open>
  C3. After admissible statements, of which no \<^verbatim>\<open>UPDATE\<close>, \<^verbatim>\<open>DELETE\<close> or \<^verbatim>\<open>REVERT\<close> has failed, the change log of a table up to its last event
  replays to exactly the rows of its heap, in the same order, up to the representation of strings. In particular no table was created
  again under a name whose history has rows.
\<close>

theorem history_replays:
  assumes "recorded rx clk eng" "has_table eng d n t" "LatestTimestampForTable (versions eng) d n = Some ts"
  shows "list_all2 same_row (ReconstructTableStateAt (versions eng) d n ts) (ScanAll (heap t))"
  using recorded_synced [OF assms(1)] assms(2,3) versions.latest_bound
  by (intro Reconstruct_moment [where after = "[]"]) auto

theorem history_replays_witness:
  "\<exists>t ts. has_table sample_engine ''d'' ''t'' t \<and> LatestTimestampForTable (versions sample_engine) ''d'' ''t'' = Some ts \<and>
     list_all2 same_row (ReconstructTableStateAt (versions sample_engine) ''d'' ''t'' ts) (ScanAll (heap t))"
proof -
  obtain t where t: "has_table sample_engine ''d'' ''t'' t" using sample_table by blast
  have "HistoryForTable (versions sample_engine) ''d'' ''t'' \<noteq> []" using sample_history by auto
  then obtain ts where ts: "LatestTimestampForTable (versions sample_engine) ''d'' ''t'' = Some ts"
    using versions.latest_None by blast
  from history_replays [OF sample_recorded t ts] t ts show ?thesis by blast
qed

text \<open>
  C7. \<^verbatim>\<open>REVERT\<close> to a moment restores the rows of that moment: when admissible statements led to the moment and none of them was a failed
  \<^verbatim>\<open>UPDATE\<close>, \<^verbatim>\<open>DELETE\<close> or \<^verbatim>\<open>REVERT\<close>, when the table's events up to the moment have timestamps at most \<open>ts\<close> and all later ones have greater
  timestamps, and the schema is the same, \<^verbatim>\<open>REVERT ... AT OR BEFORE\<close> \<open>ts\<close> succeeds and the heap then holds the rows it had at the moment.
\<close>

theorem revert_restores:
  assumes "recorded rx clk past" "has_table past d n t0"
    and "reachable rx clk eng" "locate_table eng session (revert_table rv) = Inr (d, t)"
    and "object_name (revert_table rv) = n" "schema t = schema t0"
    and hist: "HistoryForTable (versions eng) d n = HistoryForTable (versions past) d n @ after"
    and le: "\<forall>r \<in> set (HistoryForTable (versions past) d n). rec_timestamp r \<le> revert_timestamp rv"
    and gt: "\<forall>r \<in> set after. revert_timestamp rv < rec_timestamp r"
    and "HistoryForTable (versions past) d n \<noteq> []"
    and "revert_mode rv = kAtOrBefore" "timestamp_pattern (revert_timestamp rv)"
  shows "\<exists>eng' ts t'. ExecuteRevert clk rv eng session = (eng', message_result (''reverted to '' @ ts)) \<and>
    has_table eng' d n t' \<and> list_all2 same_row (ScanAll (heap t')) (ScanAll (heap t0))"
proof -
  let ?past = "HistoryForTable (versions past) d n"
  have sync: "synced past" "engine_ok past" using recorded_synced [OF assms(1)] by simp_all
  have inv0: "table_inv t0" using sync(2) assms(2)
    by (auto simp: engine_ok_def engine_inv_def has_table_def dest: state_inv_find database_inv_find)
  have inv: "engine_inv eng" using reachable_ok [OF assms(3)] by (simp add: engine_ok_def)
  define ts where "ts = Max (rec_timestamp ` set ?past)"
  have "{t \<in> rec_timestamp ` set (HistoryForTable (versions eng) d n). t \<le> revert_timestamp rv} = rec_timestamp ` set ?past"
    using hist le gt by (auto simp: not_le [symmetric])
  then have target: "revert_target rv d (versions eng) = Inr (Some ts)"
    using assms(5,10-12) LatestTimestampAtOrBefore_greatest [of "versions eng" d n "revert_timestamp rv"]
    by (simp add: revert_target_def greatest_def ts_def)
  have "ts \<in> rec_timestamp ` set ?past" unfolding ts_def using assms(10) by (intro Max_in) auto
  then have "ts \<le> revert_timestamp rv" using le by auto
  then have "\<forall>r \<in> set after. ts < rec_timestamp r" using gt by auto
  moreover have "\<forall>r \<in> set ?past. rec_timestamp r \<le> ts" by (simp add: ts_def)
  ultimately have rows: "list_all2 same_row (ReconstructTableStateAt (versions eng) d n ts) (ScanAll (heap t0))"
    by (intro Reconstruct_moment [OF sync(1) assms(2) hist])
  let ?rows = "ReconstructTableStateAt (versions eng) d n ts"
  have "\<forall>r \<in> set (HistoryForTable (versions eng) d n). after_fits (schema t) r"
    using reachable_ok [OF assms(3)] locate_has_table [OF inv assms(4)] assms(5)
    by (auto simp: engine_ok_def history_typed_def)
  then have fits: "\<forall>row \<in> set ?rows. row_fits (schema t) row"
    by (intro ReconstructTableStateAt_rows(2)) (auto simp: after_fits_def)
  have "\<forall>c \<in> set (index_columns (schema t)). keys_distinct (schema t) c ?rows"
    using keys_distinct_same [OF rows] table_inv_keys [OF inv0] assms(6) by (simp add: ScanAll_def)
  from revert_table_to_succeeds [OF fits this refl] obtain eng2 ixs where
    rv: "revert_table_to clk d n t ts eng =
      (put_table d n (t\<lparr>indexes := ixs, heap := HeapReplaceAll ?rows (heap t)\<rparr>) eng2, message_result (''reverted to '' @ ts))"
      "runtime eng2 = runtime eng" by blast
  have "has_table (put_table d n (t\<lparr>indexes := ixs, heap := HeapReplaceAll ?rows (heap t)\<rparr>) eng2) d n
      (t\<lparr>indexes := ixs, heap := HeapReplaceAll ?rows (heap t)\<rparr>)"
    using locate_table_inv(4) [OF inv assms(4)] rv(2) by (auto simp: has_table_put)
  moreover have "ScanAll (HeapReplaceAll ?rows (heap t)) = ?rows" by (simp add: heap.replace_scan)
  ultimately show ?thesis using rv(1) target assms(4,5) rows by (auto simp: ExecuteRevert_def)
qed

theorem revert_restores_witness:
  "\<exists>eng' ts t' t0. ExecuteRevert sample_clock
       \<lparr>revert_table = sample_name, revert_timestamp = ''2024.01.02-03:04:05.000003'', revert_mode = kAtOrBefore\<rparr>
       sample_later sample_session = (eng', message_result (''reverted to '' @ ts)) \<and>
     has_table sample_engine ''d'' ''t'' t0 \<and> has_table eng' ''d'' ''t'' t' \<and>
     list_all2 same_row (ScanAll (heap t')) (ScanAll (heap t0))"
proof -
  let ?rv = "\<lparr>revert_table = sample_name, revert_timestamp = ''2024.01.02-03:04:05.000003'', revert_mode = kAtOrBefore\<rparr>"
  obtain t0 t where t: "has_table sample_engine ''d'' ''t'' t0"
    "locate_table sample_later sample_session sample_name = Inr (''d'', t)" "schema t = schema t0"
    using sample_later_table by blast
  obtain after where h: "HistoryForTable (versions sample_later) ''d'' ''t''
      = HistoryForTable (versions sample_engine) ''d'' ''t'' @ after"
    "map rec_timestamp after = [''2024.01.02-03:04:05.000004'']"
    using sample_later_history sample_timestamps by auto
  let ?past = "HistoryForTable (versions sample_engine) ''d'' ''t''"
  have ts: "map rec_timestamp ?past = [''2024.01.02-03:04:05.000001'', ''2024.01.02-03:04:05.000002'',
      ''2024.01.02-03:04:05.000003'']"
    unfolding sample_history by (simp only: list.map sample_timestamps)
  have "\<forall>x \<in> set (map rec_timestamp ?past). x \<le> ''2024.01.02-03:04:05.000003''"
    unfolding ts by (simp add: less_eq_char_def less_char_def)
  then have le: "\<forall>r \<in> set ?past. rec_timestamp r \<le> revert_timestamp ?rv" by simp
  have "\<forall>x \<in> set (map rec_timestamp after). ''2024.01.02-03:04:05.000003'' < x"
    unfolding h(2) by (simp add: less_char_def)
  then have gt: "\<forall>r \<in> set after. revert_timestamp ?rv < rec_timestamp r" by simp
  have ne: "?past \<noteq> []" using ts by auto
  have pat: "timestamp_pattern (revert_timestamp ?rv)"
    by (simp add: timestamp_pattern_def fits_template_def is_digit_def less_eq_char_def)
  from revert_restores [OF sample_recorded t(1) sample_later_reachable, of sample_session ?rv t after] t h(1) le gt ne pat
  show ?thesis by (auto simp: sample_name_def)
qed

text \<open>The statement of the next property: every key is set to the same value.\<close>

definition sample_update :: UpdateStatement where
  "sample_update = \<lparr>update_table = sample_name, assignments = [(''k'', LiteralExpression (Str ''z''))], update_where = None\<rparr>"

lemma sample_update_fails:
  "\<exists>eng' e t. ExecuteUpdate no_regex sample_clock sample_update sample_engine sample_session = (eng', Inl e) \<and>
     has_table eng' ''d'' ''t'' t \<and> row_lookup (heap_rows (heap t)) 0 = Some \<lparr>row_id = 0, row_values = [IStr (Interned 0 ''a'')]\<rparr> \<and>
     HistoryForTable (versions eng') ''d'' ''t'' \<noteq> [] \<and>
     umap_find (foldl replay_record [] (HistoryForTable (versions eng') ''d'' ''t'')) 0
       = Some \<lparr>row_id = 0, row_values = [IStr (Interned 2 ''z'')]\<rparr>"
  unfolding sample_engine_def
  by (simp add: sample_defs sample_update_def statement_defs row_defs tree_defs update_row_def passes_def
      apply_assignment_def ScanAll_def RebuildIndexes_def rebuild_entry_def has_table_def row_lookup_def
      replay_record_def numeral_2_eq_2)

text \<open>
  An \<^verbatim>\<open>UPDATE\<close> that fails on a duplicate key has already logged its changes: the table keeps its
  rows, but the log no longer replays to them, and a \<^verbatim>\<open>REVERT\<close> to the latest moment would install the
  rows of the failed statement.
\<close>

theorem failed_update_diverges:
  "\<exists>eng' e t ts. reachable no_regex sample_clock sample_engine \<and>
     ExecuteUpdate no_regex sample_clock sample_update sample_engine sample_session = (eng', Inl e) \<and>
     has_table eng' ''d'' ''t'' t \<and> LatestTimestampForTable (versions eng') ''d'' ''t'' = Some ts \<and>
     \<not> list_all2 same_row (ReconstructTableStateAt (versions eng') ''d'' ''t'' ts) (ScanAll (heap t))"
proof -
  obtain eng' e t where u: "ExecuteUpdate no_regex sample_clock sample_update sample_engine sample_session = (eng', Inl e)"
    "has_table eng' ''d'' ''t'' t"
    "row_lookup (heap_rows (heap t)) 0 = Some \<lparr>row_id = 0, row_values = [IStr (Interned 0 ''a'')]\<rparr>"
    "HistoryForTable (versions eng') ''d'' ''t'' \<noteq> []"
    "umap_find (foldl replay_record [] (HistoryForTable (versions eng') ''d'' ''t'')) 0
       = Some \<lparr>row_id = 0, row_values = [IStr (Interned 2 ''z'')]\<rparr>"
    using sample_update_fails by blast
  obtain ts where ts: "LatestTimestampForTable (versions eng') ''d'' ''t'' = Some ts"
    using u(4) versions.latest_None by blast
  let ?rows = "ReconstructTableStateAt (versions eng') ''d'' ''t'' ts"
  have "filter (\<lambda>r. rec_timestamp r \<le> ts) (HistoryForTable (versions eng') ''d'' ''t'') = HistoryForTable (versions eng') ''d'' ''t''"
    using versions.latest_bound [OF ts] by (simp add: filter_id_conv)
  then have z: "row_lookup ?rows 0 = Some \<lparr>row_id = 0, row_values = [IStr (Interned 2 ''z'')]\<rparr>"
    using u(5) by (simp add: row_lookup_Reconstruct)
  have "rel_option same_row (row_lookup xs 0) (row_lookup ys 0)" if "list_all2 same_row xs ys" for xs ys
    using that by (induction rule: list_all2_induct) (auto simp: row_lookup_def same_row_def)
  from this [of ?rows "ScanAll (heap t)"] z u(3) have "\<not> list_all2 same_row ?rows (ScanAll (heap t))"
    by (auto simp: ScanAll_def same_row_def)
  with u(1,2) ts sample_reachable show ?thesis by blast
qed

end
