(* ===== verification/Query_Properties.thy ===== *)
theory Query_Properties
  imports Execution_Run
begin

text \<open>
  Properties of queries and of single statements: index paths against the sequential scan, the
  planner against the executor, aggregates, error branches, and the components below the engine.
\<close>

section \<open>Helper lemmas\<close>

lemma reachable_table_inv: "reachable rx clk eng \<Longrightarrow> has_table eng d n t \<Longrightarrow> table_inv t"
  using reachable_ok by (force simp: engine_ok_def engine_inv_def has_table_def dest: state_inv_find database_inv_find)

text \<open>The table of the sample run with its index.\<close>

lemma sample_indexed:
  "\<exists>t tree. has_table sample_engine ''d'' ''t'' t \<and> locate_table sample_engine sample_session sample_name = Inr (''d'', t) \<and>
     indexed_column (schema t) (indexes t) (ColumnReferenceExpression None None ''k'') = Some (0, tree) \<and>
     col_type (columns (schema t) ! 0) = kString \<and>
     map row_values (ScanAll (heap t)) = [[IStr (Interned 0 ''a'')], [IStr (Interned 1 ''b'')]]"
  unfolding sample_engine_def
  by (simp add: sample_defs statement_defs row_defs tree_defs)
    (simp add: has_table_def umap_find_def indexed_column_def FindColumnIndex_def ScanAll_def)

lemma indexed_column_exists:
  assumes "table_inv t" "umap_contains (indexes t) c"
  shows "\<exists>i tree. indexed_column (schema t) (indexes t) (ColumnReferenceExpression d tn c) = Some (i, tree)"
proof -
  obtain tree where tree: "umap_find (indexes t) c = Some tree" using assms(2) by (auto simp: umap_contains_find)
  then have "c \<in> set (map fst (indexes t))" using umap_find_in_set by force
  then have "c \<in> set (index_columns (schema t))" using assms(1) unfolding table_inv_def by metis
  then obtain i where "FindColumnIndex (schema t) c = Some i" using table_inv_columns [OF assms(1)] by blast
  with tree show ?thesis by (simp add: indexed_column_def)
qed

text \<open>A clause whose candidate column has an index never reaches the sequential scan.\<close>

lemma ExtractIndexedCandidateColumn_cases:
  assumes "ExtractIndexedCandidateColumn e = Some c"
  obtains (comparison) op d tn v where "op \<noteq> kNotEqual"
      "e = BinaryComparisonExpression op (ColumnReferenceExpression d tn c) (LiteralExpression v)"
    | (between) d tn l u where "e = BetweenExpression (ColumnReferenceExpression d tn c) (LiteralExpression l) (LiteralExpression u)"
  using assms by (auto simp: ExtractIndexedCandidateColumn_def split: Expression.splits if_splits)

lemma index_path_taken:
  assumes "ExtractIndexedCandidateColumn e = Some c" "\<And>d tn. \<exists>i tree. indexed_column s ixs (ColumnReferenceExpression d tn c) = Some (i, tree)"
    and "index_path rx rows e s ixs = Inr found"
  shows "found \<noteq> None"
  using assms(1)
proof (cases rule: ExtractIndexedCandidateColumn_cases)
  case (comparison op d tn v)
  obtain i tree where "indexed_column s ixs (ColumnReferenceExpression d tn c) = Some (i, tree)" using assms(2) by blast
  with comparison assms(3) show ?thesis by (auto simp: index_path_def)
next
  case (between d tn l u)
  obtain i tree where "indexed_column s ixs (ColumnReferenceExpression d tn c) = Some (i, tree)" using assms(2) by blast
  with between assms(3) show ?thesis by (auto simp: index_path_def)
qed

text \<open>The integers of a column, \<^verbatim>\<open>NULL\<close>s left out.\<close>

definition column_ints :: "nat \<Rightarrow> RowData list \<Rightarrow> 64 word list" where
  "column_ints i rows = List.map_filter (\<lambda>row. case row_values row ! i of Int64 w \<Rightarrow> Some w | _ \<Rightarrow> None) rows"

definition int_column :: "nat \<Rightarrow> RowData list \<Rightarrow> bool" where
  "int_column i rows \<longleftrightarrow>
     (\<forall>row \<in> set rows. i < length (row_values row) \<and> (row_values row ! i = Monostate \<or> GetValueType (row_values row ! i) = kInt64))"

lemma column_ints_simps [simp]:
  "column_ints i [] = []"
  "column_ints i (row # rows) = (case row_values row ! i of Int64 w \<Rightarrow> w # column_ints i rows | _ \<Rightarrow> column_ints i rows)"
  by (simp_all add: column_ints_def List.map_filter_simps split: Value.split)

lemma sum_rows_column:
  assumes "int_column i rows"
  shows "sum_rows i rows = Inr (sum_list (column_ints i rows), of_nat (length (column_ints i rows)))"
proof -
  have "foldM (\<lambda>(acc, cnt) row.
         bind_result (row_value row i) (\<lambda>v.
           case v of
             Monostate \<Rightarrow> Inr (acc, cnt)
           | Int64 w \<Rightarrow> Inr (acc + w, cnt + 1)
           | _ \<Rightarrow> MakeError kTypeMismatch ''SUM/AVG require INT column values'')) rows (a, c)
      = Inr (a + sum_list (column_ints i rows), c + of_nat (length (column_ints i rows)))" for a c
    using assms
  proof (induction rows arbitrary: a c)
    case (Cons row rows)
    then have v: "row_value row i = Inr (row_values row ! i)" and IH: "int_column i rows"
      by (auto simp: int_column_def row_value_def)
    consider "row_values row ! i = Monostate" | w where "row_values row ! i = Int64 w"
      using Cons.prems by (cases "row_values row ! i") (auto simp: int_column_def)
    then show ?case using Cons.IH [OF IH] v by cases (simp_all add: algebra_simps)
  qed simp
  from this [of 0 0] show ?thesis by (simp add: sum_rows_def)
qed

lemma count_rows_column:
  assumes "int_column i rows"
  shows "count_rows (Some i) rows = Inr (of_nat (length (column_ints i rows)))"
proof -
  have "foldM (\<lambda>cnt row. bind_result (row_value row i) (\<lambda>v. Inr (if IsNull v then cnt else cnt + 1))) rows c
      = Inr (c + of_nat (length (column_ints i rows)))" for c
    using assms
  proof (induction rows arbitrary: c)
    case (Cons row rows)
    then have v: "row_value row i = Inr (row_values row ! i)" and IH: "int_column i rows"
      by (auto simp: int_column_def row_value_def)
    consider "row_values row ! i = Monostate" | w where "row_values row ! i = Int64 w"
      using Cons.prems by (cases "row_values row ! i") (auto simp: int_column_def)
    then show ?case using Cons.IH [OF IH] v by cases (simp_all add: IsNull_def algebra_simps)
  qed simp
  from this [of 0] show ?thesis by (simp add: count_rows_def)
qed

lemma sint_sum_list:
  "sum_list (ws :: 64 word list) = word_of_int (sum_list (map sint ws))"
  by (induction ws) simp_all

lemma sint_in_range: "- (2 ^ 63) \<le> x \<Longrightarrow> x < 2 ^ 63 \<Longrightarrow> sint (word_of_int x :: 64 word) = x"
  by (simp add: signed_of_int signed_take_bit_int_eq_self)

lemma sdiv_in_range:
  fixes a b :: int
  assumes "- (2 ^ 63) \<le> a" "a < 2 ^ 63" "0 < b"
  shows "- (2 ^ 63) \<le> a sdiv b \<and> a sdiv b < 2 ^ 63"
proof -
  have "\<bar>a\<bar> div b \<le> \<bar>a\<bar>" using assms(3) zdiv_mono2 [of "\<bar>a\<bar>" 1 b] by simp
  moreover have "0 \<le> \<bar>a\<bar> div b" using assms(3) by (simp add: pos_imp_zdiv_nonneg_iff)
  ultimately show ?thesis using assms by (auto simp: signed_divide_int_def sgn_if)
qed

section \<open>Index paths\<close>

text \<open>
  C8. In every reachable state a \<^verbatim>\<open>WHERE\<close> comparison, other than \<^verbatim>\<open>!=\<close>, of an indexed column with a literal of the
  column's type that is not \<^verbatim>\<open>NULL\<close> selects the same rows through the index as the sequential scan does, provided the
  64-bit differences that the sequential comparison computes do not overflow; for equality no
  proviso is needed.
\<close>

theorem index_comparison_same_rows:
  assumes "reachable rx clk eng" "has_table eng d n t" "op \<noteq> kNotEqual"
    and "indexed_column (schema t) (indexes t) e = Some (i, tree)"
    and "GetValueType lit = col_type (columns (schema t) ! i)" "\<not> IsNull lit"
    and "op = kEqual \<or> (\<forall>row \<in> set (ScanAll (heap t)). no_overflow (row_values row ! i) lit)"
  shows "\<exists>rs seq. FilterRows rx (ScanAll (heap t)) (Some (BinaryComparisonExpression op e (LiteralExpression lit)))
        (schema t) (Some t) = Inr (rs, True) \<and>
      FilterRows rx (ScanAll (heap t)) (Some (BinaryComparisonExpression op e (LiteralExpression lit)))
        (schema t) None = Inr (seq, False) \<and> mset rs = mset seq"
  using reachable_table_inv [OF assms(1,2)] assms(3-7)
  by (intro index_comparison_correct) (auto simp: ScanAll_def)

theorem index_comparison_same_rows_witness:
  "\<exists>t rs seq. has_table sample_engine ''d'' ''t'' t \<and>
     FilterRows no_regex (ScanAll (heap t)) (Some (BinaryComparisonExpression kGreaterEqual
       (ColumnReferenceExpression None None ''k'') (LiteralExpression (Str ''b'')))) (schema t) (Some t) = Inr (rs, True) \<and>
     FilterRows no_regex (ScanAll (heap t)) (Some (BinaryComparisonExpression kGreaterEqual
       (ColumnReferenceExpression None None ''k'') (LiteralExpression (Str ''b'')))) (schema t) None = Inr (seq, False) \<and>
     mset rs = mset seq"
proof -
  obtain t tree where t: "has_table sample_engine ''d'' ''t'' t"
    "indexed_column (schema t) (indexes t) (ColumnReferenceExpression None None ''k'') = Some (0, tree)"
    "col_type (columns (schema t) ! 0) = kString" using sample_indexed by blast
  have "no_overflow v (Str ''b'')" for v by (cases v) auto
  with index_comparison_same_rows [OF sample_reachable t(1) _ t(2), of kGreaterEqual "Str ''b''"] t show ?thesis
    by (auto simp: IsNull_def)
qed

text \<open>
  The same for \<^verbatim>\<open>BETWEEN\<close> an indexed column and two literals of its type: the half-open range of the
  index is the half-open range of the predicate.
\<close>

theorem index_between_same_rows:
  assumes "reachable rx clk eng" "has_table eng d n t"
    and "indexed_column (schema t) (indexes t) e = Some (i, tree)"
    and "GetValueType l = col_type (columns (schema t) ! i)" "GetValueType u = col_type (columns (schema t) ! i)"
    and "\<not> IsNull l" "\<not> IsNull u"
    and "\<forall>row \<in> set (ScanAll (heap t)). no_overflow (row_values row ! i) l \<and> no_overflow (row_values row ! i) u"
  shows "\<exists>rs seq. FilterRows rx (ScanAll (heap t)) (Some (BetweenExpression e (LiteralExpression l) (LiteralExpression u)))
        (schema t) (Some t) = Inr (rs, True) \<and>
      FilterRows rx (ScanAll (heap t)) (Some (BetweenExpression e (LiteralExpression l) (LiteralExpression u)))
        (schema t) None = Inr (seq, False) \<and> mset rs = mset seq"
  using reachable_table_inv [OF assms(1,2)] assms(3-8)
  by (intro index_between_correct) (auto simp: ScanAll_def)

theorem index_between_same_rows_witness:
  "\<exists>t rs seq. has_table sample_engine ''d'' ''t'' t \<and>
     FilterRows no_regex (ScanAll (heap t)) (Some (BetweenExpression (ColumnReferenceExpression None None ''k'')
       (LiteralExpression (Str ''a'')) (LiteralExpression (Str ''b'')))) (schema t) (Some t) = Inr (rs, True) \<and>
     FilterRows no_regex (ScanAll (heap t)) (Some (BetweenExpression (ColumnReferenceExpression None None ''k'')
       (LiteralExpression (Str ''a'')) (LiteralExpression (Str ''b'')))) (schema t) None = Inr (seq, False) \<and>
     mset rs = mset seq"
proof -
  obtain t tree where t: "has_table sample_engine ''d'' ''t'' t"
    "indexed_column (schema t) (indexes t) (ColumnReferenceExpression None None ''k'') = Some (0, tree)"
    "col_type (columns (schema t) ! 0) = kString" using sample_indexed by blast
  have "no_overflow v (Str s)" for v s by (cases v) auto
  with index_between_same_rows [OF sample_reachable t(1,2), of "Str ''a''" "Str ''b''"] t show ?thesis
    by (auto simp: IsNull_def)
qed

text \<open>
  The encoding of index keys embeds the order of the values of a column type into the order of
  strings, negative integers included, and different values never share a key.
\<close>

theorem EncodeIndexKey_order:
  assumes "GetValueType a = ty" "GetValueType b = ty" "ty \<noteq> kNull"
  shows "\<exists>ka kb. EncodeIndexKey a ty = Inr ka \<and> EncodeIndexKey b ty = Inr kb \<and>
    (ka < kb \<longleftrightarrow> value_less a b) \<and> (ka = kb \<longleftrightarrow> same_value a b)"
proof -
  obtain ka kb where "EncodeIndexKey a ty = Inr ka" "EncodeIndexKey b ty = Inr kb"
    using EncodeIndexKey_total assms by metis
  with EncodeIndexKey_less [OF assms] EncodeIndexKey_eq [OF assms] show ?thesis by blast
qed

theorem EncodeIndexKey_order_witness:
  "\<exists>ka kb. EncodeIndexKey (Int64 (- 5)) kInt64 = Inr ka \<and> EncodeIndexKey (Int64 3) kInt64 = Inr kb \<and> ka < kb"
proof -
  have "sint (- 5 :: 64 word) < sint (3 :: 64 word)" by simp
  with EncodeIndexKey_order [of "Int64 (- 5)" kInt64 "Int64 3"] show ?thesis by auto
qed

text \<open>
  \<^verbatim>\<open>CompareValues\<close> subtracts 64-bit integers: where the difference is out of range the sign is wrong,
  so the least integer compares greater than 1, and the sequential scan disagrees with the index.
\<close>

theorem CompareValues_overflow:
  "\<exists>c. CompareValues (Int64 (- (2 ^ 63))) (Int64 1) = Inr c \<and> 0 < c \<and> value_less (Int64 (- (2 ^ 63))) (Int64 1)"
  by (simp add: CompareValues_def)

text \<open>
  Where the planner announces an index scan, the executor selects the rows through the index.
\<close>

theorem planned_index_scan_used:
  assumes "reachable rx clk eng" "plan_kind (select_scan (Some (runtime eng)) stmt sel) = kPlanIndexScan"
    and "locate_table eng session (select_table sel) = Inr (d, t)"
    and "FilterRows rx (ScanAll (heap t)) (select_where sel) (schema t) (Some t) = Inr (rows, used)"
  shows "used"
proof -
  from assms(2) obtain e c where e: "select_where sel = Some e" "ExtractIndexedCandidateColumn e = Some c"
    "TableHasIndexOnColumn (Some (runtime eng)) (select_table sel) c" unfolding select_scan_kind by blast
  have inv: "engine_inv eng" using reachable_ok [OF assms(1)] by (simp add: engine_ok_def)
  have t: "table_inv t" by (rule locate_table_inv(1) [OF inv assms(3)])
  have "umap_contains (indexes t) c"
    using e(3) assms(3) by (auto simp: TableHasIndexOnColumn_def locate_table_def find_database_def ResolveDatabaseName_def
        split: option.splits)
  then have "found \<noteq> None" if "index_path rx (ScanAll (heap t)) e (schema t) (indexes t) = Inr found" for found
    using index_path_taken [OF e(2) _ that] indexed_column_exists [OF t] by blast
  with assms(4) e(1) show ?thesis by (auto simp: FilterRows_def split: option.splits)
qed

theorem planned_index_scan_used_witness:
  "\<exists>t rows used. plan_kind (select_scan (Some (runtime sample_engine)) (UnknownStatement [])
       \<lparr>select_table = \<lparr>database_name = Some ''d'', object_name = ''t''\<rparr>, select_items = [],
        select_where = Some (BinaryComparisonExpression kEqual (ColumnReferenceExpression None None ''k'') (LiteralExpression (Str ''a'')))\<rparr>)
       = kPlanIndexScan \<and>
     FilterRows no_regex (ScanAll (heap t)) (Some (BinaryComparisonExpression kEqual
       (ColumnReferenceExpression None None ''k'') (LiteralExpression (Str ''a'')))) (schema t) (Some t) = Inr (rows, used) \<and> used"
proof -
  let ?e = "BinaryComparisonExpression kEqual (ColumnReferenceExpression None None ''k'') (LiteralExpression (Str ''a''))"
  let ?sel = "\<lparr>select_table = \<lparr>database_name = Some ''d'', object_name = ''t''\<rparr>, select_items = [], select_where = Some ?e\<rparr>"
  obtain t tree where t: "has_table sample_engine ''d'' ''t'' t"
    "indexed_column (schema t) (indexes t) (ColumnReferenceExpression None None ''k'') = Some (0, tree)"
    "col_type (columns (schema t) ! 0) = kString" using sample_indexed by blast
  have idx: "umap_contains (indexes t) ''k''" using t(2)
    by (auto simp: indexed_column_def umap_contains_find split: option.splits)
  have loc: "locate_table sample_engine sample_session (select_table ?sel) = Inr (''d'', t)"
    using t(1) by (auto simp: locate_table_def find_database_def ResolveDatabaseName_def has_table_def)
  have plan: "plan_kind (select_scan (Some (runtime sample_engine)) (UnknownStatement []) ?sel) = kPlanIndexScan"
    using t(1) idx by (auto simp: select_scan_kind ExtractIndexedCandidateColumn_def TableHasIndexOnColumn_def has_table_def)
  have inv: "table_inv t" by (rule reachable_table_inv [OF sample_reachable t(1)])
  obtain rows where "FilterRows no_regex (ScanAll (heap t)) (Some ?e) (schema t) (Some t) = Inr (rows, True)"
    using index_comparison_correct [OF inv _ t(2), of kEqual "Str ''a''" no_regex] t(3) by (auto simp: IsNull_def)
  with planned_index_scan_used [OF sample_reachable plan loc] plan show ?thesis by auto
qed

section \<open>Aggregates\<close>

text \<open>
  C33. On a column of integers and \<^verbatim>\<open>NULL\<close>s \<^verbatim>\<open>COUNT\<close> is the number of integers and \<^verbatim>\<open>SUM\<close> their sum, both
  modulo \<open>2\<^sup>6\<^sup>4\<close>; where the sum of the integers fits 64 bits, \<^verbatim>\<open>SUM\<close> is that sum and \<^verbatim>\<open>AVG\<close> the quotient
  truncated toward zero. \<^verbatim>\<open>AVG\<close> over no integer is \<^verbatim>\<open>NULL\<close>.
\<close>

theorem aggregates_correct:
  assumes "int_column i rows"
  shows "aggregate_value kCount c (Some i) rows = Inr (Int64 (of_nat (length (column_ints i rows)))) \<and>
    aggregate_value kSum c (Some i) rows = Inr (Int64 (word_of_int (\<Sum>w\<leftarrow>column_ints i rows. sint w))) \<and>
    (column_ints i rows = [] \<longrightarrow> aggregate_value kAvg c (Some i) rows = Inr Monostate) \<and>
    (let ws = column_ints i rows; total = (\<Sum>w\<leftarrow>ws. sint w) in
     ws \<noteq> [] \<longrightarrow> length ws < 2 ^ 63 \<longrightarrow> - (2 ^ 63) \<le> total \<longrightarrow> total < 2 ^ 63 \<longrightarrow>
     (\<exists>s a. aggregate_value kSum c (Some i) rows = Inr (Int64 s) \<and> sint s = total \<and>
            aggregate_value kAvg c (Some i) rows = Inr (Int64 a) \<and> sint a = total sdiv int (length ws)))"
proof -
  let ?ws = "column_ints i rows"
  let ?total = "\<Sum>w\<leftarrow>?ws. sint w"
  have sum: "sum_rows i rows = Inr (word_of_int ?total, of_nat (length ?ws))"
    using sum_rows_column [OF assms] sint_sum_list [of ?ws] by simp
  have "\<exists>a. average (word_of_int ?total) (of_nat (length ?ws)) = Int64 a \<and> sint a = ?total sdiv int (length ?ws)"
    if b: "?ws \<noteq> []" "length ?ws < 2 ^ 63" "- (2 ^ 63) \<le> ?total" "?total < 2 ^ 63"
  proof -
    have "int (length ?ws) < 2 ^ 63" using b(2) by (metis of_nat_less_iff of_nat_numeral of_nat_power)
    then have n: "sint (of_nat (length ?ws) :: 64 word) = int (length ?ws)"
      using sint_in_range [of "int (length ?ws)"] by simp
    then have "(of_nat (length ?ws) :: 64 word) \<noteq> 0" using b(1) by force
    moreover have "sint (word_of_int ?total :: 64 word) = ?total" using sint_in_range b(3,4) by simp
    moreover have "0 < int (length ?ws)" using b(1) by simp
    ultimately show ?thesis
      using n sint_in_range [of "?total sdiv int (length ?ws)"] sdiv_in_range [OF b(3,4)]
      by (auto simp: average_def)
  qed
  then show ?thesis
    using sum count_rows_column [OF assms] sint_in_range [of ?total]
    by (auto simp: aggregate_value_def average_def Let_def)
qed

theorem aggregates_correct_witness:
  "aggregate_value kCount ''c'' (Some 0) [\<lparr>row_id = 0, row_values = [Int64 7]\<rparr>, \<lparr>row_id = 1, row_values = [Monostate]\<rparr>] = Inr (Int64 1)"
  using aggregates_correct [of 0 "[\<lparr>row_id = 0, row_values = [Int64 7]\<rparr>, \<lparr>row_id = 1, row_values = [Monostate]\<rparr>]" "''c''"]
  by (simp add: int_column_def)

section \<open>Errors\<close>

text \<open>The table that a statement on rows names.\<close>

fun target_table :: "Statement \<Rightarrow> QualifiedName option" where
  "target_table (InsertStmt ins) = Some (insert_table ins)"
| "target_table (UpdateStmt upd) = Some (update_table upd)"
| "target_table (DeleteStmt del) = Some (delete_table del)"
| "target_table (SelectStmt sel) = Some (select_table sel)"
| "target_table (RevertStmt rv) = Some (revert_table rv)"
| "target_table _ = None"

text \<open>
  A statement on a table that cannot be found changes nothing, and its error says why: no database
  is selected, the database does not exist, or the table does not exist in it.
\<close>

theorem missing_table_unchanged:
  assumes "plan_statement plan = Some stmt" "target_table stmt = Some name"
    and "\<forall>d t. has_table eng d (object_name name) t \<longrightarrow> ResolveDatabaseName session (database_name name) \<noteq> Inr d"
  shows "\<exists>e. Execute rx clk plan eng session = ((eng, session), Inl (Err e)) \<and>
    (if database_name name = None \<and> current_database session = [] then code e = kValidationError else code e = kNotFound)"
proof -
  have "\<exists>e. locate_table eng session name = Inl (Err e) \<and>
      (if database_name name = None \<and> current_database session = [] then code e = kValidationError else code e = kNotFound)"
  proof (cases "ResolveDatabaseName session (database_name name)")
    case (Inl f)
    then show ?thesis
      by (auto simp: locate_table_def find_database_def ResolveDatabaseName_def MakeError_def split: option.splits if_splits)
  next
    case (Inr d)
    have "umap_find (tables db) (object_name name) = None" if "umap_find (databases (runtime eng)) d = Some db" for db
      using assms(3) Inr that by (cases "umap_find (tables db) (object_name name)") (auto simp: has_table_def)
    moreover have "\<not> (database_name name = None \<and> current_database session = [])"
      using Inr by (auto simp: ResolveDatabaseName_def)
    ultimately show ?thesis using Inr
      by (cases "umap_find (databases (runtime eng)) d") (auto simp: locate_table_def find_database_def MakeError_def)
  qed
  then obtain e where e: "locate_table eng session name = Inl (Err e)"
    "if database_name name = None \<and> current_database session = [] then code e = kValidationError else code e = kNotFound" by blast
  have "Execute rx clk plan eng session = ((eng, session), Inl (Err e))"
    using assms(1,2) e(1)
    by (cases stmt) (simp_all add: Execute_def ExecuteInsert_def ExecuteUpdate_def ExecuteDelete_def ExecuteSelect_def
        ExecuteRevert_def)
  with e(2) show ?thesis by blast
qed

theorem missing_table_unchanged_witness:
  "\<exists>e. Execute no_regex sample_clock (PlanNode kPlanDelete [] (Some (DeleteStmt \<lparr>delete_table = sample_name, delete_where = None\<rparr>)) [])
      (initial_engine ''db'') sample_session = ((initial_engine ''db'', sample_session), Inl (Err e)) \<and> code e = kNotFound"
  using missing_table_unchanged [of "PlanNode kPlanDelete [] (Some (DeleteStmt \<lparr>delete_table = sample_name, delete_where = None\<rparr>)) []"
      "DeleteStmt \<lparr>delete_table = sample_name, delete_where = None\<rparr>" sample_name "initial_engine ''db''" sample_session no_regex sample_clock]
  by (simp add: has_table_def initial_engine_def umap_find_Nil sample_session_def)

lemma has_table_put_same: "has_table eng d n t \<Longrightarrow> has_table (put_table d n t eng) = has_table eng"
  by (auto simp: fun_eq_iff has_table_put) (auto simp: has_table_def)

text \<open>
  An \<^verbatim>\<open>INSERT\<close> of one row is all or nothing: when it fails, on whatever check, every table and the
  change log are as before.
\<close>

theorem insert_one_atomic:
  assumes "reachable rx clk eng" "admissible (InsertStmt ins) eng session" "insert_rows ins = [row]"
    and "ExecuteInsert clk ins eng session = (eng', Inl e)"
  shows "has_table eng' = has_table eng \<and> versions eng' = versions eng"
proof (cases "locate_table eng session (insert_table ins)")
  case (Inr dt)
  obtain d t where dt: "dt = (d, t)" by (cases dt)
  have inv: "engine_inv eng" using reachable_ok [OF assms(1)] by (simp add: engine_ok_def)
  note loc = locate_table_inv [OF inv Inr [unfolded dt]] and has = locate_has_table [OF inv Inr [unfolded dt]]
  show ?thesis
  proof (cases "input_positions (schema t) (insert_columns ins)")
    case Inl
    with assms(4) Inr dt show ?thesis by (auto simp: ExecuteInsert_def)
  next
    case pos: (Inr positions)
    obtain t1 eng1 r1 where it: "insert_row clk d positions (t, eng) row = ((t1, eng1), r1)"
      by (cases "insert_row clk d positions (t, eng) row") auto
    have "unat (next_row_id (heap t)) < 2 ^ 64 - 1" using assms(2,3) Inr dt by (auto simp: admissible_def)
    then have room: "next_row_id (heap t) \<noteq> kInvalidRowId" by (rule kInvalid_unat)
    have wf: "pool_wf (pool eng)" using inv by (simp add: engine_inv_def)
    have ex: "eng' = put_table d (object_name (insert_table ins)) t1 eng1 \<and> r1 = Inl e"
      using assms(3,4) Inr dt pos it by (cases r1) (auto simp: ExecuteInsert_def message_result_def)
    with insert_row_cases [OF loc(1) wf room it] obtain p where "t1 = t" "eng1 = eng\<lparr>pool := p\<rparr>" by auto
    with ex has have "has_table eng' = has_table (put_table d (object_name (insert_table ins)) t eng)" "versions eng' = versions eng"
      using has_table_put_runtime [of "eng\<lparr>pool := p\<rparr>" eng] by simp_all
    with has_table_put_same [OF has] show ?thesis by simp
  qed
qed (use assms(4) in \<open>auto simp: ExecuteInsert_def\<close>)

lemma sample_insert_fails:
  "\<exists>eng' e. ExecuteInsert sample_clock
      \<lparr>insert_table = sample_name, insert_columns = [''k''], insert_rows = [[LiteralExpression (Str ''a'')]]\<rparr>
      sample_engine sample_session = (eng', Inl e)"
  unfolding sample_engine_def
  by (simp add: sample_defs statement_defs row_defs tree_defs)

lemma sample_insert_admissible:
  "admissible (InsertStmt \<lparr>insert_table = sample_name, insert_columns = cs, insert_rows = [row]\<rparr>) sample_engine sample_session"
  unfolding sample_engine_def
  by (simp add: sample_defs statement_defs row_defs tree_defs)

theorem insert_one_atomic_witness:
  "\<exists>eng' e. ExecuteInsert sample_clock
      \<lparr>insert_table = sample_name, insert_columns = [''k''], insert_rows = [[LiteralExpression (Str ''a'')]]\<rparr>
      sample_engine sample_session = (eng', Inl e) \<and>
    has_table eng' = has_table sample_engine \<and> versions eng' = versions sample_engine"
proof -
  obtain eng' e where "ExecuteInsert sample_clock
      \<lparr>insert_table = sample_name, insert_columns = [''k''], insert_rows = [[LiteralExpression (Str ''a'')]]\<rparr>
      sample_engine sample_session = (eng', Inl e)" using sample_insert_fails by blast
  with insert_one_atomic [OF sample_reachable sample_insert_admissible _ this] show ?thesis by auto
qed

text \<open>
  An \<^verbatim>\<open>INSERT\<close> of several rows is not atomic: when a later row fails, the rows before it stay in the
  table although the statement reports an error.
\<close>

theorem insert_many_not_atomic:
  "\<exists>eng' e t. ExecuteInsert sample_clock
      \<lparr>insert_table = sample_name, insert_columns = [''k''],
       insert_rows = [[LiteralExpression (Str ''c'')], [LiteralExpression (Str ''c'')]]\<rparr>
      sample_engine sample_session = (eng', Inl (Err e)) \<and> code e = kConstraintViolation \<and>
    has_table eng' ''d'' ''t'' t \<and>
    map row_values (ScanAll (heap t)) = [[IStr (Interned 0 ''a'')], [IStr (Interned 1 ''b'')], [IStr (Interned 2 ''c'')]]"
  unfolding sample_engine_def
  by (simp add: sample_defs statement_defs row_defs tree_defs)
    (simp add: has_table_def umap_find_def ScanAll_def numeral_2_eq_2)

section \<open>Tables that were dropped\<close>

definition untyped_column :: "ValueType \<Rightarrow> AstColumn list" where
  "untyped_column ty =
     [\<lparr>ast_name = ''k'', ast_type = ty, ast_not_null = False, ast_indexed = False, ast_default = None\<rparr>]"

definition revert_script :: "Statement list" where
  "revert_script =
     [CreateDatabaseStatement ''d'', CreateTableStatement sample_name (untyped_column kString), sample_insert [''a''],
      DropTableStatement sample_name, CreateTableStatement sample_name (untyped_column kInt64),
      RevertStmt \<lparr>revert_table = sample_name, revert_timestamp = ''2024.01.02-03:04:05.000002'', revert_mode = kAtOrBefore\<rparr>]"

lemma revert_timestamps:
  "GenerateTimestamp (sample_clock (Suc 0)) = ''2024.01.02-03:04:05.000001''"
  "GenerateTimestamp (sample_clock (Suc (Suc 0))) = ''2024.01.02-03:04:05.000002''"
  "GenerateTimestamp (sample_clock (Suc (Suc (Suc 0)))) = ''2024.01.02-03:04:05.000003''"
  "GenerateTimestamp (sample_clock (Suc (Suc (Suc (Suc 0))))) = ''2024.01.02-03:04:05.000004''"
  using sample_timestamps by (simp_all add: eval_nat_numeral)

text \<open>
  \<^verbatim>\<open>REVERT\<close> reads the history of every table that had the name: after \<^verbatim>\<open>DROP TABLE\<close> and a
  \<^verbatim>\<open>CREATE TABLE\<close> with as many columns of other types it installs rows of the dropped table, which do not
  fit the schema. This is why runs ask for names without stored rows.
\<close>

theorem revert_dropped_table:
  "\<exists>t. has_table (fst (run no_regex sample_clock revert_script (initial_engine ''db'', sample_session))) ''d'' ''t'' t \<and>
     ScanAll (heap t) = [\<lparr>row_id = 0, row_values = [IStr (Interned 0 ''a'')]\<rparr>] \<and>
     col_type (columns (schema t) ! 0) = kInt64 \<and> \<not> row_fits (schema t) \<lparr>row_id = 0, row_values = [IStr (Interned 0 ''a'')]\<rparr>"
  by (simp add: sample_defs revert_script_def untyped_column_def statement_defs row_defs tree_defs ExecuteDropTable_def
      umap_erase_def ExecuteRevert_def revert_target_def LatestTimestampAtOrBefore_def later_def revert_timestamps
      timestamp_pattern_def fits_template_def is_digit_def less_eq_char_def less_char_def
      revert_table_to_def ReconstructTableStateAt_def replay_record_def rows_by_id_def ScanAll_def
      revert_added_def RebuildIndexes_def HeapReplaceAll_def has_table_def row_fits_def)

section \<open>Copies\<close>

text \<open>
  The working copy of a transaction holds the same databases, tables and rows as the state it was
  taken from, and passes the consistency check.
\<close>

theorem clone_same_contents:
  assumes "reachable rx clk eng"
  shows "\<exists>st. CloneRuntimeState (runtime eng) = Inr st \<and> same_contents (runtime eng) st \<and>
    ValidateRuntimeIndexConsistency st = MakeSuccess True"
proof -
  have "state_inv (runtime eng)" using reachable_ok [OF assms] by (simp add: engine_ok_def engine_inv_def)
  from CloneRuntimeState_correct [OF this] ValidateRuntimeIndexConsistency_pass show ?thesis by blast
qed

theorem clone_same_contents_witness:
  "\<exists>st. CloneRuntimeState (runtime sample_engine) = Inr st \<and> same_contents (runtime sample_engine) st"
  using clone_same_contents [OF sample_reachable] by blast

section \<open>Storage\<close>

text \<open>
  A row added to a heap with ids left is found under the id it was given, and every other id as
  before; the id is new.
\<close>

lemma heap_insert_lookup:
  assumes "heap_inv h" "next_row_id h \<noteq> kInvalidRowId" "row_id row = kInvalidRowId" "HeapInsert row h = (r, h')"
  shows "heap_inv h' \<and> FindByRowId h r = None \<and>
    FindByRowId h' s = (if s = r then Some (row\<lparr>row_id := r\<rparr>) else FindByRowId h s)"
proof -
  have "FindByRowId h r = None"
  proof (rule ccontr)
    assume "FindByRowId h r \<noteq> None"
    then obtain x where "x \<in> set (heap_rows h)" "row_id x = r" using FindByRowId_iff [OF assms(1)] by blast
    with assms(1) HeapInsert_fresh(1) [OF assms] show False by (auto simp: heap_inv_def rows_below_def)
  qed
  with heap.get_add [OF assms(1) _ assms(3,4), of s] heap.add_inv [OF assms(1) _ assms(3,4)] assms(2) show ?thesis by simp
qed

text \<open>
  Two strings interned one after the other share their storage exactly when they are equal, and
  interning keeps the characters.
\<close>

lemma intern_shares_equal:
  assumes "pool_wf p" "Intern s p = (q, p1)" "Intern s' p1 = (q', p2)"
  shows "(address q = address q' \<longleftrightarrow> s = s') \<and> chars q = s \<and> chars q' = s' \<and> pool_wf p2"
  using pool.intern_shares [OF assms] pool.intern_chars pool.intern_wf assms by blast

text \<open>
  Every event gets a timestamp in the format that \<^verbatim>\<open>REVERT\<close> accepts, for every reading of the clock
  between the years 1000 and 9999.
\<close>

lemma event_timestamp_format:
  assumes "calendar_reading (clk (clock_reads eng))"
  shows "\<exists>r. AllRecords (versions (AppendChangeEvent clk k d n s b a eng)) = AllRecords (versions eng) @ [r] \<and>
    for_table d n r \<and> timestamp_pattern (rec_timestamp r)"
  using GenerateTimestamp_fits [OF assms]
  by (simp add: AppendChangeEvent_def VersionAppend_def AllRecords_def for_table_def)

end
