(* ===== verification/Text_Fields.thy ===== *)
theory Text_Fields
  imports Types
begin

text \<open>
  Text that the program writes and reads back, shared by the write-ahead log, the snapshot files and the wire
  protocol: lines, escaped fields separated by tabs, and numbers.
\<close>

abbreviation newline :: char where "newline \<equiv> CHR 0x0A"
abbreviation tab :: char where "tab \<equiv> CHR 0x09"

lemma backslash_char [simp]: "backslash = CHR 0x5C"
  by (simp add: backslash_def)

section \<open>Lines\<close>

text \<open>The lines that \<^verbatim>\<open>std::getline\<close> reads: the last one may lack its newline.\<close>

function getlines :: "string \<Rightarrow> string list" where
  "getlines [] = []"
| "getlines (c # s) = takeWhile (\<lambda>x. x \<noteq> newline) (c # s) # getlines (drop 1 (dropWhile (\<lambda>x. x \<noteq> newline) (c # s)))"
  by pat_completeness auto
termination
  by (relation "measure length") (auto simp: less_Suc_eq_le intro: le_trans [OF diff_le_self length_dropWhile_le])

lemma getlines_line:
  assumes "newline \<notin> set line"
  shows "getlines (line @ newline # rest) = line # getlines rest"
proof -
  have "takeWhile (\<lambda>x. x \<noteq> newline) (line @ newline # rest) = line"
    "dropWhile (\<lambda>x. x \<noteq> newline) (line @ newline # rest) = newline # rest"
    using assms by (induction line) auto
  then show ?thesis by (cases line) simp_all
qed

text \<open>A text that was written line by line.\<close>

definition unlines :: "string list \<Rightarrow> string" where
  "unlines lines = concat (map (\<lambda>l. l @ [newline]) lines)"

lemma unlines_simps [simp]:
  "unlines [] = []" "unlines (l # ls) = l @ newline # unlines ls" "unlines (ls @ ls') = unlines ls @ unlines ls'"
  by (simp_all add: unlines_def)

lemma getlines_unlines: "\<forall>l \<in> set ls. newline \<notin> set l \<Longrightarrow> getlines (unlines ls @ rest) = ls @ getlines rest"
  by (induction ls) (auto simp: getlines_line)

section \<open>Escaping\<close>

fun Escape :: "string \<Rightarrow> string" where
  "Escape [] = []"
| "Escape (ch # s) =
     (if ch = backslash \<or> ch = tab \<or> ch = newline then backslash # ch # Escape s else ch # Escape s)"

text \<open>The loop of \<^verbatim>\<open>Unescape\<close> with its flag.\<close>

fun unescape :: "bool \<Rightarrow> string \<Rightarrow> string" where
  "unescape escaped [] = []"
| "unescape escaped (ch # s) =
     (if escaped then ch # unescape False s
      else if ch = backslash then unescape True s
      else ch # unescape False s)"

definition Unescape :: "string \<Rightarrow> string" where
  "Unescape s = unescape False s"

lemma Escape_newline [simp]: "newline \<in> set (Escape s) \<longleftrightarrow> newline \<in> set s"
  by (induction s) auto

lemma Unescape_Escape [simp]: "Unescape (Escape s) = s"
  unfolding Unescape_def by (induction s) auto

text \<open>The loop of \<^verbatim>\<open>SplitByTab\<close>: the flag, the field being read and the fields before it.\<close>

fun split_tab :: "bool \<Rightarrow> string \<Rightarrow> string list \<Rightarrow> string \<Rightarrow> string list" where
  "split_tab escaped current parts [] = parts @ [current]"
| "split_tab escaped current parts (ch # s) =
     (if escaped then split_tab False (current @ [ch]) parts s
      else if ch = backslash then split_tab True (current @ [ch]) parts s
      else if ch = tab then split_tab False [] (parts @ [current]) s
      else split_tab False (current @ [ch]) parts s)"

definition SplitByTab :: "string \<Rightarrow> string list" where
  "SplitByTab line = split_tab False [] [] line"

lemma split_tab_not_Nil: "split_tab e current parts s \<noteq> []"
  by (induction e current parts s rule: split_tab.induct) auto

lemma SplitByTab_not_Nil [simp]: "SplitByTab line \<noteq> []"
  by (simp add: SplitByTab_def split_tab_not_Nil)

text \<open>A text that stays in one field: no tab outside of an escape, and no escape left open.\<close>

fun closed_field :: "bool \<Rightarrow> string \<Rightarrow> bool" where
  "closed_field escaped [] = (\<not> escaped)"
| "closed_field escaped (ch # s) =
     (if escaped then closed_field False s
      else if ch = backslash then closed_field True s
      else ch \<noteq> tab \<and> closed_field False s)"

abbreviation field :: "string \<Rightarrow> bool" where "field \<equiv> closed_field False"

lemma closed_field_append [simp]: "closed_field e x \<Longrightarrow> closed_field e (x @ y) = field y"
  by (induction e x rule: closed_field.induct) (auto split: if_splits)

lemma field_Escape [simp]: "field (Escape s)"
  by (induction s) auto

lemma field_plain: "backslash \<notin> set s \<Longrightarrow> tab \<notin> set s \<Longrightarrow> field s"
  by (induction s) auto

lemma split_tab_field:
  "closed_field e x \<Longrightarrow> split_tab e current parts (x @ s) = split_tab False (current @ x) parts s"
  by (induction e x arbitrary: current rule: closed_field.induct) (auto split: if_splits)

text \<open>Fields joined by tabs.\<close>

fun join_tab :: "string list \<Rightarrow> string" where
  "join_tab [] = []"
| "join_tab [x] = x"
| "join_tab (x # y # xs) = x @ tab # join_tab (y # xs)"

lemma split_join:
  "xs \<noteq> [] \<Longrightarrow> \<forall>x \<in> set xs. field x \<Longrightarrow> split_tab False [] parts (join_tab xs) = parts @ xs"
proof (induction xs arbitrary: parts rule: join_tab.induct)
  case (2 x)
  then show ?case using split_tab_field [of False x "[]" parts "[]"] by simp
next
  case (3 x y xs)
  then show ?case using split_tab_field [of False x "[]" parts "tab # join_tab (y # xs)"] by simp
qed simp

lemma SplitByTab_join: "xs \<noteq> [] \<Longrightarrow> \<forall>x \<in> set xs. field x \<Longrightarrow> SplitByTab (join_tab xs) = xs"
  by (simp add: SplitByTab_def split_join)

lemma set_join_tab: "c \<noteq> tab \<Longrightarrow> c \<in> set (join_tab xs) \<longleftrightarrow> (\<exists>x \<in> set xs. c \<in> set x)"
  by (induction xs rule: join_tab.induct) auto

lemma join_tab_Cons: "xs \<noteq> [] \<Longrightarrow> join_tab (x # xs) = x @ tab # join_tab xs"
  by (cases xs) auto

section \<open>Numbers\<close>

text \<open>
  \<^verbatim>\<open>std::stoi\<close>, \<^verbatim>\<open>std::stoll\<close> and \<^verbatim>\<open>std::stoull\<close>: blanks, a sign and decimal digits; the number and how many
  characters were read. \<open>None\<close> is the exception for a text without digits or a number out of range.
\<close>

definition is_space :: "char \<Rightarrow> bool" where
  "is_space c \<longleftrightarrow> c = CHR '' '' \<or> (9 \<le> (of_char c :: nat) \<and> (of_char c :: nat) \<le> 13)"

definition is_digit :: "char \<Rightarrow> bool" where
  "is_digit c \<longleftrightarrow> 48 \<le> (of_char c :: nat) \<and> (of_char c :: nat) \<le> 57"

definition digits_value :: "string \<Rightarrow> nat" where
  "digits_value s = foldl (\<lambda>n c. 10 * n + (of_char c - 48)) 0 s"

definition read_sign :: "string \<Rightarrow> bool \<times> string" where
  "read_sign s =
     (case s of
        [] \<Rightarrow> (False, [])
      | c # r \<Rightarrow> if c = CHR ''-'' then (True, r) else if c = CHR ''+'' then (False, r) else (False, s))"

definition scan_number :: "string \<Rightarrow> (bool \<times> nat \<times> nat) option" where
  "scan_number s =
     (let (negative, r) = read_sign (dropWhile is_space s);
          ds = takeWhile is_digit r
      in if ds = [] then None
         else Some (negative, digits_value ds, length s - length (dropWhile is_digit r)))"

definition scan_signed :: "nat \<Rightarrow> string \<Rightarrow> (int \<times> nat) option" where
  "scan_signed bits s =
     (case scan_number s of
        None \<Rightarrow> None
      | Some (negative, n, consumed) \<Rightarrow>
          (let i = (if negative then - int n else int n)
           in if - (2 ^ (bits - 1)) \<le> i \<and> i < 2 ^ (bits - 1) then Some (i, consumed) else None))"

definition stoi :: "string \<Rightarrow> (int \<times> nat) option" where
  "stoi = scan_signed 32"

definition stoll :: "string \<Rightarrow> (int \<times> nat) option" where
  "stoll = scan_signed 64"

definition stoull :: "string \<Rightarrow> (64 word \<times> nat) option" where
  "stoull s =
     (case scan_number s of
        None \<Rightarrow> None
      | Some (negative, n, consumed) \<Rightarrow>
          (if n < 2 ^ 64 then Some (if negative then - of_nat n else of_nat n, consumed) else None))"

lemma of_char_digit [simp]: "d < 10 \<Longrightarrow> of_char (digit_char d) = 48 + d"
  by (simp add: digit_char_def)

lemma nat_to_string_not_Nil [simp]: "nat_to_string n \<noteq> []"
  by (subst nat_to_string.simps) simp

lemma nat_to_string_all_digits: "c \<in> set (nat_to_string n) \<Longrightarrow> is_digit c"
proof (induction n rule: nat_to_string.induct)
  case (1 n)
  show ?case
  proof (cases "n < 10")
    case True
    with 1 show ?thesis by (subst (asm) nat_to_string.simps) (simp add: is_digit_def)
  next
    case False
    with 1 show ?thesis by (subst (asm) (2) nat_to_string.simps) (auto simp: is_digit_def)
  qed
qed

lemma digits_value_append: "digits_value (s @ [c]) = 10 * digits_value s + (of_char c - 48)"
  by (simp add: digits_value_def)

lemma digits_value_nat [simp]: "digits_value (nat_to_string n) = n"
proof (induction n rule: nat_to_string.induct)
  case (1 n)
  show ?case
  proof (cases "n < 10")
    case True
    then show ?thesis by (subst nat_to_string.simps) (simp add: digits_value_def)
  next
    case False
    with 1 show ?thesis by (subst nat_to_string.simps) (simp add: digits_value_append)
  qed
qed

lemma takeWhile_nat [simp]: "takeWhile is_digit (nat_to_string n) = nat_to_string n"
  using nat_to_string_all_digits by (simp add: takeWhile_eq_all_conv)

lemma dropWhile_nat [simp]: "dropWhile is_digit (nat_to_string n) = []"
  using nat_to_string_all_digits by (simp add: dropWhile_eq_Nil_conv)

lemma digit_not_special: "is_digit c \<Longrightarrow> \<not> is_space c \<and> c \<noteq> CHR ''-'' \<and> c \<noteq> CHR ''+'' \<and> c \<noteq> tab \<and> c \<noteq> newline \<and> c \<noteq> CHR 0x5C"
  by (auto simp: is_digit_def is_space_def)

lemma nat_to_string_plain:
  "CHR 0x5C \<notin> set (nat_to_string n)" "tab \<notin> set (nat_to_string n)" "newline \<notin> set (nat_to_string n)"
  using nat_to_string_all_digits digit_not_special by blast+

lemma nat_to_string_Cons:
  obtains c s where "nat_to_string n = c # s" "is_digit c"
  using nat_to_string_all_digits [of "hd (nat_to_string n)" n] by (cases "nat_to_string n") auto

lemma scan_number_nat [simp]: "scan_number (nat_to_string n) = Some (False, n, length (nat_to_string n))"
proof -
  obtain c s where c: "nat_to_string n = c # s" "is_digit c" by (rule nat_to_string_Cons)
  then have "read_sign (dropWhile is_space (nat_to_string n)) = (False, nat_to_string n)"
    using digit_not_special by (simp add: read_sign_def)
  then show ?thesis by (simp add: scan_number_def)
qed

lemma scan_number_minus [simp]:
  "scan_number (CHR ''-'' # nat_to_string n) = Some (True, n, Suc (length (nat_to_string n)))"
proof -
  have "read_sign (dropWhile is_space (CHR ''-'' # nat_to_string n)) = (True, nat_to_string n)"
    by (simp add: read_sign_def is_space_def)
  then show ?thesis by (simp add: scan_number_def)
qed

lemma scan_signed_int:
  assumes "- (2 ^ (bits - 1)) \<le> i" "i < 2 ^ (bits - 1)"
  shows "scan_signed bits (int_to_string i) = Some (i, length (int_to_string i))"
  using assms by (auto simp: scan_signed_def int_to_string_def)

lemma stoull_nat [simp]: "n < 2 ^ 64 \<Longrightarrow> stoull (nat_to_string n) = Some (of_nat n, length (nat_to_string n))"
  by (simp add: stoull_def)

lemma int_to_string_plain [simp]:
  "CHR 0x5C \<notin> set (int_to_string i)" "tab \<notin> set (int_to_string i)" "newline \<notin> set (int_to_string i)"
  using nat_to_string_plain by (auto simp: int_to_string_def)

end
