(* ===== verification/Wal.thy ===== *)
theory Wal
  imports Text_Fields
begin

text \<open>
  The write-ahead log (\<^verbatim>\<open>src/core/wal_manager.cpp\<close>). The file is its contents, \<open>None\<close> when it does not
  exist. What the disk does with a write is an argument: the file cannot be opened, only a part of
  the text reaches it, or all of it. The functions ask the stream whether it is good before it is flushed, so that a part
  that does not reach the file may go unnoticed: the second argument of \<open>Torn\<close> says whether it was noticed.
\<close>

section \<open>Files\<close>

datatype write_outcome = NotOpened | Torn nat bool | Written

type_synonym wal_file = "string option"

definition file_text :: "wal_file \<Rightarrow> string" where
  "file_text f = (case f of None \<Rightarrow> [] | Some s \<Rightarrow> s)"

text \<open>Opening for appending creates the file.\<close>

fun append_text :: "write_outcome \<Rightarrow> string \<Rightarrow> wal_file \<Rightarrow> wal_file \<times> bool" where
  "append_text NotOpened txt f = (f, False)"
| "append_text (Torn n noticed) txt f = (Some (file_text f @ take n txt), \<not> noticed)"
| "append_text Written txt f = (Some (file_text f @ txt), True)"

fun truncate_text :: "write_outcome \<Rightarrow> string \<Rightarrow> wal_file \<Rightarrow> wal_file \<times> bool" where
  "truncate_text NotOpened txt f = (f, False)"
| "truncate_text (Torn n noticed) txt f = (Some (take n txt), \<not> noticed)"
| "truncate_text Written txt f = (Some txt, True)"

section \<open>The log\<close>

datatype WalEntry = SqlEntry "string list" | TransactionEntry "string list"

definition kHeaderPrefix :: string where
  "kHeaderPrefix = ''WAL'' @ [tab]"

definition kCurrentVersion :: string where
  "kCurrentVersion = ''2''"

definition IsSupportedWalVersion :: "string \<Rightarrow> bool" where
  "IsSupportedWalVersion version \<longleftrightarrow> version = ''1'' \<or> version = ''2''"

definition header_line :: string where
  "header_line = kHeaderPrefix @ kCurrentVersion @ [newline]"

definition header_if_new :: "wal_file \<Rightarrow> string" where
  "header_if_new f = (if file_text f = [] then header_line else [])"

definition sql_line :: "string \<Rightarrow> string" where
  "sql_line sql = ''SQL'' @ [tab] @ Escape sql @ [newline]"

definition transaction_lines :: "string list \<Rightarrow> string" where
  "transaction_lines statements =
     ''TX_BEGIN'' @ [newline] @ concat (map (\<lambda>s. ''TX_SQL'' @ [tab] @ Escape s @ [newline]) statements) @
     ''TX_END'' @ [newline]"

definition AppendSql :: "write_outcome \<Rightarrow> string \<Rightarrow> wal_file \<Rightarrow> wal_file \<times> bool" where
  "AppendSql io sql f = append_text io (header_if_new f @ sql_line sql) f"

definition AppendTransaction :: "write_outcome \<Rightarrow> string list \<Rightarrow> wal_file \<Rightarrow> wal_file \<times> bool" where
  "AppendTransaction io statements f = append_text io (header_if_new f @ transaction_lines statements) f"

definition Reset :: "write_outcome \<Rightarrow> wal_file \<Rightarrow> wal_file \<times> bool" where
  "Reset io f = truncate_text io header_line f"

definition starts_with :: "string \<Rightarrow> string \<Rightarrow> bool" where
  "starts_with line p = (take (length p) line = p)"

text \<open>
  The loop of \<^verbatim>\<open>LoadAll\<close>: the entries read so far, and the statements of the open transaction
  (\<open>None\<close> outside of one). On \<^verbatim>\<open>false\<close> the entries stay as they are.
\<close>

fun load_lines :: "string list \<Rightarrow> WalEntry list \<Rightarrow> string list option \<Rightarrow> WalEntry list \<times> bool" where
  "load_lines [] entries current_tx = (entries, True)"
| "load_lines (line # lines) entries current_tx =
     (if line = [] then load_lines lines entries current_tx
      else if line = ''TX_BEGIN'' then
        (case current_tx of Some ss \<Rightarrow> (entries, False) | None \<Rightarrow> load_lines lines entries (Some []))
      else if line = ''TX_END'' then
        (case current_tx of
           None \<Rightarrow> (entries, False)
         | Some ss \<Rightarrow> load_lines lines (entries @ [TransactionEntry ss]) None)
      else if starts_with line (''SQL'' @ [tab]) then
        (case current_tx of
           Some ss \<Rightarrow> (entries, False)
         | None \<Rightarrow> load_lines lines (entries @ [SqlEntry [Unescape (drop 4 line)]]) None)
      else if starts_with line (''TX_SQL'' @ [tab]) then
        (case current_tx of
           None \<Rightarrow> (entries, False)
         | Some ss \<Rightarrow> load_lines lines entries (Some (ss @ [Unescape (drop 7 line)])))
      else (entries, False))"

definition LoadAll :: "wal_file \<Rightarrow> WalEntry list \<times> bool" where
  "LoadAll f =
     (case f of
        None \<Rightarrow> ([], True)
      | Some s \<Rightarrow>
          (case getlines s of
             [] \<Rightarrow> ([], True)
           | line # lines \<Rightarrow>
               (if \<not> starts_with line kHeaderPrefix then ([], False)
                else if \<not> IsSupportedWalVersion (drop (length kHeaderPrefix) line) then ([], False)
                else load_lines lines [] None)))"

text \<open>
  \<^verbatim>\<open>QuarantineCorrupted\<close>: the renamed copies with their names. Whether the renaming succeeds and the
  time in the new name are arguments.
\<close>

definition QuarantineCorrupted ::
  "bool \<Rightarrow> nat \<Rightarrow> string \<Rightarrow> write_outcome \<Rightarrow> wal_file \<times> (string \<times> string) list \<Rightarrow> (wal_file \<times> (string \<times> string) list) \<times> bool" where
  "QuarantineCorrupted rename_ok now wal_path io dir =
     (case dir of (f, copies) \<Rightarrow>
        (case f of
           None \<Rightarrow> (case Reset io None of (f', b) \<Rightarrow> ((f', copies), b))
         | Some s \<Rightarrow>
             (if \<not> rename_ok then ((f, copies), False)
              else case Reset io None of
                     (f', b) \<Rightarrow> ((f', copies @ [(wal_path @ ''.corrupt.'' @ nat_to_string now, s)]), b))))"

section \<open>Reading what was written\<close>

fun entry_text :: "WalEntry \<Rightarrow> string" where
  "entry_text (SqlEntry ss) = sql_line (hd ss)"
| "entry_text (TransactionEntry ss) = transaction_lines ss"

text \<open>The entries the log holds: one statement, or a transaction, without newlines.\<close>

fun entry_ok :: "WalEntry \<Rightarrow> bool" where
  "entry_ok (SqlEntry ss) \<longleftrightarrow> (\<exists>s. ss = [s] \<and> newline \<notin> set s)"
| "entry_ok (TransactionEntry ss) \<longleftrightarrow> (\<forall>s \<in> set ss. newline \<notin> set s)"

lemma getlines_transaction:
  assumes "\<forall>s \<in> set ss. newline \<notin> set s"
  shows "getlines (concat (map (\<lambda>s. ''TX_SQL'' @ [tab] @ Escape s @ [newline]) ss) @ rest)
    = map (\<lambda>s. ''TX_SQL'' @ [tab] @ Escape s) ss @ getlines rest"
  using assms
proof (induction ss)
  case (Cons s ss)
  have "newline \<notin> set (''TX_SQL'' @ [tab] @ Escape s)" using Cons.prems by (simp add: Escape_newline)
  from getlines_line [OF this] Cons show ?case by simp
qed simp

lemma load_transaction:
  "load_lines (map (\<lambda>s. ''TX_SQL'' @ [tab] @ Escape s) ss @ lines) entries (Some xs) = load_lines lines entries (Some (xs @ ss))"
  by (induction ss arbitrary: xs) (simp_all add: starts_with_def Unescape_Escape)

lemma load_entry:
  assumes "entry_ok e"
  shows "load_lines (getlines (entry_text e @ rest)) entries None = load_lines (getlines rest) (entries @ [e]) None"
proof (cases e)
  case (SqlEntry ss)
  with assms obtain s where s: "ss = [s]" "newline \<notin> set s" by auto
  have "newline \<notin> set (''SQL'' @ [tab] @ Escape s)" using s by (simp add: Escape_newline)
  from getlines_line [OF this, of rest] SqlEntry s show ?thesis
    by (simp add: sql_line_def starts_with_def Unescape_Escape)
next
  case (TransactionEntry ss)
  have "getlines (''TX_BEGIN'' @ newline # r) = ''TX_BEGIN'' # getlines r"
    "getlines (''TX_END'' @ newline # r) = ''TX_END'' # getlines r" for r
    by (rule getlines_line; simp)+
  then have "getlines (entry_text e @ rest) =
      ''TX_BEGIN'' # map (\<lambda>s. ''TX_SQL'' @ [tab] @ Escape s) ss @ ''TX_END'' # getlines rest"
    using TransactionEntry assms getlines_transaction [of ss "''TX_END'' @ newline # rest"]
    by (simp add: transaction_lines_def del: append.simps) simp
  with TransactionEntry show ?thesis using load_transaction [of ss _ entries "[]"] by simp
qed

lemma load_entries:
  "\<forall>e \<in> set es. entry_ok e \<Longrightarrow>
   load_lines (getlines (concat (map entry_text es) @ rest)) entries None = load_lines (getlines rest) (entries @ es) None"
proof (induction es arbitrary: entries)
  case (Cons e es)
  then show ?case using load_entry [of e "concat (map entry_text es) @ rest"] by simp
qed simp

lemma LoadAll_header: "LoadAll (Some (header_line @ rest)) = load_lines (getlines rest) [] None"
proof -
  have "newline \<notin> set (kHeaderPrefix @ kCurrentVersion)" by (simp add: kHeaderPrefix_def kCurrentVersion_def)
  from getlines_line [OF this, of rest] have
    "getlines (header_line @ rest) = (kHeaderPrefix @ kCurrentVersion) # getlines rest" by (simp add: header_line_def)
  then show ?thesis
    by (simp add: LoadAll_def starts_with_def IsSupportedWalVersion_def kCurrentVersion_def)
qed

text \<open>Writing entries one after the other.\<close>

fun append_entry :: "WalEntry \<Rightarrow> wal_file \<Rightarrow> wal_file \<times> bool" where
  "append_entry (SqlEntry ss) f = AppendSql Written (hd ss) f"
| "append_entry (TransactionEntry ss) f = AppendTransaction Written ss f"

definition wal_holds :: "wal_file \<Rightarrow> WalEntry list \<Rightarrow> bool" where
  "wal_holds f es \<longleftrightarrow> (file_text f = [] \<and> es = []) \<or> f = Some (header_line @ concat (map entry_text es))"

lemma wal_holds_append:
  assumes "wal_holds f es"
  shows "wal_holds (fst (append_entry e f)) (es @ [e]) \<and> snd (append_entry e f)"
proof -
  have "file_text f @ header_if_new f @ entry_text e = header_line @ concat (map entry_text (es @ [e]))"
    using assms by (auto simp: wal_holds_def header_if_new_def file_text_def header_line_def)
  then show ?thesis by (cases e) (auto simp: wal_holds_def AppendSql_def AppendTransaction_def)
qed

lemma wal_holds_load: "wal_holds f es \<Longrightarrow> \<forall>e \<in> set es. entry_ok e \<Longrightarrow> LoadAll f = (es, True)"
  using load_entries [of es "[]" "[]"] LoadAll_header [of "concat (map entry_text es)"]
  by (auto simp: wal_holds_def LoadAll_def file_text_def split: option.splits)

section \<open>The interface\<close>

text \<open>What recovery relies on: a log returns the entries that were added to it, in order.\<close>

locale statement_log =
  fixes add :: "'e \<Rightarrow> 'f \<Rightarrow> 'f \<times> bool"
    and load :: "'f \<Rightarrow> 'e list \<times> bool"
    and holds :: "'f \<Rightarrow> 'e list \<Rightarrow> bool"
    and plain :: "'e \<Rightarrow> bool"
  assumes add_holds: "holds f es \<Longrightarrow> holds (fst (add e f)) (es @ [e]) \<and> snd (add e f)"
    and load_holds: "holds f es \<Longrightarrow> \<forall>e \<in> set es. plain e \<Longrightarrow> load f = (es, True)"
begin

lemma fold_holds: "holds f es \<Longrightarrow> holds (fold (\<lambda>e f. fst (add e f)) es' f) (es @ es')"
proof (induction es' arbitrary: f es)
  case (Cons e es')
  from Cons.IH [OF add_holds [OF Cons.prems, THEN conjunct1]] show ?case by simp
qed simp

lemma load_added:
  "holds f [] \<Longrightarrow> \<forall>e \<in> set es. plain e \<Longrightarrow> load (fold (\<lambda>e f. fst (add e f)) es f) = (es, True)"
  using fold_holds [of f "[]" es] load_holds by auto

end

interpretation wal_log: statement_log append_entry LoadAll wal_holds entry_ok
  by unfold_locales (use wal_holds_append wal_holds_load in blast)+

section \<open>Properties\<close>

text \<open>
  C25. Unescaping undoes escaping, and a log that entries without newlines were appended to is read
  back exactly: every statement and every transaction, in order.
\<close>

theorem wal_roundtrip:
  assumes "\<forall>e \<in> set es. entry_ok e"
  shows "LoadAll (fold (\<lambda>e f. fst (append_entry e f)) es None) = (es, True) \<and> (\<forall>s. Unescape (Escape s) = s)"
  using wal_log.load_added [of None es] assms Unescape_Escape by (simp add: wal_holds_def file_text_def)

theorem wal_roundtrip_witness:
  "LoadAll (fold (\<lambda>e f. fst (append_entry e f)) [SqlEntry [''A'' @ [tab]], TransactionEntry [''B'', ''C'']] None)
    = ([SqlEntry [''A'' @ [tab]], TransactionEntry [''B'', ''C'']], True)"
  using wal_roundtrip [of "[SqlEntry [''A'' @ [tab]], TransactionEntry [''B'', ''C'']]"] by simp

text \<open>
  A transaction that was cut off at the end of one of its lines, before \<^verbatim>\<open>TX_END\<close>, is not there when
  the log is read, and everything before it is.
\<close>

theorem wal_incomplete_transaction:
  assumes "\<forall>e \<in> set es. entry_ok e" "\<forall>s \<in> set ss. newline \<notin> set s"
  shows "LoadAll (Some (header_line @ concat (map entry_text es) @ ''TX_BEGIN'' @ [newline] @
      concat (map (\<lambda>s. ''TX_SQL'' @ [tab] @ Escape s @ [newline]) ss))) = (es, True)"
proof -
  let ?tx = "concat (map (\<lambda>s. ''TX_SQL'' @ [tab] @ Escape s @ [newline]) ss)"
  have "getlines (''TX_BEGIN'' @ newline # ?tx) = ''TX_BEGIN'' # getlines ?tx" by (rule getlines_line) simp
  moreover have "getlines ?tx = map (\<lambda>s. ''TX_SQL'' @ [tab] @ Escape s) ss"
    using getlines_transaction [OF assms(2), of "[]"] by simp
  ultimately have "load_lines (getlines (''TX_BEGIN'' @ newline # ?tx)) es None = (es, True)"
    using load_transaction [of ss "[]" es "[]"] by simp
  with load_entries [OF assms(1), of "''TX_BEGIN'' @ newline # ?tx" "[]"] LoadAll_header show ?thesis by simp
qed

theorem wal_incomplete_transaction_witness:
  "LoadAll (Some (header_line @ sql_line ''A'' @ ''TX_BEGIN'' @ [newline] @ ''TX_SQL'' @ [tab] @ ''B'' @ [newline])) = ([SqlEntry [''A'']], True)"
  using wal_incomplete_transaction [of "[SqlEntry [''A'']]" "[''B'']"] by simp

text \<open>
  A statement with a newline is written over two lines, since \<^verbatim>\<open>Escape\<close> keeps the newline itself:
  the log it was appended to is rejected as corrupt, together with every entry before it.
\<close>

theorem wal_newline_corrupts:
  "snd (append_entry (SqlEntry [''A'' @ [newline] @ ''B'']) (Some (header_line @ sql_line ''X''))) \<and>
   \<not> snd (LoadAll (fst (append_entry (SqlEntry [''A'' @ [newline] @ ''B'']) (Some (header_line @ sql_line ''X'')))))"
  by (simp add: AppendSql_def header_if_new_def file_text_def sql_line_def LoadAll_header starts_with_def)

text \<open>
  A write that stops in the middle of a line makes the whole log unreadable, so that the entries
  before it are set aside with it, although an incomplete transaction is meant to be discarded.
\<close>

theorem wal_torn_line_rejected:
  "\<not> snd (LoadAll (fst (AppendTransaction (Torn 5 True) [''B''] (Some (header_line @ sql_line ''A'')))))"
  by (simp add: AppendTransaction_def header_if_new_def file_text_def transaction_lines_def LoadAll_header
      sql_line_def starts_with_def)

end
