(* ===== verification/Persistence.thy ===== *)
theory Persistence
  imports Runtime_State Version_Store Text_Fields
begin

text \<open>
  Snapshot files (\<^verbatim>\<open>src/core/runtime_persistence.cpp\<close>): the runtime state and the version history as text, one record per
  line. A file is its text, \<open>None\<close> when it does not exist; whether the disk accepts a write, a removal and a renaming
  are arguments.
\<close>

section \<open>Fields\<close>

definition kFormatTag :: string where "kFormatTag = ''FORMAT''"
definition kFormatVersion :: string where "kFormatVersion = ''3''"

definition IsSupportedFormatVersion :: "string \<Rightarrow> bool" where
  "IsSupportedFormatVersion version \<longleftrightarrow> version = ''3''"

definition ParseKeyValueToken :: "string \<Rightarrow> (string \<times> string) option" where
  "ParseKeyValueToken token =
     (let key = takeWhile (\<lambda>c. c \<noteq> CHR ''='') token
      in if length key = length token \<or> key = [] then None
         else Some (key, drop (length key + 1) token))"

fun find_field :: "string list \<Rightarrow> string \<Rightarrow> string option" where
  "find_field [] field_name = None"
| "find_field (part # parts) field_name =
     (case ParseKeyValueToken part of
        None \<Rightarrow> find_field parts field_name
      | Some (key, value) \<Rightarrow> if key = field_name then Some value else find_field parts field_name)"

definition FindFieldValue :: "string list \<Rightarrow> string \<Rightarrow> string option" where
  "FindFieldValue parts field_name = find_field (drop 1 parts) field_name"

fun ValueTypeName :: "ValueType \<Rightarrow> string" where
  "ValueTypeName kNull = ''NULL''"
| "ValueTypeName kInt64 = ''INT''"
| "ValueTypeName kString = ''STRING''"

fun ConstraintName :: "ColumnConstraint \<Rightarrow> string" where
  "ConstraintName kNone = ''NONE''"
| "ConstraintName kNotNull = ''NOT_NULL''"
| "ConstraintName kIndexed = ''INDEXED''"

fun ChangeKindName :: "ChangeKind \<Rightarrow> string" where
  "ChangeKindName kCreateDatabase = ''CREATE_DATABASE''"
| "ChangeKindName kDropDatabase = ''DROP_DATABASE''"
| "ChangeKindName kCreateTable = ''CREATE_TABLE''"
| "ChangeKindName kDropTable = ''DROP_TABLE''"
| "ChangeKindName kInsertRow = ''INSERT_ROW''"
| "ChangeKindName kUpdateRow = ''UPDATE_ROW''"
| "ChangeKindName kDeleteRow = ''DELETE_ROW''"

definition ParseChangeKind :: "string \<Rightarrow> ChangeKind option" where
  "ParseChangeKind value =
     (if value = ''CREATE_DATABASE'' then Some kCreateDatabase
      else if value = ''DROP_DATABASE'' then Some kDropDatabase
      else if value = ''CREATE_TABLE'' then Some kCreateTable
      else if value = ''DROP_TABLE'' then Some kDropTable
      else if value = ''INSERT_ROW'' then Some kInsertRow
      else if value = ''UPDATE_ROW'' then Some kUpdateRow
      else if value = ''DELETE_ROW'' then Some kDeleteRow
      else None)"

text \<open>The names of types and constraints in a column record; \<open>None\<close> is \<^verbatim>\<open>return false\<close>.\<close>

definition ParseValueType :: "string \<Rightarrow> ValueType option" where
  "ParseValueType s =
     (if s = ''INT'' then Some kInt64 else if s = ''STRING'' then Some kString
      else if s = ''NULL'' then Some kNull else None)"

definition ParseConstraint :: "string \<Rightarrow> ColumnConstraint option" where
  "ParseConstraint s =
     (if s = ''NONE'' then Some kNone else if s = ''NOT_NULL'' then Some kNotNull
      else if s = ''INDEXED'' then Some kIndexed else None)"

definition persistence_Escape :: "string \<Rightarrow> string" where
  "persistence_Escape s = Escape s"

definition persistence_Unescape :: "string \<Rightarrow> string" where
  "persistence_Unescape s = unescape False s"

definition persistence_SplitByTab :: "string \<Rightarrow> string list" where
  "persistence_SplitByTab line = split_tab False [] [] line"

fun EncodeValue :: "Value \<Rightarrow> string" where
  "EncodeValue Monostate = ''Null''"
| "EncodeValue (Int64 w) = ''Int:'' @ int_to_string (sint w)"
| "EncodeValue (Str s) = ''String:'' @ persistence_Escape s"
| "EncodeValue (IStr p) = ''String:'' @ persistence_Escape (chars p)"

definition ParseInteger :: "string \<Rightarrow> int option" where
  "ParseInteger raw =
     (case stoi raw of
        None \<Rightarrow> None
      | Some (parsed, consumed) \<Rightarrow> if consumed \<noteq> length raw then None else Some parsed)"

definition has_prefix :: "string \<Rightarrow> string \<Rightarrow> bool" where
  "has_prefix p s \<longleftrightarrow> take (length p) s = p"

definition TryDecodeValue :: "string \<Rightarrow> Value option" where
  "TryDecodeValue encoded =
     (if encoded = ''N'' \<or> encoded = ''Null'' then Some Monostate
      else if has_prefix ''I:'' encoded \<or> has_prefix ''Int:'' encoded then
        (let prefix_len = (if has_prefix ''Int:'' encoded then 4 else 2)
         in case stoll (drop prefix_len encoded) of
              None \<Rightarrow> None
            | Some (parsed, consumed) \<Rightarrow>
                (if consumed \<noteq> length encoded - prefix_len then None else Some (Int64 (word_of_int parsed))))
      else if has_prefix ''S:'' encoded \<or> has_prefix ''String:'' encoded then
        (let prefix_len = (if has_prefix ''String:'' encoded then 7 else 2)
         in Some (Str (persistence_Unescape (drop prefix_len encoded))))
      else None)"

definition EncodeIndexKeyForType :: "Value \<Rightarrow> ValueType \<Rightarrow> string Result" where
  "EncodeIndexKeyForType v t =
     (if IsNull v then Inr ''N''
      else if t = kInt64 then
        (case v of
           Int64 w \<Rightarrow> Inr (CHR ''I'' # hex_fixed 16 (unat (w XOR push_bit 63 1)))
         | _ \<Rightarrow> Inl (Thrown BadVariantAccess))
      else bind_result (AsString v) (\<lambda>s. Inr (CHR ''S'' # s)))"

section \<open>Writing\<close>

text \<open>The text \<^verbatim>\<open>\t\<close> of the comment lines is a backslash and a letter.\<close>

abbreviation bt :: "string \<Rightarrow> string" where "bt s \<equiv> CHR 0x5C # CHR ''t'' # s"

definition state_header :: "string list" where
  "state_header =
     [kFormatTag @ [tab] @ kFormatVersion,
      ''# Runtime state dump (human-readable)'',
      ''# Records:'',
      ''# DATABASE'' @ bt ''name=<db>'',
      ''# TABLE'' @ bt ''db=<db>'' @ bt ''name=<table>'',
      ''# COLUMN'' @ bt ''db=<db>'' @ bt ''table=<table>'' @ bt ''name=<column>'' @ bt ''type=<INT|STRING|NULL>'' @
        bt ''constraint=<NONE|NOT_NULL|INDEXED>'' @ bt ''default=<value>'',
      ''# ROW'' @ bt ''db=<db>'' @ bt ''table=<table>'' @ bt ''row_id=<id>'' @ bt ''value=<...>'' @ bt ''value=<...>'']"

text \<open>The fields of a column that a table record and a schema record share.\<close>

definition column_fields :: "ColumnDefinition \<Rightarrow> string list" where
  "column_fields c =
     [''name='' @ persistence_Escape (col_name c), ''type='' @ ValueTypeName (col_type c),
      ''constraint='' @ ConstraintName (col_constraint c),
      ''default='' @ (case col_default c of Some v \<Rightarrow> EncodeValue v | None \<Rightarrow> ''Null'')]"

definition row_fields :: "RowData \<Rightarrow> string list" where
  "row_fields row =
     (''row_id='' @ nat_to_string (unat (row_id row))) # map (\<lambda>v. ''value='' @ EncodeValue v) (row_values row)"

definition table_lines :: "string \<Rightarrow> string \<times> TableRuntime \<Rightarrow> string list" where
  "table_lines d entry =
     (case entry of (n, t) \<Rightarrow>
        (let db = persistence_Escape d; table = persistence_Escape n
         in [''# Database: '' @ db, ''# Table: '' @ table, join_tab [''TABLE'', ''db='' @ db, ''name='' @ table]] @
            map (\<lambda>c. join_tab ([''COLUMN'', ''db='' @ db, ''table='' @ table] @ column_fields c)) (columns (schema t)) @
            map (\<lambda>row. join_tab ([''ROW'', ''db='' @ db, ''table='' @ table] @ row_fields row)) (ScanAll (heap t)) @
            [[]]))"

definition database_lines :: "string \<times> DatabaseRuntime \<Rightarrow> string list" where
  "database_lines entry =
     (case entry of (d, db) \<Rightarrow>
        join_tab [''DATABASE'', ''name='' @ persistence_Escape d] # concat (map (table_lines d) (tables db)))"

definition state_text :: "RuntimeState \<Rightarrow> string" where
  "state_text st = unlines (state_header @ concat (map database_lines (databases st)))"

definition history_header :: "string list" where
  "history_header =
     [kFormatTag @ [tab] @ kFormatVersion,
      ''# Version history dump (event-based)'',
      ''# Records:'',
      ''# EVENT'' @ bt ''kind=<kind>'' @ bt ''db=<db>'' @ bt ''table=<table>'' @ bt ''timestamp=<ts>'' @ bt ''row_id=<id>'',
      ''# SCHEMA_COLUMN'' @ bt ''name=<column>'' @ bt ''type=<type>'' @ bt ''constraint=<constraint>'' @ bt ''default=<value>'',
      ''# BEFORE'' @ bt ''value=<...>'' @ bt ''value=<...>'',
      ''# AFTER'' @ bt ''value=<...>'' @ bt ''value=<...>'',
      ''# EVENT_END'']"

definition record_lines :: "ChangeRecord \<Rightarrow> string list" where
  "record_lines r =
     [join_tab [''EVENT'', ''kind='' @ ChangeKindName (rec_kind r), ''db='' @ persistence_Escape (rec_database r),
        ''table='' @ persistence_Escape (rec_table r), ''timestamp='' @ persistence_Escape (rec_timestamp r),
        ''row_id='' @ nat_to_string (unat (rec_row_id r))]] @
     (case rec_schema r of
        None \<Rightarrow> []
      | Some s \<Rightarrow> map (\<lambda>c. join_tab (''SCHEMA_COLUMN'' # column_fields c)) (columns s)) @
     (case before_row r of None \<Rightarrow> [] | Some row \<Rightarrow> [join_tab (''BEFORE'' # row_fields row)]) @
     (case after_row r of None \<Rightarrow> [] | Some row \<Rightarrow> [join_tab (''AFTER'' # row_fields row)]) @
     [''EVENT_END'', []]"

definition history_text :: "VersionStore \<Rightarrow> string" where
  "history_text vs = unlines (history_header @ concat (map record_lines (AllRecords vs)))"

text \<open>A file is written under a temporary name, the old one removed and the new one renamed.\<close>

record file_outcome =
  write_ok :: bool
  remove_ok :: bool
  rename_ok :: bool

type_synonym snapshot = "string option \<times> string option"

definition replace_file :: "file_outcome \<Rightarrow> string \<Rightarrow> string option \<Rightarrow> string option \<times> bool" where
  "replace_file io txt f =
     (if \<not> write_ok io then (f, False)
      else let removed = (if remove_ok io then None else f)
           in if \<not> rename_ok io then (removed, False) else (Some txt, True))"

definition Save :: "file_outcome \<Rightarrow> file_outcome \<Rightarrow> RuntimeState \<Rightarrow> VersionStore \<Rightarrow> snapshot \<Rightarrow> snapshot \<times> bool" where
  "Save io_state io_history st vs files =
     (case files of (state_file, history_file) \<Rightarrow>
        (case replace_file io_state (state_text st) state_file of
           (state_file', False) \<Rightarrow> ((state_file', history_file), False)
         | (state_file', True) \<Rightarrow>
             (case replace_file io_history (history_text vs) history_file of
                (history_file', b) \<Rightarrow> ((state_file', history_file'), b))))"

section \<open>Reading\<close>

text \<open>
  A step of a reading loop gives the new state and \<open>Inr True\<close> to go on, \<open>Inr False\<close> for \<^verbatim>\<open>return false\<close>, or the
  exception that leaves \<^verbatim>\<open>Load\<close>.
\<close>

fun read_lines :: "('s \<Rightarrow> string \<Rightarrow> 's \<times> bool Result) \<Rightarrow> string list \<Rightarrow> 's \<Rightarrow> 's \<times> bool Result" where
  "read_lines f [] s = (s, Inr True)"
| "read_lines f (line # lines) s =
     (case f s line of
        (s', Inr True) \<Rightarrow> read_lines f lines s'
      | (s', r) \<Rightarrow> (s', r))"

text \<open>What both loops do with a line: skip blanks and comments, look at the format once, then read the record.\<close>

definition read_line :: "('s \<Rightarrow> string list \<Rightarrow> 's \<times> bool Result) \<Rightarrow> 's \<times> bool \<Rightarrow> string \<Rightarrow> ('s \<times> bool) \<times> bool Result" where
  "read_line read_record state line =
     (case state of (s, format_checked) \<Rightarrow>
        if line = [] \<or> hd line = CHR ''#'' then (state, Inr True)
        else let parts = persistence_SplitByTab line in
             if \<not> format_checked \<and> hd parts = kFormatTag
             then ((s, True), Inr (length parts = 2 \<and> IsSupportedFormatVersion (parts ! 1)))
             else (case read_record s parts of (s', r) \<Rightarrow> ((s', True), r)))"

definition empty_database :: "string \<Rightarrow> DatabaseRuntime" where
  "empty_database name = \<lparr>db_name = name, tables = []\<rparr>"

definition add_database :: "string \<Rightarrow> RuntimeState \<Rightarrow> RuntimeState" where
  "add_database name st = st\<lparr>databases := umap_emplace name (empty_database name) (databases st)\<rparr>"

definition find_table :: "RuntimeState \<Rightarrow> string \<Rightarrow> string \<Rightarrow> TableRuntime option" where
  "find_table st d n =
     (case umap_find (databases st) d of None \<Rightarrow> None | Some db \<Rightarrow> umap_find (tables db) n)"

definition change_database :: "string \<Rightarrow> (DatabaseRuntime \<Rightarrow> DatabaseRuntime) \<Rightarrow> RuntimeState \<Rightarrow> RuntimeState" where
  "change_database d f st =
     (case umap_find (databases st) d of
        None \<Rightarrow> st
      | Some db \<Rightarrow> st\<lparr>databases := umap_assign d (f db) (databases st)\<rparr>)"

definition set_table :: "string \<Rightarrow> string \<Rightarrow> TableRuntime \<Rightarrow> RuntimeState \<Rightarrow> RuntimeState" where
  "set_table d n t = change_database d (\<lambda>db. db\<lparr>tables := umap_assign n t (tables db)\<rparr>)"

text \<open>The first two names of a record: named fields, or the second and third part of an older file.\<close>

definition record_names :: "string \<Rightarrow> string list \<Rightarrow> (string \<times> string \<times> bool) option" where
  "record_names table_field parts =
     (case (FindFieldValue parts ''db'', FindFieldValue parts table_field) of
        (Some d, Some n) \<Rightarrow> Some (persistence_Unescape d, persistence_Unescape n, True)
      | _ \<Rightarrow>
          (if 3 \<le> length parts then Some (persistence_Unescape (parts ! 1), persistence_Unescape (parts ! 2), False)
           else None))"

definition empty_table :: "string \<Rightarrow> string \<Rightarrow> TableRuntime" where
  "empty_table d n =
     (let s = \<lparr>schema_database = d, schema_table = n, columns = [], schema_indexes = []\<rparr>
      in \<lparr>schema = s, heap = make_heap s, indexes = []\<rparr>)"

definition read_table :: "RuntimeState \<Rightarrow> string list \<Rightarrow> RuntimeState \<times> bool Result" where
  "read_table st parts =
     (case record_names ''name'' parts of
        None \<Rightarrow> (st, Inr False)
      | Some (d, n, _) \<Rightarrow>
          (change_database d (\<lambda>db. db\<lparr>tables := umap_emplace n (empty_table d n) (tables db)\<rparr>) (add_database d st), Inr True))"

text \<open>
  The column of a record with named fields. A default of \<^verbatim>\<open>NULL\<close> means that there is none.
\<close>

definition named_column :: "string list \<Rightarrow> ColumnDefinition option option" where
  "named_column parts =
     (case (FindFieldValue parts ''name'', FindFieldValue parts ''type'', FindFieldValue parts ''constraint'',
            FindFieldValue parts ''default'') of
        (Some name, Some ty, Some constraint, Some dflt) \<Rightarrow>
          Some (case (ParseValueType ty, ParseConstraint constraint, TryDecodeValue dflt) of
                  (Some t, Some c, Some v) \<Rightarrow>
                    Some \<lparr>col_name = persistence_Unescape name, col_type = t, col_constraint = c,
                          col_default = (if v = Monostate then None else Some v)\<rparr>
                | _ \<Rightarrow> None)
      | _ \<Rightarrow> None)"

text \<open>\<^verbatim>\<open>static_cast\<close> of a number to an enumeration; a number that names no constant has no value in the model.\<close>

definition ValueType_of_int :: "int \<Rightarrow> ValueType Result" where
  "ValueType_of_int i =
     (if i = 0 then Inr kNull else if i = 1 then Inr kInt64 else if i = 2 then Inr kString
      else Inl (Thrown UndefinedBehaviour))"

definition ColumnConstraint_of_int :: "int \<Rightarrow> ColumnConstraint Result" where
  "ColumnConstraint_of_int i =
     (if i = 0 then Inr kNone else if i = 1 then Inr kNotNull else if i = 2 then Inr kIndexed
      else Inl (Thrown UndefinedBehaviour))"

text \<open>The column of an older file, by positions; \<open>Inr None\<close> is \<^verbatim>\<open>return false\<close>.\<close>

definition positional_column :: "string list \<Rightarrow> ColumnDefinition option Result" where
  "positional_column parts =
     (case (ParseInteger (parts ! 4), ParseInteger (parts ! 5)) of
        (Some ty, Some constraint) \<Rightarrow>
          (case (if parts ! 6 = ''1'' then map_option Some (TryDecodeValue (parts ! 7)) else Some None) of
             None \<Rightarrow> Inr None
           | Some dflt \<Rightarrow>
               bind_result (ValueType_of_int ty) (\<lambda>t. bind_result (ColumnConstraint_of_int constraint) (\<lambda>c.
                 Inr (Some \<lparr>col_name = persistence_Unescape (parts ! 3), col_type = t, col_constraint = c,
                            col_default = dflt\<rparr>))))
      | _ \<Rightarrow> Inr None)"

definition add_column :: "string \<Rightarrow> ColumnDefinition \<Rightarrow> TableRuntime \<Rightarrow> TableRuntime" where
  "add_column table_name c t =
     (let s1 = (schema t)\<lparr>columns := columns (schema t) @ [c]\<rparr>;
          indexed = (col_constraint c = kIndexed);
          s2 = (if indexed
                then s1\<lparr>schema_indexes := schema_indexes s1 @
                  [\<lparr>index_name = ''idx_'' @ table_name @ ''_'' @ col_name c, index_column = col_name c,
                    index_unique = True, is_primary_access_path = True\<rparr>]\<rparr>
                else s1)
      in t\<lparr>schema := s2,
           indexes := (if indexed then umap_emplace (col_name c) (make_tree default_max_keys) (indexes t) else indexes t),
           heap := make_heap s2\<rparr>)"

definition read_column :: "RuntimeState \<Rightarrow> string list \<Rightarrow> RuntimeState \<times> bool Result" where
  "read_column st parts =
     (let place =
        (case (FindFieldValue parts ''db'', FindFieldValue parts ''table'', named_column parts) of
           (Some d, Some n, Some column) \<Rightarrow>
             Inr (map_option (\<lambda>c. (persistence_Unescape d, persistence_Unescape n, c)) column)
         | _ \<Rightarrow>
             (if 8 \<le> length parts
              then bind_result (positional_column parts) (\<lambda>column.
                     Inr (map_option (\<lambda>c. (persistence_Unescape (parts ! 1), persistence_Unescape (parts ! 2), c)) column))
              else Inr None))
      in case place of
           Inl e \<Rightarrow> (st, Inl e)
         | Inr None \<Rightarrow> (st, Inr False)
         | Inr (Some (d, n, c)) \<Rightarrow>
             (case find_table st d n of
                None \<Rightarrow> (st, Inr True)
              | Some t \<Rightarrow> (set_table d n (add_column n c t) st, Inr True)))"

text \<open>A decoded value as it is kept: strings are interned.\<close>

definition intern_value :: "Value \<Rightarrow> StringPool \<Rightarrow> Value \<times> StringPool" where
  "intern_value v p = (case v of Str s \<Rightarrow> (case Intern s p of (q, p') \<Rightarrow> (IStr q, p')) | _ \<Rightarrow> (v, p))"

text \<open>
  The values of a row. \<open>pick\<close> gives the encoded value of a part, \<open>None\<close> where the part is skipped. The flag is
  \<^verbatim>\<open>false\<close> when a value cannot be decoded.
\<close>

fun read_values :: "(string \<Rightarrow> string option) \<Rightarrow> string list \<Rightarrow> StringPool \<Rightarrow> Value list \<times> StringPool \<times> bool" where
  "read_values pick [] p = ([], p, True)"
| "read_values pick (part # parts) p =
     (case pick part of
        None \<Rightarrow> read_values pick parts p
      | Some encoded \<Rightarrow>
          (case TryDecodeValue encoded of
             None \<Rightarrow> ([], p, False)
           | Some v \<Rightarrow>
               (case intern_value v p of
                  (w, p1) \<Rightarrow>
                    (case read_values pick parts p1 of (ws, p2, b) \<Rightarrow> (w # ws, p2, b)))))"

definition named_value :: "string \<Rightarrow> string option" where
  "named_value part =
     (case ParseKeyValueToken part of
        None \<Rightarrow> None
      | Some (key, value) \<Rightarrow> if key = ''value'' then Some value else None)"

text \<open>\<^verbatim>\<open>row_id\<close> of a record, \<open>None\<close> when it is not a number.\<close>

definition read_row_id :: "string list \<Rightarrow> RowId option" where
  "read_row_id parts =
     (case FindFieldValue parts ''row_id'' of
        None \<Rightarrow> Some kInvalidRowId
      | Some s \<Rightarrow> map_option fst (stoull s))"

definition add_to_index :: "TableSchema \<Rightarrow> RowData \<Rightarrow> RowId \<Rightarrow> string \<times> BStarPlusTree \<Rightarrow> (string \<times> BStarPlusTree) Result" where
  "add_to_index s row rid entry =
     (case entry of (column_name, index_tree) \<Rightarrow>
        (case find_column column_name (columns s) 0 of
           None \<Rightarrow> Inr entry
         | Some i \<Rightarrow>
             bind_result (row_value row i) (\<lambda>v.
               bind_result (EncodeIndexKeyForType v (col_type (columns s ! i))) (\<lambda>key.
                 bind_result (Insert index_tree key rid) (\<lambda>tree. Inr (column_name, tree))))))"

definition add_row :: "RowData \<Rightarrow> TableRuntime \<Rightarrow> TableRuntime Result" where
  "add_row row t =
     (case HeapInsert row (heap t) of
        (rid, h) \<Rightarrow>
          bind_result (mapM (add_to_index (schema t) row rid) (indexes t)) (\<lambda>trees.
            Inr (t\<lparr>heap := h, indexes := trees\<rparr>)))"

definition read_row :: "RuntimeState \<Rightarrow> StringPool \<Rightarrow> string list \<Rightarrow> (RuntimeState \<times> StringPool) \<times> bool Result" where
  "read_row st p parts =
     (case record_names ''table'' parts of
        None \<Rightarrow> ((st, p), Inr False)
      | Some (d, n, named) \<Rightarrow>
          (case find_table st d n of
             None \<Rightarrow> ((st, p), Inr True)
           | Some t \<Rightarrow>
               (case read_row_id parts of
                  None \<Rightarrow> ((st, p), Inr False)
                | Some rid \<Rightarrow>
                    (case read_values (if named then named_value else Some) (if named then parts else drop 3 parts) p of
                       (vs, p', b) \<Rightarrow>
                         (if \<not> b \<or> length vs \<noteq> length (columns (schema t)) then ((st, p'), Inr False)
                          else case add_row \<lparr>row_id = rid, row_values = vs\<rparr> t of
                                 Inl e \<Rightarrow> ((st, p'), Inl e)
                               | Inr t' \<Rightarrow> ((set_table d n t' st, p'), Inr True))))))"

definition read_state_record :: "RuntimeState \<times> StringPool \<Rightarrow> string list \<Rightarrow> (RuntimeState \<times> StringPool) \<times> bool Result" where
  "read_state_record s parts =
     (case s of (st, p) \<Rightarrow>
        (let tag = hd parts in
         if tag = ''DATABASE'' then
           (case FindFieldValue parts ''name'' of
              None \<Rightarrow> (s, Inr False)
            | Some name \<Rightarrow> ((add_database (persistence_Unescape name) st, p), Inr True))
         else if tag = ''DB'' \<and> 2 \<le> length parts then
           ((add_database (persistence_Unescape (parts ! 1)) st, p), Inr True)
         else if tag = ''TABLE'' then (case read_table st parts of (st', r) \<Rightarrow> ((st', p), r))
         else if tag = ''COLUMN'' then (case read_column st parts of (st', r) \<Rightarrow> ((st', p), r))
         else if tag = ''ROW'' then read_row st p parts
         else (s, Inr True)))"

text \<open>The history: the record that is being read, the records before it, and the pool.\<close>

type_synonym history_reader = "ChangeRecord option \<times> ChangeRecord list \<times> StringPool"

definition read_event :: "string list \<Rightarrow> ChangeRecord option" where
  "read_event parts =
     (case (FindFieldValue parts ''kind'', FindFieldValue parts ''db'', FindFieldValue parts ''table'',
            FindFieldValue parts ''timestamp'') of
        (Some kind, Some d, Some n, Some ts) \<Rightarrow>
          (case (ParseChangeKind kind, read_row_id parts) of
             (Some k, Some rid) \<Rightarrow>
               Some \<lparr>rec_kind = k, rec_database = persistence_Unescape d, rec_table = persistence_Unescape n,
                     rec_timestamp = persistence_Unescape ts, rec_row_id = rid, rec_schema = None,
                     before_row = None, after_row = None\<rparr>
           | _ \<Rightarrow> None)
      | _ \<Rightarrow> None)"

definition pending_schema :: "ChangeRecord \<Rightarrow> TableSchema" where
  "pending_schema r =
     (case rec_schema r of
        Some s \<Rightarrow> s
      | None \<Rightarrow> \<lparr>schema_database = rec_database r, schema_table = rec_table r, columns = [], schema_indexes = []\<rparr>)"

definition read_schema_column :: "ChangeRecord \<Rightarrow> StringPool \<Rightarrow> string list \<Rightarrow> (ChangeRecord \<times> StringPool) option" where
  "read_schema_column r p parts =
     (case named_column parts of
        Some (Some c) \<Rightarrow>
          (case (case col_default c of
                   None \<Rightarrow> (None, p)
                 | Some v \<Rightarrow> (case intern_value v p of (w, p') \<Rightarrow> (Some w, p'))) of
             (dflt, p') \<Rightarrow>
               (let s = pending_schema r
                in Some (r\<lparr>rec_schema := Some (s\<lparr>columns := columns s @ [c\<lparr>col_default := dflt\<rparr>]\<rparr>)\<rparr>, p')))
      | _ \<Rightarrow> None)"

text \<open>A part that is no named field is an encoded value itself.\<close>

definition history_value :: "string \<Rightarrow> string option" where
  "history_value part =
     (case ParseKeyValueToken part of
        None \<Rightarrow> Some part
      | Some (key, value) \<Rightarrow> if key = ''row_id'' then None else if key \<noteq> ''value'' then None else Some value)"

definition read_history_record :: "history_reader \<Rightarrow> string list \<Rightarrow> history_reader \<times> bool Result" where
  "read_history_record s parts =
     (case s of (pending, loaded, p) \<Rightarrow>
        (let tag = hd parts in
         if tag = ''EVENT'' then
           (case pending of
              Some r \<Rightarrow> (s, Inr False)
            | None \<Rightarrow>
                (case read_event parts of
                   None \<Rightarrow> (s, Inr False)
                 | Some r \<Rightarrow> ((Some r, loaded, p), Inr True)))
         else if tag = ''SCHEMA_COLUMN'' then
           (case pending of
              None \<Rightarrow> (s, Inr False)
            | Some r \<Rightarrow>
                (case read_schema_column r p parts of
                   None \<Rightarrow> (s, Inr False)
                 | Some (r', p') \<Rightarrow> ((Some r', loaded, p'), Inr True)))
         else if tag = ''BEFORE'' \<or> tag = ''AFTER'' then
           (case pending of
              None \<Rightarrow> (s, Inr False)
            | Some r \<Rightarrow>
                (case read_row_id parts of
                   None \<Rightarrow> (s, Inr False)
                 | Some rid \<Rightarrow>
                     (case read_values history_value (drop 1 parts) p of
                        (vs, p', b) \<Rightarrow>
                          (if \<not> b then ((pending, loaded, p'), Inr False)
                           else let row = \<lparr>row_id = rid, row_values = vs\<rparr>
                                in ((Some (if tag = ''BEFORE'' then r\<lparr>before_row := Some row\<rparr> else r\<lparr>after_row := Some row\<rparr>),
                                     loaded, p'), Inr True)))))
         else if tag = ''EVENT_END'' \<and> length parts = 1 then
           (case pending of
              None \<Rightarrow> (s, Inr False)
            | Some r \<Rightarrow> ((None, loaded @ [r], p), Inr True))
         else (s, Inr False)))"

text \<open>\<^verbatim>\<open>Load\<close> in two parts: the state file, and the history file with the check of the indexes.\<close>

definition load_history ::
  "string option \<Rightarrow> RuntimeState \<Rightarrow> VersionStore \<Rightarrow> StringPool \<Rightarrow> (RuntimeState \<times> VersionStore \<times> StringPool) \<times> bool Result" where
  "load_history history_file st vs p =
     (case history_file of
        None \<Rightarrow> ((st, VersionClear vs, p), Inr True)
      | Some history_txt \<Rightarrow>
          (case read_lines (read_line read_history_record) (getlines history_txt) ((None, [], p), False) of
             (((pending, loaded, p'), _), Inr True) \<Rightarrow>
               (if pending \<noteq> None then ((st, vs, p'), Inr False)
                else ((st, VersionReplaceAll loaded vs, p'),
                      case ValidateRuntimeIndexConsistency st of
                        Inr _ \<Rightarrow> Inr True
                      | Inl (Err e) \<Rightarrow> Inr False
                      | Inl (Thrown x) \<Rightarrow> Inl (Thrown x)))
           | (((_, _, p'), _), r) \<Rightarrow> ((st, vs, p'), r)))"

definition Load ::
  "snapshot \<Rightarrow> RuntimeState \<Rightarrow> VersionStore \<Rightarrow> StringPool \<Rightarrow> (RuntimeState \<times> VersionStore \<times> StringPool) \<times> bool Result" where
  "Load files st vs p =
     (case files of (state_file, history_file) \<Rightarrow>
        (case state_file of
           None \<Rightarrow> ((st, vs, p), Inr True)
         | Some state_txt \<Rightarrow>
             (case read_lines (read_line read_state_record) (getlines state_txt) ((st\<lparr>databases := []\<rparr>, p), False) of
                (((st', p'), _), Inr True) \<Rightarrow> load_history history_file st' vs p'
              | (((st', p'), _), r) \<Rightarrow> ((st', vs, p'), r))))"

end
