(* ===== verification/Persistence_Roundtrip.thy ===== *)
theory Persistence_Roundtrip
  imports Execution_Run Persistence
begin

text \<open>
  Reading back what was saved: a snapshot that was written completely restores every database, table and row and the
  whole history, with strings interned again.
\<close>

section \<open>Values\<close>

lemmas text_defs = persistence_Escape_def persistence_Unescape_def persistence_SplitByTab_def

lemma persistence_Unescape_Escape [simp]: "persistence_Unescape (Escape s) = s"
  using Unescape_Escape [of s] by (simp add: persistence_Unescape_def Unescape_def)

text \<open>Texts that fit on a line.\<close>

abbreviation one_line :: "string \<Rightarrow> bool" where "one_line s \<equiv> newline \<notin> set s"

fun value_one_line :: "Value \<Rightarrow> bool" where
  "value_one_line (Str s) = one_line s"
| "value_one_line (IStr p) = one_line (chars p)"
| "value_one_line _ = True"

text \<open>A value as it is decoded: an ordinary string in place of an interned one.\<close>

fun plain_value :: "Value \<Rightarrow> Value" where
  "plain_value (IStr p) = Str (chars p)"
| "plain_value v = v"

lemma same_plain [simp]: "same_value (plain_value v) v"
  by (cases v) auto

lemma stoll_word [simp]: "stoll (int_to_string (sint (w :: 64 word))) = Some (sint w, length (int_to_string (sint w)))"
proof -
  have "- (2 ^ 63) \<le> sint w" "sint w < 2 ^ 63" using sint_ge [of w] sint_less [of w] by simp_all
  then show ?thesis unfolding stoll_def by (intro scan_signed_int) simp_all
qed

lemma TryDecodeValue_EncodeValue [simp]: "TryDecodeValue (EncodeValue v) = Some (plain_value v)"
  by (cases v) (simp_all add: TryDecodeValue_def has_prefix_def text_defs(1))

lemma field_EncodeValue [simp]: "field (EncodeValue v)"
  using field_plain [of "int_to_string (sint w)" for w :: "64 word"] by (cases v) (simp_all add: text_defs(1))

lemma one_line_EncodeValue [simp]: "newline \<in> set (EncodeValue v) \<longleftrightarrow> \<not> value_one_line v"
  by (cases v) (simp_all add: text_defs(1))

lemma intern_plain:
  assumes "pool_wf p" "intern_value (plain_value v) p = (w, p')"
  shows "same_value w v \<and> pool_wf p'"
proof -
  have "chars q = s \<and> pool_wf p''" if "Intern s p = (q, p'')" for s q p''
    using Intern_wf [OF assms(1) that] by simp
  then show ?thesis using assms by (cases v) (auto simp: intern_value_def split: prod.splits)
qed

section \<open>Fields of a record\<close>

definition value_field :: "Value \<Rightarrow> string" where
  "value_field v = ''value='' @ EncodeValue v"

lemma named_value_field [simp]: "named_value (value_field v) = Some (EncodeValue v)"
  "history_value (value_field v) = Some (EncodeValue v)"
  by (simp_all add: value_field_def named_value_def history_value_def ParseKeyValueToken_def)

lemma read_values_fields:
  assumes "\<And>v. pick (value_field v) = Some (EncodeValue v)" "pool_wf p"
  shows "\<exists>ws p'. read_values pick (map value_field vs) p = (ws, p', True) \<and> list_all2 same_value ws vs \<and> pool_wf p'"
  using assms(2)
proof (induction vs arbitrary: p)
  case (Cons v vs)
  obtain w p1 where i: "intern_value (plain_value v) p = (w, p1)" by (cases "intern_value (plain_value v) p")
  with intern_plain [OF Cons.prems i] Cons.IH [of p1] show ?case
    by (auto simp: assms(1))
qed simp

lemma find_field_values: "k \<noteq> ''value'' \<Longrightarrow> find_field (map value_field vs) k = None"
  by (induction vs) (auto simp: value_field_def ParseKeyValueToken_def)

lemma row_fields_eq: "row_fields row = (''row_id='' @ nat_to_string (unat (row_id row))) # map value_field (row_values row)"
  by (simp add: row_fields_def value_field_def fun_eq_iff)

lemma stoull_word [simp]: "stoull (nat_to_string (unat (w :: 64 word))) = Some (w, length (nat_to_string (unat w)))"
proof -
  have "unat w < 2 ^ LENGTH(64)" by (rule unsigned_less)
  then show ?thesis by simp
qed

lemma field_nat [simp]: "field (nat_to_string n)"
  using nat_to_string_plain by (intro field_plain) simp_all

lemma names_plain [simp]:
  "field (ValueTypeName t)" "field (ConstraintName c)" "field (ChangeKindName k)"
  "one_line (ValueTypeName t)" "one_line (ConstraintName c)" "one_line (ChangeKindName k)"
  by ((cases t; simp), (cases c; simp), (cases k; simp), (cases t; simp), (cases c; simp), (cases k; simp))

lemma names_parse [simp]:
  "ParseValueType (ValueTypeName t) = Some t" "ParseConstraint (ConstraintName c) = Some c"
  "ParseChangeKind (ChangeKindName k) = Some k"
proof -
  show "ParseValueType (ValueTypeName t) = Some t" by (cases t) (simp_all add: ParseValueType_def)
  show "ParseConstraint (ConstraintName c) = Some c" by (cases c) (simp_all add: ParseConstraint_def)
  show "ParseChangeKind (ChangeKindName k) = Some k" by (cases k) (simp_all add: ParseChangeKind_def)
qed

text \<open>The default as it is read: \<^verbatim>\<open>NULL\<close> is no default, and a string is not interned.\<close>

definition loaded_column :: "ColumnDefinition \<Rightarrow> ColumnDefinition" where
  "loaded_column c = c\<lparr>col_default :=
     (case col_default c of None \<Rightarrow> None | Some v \<Rightarrow> if v = Monostate then None else Some (plain_value v))\<rparr>"

lemma plain_value_Monostate [simp]: "plain_value v = Monostate \<longleftrightarrow> v = Monostate"
  by (cases v) auto

lemma TryDecodeValue_Null [simp]: "TryDecodeValue ''Null'' = Some Monostate"
  by (simp add: TryDecodeValue_def)

definition default_text :: "ColumnDefinition \<Rightarrow> string" where
  "default_text c = (case col_default c of Some v \<Rightarrow> EncodeValue v | None \<Rightarrow> ''Null'')"

lemma default_text_decoded:
  "TryDecodeValue (default_text c) = Some (case col_default c of Some v \<Rightarrow> plain_value v | None \<Rightarrow> Monostate)"
  by (simp add: default_text_def split: option.splits)

lemma column_fields_eq:
  "column_fields c = [''name='' @ Escape (col_name c), ''type='' @ ValueTypeName (col_type c),
     ''constraint='' @ ConstraintName (col_constraint c), ''default='' @ default_text c]"
  by (simp add: column_fields_def default_text_def text_defs(1))

lemma named_column_fields:
  assumes "\<forall>f \<in> set fs. \<exists>k v. ParseKeyValueToken f = Some (k, v) \<and> k \<notin> {''name'', ''type'', ''constraint'', ''default''}"
  shows "named_column (tag # fs @ column_fields c) = Some (Some (loaded_column c))"
proof -
  have "find_field (fs @ gs) k = find_field gs k" if "k \<in> {''name'', ''type'', ''constraint'', ''default''}" for k gs
    using assms that by (induction fs) auto
  then show ?thesis
    by (auto simp: named_column_def FindFieldValue_def column_fields_eq ParseKeyValueToken_def default_text_decoded
        loaded_column_def split: option.splits)
qed

section \<open>Lines\<close>

lemma read_lines_append:
  "read_lines f xs s = (s', Inr True) \<Longrightarrow> read_lines f (xs @ ys) s = read_lines f ys s'"
  by (induction xs arbitrary: s) (auto split: prod.splits sum.splits bool.splits)

lemma read_line_record:
  assumes "fs \<noteq> []" "\<forall>f \<in> set fs. field f" "hd fs \<noteq> []" "hd (hd fs) \<noteq> CHR ''#''" "hd fs \<noteq> kFormatTag"
  shows "read_line rr (s, b) (join_tab fs) = (case rr s fs of (s', r) \<Rightarrow> ((s', True), r))"
proof -
  obtain x xs where x: "fs = x # xs" using assms(1) by (cases fs) auto
  with assms(3) obtain c cs where c: "x = c # cs" by (cases x) auto
  have "\<exists>r. join_tab fs = c # r" using x c by (cases xs) auto
  moreover have "persistence_SplitByTab (join_tab fs) = fs"
    using split_join [OF assms(1,2), of "[]"] by (simp add: persistence_SplitByTab_def)
  ultimately show ?thesis using assms x c by (auto simp: read_line_def Let_def)
qed

lemma read_line_skip [simp]:
  "read_line rr s [] = (s, Inr True)" "read_line rr s (CHR ''#'' # l) = (s, Inr True)"
  by (cases s; simp add: read_line_def)+

lemma header_read:
  "read_lines (read_line rr) (state_header @ ls) (s, False) = read_lines (read_line rr) ls (s, True)"
  "read_lines (read_line rr) (history_header @ ls) (s, False) = read_lines (read_line rr) ls (s, True)"
proof -
  have "read_line rr (s, False) (kFormatTag @ [tab] @ kFormatVersion) = ((s, True), Inr True)"
    by (simp add: read_line_def kFormatTag_def kFormatVersion_def IsSupportedFormatVersion_def persistence_SplitByTab_def)
  then show "read_lines (read_line rr) (state_header @ ls) (s, False) = read_lines (read_line rr) ls (s, True)"
    "read_lines (read_line rr) (history_header @ ls) (s, False) = read_lines (read_line rr) ls (s, True)"
    by (simp_all add: state_header_def history_header_def)
qed

section \<open>Reading a table\<close>

text \<open>The state while the last table of the last database is read.\<close>

definition opened :: "(string \<times> DatabaseRuntime) list \<Rightarrow> string \<Rightarrow> (string \<times> TableRuntime) list \<Rightarrow> RuntimeState" where
  "opened dbs d ts = \<lparr>databases = dbs @ [(d, \<lparr>db_name = d, tables = ts\<rparr>)]\<rparr>"

lemma map_of_new: "k \<notin> fst ` set xs \<Longrightarrow> map_of xs k = None"
  by (simp add: map_of_eq_None_iff)

lemma umap_last [simp]:
  assumes "k \<notin> fst ` set xs"
  shows "umap_find (xs @ [(k, v)]) k = Some v" "umap_assign k w (xs @ [(k, v)]) = xs @ [(k, w)]"
    "umap_emplace k w (xs @ [(k, v)]) = xs @ [(k, v)]" "umap_emplace k w xs = xs @ [(k, w)]"
proof -
  show "umap_assign k w (xs @ [(k, v)]) = xs @ [(k, w)]"
    unfolding umap_assign_def using assms by (induction xs) auto
qed (use map_of_new [OF assms] in \<open>simp_all add: umap_find_def umap_emplace_def map_add_def\<close>)

lemma add_database_opened:
  "d \<notin> fst ` set (databases st) \<Longrightarrow> add_database d st = opened (databases st) d []"
  "d \<notin> fst ` set dbs \<Longrightarrow> add_database d (opened dbs d ts) = opened dbs d ts"
  by (cases st) (simp_all add: add_database_def opened_def empty_database_def)

lemma change_database_opened:
  assumes "d \<notin> fst ` set dbs"
  shows "change_database d f (opened dbs d ts) = \<lparr>databases = dbs @ [(d, f \<lparr>db_name = d, tables = ts\<rparr>)]\<rparr>"
  using assms by (simp add: change_database_def opened_def)

lemma table_opened:
  assumes "d \<notin> fst ` set dbs" "n \<notin> fst ` set ts"
  shows "find_table (opened dbs d (ts @ [(n, t)])) d n = Some t"
    "set_table d n t' (opened dbs d (ts @ [(n, t)])) = opened dbs d (ts @ [(n, t')])"
  using assms
  by (simp_all add: set_table_def change_database_opened) (simp_all add: find_table_def opened_def)

lemma read_table_record:
  assumes "d \<notin> fst ` set dbs" "n \<notin> fst ` set ts"
  shows "read_state_record (opened dbs d ts, p) [''TABLE'', ''db='' @ Escape d, ''name='' @ Escape n]
    = ((opened dbs d (ts @ [(n, empty_table d n)]), p), Inr True)"
  using assms change_database_opened [of d dbs]
  by (simp add: read_state_record_def read_table_def record_names_def FindFieldValue_def ParseKeyValueToken_def
      add_database_opened) (simp add: opened_def)

lemma read_column_record:
  assumes "d \<notin> fst ` set dbs" "n \<notin> fst ` set ts"
  shows "read_state_record (opened dbs d (ts @ [(n, t)]), p)
      ([''COLUMN'', ''db='' @ Escape d, ''table='' @ Escape n] @ column_fields c)
    = ((opened dbs d (ts @ [(n, add_column n (loaded_column c) t)]), p), Inr True)"
proof -
  let ?parts = "[''COLUMN'', ''db='' @ Escape d, ''table='' @ Escape n] @ column_fields c"
  have "named_column ?parts = Some (Some (loaded_column c))"
    using named_column_fields [of "[''db='' @ Escape d, ''table='' @ Escape n]" "''COLUMN''" c]
    by (simp add: ParseKeyValueToken_def)
  moreover have "FindFieldValue ?parts ''db'' = Some (Escape d)" "FindFieldValue ?parts ''table'' = Some (Escape n)"
    by (simp_all add: FindFieldValue_def ParseKeyValueToken_def)
  ultimately have "read_column (opened dbs d (ts @ [(n, t)])) ?parts
      = (opened dbs d (ts @ [(n, add_column n (loaded_column c) t)]), Inr True)"
    using table_opened [OF assms] by (simp add: read_column_def Let_def)
  then show ?thesis by (simp add: read_state_record_def)
qed

lemma read_row_record:
  assumes "d \<notin> fst ` set dbs" "n \<notin> fst ` set ts" "pool_wf p" "length (row_values row) = length (columns (schema t))"
  shows "\<exists>row' p'. same_row row' row \<and> pool_wf p' \<and>
    (\<forall>t'. add_row row' t = Inr t' \<longrightarrow>
       read_state_record (opened dbs d (ts @ [(n, t)]), p)
         ([''ROW'', ''db='' @ Escape d, ''table='' @ Escape n] @ row_fields row)
       = ((opened dbs d (ts @ [(n, t')]), p'), Inr True))"
proof -
  let ?parts = "[''ROW'', ''db='' @ Escape d, ''table='' @ Escape n] @ row_fields row"
  from read_values_fields [of named_value, OF _ assms(3), of "row_values row"] obtain ws p' where
    ws: "read_values named_value (map value_field (row_values row)) p = (ws, p', True)"
      "list_all2 same_value ws (row_values row)" "pool_wf p'" by auto
  have "read_values named_value ?parts p = (ws, p', True)"
    using ws(1) by (simp add: row_fields_eq named_value_def [of "_ # _"] ParseKeyValueToken_def named_value_def [of "[]"])
  moreover have "record_names ''table'' ?parts = Some (d, n, True)" "read_row_id ?parts = Some (row_id row)"
    by (simp_all add: record_names_def read_row_id_def FindFieldValue_def ParseKeyValueToken_def row_fields_eq)
  moreover have "length ws = length (columns (schema t))" using ws(2) assms(4) by (simp add: list_all2_lengthD)
  ultimately have "read_row (opened dbs d (ts @ [(n, t)])) p ?parts = ((opened dbs d (ts @ [(n, t')]), p'), Inr True)"
    if "add_row \<lparr>row_id = row_id row, row_values = ws\<rparr> t = Inr t'" for t'
    using that table_opened [OF assms(1,2)] by (simp add: read_row_def)
  then have "\<forall>t'. add_row \<lparr>row_id = row_id row, row_values = ws\<rparr> t = Inr t' \<longrightarrow>
      read_state_record (opened dbs d (ts @ [(n, t)]), p) ?parts = ((opened dbs d (ts @ [(n, t')]), p'), Inr True)"
    by (simp add: read_state_record_def)
  moreover have "same_row \<lparr>row_id = row_id row, row_values = ws\<rparr> row" using ws(2) by (simp add: same_row_def)
  ultimately show ?thesis using ws(3) by blast
qed

section \<open>The schema\<close>

definition loaded_schema :: "string \<Rightarrow> string \<Rightarrow> ColumnDefinition list \<Rightarrow> TableSchema" where
  "loaded_schema d n cols =
     \<lparr>schema_database = d, schema_table = n, columns = map loaded_column cols, schema_indexes = column_indexes n cols\<rparr>"

lemma loaded_column_simps [simp]:
  "col_name (loaded_column c) = col_name c" "col_type (loaded_column c) = col_type c"
  "col_constraint (loaded_column c) = col_constraint c" "allows_null (loaded_column c) = allows_null c"
  by (simp_all add: loaded_column_def allows_null_def)

lemma columns_read:
  "foldl (\<lambda>t c. add_column n (loaded_column c) t) (empty_table d n) cols =
     \<lparr>schema = loaded_schema d n cols, heap = make_heap (loaded_schema d n cols), indexes = new_indexes (loaded_schema d n cols)\<rparr>"
proof (induction cols rule: rev_induct)
  case Nil
  show ?case by (simp add: empty_table_def loaded_schema_def column_indexes_def new_indexes_def Let_def)
next
  case (snoc c cols)
  then show ?case
    by (simp add: add_column_def Let_def) (simp add: loaded_schema_def column_indexes_def new_indexes_def)
qed

lemma find_column_loaded [simp]: "find_column c (map loaded_column cols) i = find_column c cols i"
  by (induction cols arbitrary: i) auto

lemma FindColumnIndex_loaded [simp]: "FindColumnIndex (loaded_schema d n (columns s)) c = FindColumnIndex s c"
  by (simp add: FindColumnIndex_def loaded_schema_def)

lemma index_columns_loaded: "canonical_schema d n s \<Longrightarrow> index_columns (loaded_schema d n (columns s)) = index_columns s"
  by (simp add: index_columns_def new_indexes_def loaded_schema_def canonical_schema_def)

lemma keys_distinct_loaded: "keys_distinct (loaded_schema d n (columns s)) c rows = keys_distinct s c rows"
proof -
  have "index_pairs (loaded_schema d n (columns s)) i rows = index_pairs s i rows" if "FindColumnIndex s c = Some i" for i
  proof -
    have "col_type (columns (loaded_schema d n (columns s)) ! i) = col_type (columns s ! i)"
      using FindColumnIndex_Some [OF that] by (simp add: loaded_schema_def)
    then show ?thesis by (simp only: index_pairs_def row_key_def)
  qed
  then show ?thesis unfolding keys_distinct_def FindColumnIndex_loaded by metis
qed

lemma row_fits_loaded: "row_fits (loaded_schema d n (columns s)) row = row_fits s row"
  by (simp add: row_fits_def loaded_schema_def list_all2_map1)

lemma row_fits_same: "same_row a b \<Longrightarrow> row_fits s b \<Longrightarrow> row_fits s a"
proof -
  assume "same_row a b" "row_fits s b"
  moreover have "CanAssignToType v t x = CanAssignToType w t x" if "same_value v w" for v w t x
    using that by (cases v; cases w) (auto simp: CanAssignToType_def)
  ultimately show ?thesis
    unfolding same_row_def row_fits_def list_all2_conv_all_nth by auto
qed

lemma rows_fit_same:
  "list_all2 same_row xs ys \<Longrightarrow> \<forall>row \<in> set ys. row_fits s row \<Longrightarrow> \<forall>row \<in> set xs. row_fits s row"
  by (induction rule: list_all2_induct) (auto intro: row_fits_same)

section \<open>The rows\<close>

definition table_part :: "TableSchema \<Rightarrow> RowData list \<Rightarrow> TableRuntime \<Rightarrow> bool" where
  "table_part s rows t \<longleftrightarrow>
     schema t = s \<and> heap_inv (heap t) \<and> heap_rows (heap t) = rows \<and> map fst (indexes t) = index_columns s \<and>
     (\<forall>e \<in> set (indexes t). index_holds s rows e)"

lemma EncodeIndexKeyForType_eq: "EncodeIndexKeyForType = EncodeIndexKey"
  by (simp add: fun_eq_iff EncodeIndexKeyForType_def EncodeIndexKey_def)

lemma add_to_index_eq: "add_to_index s row (row_id row) (c, t) = clone_entry s row (c, t)"
  unfolding clone_entry_eq add_to_index_def EncodeIndexKeyForType_eq FindColumnIndex_def by simp

lemma add_row_part:
  assumes "table_part s rows t" "row_id row \<noteq> kInvalidRowId" "row_id row \<notin> row_id ` set rows"
    and "\<forall>c \<in> set (index_columns s). keys_distinct s c (rows @ [row])"
  shows "\<exists>t'. add_row row t = Inr t' \<and> table_part s (rows @ [row]) t'"
proof -
  have "fst (HeapInsert row (heap t)) = row_id row" using assms(2) by (simp add: HeapInsert_def)
  then obtain h where h: "HeapInsert row (heap t) = (row_id row, h)" by (cases "HeapInsert row (heap t)") auto
  have "heap_rows (snd (HeapInsert row (heap t))) = rows @ [row] \<and> heap_inv (snd (HeapInsert row (heap t)))"
    using HeapInsert_valid [of "heap t" row] assms(1-3) unfolding table_part_def heap_inv_def by auto
  with h have h': "heap_rows h = rows @ [row]" "heap_inv h" by simp_all
  have "\<exists>trees'. mapM (add_to_index s row (row_id row)) (indexes t) = Inr trees' \<and>
      map fst trees' = map fst (indexes t) \<and> (\<forall>e \<in> set trees'. index_holds s (rows @ [row]) e)"
  proof (rule mapM_trees)
    fix c tree assume e: "(c, tree) \<in> set (indexes t)"
    then have "c \<in> set (index_columns s)" using assms(1) by (metis fst_conv image_eqI set_map table_part_def)
    then show "\<exists>t'. add_to_index s row (row_id row) (c, tree) = Inr (c, t') \<and> index_holds s (rows @ [row]) (c, t')"
      unfolding add_to_index_eq using assms(1,4) e by (intro clone_entry_holds) (auto simp: table_part_def)
  qed
  with h h' assms(1) show ?thesis by (auto simp: add_row_def table_part_def)
qed

text \<open>The lines of the columns and of the rows of a table.\<close>

definition column_line :: "string \<Rightarrow> string \<Rightarrow> ColumnDefinition \<Rightarrow> string" where
  "column_line d n c = join_tab ([''COLUMN'', ''db='' @ Escape d, ''table='' @ Escape n] @ column_fields c)"

definition row_line :: "string \<Rightarrow> string \<Rightarrow> RowData \<Rightarrow> string" where
  "row_line d n row = join_tab ([''ROW'', ''db='' @ Escape d, ''table='' @ Escape n] @ row_fields row)"

lemma field_default [simp]: "field (default_text c)"
  by (simp add: default_text_def split: option.splits)

lemma read_column_line:
  assumes "d \<notin> fst ` set dbs" "n \<notin> fst ` set ts"
  shows "read_line read_state_record ((opened dbs d (ts @ [(n, t)]), p), b) (column_line d n c)
    = (((opened dbs d (ts @ [(n, add_column n (loaded_column c) t)]), p), True), Inr True)"
proof -
  let ?fs = "[''COLUMN'', ''db='' @ Escape d, ''table='' @ Escape n] @ column_fields c"
  have "read_line read_state_record ((opened dbs d (ts @ [(n, t)]), p), b) (join_tab ?fs)
      = (case read_state_record (opened dbs d (ts @ [(n, t)]), p) ?fs of (s', r) \<Rightarrow> ((s', True), r))"
    by (rule read_line_record) (simp_all add: column_fields_eq kFormatTag_def)
  then show ?thesis by (simp only: column_line_def read_column_record [OF assms] prod.case)
qed

lemma read_column_lines:
  assumes "d \<notin> fst ` set dbs" "n \<notin> fst ` set ts"
  shows "read_lines (read_line read_state_record) (map (column_line d n) cols @ ls) ((opened dbs d (ts @ [(n, t)]), p), True)
    = read_lines (read_line read_state_record) ls
        ((opened dbs d (ts @ [(n, foldl (\<lambda>t c. add_column n (loaded_column c) t) t cols)]), p), True)"
  by (induction cols arbitrary: t) (simp_all add: read_column_line [OF assms])

lemma read_row_line:
  assumes "d \<notin> fst ` set dbs" "n \<notin> fst ` set ts" "pool_wf p" "length (row_values row) = length (columns (schema t))"
  shows "\<exists>row' p'. same_row row' row \<and> pool_wf p' \<and>
    (\<forall>t'. add_row row' t = Inr t' \<longrightarrow>
       read_line read_state_record ((opened dbs d (ts @ [(n, t)]), p), b) (row_line d n row)
       = (((opened dbs d (ts @ [(n, t')]), p'), True), Inr True))"
proof -
  let ?fs = "[''ROW'', ''db='' @ Escape d, ''table='' @ Escape n] @ row_fields row"
  have "read_line read_state_record ((opened dbs d (ts @ [(n, t)]), p), b) (join_tab ?fs)
      = (case read_state_record (opened dbs d (ts @ [(n, t)]), p) ?fs of (s', r) \<Rightarrow> ((s', True), r))"
    by (rule read_line_record) (auto simp: row_fields_def kFormatTag_def)
  then show ?thesis using read_row_record [OF assms] unfolding row_line_def by (metis (no_types, lifting) prod.case)
qed

lemma read_row_lines:
  assumes "d \<notin> fst ` set dbs" "n \<notin> fst ` set ts" "pool_wf p" "table_part s pre' t" "list_all2 same_row pre' pre"
    and "distinct (map row_id (pre @ rows))" "\<forall>row \<in> set rows. row_id row \<noteq> kInvalidRowId"
    and "\<forall>row \<in> set rows. length (row_values row) = length (columns s)"
    and "\<forall>c \<in> set (index_columns s). keys_distinct s c (pre @ rows)"
  shows "\<exists>rows' t' p'. read_lines (read_line read_state_record) (map (row_line d n) rows @ ls)
        ((opened dbs d (ts @ [(n, t)]), p), True)
      = read_lines (read_line read_state_record) ls ((opened dbs d (ts @ [(n, t')]), p'), True) \<and>
      table_part s (pre' @ rows') t' \<and> list_all2 same_row rows' rows \<and> pool_wf p'"
  using assms(3-)
proof (induction rows arbitrary: pre pre' t p)
  case Nil
  then show ?case by (intro exI [of _ "[]"] exI [of _ t] exI [of _ p]) simp
next
  case (Cons row rows)
  have "length (row_values row) = length (columns (schema t))" using Cons.prems by (simp add: table_part_def)
  from read_row_line [OF assms(1,2) Cons.prems(1) this] obtain row' p1 where
    r: "same_row row' row" "pool_wf p1" and step: "\<And>t'. add_row row' t = Inr t' \<Longrightarrow>
      read_line read_state_record ((opened dbs d (ts @ [(n, t)]), p), True) (row_line d n row)
       = (((opened dbs d (ts @ [(n, t')]), p1), True), Inr True)" by blast
  have id: "row_id row' = row_id row" using r(1) by (simp add: same_row_def)
  have same: "list_all2 same_row (pre' @ [row']) (pre @ [row])" using Cons.prems(3) r(1) by (simp add: list_all2_appendI)
  have "map row_id pre' = map row_id pre"
    using Cons.prems(3) by (induction rule: list_all2_induct) (auto simp: same_row_def)
  then have "row_id row' \<notin> row_id ` set pre'" using Cons.prems(4) id by (metis disjoint_iff distinct_append list.set_intros(1) list.simps(9) map_append set_map)
  moreover have "\<forall>c \<in> set (index_columns s). keys_distinct s c (pre' @ [row'])"
    using Cons.prems(7) keys_distinct_same [OF same] keys_distinct_prefix [of s _ "pre @ [row]" rows] by simp
  ultimately obtain t1 where t1: "add_row row' t = Inr t1" "table_part s (pre' @ [row']) t1"
    using add_row_part [OF Cons.prems(2), of row'] Cons.prems(5) id by auto
  from Cons.IH [OF r(2) t1(2) same] Cons.prems obtain rows' t' p' where
    "read_lines (read_line read_state_record) (map (row_line d n) rows @ ls) ((opened dbs d (ts @ [(n, t1)]), p1), True)
      = read_lines (read_line read_state_record) ls ((opened dbs d (ts @ [(n, t')]), p'), True)"
    "table_part s ((pre' @ [row']) @ rows') t'" "list_all2 same_row rows' rows" "pool_wf p'" by auto
  with step [OF t1(1)] r(1) show ?case by (intro exI [of _ "row' # rows'"] exI [of _ t'] exI [of _ p']) simp
qed

section \<open>The state\<close>

text \<open>A table that was read back: the same schema apart from the storage of the defaults, and the same rows.\<close>

definition restored_table :: "string \<times> TableRuntime \<Rightarrow> string \<times> TableRuntime \<Rightarrow> bool" where
  "restored_table x y \<longleftrightarrow> fst y = fst x \<and>
     schema (snd y) = (schema (snd x))\<lparr>columns := map loaded_column (columns (schema (snd x)))\<rparr> \<and>
     list_all2 same_row (ScanAll (heap (snd y))) (ScanAll (heap (snd x)))"

definition restored_database :: "string \<times> DatabaseRuntime \<Rightarrow> string \<times> DatabaseRuntime \<Rightarrow> bool" where
  "restored_database x y \<longleftrightarrow> fst y = fst x \<and> list_all2 restored_table (tables (snd x)) (tables (snd y))"

definition restored :: "RuntimeState \<Rightarrow> RuntimeState \<Rightarrow> bool" where
  "restored st st' \<longleftrightarrow> list_all2 restored_database (databases st) (databases st')"

definition table_line :: "string \<Rightarrow> string \<Rightarrow> string" where
  "table_line d n = join_tab [''TABLE'', ''db='' @ Escape d, ''name='' @ Escape n]"

lemma table_lines_eq:
  "table_lines d (n, t) = [''# Database: '' @ Escape d, ''# Table: '' @ Escape n, table_line d n] @
     map (column_line d n) (columns (schema t)) @ map (row_line d n) (ScanAll (heap t)) @ [[]]"
  by (simp add: table_lines_def Let_def table_line_def column_line_def row_line_def fun_eq_iff persistence_Escape_def)

lemma read_table_line:
  assumes "d \<notin> fst ` set dbs" "n \<notin> fst ` set ts"
  shows "read_line read_state_record ((opened dbs d ts, p), b) (table_line d n)
    = (((opened dbs d (ts @ [(n, empty_table d n)]), p), True), Inr True)"
proof -
  let ?fs = "[''TABLE'', ''db='' @ Escape d, ''name='' @ Escape n]"
  have "read_line read_state_record ((opened dbs d ts, p), b) (join_tab ?fs)
      = (case read_state_record (opened dbs d ts, p) ?fs of (s', r) \<Rightarrow> ((s', True), r))"
    by (rule read_line_record) (simp_all add: kFormatTag_def)
  then show ?thesis by (simp only: table_line_def read_table_record [OF assms] prod.case)
qed

lemma table_part_new:
  assumes "table_inv t" "canonical_schema d n (schema t)"
  shows "table_part (loaded_schema d n (columns (schema t))) []
    \<lparr>schema = loaded_schema d n (columns (schema t)), heap = make_heap (loaded_schema d n (columns (schema t))),
     indexes = new_indexes (loaded_schema d n (columns (schema t)))\<rparr>"
proof -
  let ?s = "loaded_schema d n (columns (schema t))"
  have "index_holds ?s [] e" if "e \<in> set (new_indexes ?s)" for e
  proof -
    have "fst e \<in> set (index_columns (schema t))"
      using that index_columns_loaded [OF assms(2)] by (metis image_eqI index_columns_def set_map)
    with table_inv_keys [OF assms(1)] obtain i where "FindColumnIndex ?s (fst e) = Some i"
      by (auto simp: keys_distinct_def)
    with that show ?thesis by (rule index_holds_new)
  qed
  then show ?thesis using heap_inv_make [of ?s] by (simp add: table_part_def index_columns_def make_heap_def)
qed

lemma read_table_lines:
  assumes "d \<notin> fst ` set dbs" "n \<notin> fst ` set ts" "pool_wf p" "table_inv t" "canonical_schema d n (schema t)"
  shows "\<exists>t' p'. read_lines (read_line read_state_record) (table_lines d (n, t)) ((opened dbs d ts, p), True)
      = (((opened dbs d (ts @ [(n, t')]), p'), True), Inr True) \<and>
      table_inv t' \<and> restored_table (n, t) (n, t') \<and> pool_wf p'"
proof -
  let ?s = "loaded_schema d n (columns (schema t))" and ?rows = "heap_rows (heap t)"
  have rows: "distinct (map row_id ?rows)" "\<forall>row \<in> set ?rows. row_id row \<noteq> kInvalidRowId"
    using assms(4) heap.scan_distinct [of "heap t"] heap.scan_valid [of "heap t"] by (auto simp: table_inv_def ScanAll_def)
  have fits: "\<forall>row \<in> set ?rows. row_fits (schema t) row" using assms(4) by (simp add: table_inv_def)
  have "\<forall>row \<in> set ?rows. length (row_values row) = length (columns ?s)"
    using fits row_fits_length by (auto simp: loaded_schema_def)
  moreover have "\<forall>c \<in> set (index_columns ?s). keys_distinct ?s c ([] @ ?rows)"
    using table_inv_keys [OF assms(4)] by (simp add: index_columns_loaded [OF assms(5)] keys_distinct_loaded)
  ultimately obtain rows' t' p' where
    r: "read_lines (read_line read_state_record) (map (row_line d n) ?rows @ [[]])
        ((opened dbs d (ts @ [(n, \<lparr>schema = ?s, heap = make_heap ?s, indexes = new_indexes ?s\<rparr>)]), p), True)
      = read_lines (read_line read_state_record) [[]] ((opened dbs d (ts @ [(n, t')]), p'), True)"
    and t': "table_part ?s ([] @ rows') t'" "list_all2 same_row rows' ?rows" "pool_wf p'"
    using read_row_lines [OF assms(1-3) table_part_new [OF assms(4,5)], of "[]" ?rows "[[]]"] rows by auto
  have "table_inv t'"
    using t'(1) rows_fit_same [OF t'(2) fits] by (auto simp: table_part_def table_inv_def row_fits_loaded)
  moreover have "restored_table (n, t) (n, t')"
    using t'(1,2) assms(5) by (simp add: restored_table_def table_part_def ScanAll_def loaded_schema_def canonical_schema_def)
  moreover have "read_lines (read_line read_state_record) (table_lines d (n, t)) ((opened dbs d ts, p), True)
      = (((opened dbs d (ts @ [(n, t')]), p'), True), Inr True)"
    using r by (simp add: table_lines_eq read_table_line [OF assms(1,2)] read_column_lines [OF assms(1,2)] columns_read
        ScanAll_def)
  ultimately show ?thesis using t'(3) by blast
qed

lemma read_tables:
  assumes "d \<notin> fst ` set dbs" "pool_wf p" "distinct (map fst (ts @ tts))"
    and "\<forall>(n, t) \<in> set tts. table_inv t \<and> canonical_schema d n (schema t)"
  shows "\<exists>ts' p'. read_lines (read_line read_state_record) (concat (map (table_lines d) tts)) ((opened dbs d ts, p), True)
      = (((opened dbs d (ts @ ts'), p'), True), Inr True) \<and>
      list_all2 (\<lambda>x y. restored_table x y \<and> table_inv (snd y)) tts ts' \<and> pool_wf p'"
  using assms(2-)
proof (induction tts arbitrary: ts p)
  case Nil
  then show ?case by (intro exI [of _ "[]"] exI [of _ p]) simp
next
  case (Cons x tts)
  obtain n t where x: "x = (n, t)" by (cases x)
  have n: "n \<notin> fst ` set ts" "table_inv t" "canonical_schema d n (schema t)" using Cons.prems x by auto
  from read_table_lines [OF assms(1) n(1) Cons.prems(1) n(2,3)] obtain t' p1 where
    t': "read_lines (read_line read_state_record) (table_lines d (n, t)) ((opened dbs d ts, p), True)
      = (((opened dbs d (ts @ [(n, t')]), p1), True), Inr True)"
      "table_inv t'" "restored_table (n, t) (n, t')" "pool_wf p1" by blast
  have "distinct (map fst ((ts @ [(n, t')]) @ tts))" using Cons.prems(2) x by simp
  from Cons.IH [OF t'(4) this] Cons.prems(3) obtain ts' p' where
    ts': "read_lines (read_line read_state_record) (concat (map (table_lines d) tts)) ((opened dbs d (ts @ [(n, t')]), p1), True)
      = (((opened dbs d ((ts @ [(n, t')]) @ ts'), p'), True), Inr True)"
      "list_all2 (\<lambda>x y. restored_table x y \<and> table_inv (snd y)) tts ts'" "pool_wf p'" by auto
  from read_lines_append [OF t'(1)] ts'(1) x have
    "read_lines (read_line read_state_record) (concat (map (table_lines d) (x # tts))) ((opened dbs d ts, p), True)
      = (((opened dbs d (ts @ (n, t') # ts'), p'), True), Inr True)" by simp
  with t' ts' x show ?case by (intro exI [of _ "(n, t') # ts'"] exI [of _ p']) simp
qed

lemma read_database_line:
  assumes "d \<notin> fst ` set dbs"
  shows "read_line read_state_record ((\<lparr>databases = dbs\<rparr>, p), b) (join_tab [''DATABASE'', ''name='' @ persistence_Escape d])
    = (((opened dbs d [], p), True), Inr True)"
proof -
  let ?fs = "[''DATABASE'', ''name='' @ Escape d]"
  have "read_line read_state_record ((\<lparr>databases = dbs\<rparr>, p), b) (join_tab ?fs)
      = (case read_state_record (\<lparr>databases = dbs\<rparr>, p) ?fs of (s', r) \<Rightarrow> ((s', True), r))"
    by (rule read_line_record) (simp_all add: kFormatTag_def)
  moreover have "read_state_record (\<lparr>databases = dbs\<rparr>, p) ?fs = ((opened dbs d [], p), Inr True)"
    using add_database_opened(1) [of d "\<lparr>databases = dbs\<rparr>"] assms
    by (simp add: read_state_record_def FindFieldValue_def ParseKeyValueToken_def)
  ultimately show ?thesis by (simp only: persistence_Escape_def prod.case)
qed

definition canonical_database :: "string \<times> DatabaseRuntime \<Rightarrow> bool" where
  "canonical_database x \<longleftrightarrow> (\<forall>(n, t) \<in> set (tables (snd x)). canonical_schema (fst x) n (schema t))"

lemma read_databases:
  assumes "pool_wf p" "distinct (map fst (dbs @ ddbs))" "\<forall>x \<in> set ddbs. database_inv (snd x) \<and> canonical_database x"
  shows "\<exists>dbs' p'. read_lines (read_line read_state_record) (concat (map database_lines ddbs)) ((\<lparr>databases = dbs\<rparr>, p), True)
      = (((\<lparr>databases = dbs @ dbs'\<rparr>, p'), True), Inr True) \<and>
      list_all2 (\<lambda>x y. restored_database x y \<and> database_inv (snd y)) ddbs dbs' \<and> pool_wf p'"
  using assms
proof (induction ddbs arbitrary: dbs p)
  case Nil
  then show ?case by (intro exI [of _ "[]"] exI [of _ p]) simp
next
  case (Cons x ddbs)
  obtain d db where x: "x = (d, db)" by (cases x)
  have d: "d \<notin> fst ` set dbs" "distinct (map fst ([] @ tables db))"
    "\<forall>(n, t) \<in> set (tables db). table_inv t \<and> canonical_schema d n (schema t)"
    using Cons.prems x by (auto simp: database_inv_def umap_wf_def canonical_database_def)
  from read_tables [OF d(1) Cons.prems(1) d(2,3)] obtain ts p1 where
    ts: "read_lines (read_line read_state_record) (concat (map (table_lines d) (tables db))) ((opened dbs d [], p), True)
      = (((opened dbs d ts, p1), True), Inr True)"
      "list_all2 (\<lambda>x y. restored_table x y \<and> table_inv (snd y)) (tables db) ts" "pool_wf p1" by auto
  let ?y = "(d, \<lparr>db_name = d, tables = ts\<rparr>)"
  have y: "opened dbs d ts = \<lparr>databases = dbs @ [?y]\<rparr>" by (simp add: opened_def)
  have names: "map fst ts = map fst (tables db)" using ts(2) by (rule list_all2_names) (simp add: restored_table_def)
  have inv: "database_inv (snd ?y)"
    using list_all2_right [OF ts(2)] names d(2) by (auto simp: database_inv_def umap_wf_def)
  have rest: "restored_database x ?y"
    using ts(2) x by (auto simp: restored_database_def elim: list_all2_mono)
  have "distinct (map fst ((dbs @ [?y]) @ ddbs))" using Cons.prems(2) x by simp
  from Cons.IH [OF ts(3) this] Cons.prems(3) obtain dbs' p' where
    dbs': "read_lines (read_line read_state_record) (concat (map database_lines ddbs)) ((\<lparr>databases = dbs @ [?y]\<rparr>, p1), True)
      = (((\<lparr>databases = (dbs @ [?y]) @ dbs'\<rparr>, p'), True), Inr True)"
      "list_all2 (\<lambda>x y. restored_database x y \<and> database_inv (snd y)) ddbs dbs'" "pool_wf p'" by auto
  from read_lines_append [OF ts(1), of "concat (map database_lines ddbs)"] dbs'(1) x read_database_line [OF d(1)] have
    "read_lines (read_line read_state_record) (concat (map database_lines (x # ddbs))) ((\<lparr>databases = dbs\<rparr>, p), True)
      = (((\<lparr>databases = dbs @ ?y # dbs'\<rparr>, p'), True), Inr True)" by (simp add: y database_lines_def del: join_tab.simps)
  with inv rest dbs' show ?case by (intro exI [of _ "?y # dbs'"] exI [of _ p']) simp
qed

section \<open>The history\<close>

definition schema_columns :: "ChangeRecord \<Rightarrow> ColumnDefinition list" where
  "schema_columns r = (case rec_schema r of None \<Rightarrow> [] | Some s \<Rightarrow> columns s)"

definition same_column :: "ColumnDefinition \<Rightarrow> ColumnDefinition \<Rightarrow> bool" where
  "same_column c c' \<longleftrightarrow> col_name c = col_name c' \<and> col_type c = col_type c' \<and> col_constraint c = col_constraint c' \<and>
     rel_option same_value (col_default c) (col_default (loaded_column c'))"

definition restored_record :: "ChangeRecord \<Rightarrow> ChangeRecord \<Rightarrow> bool" where
  "restored_record r r' \<longleftrightarrow>
     rec_kind r' = rec_kind r \<and> rec_database r' = rec_database r \<and> rec_table r' = rec_table r \<and>
     rec_timestamp r' = rec_timestamp r \<and> rec_row_id r' = rec_row_id r \<and>
     list_all2 same_column (schema_columns r') (schema_columns r) \<and>
     rel_option same_row (before_row r') (before_row r) \<and> rel_option same_row (after_row r') (after_row r)"

abbreviation history_line :: "history_reader \<times> bool \<Rightarrow> string \<Rightarrow> (history_reader \<times> bool) \<times> bool Result" where
  "history_line \<equiv> read_line read_history_record"

lemma read_event_line:
  "history_line ((None, loaded, p), True)
     (join_tab [''EVENT'', ''kind='' @ ChangeKindName (rec_kind r), ''db='' @ Escape (rec_database r),
        ''table='' @ Escape (rec_table r), ''timestamp='' @ Escape (rec_timestamp r),
        ''row_id='' @ nat_to_string (unat (rec_row_id r))])
   = (((Some (r\<lparr>rec_schema := None, before_row := None, after_row := None\<rparr>), loaded, p), True), Inr True)"
proof -
  let ?fs = "[''EVENT'', ''kind='' @ ChangeKindName (rec_kind r), ''db='' @ Escape (rec_database r),
        ''table='' @ Escape (rec_table r), ''timestamp='' @ Escape (rec_timestamp r),
        ''row_id='' @ nat_to_string (unat (rec_row_id r))]"
  have "history_line ((None, loaded, p), True) (join_tab ?fs)
      = (case read_history_record (None, loaded, p) ?fs of (s', r) \<Rightarrow> ((s', True), r))"
    by (rule read_line_record) (simp_all add: kFormatTag_def)
  moreover have "read_event ?fs = Some (r\<lparr>rec_schema := None, before_row := None, after_row := None\<rparr>)"
    by (cases r) (simp add: read_event_def FindFieldValue_def ParseKeyValueToken_def read_row_id_def)
  then have "read_history_record (None, loaded, p) ?fs
      = ((Some (r\<lparr>rec_schema := None, before_row := None, after_row := None\<rparr>), loaded, p), Inr True)"
    by (simp add: read_history_record_def)
  ultimately show ?thesis by (simp only: prod.case)
qed

lemma read_schema_line:
  assumes "pool_wf p"
  shows "\<exists>c' p'. history_line ((Some r, loaded, p), True) (join_tab (''SCHEMA_COLUMN'' # column_fields c))
      = (((Some (r\<lparr>rec_schema := Some ((pending_schema r)\<lparr>columns := columns (pending_schema r) @ [c']\<rparr>)\<rparr>), loaded, p'), True), Inr True) \<and>
      same_column c' c \<and> pool_wf p'"
proof -
  let ?fs = "''SCHEMA_COLUMN'' # column_fields c"
  have line: "history_line ((Some r, loaded, p), True) (join_tab ?fs)
      = (case read_history_record (Some r, loaded, p) ?fs of (s', r) \<Rightarrow> ((s', True), r))"
    by (rule read_line_record) (simp_all add: column_fields_eq kFormatTag_def)
  have c: "named_column ?fs = Some (Some (loaded_column c))"
    using named_column_fields [of "[]" "''SCHEMA_COLUMN''" c] by simp
  have "\<exists>w p'. (case col_default (loaded_column c) of None \<Rightarrow> (None, p)
        | Some v \<Rightarrow> (case intern_value v p of (w, p') \<Rightarrow> (Some w, p'))) = (w, p') \<and>
      rel_option same_value w (col_default (loaded_column c)) \<and> pool_wf p'"
  proof (cases "col_default (loaded_column c)")
    case (Some v)
    then have "plain_value v = v" by (auto simp: loaded_column_def split: option.splits if_splits) (case_tac x2; simp)
    with Some assms intern_plain [of p v] show ?thesis by (cases "intern_value v p") auto
  qed (use assms in auto)
  then obtain w p' where w: "(case col_default (loaded_column c) of None \<Rightarrow> (None, p)
        | Some v \<Rightarrow> (case intern_value v p of (w, p') \<Rightarrow> (Some w, p'))) = (w, p')"
      "rel_option same_value w (col_default (loaded_column c))" "pool_wf p'" by blast
  have "read_history_record (Some r, loaded, p) ?fs = ((Some (r\<lparr>rec_schema := Some ((pending_schema r)\<lparr>columns :=
      columns (pending_schema r) @ [(loaded_column c)\<lparr>col_default := w\<rparr>]\<rparr>)\<rparr>), loaded, p'), Inr True)"
    using w(1) by (simp add: read_history_record_def read_schema_column_def c Let_def)
  with line w show ?thesis
    by (intro exI [of _ "(loaded_column c)\<lparr>col_default := w\<rparr>"] exI [of _ p']) (simp add: same_column_def)
qed

lemma read_schema_lines:
  assumes "pool_wf p"
  shows "\<exists>r' p'. read_lines history_line (map (\<lambda>c. join_tab (''SCHEMA_COLUMN'' # column_fields c)) cols) ((Some r, loaded, p), True)
      = (((Some r', loaded, p'), True), Inr True) \<and> pool_wf p' \<and> (\<exists>s. r' = r\<lparr>rec_schema := s\<rparr>) \<and>
      (\<exists>cols'. schema_columns r' = schema_columns r @ cols' \<and> list_all2 same_column cols' cols)"
  using assms
proof (induction cols arbitrary: r p)
  case Nil
  then show ?case by (intro exI [of _ r] exI [of _ p]) (auto intro: exI [of _ "rec_schema r"])
next
  case (Cons c cols)
  let ?r = "\<lambda>c'. r\<lparr>rec_schema := Some ((pending_schema r)\<lparr>columns := columns (pending_schema r) @ [c']\<rparr>)\<rparr>"
  from read_schema_line [OF Cons.prems] obtain c' p1 where
    c': "history_line ((Some r, loaded, p), True) (join_tab (''SCHEMA_COLUMN'' # column_fields c))
      = (((Some (?r c'), loaded, p1), True), Inr True)" "same_column c' c" "pool_wf p1" by blast
  have cols: "schema_columns (?r c') = schema_columns r @ [c']"
    by (simp add: schema_columns_def pending_schema_def split: option.splits)
  from Cons.IH [OF c'(3), of "?r c'"] obtain r' p' s cols' where
    "read_lines history_line (map (\<lambda>c. join_tab (''SCHEMA_COLUMN'' # column_fields c)) cols) ((Some (?r c'), loaded, p1), True)
      = (((Some r', loaded, p'), True), Inr True)" "pool_wf p'" "r' = (?r c')\<lparr>rec_schema := s\<rparr>"
      "schema_columns r' = schema_columns (?r c') @ cols'" "list_all2 same_column cols' cols" by blast
  with c' cols show ?case
    by (intro exI [of _ r'] exI [of _ p']) (auto simp del: join_tab.simps intro: exI [of _ "c' # cols'"])
qed

lemma read_image_line:
  assumes "pool_wf p" "tag = ''BEFORE'' \<or> tag = ''AFTER''"
  shows "\<exists>row' p'. history_line ((Some r, loaded, p), True) (join_tab (tag # row_fields row))
      = (((Some (if tag = ''BEFORE'' then r\<lparr>before_row := Some row'\<rparr> else r\<lparr>after_row := Some row'\<rparr>), loaded, p'), True), Inr True) \<and>
      same_row row' row \<and> pool_wf p'"
proof -
  let ?fs = "tag # row_fields row"
  have line: "history_line ((Some r, loaded, p), True) (join_tab ?fs)
      = (case read_history_record (Some r, loaded, p) ?fs of (s', r) \<Rightarrow> ((s', True), r))"
    using assms(2) by (intro read_line_record) (auto simp: row_fields_def kFormatTag_def)
  from read_values_fields [of history_value, OF _ assms(1), of "row_values row"] obtain ws p' where
    ws: "read_values history_value (map value_field (row_values row)) p = (ws, p', True)"
      "list_all2 same_value ws (row_values row)" "pool_wf p'" by auto
  then have "read_values history_value (drop 1 ?fs) p = (ws, p', True)"
    by (simp add: row_fields_eq history_value_def [of "_ # _"] ParseKeyValueToken_def)
  moreover have "read_row_id ?fs = Some (row_id row)"
    by (simp add: read_row_id_def FindFieldValue_def ParseKeyValueToken_def row_fields_eq)
  ultimately have "read_history_record (Some r, loaded, p) ?fs
      = ((Some (if tag = ''BEFORE'' then r\<lparr>before_row := Some \<lparr>row_id = row_id row, row_values = ws\<rparr>\<rparr>
                else r\<lparr>after_row := Some \<lparr>row_id = row_id row, row_values = ws\<rparr>\<rparr>), loaded, p'), Inr True)"
    using assms(2) by (auto simp: read_history_record_def Let_def)
  with line ws show ?thesis
    by (intro exI [of _ "\<lparr>row_id = row_id row, row_values = ws\<rparr>"] exI [of _ p']) (simp add: same_row_def)
qed

lemma event_end_line:
  "history_line ((Some r, loaded, p), True) ''EVENT_END'' = (((None, loaded @ [r], p), True), Inr True)"
  by (simp add: read_line_def persistence_SplitByTab_def kFormatTag_def read_history_record_def)

lemma read_record_lines:
  assumes "pool_wf p"
  shows "\<exists>r' p'. read_lines history_line (record_lines r) ((None, loaded, p), True)
      = (((None, loaded @ [r'], p'), True), Inr True) \<and> restored_record r r' \<and> pool_wf p'"
proof -
  let ?r0 = "r\<lparr>rec_schema := None, before_row := None, after_row := None\<rparr>"
  let ?schema = "map (\<lambda>c. join_tab (''SCHEMA_COLUMN'' # column_fields c)) (schema_columns r)"
  let ?before = "case before_row r of None \<Rightarrow> [] | Some row \<Rightarrow> [join_tab (''BEFORE'' # row_fields row)]"
  let ?after = "case after_row r of None \<Rightarrow> [] | Some row \<Rightarrow> [join_tab (''AFTER'' # row_fields row)]"
  from read_schema_lines [OF assms, of "schema_columns r" ?r0 loaded] obtain r1 p1 s where
    r1: "read_lines history_line ?schema ((Some ?r0, loaded, p), True) = (((Some r1, loaded, p1), True), Inr True)"
      "pool_wf p1" "r1 = ?r0\<lparr>rec_schema := s\<rparr>" "list_all2 same_column (schema_columns r1) (schema_columns r)"
    by (auto simp: schema_columns_def)
  have "\<exists>x p2. read_lines history_line ?before ((Some r1, loaded, p1), True)
      = (((Some (r1\<lparr>before_row := x\<rparr>), loaded, p2), True), Inr True) \<and> pool_wf p2 \<and> rel_option same_row x (before_row r)"
  proof (cases "before_row r")
    case None
    moreover have "r1\<lparr>before_row := None\<rparr> = r1" using r1(3) by simp
    ultimately show ?thesis using r1(2) by (intro exI [of _ None] exI [of _ p1]) simp
  next
    case (Some row)
    from read_image_line [OF r1(2), of "''BEFORE''" r1 loaded row] obtain row' p2 where
      "history_line ((Some r1, loaded, p1), True) (join_tab (''BEFORE'' # row_fields row))
        = (((Some (r1\<lparr>before_row := Some row'\<rparr>), loaded, p2), True), Inr True)" "same_row row' row" "pool_wf p2" by auto
    with Some show ?thesis by (intro exI [of _ "Some row'"] exI [of _ p2]) (simp del: join_tab.simps)
  qed
  then obtain x p2 where x: "read_lines history_line ?before ((Some r1, loaded, p1), True)
      = (((Some (r1\<lparr>before_row := x\<rparr>), loaded, p2), True), Inr True)" "pool_wf p2" "rel_option same_row x (before_row r)" by blast
  let ?r2 = "r1\<lparr>before_row := x\<rparr>"
  have "\<exists>y p3. read_lines history_line ?after ((Some ?r2, loaded, p2), True)
      = (((Some (?r2\<lparr>after_row := y\<rparr>), loaded, p3), True), Inr True) \<and> pool_wf p3 \<and> rel_option same_row y (after_row r)"
  proof (cases "after_row r")
    case None
    moreover have "?r2\<lparr>after_row := None\<rparr> = ?r2" using r1(3) by simp
    ultimately show ?thesis using x(2) by (intro exI [of _ None] exI [of _ p2]) simp
  next
    case (Some row)
    from read_image_line [OF x(2), of "''AFTER''" ?r2 loaded row] obtain row' p3 where
      "history_line ((Some ?r2, loaded, p2), True) (join_tab (''AFTER'' # row_fields row))
        = (((Some (?r2\<lparr>after_row := Some row'\<rparr>), loaded, p3), True), Inr True)" "same_row row' row" "pool_wf p3" by auto
    with Some show ?thesis by (intro exI [of _ "Some row'"] exI [of _ p3]) (simp del: join_tab.simps)
  qed
  then obtain y p3 where y: "read_lines history_line ?after ((Some ?r2, loaded, p2), True)
      = (((Some (?r2\<lparr>after_row := y\<rparr>), loaded, p3), True), Inr True)" "pool_wf p3" "rel_option same_row y (after_row r)" by blast
  have "record_lines r = join_tab [''EVENT'', ''kind='' @ ChangeKindName (rec_kind r), ''db='' @ Escape (rec_database r),
        ''table='' @ Escape (rec_table r), ''timestamp='' @ Escape (rec_timestamp r),
        ''row_id='' @ nat_to_string (unat (rec_row_id r))] # ?schema @ ?before @ ?after @ [''EVENT_END'', []]"
    by (simp add: record_lines_def schema_columns_def persistence_Escape_def split: option.splits)
  moreover have "restored_record r (?r2\<lparr>after_row := y\<rparr>)"
    using r1(3,4) x(3) y(3) by (simp add: restored_record_def schema_columns_def)
  ultimately show ?thesis
    using read_event_line [of loaded p r] read_lines_append [OF r1(1)] read_lines_append [OF x(1)] read_lines_append [OF y(1)] y(2)
    by (intro exI [of _ "?r2\<lparr>after_row := y\<rparr>"] exI [of _ p3]) (simp add: event_end_line del: join_tab.simps)
qed

lemma read_records:
  assumes "pool_wf p"
  shows "\<exists>rs' p'. read_lines history_line (concat (map record_lines rs)) ((None, loaded, p), True)
      = (((None, loaded @ rs', p'), True), Inr True) \<and> list_all2 restored_record rs rs' \<and> pool_wf p'"
  using assms
proof (induction rs arbitrary: loaded p)
  case Nil
  then show ?case by (intro exI [of _ "[]"] exI [of _ p]) simp
next
  case (Cons r rs)
  from read_record_lines [OF Cons.prems] obtain r' p1 where
    r': "read_lines history_line (record_lines r) ((None, loaded, p), True) = (((None, loaded @ [r'], p1), True), Inr True)"
      "restored_record r r'" "pool_wf p1" by blast
  from Cons.IH [OF r'(3), of "loaded @ [r']"] obtain rs' p' where
    "read_lines history_line (concat (map record_lines rs)) ((None, loaded @ [r'], p1), True)
      = (((None, (loaded @ [r']) @ rs', p'), True), Inr True)" "list_all2 restored_record rs rs'" "pool_wf p'" by blast
  with r' read_lines_append [OF r'(1)] show ?case by (intro exI [of _ "r' # rs'"] exI [of _ p']) simp
qed

section \<open>The lines of the files\<close>

definition column_one_line :: "ColumnDefinition \<Rightarrow> bool" where
  "column_one_line c \<longleftrightarrow> one_line (col_name c) \<and> (case col_default c of None \<Rightarrow> True | Some v \<Rightarrow> value_one_line v)"

definition row_one_line :: "RowData \<Rightarrow> bool" where
  "row_one_line row \<longleftrightarrow> list_all value_one_line (row_values row)"

definition table_one_line :: "string \<times> TableRuntime \<Rightarrow> bool" where
  "table_one_line x \<longleftrightarrow> one_line (fst x) \<and> list_all column_one_line (columns (schema (snd x))) \<and>
     list_all row_one_line (ScanAll (heap (snd x)))"

definition state_one_line :: "RuntimeState \<Rightarrow> bool" where
  "state_one_line st \<longleftrightarrow> list_all (\<lambda>x. one_line (fst x) \<and> list_all table_one_line (tables (snd x))) (databases st)"

definition record_one_line :: "ChangeRecord \<Rightarrow> bool" where
  "record_one_line r \<longleftrightarrow> one_line (rec_database r) \<and> one_line (rec_table r) \<and> one_line (rec_timestamp r) \<and>
     list_all column_one_line (schema_columns r) \<and> pred_option row_one_line (before_row r) \<and> pred_option row_one_line (after_row r)"

lemma column_fields_one_line: "column_one_line c \<Longrightarrow> f \<in> set (column_fields c) \<Longrightarrow> one_line f"
  by (auto simp: column_one_line_def column_fields_eq default_text_def split: option.splits)

lemma row_fields_one_line: "row_one_line row \<Longrightarrow> f \<in> set (row_fields row) \<Longrightarrow> one_line f"
  by (auto simp: row_one_line_def row_fields_def list_all_iff nat_to_string_plain)

lemma join_one_line: "newline \<in> set (join_tab fs) \<longleftrightarrow> (\<exists>f \<in> set fs. newline \<in> set f)"
  using set_join_tab [of newline fs] by simp

lemma headers_one_line: "\<forall>l \<in> set (state_header @ history_header). one_line l"
  by (simp add: state_header_def history_header_def kFormatTag_def kFormatVersion_def)

lemma table_lines_one_line:
  assumes "one_line d" "table_one_line x" "l \<in> set (table_lines d x)"
  shows "one_line l"
proof (cases x)
  case (Pair n t)
  with assms column_fields_one_line row_fields_one_line show ?thesis
    by (auto simp: table_lines_eq table_line_def column_line_def row_line_def join_one_line table_one_line_def list_all_iff
        simp del: join_tab.simps)
qed

lemma database_lines_one_line:
  assumes "one_line (fst x)" "list_all table_one_line (tables (snd x))" "l \<in> set (database_lines x)"
  shows "one_line l"
proof (cases x)
  case (Pair d db)
  with assms(3) consider "l = join_tab [''DATABASE'', ''name='' @ Escape d]" | y where "y \<in> set (tables db)" "l \<in> set (table_lines d y)"
    by (auto simp: database_lines_def persistence_Escape_def simp del: join_tab.simps)
  then show ?thesis
  proof cases
    case 1
    with assms(1) Pair show ?thesis by (simp add: join_one_line del: join_tab.simps)
  next
    case (2 y)
    with assms(1,2) Pair table_lines_one_line [of d y l] show ?thesis by (simp add: list_all_iff)
  qed
qed

lemma record_lines_one_line: "record_one_line r \<Longrightarrow> l \<in> set (record_lines r) \<Longrightarrow> one_line l"
  using column_fields_one_line row_fields_one_line
  by (cases "rec_schema r"; cases "before_row r"; cases "after_row r")
    (auto simp: record_one_line_def record_lines_def schema_columns_def join_one_line persistence_Escape_def list_all_iff
      nat_to_string_plain simp del: join_tab.simps)

lemma file_lines:
  "state_one_line st \<Longrightarrow> getlines (state_text st) = state_header @ concat (map database_lines (databases st))"
  "list_all record_one_line (AllRecords vs) \<Longrightarrow> getlines (history_text vs) = history_header @ concat (map record_lines (AllRecords vs))"
proof -
  let ?ls = "state_header @ concat (map database_lines (databases st))"
  assume "state_one_line st"
  then have "\<forall>l \<in> set ?ls. one_line l"
    using headers_one_line database_lines_one_line by (fastforce simp: state_one_line_def list_all_iff)
  from getlines_unlines [OF this, of "[]"] show "getlines (state_text st) = ?ls" by (simp add: state_text_def)
next
  let ?ls = "history_header @ concat (map record_lines (AllRecords vs))"
  assume "list_all record_one_line (AllRecords vs)"
  then have "\<forall>l \<in> set ?ls. one_line l"
    using headers_one_line record_lines_one_line by (fastforce simp: list_all_iff)
  from getlines_unlines [OF this, of "[]"] show "getlines (history_text vs) = ?ls" by (simp add: history_text_def)
qed

section \<open>Loading\<close>

text \<open>What a snapshot can represent: no name and no text in the tables and in the history has a newline.\<close>

definition saveable :: "RuntimeState \<Rightarrow> VersionStore \<Rightarrow> bool" where
  "saveable st vs \<longleftrightarrow> state_one_line st \<and> list_all record_one_line (AllRecords vs)"

lemma named_canonical:
  assumes "state_inv st" "named st" "x \<in> set (databases st)"
  shows "canonical_database x"
proof -
  obtain d db where x: "x = (d, db)" by (cases x)
  have "canonical_schema d n (schema t)" if t: "(n, t) \<in> set (tables db)" for n t
  proof -
    have "umap_wf (databases st)" "umap_wf (tables db)"
      using assms(1,3) x by (auto simp: state_inv_alt database_inv_def)
    then have "umap_find (databases st) d = Some db" "umap_find (tables db) n = Some t"
      using assms(3) x t by (simp_all add: umap_wf_find)
    with assms(2) show ?thesis unfolding named_def by blast
  qed
  then show ?thesis by (auto simp: canonical_database_def x)
qed

lemma restored_inv:
  assumes "state_inv st" "list_all2 (\<lambda>x y. restored_database x y \<and> database_inv (snd y)) (databases st) dbs"
  shows "state_inv \<lparr>databases = dbs\<rparr> \<and> restored st \<lparr>databases = dbs\<rparr>"
proof -
  have "map fst dbs = map fst (databases st)" using assms(2) by (rule list_all2_names) (simp add: restored_database_def)
  moreover have "\<forall>y \<in> set dbs. database_inv (snd y)" using assms(2) by (rule list_all2_right)
  ultimately show ?thesis
    using assms by (auto simp: state_inv_alt umap_wf_def restored_def elim: list_all2_mono)
qed

lemma Load_saved:
  assumes "state_inv st" "named st" "saveable st vs" "pool_wf p"
  shows "\<exists>st' vs' p'. Load (Some (state_text st), Some (history_text vs)) st0 vs0 p = ((st', vs', p'), Inr True) \<and>
    state_inv st' \<and> restored st st' \<and> list_all2 restored_record (AllRecords vs) (AllRecords vs') \<and> pool_wf p'"
proof -
  have "distinct (map fst ([] @ databases st))" "\<forall>x \<in> set (databases st). database_inv (snd x) \<and> canonical_database x"
    using assms(1) named_canonical [OF assms(1,2)] by (auto simp: state_inv_alt umap_wf_def)
  from read_databases [OF assms(4) this] obtain dbs p1 where
    d: "read_lines (read_line read_state_record) (concat (map database_lines (databases st))) ((\<lparr>databases = []\<rparr>, p), True)
      = (((\<lparr>databases = dbs\<rparr>, p1), True), Inr True)"
      "list_all2 (\<lambda>x y. restored_database x y \<and> database_inv (snd y)) (databases st) dbs" "pool_wf p1" by auto
  from read_records [OF d(3), of "AllRecords vs" "[]"] obtain rs p2 where
    r: "read_lines history_line (concat (map record_lines (AllRecords vs))) ((None, [], p1), True)
      = (((None, rs, p2), True), Inr True)" "list_all2 restored_record (AllRecords vs) rs" "pool_wf p2" by auto
  have inv: "state_inv \<lparr>databases = dbs\<rparr>" "restored st \<lparr>databases = dbs\<rparr>" using restored_inv [OF assms(1) d(2)] by auto
  have "st0\<lparr>databases := []\<rparr> = \<lparr>databases = []\<rparr>" by simp
  then have "Load (Some (state_text st), Some (history_text vs)) st0 vs0 p
      = ((\<lparr>databases = dbs\<rparr>, VersionReplaceAll rs vs0, p2), Inr True)"
    using d(1) r(1) assms(3) ValidateRuntimeIndexConsistency_pass [OF inv(1)]
    by (cases st0) (simp add: Load_def load_history_def file_lines saveable_def header_read MakeSuccess_def)
  then show ?thesis using inv r(2,3) by (simp add: VersionReplaceAll_def AllRecords_def)
qed

lemma timestamp_one_line [simp]: "one_line (GenerateTimestamp r)"
  by (simp add: GenerateTimestamp_def zero_padded_def Let_def nat_to_string_plain)

section \<open>Properties\<close>

lemma Save_complete: "Save io io' st vs files = (files', True) \<Longrightarrow> files' = (Some (state_text st), Some (history_text vs))"
  by (auto simp: Save_def replace_file_def Let_def split: prod.splits if_splits)

text \<open>
  C4. A snapshot of a state that admissible statements have reached, and of which both files were saved, loads again in a new process:
  every database and table with its columns and indexes, every row with its id and values, and the whole history; the loaded state
  passes the consistency check of the indexes. Names and texts must not contain newlines.
\<close>

theorem snapshot_roundtrip:
  assumes "reachable rx clk eng" "saveable (runtime eng) (versions eng)"
    and "Save io io' (runtime eng) (versions eng) files = (files', True)"
  shows "\<exists>st vs p. Load files' \<lparr>databases = []\<rparr> \<lparr>records = []\<rparr> empty_pool = ((st, vs, p), Inr True) \<and>
    restored (runtime eng) st \<and> list_all2 restored_record (AllRecords (versions eng)) (AllRecords vs) \<and>
    ValidateRuntimeIndexConsistency st = MakeSuccess True"
proof -
  have "state_inv (runtime eng)" "named (runtime eng)" using reachable_ok [OF assms(1)] by (simp_all add: engine_ok_def engine_inv_def)
  from Load_saved [OF this assms(2) pool_wf_empty] Save_complete [OF assms(3)] ValidateRuntimeIndexConsistency_pass
  show ?thesis by blast
qed

theorem snapshot_roundtrip_witness:
  "\<exists>files' st vs p. Save \<lparr>write_ok = True, remove_ok = True, rename_ok = True\<rparr> \<lparr>write_ok = True, remove_ok = True, rename_ok = True\<rparr>
      (runtime sample_engine) (versions sample_engine) (None, None) = (files', True) \<and>
    Load files' \<lparr>databases = []\<rparr> \<lparr>records = []\<rparr> empty_pool = ((st, vs, p), Inr True) \<and> restored (runtime sample_engine) st"
proof -
  have "saveable (runtime sample_engine) (versions sample_engine)"
    unfolding sample_engine_def
    by (simp add: sample_defs statement_defs row_defs tree_defs)
      (simp add: saveable_def state_one_line_def
        table_one_line_def column_one_line_def row_one_line_def record_one_line_def schema_columns_def AllRecords_def
        ScanAll_def)
  then show ?thesis
    using snapshot_roundtrip [OF sample_reachable, of "\<lparr>write_ok = True, remove_ok = True, rename_ok = True\<rparr>"
        "\<lparr>write_ok = True, remove_ok = True, rename_ok = True\<rparr>" "(None, None)"]
    by (simp add: Save_def replace_file_def) blast
qed

text \<open>
  \<^verbatim>\<open>Save\<close> removes the old file before it renames the new one: when it stops in between, or the renaming fails, there is
  no state file left, and the next \<^verbatim>\<open>Load\<close> reports success with an empty database.
\<close>

theorem save_interrupted_loses_state:
  "Save \<lparr>write_ok = True, remove_ok = True, rename_ok = False\<rparr> io st vs (Some old, history_file) = ((None, history_file), False) \<and>
   Load (None, history_file) \<lparr>databases = []\<rparr> \<lparr>records = []\<rparr> p = ((\<lparr>databases = []\<rparr>, \<lparr>records = []\<rparr>, p), Inr True)"
  by (simp add: Save_def replace_file_def Load_def)

text \<open>A table with one row whose text has a newline.\<close>

definition two_line_table :: TableRuntime where
  "two_line_table =
     (let s = \<lparr>schema_database = ''d'', schema_table = ''t'',
               columns = [\<lparr>col_name = ''k'', col_type = kString, col_constraint = kNone, col_default = None\<rparr>], schema_indexes = []\<rparr>
      in \<lparr>schema = s, heap = \<lparr>heap_schema = s, heap_rows = [\<lparr>row_id = 0, row_values = [Str (''a'' @ newline # ''b'')]\<rparr>], next_row_id = 1\<rparr>,
          indexes = []\<rparr>)"

definition two_line_state :: RuntimeState where
  "two_line_state = \<lparr>databases = [(''d'', \<lparr>db_name = ''d'', tables = [(''t'', two_line_table)]\<rparr>)]\<rparr>"

lemma two_line_lines:
  "getlines (state_text two_line_state) = state_header @
     [''DATABASE'' @ tab # ''name=d'', ''# Database: d'', ''# Table: t'', ''TABLE'' @ tab # ''db=d'' @ tab # ''name=t'',
      ''COLUMN'' @ tab # ''db=d'' @ tab # ''table=t'' @ tab # ''name=k'' @ tab # ''type=STRING'' @ tab # ''constraint=NONE'' @
        tab # ''default=Null'',
      ''ROW'' @ tab # ''db=d'' @ tab # ''table=t'' @ tab # ''row_id=0'' @ tab # ''value=String:a'' @ [CHR 0x5C], ''b'', []]"
  (is "_ = state_header @ ?ls")
proof -
  have "state_text two_line_state = unlines (state_header @ ?ls) @ []"
    by (simp add: state_text_def two_line_state_def database_lines_def table_lines_def two_line_table_def Let_def
        persistence_Escape_def column_fields_def row_fields_def ScanAll_def nat_to_string.simps digit_char_def digit_chars)
  moreover have "\<forall>l \<in> set (state_header @ ?ls). one_line l" using headers_one_line by simp
  ultimately show ?thesis using getlines_unlines [of "state_header @ ?ls" "[]"] by simp
qed

text \<open>
  A text with a newline in the last column is cut at the newline by saving and loading, and \<^verbatim>\<open>Load\<close> reports success: the
  rest of the text is taken for an unknown record and ignored.
\<close>

theorem snapshot_newline_cuts:
  "\<exists>st p t. Load (Some (state_text two_line_state), None) \<lparr>databases = []\<rparr> \<lparr>records = []\<rparr> empty_pool
      = ((st, \<lparr>records = []\<rparr>, p), Inr True) \<and>
    find_table st ''d'' ''t'' = Some t \<and> map row_values (ScanAll (heap t)) = [[IStr (Interned 0 ''a'')]]"
  by (simp add: Load_def two_line_lines header_read load_history_def VersionClear_def)
    (simp add: read_line_def persistence_SplitByTab_def kFormatTag_def read_state_record_def FindFieldValue_def ParseKeyValueToken_def
      add_database_def empty_database_def umap_emplace_def umap_find_def umap_assign_def read_table_def record_names_def
      persistence_Unescape_def change_database_def empty_table_def Let_def read_column_def named_column_def ParseValueType_def
      ParseConstraint_def TryDecodeValue_def find_table_def set_table_def add_column_def read_row_def read_row_id_def
      named_value_def has_prefix_def intern_value_def Intern_def empty_pool_def add_row_def HeapInsert_def make_heap_def ScanAll_def
      stoull_def scan_number_def read_sign_def is_space_def is_digit_def digits_value_def load_history_def VersionClear_def)

end
