(* ===== verification/Lexer.thy ===== *)
theory Lexer
  imports Text_Fields
begin

text \<open>
  The lexer (\<^verbatim>\<open>src/parser/lexer.cpp\<close>): the tokens of an SQL text. The character classes are those of
  \<^verbatim>\<open><cctype>\<close> in the C locale, which the program never changes: bytes above 127 belong to none of them.
\<close>

section \<open>Characters\<close>

definition is_upper :: "char \<Rightarrow> bool" where
  "is_upper c \<longleftrightarrow> 65 \<le> (of_char c :: nat) \<and> (of_char c :: nat) \<le> 90"

definition is_lower :: "char \<Rightarrow> bool" where
  "is_lower c \<longleftrightarrow> 97 \<le> (of_char c :: nat) \<and> (of_char c :: nat) \<le> 122"

definition is_alpha :: "char \<Rightarrow> bool" where
  "is_alpha c \<longleftrightarrow> is_upper c \<or> is_lower c"

definition is_alnum :: "char \<Rightarrow> bool" where
  "is_alnum c \<longleftrightarrow> is_alpha c \<or> is_digit c"

definition to_upper :: "char \<Rightarrow> char" where
  "to_upper c = (if is_lower c then char_of ((of_char c :: nat) - 32) else c)"

abbreviation word_char :: "char \<Rightarrow> bool" where
  "word_char c \<equiv> is_alnum c \<or> c = CHR ''_''"

section \<open>Tokens\<close>

record Token =
  lexeme :: string

text \<open>The inner loop of a string literal: the literal so far, and the rest of the text.\<close>

fun scan_literal :: "string \<Rightarrow> string \<Rightarrow> string \<times> string" where
  "scan_literal literal [] = (literal, [])"
| "scan_literal literal (c # s) =
     (let literal' = literal @ [c]
      in if c = quotation_mark \<and> length literal' > 1 \<and> literal' ! (length literal' - 2) \<noteq> backslash
         then (literal', s)
         else scan_literal literal' s)"

lemma scan_literal_length: "scan_literal literal s = (l, r) \<Longrightarrow> length r \<le> length s"
  by (induction literal s arbitrary: l r rule: scan_literal.induct) (force simp: Let_def split: if_splits)+

definition operator_pair :: "string \<Rightarrow> bool" where
  "operator_pair two \<longleftrightarrow> two = ''=='' \<or> two = ''!='' \<or> two = ''<='' \<or> two = ''>=''"

text \<open>One token, from its first character: the token and the rest of the text.\<close>

definition next_token :: "char \<Rightarrow> string \<Rightarrow> Token \<times> string" where
  "next_token ch s =
     (if s \<noteq> [] \<and> operator_pair (take 2 (ch # s))
      then (\<lparr>lexeme = take 2 (ch # s)\<rparr>, drop 1 s)
      else if ch = quotation_mark
      then (case scan_literal [ch] s of (literal, rest) \<Rightarrow> (\<lparr>lexeme = literal\<rparr>, rest))
      else if word_char ch
      then (\<lparr>lexeme = takeWhile word_char (ch # s)\<rparr>, dropWhile word_char (ch # s))
      else (\<lparr>lexeme = [ch]\<rparr>, s))"

lemma next_token_length: "next_token ch s = (t, r) \<Longrightarrow> length r \<le> length s"
  by (auto simp: next_token_def length_dropWhile_le dest: scan_literal_length split: if_splits prod.splits)

function Tokenize :: "string \<Rightarrow> Token list" where
  "Tokenize [] = []"
| "Tokenize (ch # s) =
     (if is_space ch then Tokenize s
      else case next_token ch s of (token, rest) \<Rightarrow> token # Tokenize rest)"
  by pat_completeness auto
termination
  by (relation "measure length") (auto simp: less_Suc_eq_le dest: next_token_length [OF sym])

end
