(* ===== verification/Parser.thy ===== *)
theory Parser
  imports Ast Lexer
begin

text \<open>
  The parser (\<^verbatim>\<open>src/parser/parser.cpp\<close>). A parsing function takes the cursor and returns the value and the cursor after
  it, or the text of the exception it throws; \<open>Parse\<close> catches every exception. The recursive descent
  of the expressions is a total function: every nested call is made on fewer tokens.
\<close>

section \<open>Words\<close>

definition ToUpper :: "string \<Rightarrow> string" where
  "ToUpper s = map to_upper s"

definition HasMixedLetterCase :: "string \<Rightarrow> bool" where
  "HasMixedLetterCase token \<longleftrightarrow> list_ex is_upper token \<and> list_ex is_lower token"

definition IsIdentifier :: "string \<Rightarrow> bool" where
  "IsIdentifier token =
     (case token of
        [] \<Rightarrow> False
      | c # _ \<Rightarrow> if \<not> is_alpha c \<and> c \<noteq> CHR ''_'' then False else list_all word_char token)"

section \<open>The cursor\<close>

record Cursor =
  tokens :: "Token list"
  pos :: nat

type_synonym 'a Parsed = "string + 'a \<times> Cursor"

definition parse_bind :: "'a Parsed \<Rightarrow> ('a \<Rightarrow> Cursor \<Rightarrow> 'b Parsed) \<Rightarrow> 'b Parsed" where
  "parse_bind r f = (case r of Inl e \<Rightarrow> Inl e | Inr (x, c) \<Rightarrow> f x c)"

lemma parse_bind_cong [fundef_cong]:
  "r = r' \<Longrightarrow> (\<And>x c. r' = Inr (x, c) \<Longrightarrow> f x c = f' x c) \<Longrightarrow> parse_bind r f = parse_bind r' f'"
  by (auto simp: parse_bind_def split: sum.splits)

lemma parse_bind_simps [simp]:
  "parse_bind (Inl e) f = Inl e" "parse_bind (Inr (x, c)) f = f x c"
  by (simp_all add: parse_bind_def)

lemma parse_bind_eq_Inr:
  "parse_bind r f = Inr y \<longleftrightarrow> (\<exists>x c. r = Inr (x, c) \<and> f x c = Inr y)"
  by (auto simp: parse_bind_def split: sum.splits prod.splits)

definition Has :: "Cursor \<Rightarrow> bool" where
  "Has c \<longleftrightarrow> pos c < length (tokens c)"

definition Peek :: "Cursor \<Rightarrow> string" where
  "Peek c = (if Has c then lexeme (tokens c ! pos c) else [])"

definition Take :: "Cursor \<Rightarrow> string Parsed" where
  "Take c =
     (if \<not> Has c then Inl ''unexpected end of input''
      else Inr (lexeme (tokens c ! pos c), c\<lparr>pos := pos c + 1\<rparr>))"

definition MatchKeyword :: "string \<Rightarrow> Cursor \<Rightarrow> bool Parsed" where
  "MatchKeyword kw c =
     (if \<not> Has c then Inr (False, c)
      else if ToUpper (Peek c) \<noteq> kw then Inr (False, c)
      else if HasMixedLetterCase (Peek c) then Inl (''mixed keyword case is not allowed: '' @ Peek c)
      else Inr (True, c\<lparr>pos := pos c + 1\<rparr>))"

definition Match :: "string \<Rightarrow> Cursor \<Rightarrow> bool \<times> Cursor" where
  "Match token c = (if \<not> Has c \<or> Peek c \<noteq> token then (False, c) else (True, c\<lparr>pos := pos c + 1\<rparr>))"

definition Expect :: "string \<Rightarrow> Cursor \<Rightarrow> unit Parsed" where
  "Expect token c =
     (case Match token c of (m, c) \<Rightarrow> if \<not> m then Inl (''expected token: '' @ token) else Inr ((), c))"

definition ExpectKeyword :: "string \<Rightarrow> Cursor \<Rightarrow> unit Parsed" where
  "ExpectKeyword kw c =
     parse_bind (MatchKeyword kw c) (\<lambda>m c. if \<not> m then Inl (''expected keyword: '' @ kw) else Inr ((), c))"

definition TakeIdentifier :: "Cursor \<Rightarrow> string Parsed" where
  "TakeIdentifier c =
     parse_bind (Take c) (\<lambda>token c.
       if \<not> IsIdentifier token then Inl (''invalid identifier: '' @ token) else Inr (token, c))"

text \<open>The tokens that are left, and how a call moves the cursor.\<close>

definition remaining :: "Cursor \<Rightarrow> nat" where
  "remaining c = length (tokens c) - pos c"

definition leaves_less :: "nat \<Rightarrow> 'a Parsed \<Rightarrow> bool" where
  "leaves_less n r \<longleftrightarrow> (\<forall>x c. r = Inr (x, c) \<longrightarrow> remaining c < n)"

lemma Take_shrinks: "Take c = Inr (x, c') \<Longrightarrow> remaining c' < remaining c"
  by (auto simp: Take_def remaining_def Has_def split: if_splits)

lemma MatchKeyword_shrinks:
  "MatchKeyword kw c = Inr (True, c') \<Longrightarrow> remaining c' < remaining c"
  "MatchKeyword kw c = Inr (False, c') \<Longrightarrow> c' = c"
  by (auto simp: MatchKeyword_def remaining_def Has_def split: if_splits)

lemma Match_shrinks:
  "Match t c = (True, c') \<Longrightarrow> remaining c' < remaining c"
  "Match t c = (False, c') \<Longrightarrow> c' = c"
  by (auto simp: Match_def remaining_def Has_def split: if_splits)

lemmas Match_shrinks_sym = Match_shrinks [OF sym]

lemma parse_bindE:
  assumes "parse_bind r f = Inr y"
  obtains x c where "r = Inr (x, c)" "f x c = Inr y"
  using assms by (auto simp: parse_bind_eq_Inr)

lemma Match_caseE:
  assumes "(case Match t c of (m, c') \<Rightarrow> f m c') = Inr y"
  obtains c' where "Match t c = (True, c')" "remaining c' < remaining c" "f True c' = Inr y"
  | "Match t c = (False, c)" "f False c = Inr y"
  using assms Match_shrinks [of t c] by (cases "Match t c"; cases "fst (Match t c)") force+

lemma MatchKeyword_bindE:
  assumes "parse_bind (MatchKeyword kw c) f = Inr y"
  obtains c' where "MatchKeyword kw c = Inr (True, c')" "remaining c' < remaining c" "f True c' = Inr y"
  | "MatchKeyword kw c = Inr (False, c)" "f False c = Inr y"
  using assms MatchKeyword_shrinks [of kw c] by (auto simp: parse_bind_eq_Inr) (metis (full_types))

lemma leaves_less_bindI:
  "(\<And>x c. r = Inr (x, c) \<Longrightarrow> leaves_less n (f x c)) \<Longrightarrow> leaves_less n (parse_bind r f)"
  unfolding leaves_less_def by (auto elim!: parse_bindE)

lemma leaves_less_MatchKeywordI:
  "(\<And>c'. MatchKeyword kw c = Inr (True, c') \<Longrightarrow> remaining c' < remaining c \<Longrightarrow> leaves_less n (f True c')) \<Longrightarrow>
   (MatchKeyword kw c = Inr (False, c) \<Longrightarrow> leaves_less n (f False c)) \<Longrightarrow> leaves_less n (parse_bind (MatchKeyword kw c) f)"
  unfolding leaves_less_def by (auto elim!: MatchKeyword_bindE)

lemma leaves_less_MatchI:
  "(\<And>c'. Match t c = (True, c') \<Longrightarrow> remaining c' < remaining c \<Longrightarrow> leaves_less n (f True c')) \<Longrightarrow>
   (Match t c = (False, c) \<Longrightarrow> leaves_less n (f False c)) \<Longrightarrow> leaves_less n (case Match t c of (m, c') \<Rightarrow> f m c')"
  unfolding leaves_less_def by (auto elim!: Match_caseE)

lemma leaves_less_simps [simp]:
  "leaves_less n (Inl e)" "leaves_less n (Inr (x, c)) \<longleftrightarrow> remaining c < n"
  by (simp_all add: leaves_less_def)

lemma leaves_lessD: "leaves_less n r \<Longrightarrow> r = Inr (x, c) \<Longrightarrow> remaining c < n"
  by (simp add: leaves_less_def)

lemma leaves_less_mono: "leaves_less m r \<Longrightarrow> m \<le> n \<Longrightarrow> leaves_less n r"
  by (auto simp: leaves_less_def)

lemma leaves_less_seq:
  assumes "leaves_less n r" "\<And>x c. r = Inr (x, c) \<Longrightarrow> leaves_less (Suc (remaining c)) (f x c)"
  shows "leaves_less n (parse_bind r f)"
  by (intro leaves_less_bindI leaves_less_mono [OF assms(2)]) (auto dest: leaves_lessD [OF assms(1)])

lemma leaves_less_loop:
  assumes "\<And>m c'. MatchKeyword kw c = Inr (m, c') \<Longrightarrow> m \<Longrightarrow> leaves_less (remaining c') (p c')"
    and "\<And>m c' x c''. MatchKeyword kw c = Inr (m, c') \<Longrightarrow> m \<Longrightarrow> p c' = Inr (x, c'') \<Longrightarrow>
      leaves_less (Suc (remaining c'')) (loop x c'')"
  shows "leaves_less (Suc (remaining c)) (parse_bind (MatchKeyword kw c) (\<lambda>m c. if m then parse_bind (p c) loop else Inr (left, c)))"
proof (rule leaves_less_MatchKeywordI)
  fix c'
  assume m: "MatchKeyword kw c = Inr (True, c')" "remaining c' < remaining c"
  have "leaves_less (remaining c') (parse_bind (p c') loop)"
    by (rule leaves_less_seq [OF assms(1) [OF m(1)] assms(2) [OF m(1)]]) simp_all
  with m(2) show "leaves_less (Suc (remaining c)) (if True then parse_bind (p c') loop else Inr (left, c'))"
    by (simp add: leaves_less_mono)
qed simp

lemmas leaves_less_intros = leaves_less_MatchI leaves_less_MatchKeywordI leaves_less_bindI

lemmas parse_elims = Match_caseE MatchKeyword_bindE parse_bindE

lemma Expect_shrinks: "Expect t c = Inr (u, c') \<Longrightarrow> remaining c' < remaining c"
  unfolding Expect_def by (erule Match_caseE) auto

lemma ExpectKeyword_shrinks: "ExpectKeyword t c = Inr (u, c') \<Longrightarrow> remaining c' < remaining c"
  unfolding ExpectKeyword_def by (erule MatchKeyword_bindE) auto

lemma TakeIdentifier_shrinks: "TakeIdentifier c = Inr (x, c') \<Longrightarrow> remaining c' < remaining c"
  unfolding TakeIdentifier_def by (erule parse_bindE) (auto split: if_splits dest: Take_shrinks)

section \<open>Literals and names\<close>

text \<open>\<^verbatim>\<open>std::stoll\<close> throws \<^verbatim>\<open>invalid_argument\<close> or \<^verbatim>\<open>out_of_range\<close>, both with its own name as text.\<close>

definition ParseLiteral :: "string \<Rightarrow> string + Value" where
  "ParseLiteral token =
     (if token = ''NULL'' \<or> token = ''null'' then Inr Monostate
      else if token \<noteq> [] \<and> hd token = quotation_mark \<and> last token = quotation_mark \<and> length token \<ge> 2
      then Inr (Str (take (length token - 2) (drop 1 token)))
      else case stoll token of
             None \<Rightarrow> Inl ''stoll''
           | Some (v, idx) \<Rightarrow>
               if idx \<noteq> length token then Inl (''invalid literal: '' @ token) else Inr (Int64 (word_of_int v)))"

definition ParseLiteralToken :: "Cursor \<Rightarrow> Value Parsed" where
  "ParseLiteralToken c =
     (case Match ''-'' c of (m, c) \<Rightarrow>
        parse_bind (Take c) (\<lambda>token c.
          case ParseLiteral (if m then ''-'' @ token else token) of Inl e \<Rightarrow> Inl e | Inr v \<Rightarrow> Inr (v, c)))"

definition ParseQualifiedName :: "Cursor \<Rightarrow> QualifiedName Parsed" where
  "ParseQualifiedName c =
     parse_bind (TakeIdentifier c) (\<lambda>first c.
       case Match ''.'' c of (m, c) \<Rightarrow>
         if m then parse_bind (TakeIdentifier c) (\<lambda>second c. Inr (\<lparr>database_name = Some first, object_name = second\<rparr>, c))
         else Inr (\<lparr>database_name = None, object_name = first\<rparr>, c))"

lemma ParseLiteralToken_shrinks: "ParseLiteralToken c = Inr (x, c') \<Longrightarrow> remaining c' < remaining c"
  unfolding ParseLiteralToken_def
  by (elim parse_elims) (force split: sum.splits dest: Take_shrinks)+

lemma ParseQualifiedName_shrinks: "ParseQualifiedName c = Inr (x, c') \<Longrightarrow> remaining c' < remaining c"
  unfolding ParseQualifiedName_def
  by (elim parse_elims) (auto elim!: parse_elims dest!: TakeIdentifier_shrinks)

lemmas shrink_rules = Take_shrinks MatchKeyword_shrinks Match_shrinks Match_shrinks_sym Expect_shrinks ExpectKeyword_shrinks
  TakeIdentifier_shrinks ParseLiteralToken_shrinks ParseQualifiedName_shrinks

section \<open>Expressions\<close>

definition ParseCmpOp :: "string \<Rightarrow> string + ComparisonOperator" where
  "ParseCmpOp token =
     (if token = ''=='' then Inr kEqual
      else if token = ''!='' then Inr kNotEqual
      else if token = ''<'' then Inr kLess
      else if token = ''>'' then Inr kGreater
      else if token = ''<='' then Inr kLessEqual
      else if token = ''>='' then Inr kGreaterEqual
      else Inl (''unknown comparison operator: '' @ token))"

definition ends_predicate :: "Cursor \<Rightarrow> bool" where
  "ends_predicate c \<longleftrightarrow>
     \<not> Has c \<or> Peek c = '')'' \<or> Peek c = '';'' \<or> ToUpper (Peek c) = ''AND'' \<or> ToUpper (Peek c) = ''OR''"

function ParsePrimary :: "Cursor \<Rightarrow> Expression Parsed"
  and ParsePredicate :: "Cursor \<Rightarrow> Expression Parsed"
  and and_loop :: "Expression \<Rightarrow> Cursor \<Rightarrow> Expression Parsed"
  and ParseAnd :: "Cursor \<Rightarrow> Expression Parsed"
  and or_loop :: "Expression \<Rightarrow> Cursor \<Rightarrow> Expression Parsed"
  and ParseExpression :: "Cursor \<Rightarrow> Expression Parsed" where
  "ParsePrimary c =
     (case Match ''('' c of (m, c) \<Rightarrow>
        if m then parse_bind (ParseExpression c) (\<lambda>inner c. parse_bind (Expect '')'' c) (\<lambda>_ c. Inr (inner, c)))
        else if IsIdentifier (Peek c)
        then parse_bind (ParseQualifiedName c) (\<lambda>q c. Inr (ColumnReferenceExpression (database_name q) None (object_name q), c))
        else parse_bind (ParseLiteralToken c) (\<lambda>v c. Inr (LiteralExpression v, c)))"
| "ParsePredicate c =
     parse_bind (ParsePrimary c) (\<lambda>left c.
       parse_bind (MatchKeyword ''BETWEEN'' c) (\<lambda>m c.
         if m
         then parse_bind (ParsePrimary c) (\<lambda>lower c.
                parse_bind (ExpectKeyword ''AND'' c) (\<lambda>_ c.
                  parse_bind (ParsePrimary c) (\<lambda>upper c. Inr (BetweenExpression left lower upper, c))))
         else parse_bind (MatchKeyword ''LIKE'' c) (\<lambda>m c.
                if m then parse_bind (ParsePrimary c) (\<lambda>pattern c. Inr (LikeExpression left pattern, c))
                else if ends_predicate c then Inr (left, c)
                else parse_bind (Take c) (\<lambda>op c.
                       parse_bind (ParsePrimary c) (\<lambda>right c.
                         case ParseCmpOp op of
                           Inl e \<Rightarrow> Inl e
                         | Inr cmp \<Rightarrow> Inr (BinaryComparisonExpression cmp left right, c))))))"
| "and_loop left c =
     parse_bind (MatchKeyword ''AND'' c) (\<lambda>m c.
       if m then parse_bind (ParsePredicate c) (\<lambda>right c. and_loop (LogicalExpression kAnd left right) c)
       else Inr (left, c))"
| "ParseAnd c = parse_bind (ParsePredicate c) (\<lambda>left c. and_loop left c)"
| "or_loop left c =
     parse_bind (MatchKeyword ''OR'' c) (\<lambda>m c.
       if m then parse_bind (ParseAnd c) (\<lambda>right c. or_loop (LogicalExpression kOr left right) c)
       else Inr (left, c))"
| "ParseExpression c = parse_bind (ParseAnd c) (\<lambda>left c. or_loop left c)"
  by pat_completeness auto

text \<open>Partial correctness first: a call that returns has consumed tokens.\<close>

lemma expression_shrinks:
  "ParsePrimary_ParsePredicate_and_loop_ParseAnd_or_loop_ParseExpression_dom (Inl (Inl c)) \<Longrightarrow> leaves_less (remaining c) (ParsePrimary c)"
  "ParsePrimary_ParsePredicate_and_loop_ParseAnd_or_loop_ParseExpression_dom (Inl (Inr (Inl c1))) \<Longrightarrow> leaves_less (remaining c1) (ParsePredicate c1)"
  "ParsePrimary_ParsePredicate_and_loop_ParseAnd_or_loop_ParseExpression_dom (Inl (Inr (Inr (left, c2)))) \<Longrightarrow>
     leaves_less (Suc (remaining c2)) (and_loop left c2)"
  "ParsePrimary_ParsePredicate_and_loop_ParseAnd_or_loop_ParseExpression_dom (Inr (Inl c3)) \<Longrightarrow> leaves_less (remaining c3) (ParseAnd c3)"
  "ParsePrimary_ParsePredicate_and_loop_ParseAnd_or_loop_ParseExpression_dom (Inr (Inr (Inl (left', c4)))) \<Longrightarrow>
     leaves_less (Suc (remaining c4)) (or_loop left' c4)"
  "ParsePrimary_ParsePredicate_and_loop_ParseAnd_or_loop_ParseExpression_dom (Inr (Inr (Inr c5))) \<Longrightarrow> leaves_less (remaining c5) (ParseExpression c5)"
proof (induction c and c1 and left c2 and c3 and left' c4 and c5 rule: ParsePrimary_ParsePredicate_and_loop_ParseAnd_or_loop_ParseExpression.pinduct)
  case (1 c)
  show ?case unfolding ParsePrimary.psimps [OF 1(1)]
    by (intro leaves_less_intros) (use 1(2) in \<open>fastforce dest: shrink_rules leaves_lessD intro!: leaves_less_intros split: if_splits\<close>)+
next
  case (2 c)
  show ?case unfolding ParsePredicate.psimps [OF 2(1)]
    apply (rule leaves_less_bindI, frule leaves_lessD [OF 2(2)])
    apply (rule leaves_less_MatchKeywordI; simp only: if_True if_False)
    subgoal for left c1 c2
      using 2(3) [of left c1 True c2] 2(4) [of left c1 True c2]
      by (intro leaves_less_bindI) (fastforce dest: leaves_lessD ExpectKeyword_shrinks)
    apply (rule leaves_less_MatchKeywordI; simp only: if_True if_False)
    subgoal for left c1 c2
      using 2(5) [of left c1 False c1 True c2] by (intro leaves_less_bindI) (fastforce dest: leaves_lessD)
    subgoal for left c1
    proof (cases "ends_predicate c1")
      case False
      assume a: "remaining c1 < remaining c" "ParsePrimary c = Inr (left, c1)" "MatchKeyword ''BETWEEN'' c1 = Inr (False, c1)"
        "MatchKeyword ''LIKE'' c1 = Inr (False, c1)"
      have "remaining c4 < remaining c" if "Take c1 = Inr (op, c3)" "ParsePrimary c3 = Inr (right, c4)" for op c3 right c4
        using leaves_lessD [OF 2(6) [OF a(2,3) _ a(4) _ False that(1)] that(2)] Take_shrinks [OF that(1)] a(1) by simp
      then show ?thesis unfolding if_not_P [OF False]
        by (intro leaves_less_bindI) (simp split: sum.split)
    qed simp
    done
next
  case (3 left c)
  show ?case unfolding and_loop.psimps [OF 3(1)] by (rule leaves_less_loop) (fact 3(2,3))+
next
  case (4 c)
  show ?case unfolding ParseAnd.psimps [OF 4(1)] by (rule leaves_less_seq) (fact 4(2,3))+
next
  case (5 left c)
  show ?case unfolding or_loop.psimps [OF 5(1)] by (rule leaves_less_loop) (fact 5(2,3))+
next
  case (6 c)
  show ?case unfolding ParseExpression.psimps [OF 6(1)] by (rule leaves_less_seq) (fact 6(2,3))+
qed

lemma expression_dom: "All ParsePrimary_ParsePredicate_and_loop_ParseAnd_or_loop_ParseExpression_dom"
proof (relation "measure (case_sum (case_sum (\<lambda>c. 6 * remaining c)
      (case_sum (\<lambda>c. 6 * remaining c + 1) (\<lambda>(left, c). 6 * remaining c + 2)))
      (case_sum (\<lambda>c. 6 * remaining c + 3) (case_sum (\<lambda>(left, c). 6 * remaining c + 4) (\<lambda>c. 6 * remaining c + 5))))",
    goal_cases)
qed (auto dest!: shrink_rules leaves_lessD [OF expression_shrinks(1)] leaves_lessD [OF expression_shrinks(2)] leaves_lessD [OF expression_shrinks(4)])

termination ParsePrimary
  by (rule expression_dom)

declare ParsePrimary.simps [simp del] ParsePredicate.simps [simp del] and_loop.simps [simp del] ParseAnd.simps [simp del]
  or_loop.simps [simp del] ParseExpression.simps [simp del]

lemma ParsePrimary_shrinks: "ParsePrimary c = Inr (x, c') \<Longrightarrow> remaining c' < remaining c"
  by (rule leaves_lessD [OF expression_shrinks(1) [OF spec [OF expression_dom]]])

lemma ParseExpression_shrinks: "ParseExpression c = Inr (x, c') \<Longrightarrow> remaining c' < remaining c"
  by (rule leaves_lessD [OF expression_shrinks(6) [OF spec [OF expression_dom]]])

section \<open>Statements\<close>

definition column_type :: "string \<Rightarrow> string + ValueType" where
  "column_type type =
     (if type = ''INT'' then Inr kInt64
      else if type = ''STRING'' then Inr kString
      else Inl (''unsupported column type: '' @ type))"

function column_constraints :: "AstColumn \<Rightarrow> Cursor \<Rightarrow> AstColumn Parsed" where
  "column_constraints col c =
     parse_bind (MatchKeyword ''NOT_NULL'' c) (\<lambda>m c.
       if m then column_constraints (col\<lparr>ast_not_null := True\<rparr>) c
       else parse_bind (MatchKeyword ''INDEXED'' c) (\<lambda>m c.
              if m then column_constraints (col\<lparr>ast_indexed := True, ast_not_null := True\<rparr>) c
              else parse_bind (MatchKeyword ''DEFAULT'' c) (\<lambda>m c.
                     if m then parse_bind (ParseLiteralToken c) (\<lambda>v c. column_constraints (col\<lparr>ast_default := Some v\<rparr>) c)
                     else Inr (col, c))))"
  by pat_completeness auto
termination
  by (relation "measure (\<lambda>(col, c). remaining c)") (auto dest!: shrink_rules)

declare column_constraints.simps [simp del]

lemma column_constraints_leaves: "leaves_less (Suc (remaining c)) (column_constraints col c)"
proof (induction col c rule: column_constraints.induct)
  case (1 col c)
  show ?case unfolding column_constraints.simps [of col c]
    apply (rule leaves_less_MatchKeywordI; simp only: if_True if_False)
    subgoal for c' by (rule leaves_less_mono [OF 1(1) [of True c']]) simp_all
    apply (rule leaves_less_MatchKeywordI; simp only: if_True if_False)
    subgoal for c' by (rule leaves_less_mono [OF 1(2) [of False c True c']]) simp_all
    apply (rule leaves_less_MatchKeywordI; simp)
    apply (rule leaves_less_bindI)
    subgoal for c' v c''
      by (rule leaves_less_mono [OF 1(3) [of False c False c True c' v c'']]) (auto dest: ParseLiteralToken_shrinks)
    done
qed

lemma column_constraints_shrinks: "column_constraints col c = Inr (x, c') \<Longrightarrow> remaining c' \<le> remaining c"
  using leaves_lessD [OF column_constraints_leaves] by fastforce

function column_list :: "AstColumn list \<Rightarrow> Cursor \<Rightarrow> AstColumn list Parsed" where
  "column_list columns c =
     parse_bind (TakeIdentifier c) (\<lambda>name c.
       parse_bind (Take c) (\<lambda>type c.
         case column_type (ToUpper type) of
           Inl e \<Rightarrow> Inl e
         | Inr t \<Rightarrow>
             parse_bind (column_constraints \<lparr>ast_name = name, ast_type = t, ast_not_null = False, ast_indexed = False,
                 ast_default = None\<rparr> c) (\<lambda>col c.
               case Match '')'' c of (m, c) \<Rightarrow>
                 if m then Inr (columns @ [col], c)
                 else parse_bind (Expect '','' c) (\<lambda>_ c. column_list (columns @ [col]) c))))"
  by pat_completeness auto
termination
  by (relation "measure (\<lambda>(columns, c). remaining c)") (auto dest!: shrink_rules column_constraints_shrinks)

declare column_list.simps [simp del]

definition ParseCreate :: "Cursor \<Rightarrow> Statement Parsed" where
  "ParseCreate c =
     parse_bind (MatchKeyword ''DATABASE'' c) (\<lambda>m c.
       if m then parse_bind (TakeIdentifier c) (\<lambda>name c. Inr (CreateDatabaseStatement name, c))
       else parse_bind (ExpectKeyword ''TABLE'' c) (\<lambda>_ c.
              parse_bind (ParseQualifiedName c) (\<lambda>table_name c.
                parse_bind (Expect ''('' c) (\<lambda>_ c.
                  parse_bind (column_list [] c) (\<lambda>columns c. Inr (CreateTableStatement table_name columns, c))))))"

definition ParseDrop :: "Cursor \<Rightarrow> Statement Parsed" where
  "ParseDrop c =
     parse_bind (MatchKeyword ''DATABASE'' c) (\<lambda>m c.
       if m then parse_bind (TakeIdentifier c) (\<lambda>name c. Inr (DropDatabaseStatement name, c))
       else parse_bind (ExpectKeyword ''TABLE'' c) (\<lambda>_ c.
              parse_bind (ParseQualifiedName c) (\<lambda>table_name c. Inr (DropTableStatement table_name, c))))"

definition ParseUse :: "Cursor \<Rightarrow> Statement Parsed" where
  "ParseUse c = parse_bind (TakeIdentifier c) (\<lambda>name c. Inr (UseDatabaseStatement name, c))"

function name_list :: "string list \<Rightarrow> Cursor \<Rightarrow> string list Parsed" where
  "name_list names c =
     parse_bind (TakeIdentifier c) (\<lambda>name c.
       case Match '')'' c of (m, c) \<Rightarrow>
         if m then Inr (names @ [name], c)
         else parse_bind (Expect '','' c) (\<lambda>_ c. name_list (names @ [name]) c))"
  by pat_completeness auto
termination
  by (relation "measure (\<lambda>(names, c). remaining c)") (auto dest!: shrink_rules)

declare name_list.simps [simp del]

function value_list :: "Expression list \<Rightarrow> Cursor \<Rightarrow> Expression list Parsed" where
  "value_list row c =
     parse_bind (ParseLiteralToken c) (\<lambda>v c.
       case Match '')'' c of (m, c) \<Rightarrow>
         if m then Inr (row @ [LiteralExpression v], c)
         else parse_bind (Expect '','' c) (\<lambda>_ c. value_list (row @ [LiteralExpression v]) c))"
  by pat_completeness auto
termination
  by (relation "measure (\<lambda>(row, c). remaining c)") (auto dest!: shrink_rules)

declare value_list.simps [simp del]

lemma value_list_shrinks: "value_list row c = Inr (x, c') \<Longrightarrow> remaining c' < remaining c"
proof (induction row c arbitrary: x c' rule: value_list.induct)
  case (1 row c)
  from 1(2) [unfolded value_list.simps [of row c]] show ?case
  proof (elim parse_bindE Match_caseE)
    fix v c1
    assume a: "ParseLiteralToken c = Inr (v, c1)" "Match '')'' c1 = (False, c1)"
      "(if False then Inr (row @ [LiteralExpression v], c1)
        else parse_bind (Expect '','' c1) (\<lambda>_ c. value_list (row @ [LiteralExpression v]) c)) = Inr (x, c')"
    then obtain u c2 where "Expect '','' c1 = Inr (u, c2)" "value_list (row @ [LiteralExpression v]) c2 = Inr (x, c')"
      by (auto elim!: parse_bindE)
    with 1(1) [OF a(1) a(2) [symmetric] _ _] a(1) show ?thesis
      by (fastforce dest: Expect_shrinks ParseLiteralToken_shrinks)
  qed (auto dest: ParseLiteralToken_shrinks)
qed

function row_list :: "Expression list list \<Rightarrow> Cursor \<Rightarrow> Expression list list Parsed" where
  "row_list rows c =
     parse_bind (Expect ''('' c) (\<lambda>_ c.
       parse_bind (value_list [] c) (\<lambda>row c.
         case Match '','' c of (m, c) \<Rightarrow>
           if m then row_list (rows @ [row]) c else Inr (rows @ [row], c)))"
  by pat_completeness auto
termination
  by (relation "measure (\<lambda>(rows, c). remaining c)") (auto dest!: shrink_rules value_list_shrinks)

declare row_list.simps [simp del]

definition ParseInsert :: "Cursor \<Rightarrow> Statement Parsed" where
  "ParseInsert c =
     parse_bind (ExpectKeyword ''INTO'' c) (\<lambda>_ c.
       parse_bind (ParseQualifiedName c) (\<lambda>table_name c.
         parse_bind (Expect ''('' c) (\<lambda>_ c.
           parse_bind (name_list [] c) (\<lambda>names c.
             parse_bind (MatchKeyword ''VALUE'' c) (\<lambda>m c.
               parse_bind (if m then Inr ((), c) else ExpectKeyword ''VALUES'' c) (\<lambda>_ c.
                 parse_bind (row_list [] c) (\<lambda>rows c.
                   Inr (InsertStmt \<lparr>insert_table = table_name, insert_columns = names, insert_rows = rows\<rparr>, c))))))))"

function assignment_list :: "Assignment list \<Rightarrow> Cursor \<Rightarrow> Assignment list Parsed" where
  "assignment_list as c =
     parse_bind (TakeIdentifier c) (\<lambda>name c.
       parse_bind (Expect ''='' c) (\<lambda>_ c.
         parse_bind (ParsePrimary c) (\<lambda>v c.
           case Match '','' c of (m, c) \<Rightarrow>
             if \<not> m then Inr (as @ [(name, v)], c) else assignment_list (as @ [(name, v)]) c)))"
  by pat_completeness auto
termination
  by (relation "measure (\<lambda>(as, c). remaining c)") (auto dest!: shrink_rules ParsePrimary_shrinks)

declare assignment_list.simps [simp del]

definition ParseWhere :: "Cursor \<Rightarrow> Expression option Parsed" where
  "ParseWhere c =
     parse_bind (MatchKeyword ''WHERE'' c) (\<lambda>m c.
       if m then parse_bind (ParseExpression c) (\<lambda>e c. Inr (Some e, c)) else Inr (None, c))"

definition ParseUpdate :: "Cursor \<Rightarrow> Statement Parsed" where
  "ParseUpdate c =
     parse_bind (ParseQualifiedName c) (\<lambda>table_name c.
       parse_bind (ExpectKeyword ''SET'' c) (\<lambda>_ c.
         parse_bind (assignment_list [] c) (\<lambda>as c.
           parse_bind (ParseWhere c) (\<lambda>filter c.
             Inr (UpdateStmt \<lparr>update_table = table_name, assignments = as, update_where = filter\<rparr>, c)))))"

definition ParseDelete :: "Cursor \<Rightarrow> Statement Parsed" where
  "ParseDelete c =
     parse_bind (ExpectKeyword ''FROM'' c) (\<lambda>_ c.
       parse_bind (ParseQualifiedName c) (\<lambda>table_name c.
         parse_bind (ParseWhere c) (\<lambda>filter c.
           Inr (DeleteStmt \<lparr>delete_table = table_name, delete_where = filter\<rparr>, c))))"

definition ParseAgg :: "string \<Rightarrow> AggregateKind option" where
  "ParseAgg token =
     (let t = ToUpper token in
      if t = ''SUM'' then Some kSum else if t = ''COUNT'' then Some kCount else if t = ''AVG'' then Some kAvg else None)"

text \<open>The argument of an aggregate, or the column of an item.\<close>

definition item_source :: "Cursor \<Rightarrow> (string \<times> AggregateKind option) Parsed" where
  "item_source c =
     (case ParseAgg (Peek c) of
        Some agg \<Rightarrow>
          parse_bind (Take c) (\<lambda>_ c.
            parse_bind (Expect ''('' c) (\<lambda>_ c.
              parse_bind (case Match ''*'' c of (m, c) \<Rightarrow> if m then Inr (''*'', c) else TakeIdentifier c) (\<lambda>column c.
                parse_bind (Expect '')'' c) (\<lambda>_ c. Inr ((column, Some agg), c)))))
      | None \<Rightarrow> parse_bind (TakeIdentifier c) (\<lambda>column c. Inr ((column, None), c)))"

definition item_as :: "Cursor \<Rightarrow> string option Parsed" where
  "item_as c =
     parse_bind (MatchKeyword ''AS'' c) (\<lambda>m c.
       if m then parse_bind (TakeIdentifier c) (\<lambda>alias c. Inr (Some alias, c)) else Inr (None, c))"

lemma item_source_shrinks: "item_source c = Inr (x, c') \<Longrightarrow> remaining c' < remaining c"
  unfolding item_source_def
  by (cases "ParseAgg (Peek c)") (auto elim!: parse_elims dest!: Take_shrinks Expect_shrinks TakeIdentifier_shrinks)

lemma item_as_shrinks: "item_as c = Inr (x, c') \<Longrightarrow> remaining c' \<le> remaining c"
  unfolding item_as_def by (erule MatchKeyword_bindE) (auto elim!: parse_bindE dest!: TakeIdentifier_shrinks)

function item_list :: "SelectItem list \<Rightarrow> Cursor \<Rightarrow> SelectItem list Parsed" where
  "item_list items c =
     parse_bind (item_source c) (\<lambda>source c.
       parse_bind (item_as c) (\<lambda>alias c.
         let items' = items @ [\<lparr>is_wildcard = False, item_column = fst source, item_alias = alias,
               item_aggregate = snd source\<rparr>] in
         case Match '','' c of (m, c) \<Rightarrow> if \<not> m then Inr (items', c) else item_list items' c))"
  by pat_completeness auto
termination
  by (relation "measure (\<lambda>(items, c). remaining c)") (auto dest!: shrink_rules item_source_shrinks item_as_shrinks)

declare item_list.simps [simp del]

definition ParseSelect :: "Cursor \<Rightarrow> Statement Parsed" where
  "ParseSelect c =
     parse_bind
       (case Match ''*'' c of (m, c) \<Rightarrow>
          if m then Inr ([\<lparr>is_wildcard = True, item_column = [], item_alias = None, item_aggregate = None\<rparr>], c)
          else item_list [] c) (\<lambda>items c.
       parse_bind (ExpectKeyword ''FROM'' c) (\<lambda>_ c.
         parse_bind (ParseQualifiedName c) (\<lambda>table_name c.
           parse_bind (ParseWhere c) (\<lambda>filter c.
             Inr (SelectStmt \<lparr>select_table = table_name, select_items = items, select_where = filter\<rparr>, c)))))"

definition strip_quotes :: "string \<Rightarrow> string" where
  "strip_quotes s =
     (if length s \<ge> 2 \<and> hd s = quotation_mark \<and> last s = quotation_mark then take (length s - 2) (drop 1 s) else s)"

definition ParseRevert :: "Cursor \<Rightarrow> Statement Parsed" where
  "ParseRevert c =
     parse_bind (ParseQualifiedName c) (\<lambda>table_name c.
       parse_bind (MatchKeyword ''LATEST'' c) (\<lambda>m c.
         if m then Inr (RevertStmt \<lparr>revert_table = table_name, revert_timestamp = ''LATEST'', revert_mode = kLatest\<rparr>, c)
         else parse_bind (MatchKeyword ''EXACT'' c) (\<lambda>m c.
                parse_bind (if m then Inr (kExact, c)
                            else parse_bind (MatchKeyword ''AT_OR_BEFORE'' c) (\<lambda>_ c. Inr (kAtOrBefore, c))) (\<lambda>mode c.
                  parse_bind (Take c) (\<lambda>timestamp c.
                    Inr (RevertStmt \<lparr>revert_table = table_name, revert_timestamp = strip_quotes timestamp,
                           revert_mode = mode\<rparr>, c))))))"

text \<open>\<^verbatim>\<open>BEGIN\<close>, \<^verbatim>\<open>COMMIT\<close> and \<^verbatim>\<open>ROLLBACK\<close>: the word \<^verbatim>\<open>TRANSACTION\<close> may follow.\<close>

definition ParseBegin :: "Cursor \<Rightarrow> Statement Parsed" where
  "ParseBegin c = parse_bind (MatchKeyword ''TRANSACTION'' c) (\<lambda>_ c. Inr (BeginTransactionStatement, c))"

definition ParseCommit :: "Cursor \<Rightarrow> Statement Parsed" where
  "ParseCommit c = parse_bind (MatchKeyword ''TRANSACTION'' c) (\<lambda>_ c. Inr (CommitTransactionStatement, c))"

definition ParseRollback :: "Cursor \<Rightarrow> Statement Parsed" where
  "ParseRollback c = parse_bind (MatchKeyword ''TRANSACTION'' c) (\<lambda>_ c. Inr (RollbackTransactionStatement, c))"

definition ParseCheck :: "Cursor \<Rightarrow> Statement Parsed" where
  "ParseCheck c = parse_bind (ExpectKeyword ''INDEX'' c) (\<lambda>_ c. Inr (CheckIndexStatement, c))"

definition ParseRebuild :: "Cursor \<Rightarrow> Statement Parsed" where
  "ParseRebuild c = parse_bind (ExpectKeyword ''INDEX'' c) (\<lambda>_ c. Inr (RebuildIndexStatement, c))"

section \<open>Validation\<close>

text \<open>\<open>Some\<close> is the text of the exception. The set of the names seen so far is a list.\<close>

fun validate_columns :: "string list \<Rightarrow> AstColumn list \<Rightarrow> string option" where
  "validate_columns names [] = None"
| "validate_columns names (column # columns) =
     (if ast_name column \<in> set names then Some (''duplicate column name: '' @ ast_name column)
      else case ast_default column of
             Some v \<Rightarrow>
               if \<not> CanAssignToType v (ast_type column) (\<not> ast_not_null column)
               then Some (''DEFAULT value type mismatch for column: '' @ ast_name column)
               else validate_columns (ast_name column # names) columns
           | None \<Rightarrow> validate_columns (ast_name column # names) columns)"

definition ValidateCreateTable :: "AstColumn list \<Rightarrow> string option" where
  "ValidateCreateTable columns =
     (if columns = [] then Some ''CREATE TABLE must define columns'' else validate_columns [] columns)"

fun validate_names :: "string \<Rightarrow> string list \<Rightarrow> string list \<Rightarrow> string option" where
  "validate_names complaint names [] = None"
| "validate_names complaint names (name # rest) =
     (if name \<in> set names then Some (complaint @ name) else validate_names complaint (name # names) rest)"

definition ValidateInsert :: "InsertStatement \<Rightarrow> string option" where
  "ValidateInsert stmt =
     (if insert_columns stmt = [] then Some ''INSERT must specify at least one target column''
      else if insert_rows stmt = [] then Some ''INSERT must include at least one row''
      else case validate_names ''duplicate INSERT column: '' [] (insert_columns stmt) of
             Some m \<Rightarrow> Some m
           | None \<Rightarrow>
               if list_ex (\<lambda>row. length row \<noteq> length (insert_columns stmt)) (insert_rows stmt)
               then Some ''INSERT row value count does not match column count'' else None)"

definition ValidateUpdate :: "UpdateStatement \<Rightarrow> string option" where
  "ValidateUpdate stmt =
     (if assignments stmt = [] then Some ''UPDATE must define assignments''
      else validate_names ''duplicate UPDATE assignment: '' [] (map fst (assignments stmt)))"

definition ValidateSelect :: "SelectStatement \<Rightarrow> string option" where
  "ValidateSelect stmt =
     (let items = select_items stmt;
          aggregate = (\<lambda>item. item_aggregate item \<noteq> None);
          has_aggregate = (if length items > 1 then list_ex aggregate items else length items = 1 \<and> aggregate (hd items));
          has_non_aggregate = (if length items > 1 then list_ex (\<lambda>item. \<not> aggregate item) items
                               else length items = 1 \<and> \<not> has_aggregate \<and> \<not> is_wildcard (hd items))
      in if items = [] then Some ''SELECT item list is empty''
         else if length items > 1 \<and> list_ex is_wildcard items then Some ''SELECT * cannot be combined with other items''
         else if has_aggregate \<and> has_non_aggregate then Some ''cannot mix aggregate and non-aggregate select items''
         else if list_ex (\<lambda>item. aggregate item \<and> item_column item = ''*'' \<and> item_aggregate item \<noteq> Some kCount) items
         then Some (''only COUNT supports wildcard argument '' @ [CHR 0x27, CHR ''*'', CHR 0x27])
         else None)"

definition ValidateStatement :: "Statement \<Rightarrow> string option" where
  "ValidateStatement stmt =
     (case stmt of
        CreateTableStatement _ columns \<Rightarrow> ValidateCreateTable columns
      | InsertStmt ins \<Rightarrow> ValidateInsert ins
      | UpdateStmt upd \<Rightarrow> ValidateUpdate upd
      | SelectStmt sel \<Rightarrow> ValidateSelect sel
      | _ \<Rightarrow> None)"

section \<open>The parser\<close>

text \<open>The first keyword decides; the keywords are tried in order.\<close>

fun dispatch :: "(string \<times> (Cursor \<Rightarrow> Statement Parsed)) list \<Rightarrow> Cursor \<Rightarrow> Statement Parsed" where
  "dispatch [] c = Inl ''unsupported statement''"
| "dispatch ((kw, p) # rest) c = parse_bind (MatchKeyword kw c) (\<lambda>m c. if m then p c else dispatch rest c)"

definition statement_parsers :: "(string \<times> (Cursor \<Rightarrow> Statement Parsed)) list" where
  "statement_parsers =
     [(''CREATE'', ParseCreate), (''DROP'', ParseDrop), (''USE'', ParseUse), (''INSERT'', ParseInsert),
      (''UPDATE'', ParseUpdate), (''DELETE'', ParseDelete), (''SELECT'', ParseSelect), (''REVERT'', ParseRevert),
      (''BEGIN'', ParseBegin), (''COMMIT'', ParseCommit), (''ROLLBACK'', ParseRollback), (''CHECK'', ParseCheck),
      (''REBUILD'', ParseRebuild)]"

definition finish :: "Statement \<Rightarrow> Cursor \<Rightarrow> string + Statement" where
  "finish stmt c =
     (case Match '';'' c of (m, c) \<Rightarrow>
        if Has c then Inl (if m then ''unexpected tokens after semicolon'' else ''unexpected trailing tokens'')
        else (case ValidateStatement stmt of Some e \<Rightarrow> Inl e | None \<Rightarrow> Inr stmt))"

definition Parse :: "string \<Rightarrow> Statement Result" where
  "Parse sql =
     (let c = \<lparr>tokens = Tokenize sql, pos = 0\<rparr> in
      if \<not> Has c then MakeError kParseError ''empty SQL''
      else case dispatch statement_parsers c of
             Inl e \<Rightarrow> MakeError kParseError e
           | Inr (stmt, c) \<Rightarrow>
               (case finish stmt c of Inl e \<Rightarrow> MakeError kParseError e | Inr stmt \<Rightarrow> MakeSuccess stmt))"

end
