(* ===== verification/Dbms_Engine.thy ===== *)
theory Dbms_Engine
  imports Wal Persistence_Roundtrip Parser
begin

text \<open>
  The facade of the system (\<^verbatim>\<open>src/core/dbms_engine.cpp\<close>): parsing, planning and executing a statement, transactions on
  a working copy, the write-ahead log, snapshots, and recovery at the start. What the
  disk does with the writes of every call is an argument.
\<close>

section \<open>State\<close>

record TransactionContext =
  working_state :: RuntimeState
  working_version_store :: VersionStore
  wal_statements :: "string list"

text \<open>
  \<open>engine\<close> holds the members that the executor works on by reference; \<open>quarantine\<close> the logs that were set
  aside, with their names; \<open>calls\<close> the number of calls so far, by which the outcome of disk writes is looked up.
\<close>

record DbmsEngine =
  engine :: Engine
  transactions :: "(string, TransactionContext) umap"
  wal :: wal_file
  quarantine :: "(string \<times> string) list"
  files :: snapshot
  calls :: nat

record disk =
  wal_append :: write_outcome
  save_state :: file_outcome
  save_history :: file_outcome
  wal_reset :: write_outcome


definition IsMutatingStatement :: "Statement \<Rightarrow> bool" where
  "IsMutatingStatement stmt =
     (case stmt of SelectStmt _ \<Rightarrow> False | UseDatabaseStatement _ \<Rightarrow> False | CheckIndexStatement \<Rightarrow> False | _ \<Rightarrow> True)"

definition IsDdlStatement :: "Statement \<Rightarrow> bool" where
  "IsDdlStatement stmt =
     (case stmt of
        CreateDatabaseStatement _ \<Rightarrow> True | DropDatabaseStatement _ \<Rightarrow> True
      | CreateTableStatement _ _ \<Rightarrow> True | DropTableStatement _ \<Rightarrow> True | _ \<Rightarrow> False)"

definition TransactionKey :: "SessionContext \<Rightarrow> string" where
  "TransactionKey session = (if client_id session \<noteq> [] then client_id session else ''__default_session__'')"

section \<open>One statement\<close>

definition ExecuteBegin :: "string \<Rightarrow> DbmsEngine \<Rightarrow> DbmsEngine \<times> QueryResult Result" where
  "ExecuteBegin key db =
     (if umap_contains (transactions db) key
      then (db, MakeError kValidationError ''transaction already active for session'')
      else case CloneRuntimeState (runtime (engine db)) of
             Inl e \<Rightarrow> (db, Inl e)
           | Inr st \<Rightarrow>
               (db\<lparr>transactions := umap_emplace key
                     \<lparr>working_state = st, working_version_store = versions (engine db), wal_statements = []\<rparr> (transactions db)\<rparr>,
                message_result ''transaction started''))"

text \<open>
  A context whose state and history have been moved from. What a moved-from container holds is up to the library; libstdc++ leaves
  maps and vectors empty.
\<close>

definition moved_from :: "TransactionContext \<Rightarrow> TransactionContext" where
  "moved_from ctx = ctx\<lparr>working_state := \<lparr>databases = []\<rparr>, working_version_store := \<lparr>records = []\<rparr>\<rparr>"

text \<open>Saving the state and emptying the log, the end of every change.\<close>

definition checkpoint :: "disk \<Rightarrow> bool \<Rightarrow> DbmsEngine \<Rightarrow> DbmsEngine \<times> unit Result" where
  "checkpoint io write_wal db =
     (case Save (save_state io) (save_history io) (runtime (engine db)) (versions (engine db)) (files db) of
        (fs, False) \<Rightarrow> (db\<lparr>files := fs\<rparr>, MakeError kStorageError ''failed to persist state'')
      | (fs, True) \<Rightarrow>
          (if write_wal
           then (case Reset (wal_reset io) (wal db) of
                   (w, b) \<Rightarrow> (db\<lparr>files := fs, wal := w\<rparr>,
                              if b then Inr () else MakeError kStorageError ''failed to checkpoint WAL''))
           else (db\<lparr>files := fs\<rparr>, Inr ())))"

definition ExecuteCommit :: "disk \<Rightarrow> bool \<Rightarrow> string \<Rightarrow> DbmsEngine \<Rightarrow> DbmsEngine \<times> QueryResult Result" where
  "ExecuteCommit io write_wal key db =
     (case umap_find (transactions db) key of
        None \<Rightarrow> (db, MakeError kValidationError ''no active transaction for session'')
      | Some ctx \<Rightarrow>
          (let db1 = db\<lparr>engine := (engine db)\<lparr>runtime := working_state ctx, versions := working_version_store ctx\<rparr>,
                        transactions := umap_assign key (moved_from ctx) (transactions db)\<rparr>;
               (w, appended) = (if write_wal \<and> wal_statements ctx \<noteq> [] then AppendTransaction (wal_append io) (wal_statements ctx) (wal db1)
                              else (wal db1, True))
           in if \<not> appended then (db1\<lparr>wal := w\<rparr>, MakeError kStorageError ''failed to append WAL TX'')
              else case checkpoint io write_wal (db1\<lparr>wal := w, transactions := umap_erase key (transactions db1)\<rparr>) of
                     (db2, r) \<Rightarrow> (db2, bind_result r (\<lambda>_. message_result ''transaction committed''))))"

definition ExecuteRollback :: "string \<Rightarrow> DbmsEngine \<Rightarrow> DbmsEngine \<times> QueryResult Result" where
  "ExecuteRollback key db =
     (if \<not> umap_contains (transactions db) key
      then (db, MakeError kValidationError ''no active transaction for session'')
      else (db\<lparr>transactions := umap_erase key (transactions db)\<rparr>, message_result ''transaction rolled back''))"

text \<open>The executor that a transaction works with: its own state and history, everything else shared.\<close>

definition transaction_engine :: "DbmsEngine \<Rightarrow> TransactionContext \<Rightarrow> Engine" where
  "transaction_engine db ctx = (engine db)\<lparr>runtime := working_state ctx, versions := working_version_store ctx\<rparr>"

definition ExecuteInTransaction ::
  "regex \<Rightarrow> clock \<Rightarrow> bool \<Rightarrow> string \<Rightarrow> string \<Rightarrow> Statement \<Rightarrow> TransactionContext \<Rightarrow> DbmsEngine \<times> SessionContext
     \<Rightarrow> (DbmsEngine \<times> SessionContext) \<times> QueryResult Result" where
  "ExecuteInTransaction rx clk write_wal key sql stmt ctx s =
     (case s of (db, session) \<Rightarrow>
        if stmt = CheckIndexStatement \<or> stmt = RebuildIndexStatement
        then (s, MakeError kValidationError ''service index commands are not allowed inside active transaction'')
        else if IsDdlStatement stmt
        then (s, MakeError kValidationError ''DDL statements are not allowed inside an active transaction'')
        else case submit rx clk stmt (transaction_engine db ctx, session) of
               ((eng, session'), r) \<Rightarrow>
                 (let ctx' = ctx\<lparr>working_state := runtime eng, working_version_store := versions eng,
                       wal_statements := (if ok r \<and> write_wal \<and> IsMutatingStatement stmt
                                          then wal_statements ctx @ [sql] else wal_statements ctx)\<rparr>
                  in ((db\<lparr>engine := eng\<lparr>runtime := runtime (engine db), versions := versions (engine db)\<rparr>,
                          transactions := umap_assign key ctx' (transactions db)\<rparr>, session'), r)))"

definition ExecuteAlone ::
  "regex \<Rightarrow> clock \<Rightarrow> disk \<Rightarrow> bool \<Rightarrow> string \<Rightarrow> Statement \<Rightarrow> DbmsEngine \<times> SessionContext
     \<Rightarrow> (DbmsEngine \<times> SessionContext) \<times> QueryResult Result" where
  "ExecuteAlone rx clk io write_wal sql stmt s =
     (case s of (db, session) \<Rightarrow>
        (case submit rx clk stmt (engine db, session) of
           ((eng, session'), r) \<Rightarrow>
             (let db1 = db\<lparr>engine := eng\<rparr> in
              if \<not> ok r \<or> \<not> IsMutatingStatement stmt then ((db1, session'), r)
              else let (w, appended) = (if write_wal then AppendSql (wal_append io) sql (wal db1) else (wal db1, True))
                   in if \<not> appended then ((db1\<lparr>wal := w\<rparr>, session'), MakeError kStorageError ''failed to append WAL SQL'')
                      else case checkpoint io write_wal (db1\<lparr>wal := w\<rparr>) of
                             (db2, c) \<Rightarrow> ((db2, session'), bind_result c (\<lambda>_. r)))))"

definition ExecuteStatement ::
  "regex \<Rightarrow> clock \<Rightarrow> disk \<Rightarrow> bool \<Rightarrow> string \<Rightarrow> Statement \<Rightarrow> DbmsEngine \<times> SessionContext
     \<Rightarrow> (DbmsEngine \<times> SessionContext) \<times> QueryResult Result" where
  "ExecuteStatement rx clk io write_wal sql stmt s =
     (case s of (db, session) \<Rightarrow>
        (let key = TransactionKey session; keep = (\<lambda>(db', r). ((db', session), r)) in
         case stmt of
           BeginTransactionStatement \<Rightarrow> keep (ExecuteBegin key db)
         | CommitTransactionStatement \<Rightarrow> keep (ExecuteCommit io write_wal key db)
         | RollbackTransactionStatement \<Rightarrow> keep (ExecuteRollback key db)
         | _ \<Rightarrow>
             (case umap_find (transactions db) key of
                Some ctx \<Rightarrow> ExecuteInTransaction rx clk write_wal key sql stmt ctx s
              | None \<Rightarrow> ExecuteAlone rx clk io write_wal sql stmt s)))"

definition ExecuteSqlImpl ::
  "regex \<Rightarrow> clock \<Rightarrow> (nat \<Rightarrow> disk) \<Rightarrow> bool \<Rightarrow> string \<Rightarrow> DbmsEngine \<times> SessionContext
     \<Rightarrow> (DbmsEngine \<times> SessionContext) \<times> QueryResult Result" where
  "ExecuteSqlImpl rx clk io write_wal sql s =
     (case s of (db, session) \<Rightarrow>
        (let db1 = db\<lparr>calls := Suc (calls db)\<rparr> in
         case Parse sql of
           Inl e \<Rightarrow> ((db1, session), Inl e)
         | Inr stmt \<Rightarrow> ExecuteStatement rx clk (io (calls db)) write_wal sql stmt (db1, session)))"

definition ExecuteSql ::
  "regex \<Rightarrow> clock \<Rightarrow> (nat \<Rightarrow> disk) \<Rightarrow> string \<Rightarrow> DbmsEngine \<times> SessionContext
     \<Rightarrow> (DbmsEngine \<times> SessionContext) \<times> QueryResult Result" where
  "ExecuteSql rx clk io sql s = ExecuteSqlImpl rx clk io True sql s"

section \<open>Recovery\<close>

definition recovery_session :: SessionContext where
  "recovery_session = \<lparr>client_id = ''__wal_recovery__'', user_id = None, current_database = []\<rparr>"

text \<open>A result as the recovery sees it: \<open>Inr False\<close> is an error that was returned; an exception goes on.\<close>

definition succeeded :: "'a Result \<Rightarrow> bool Result" where
  "succeeded r = (case r of Inr _ \<Rightarrow> Inr True | Inl (Err e) \<Rightarrow> Inr False | Inl (Thrown x) \<Rightarrow> Inl (Thrown x))"

type_synonym executor = "string \<Rightarrow> DbmsEngine \<times> SessionContext \<Rightarrow> (DbmsEngine \<times> SessionContext) \<times> QueryResult Result"

text \<open>The statements of a logged transaction; the first that fails ends them with a \<^verbatim>\<open>ROLLBACK\<close>.\<close>

fun replay_transaction ::
  "executor \<Rightarrow> string list \<Rightarrow> DbmsEngine \<times> SessionContext \<Rightarrow> (DbmsEngine \<times> SessionContext) \<times> bool Result" where
  "replay_transaction exec [] s = (case exec ''COMMIT;'' s of (s', r) \<Rightarrow> (s', succeeded r))"
| "replay_transaction exec (statement # statements) s =
     (case exec statement s of
        (s', r) \<Rightarrow>
          (case succeeded r of
             Inr True \<Rightarrow> replay_transaction exec statements s'
           | Inr False \<Rightarrow>
               (case exec ''ROLLBACK;'' s' of
                  (s'', Inl (Thrown x)) \<Rightarrow> (s'', Inl (Thrown x))
                | (s'', _) \<Rightarrow> (s'', Inr False))
           | Inl x \<Rightarrow> (s', Inl x)))"

fun replay_entries ::
  "executor \<Rightarrow> WalEntry list \<Rightarrow> DbmsEngine \<times> SessionContext \<Rightarrow> (DbmsEngine \<times> SessionContext) \<times> bool Result" where
  "replay_entries exec [] s = (s, Inr True)"
| "replay_entries exec (SqlEntry statements # logged) s =
     (case statements of
        [] \<Rightarrow> replay_entries exec logged s
      | statement # _ \<Rightarrow>
          (case exec statement s of
             (s', r) \<Rightarrow> (if succeeded r = Inr True then replay_entries exec logged s' else (s', succeeded r))))"
| "replay_entries exec (TransactionEntry statements # logged) s =
     (case exec ''BEGIN;'' s of
        (s', r) \<Rightarrow>
          (if succeeded r \<noteq> Inr True then (s', succeeded r)
           else case replay_transaction exec statements s' of
                  (s'', b) \<Rightarrow> (if b = Inr True then replay_entries exec logged s'' else (s'', b))))"

definition reset_wal :: "(nat \<Rightarrow> disk) \<Rightarrow> DbmsEngine \<Rightarrow> DbmsEngine" where
  "reset_wal io db = db\<lparr>wal := fst (Reset (wal_reset (io (calls db))) (wal db)), calls := Suc (calls db)\<rparr>"

definition ReplayWal :: "regex \<Rightarrow> clock \<Rightarrow> (nat \<Rightarrow> disk) \<Rightarrow> DbmsEngine \<Rightarrow> DbmsEngine \<times> bool Result" where
  "ReplayWal rx clk io db =
     (case LoadAll (wal db) of
        (logged, False) \<Rightarrow> (db, Inr False)
      | (logged, True) \<Rightarrow>
          (if logged = [] then (reset_wal io db, Inr True)
           else case replay_entries (ExecuteSqlImpl rx clk io False) logged (db, recovery_session) of
                  ((db', _), r) \<Rightarrow> (if r = Inr True then (reset_wal io db', Inr True) else (db', r))))"

text \<open>
  The constructor on the files of a data directory. The result of \<^verbatim>\<open>Load\<close> is ignored; \<open>None\<close> is an exception that leaves the
  constructor. Whether the renaming of a corrupt log succeeds and the time in its name are arguments.
\<close>

definition loaded_engine :: "string \<Rightarrow> snapshot \<Rightarrow> wal_file \<Rightarrow> RuntimeState \<times> VersionStore \<times> StringPool \<Rightarrow> DbmsEngine" where
  "loaded_engine path fs w loaded =
     (case loaded of (st, vs, p) \<Rightarrow>
        \<lparr>engine = \<lparr>catalog = make_catalog path, runtime = st, versions = vs, pool = p, clock_reads = 0\<rparr>,
         transactions = [], wal = w, quarantine = [], files = fs, calls = 0\<rparr>)"

definition make_engine ::
  "regex \<Rightarrow> clock \<Rightarrow> (nat \<Rightarrow> disk) \<Rightarrow> bool \<Rightarrow> nat \<Rightarrow> string \<Rightarrow> snapshot \<Rightarrow> wal_file \<Rightarrow> DbmsEngine option" where
  "make_engine rx clk io rename_works now path fs w =
     (case Load fs \<lparr>databases = []\<rparr> \<lparr>records = []\<rparr> empty_pool of
        (_, Inl e) \<Rightarrow> None
      | (loaded, Inr _) \<Rightarrow>
          (case ReplayWal rx clk io (loaded_engine path fs w loaded) of
             (db, Inl x) \<Rightarrow> None
           | (db, Inr True) \<Rightarrow> Some db
           | (db, Inr False) \<Rightarrow>
               (case QuarantineCorrupted rename_works now (path @ ''/wal.log'') (wal_reset (io (calls db))) (wal db, quarantine db) of
                  ((w', q), _) \<Rightarrow> Some (db\<lparr>wal := w', quarantine := q, calls := Suc (calls db)\<rparr>))))"

end
