(* ===== verification/Transactions.thy ===== *)
theory Transactions
  imports Dbms_Engine Query_Properties
begin

text \<open>
  What transactions promise: every session sees consistent data, an uncommitted change is seen by its own session only and
  disappears with a rollback, and what was acknowledged is there after a restart. Where the code does not keep such a
  promise, a theorem says so.
\<close>

section \<open>The invariant\<close>

text \<open>The committed state and the working copy of every open transaction satisfy the executor's invariant.\<close>

definition dbms_ok :: "DbmsEngine \<Rightarrow> bool" where
  "dbms_ok db \<longleftrightarrow> engine_ok (engine db) \<and>
     (\<forall>key ctx. umap_find (transactions db) key = Some ctx \<longrightarrow> engine_ok (transaction_engine db ctx))"

lemma engine_ok_cong:
  "engine_ok eng \<Longrightarrow> runtime eng' = runtime eng \<Longrightarrow> versions eng' = versions eng \<Longrightarrow> pool_wf (pool eng') \<Longrightarrow> engine_ok eng'"
  using has_table_runtime [of eng' eng] by (simp add: engine_ok_def engine_inv_def history_typed_def)

lemma engine_ok_pool: "engine_ok eng \<Longrightarrow> pool_wf (pool eng)"
  by (simp add: engine_ok_def engine_inv_def)

lemma engine_ok_same_contents:
  assumes "engine_ok eng" "state_inv st" "same_contents (runtime eng) st"
  shows "engine_ok (eng\<lparr>runtime := st\<rparr>)"
proof -
  have "\<exists>u. has_table eng d n u \<and> schema t = schema u" if "has_table (eng\<lparr>runtime := st\<rparr>) d n t" for d n t
    using that same_contents_find [OF assms(3)] unfolding has_table_def by fastforce
  then have "history_typed (eng\<lparr>runtime := st\<rparr>)"
    using assms(1) unfolding engine_ok_def history_typed_def by fastforce
  with assms named_same_contents show ?thesis by (auto simp: engine_ok_def engine_inv_def)
qed

lemma engine_ok_empty: "pool_wf (pool eng) \<Longrightarrow> engine_ok (eng\<lparr>runtime := \<lparr>databases = []\<rparr>, versions := \<lparr>records = []\<rparr>\<rparr>)"
  by (auto simp: engine_ok_def engine_inv_def state_inv_def named_def umap_find_Nil history_typed_def has_table_def)

text \<open>Changes of the log, the files and the counter do not matter, and a larger pool does no harm.\<close>

lemma dbms_ok_cong:
  assumes "dbms_ok db" "engine_ok (engine db')" "\<And>key ctx. umap_find (transactions db') key = Some ctx \<Longrightarrow>
      umap_find (transactions db) key = Some ctx \<or> engine_ok (transaction_engine db' ctx)"
  shows "dbms_ok db'"
proof -
  have "engine_ok (transaction_engine db' ctx)" if "umap_find (transactions db) key = Some ctx" for key ctx
  proof (rule engine_ok_cong)
    show "engine_ok (transaction_engine db ctx)" using assms(1) that by (simp add: dbms_ok_def)
  qed (use engine_ok_pool [OF assms(2)] in \<open>simp_all add: transaction_engine_def\<close>)
  with assms(2,3) show ?thesis unfolding dbms_ok_def by blast
qed

lemma checkpoint_frame:
  assumes "checkpoint io write_wal db = (db', r)"
  shows "engine db' = engine db" "transactions db' = transactions db"
  using assms by (auto simp: checkpoint_def split: prod.splits bool.splits if_splits)

lemma ExecuteBegin_ok:
  assumes "dbms_ok db" "ExecuteBegin key db = (db', r)"
  shows "dbms_ok db'"
proof (cases "umap_contains (transactions db) key")
  case False
  have inv: "engine_ok (engine db)" using assms(1) by (simp add: dbms_ok_def)
  then obtain st where st: "CloneRuntimeState (runtime (engine db)) = Inr st" "state_inv st" "same_contents (runtime (engine db)) st"
    using CloneRuntimeState_correct by (metis engine_inv_def engine_ok_def)
  let ?ctx = "\<lparr>working_state = st, working_version_store = versions (engine db), wal_statements = []\<rparr>"
  have db': "db' = db\<lparr>transactions := umap_emplace key ?ctx (transactions db)\<rparr>"
    using assms(2) False st(1) by (simp add: ExecuteBegin_def)
  have "transaction_engine db' ?ctx = (engine db)\<lparr>runtime := st\<rparr>" by (simp add: transaction_engine_def db')
  with engine_ok_same_contents [OF inv st(2,3)] have "engine_ok (transaction_engine db' ?ctx)" by simp
  with inv show ?thesis by (intro dbms_ok_cong [OF assms(1)]) (auto simp: db' split: if_splits)
qed (use assms in \<open>simp add: ExecuteBegin_def\<close>)

lemma ExecuteCommit_ok:
  assumes "dbms_ok db" "ExecuteCommit io write_wal key db = (db', r)"
  shows "dbms_ok db'"
proof (cases "umap_find (transactions db) key")
  case (Some ctx)
  let ?eng = "(engine db)\<lparr>runtime := working_state ctx, versions := working_version_store ctx\<rparr>"
  have ok: "engine_ok ?eng" using assms(1) Some by (simp add: dbms_ok_def transaction_engine_def)
  have eng: "engine db' = ?eng" and trans: "transactions db' = umap_erase key (transactions db) \<or>
      transactions db' = umap_assign key (moved_from ctx) (transactions db) \<or>
      transactions db' = umap_erase key (umap_assign key (moved_from ctx) (transactions db))"
    using assms(2) Some by (auto simp: ExecuteCommit_def Let_def split: prod.splits if_splits dest: checkpoint_frame)
  have "engine_ok (transaction_engine db' (moved_from ctx))"
    using engine_ok_empty [of "engine db'"] engine_ok_pool [OF ok] by (simp add: transaction_engine_def moved_from_def eng)
  with ok trans show ?thesis by (intro dbms_ok_cong [OF assms(1)]) (auto simp: eng split: if_splits)
qed (use assms in \<open>simp add: ExecuteCommit_def\<close>)

lemma ExecuteRollback_ok: "dbms_ok db \<Longrightarrow> ExecuteRollback key db = (db', r) \<Longrightarrow> dbms_ok db'"
  by (rule dbms_ok_cong) (auto simp: ExecuteRollback_def dbms_ok_def split: if_splits)

lemma ExecuteInTransaction_ok:
  assumes "dbms_ok db" "umap_find (transactions db) key = Some ctx" "admissible stmt (transaction_engine db ctx) session"
    and "ExecuteInTransaction rx clk write_wal key sql stmt ctx (db, session) = ((db', session'), r)"
  shows "dbms_ok db'"
proof (cases "stmt = CheckIndexStatement \<or> stmt = RebuildIndexStatement \<or> IsDdlStatement stmt")
  case False
  obtain eng s q where e: "submit rx clk stmt (transaction_engine db ctx, session) = ((eng, s), q)"
    by (cases "submit rx clk stmt (transaction_engine db ctx, session)") auto
  have ok: "engine_ok (engine db)" "engine_ok eng"
    using assms(1-3) submit_ok [OF _ _ e] by (auto simp: dbms_ok_def)
  let ?eng = "eng\<lparr>runtime := runtime (engine db), versions := versions (engine db)\<rparr>"
  have "engine_ok ?eng" using engine_ok_cong [OF ok(1), of ?eng] engine_ok_pool [OF ok(2)] by simp
  have "\<exists>ctx'. working_state ctx' = runtime eng \<and> working_version_store ctx' = versions eng \<and>
      db' = db\<lparr>engine := ?eng, transactions := umap_assign key ctx' (transactions db)\<rparr>"
    using assms(4) False e by (auto simp: ExecuteInTransaction_def Let_def intro!: exI [of _ "_\<lparr>wal_statements := _\<rparr>"])
  then obtain ctx' where ctx': "working_state ctx' = runtime eng" "working_version_store ctx' = versions eng"
    "db' = db\<lparr>engine := ?eng, transactions := umap_assign key ctx' (transactions db)\<rparr>" by blast
  have "engine_ok (transaction_engine db' ctx')"
    using engine_ok_cong [OF ok(2), of "transaction_engine db' ctx'"] engine_ok_pool [OF ok(2)] ctx'
    by (simp add: transaction_engine_def)
  with \<open>engine_ok ?eng\<close> show ?thesis using ctx'(3) by (intro dbms_ok_cong [OF assms(1)]) (auto split: if_splits)
qed (use assms in \<open>auto simp: ExecuteInTransaction_def split: if_splits\<close>)

lemma ExecuteAlone_frame:
  assumes "ExecuteAlone rx clk io write_wal sql stmt (db, session) = ((db', session'), r)"
    and "submit rx clk stmt (engine db, session) = ((eng, s), q)"
  shows "engine db' = eng" "transactions db' = transactions db"
  using assms by (auto simp: ExecuteAlone_def Let_def split: prod.splits if_splits dest: checkpoint_frame)

lemma ExecuteAlone_ok:
  assumes "dbms_ok db" "admissible stmt (engine db) session"
    and "ExecuteAlone rx clk io write_wal sql stmt (db, session) = ((db', session'), r)"
  shows "dbms_ok db'"
proof -
  obtain eng s q where e: "submit rx clk stmt (engine db, session) = ((eng, s), q)"
    by (cases "submit rx clk stmt (engine db, session)") auto
  have "engine_ok eng" using assms(1,2) submit_ok [OF _ _ e] by (auto simp: dbms_ok_def)
  then show ?thesis
    using ExecuteAlone_frame [OF assms(3) e] by (intro dbms_ok_cong [OF assms(1)]) simp_all
qed

text \<open>The engine that a statement of a session runs on.\<close>

definition session_engine :: "DbmsEngine \<Rightarrow> SessionContext \<Rightarrow> Engine" where
  "session_engine db session =
     (case umap_find (transactions db) (TransactionKey session) of
        None \<Rightarrow> engine db
      | Some ctx \<Rightarrow> transaction_engine db ctx)"

definition admissible_sql :: "string \<Rightarrow> DbmsEngine \<Rightarrow> SessionContext \<Rightarrow> bool" where
  "admissible_sql sql db session \<longleftrightarrow>
     (case Parse sql of Inl e \<Rightarrow> True | Inr stmt \<Rightarrow> admissible stmt (session_engine db session) session)"

lemma calls_irrelevant [simp]:
  "transaction_engine (db\<lparr>calls := n\<rparr>) ctx = transaction_engine db ctx" "dbms_ok (db\<lparr>calls := n\<rparr>) = dbms_ok db"
  by (simp_all add: transaction_engine_def dbms_ok_def)

definition transaction_command :: "Statement \<Rightarrow> bool" where
  "transaction_command stmt \<longleftrightarrow>
     stmt = BeginTransactionStatement \<or> stmt = CommitTransactionStatement \<or> stmt = RollbackTransactionStatement"

lemma ExecuteStatement_other:
  "\<not> transaction_command stmt \<Longrightarrow> ExecuteStatement rx clk io write_wal sql stmt (db, session) =
     (case umap_find (transactions db) (TransactionKey session) of
        Some ctx \<Rightarrow> ExecuteInTransaction rx clk write_wal (TransactionKey session) sql stmt ctx (db, session)
      | None \<Rightarrow> ExecuteAlone rx clk io write_wal sql stmt (db, session))"
  by (cases stmt) (simp_all add: ExecuteStatement_def Let_def transaction_command_def split: option.split)

lemma ExecuteStatement_command:
  "ExecuteStatement rx clk io write_wal sql BeginTransactionStatement (db, session) =
     (case ExecuteBegin (TransactionKey session) db of (db', r) \<Rightarrow> ((db', session), r))"
  "ExecuteStatement rx clk io write_wal sql CommitTransactionStatement (db, session) =
     (case ExecuteCommit io write_wal (TransactionKey session) db of (db', r) \<Rightarrow> ((db', session), r))"
  "ExecuteStatement rx clk io write_wal sql RollbackTransactionStatement (db, session) =
     (case ExecuteRollback (TransactionKey session) db of (db', r) \<Rightarrow> ((db', session), r))"
  by (simp_all add: ExecuteStatement_def Let_def)

lemma ExecuteStatement_ok:
  assumes "dbms_ok db" "admissible stmt (session_engine db session) session"
    and "ExecuteStatement rx clk io write_wal sql stmt (db, session) = ((db', session'), r)"
  shows "dbms_ok db'"
proof (cases "transaction_command stmt")
  case True
  then show ?thesis
    using assms(3) ExecuteBegin_ok [OF assms(1)] ExecuteCommit_ok [OF assms(1)] ExecuteRollback_ok [OF assms(1)]
    by (auto simp: transaction_command_def ExecuteStatement_command split: prod.splits)
next
  case False
  note e = assms(3) [unfolded ExecuteStatement_other [OF False]]
  show ?thesis
  proof (cases "umap_find (transactions db) (TransactionKey session)")
    case None
    with e assms(2) ExecuteAlone_ok [OF assms(1)] show ?thesis by (simp add: session_engine_def)
  next
    case (Some ctx)
    with e assms(2) ExecuteInTransaction_ok [OF assms(1) Some] show ?thesis by (simp add: session_engine_def)
  qed
qed

lemma session_engine_calls [simp]: "session_engine (db\<lparr>calls := n\<rparr>) session = session_engine db session"
  by (simp add: session_engine_def split: option.splits)

lemma ExecuteSqlImpl_ok:
  assumes "dbms_ok db" "admissible_sql sql db session"
    and "ExecuteSqlImpl rx clk io write_wal sql (db, session) = ((db', session'), r)"
  shows "dbms_ok db'"
proof (cases "Parse sql")
  case (Inr stmt)
  with assms(3) have e: "ExecuteStatement rx clk (io (calls db)) write_wal sql stmt (db\<lparr>calls := Suc (calls db)\<rparr>, session)
      = ((db', session'), r)" by (simp add: ExecuteSqlImpl_def Let_def)
  from assms(1,2) Inr ExecuteStatement_ok [OF _ _ e] show ?thesis by (simp add: admissible_sql_def)
qed (use assms in \<open>auto simp: ExecuteSqlImpl_def Let_def\<close>)

text \<open>The states of a server: from an empty data directory, by requests of any sessions in any order.\<close>

definition initial_dbms :: "string \<Rightarrow> DbmsEngine" where
  "initial_dbms path = loaded_engine path (None, None) None (\<lparr>databases = []\<rparr>, \<lparr>records = []\<rparr>, empty_pool)"

text \<open>The constructor writes the header of a new log.\<close>

definition fresh_dbms :: "(nat \<Rightarrow> disk) \<Rightarrow> string \<Rightarrow> DbmsEngine" where
  "fresh_dbms io path = reset_wal io (initial_dbms path)"

lemma make_engine_empty: "make_engine rx clk io rename_works now path (None, None) None = Some (fresh_dbms io path)"
  by (simp add: make_engine_def Load_def ReplayWal_def LoadAll_def fresh_dbms_def initial_dbms_def reset_wal_def loaded_engine_def)

inductive served :: "regex \<Rightarrow> clock \<Rightarrow> (nat \<Rightarrow> disk) \<Rightarrow> DbmsEngine \<Rightarrow> bool" for rx clk io where
  served_init: "make_engine rx clk io rename_works now path (None, None) None = Some db \<Longrightarrow> served rx clk io db"
| served_step: "served rx clk io db \<Longrightarrow> admissible_sql sql db session \<Longrightarrow>
    ExecuteSql rx clk io sql (db, session) = ((db', session'), r) \<Longrightarrow> served rx clk io db'"

lemma served_fresh: "served rx clk io (fresh_dbms io path)"
  by (rule served_init [OF make_engine_empty])

lemma served_ok: "served rx clk io db \<Longrightarrow> dbms_ok db"
proof (induction rule: served.induct)
  case (served_init rename_works now path db)
  have "engine (fresh_dbms io path) = initial_engine path" "transactions (fresh_dbms io path) = []"
    by (simp_all add: fresh_dbms_def reset_wal_def initial_dbms_def loaded_engine_def initial_engine_def)
  then show ?case using initial_engine_ok(1) served_init by (auto simp: make_engine_empty dbms_ok_def umap_find_def)
next
  case (served_step db sql session db' session' r)
  then show ?case using ExecuteSqlImpl_ok unfolding ExecuteSql_def by blast
qed

section \<open>What a request leaves alone\<close>

text \<open>What is committed: the state and history of the server, its log and its files.\<close>

definition committed :: "DbmsEngine \<Rightarrow> (RuntimeState \<times> VersionStore) \<times> wal_file \<times> snapshot" where
  "committed db = ((runtime (engine db), versions (engine db)), wal db, files db)"

lemma ExecuteStatement_other_session:
  assumes "ExecuteStatement rx clk io write_wal sql stmt (db, session) = ((db', session'), r)" "key \<noteq> TransactionKey session"
  shows "umap_find (transactions db') key = umap_find (transactions db) key"
proof (cases "transaction_command stmt")
  case True
  then show ?thesis
    using assms checkpoint_frame(2)
    by (fastforce simp: transaction_command_def ExecuteStatement_command ExecuteBegin_def ExecuteCommit_def ExecuteRollback_def
        Let_def split: prod.splits option.splits if_splits sum.splits)
next
  case False
  show ?thesis
  proof (cases "umap_find (transactions db) (TransactionKey session)")
    case None
    obtain eng s q where "submit rx clk stmt (engine db, session) = ((eng, s), q)"
      by (cases "submit rx clk stmt (engine db, session)") auto
    with None assms ExecuteAlone_frame(2) [of rx clk io write_wal sql stmt db session db' session' r] False show ?thesis
      by (simp add: ExecuteStatement_other)
  next
    case (Some ctx)
    with assms False show ?thesis
      by (auto simp: ExecuteStatement_other ExecuteInTransaction_def Let_def split: prod.splits if_splits)
  qed
qed

lemma ExecuteStatement_uncommitted:
  assumes "ExecuteStatement rx clk io write_wal sql stmt (db, session) = ((db', session'), r)"
    and "umap_find (transactions db) (TransactionKey session) = Some ctx" "stmt \<noteq> CommitTransactionStatement"
  shows "committed db' = committed db"
proof (cases "transaction_command stmt")
  case True
  then show ?thesis
    using assms by (auto simp: transaction_command_def ExecuteStatement_command ExecuteBegin_def ExecuteRollback_def committed_def
        umap_contains_find split: if_splits)
next
  case False
  with assms show ?thesis
    by (auto simp: ExecuteStatement_other ExecuteInTransaction_def Let_def committed_def split: prod.splits if_splits)
qed

lemma ExecuteStatement_stays_open:
  assumes "ExecuteStatement rx clk io write_wal sql stmt (db, session) = ((db', session'), r)"
    and "umap_find (transactions db) (TransactionKey session) = Some ctx"
    and "stmt \<noteq> CommitTransactionStatement" "stmt \<noteq> RollbackTransactionStatement"
  shows "\<exists>ctx'. transactions db' = umap_assign (TransactionKey session) ctx' (transactions db) \<or> transactions db' = transactions db"
    "umap_find (transactions db') (TransactionKey session) \<noteq> None"
  using assms
  by (cases "transaction_command stmt"; auto simp: transaction_command_def ExecuteStatement_command ExecuteBegin_def umap_contains_find
      ExecuteStatement_other ExecuteInTransaction_def Let_def split: prod.splits if_splits)+

text \<open>Requests of several sessions, one after the other.\<close>

fun serve :: "regex \<Rightarrow> clock \<Rightarrow> (nat \<Rightarrow> disk) \<Rightarrow> (SessionContext \<times> string) list \<Rightarrow> DbmsEngine \<Rightarrow> DbmsEngine" where
  "serve rx clk io [] db = db"
| "serve rx clk io ((session, sql) # requests) db =
     serve rx clk io requests (fst (fst (ExecuteSql rx clk io sql (db, session))))"

lemma serve_append: "serve rx clk io (xs @ ys) db = serve rx clk io ys (serve rx clk io xs db)"
  by (induction xs arbitrary: db) auto

lemma ExecuteSql_cases:
  assumes "ExecuteSql rx clk io sql (db, session) = ((db', session'), r)"
  obtains e where "Parse sql = Inl e" "db' = db\<lparr>calls := Suc (calls db)\<rparr>" "r = Inl e"
  | stmt where "Parse sql = Inr stmt"
      "ExecuteStatement rx clk (io (calls db)) True sql stmt (db\<lparr>calls := Suc (calls db)\<rparr>, session) = ((db', session'), r)"
  using assms by (cases "Parse sql") (auto simp: ExecuteSql_def ExecuteSqlImpl_def Let_def)

lemma ExecuteSql_other_session:
  assumes "ExecuteSql rx clk io sql (db, session) = ((db', session'), r)" "key \<noteq> TransactionKey session"
  shows "umap_find (transactions db') key = umap_find (transactions db) key"
  using assms(1)
proof (cases rule: ExecuteSql_cases)
  case (2 stmt)
  from ExecuteStatement_other_session [OF 2(2) assms(2)] show ?thesis by simp
qed simp

lemma serve_other_sessions:
  "\<forall>(s, sql) \<in> set requests. TransactionKey s \<noteq> key \<Longrightarrow>
   umap_find (transactions (serve rx clk io requests db)) key = umap_find (transactions db) key"
proof (induction requests arbitrary: db)
  case (Cons x requests)
  obtain s sql where x: "x = (s, sql)" by (cases x)
  obtain db1 s1 r1 where e: "ExecuteSql rx clk io sql (db, s) = ((db1, s1), r1)"
    by (cases "ExecuteSql rx clk io sql (db, s)") auto
  from Cons x have "umap_find (transactions (serve rx clk io requests db1)) key = umap_find (transactions db1) key" by simp
  with ExecuteSql_other_session [OF e, of key] Cons.prems x e show ?case by auto
qed simp

section \<open>Rolling back\<close>

lemma umap_erase_last [simp]: "key \<notin> fst ` set xs \<Longrightarrow> umap_erase key (xs @ [(key, v)]) = xs"
  unfolding umap_erase_def by (induction xs) auto

lemma umap_find_None: "umap_find m key = None \<longleftrightarrow> key \<notin> fst ` set m"
  by (simp add: umap_find_def map_of_eq_None_iff)

text \<open>The requests of a session inside its transaction change nothing but the context of that transaction.\<close>

lemma serve_in_transaction:
  assumes "transactions db = ts @ [(key, ctx)]" "key \<notin> fst ` set ts"
    and "\<forall>(s, sql) \<in> set requests. TransactionKey s = key \<and>
      Parse sql \<noteq> Inr CommitTransactionStatement \<and> Parse sql \<noteq> Inr RollbackTransactionStatement"
  shows "\<exists>ctx'. transactions (serve rx clk io requests db) = ts @ [(key, ctx')] \<and>
    committed (serve rx clk io requests db) = committed db"
  using assms(1,3)
proof (induction requests arbitrary: db ctx)
  case (Cons x requests)
  obtain s sql where x: "x = (s, sql)" by (cases x)
  obtain db1 s1 r1 where e: "ExecuteSql rx clk io sql (db, s) = ((db1, s1), r1)"
    by (cases "ExecuteSql rx clk io sql (db, s)") auto
  have key: "TransactionKey s = key" using Cons.prems(2) x by simp
  have active: "umap_find (transactions db) key = Some ctx" using Cons.prems(1) assms(2) by simp
  from e have "\<exists>ctx'. transactions db1 = ts @ [(key, ctx')] \<and> committed db1 = committed db"
  proof (cases rule: ExecuteSql_cases)
    case 1
    then show ?thesis using Cons.prems(1) by (simp add: committed_def)
  next
    case (2 stmt)
    have stmt: "stmt \<noteq> CommitTransactionStatement" "stmt \<noteq> RollbackTransactionStatement" using 2(1) Cons.prems(2) x by auto
    have "committed db1 = committed db"
      using ExecuteStatement_uncommitted [OF 2(2), of ctx] active key stmt by (simp add: committed_def)
    moreover obtain ctx' where "transactions db1 = umap_assign key ctx' (transactions db) \<or> transactions db1 = transactions db"
      using ExecuteStatement_stays_open(1) [OF 2(2), of ctx] active key stmt by auto
    ultimately show ?thesis using Cons.prems(1) assms(2) by auto
  qed
  then obtain ctx1 where c: "transactions db1 = ts @ [(key, ctx1)]" "committed db1 = committed db" by blast
  from Cons.IH [OF c(1)] Cons.prems(2) x e c(2) show ?case by simp
qed (use assms(1) in auto)

section \<open>Restarting\<close>

lemma checkpoint_saved:
  assumes "checkpoint io True db = (db', Inr u)"
  shows "engine db' = engine db \<and> (\<exists>n. wal db' = Some (take n header_line)) \<and>
    files db' = (Some (state_text (runtime (engine db))), Some (history_text (versions (engine db))))"
proof -
  obtain fs where fs: "Save (save_state io) (save_history io) (runtime (engine db)) (versions (engine db)) (files db) = (fs, True)"
    using assms by (auto simp: checkpoint_def split: prod.splits bool.splits if_splits)
  obtain w b where w: "Reset (wal_reset io) (wal db) = (w, b)" by (cases "Reset (wal_reset io) (wal db)")
  with fs assms have r: "b" "db' = db\<lparr>files := fs, wal := w\<rparr>"
    by (auto simp: checkpoint_def split: if_splits)
  have "\<exists>n. w = Some (take n header_line)"
    using w r(1) by (cases "wal_reset io") (auto simp: Reset_def intro: exI [of _ "length header_line"])
  with r(2) Save_complete [OF fs] show ?thesis by simp
qed

text \<open>A log that was emptied, even when its header did not reach the disk completely, holds no entry.\<close>

lemma LoadAll_emptied_log: "fst (LoadAll (Some (take n header_line))) = []"
proof (cases "n < length header_line")
  case True
  then have "n \<in> {0, 1, 2, 3, 4, 5}" by (auto simp: header_line_def kHeaderPrefix_def kCurrentVersion_def)
  then show ?thesis
    by (auto simp: LoadAll_def header_line_def kHeaderPrefix_def kCurrentVersion_def starts_with_def IsSupportedWalVersion_def)
next
  case False
  then show ?thesis using LoadAll_header [of "[]"] by simp
qed

lemma restart:
  assumes "engine_ok eng" "saveable (runtime eng) (versions eng)"
  shows "\<exists>db. make_engine rx clk io rename_works now path
      (Some (state_text (runtime eng)), Some (history_text (versions eng))) (Some (take n header_line)) = Some db \<and>
    restored (runtime eng) (runtime (engine db)) \<and>
    list_all2 restored_record (AllRecords (versions eng)) (AllRecords (versions (engine db)))"
proof -
  let ?fs = "(Some (state_text (runtime eng)), Some (history_text (versions eng)))"
  have "state_inv (runtime eng)" "named (runtime eng)" using assms(1) by (simp_all add: engine_ok_def engine_inv_def)
  from Load_saved [OF this assms(2) pool_wf_empty] obtain st vs p where
    l: "Load ?fs \<lparr>databases = []\<rparr> \<lparr>records = []\<rparr> empty_pool = ((st, vs, p), Inr True)" "restored (runtime eng) st"
      "list_all2 restored_record (AllRecords (versions eng)) (AllRecords vs)" by blast
  obtain b where "LoadAll (Some (take n header_line)) = ([], b)" using LoadAll_emptied_log [of n] by (metis prod.collapse)
  then have "\<exists>db. make_engine rx clk io rename_works now path ?fs (Some (take n header_line)) = Some db \<and>
      engine db = engine (loaded_engine path ?fs (Some (take n header_line)) (st, vs, p))"
    by (cases b) (auto simp: make_engine_def l(1) ReplayWal_def loaded_engine_def reset_wal_def split: prod.splits)
  with l(2,3) show ?thesis by (auto simp: loaded_engine_def)
qed

lemma ExecuteCommit_saved:
  assumes "ExecuteCommit io True key db = (db', Inr q)"
  shows "\<exists>n. wal db' = Some (take n header_line)"
    "files db' = (Some (state_text (runtime (engine db'))), Some (history_text (versions (engine db'))))"
  using assms
  by (auto simp: ExecuteCommit_def Let_def split: option.splits prod.splits if_splits dest!: checkpoint_saved)

lemma ExecuteAlone_saved:
  assumes "ExecuteAlone rx clk io True sql stmt (db, session) = ((db', session'), Inr q)" "IsMutatingStatement stmt"
  shows "\<exists>n. wal db' = Some (take n header_line)"
    "files db' = (Some (state_text (runtime (engine db'))), Some (history_text (versions (engine db'))))"
  using assms
  by (auto simp: ExecuteAlone_def Let_def split: prod.splits if_splits dest!: checkpoint_saved)

section \<open>A server\<close>

text \<open>The texts, the disk and the states of the witnesses.\<close>

lemma sample_texts [simp]:
  "Parse ''BEGIN;'' = Inr BeginTransactionStatement" "Parse ''COMMIT;'' = Inr CommitTransactionStatement"
  "Parse ''ROLLBACK;'' = Inr RollbackTransactionStatement" "Parse ''CREATE DATABASE d'' = Inr (CreateDatabaseStatement ''d'')"
  "Parse ''REVERT t LATEST;'' = Inr (RevertStmt \<lparr>revert_table = sample_name, revert_timestamp = ''LATEST'', revert_mode = kLatest\<rparr>)"
  unfolding sample_name_def by code_simp+

definition good_write :: file_outcome where
  "good_write = \<lparr>write_ok = True, remove_ok = True, rename_ok = True\<rparr>"

definition good_disk :: "nat \<Rightarrow> disk" where
  "good_disk n = \<lparr>wal_append = Written, save_state = good_write, save_history = good_write, wal_reset = Written\<rparr>"

definition started :: DbmsEngine where
  "started = serve no_regex sample_clock good_disk [(sample_session, ''BEGIN;'')] (fresh_dbms good_disk ''db'')"

lemmas server_defs = ExecuteSql_def ExecuteSqlImpl_def ExecuteStatement_def ExecuteBegin_def ExecuteCommit_def ExecuteRollback_def
  fresh_dbms_def reset_wal_def initial_dbms_def loaded_engine_def CloneRuntimeState_def TransactionKey_def

lemma started_transaction:
  "umap_find (transactions started) ''c'' =
     Some \<lparr>working_state = \<lparr>databases = []\<rparr>, working_version_store = \<lparr>records = []\<rparr>, wal_statements = []\<rparr>"
  by (simp add: started_def server_defs Let_def umap_contains_def umap_find_def sample_session_def)

section \<open>Properties\<close>

text \<open>
  Whatever requests the sessions make and however the disk behaves, every session always works on data that passes
  the index check: the committed state when it has no transaction, and its working copy when it has one.
\<close>

lemma sessions_consistent:
  assumes "served rx clk io db"
  shows "ExecuteCheckIndex (session_engine db session) = message_result ''index check passed''"
proof -
  have "engine_ok (session_engine db session)"
    using served_ok [OF assms] by (auto simp: session_engine_def dbms_ok_def split: option.splits)
  then have "state_inv (runtime (session_engine db session))" by (simp add: engine_ok_def engine_inv_def)
  from ValidateRuntimeIndexConsistency_pass [OF this] show ?thesis
    by (simp add: ExecuteCheckIndex_def MakeSuccess_def)
qed

text \<open>
  C20. A request of a session with an open transaction, other than \<^verbatim>\<open>COMMIT\<close>, is invisible outside: the committed state, the log
  and the files stay as they are, and every other session keeps seeing the same data.
\<close>

theorem uncommitted_isolated:
  assumes "umap_find (transactions db) (TransactionKey session) = Some ctx" "Parse sql \<noteq> Inr CommitTransactionStatement"
    and "ExecuteSql rx clk io sql (db, session) = ((db', session'), r)" "TransactionKey other \<noteq> TransactionKey session"
  shows "committed db' = committed db \<and> runtime (session_engine db' other) = runtime (session_engine db other) \<and>
    versions (session_engine db' other) = versions (session_engine db other)"
proof -
  have c: "committed db' = committed db" using assms(3)
  proof (cases rule: ExecuteSql_cases)
    case 1
    then show ?thesis by (simp add: committed_def)
  next
    case (2 stmt)
    have "stmt \<noteq> CommitTransactionStatement" using 2(1) assms(2) by auto
    with ExecuteStatement_uncommitted [OF 2(2), of ctx] assms(1) show ?thesis by (simp add: committed_def)
  qed
  with ExecuteSql_other_session [OF assms(3,4)] show ?thesis
    by (auto simp: session_engine_def transaction_engine_def committed_def split: option.splits)
qed

theorem uncommitted_isolated_witness:
  "\<exists>db' session' r. ExecuteSql no_regex sample_clock good_disk ''ROLLBACK;'' (started, sample_session) = ((db', session'), r) \<and>
     committed db' = committed started"
proof -
  obtain db' session' r where e:
    "ExecuteSql no_regex sample_clock good_disk ''ROLLBACK;'' (started, sample_session) = ((db', session'), r)"
    by (metis surj_pair)
  have "umap_find (transactions started) (TransactionKey sample_session) =
     Some \<lparr>working_state = \<lparr>databases = []\<rparr>, working_version_store = \<lparr>records = []\<rparr>, wal_statements = []\<rparr>"
    using started_transaction by (simp add: TransactionKey_def sample_session_def)
  from uncommitted_isolated [OF this _ e, of "sample_session\<lparr>client_id := ''x''\<rparr>"] e show ?thesis
    by (auto simp: TransactionKey_def sample_session_def)
qed

text \<open>
  C9. \<^verbatim>\<open>BEGIN\<close>, any requests of the session, failed ones included, and \<^verbatim>\<open>ROLLBACK\<close> leave the server as it was: the same
  committed state and history, the same log and files, the same open transactions.
\<close>

theorem rollback_undoes:
  assumes "served rx clk io db" "umap_find (transactions db) (TransactionKey session) = None"
    and "Parse begin = Inr BeginTransactionStatement" "Parse rollback = Inr RollbackTransactionStatement"
    and "\<forall>(s, sql) \<in> set requests. TransactionKey s = TransactionKey session \<and>
      Parse sql \<noteq> Inr CommitTransactionStatement \<and> Parse sql \<noteq> Inr RollbackTransactionStatement"
    and "db' = serve rx clk io ((session, begin) # requests @ [(session, rollback)]) db"
  shows "committed db' = committed db \<and> transactions db' = transactions db"
proof -
  let ?key = "TransactionKey session"
  have new: "?key \<notin> fst ` set (transactions db)" using assms(2) by (simp add: umap_find_None)
  obtain st where "CloneRuntimeState (runtime (engine db)) = Inr st"
    using served_ok [OF assms(1)] CloneRuntimeState_correct by (metis dbms_ok_def engine_inv_def engine_ok_def)
  then obtain ctx db1 where b: "fst (fst (ExecuteSql rx clk io begin (db, session))) = db1"
    "transactions db1 = transactions db @ [(?key, ctx)]" "committed db1 = committed db"
    using assms(2,3) new
    by (auto simp: ExecuteSql_def ExecuteSqlImpl_def Let_def ExecuteStatement_command ExecuteBegin_def umap_contains_find committed_def)
  from serve_in_transaction [OF b(2) new assms(5)] obtain ctx' where
    m: "transactions (serve rx clk io requests db1) = transactions db @ [(?key, ctx')]"
      "committed (serve rx clk io requests db1) = committed db1" by blast
  have "committed db' = committed (serve rx clk io requests db1) \<and> transactions db' = transactions db"
    using assms(4,6) b(1) m(1) new
    by (simp add: serve_append ExecuteSql_def ExecuteSqlImpl_def ExecuteStatement_command ExecuteRollback_def Let_def committed_def
        umap_contains_find)
  with m(2) b(3) show ?thesis by simp
qed

theorem rollback_undoes_witness:
  "committed (serve no_regex sample_clock good_disk
      [(sample_session, ''BEGIN;''), (sample_session, ''REVERT t LATEST;''), (sample_session, ''ROLLBACK;'')] (fresh_dbms good_disk ''db''))
    = committed (fresh_dbms good_disk ''db'')"
  using rollback_undoes [OF served_fresh [of no_regex sample_clock good_disk "''db''"], of sample_session "''BEGIN;''" "''ROLLBACK;''"
      "[(sample_session, ''REVERT t LATEST;'')]"]
  by (simp add: fresh_dbms_def reset_wal_def initial_dbms_def loaded_engine_def umap_find_def)

text \<open>
  C34. \<^verbatim>\<open>COMMIT\<close> makes exactly the working copy of the session the committed state, whatever other sessions have committed
  since the working copy was made: their changes are lost.
\<close>

theorem commit_installs_working_copy:
  assumes "umap_find (transactions db) (TransactionKey session) = Some ctx"
    and "\<forall>(s, sql) \<in> set requests. TransactionKey s \<noteq> TransactionKey session"
    and "Parse commit = Inr CommitTransactionStatement"
    and "ExecuteSql rx clk io commit (serve rx clk io requests db, session) = ((db', session'), r)"
  shows "runtime (engine db') = working_state ctx \<and> versions (engine db') = working_version_store ctx"
proof -
  let ?db = "serve rx clk io requests db"
  have "umap_find (transactions ?db) (TransactionKey session) = Some ctx"
    using serve_other_sessions [OF assms(2)] assms(1) by simp
  with assms(3,4) show ?thesis
    by (auto simp: ExecuteSql_def ExecuteSqlImpl_def Let_def ExecuteStatement_command ExecuteCommit_def
        split: prod.splits if_splits dest: checkpoint_frame(1))
qed

theorem commit_installs_working_copy_witness:
  "runtime (engine (serve no_regex sample_clock good_disk
      [(sample_session\<lparr>client_id := ''x''\<rparr>, ''CREATE DATABASE d''), (sample_session, ''COMMIT;'')] started)) = \<lparr>databases = []\<rparr>"
proof -
  let ?db = "serve no_regex sample_clock good_disk [(sample_session\<lparr>client_id := ''x''\<rparr>, ''CREATE DATABASE d'')] started"
  obtain db' session' r where e:
    "ExecuteSql no_regex sample_clock good_disk ''COMMIT;'' (?db, sample_session) = ((db', session'), r)"
    by (metis surj_pair)
  have "umap_find (transactions started) (TransactionKey sample_session) =
     Some \<lparr>working_state = \<lparr>databases = []\<rparr>, working_version_store = \<lparr>records = []\<rparr>, wal_statements = []\<rparr>"
    using started_transaction by (simp add: TransactionKey_def sample_session_def)
  from commit_installs_working_copy [OF this _ _ e] e show ?thesis
    by (simp add: TransactionKey_def sample_session_def)
qed

text \<open>
  What was acknowledged is durable: after a successful \<^verbatim>\<open>COMMIT\<close>, or a successful change outside of a transaction, a new
  process on the same data directory starts with the same databases, tables, rows and history.
\<close>

lemma acknowledged_durable:
  assumes "served rx clk io db" "admissible_sql sql db session" "Parse sql = Inr stmt"
    and "ExecuteSql rx clk io sql (db, session) = ((db', session'), Inr q)"
    and "stmt = CommitTransactionStatement \<or>
      \<not> transaction_command stmt \<and> IsMutatingStatement stmt \<and> umap_find (transactions db) (TransactionKey session) = None"
    and "saveable (runtime (engine db')) (versions (engine db'))"
  shows "\<exists>db''. make_engine rx' clk' io' rename_works now path (files db') (wal db') = Some db'' \<and>
    restored (runtime (engine db')) (runtime (engine db'')) \<and>
    list_all2 restored_record (AllRecords (versions (engine db'))) (AllRecords (versions (engine db'')))"
proof -
  have "served rx clk io db'" using served_step [OF assms(1,2,4)] .
  then have ok: "engine_ok (engine db')" using served_ok by (auto simp: dbms_ok_def)
  let ?db = "db\<lparr>calls := Suc (calls db)\<rparr>"
  have e: "ExecuteStatement rx clk (io (calls db)) True sql stmt (?db, session) = ((db', session'), Inr q)"
    using assms(3,4) by (simp add: ExecuteSql_def ExecuteSqlImpl_def Let_def)
  have "(\<exists>n. wal db' = Some (take n header_line)) \<and>
      files db' = (Some (state_text (runtime (engine db'))), Some (history_text (versions (engine db'))))"
  proof (cases "stmt = CommitTransactionStatement")
    case True
    then have "ExecuteCommit (io (calls db)) True (TransactionKey session) ?db = (db', Inr q)"
      using e by (auto simp: ExecuteStatement_command split: prod.splits)
    from ExecuteCommit_saved [OF this] show ?thesis by simp
  next
    case False
    with assms(5) e have "ExecuteAlone rx clk (io (calls db)) True sql stmt (?db, session) = ((db', session'), Inr q)"
      by (simp add: ExecuteStatement_other)
    from ExecuteAlone_saved [OF this] assms(5) False show ?thesis by simp
  qed
  with restart [OF ok assms(6), of rx' clk' io' rename_works now path] show ?thesis by auto
qed

text \<open>
  C35. When the log reports at \<^verbatim>\<open>COMMIT\<close> that it cannot be written, the session gets an error, but its changes are committed in memory
  and its transaction stays open on containers that have been moved from: the next \<^verbatim>\<open>COMMIT\<close> of the session replaces the whole
  database by what they hold, which with libstdc++ is nothing.
\<close>

theorem failed_commit_then_commit_empties:
  assumes "umap_find (transactions db) (TransactionKey session) = Some ctx" "wal_statements ctx \<noteq> []"
    and "\<not> snd (AppendTransaction (wal_append (io (calls db))) (wal_statements ctx) (wal db))"
    and "Parse commit = Inr CommitTransactionStatement"
    and "ExecuteSql rx clk io commit (db, session) = ((db1, session1), r1)"
    and "ExecuteSql rx clk io commit (db1, session) = ((db2, session2), r2)"
  shows "r1 = MakeError kStorageError ''failed to append WAL TX'' \<and> runtime (engine db1) = working_state ctx \<and>
    runtime (engine db2) = \<lparr>databases = []\<rparr>"
proof -
  let ?db = "db\<lparr>calls := Suc (calls db)\<rparr>"
  obtain w where w: "AppendTransaction (wal_append (io (calls db))) (wal_statements ctx) (wal db) = (w, False)"
    using assms(3) by (metis (full_types) prod.collapse)
  have one: "r1 = MakeError kStorageError ''failed to append WAL TX''" "runtime (engine db1) = working_state ctx"
    "umap_find (transactions db1) (TransactionKey session) = Some (moved_from ctx)"
    using assms(1,2,4,5) w
    by (auto simp: ExecuteSql_def ExecuteSqlImpl_def Let_def ExecuteStatement_command ExecuteCommit_def split: prod.splits)
  have "runtime (engine db2) = working_state (moved_from ctx)"
    using assms(4,6) one(3)
    by (auto simp: ExecuteSql_def ExecuteSqlImpl_def Let_def ExecuteStatement_command ExecuteCommit_def
        split: prod.splits if_splits dest: checkpoint_frame(1))
  with one show ?thesis by (simp add: moved_from_def)
qed

theorem failed_commit_then_commit_empties_witness:
  "\<exists>db2 session2 r2. ExecuteSql no_regex sample_clock (\<lambda>n. (good_disk n)\<lparr>wal_append := NotOpened\<rparr>) ''COMMIT;''
      (fst (fst (ExecuteSql no_regex sample_clock (\<lambda>n. (good_disk n)\<lparr>wal_append := NotOpened\<rparr>) ''COMMIT;''
        ((initial_dbms ''db'')\<lparr>transactions := [(''c'', \<lparr>working_state = \<lparr>databases = [(''d'', \<lparr>db_name = ''d'', tables = []\<rparr>)]\<rparr>,
            working_version_store = \<lparr>records = []\<rparr>, wal_statements = [''INSERT'']\<rparr>)]\<rparr>, sample_session))), sample_session)
      = ((db2, session2), r2) \<and> runtime (engine db2) = \<lparr>databases = []\<rparr>"
proof -
  let ?io = "\<lambda>n. (good_disk n)\<lparr>wal_append := NotOpened\<rparr>"
  let ?ctx = "\<lparr>working_state = \<lparr>databases = [(''d'', \<lparr>db_name = ''d'', tables = []\<rparr>)]\<rparr>,
            working_version_store = \<lparr>records = []\<rparr>, wal_statements = [''INSERT'']\<rparr>"
  let ?db = "(initial_dbms ''db'')\<lparr>transactions := [(''c'', ?ctx)]\<rparr>"
  obtain db1 session1 r1 where e1: "ExecuteSql no_regex sample_clock ?io ''COMMIT;'' (?db, sample_session) = ((db1, session1), r1)"
    by (metis surj_pair)
  obtain db2 session2 r2 where e2: "ExecuteSql no_regex sample_clock ?io ''COMMIT;'' (db1, sample_session) = ((db2, session2), r2)"
    by (metis surj_pair)
  have "umap_find (transactions ?db) (TransactionKey sample_session) = Some ?ctx"
    by (simp add: TransactionKey_def sample_session_def umap_find_def)
  from failed_commit_then_commit_empties [OF this _ _ _ e1 e2] e1 e2 show ?thesis by (simp add: AppendTransaction_def)
qed

lemma submit_unresolved:
  assumes "target_table stmt = Some name" "database_name name = None" "current_database session = []"
  shows "\<exists>e. submit rx clk stmt (eng, session) = ((eng, session), Inl (Err e))"
  using assms
  by (cases stmt) (auto simp: submit_def BuildPlan_def plan_leaf_def plan_select_def Let_def Execute_def ExecuteInsert_def ExecuteUpdate_def ExecuteDelete_def
      ExecuteSelect_def ExecuteRevert_def locate_table_def find_database_def ResolveDatabaseName_def MakeSuccess_def MakeError_def)

text \<open>
  The log keeps the text of a statement but not the database that its session had selected: at the start, a logged
  statement whose table name has no database is refused, the recovery stops, and the log is set aside.
\<close>

theorem recovery_needs_database:
  assumes "LoadAll (wal db) = (SqlEntry [sql] # es, True)" "transactions db = []"
    and "Parse sql = Inr stmt" "target_table stmt = Some name" "database_name name = None"
  shows "\<exists>db'. ReplayWal rx clk io db = (db', Inr False) \<and> runtime (engine db') = runtime (engine db) \<and> wal db' = wal db"
proof -
  obtain e where s: "submit rx clk stmt (engine db, recovery_session) = ((engine db, recovery_session), Inl (Err e))"
    using submit_unresolved [OF assms(4,5), of recovery_session rx clk "engine db"] by (auto simp: recovery_session_def)
  have "\<not> transaction_command stmt" using assms(4) by (auto simp: transaction_command_def)
  then have "ExecuteSqlImpl rx clk io False sql (db, recovery_session)
      = ((db\<lparr>calls := Suc (calls db)\<rparr>, recovery_session), Inl (Err e))"
    using s assms(2,3) by (simp add: ExecuteSqlImpl_def Let_def ExecuteStatement_other ExecuteAlone_def umap_find_def)
  then show ?thesis using assms(1) by (simp add: ReplayWal_def succeeded_def)
qed

theorem recovery_needs_database_witness:
  "\<exists>db'. ReplayWal no_regex sample_clock good_disk ((initial_dbms ''db'')\<lparr>wal := Some (header_line @ sql_line ''REVERT t LATEST;'')\<rparr>)
     = (db', Inr False)"
proof -
  have "LoadAll (Some (header_line @ sql_line ''REVERT t LATEST;'')) = ([SqlEntry [''REVERT t LATEST;'']], True)"
    using wal_holds_load [of "Some (header_line @ sql_line ''REVERT t LATEST;'')" "[SqlEntry [''REVERT t LATEST;'']]"] by (simp add: wal_holds_def)
  then show ?thesis
    using recovery_needs_database [of "(initial_dbms ''db'')\<lparr>wal := Some (header_line @ sql_line ''REVERT t LATEST;'')\<rparr>" "''REVERT t LATEST;''" "[]"
        "RevertStmt \<lparr>revert_table = sample_name, revert_timestamp = ''LATEST'', revert_mode = kLatest\<rparr>" sample_name no_regex sample_clock good_disk]
    by (auto simp: initial_dbms_def loaded_engine_def sample_name_def)
qed

end
