(* ===== verification/Protocol.thy ===== *)
theory Protocol
  imports Text_Fields
begin

text \<open>
  The wire format of requests and responses (\<^verbatim>\<open>src/network/protocol.cpp\<close>). The functions that escape and split fields
  are the same loops as those of the log and of the snapshot files.
\<close>

record RequestEnvelope =
  request_client_id :: string
  jwt_token :: string
  request_payload :: string

record ResponseEnvelope =
  status_code :: int
  response_payload :: string

definition EscapeField :: "string \<Rightarrow> string" where
  "EscapeField s = Escape s"

definition UnescapeField :: "string \<Rightarrow> string" where
  "UnescapeField s = unescape False s"

definition protocol_SplitByTab :: "string \<Rightarrow> string list" where
  "protocol_SplitByTab line = split_tab False [] [] line"

definition SerializeRequest :: "RequestEnvelope \<Rightarrow> string" where
  "SerializeRequest request =
     EscapeField (request_client_id request) @ [tab] @ EscapeField (jwt_token request) @ [tab] @
     EscapeField (request_payload request) @ [newline]"

definition SerializeResponse :: "ResponseEnvelope \<Rightarrow> string" where
  "SerializeResponse response =
     int_to_string (status_code response) @ [tab] @ EscapeField (response_payload response) @ [newline]"

text \<open>Both readers return \<^verbatim>\<open>false\<close> as \<open>None\<close>; they write to the envelope only after every check.\<close>

definition DeserializeRequest :: "string \<Rightarrow> RequestEnvelope option" where
  "DeserializeRequest wire =
     (case protocol_SplitByTab wire of
        [a, b, c] \<Rightarrow> Some \<lparr>request_client_id = UnescapeField a, jwt_token = UnescapeField b,
                            request_payload = UnescapeField c\<rparr>
      | _ \<Rightarrow> None)"

definition DeserializeResponse :: "string \<Rightarrow> ResponseEnvelope option" where
  "DeserializeResponse wire =
     (case protocol_SplitByTab wire of
        [a, b] \<Rightarrow> (case stoi a of
                     None \<Rightarrow> None
                   | Some (n, consumed) \<Rightarrow> Some \<lparr>status_code = n, response_payload = UnescapeField b\<rparr>)
      | _ \<Rightarrow> None)"

section \<open>Sockets\<close>

text \<open>
  A connection is the text that the other side sends before it closes. \<^verbatim>\<open>ReadLine\<close> is the same function in the server,
  the storage node and the client.
\<close>

fun ReadLine :: "string \<Rightarrow> string option" where
  "ReadLine [] = None"
| "ReadLine (ch # s) = (if ch = newline then Some [] else map_option (Cons ch) (ReadLine s))"

definition invalid_envelope :: ResponseEnvelope where
  "invalid_envelope = \<lparr>status_code = 400, response_payload =
     ''type=PARSE_ERROR code=1 message=invalid request envelope sql='' @ [quotation_mark, quotation_mark]\<rparr>"

text \<open>The handler of requests is an argument; \<open>None\<close> when the connection is closed without an answer.\<close>

definition HandleClientSocket :: "(RequestEnvelope \<Rightarrow> ResponseEnvelope) \<Rightarrow> string \<Rightarrow> string option" where
  "HandleClientSocket HandleRequest received =
     (case ReadLine received of
        None \<Rightarrow> None
      | Some wire_request \<Rightarrow>
          Some (SerializeResponse
            (case DeserializeRequest wire_request of
               None \<Rightarrow> invalid_envelope
             | Some request \<Rightarrow> HandleRequest request)))"

text \<open>
  The client's side, with the other end of the connection as a function from what is sent to what comes back; \<open>None\<close>
  also when there is no connection.
\<close>

definition SendRemote :: "(string \<Rightarrow> string option) \<Rightarrow> RequestEnvelope \<Rightarrow> ResponseEnvelope option" where
  "SendRemote peer request =
     (case peer (SerializeRequest request) of
        None \<Rightarrow> None
      | Some answer \<Rightarrow>
          (case ReadLine answer of
             None \<Rightarrow> None
           | Some wire_response \<Rightarrow> DeserializeResponse wire_response))"

section \<open>Lemmas\<close>

lemma UnescapeField_Escape [simp]: "UnescapeField (Escape s) = s"
  using Unescape_Escape [of s] by (simp add: UnescapeField_def Unescape_def)

lemma unescape_closed: "closed_field e x \<Longrightarrow> unescape e (x @ y) = unescape e x @ unescape False y"
  by (induction e x rule: closed_field.induct) (auto split: if_splits)

text \<open>A backslash at the very end is dropped.\<close>

lemma UnescapeField_open [simp]: "UnescapeField (Escape s @ [CHR 0x5C]) = s"
  using unescape_closed [OF field_Escape, of s "[CHR 0x5C]"] UnescapeField_Escape [of s]
  by (simp add: UnescapeField_def)

lemma ReadLine_line: "newline \<notin> set s \<Longrightarrow> ReadLine (s @ newline # r) = Some s"
  by (induction s) auto

lemma split_tab_Escape: "split_tab False current parts (Escape s @ r) = split_tab False (current @ Escape s) parts r"
  by (rule split_tab_field) simp

lemma split_request:
  "protocol_SplitByTab (Escape a @ [tab] @ Escape b @ [tab] @ Escape c @ s) =
     split_tab False (Escape c) [Escape a, Escape b] s"
  by (simp add: protocol_SplitByTab_def split_tab_Escape)

lemma split_response:
  "protocol_SplitByTab (int_to_string n @ [tab] @ Escape b) = [int_to_string n, Escape b]"
  using split_join [of "[int_to_string n, Escape b]" "[]"] field_plain [of "int_to_string n"]
  by (simp add: protocol_SplitByTab_def)

section \<open>The interface\<close>

text \<open>What both ends rely on: a message is one line, and that line is read back as the message.\<close>

locale line_codec =
  fixes encode :: "'m \<Rightarrow> string"
    and decode :: "string \<Rightarrow> 'm option"
    and sendable :: "'m \<Rightarrow> bool"
  assumes decode_line: "sendable m \<Longrightarrow> Option.bind (ReadLine (encode m)) decode = Some m"
begin

lemma received: "sendable m \<Longrightarrow> \<exists>wire. ReadLine (encode m) = Some wire \<and> decode wire = Some m"
  using decode_line [of m] by (cases "ReadLine (encode m)") auto

end

definition sendable_request :: "RequestEnvelope \<Rightarrow> bool" where
  "sendable_request r \<longleftrightarrow> newline \<notin> set (request_client_id r) \<union> set (jwt_token r) \<union> set (request_payload r)"

definition sendable_response :: "ResponseEnvelope \<Rightarrow> bool" where
  "sendable_response r \<longleftrightarrow> newline \<notin> set (response_payload r) \<and> - (2 ^ 31) \<le> status_code r \<and> status_code r < 2 ^ 31"

interpretation requests: line_codec SerializeRequest DeserializeRequest sendable_request
proof
  fix r :: RequestEnvelope
  let ?w = "Escape (request_client_id r) @ [tab] @ Escape (jwt_token r) @ [tab] @ Escape (request_payload r)"
  assume "sendable_request r"
  then have "newline \<notin> set ?w" by (simp add: sendable_request_def)
  from ReadLine_line [OF this, of "[]"] have "ReadLine (SerializeRequest r) = Some ?w"
    by (simp add: SerializeRequest_def EscapeField_def)
  moreover have "DeserializeRequest ?w = Some r"
    using split_request [of "request_client_id r" "jwt_token r" "request_payload r" "[]"]
    by (simp add: DeserializeRequest_def)
  ultimately show "Option.bind (ReadLine (SerializeRequest r)) DeserializeRequest = Some r" by simp
qed

interpretation responses: line_codec SerializeResponse DeserializeResponse sendable_response
proof
  fix r :: ResponseEnvelope
  let ?w = "int_to_string (status_code r) @ [tab] @ Escape (response_payload r)"
  assume r: "sendable_response r"
  then have "newline \<notin> set ?w" by (simp add: sendable_response_def)
  from ReadLine_line [OF this, of "[]"] have "ReadLine (SerializeResponse r) = Some ?w"
    by (simp add: SerializeResponse_def EscapeField_def)
  moreover have "stoi (int_to_string (status_code r)) = Some (status_code r, length (int_to_string (status_code r)))"
    using r scan_signed_int [of 32 "status_code r"] by (simp add: sendable_response_def stoi_def)
  then have "DeserializeResponse ?w = Some r"
    using split_response [of "status_code r" "response_payload r"] by (simp add: DeserializeResponse_def)
  ultimately show "Option.bind (ReadLine (SerializeResponse r)) DeserializeResponse = Some r" by simp
qed

section \<open>Properties\<close>

text \<open>
  C26. A request without newlines reaches the handler as it was sent, whatever tabs and backslashes its fields hold, and
  the client gets the handler's response as it was given, when that has no newline either and its status fits 32 bits.
\<close>

theorem exchange_correct:
  assumes "sendable_request request" "sendable_response (HandleRequest request)"
  shows "SendRemote (HandleClientSocket HandleRequest) request = Some (HandleRequest request)"
  using requests.received [OF assms(1)] responses.received [OF assms(2)]
  by (auto simp: SendRemote_def HandleClientSocket_def)

theorem exchange_correct_witness:
  "SendRemote (HandleClientSocket (\<lambda>r. \<lparr>status_code = 200, response_payload = request_payload r\<rparr>))
     \<lparr>request_client_id = ''c'', jwt_token = [], request_payload = [tab, CHR 0x5C]\<rparr>
     = Some \<lparr>status_code = 200, response_payload = [tab, CHR 0x5C]\<rparr>"
  using exchange_correct [of "\<lparr>request_client_id = ''c'', jwt_token = [], request_payload = [tab, CHR 0x5C]\<rparr>"
      "\<lambda>r. \<lparr>status_code = 200, response_payload = request_payload r\<rparr>"]
  by (simp add: sendable_request_def sendable_response_def)

text \<open>
  A request whose payload has several lines is cut: \<^verbatim>\<open>EscapeField\<close> keeps the newline itself, \<^verbatim>\<open>ReadLine\<close> stops there, and
  the handler runs the first line of the payload alone as if it were the whole request.
\<close>

theorem multiline_request_cut:
  assumes "newline \<notin> set (request_client_id request) \<union> set (jwt_token request) \<union> set first"
    and "request_payload request = first @ newline # rest"
  shows "HandleClientSocket HandleRequest (SerializeRequest request)
    = Some (SerializeResponse (HandleRequest (request\<lparr>request_payload := first\<rparr>)))"
proof -
  let ?w = "Escape (request_client_id request) @ [tab] @ Escape (jwt_token request) @ [tab] @ Escape first @ [CHR 0x5C]"
  have "Escape (x @ y) = Escape x @ Escape y" for x y by (induction x) auto
  then have "SerializeRequest request = ?w @ newline # (Escape rest @ [newline])"
    using assms(2) by (simp add: SerializeRequest_def EscapeField_def)
  moreover have "newline \<notin> set ?w" using assms(1) by simp
  ultimately have "ReadLine (SerializeRequest request) = Some ?w" by (metis ReadLine_line)
  moreover have "DeserializeRequest ?w = Some (request\<lparr>request_payload := first\<rparr>)"
    using split_request [of "request_client_id request" "jwt_token request" first "[CHR 0x5C]"]
    by (simp add: DeserializeRequest_def)
  ultimately show ?thesis by (simp add: HandleClientSocket_def)
qed

theorem multiline_request_cut_witness:
  "HandleClientSocket (\<lambda>r. \<lparr>status_code = 200, response_payload = request_payload r\<rparr>)
     (SerializeRequest \<lparr>request_client_id = ''c'', jwt_token = [], request_payload = ''DELETE FROM t'' @ newline # ''WHERE k = 1;''\<rparr>)
   = Some (SerializeResponse \<lparr>status_code = 200, response_payload = ''DELETE FROM t''\<rparr>)"
  using multiline_request_cut [of "\<lparr>request_client_id = ''c'', jwt_token = [],
      request_payload = ''DELETE FROM t'' @ newline # ''WHERE k = 1;''\<rparr>" "''DELETE FROM t''" "''WHERE k = 1;''"
      "\<lambda>r. \<lparr>status_code = 200, response_payload = request_payload r\<rparr>"]
  by simp

end
