(* ===== verification/Job_Queue.thy ===== *)
theory Job_Queue
  imports Text_Fields
begin

text \<open>
  The queue of asynchronous requests (\<^verbatim>\<open>src/runtime/job_queue.cpp\<close>). Every section that holds the mutex is one step; the
  worker thread is at one of four places of its loop. Threads interleave these steps in any order.
\<close>

section \<open>State\<close>

record JobRecord =
  job_id :: string
  job_sql :: string
  status :: string
  result_payload :: string
  result_code :: int

text \<open>The worker thread: none to join, before or in the wait, between the two critical sections, or returned.\<close>

datatype worker_state = NoThread | Waiting | Executing JobRecord | Returned

text \<open>\<open>executor\<close> says whether \<^verbatim>\<open>executor_\<close> holds a function.\<close>

record JobQueue =
  jobs :: "JobRecord list"
  job_records :: "(string, JobRecord) umap"
  executor :: bool
  running :: bool
  worker :: worker_state

definition make_queue :: JobQueue where
  "make_queue = \<lparr>jobs = [], job_records = [], executor = False, running = False, worker = NoThread\<rparr>"

section \<open>Operations\<close>

text \<open>Assigning to \<^verbatim>\<open>worker_\<close> while it has a thread to join ends the program: \<open>None\<close>.\<close>

definition Start :: "bool \<Rightarrow> JobQueue \<Rightarrow> JobQueue option" where
  "Start has_executor q =
     (if running q then Some q
      else if worker q \<noteq> NoThread then None
      else Some (q\<lparr>executor := has_executor, running := True, worker := Waiting\<rparr>))"

text \<open>\<^verbatim>\<open>Stop\<close> in two steps: the flag, then the join, which waits until the worker has returned.\<close>

definition StopRequest :: "JobQueue \<Rightarrow> JobQueue" where
  "StopRequest q = (if \<not> running q then q else q\<lparr>running := False\<rparr>)"

definition Join :: "JobQueue \<Rightarrow> JobQueue option" where
  "Join q = (case worker q of NoThread \<Rightarrow> Some q | Returned \<Rightarrow> Some (q\<lparr>worker := NoThread\<rparr>) | _ \<Rightarrow> None)"

definition Enqueue :: "JobRecord \<Rightarrow> JobQueue \<Rightarrow> JobQueue" where
  "Enqueue job q =
     (let job' = job\<lparr>status := ''QUEUED''\<rparr>
      in q\<lparr>job_records := umap_assign (job_id job') job' (job_records q), jobs := jobs q @ [job']\<rparr>)"

definition FindJob :: "JobQueue \<Rightarrow> string \<Rightarrow> JobRecord option" where
  "FindJob q i = umap_find (job_records q) i"

definition TryDequeue :: "JobQueue \<Rightarrow> JobRecord option \<times> JobQueue" where
  "TryDequeue q = (case jobs q of [] \<Rightarrow> (None, q) | job # rest \<Rightarrow> (Some job, q\<lparr>jobs := rest\<rparr>))"

definition update_record :: "string \<Rightarrow> (JobRecord \<Rightarrow> JobRecord) \<Rightarrow> JobQueue \<Rightarrow> JobQueue" where
  "update_record i f q =
     (case umap_find (job_records q) i of
        None \<Rightarrow> q
      | Some r \<Rightarrow> q\<lparr>job_records := umap_assign i (f r) (job_records q)\<rparr>)"

text \<open>The first critical section of the loop: \<open>None\<close> while the condition of the wait is false.\<close>

definition WorkerTake :: "JobQueue \<Rightarrow> JobQueue option" where
  "WorkerTake q =
     (if worker q \<noteq> Waiting \<or> (running q \<and> jobs q = []) then None
      else case jobs q of
             [] \<Rightarrow> Some (q\<lparr>worker := Returned\<rparr>)
           | current # rest \<Rightarrow>
               Some (update_record (job_id current) (\<lambda>r. r\<lparr>status := ''RUNNING''\<rparr>)
                      (q\<lparr>jobs := rest, worker := Executing current\<rparr>)))"

text \<open>The call of the executor, with what it returned, and the second critical section.\<close>

definition job_outcome :: "bool \<Rightarrow> int \<times> string \<Rightarrow> int \<times> string" where
  "job_outcome has_executor result =
     (if has_executor then result
      else (500, ''type=INTERNAL_ERROR code=9 message=async executor unavailable sql='' @ [quotation_mark, quotation_mark]))"

definition finished_record :: "int \<times> string \<Rightarrow> JobRecord \<Rightarrow> JobRecord" where
  "finished_record outcome r =
     r\<lparr>result_code := fst outcome, result_payload := snd outcome,
       status := (if fst outcome = 200 then ''DONE'' else ''FAILED'')\<rparr>"

definition WorkerFinish :: "int \<times> string \<Rightarrow> JobQueue \<Rightarrow> JobQueue option" where
  "WorkerFinish result q =
     (case worker q of
        Executing current \<Rightarrow>
          Some (update_record (job_id current) (finished_record (job_outcome (executor q) result)) (q\<lparr>worker := Waiting\<rparr>))
      | _ \<Rightarrow> None)"

section \<open>Interleavings\<close>

datatype event =
    Started bool
  | StopRequested
  | Joined
  | Enqueued JobRecord
  | Dequeued JobRecord
  | Took JobRecord
  | WorkerReturned
  | Finished JobRecord "int \<times> string"

inductive step :: "JobQueue \<Rightarrow> event \<Rightarrow> JobQueue \<Rightarrow> bool" where
  step_start: "Start b q = Some q' \<Longrightarrow> step q (Started b) q'"
| step_stop: "step q StopRequested (StopRequest q)"
| step_join: "Join q = Some q' \<Longrightarrow> step q Joined q'"
| step_enqueue: "step q (Enqueued job) (Enqueue job q)"
| step_dequeue: "TryDequeue q = (Some job, q') \<Longrightarrow> step q (Dequeued job) q'"
| step_take: "WorkerTake q = Some q' \<Longrightarrow> worker q' = Executing job \<Longrightarrow> step q (Took job) q'"
| step_return: "WorkerTake q = Some q' \<Longrightarrow> worker q' = Returned \<Longrightarrow> step q WorkerReturned q'"
| step_finish: "worker q = Executing job \<Longrightarrow> WorkerFinish result q = Some q' \<Longrightarrow>
    step q (Finished job (job_outcome (executor q) result)) q'"

inductive trace :: "JobQueue \<Rightarrow> event list \<Rightarrow> bool" where
  trace_init: "trace make_queue []"
| trace_step: "trace q evs \<Longrightarrow> step q e q' \<Longrightarrow> trace q' (evs @ [e])"

text \<open>What went into the queue, what came out of it, and what was finished, in order.\<close>

definition enqueued :: "event list \<Rightarrow> JobRecord list" where
  "enqueued evs = List.map_filter (\<lambda>e. case e of Enqueued job \<Rightarrow> Some (job\<lparr>status := ''QUEUED''\<rparr>) | _ \<Rightarrow> None) evs"

definition taken :: "event list \<Rightarrow> JobRecord list" where
  "taken evs = List.map_filter (\<lambda>e. case e of Dequeued job \<Rightarrow> Some job | Took job \<Rightarrow> Some job | _ \<Rightarrow> None) evs"

definition finished :: "event list \<Rightarrow> (JobRecord \<times> int \<times> string) list" where
  "finished evs = List.map_filter (\<lambda>e. case e of Finished job outcome \<Rightarrow> Some (job, outcome) | _ \<Rightarrow> None) evs"

definition no_dequeue :: "event list \<Rightarrow> bool" where
  "no_dequeue evs \<longleftrightarrow> list_all (\<lambda>e. case e of Dequeued job \<Rightarrow> False | _ \<Rightarrow> True) evs"

fun current_job :: "worker_state \<Rightarrow> JobRecord list" where
  "current_job (Executing job) = [job]"
| "current_job _ = []"

lemmas history_defs = enqueued_def taken_def finished_def no_dequeue_def

lemma history_simps [simp]:
  "enqueued [] = []" "taken [] = []" "finished [] = []" "no_dequeue []"
  "enqueued (evs @ [e]) = enqueued evs @ enqueued [e]"
  "taken (evs @ [e]) = taken evs @ taken [e]"
  "finished (evs @ [e]) = finished evs @ finished [e]"
  "no_dequeue (evs @ [e]) \<longleftrightarrow> no_dequeue evs \<and> no_dequeue [e]"
  by (simp_all add: history_defs List.map_filter_def)

lemma history_event [simp]:
  "enqueued [e] = (case e of Enqueued job \<Rightarrow> [job\<lparr>status := ''QUEUED''\<rparr>] | _ \<Rightarrow> [])"
  "taken [e] = (case e of Dequeued job \<Rightarrow> [job] | Took job \<Rightarrow> [job] | _ \<Rightarrow> [])"
  "finished [e] = (case e of Finished job outcome \<Rightarrow> [(job, outcome)] | _ \<Rightarrow> [])"
  "no_dequeue [e] = (case e of Dequeued job \<Rightarrow> False | _ \<Rightarrow> True)"
  by (cases e; simp add: history_defs List.map_filter_def)+

section \<open>Invariants\<close>

lemma update_record_simps [simp]:
  "jobs (update_record i f q) = jobs q" "worker (update_record i f q) = worker q"
  "running (update_record i f q) = running q" "executor (update_record i f q) = executor q"
  by (simp_all add: update_record_def split: option.splits)

lemma FindJob_update [simp]:
  "FindJob (update_record i f q) j = (if j = i then map_option f (FindJob q i) else FindJob q j)"
  by (auto simp: FindJob_def update_record_def split: option.splits)

lemma FindJob_unchanged [simp]:
  "FindJob (q\<lparr>jobs := x\<rparr>) j = FindJob q j" "FindJob (q\<lparr>worker := w\<rparr>) j = FindJob q j"
  "FindJob (q\<lparr>running := b\<rparr>) j = FindJob q j" "FindJob (q\<lparr>executor := b\<rparr>) j = FindJob q j"
  by (simp_all add: FindJob_def)

lemma FindJob_Enqueue [simp]:
  "FindJob (Enqueue job q) j = (if j = job_id job then Some (job\<lparr>status := ''QUEUED''\<rparr>) else FindJob q j)"
  by (simp add: FindJob_def Enqueue_def Let_def)

lemma Enqueue_simps [simp]:
  "jobs (Enqueue job q) = jobs q @ [job\<lparr>status := ''QUEUED''\<rparr>]" "worker (Enqueue job q) = worker q"
  by (simp_all add: Enqueue_def Let_def)

lemmas step_splits = if_splits list.splits worker_state.splits
lemmas operation_defs = Start_def StopRequest_def Join_def TryDequeue_def WorkerTake_def WorkerFinish_def

text \<open>Jobs leave the queue in the order in which they came.\<close>

lemma step_queue:
  assumes "step q e q'" "taken evs @ jobs q = enqueued evs"
  shows "taken (evs @ [e]) @ jobs q' = enqueued (evs @ [e])"
  using assms(1)
proof cases
  case (step_take job)
  then obtain rest where "jobs q = job # rest" "jobs q' = rest"
    by (auto simp: WorkerTake_def split: step_splits)
  with step_take assms(2) show ?thesis by simp
qed (use assms(2) in \<open>auto simp: operation_defs split: step_splits\<close>)

text \<open>Where every job is, and what its record says there.\<close>

definition placed :: "JobQueue \<Rightarrow> event list \<Rightarrow> bool" where
  "placed q evs \<longleftrightarrow>
     enqueued evs = map fst (finished evs) @ current_job (worker q) @ jobs q \<and>
     (\<forall>job \<in> set (jobs q). FindJob q (job_id job) = Some job) \<and>
     (\<forall>job \<in> set (current_job (worker q)). FindJob q (job_id job) = Some (job\<lparr>status := ''RUNNING''\<rparr>)) \<and>
     (\<forall>(job, outcome) \<in> set (finished evs). FindJob q (job_id job) = Some (finished_record outcome job))"

lemma placed_same:
  assumes "placed q evs" "jobs q' = jobs q" "job_records q' = job_records q"
    and "current_job (worker q') = current_job (worker q)" "enqueued [e] = []" "finished [e] = []"
  shows "placed q' (evs @ [e])"
proof -
  have "FindJob q' j = FindJob q j" for j using assms(3) by (simp add: FindJob_def)
  with assms(1,2,4-) show ?thesis by (simp add: placed_def del: history_event)
qed

lemma step_placed:
  assumes "step q e q'" "placed q evs" "no_dequeue [e]" "distinct (map job_id (enqueued (evs @ [e])))"
  shows "placed q' (evs @ [e])"
  using assms(1)
proof cases
  case (step_take job)
  then obtain rest where q: "jobs q = job # rest" "worker q = Waiting"
    "q' = update_record (job_id job) (\<lambda>r. r\<lparr>status := ''RUNNING''\<rparr>) (q\<lparr>jobs := rest, worker := Executing job\<rparr>)"
    by (auto simp: WorkerTake_def split: step_splits)
  have ids: "\<forall>j \<in> set rest. job_id j \<noteq> job_id job" "\<forall>(j, r) \<in> set (finished evs). job_id j \<noteq> job_id job"
    using assms(2,4) q step_take by (auto simp: placed_def image_iff)
  show ?thesis
    unfolding placed_def using assms(2) step_take q ids by (auto simp: placed_def)
next
  case (step_finish job result)
  then have q: "q' = update_record (job_id job) (finished_record (job_outcome (executor q) result)) (q\<lparr>worker := Waiting\<rparr>)"
    by (simp add: WorkerFinish_def)
  have ids: "\<forall>j \<in> set (jobs q). job_id j \<noteq> job_id job" "\<forall>(j, r) \<in> set (finished evs). job_id j \<noteq> job_id job"
    using assms(2,4) q step_finish by (auto simp: placed_def image_iff)
  show ?thesis
    unfolding placed_def using assms(2) step_finish q ids by (auto simp: placed_def finished_record_def)
next
  case (step_enqueue job)
  have ids: "\<forall>j \<in> set (enqueued evs). job_id j \<noteq> job_id job"
    using assms(4) step_enqueue by (auto simp: image_iff)
  moreover have "set (enqueued evs) = fst ` set (finished evs) \<union> set (current_job (worker q)) \<union> set (jobs q)"
    using assms(2) by (simp add: placed_def Un_assoc)
  ultimately have "\<forall>j \<in> set (jobs q) \<union> set (current_job (worker q)). job_id j \<noteq> job_id job"
    "\<forall>(j, r) \<in> set (finished evs). job_id j \<noteq> job_id job"
    by (blast, force)
  then show ?thesis
    unfolding placed_def using assms(2) step_enqueue by (auto simp: placed_def)
next
  case step_dequeue
  with assms(3) show ?thesis by simp
next
  case (step_start b)
  with assms(2) show ?thesis by (auto simp: Start_def split: if_splits intro: placed_same)
next
  case step_stop
  with assms(2) show ?thesis by (auto simp: StopRequest_def intro: placed_same)
next
  case step_join
  with assms(2) show ?thesis by (auto simp: Join_def split: worker_state.splits intro: placed_same)
next
  case step_return
  with assms(2) show ?thesis by (auto simp: WorkerTake_def split: step_splits intro: placed_same)
qed

lemma trace_placed:
  "trace q evs \<Longrightarrow> no_dequeue evs \<Longrightarrow> distinct (map job_id (enqueued evs)) \<Longrightarrow> placed q evs"
proof (induction rule: trace.induct)
  case trace_init
  show ?case by (simp add: placed_def make_queue_def)
next
  case (trace_step q evs e q')
  then have "placed q evs" by simp
  with trace_step step_placed show ?case by simp
qed

section \<open>Stopping\<close>

text \<open>The worker alone: its next step, when it has one, and \<open>n\<close> steps with the results of the executor.\<close>

definition WorkerStep :: "int \<times> string \<Rightarrow> JobQueue \<Rightarrow> JobQueue" where
  "WorkerStep result q =
     (case (WorkerTake q, WorkerFinish result q) of (Some q', _) \<Rightarrow> q' | (None, Some q') \<Rightarrow> q' | (None, None) \<Rightarrow> q)"

fun WorkerLoop :: "(int \<times> string) list \<Rightarrow> JobQueue \<Rightarrow> JobQueue" where
  "WorkerLoop [] q = q"
| "WorkerLoop (result # results) q = WorkerLoop results (WorkerStep result q)"

fun alive :: "worker_state \<Rightarrow> bool" where
  "alive NoThread = False"
| "alive Waiting = True"
| "alive (Executing job) = True"
| "alive Returned = True"

definition work_left :: "JobQueue \<Rightarrow> nat" where
  "work_left q = 2 * length (jobs q) + (case worker q of Executing job \<Rightarrow> 2 | Waiting \<Rightarrow> 1 | _ \<Rightarrow> 0)"

lemma WorkerStep_stopped:
  assumes "\<not> running q" "alive (worker q)" "worker q = Returned \<longrightarrow> jobs q = []"
  shows "\<not> running (WorkerStep result q)" "alive (worker (WorkerStep result q))"
    "worker (WorkerStep result q) = Returned \<longrightarrow> jobs (WorkerStep result q) = []"
    "work_left (WorkerStep result q) \<le> work_left q - 1"
  using assms by (auto simp: WorkerStep_def WorkerTake_def WorkerFinish_def work_left_def split: worker_state.splits list.splits)

lemma WorkerLoop_stopped:
  assumes "\<not> running q" "alive (worker q)" "worker q = Returned \<longrightarrow> jobs q = []" "work_left q \<le> length results"
  shows "worker (WorkerLoop results q) = Returned \<and> jobs (WorkerLoop results q) = []"
  using assms
proof (induction results q rule: WorkerLoop.induct)
  case (1 q)
  then show ?case by (cases "worker q") (auto simp: work_left_def)
next
  case (2 result results q)
  with WorkerStep_stopped [OF 2(2-4), of result] show ?case by simp
qed

lemma WorkerStep_trace:
  assumes "trace q evs"
  obtains evs' where "trace (WorkerStep result q) (evs @ evs')" "enqueued evs' = []" "no_dequeue evs'"
proof (cases "WorkerTake q")
  case (Some q')
  then have "worker q' = Returned \<or> (\<exists>job. worker q' = Executing job)"
    by (auto simp: WorkerTake_def split: step_splits)
  with Some show ?thesis
    using trace_step [OF assms step_return] trace_step [OF assms step_take] that [of "[WorkerReturned]"] that [of "[Took _]"]
    by (auto simp: WorkerStep_def)
next
  case None
  show ?thesis
  proof (cases "WorkerFinish result q")
    case (Some q')
    then obtain job where "worker q = Executing job" by (auto simp: WorkerFinish_def split: worker_state.splits)
    with None Some show ?thesis
      using trace_step [OF assms step_finish, of job result q'] that [of "[Finished job (job_outcome (executor q) result)]"]
      by (simp add: WorkerStep_def)
  next
    case None': None
    with None assms that [of "[]"] show ?thesis by (simp add: WorkerStep_def)
  qed
qed

lemma history_append:
  "enqueued (xs @ ys) = enqueued xs @ enqueued ys" "no_dequeue (xs @ ys) \<longleftrightarrow> no_dequeue xs \<and> no_dequeue ys"
  by (simp_all add: history_defs List.map_filter_def)

lemma WorkerLoop_trace:
  assumes "trace q evs"
  shows "\<exists>evs'. trace (WorkerLoop results q) (evs @ evs') \<and> enqueued evs' = [] \<and> no_dequeue evs'"
  using assms
proof (induction results q arbitrary: evs rule: WorkerLoop.induct)
  case (1 q)
  then show ?case by (metis WorkerLoop.simps(1) append_Nil2 history_simps(1,4))
next
  case (2 result results q)
  from WorkerStep_trace [OF 2(2)] obtain e1 where
    e1: "trace (WorkerStep result q) (evs @ e1)" "enqueued e1 = []" "no_dequeue e1" by blast
  from 2(1) [OF e1(1)] obtain e2 where "trace (WorkerLoop results (WorkerStep result q)) ((evs @ e1) @ e2)"
    "enqueued e2 = []" "no_dequeue e2" by blast
  with e1 show ?case by (intro exI [of _ "e1 @ e2"]) (simp add: history_append)
qed

section \<open>Properties\<close>

text \<open>
  In every interleaving of clients and worker, jobs leave the queue in the order in which they were
  put in, none twice and none skipped.
\<close>

theorem jobs_fifo:
  assumes "trace q evs"
  shows "taken evs @ jobs q = enqueued evs"
  using assms by induction (simp add: make_queue_def, blast intro: step_queue)

text \<open>The job and the run of the witnesses.\<close>

definition sample_job :: JobRecord where
  "sample_job = \<lparr>job_id = ''j'', job_sql = ''SELECT'', status = ''QUEUED'', result_payload = [], result_code = 0\<rparr>"

lemma sample_queue:
  "trace (Enqueue sample_job (make_queue\<lparr>executor := True, running := True, worker := Waiting\<rparr>))
     [Started True, Enqueued sample_job]"
  using trace_step [OF trace_step [OF trace_init step_start [of True]] step_enqueue]
  by (simp add: Start_def make_queue_def)

theorem jobs_fifo_witness:
  "taken [Started True, Enqueued sample_job] @
     jobs (Enqueue sample_job (make_queue\<lparr>executor := True, running := True, worker := Waiting\<rparr>)) = [sample_job]"
  using jobs_fifo [OF sample_queue] by (simp add: enqueued_def List.map_filter_def sample_job_def)

text \<open>
  C28. As long as ids are not used twice and \<^verbatim>\<open>TryDequeue\<close> is not called, a client that asks for a job
  it has submitted always learns where it is: queued, running, or finished with the result of the executor, done
  exactly when the code is 200. Every submitted job is in one of these places.
\<close>

theorem job_status_correct:
  assumes "trace q evs" "no_dequeue evs" "distinct (map job_id (enqueued evs))"
  shows "enqueued evs = map fst (finished evs) @ current_job (worker q) @ jobs q \<and>
    (\<forall>job \<in> set (jobs q). FindJob q (job_id job) = Some job) \<and>
    (\<forall>job \<in> set (current_job (worker q)). FindJob q (job_id job) = Some (job\<lparr>status := ''RUNNING''\<rparr>)) \<and>
    (\<forall>(job, outcome) \<in> set (finished evs). FindJob q (job_id job) =
       Some (job\<lparr>result_code := fst outcome, result_payload := snd outcome,
                 status := (if fst outcome = 200 then ''DONE'' else ''FAILED'')\<rparr>))"
  using trace_placed [OF assms] by (simp add: placed_def finished_record_def)

theorem job_status_correct_witness:
  "FindJob (Enqueue sample_job (make_queue\<lparr>executor := True, running := True, worker := Waiting\<rparr>)) ''j'' = Some sample_job"
  using job_status_correct [OF sample_queue] by (simp add: enqueued_def no_dequeue_def List.map_filter_def sample_job_def)

text \<open>
  C27. After \<^verbatim>\<open>Stop\<close> has cleared the flag the worker still finishes every job of the queue and then returns, after two
  steps per job and at most two more, whatever the jobs return: \<^verbatim>\<open>Stop\<close> does not wait for ever, and no job is
  left queued or running.
\<close>

theorem stop_drains:
  assumes "trace q evs" "no_dequeue evs" "distinct (map job_id (enqueued evs))"
    and "\<not> running q" "worker q = Waiting \<or> worker q = Executing current"
    and "2 * length (jobs q) + 2 \<le> length results"
  shows "worker (WorkerLoop results q) = Returned \<and>
    (\<forall>job \<in> set (enqueued evs). \<exists>r. FindJob (WorkerLoop results q) (job_id job) = Some r \<and> status r \<in> {''DONE'', ''FAILED''})"
proof -
  have "alive (worker q)" "worker q = Returned \<longrightarrow> jobs q = []" "work_left q \<le> length results"
    using assms(5,6) by (auto simp: work_left_def)
  from WorkerLoop_stopped [OF assms(4) this] have w: "worker (WorkerLoop results q) = Returned" "jobs (WorkerLoop results q) = []"
    by auto
  from WorkerLoop_trace [OF assms(1)] obtain evs' where
    "trace (WorkerLoop results q) (evs @ evs')" "enqueued evs' = []" "no_dequeue evs'" by blast
  with assms(2,3) have "placed (WorkerLoop results q) (evs @ evs')" "enqueued (evs @ evs') = enqueued evs"
    using trace_placed by (simp_all add: history_append)
  with w show ?thesis by (fastforce simp: placed_def finished_record_def)
qed

theorem stop_drains_witness:
  "worker (WorkerLoop [(200, []), (200, ''r''), (200, []), (200, [])]
     (StopRequest (Enqueue sample_job (make_queue\<lparr>executor := True, running := True, worker := Waiting\<rparr>)))) = Returned"
proof -
  let ?q = "StopRequest (Enqueue sample_job (make_queue\<lparr>executor := True, running := True, worker := Waiting\<rparr>))"
  have "trace ?q [Started True, Enqueued sample_job, StopRequested]"
    using trace_step [OF sample_queue step_stop] by simp
  from stop_drains [OF this, of _ "[(200, []), (200, ''r''), (200, []), (200, [])]"] show ?thesis
    by (simp add: enqueued_def no_dequeue_def List.map_filter_def StopRequest_def Enqueue_def Let_def make_queue_def)
qed

text \<open>
  \<^verbatim>\<open>Stop\<close> releases the mutex before it joins the worker: a \<^verbatim>\<open>Start\<close> in between assigns to a thread that has not
  been joined, which ends the program.
\<close>

lemma start_during_stop_terminates:
  "\<exists>q evs. trace q evs \<and> last evs = StopRequested \<and> Start True q = None"
proof -
  let ?q = "StopRequest (Enqueue sample_job (make_queue\<lparr>executor := True, running := True, worker := Waiting\<rparr>))"
  have "trace ?q [Started True, Enqueued sample_job, StopRequested]"
    using trace_step [OF sample_queue step_stop] by simp
  moreover have "Start True ?q = None" by (simp add: Start_def StopRequest_def Enqueue_def Let_def)
  ultimately show ?thesis by (intro exI [of _ ?q] exI [of _ "[Started True, Enqueued sample_job, StopRequested]"]) simp
qed

end
