(* ===== verification/Access_Control.thy ===== *)
theory Access_Control
  imports Wal Parser
begin

text \<open>
  Accounts, groups and grants (\<^verbatim>\<open>src/catalog/rbac.hpp\<close>, \<^verbatim>\<open>src/catalog/rbac.cpp\<close>): the state of the access controller, every
  operation that changes it, and the decision \<^verbatim>\<open>Authorize\<close>. The keyed hash of OpenSSL, the random salts and the outcome
  of the file writes are arguments. The abstract specification is a set of grants: who may do what on which database.
\<close>

section \<open>State\<close>

datatype Permission = kRead | kWrite | kCreateTable | kDropTable | kDropDatabase

record AccountRecord =
  account_user :: string
  salt :: string
  password_hash :: string
  account_groups :: "string list"

record DatabaseGrantRecord =
  default_permissions :: "32 word"
  group_permissions :: "(string, 32 word) umap"
  user_permissions :: "(string, 32 word) umap"

text \<open>
  The members of the class and, after them, the files of its directory. \<^verbatim>\<open>groups_\<close> is a set: a list without duplicates.
\<close>

record AccessController =
  jwt_secret :: string
  accounts :: "(string, AccountRecord) umap"
  groups :: "string list"
  database_grants :: "(string, DatabaseGrantRecord) umap"
  accounts_file :: "string option"
  grants_file :: "string option"
  secret_file :: "string option"

text \<open>\<^verbatim>\<open>HMAC(EVP_sha256(), ...)\<close> on a key and a message: the digest, or \<open>None\<close> for a null pointer.\<close>

type_synonym hmac = "string \<Rightarrow> string \<Rightarrow> string option"

definition set_insert :: "'a \<Rightarrow> 'a list \<Rightarrow> 'a list" where
  "set_insert x xs = (if x \<in> set xs then xs else xs @ [x])"

text \<open>\<^verbatim>\<open>operator[]\<close> of a map: the value of a key, which is created when it is missing.\<close>

definition umap_index :: "('k, 'v) umap \<Rightarrow> 'k \<Rightarrow> 'v \<Rightarrow> 'v" where
  "umap_index m k default_value = (case umap_find m k of Some v \<Rightarrow> v | None \<Rightarrow> default_value)"

lemma umap_assign_set: "x \<in> set (umap_assign k v m) \<Longrightarrow> x = (k, v) \<or> x \<in> set m"
  unfolding umap_assign_def by (induction m) (auto split: if_splits)

section \<open>Permissions\<close>

fun PermissionMask :: "Permission \<Rightarrow> 32 word" where
  "PermissionMask kRead = push_bit 0 1"
| "PermissionMask kWrite = push_bit 1 1"
| "PermissionMask kCreateTable = push_bit 2 1"
| "PermissionMask kDropTable = push_bit 3 1"
| "PermissionMask kDropDatabase = push_bit 4 1"

definition HasPermissionInMask :: "32 word \<Rightarrow> Permission \<Rightarrow> bool" where
  "HasPermissionInMask bits permission \<longleftrightarrow> bits AND PermissionMask permission \<noteq> 0"

definition ParsePermissionName :: "string \<Rightarrow> Permission option" where
  "ParsePermissionName permission_name =
     (let upper = ToUpper permission_name in
      if upper = ''READ'' then Some kRead
      else if upper = ''WRITE'' then Some kWrite
      else if upper = ''CREATE_TABLE'' then Some kCreateTable
      else if upper = ''DROP_TABLE'' then Some kDropTable
      else if upper = ''DROP_DATABASE'' then Some kDropDatabase
      else None)"

section \<open>The text of the files\<close>

fun join_groups :: "string list \<Rightarrow> string" where
  "join_groups [] = []"
| "join_groups [g] = Escape g"
| "join_groups (g # h # gs) = Escape g @ '','' @ join_groups (h # gs)"

definition account_line :: "string \<times> AccountRecord \<Rightarrow> string" where
  "account_line a =
     ''ACCOUNT'' @ [tab] @ ''user_id='' @ Escape (fst a) @ [tab] @ ''salt='' @ Escape (salt (snd a)) @ [tab] @
     ''password_hash='' @ Escape (password_hash (snd a)) @ [tab] @ ''groups='' @ join_groups (account_groups (snd a))"

definition group_line :: "string \<Rightarrow> string" where
  "group_line g = ''GROUP'' @ [tab] @ ''name='' @ Escape g"

definition accounts_text :: "AccessController \<Rightarrow> string" where
  "accounts_text ac =
     unlines ((''FORMAT'' @ [tab] @ ''1'') # map account_line (accounts ac) @ map group_line (groups ac))"

definition mask_field :: "32 word \<Rightarrow> string" where
  "mask_field bits = ''mask='' @ nat_to_string (unat bits)"

definition default_line :: "string \<Rightarrow> 32 word \<Rightarrow> string" where
  "default_line db w = ''DEFAULT'' @ [tab] @ ''db='' @ Escape db @ [tab] @ mask_field w"

definition group_grant_line :: "string \<Rightarrow> string \<times> 32 word \<Rightarrow> string" where
  "group_grant_line db g =
     ''GROUP_GRANT'' @ [tab] @ ''db='' @ Escape db @ [tab] @ ''group='' @ Escape (fst g) @ [tab] @ mask_field (snd g)"

definition user_grant_line :: "string \<Rightarrow> string \<times> 32 word \<Rightarrow> string" where
  "user_grant_line db u =
     ''USER_GRANT'' @ [tab] @ ''db='' @ Escape db @ [tab] @ ''user='' @ Escape (fst u) @ [tab] @ mask_field (snd u)"

definition grant_lines :: "string \<times> DatabaseGrantRecord \<Rightarrow> string list" where
  "grant_lines g =
     default_line (fst g) (default_permissions (snd g)) # map (group_grant_line (fst g)) (group_permissions (snd g)) @
     map (user_grant_line (fst g)) (user_permissions (snd g))"

definition grants_text :: "AccessController \<Rightarrow> string" where
  "grants_text ac = unlines ((''FORMAT'' @ [tab] @ ''1'') # concat (map grant_lines (database_grants ac)))"

text \<open>Writing a file: only the opening is checked.\<close>

fun write_file :: "write_outcome \<Rightarrow> string \<Rightarrow> string option \<Rightarrow> string option" where
  "write_file NotOpened txt f = f"
| "write_file (Torn n noticed) txt f = Some (take n txt)"
| "write_file Written txt f = Some txt"

text \<open>What the disk does with the two files of one \<^verbatim>\<open>Persist\<close>.\<close>

type_synonym persist_outcome = "write_outcome \<times> write_outcome"

text \<open>An operation returns the new state and the error message; \<open>None\<close> is success.\<close>

definition Persist :: "persist_outcome \<Rightarrow> AccessController \<Rightarrow> AccessController \<times> string option" where
  "Persist io ac =
     (case io of (io1, io2) \<Rightarrow>
        if io1 = NotOpened then (ac, Some ''failed to persist accounts'')
        else let ac1 = ac\<lparr>accounts_file := write_file io1 (accounts_text ac) (accounts_file ac)\<rparr>
             in if io2 = NotOpened then (ac1, Some ''failed to persist grants'')
                else (ac1\<lparr>grants_file := write_file io2 (grants_text ac) (grants_file ac1)\<rparr>, None))"

section \<open>Passwords\<close>

definition hex_character :: "nat \<Rightarrow> char" where
  "hex_character d = ''0123456789abcdef'' ! d"

definition hex_byte :: "char \<Rightarrow> string" where
  "hex_byte c = [hex_character (of_char c div 16), hex_character (of_char c mod 16)]"

definition HashPassword :: "hmac \<Rightarrow> string \<Rightarrow> string \<Rightarrow> string" where
  "HashPassword hmac key password =
     (case hmac key (key @ '':'' @ password) of None \<Rightarrow> [] | Some digest \<Rightarrow> concat (map hex_byte digest))"

section \<open>Operations\<close>

definition HasAccounts :: "AccessController \<Rightarrow> bool" where
  "HasAccounts ac \<longleftrightarrow> accounts ac \<noteq> []"

definition RegisterAccount ::
  "hmac \<Rightarrow> string \<Rightarrow> persist_outcome \<Rightarrow> string \<Rightarrow> string \<Rightarrow> string \<Rightarrow> AccessController \<Rightarrow> AccessController \<times> string option" where
  "RegisterAccount hmac new_salt io user password group_name ac =
     (if user = [] \<or> password = [] then (ac, Some ''user and password are required'')
      else if umap_contains (accounts ac) user then (ac, Some ''user already exists'')
      else let effective_group = (if group_name = [] then (if accounts ac = [] then ''admin'' else ''user'') else group_name);
               record = \<lparr>account_user = user, salt = new_salt, password_hash = HashPassword hmac new_salt password,
                         account_groups = [effective_group]\<rparr>
           in Persist io (ac\<lparr>groups := set_insert effective_group (groups ac),
                             accounts := umap_emplace user record (accounts ac)\<rparr>))"

definition CreateGroup :: "persist_outcome \<Rightarrow> string \<Rightarrow> AccessController \<Rightarrow> AccessController \<times> string option" where
  "CreateGroup io group_name ac =
     (if group_name = [] then (ac, Some ''group is required'')
      else Persist io (ac\<lparr>groups := set_insert group_name (groups ac)\<rparr>))"

definition AddUserToGroup :: "persist_outcome \<Rightarrow> string \<Rightarrow> string \<Rightarrow> AccessController \<Rightarrow> AccessController \<times> string option" where
  "AddUserToGroup io user group_name ac =
     (case umap_find (accounts ac) user of
        None \<Rightarrow> (ac, Some ''user not found'')
      | Some record \<Rightarrow>
          if group_name \<notin> set (groups ac) then (ac, Some ''group not found'')
          else Persist io (ac\<lparr>accounts :=
                 umap_assign user (record\<lparr>account_groups := set_insert group_name (account_groups record)\<rparr>) (accounts ac)\<rparr>))"

definition no_grants :: DatabaseGrantRecord where
  "no_grants = \<lparr>default_permissions = 0, group_permissions = [], user_permissions = []\<rparr>"

text \<open>An update of the grants of one database.\<close>

definition update_grants ::
  "string \<Rightarrow> (DatabaseGrantRecord \<Rightarrow> DatabaseGrantRecord) \<Rightarrow> AccessController \<Rightarrow> AccessController" where
  "update_grants db f ac =
     ac\<lparr>database_grants := umap_assign db (f (umap_index (database_grants ac) db no_grants)) (database_grants ac)\<rparr>"

definition GrantDefault :: "persist_outcome \<Rightarrow> string \<Rightarrow> Permission \<Rightarrow> AccessController \<Rightarrow> AccessController \<times> string option" where
  "GrantDefault io db permission ac =
     (if db = [] then (ac, Some ''database is required'')
      else Persist io (update_grants db (\<lambda>r. r\<lparr>default_permissions := default_permissions r OR PermissionMask permission\<rparr>) ac))"

definition RevokeDefault :: "persist_outcome \<Rightarrow> string \<Rightarrow> Permission \<Rightarrow> AccessController \<Rightarrow> AccessController \<times> string option" where
  "RevokeDefault io db permission ac =
     (if \<not> umap_contains (database_grants ac) db then (ac, Some ''database grant record not found'')
      else Persist io (update_grants db
             (\<lambda>r. r\<lparr>default_permissions := default_permissions r AND NOT (PermissionMask permission)\<rparr>) ac))"

definition GrantGroup ::
  "persist_outcome \<Rightarrow> string \<Rightarrow> string \<Rightarrow> Permission \<Rightarrow> AccessController \<Rightarrow> AccessController \<times> string option" where
  "GrantGroup io db group_name permission ac =
     (if group_name \<notin> set (groups ac) then (ac, Some ''group not found'')
      else Persist io (update_grants db (\<lambda>r. r\<lparr>group_permissions := umap_assign group_name
             (umap_index (group_permissions r) group_name 0 OR PermissionMask permission) (group_permissions r)\<rparr>) ac))"

definition RevokeGroup ::
  "persist_outcome \<Rightarrow> string \<Rightarrow> string \<Rightarrow> Permission \<Rightarrow> AccessController \<Rightarrow> AccessController \<times> string option" where
  "RevokeGroup io db group_name permission ac =
     (if \<not> umap_contains (database_grants ac) db then (ac, Some ''database grant record not found'')
      else Persist io (update_grants db (\<lambda>r. r\<lparr>group_permissions := umap_assign group_name
             (umap_index (group_permissions r) group_name 0 AND NOT (PermissionMask permission)) (group_permissions r)\<rparr>) ac))"

definition GrantUser ::
  "persist_outcome \<Rightarrow> string \<Rightarrow> string \<Rightarrow> Permission \<Rightarrow> AccessController \<Rightarrow> AccessController \<times> string option" where
  "GrantUser io db user permission ac =
     (if \<not> umap_contains (accounts ac) user then (ac, Some ''user not found'')
      else Persist io (update_grants db (\<lambda>r. r\<lparr>user_permissions := umap_assign user
             (umap_index (user_permissions r) user 0 OR PermissionMask permission) (user_permissions r)\<rparr>) ac))"

definition RevokeUser ::
  "persist_outcome \<Rightarrow> string \<Rightarrow> string \<Rightarrow> Permission \<Rightarrow> AccessController \<Rightarrow> AccessController \<times> string option" where
  "RevokeUser io db user permission ac =
     (if \<not> umap_contains (database_grants ac) db then (ac, Some ''database grant record not found'')
      else Persist io (update_grants db (\<lambda>r. r\<lparr>user_permissions := umap_assign user
             (umap_index (user_permissions r) user 0 AND NOT (PermissionMask permission)) (user_permissions r)\<rparr>) ac))"

definition UserGroups :: "AccessController \<Rightarrow> string \<Rightarrow> string list" where
  "UserGroups ac user = (case umap_find (accounts ac) user of None \<Rightarrow> [] | Some record \<Rightarrow> account_groups record)"

definition IsAdmin :: "AccessController \<Rightarrow> string \<Rightarrow> bool" where
  "IsAdmin ac user =
     (case umap_find (accounts ac) user of None \<Rightarrow> False | Some record \<Rightarrow> ''admin'' \<in> set (account_groups record))"

definition mask_allows :: "(string, 32 word) umap \<Rightarrow> string \<Rightarrow> Permission \<Rightarrow> bool" where
  "mask_allows masks name permission =
     (case umap_find masks name of None \<Rightarrow> False | Some bits \<Rightarrow> HasPermissionInMask bits permission)"

definition Authorize :: "AccessController \<Rightarrow> string \<Rightarrow> string \<Rightarrow> Permission \<Rightarrow> bool" where
  "Authorize ac user db permission =
     (case umap_find (accounts ac) user of
        None \<Rightarrow> False
      | Some record \<Rightarrow>
          if IsAdmin ac user then True
          else case umap_find (database_grants ac) db of
                 None \<Rightarrow> False
               | Some grants \<Rightarrow>
                   if HasPermissionInMask (default_permissions grants) permission then True
                   else if list_ex (\<lambda>g. mask_allows (group_permissions grants) g permission) (account_groups record) then True
                   else mask_allows (user_permissions grants) user permission)"

section \<open>Masks are sets of permissions\<close>

fun permission_bit :: "Permission \<Rightarrow> nat" where
  "permission_bit kRead = 0"
| "permission_bit kWrite = 1"
| "permission_bit kCreateTable = 2"
| "permission_bit kDropTable = 3"
| "permission_bit kDropDatabase = 4"

lemma permission_bit_inject [simp]: "permission_bit p = permission_bit q \<longleftrightarrow> p = q"
  by (cases p; cases q) simp_all

lemma PermissionMask_bit: "PermissionMask p = push_bit (permission_bit p) 1"
  by (cases p) simp_all

lemma permission_bit_less: "permission_bit p < 32"
  by (cases p) simp_all

lemma bit_PermissionMask: "bit (PermissionMask p) n \<longleftrightarrow> n = permission_bit p"
  using permission_bit_less [of p] by (auto simp: PermissionMask_bit bit_simps)

lemma HasPermissionInMask_bit: "HasPermissionInMask bits p \<longleftrightarrow> bit bits (permission_bit p)"
proof
  assume "HasPermissionInMask bits p"
  then obtain n where "bit (bits AND PermissionMask p) n"
    unfolding HasPermissionInMask_def by (metis bit_0_eq bit_eqI bot_apply bot_bool_def)
  then show "bit bits (permission_bit p)" by (auto simp: bit_and_iff bit_PermissionMask)
next
  assume "bit bits (permission_bit p)"
  then have "bit (bits AND PermissionMask p) (permission_bit p)" by (simp add: bit_and_iff bit_PermissionMask)
  then show "HasPermissionInMask bits p" unfolding HasPermissionInMask_def by auto
qed

lemma HasPermissionInMask_update [simp]:
  "HasPermissionInMask (bits OR PermissionMask p) q \<longleftrightarrow> q = p \<or> HasPermissionInMask bits q"
  "HasPermissionInMask (bits AND NOT (PermissionMask p)) q \<longleftrightarrow> q \<noteq> p \<and> HasPermissionInMask bits q"
  "\<not> HasPermissionInMask 0 q"
  using permission_bit_less [of q]
  by (auto simp: HasPermissionInMask_bit bit_or_iff bit_and_iff bit_not_iff bit_PermissionMask possible_bit_word)

section \<open>The abstract specification\<close>

datatype principal = Everyone | InGroup string | Account string

definition granted :: "AccessController \<Rightarrow> (string \<times> principal \<times> Permission) set" where
  "granted ac = {(db, who, p). \<exists>r. umap_find (database_grants ac) db = Some r \<and>
     (case who of
        Everyone \<Rightarrow> HasPermissionInMask (default_permissions r) p
      | InGroup g \<Rightarrow> mask_allows (group_permissions r) g p
      | Account u \<Rightarrow> mask_allows (user_permissions r) u p)}"

text \<open>The six operations on grants by the principal they are about.\<close>

fun Grant :: "persist_outcome \<Rightarrow> string \<Rightarrow> principal \<Rightarrow> Permission \<Rightarrow> AccessController \<Rightarrow> AccessController \<times> string option" where
  "Grant io db Everyone p ac = GrantDefault io db p ac"
| "Grant io db (InGroup g) p ac = GrantGroup io db g p ac"
| "Grant io db (Account u) p ac = GrantUser io db u p ac"

fun Revoke :: "persist_outcome \<Rightarrow> string \<Rightarrow> principal \<Rightarrow> Permission \<Rightarrow> AccessController \<Rightarrow> AccessController \<times> string option" where
  "Revoke io db Everyone p ac = RevokeDefault io db p ac"
| "Revoke io db (InGroup g) p ac = RevokeGroup io db g p ac"
| "Revoke io db (Account u) p ac = RevokeUser io db u p ac"

fun grantable :: "AccessController \<Rightarrow> string \<Rightarrow> principal \<Rightarrow> bool" where
  "grantable ac db Everyone = (db \<noteq> [])"
| "grantable ac db (InGroup g) = (g \<in> set (groups ac))"
| "grantable ac db (Account u) = umap_contains (accounts ac) u"

text \<open>Saving never changes what the controller knows.\<close>

lemma Persist_state [simp]:
  "accounts (fst (Persist io ac)) = accounts ac" "groups (fst (Persist io ac)) = groups ac"
  "database_grants (fst (Persist io ac)) = database_grants ac" "jwt_secret (fst (Persist io ac)) = jwt_secret ac"
  by (auto simp: Persist_def Let_def split: prod.splits)

lemma granted_cong: "database_grants ac = database_grants ac' \<Longrightarrow> granted ac = granted ac'"
  by (simp add: granted_def)

lemma granted_Persist [simp]: "granted (fst (Persist io ac)) = granted ac"
  by (rule granted_cong) simp

lemma mask_allows_simps [simp]:
  "mask_allows [] n p = False"
  "mask_allows (umap_assign k b m) n p \<longleftrightarrow> (if n = k then HasPermissionInMask b p else mask_allows m n p)"
  "HasPermissionInMask (umap_index m k 0) p \<longleftrightarrow> mask_allows m k p"
  by (auto simp: mask_allows_def umap_index_def umap_find_def [of "[]"] split: option.splits)

lemma granted_update:
  "(db', who, q) \<in> granted (update_grants db f ac) \<longleftrightarrow>
     (if db' = db
      then (let r = f (umap_index (database_grants ac) db no_grants) in
            case who of
              Everyone \<Rightarrow> HasPermissionInMask (default_permissions r) q
            | InGroup g \<Rightarrow> mask_allows (group_permissions r) g q
            | Account u \<Rightarrow> mask_allows (user_permissions r) u q)
      else (db', who, q) \<in> granted ac)"
  by (simp add: granted_def update_grants_def Let_def)

lemma granted_index:
  "(db, who, q) \<in> granted ac \<longleftrightarrow>
     (let r = umap_index (database_grants ac) db no_grants in
      case who of
        Everyone \<Rightarrow> HasPermissionInMask (default_permissions r) q
      | InGroup g \<Rightarrow> mask_allows (group_permissions r) g q
      | Account u \<Rightarrow> mask_allows (user_permissions r) u q)"
  by (cases who) (auto simp: granted_def umap_index_def no_grants_def split: option.splits)

lemma Grant_granted:
  "granted (fst (Grant io db who p ac)) = (if grantable ac db who then insert (db, who, p) (granted ac) else granted ac)"
proof (rule set_eqI)
  fix x :: "string \<times> principal \<times> Permission"
  obtain db' who' q where x: "x = (db', who', q)" by (cases x)
  show "x \<in> granted (fst (Grant io db who p ac)) \<longleftrightarrow>
      x \<in> (if grantable ac db who then insert (db, who, p) (granted ac) else granted ac)"
    unfolding x
    by (cases who; cases who')
      (auto simp: GrantDefault_def GrantGroup_def GrantUser_def granted_update Let_def granted_index [of db])
qed

lemma Revoke_granted: "granted (fst (Revoke io db who p ac)) = granted ac - {(db, who, p)}"
proof (rule set_eqI)
  fix x :: "string \<times> principal \<times> Permission"
  obtain db' who' q where x: "x = (db', who', q)" by (cases x)
  have none: "\<not> umap_contains (database_grants ac) db \<Longrightarrow> umap_index (database_grants ac) db no_grants = no_grants"
    by (simp add: umap_contains_find umap_index_def)
  show "x \<in> granted (fst (Revoke io db who p ac)) \<longleftrightarrow> x \<in> granted ac - {(db, who, p)}"
    unfolding x using none
    by (cases who; cases who')
      (auto simp: RevokeDefault_def RevokeGroup_def RevokeUser_def granted_update Let_def granted_index [of db] no_grants_def)
qed

section \<open>Properties\<close>

text \<open>
  C14. The grants of a controller are a set of triples of a database, a principal and a permission: granting adds one of
  them when the group or the account exists (and the database has a name), revoking takes one away, and no operation touches
  another triple, whatever the disk does.
\<close>

theorem grants_refine:
  "granted (fst (Grant io db who p ac)) = (if grantable ac db who then insert (db, who, p) (granted ac) else granted ac) \<and>
   granted (fst (Revoke io db who p ac)) = granted ac - {(db, who, p)}"
  by (simp add: Grant_granted Revoke_granted)

text \<open>
  C15. \<^verbatim>\<open>Authorize\<close> says yes exactly for the members of the group \<^verbatim>\<open>admin\<close> and for the accounts that have the permission
  themselves, through one of their groups, or with everyone.
\<close>

theorem authorize_decides:
  "Authorize ac user db p \<longleftrightarrow>
     (\<exists>record. umap_find (accounts ac) user = Some record \<and>
        (''admin'' \<in> set (account_groups record) \<or> (db, Everyone, p) \<in> granted ac \<or> (db, Account user, p) \<in> granted ac \<or>
         (\<exists>g. g \<in> set (account_groups record) \<and> (db, InGroup g, p) \<in> granted ac)))"
  by (auto simp: Authorize_def IsAdmin_def granted_def list_ex_iff split: option.splits)

end
