(* ===== verification/Cluster_Sql.thy ===== *)
theory Cluster_Sql
  imports Execution Protocol Access_Control
begin

text \<open>
  How the entry point reads a statement before it sends it to the storage nodes (\<^verbatim>\<open>src/server/entrypoint.cpp\<close>): the
  permission it needs, the nodes it goes to, the parts of an \<^verbatim>\<open>INSERT\<close> for every node, and the SQL text that is written
  for a node. The hash functions of the standard library are arguments.
\<close>

section \<open>Nodes and statements\<close>

text \<open>The counter is an \<^verbatim>\<open>int\<close>; it wraps around where C++ leaves signed overflow undefined.\<close>

record StorageNodeEndpoint =
  host :: string
  port :: int
  managed :: bool
  fail_count :: "32 word"

definition RequiredPermission :: "Statement \<Rightarrow> Permission option" where
  "RequiredPermission stmt =
     (case stmt of
        SelectStmt _ \<Rightarrow> Some kRead | UseDatabaseStatement _ \<Rightarrow> Some kRead
      | InsertStmt _ \<Rightarrow> Some kWrite | UpdateStmt _ \<Rightarrow> Some kWrite | DeleteStmt _ \<Rightarrow> Some kWrite | RevertStmt _ \<Rightarrow> Some kWrite
      | BeginTransactionStatement \<Rightarrow> Some kWrite | CommitTransactionStatement \<Rightarrow> Some kWrite
      | RollbackTransactionStatement \<Rightarrow> Some kWrite
      | CreateDatabaseStatement _ \<Rightarrow> Some kCreateTable | CreateTableStatement _ _ \<Rightarrow> Some kCreateTable
      | DropTableStatement _ \<Rightarrow> Some kDropTable
      | DropDatabaseStatement _ \<Rightarrow> Some kDropDatabase
      | _ \<Rightarrow> None)"

text \<open>The table that a statement names.\<close>

definition statement_table :: "Statement \<Rightarrow> QualifiedName option" where
  "statement_table stmt =
     (case stmt of
        CreateTableStatement q _ \<Rightarrow> Some q | DropTableStatement q \<Rightarrow> Some q
      | InsertStmt ins \<Rightarrow> Some (insert_table ins) | UpdateStmt upd \<Rightarrow> Some (update_table upd)
      | DeleteStmt del \<Rightarrow> Some (delete_table del) | SelectStmt sel \<Rightarrow> Some (select_table sel)
      | RevertStmt r \<Rightarrow> Some (revert_table r)
      | _ \<Rightarrow> None)"

definition ExtractTargetTableName :: "Statement \<Rightarrow> string option" where
  "ExtractTargetTableName stmt = map_option object_name (statement_table stmt)"

definition ResolveAuthorizationDatabaseName :: "Statement \<Rightarrow> SessionContext \<Rightarrow> string" where
  "ResolveAuthorizationDatabaseName stmt session =
     (case stmt of
        UseDatabaseStatement d \<Rightarrow> d
      | CreateDatabaseStatement d \<Rightarrow> d
      | DropDatabaseStatement d \<Rightarrow> d
      | _ \<Rightarrow> (case statement_table stmt of
               Some q \<Rightarrow> (case database_name q of Some d \<Rightarrow> d | None \<Rightarrow> current_database session)
             | None \<Rightarrow> current_database session))"

definition ShouldBroadcast :: "Statement \<Rightarrow> bool" where
  "ShouldBroadcast stmt =
     (case stmt of
        CreateDatabaseStatement _ \<Rightarrow> True | DropDatabaseStatement _ \<Rightarrow> True | UseDatabaseStatement _ \<Rightarrow> True
      | CreateTableStatement _ _ \<Rightarrow> True | DropTableStatement _ \<Rightarrow> True | RevertStmt _ \<Rightarrow> True
      | BeginTransactionStatement \<Rightarrow> True | CommitTransactionStatement \<Rightarrow> True | RollbackTransactionStatement \<Rightarrow> True
      | UpdateStmt upd \<Rightarrow> update_where upd = None
      | DeleteStmt del \<Rightarrow> delete_where del = None
      | _ \<Rightarrow> False)"

definition IsMetadataStatement :: "Statement \<Rightarrow> bool" where
  "IsMetadataStatement stmt =
     (case stmt of
        CreateDatabaseStatement _ \<Rightarrow> True | DropDatabaseStatement _ \<Rightarrow> True | UseDatabaseStatement _ \<Rightarrow> True
      | CreateTableStatement _ _ \<Rightarrow> True | DropTableStatement _ \<Rightarrow> True
      | _ \<Rightarrow> False)"

definition IsSelectStatement :: "Statement \<Rightarrow> bool" where
  "IsSelectStatement stmt = (case stmt of SelectStmt _ \<Rightarrow> True | _ \<Rightarrow> False)"

text \<open>Not the function of the same name in the engine: here \<^verbatim>\<open>CHECK INDEX\<close> counts as a change.\<close>

definition cluster_IsMutatingStatement :: "Statement \<Rightarrow> bool" where
  "cluster_IsMutatingStatement stmt =
     (case stmt of SelectStmt _ \<Rightarrow> False | UseDatabaseStatement _ \<Rightarrow> False | UnknownStatement _ \<Rightarrow> False | _ \<Rightarrow> True)"

section \<open>Shard keys\<close>

definition ResolveClusterDatabaseName :: "QualifiedName \<Rightarrow> SessionContext \<Rightarrow> string option" where
  "ResolveClusterDatabaseName q session =
     (case database_name q of
        Some d \<Rightarrow> Some d
      | None \<Rightarrow> if current_database session \<noteq> [] then Some (current_database session) else None)"

definition ResolveClusterTableSchema :: "RuntimeState \<Rightarrow> QualifiedName \<Rightarrow> SessionContext \<Rightarrow> TableSchema option" where
  "ResolveClusterTableSchema st q session =
     (case ResolveClusterDatabaseName q session of
        None \<Rightarrow> None
      | Some d \<Rightarrow>
          (case umap_find (databases st) d of
             None \<Rightarrow> None
           | Some db \<Rightarrow> map_option schema (umap_find (tables db) (object_name q))))"

definition ResolveShardKeyColumn :: "TableSchema \<Rightarrow> string option" where
  "ResolveShardKeyColumn s =
     (case find (\<lambda>c. col_constraint c = kIndexed \<and> col_type c = kInt64) (columns s) of
        Some c \<Rightarrow> Some (col_name c)
      | None \<Rightarrow> map_option col_name (find (\<lambda>c. col_constraint c = kIndexed) (columns s)))"

text \<open>The lambda \<^verbatim>\<open>extract\<close>: a comparison of the shard key with a literal.\<close>

fun extract_key :: "string \<Rightarrow> Expression \<Rightarrow> Expression \<Rightarrow> Value option" where
  "extract_key key (ColumnReferenceExpression d t c) (LiteralExpression v) = (if c = key then Some v else None)"
| "extract_key key _ _ = None"

fun TryExtractShardKeyValue :: "string \<Rightarrow> Expression \<Rightarrow> Value option" where
  "TryExtractShardKeyValue key (LogicalExpression op l r) =
     (if op = kOr then None
      else case TryExtractShardKeyValue key l of Some v \<Rightarrow> Some v | None \<Rightarrow> TryExtractShardKeyValue key r)"
| "TryExtractShardKeyValue key (BinaryComparisonExpression op l r) =
     (if op \<noteq> kEqual then None
      else case extract_key key l r of Some v \<Rightarrow> Some v | None \<Rightarrow> extract_key key r l)"
| "TryExtractShardKeyValue key _ = None"

record hashes =
  hash_int64 :: "64 word \<Rightarrow> 64 word"
  hash_string :: "string \<Rightarrow> 64 word"

record ShardRoutingDecision =
  node_index :: nat
  by_shard_key :: bool

text \<open>\<^verbatim>\<open>NULL\<close> has no text: the access to the variant throws.\<close>

definition hash_value :: "hashes \<Rightarrow> Value \<Rightarrow> 64 word Result" where
  "hash_value h v = (case v of Int64 w \<Rightarrow> Inr (hash_int64 h w) | _ \<Rightarrow> bind_result (AsString v) (\<lambda>s. Inr (hash_string h s)))"

definition RouteValueToNode :: "hashes \<Rightarrow> Value \<Rightarrow> StorageNodeEndpoint list \<Rightarrow> ShardRoutingDecision Result" where
  "RouteValueToNode h v nodes =
     (if nodes = [] then Inr \<lparr>node_index = 0, by_shard_key = False\<rparr>
      else bind_result (hash_value h v) (\<lambda>n. Inr \<lparr>node_index = unat n mod length nodes, by_shard_key = True\<rparr>))"

text \<open>The lambda \<^verbatim>\<open>evaluate_route\<close>.\<close>

definition evaluate_route ::
  "hashes \<Rightarrow> RuntimeState \<Rightarrow> StorageNodeEndpoint list \<Rightarrow> SessionContext \<Rightarrow> QualifiedName \<Rightarrow> Expression option \<Rightarrow> nat option Result" where
  "evaluate_route h st nodes session q clause =
     (case clause of
        None \<Rightarrow> Inr None
      | Some e \<Rightarrow>
          (case ResolveClusterTableSchema st q session of
             None \<Rightarrow> Inr None
           | Some s \<Rightarrow>
               (case ResolveShardKeyColumn s of
                  None \<Rightarrow> Inr None
                | Some key \<Rightarrow>
                    (case TryExtractShardKeyValue key e of
                       None \<Rightarrow> Inr None
                     | Some v \<Rightarrow> bind_result (RouteValueToNode h v nodes) (\<lambda>d. Inr (Some (node_index d)))))))"

definition RouteNodeIndex :: "hashes \<Rightarrow> RuntimeState \<Rightarrow> Statement \<Rightarrow> StorageNodeEndpoint list \<Rightarrow> SessionContext \<Rightarrow> nat option Result" where
  "RouteNodeIndex h st stmt nodes session =
     (if nodes = [] then Inr None
      else case stmt of
             SelectStmt sel \<Rightarrow> evaluate_route h st nodes session (select_table sel) (select_where sel)
           | UpdateStmt upd \<Rightarrow> evaluate_route h st nodes session (update_table upd) (update_where upd)
           | DeleteStmt del \<Rightarrow> evaluate_route h st nodes session (delete_table del) (delete_where del)
           | _ \<Rightarrow> Inr None)"

section \<open>SQL for the nodes\<close>

text \<open>The loop over the characters is that of \<^verbatim>\<open>EscapeJsonText\<close>.\<close>

definition RenderLiteralSql :: "Value \<Rightarrow> string Result" where
  "RenderLiteralSql v =
     (case v of
        Monostate \<Rightarrow> Inr ''NULL''
      | Int64 w \<Rightarrow> Inr (int_to_string (sint w))
      | _ \<Rightarrow> bind_result (AsString v) (\<lambda>s. Inr ([quotation_mark] @ EscapeJsonText s @ [quotation_mark])))"

fun comma_separated :: "string list \<Rightarrow> string" where
  "comma_separated [] = []"
| "comma_separated [x] = x"
| "comma_separated (x # y # xs) = x @ '', '' @ comma_separated (y # xs)"

definition render_row :: "Value list \<Rightarrow> string Result" where
  "render_row row = bind_result (mapM RenderLiteralSql row) (\<lambda>vs. Inr (''('' @ comma_separated vs @ '')''))"

definition render_name :: "QualifiedName \<Rightarrow> string" where
  "render_name q = (case database_name q of Some d \<Rightarrow> d @ ''.'' | None \<Rightarrow> []) @ object_name q"

definition RenderInsertSql :: "QualifiedName \<Rightarrow> string list \<Rightarrow> Value list list \<Rightarrow> string Result" where
  "RenderInsertSql q names rows =
     bind_result (mapM render_row rows) (\<lambda>texts.
       Inr (''INSERT INTO '' @ render_name q @ '' ('' @ comma_separated names @ '') VALUES '' @ comma_separated texts @ '';''))"

definition render_column :: "ColumnDefinition \<Rightarrow> string Result" where
  "render_column c =
     bind_result (case col_default c of None \<Rightarrow> Inr [] | Some v \<Rightarrow> bind_result (RenderLiteralSql v) (\<lambda>t. Inr ('' DEFAULT '' @ t))) (\<lambda>d.
       Inr (col_name c @ '' '' @ (if col_type c = kInt64 then ''INT'' else ''STRING'') @
            (if col_constraint c = kNotNull then '' NOT NULL'' else []) @
            (if col_constraint c = kIndexed then '' INDEXED'' else []) @ d))"

definition RenderCreateTableSql :: "TableSchema \<Rightarrow> string Result" where
  "RenderCreateTableSql s =
     bind_result (mapM render_column (columns s)) (\<lambda>cols.
       Inr (''CREATE TABLE '' @ schema_table s @ '' ('' @ comma_separated cols @ '');''))"

section \<open>Splitting an INSERT\<close>

fun literal_values :: "Expression list \<Rightarrow> Value list option" where
  "literal_values [] = Some []"
| "literal_values (LiteralExpression v # es) = map_option (Cons v) (literal_values es)"
| "literal_values (_ # es) = None"

text \<open>\<^verbatim>\<open>m[k].push_back(x)\<close>\<close>

definition umap_push :: "'k \<Rightarrow> 'a \<Rightarrow> ('k, 'a list) umap \<Rightarrow> ('k, 'a list) umap" where
  "umap_push k x m = umap_assign k (umap_index m k [] @ [x]) m"

text \<open>The loop over the rows, with the position of the shard key; \<open>Inr None\<close> is \<^verbatim>\<open>std::nullopt\<close>.\<close>

fun shard_rows ::
  "hashes \<Rightarrow> StorageNodeEndpoint list \<Rightarrow> nat \<Rightarrow> Expression list list \<Rightarrow> (nat, Value list list) umap
     \<Rightarrow> (nat, Value list list) umap option Result" where
  "shard_rows h nodes i [] m = Inr (Some m)"
| "shard_rows h nodes i (row # rows) m =
     (if i \<ge> length row then Inr None
      else case literal_values row of
             None \<Rightarrow> Inr None
           | Some vs \<Rightarrow>
               bind_result (RouteValueToNode h (vs ! i) nodes) (\<lambda>d.
                 shard_rows h nodes i rows (umap_push (node_index d) vs m)))"

fun index_of :: "'a \<Rightarrow> 'a list \<Rightarrow> nat option" where
  "index_of x [] = None"
| "index_of x (y # ys) = (if x = y then Some 0 else map_option Suc (index_of x ys))"

definition render_nodes ::
  "QualifiedName \<Rightarrow> string list \<Rightarrow> (nat, Value list list) umap \<Rightarrow> (nat, string) umap Result" where
  "render_nodes q names m =
     mapM (\<lambda>(n, rows). bind_result (RenderInsertSql q names rows) (\<lambda>sql. Inr (n, sql))) m"

definition SplitInsertByShard ::
  "hashes \<Rightarrow> RuntimeState \<Rightarrow> InsertStatement \<Rightarrow> StorageNodeEndpoint list \<Rightarrow> SessionContext \<Rightarrow> (nat, string) umap option Result" where
  "SplitInsertByShard h st ins nodes session =
     (case ResolveClusterTableSchema st (insert_table ins) session of
        None \<Rightarrow> Inr None
      | Some s \<Rightarrow>
          (case ResolveShardKeyColumn s of
             None \<Rightarrow> Inr None
           | Some key \<Rightarrow>
               (case index_of key (insert_columns ins) of
                  None \<Rightarrow> Inr None
                | Some i \<Rightarrow>
                    (case ResolveClusterDatabaseName (insert_table ins) session of
                       None \<Rightarrow> Inr None
                     | Some d \<Rightarrow>
                         bind_result (shard_rows h nodes i (insert_rows ins) []) (\<lambda>rows_by_node.
                           case rows_by_node of
                             None \<Rightarrow> Inr None
                           | Some m \<Rightarrow>
                               bind_result (render_nodes ((insert_table ins)\<lparr>database_name := Some d\<rparr>) (insert_columns ins) m)
                                 (\<lambda>texts. Inr (Some texts)))))))"

section \<open>Dumps of tables\<close>

definition encode_cluster_value :: "Value \<Rightarrow> string Result" where
  "encode_cluster_value v =
     (case v of
        Monostate \<Rightarrow> Inr ''Null''
      | Int64 w \<Rightarrow> Inr (''Int:'' @ int_to_string (sint w))
      | _ \<Rightarrow> bind_result (AsString v) (\<lambda>s. Inr (''String:'' @ Escape s)))"

definition dump_row :: "RowData \<Rightarrow> string Result" where
  "dump_row row =
     bind_result (mapM encode_cluster_value (row_values row)) (\<lambda>vs. Inr ([newline] @ ''ROW'' @ concat (map (\<lambda>v. tab # v) vs)))"

definition dump_rows :: "RowData list \<Rightarrow> string Result" where
  "dump_rows rows = bind_result (mapM dump_row rows) (\<lambda>texts. Inr (''ROWS'' @ concat texts))"

definition DecodeClusterValue :: "string \<Rightarrow> Value option" where
  "DecodeClusterValue encoded =
     (if encoded = ''Null'' then Some Monostate
      else if take 4 encoded = ''Int:''
      then (case stoll (drop 4 encoded) of
              None \<Rightarrow> None
            | Some (i, consumed) \<Rightarrow> if consumed \<noteq> length encoded - 4 then None else Some (Int64 (word_of_int i)))
      else if take 7 encoded = ''String:'' then Some (Str (UnescapeField (drop 7 encoded)))
      else None)"

fun decode_values :: "string list \<Rightarrow> Value list option" where
  "decode_values [] = Some []"
| "decode_values (p # ps) =
     (case DecodeClusterValue p of None \<Rightarrow> None | Some v \<Rightarrow> map_option (Cons v) (decode_values ps))"

fun parse_dump_lines :: "string list \<Rightarrow> Value list list option" where
  "parse_dump_lines [] = Some []"
| "parse_dump_lines (line # lines) =
     (if line = [] then parse_dump_lines lines
      else case protocol_SplitByTab line of
             [] \<Rightarrow> None
           | kind # parts \<Rightarrow>
               if kind \<noteq> ''ROW'' then None
               else (case decode_values parts of None \<Rightarrow> None | Some vs \<Rightarrow> map_option (Cons vs) (parse_dump_lines lines)))"

definition parse_dump :: "string \<Rightarrow> Value list list option" where
  "parse_dump txt =
     (case getlines txt of
        [] \<Rightarrow> Some []
      | line # lines \<Rightarrow> if line \<noteq> ''ROWS'' then None else parse_dump_lines lines)"

section \<open>Results as JSON\<close>

definition json_value :: "Value \<Rightarrow> string Result" where
  "json_value v =
     (case v of
        Monostate \<Rightarrow> Inr ''null''
      | Int64 w \<Rightarrow> Inr (int_to_string (sint w))
      | _ \<Rightarrow> bind_result (AsString v) (\<lambda>s. Inr ([quotation_mark] @ EscapeJsonText s @ [quotation_mark])))"

definition json_field :: "string \<times> Value \<Rightarrow> string Result" where
  "json_field f =
     bind_result (json_value (snd f)) (\<lambda>t. Inr ([quotation_mark] @ EscapeJsonText (fst f) @ [quotation_mark] @ '': '' @ t))"

definition json_row :: "string list \<Rightarrow> RowData \<Rightarrow> string Result" where
  "json_row names row =
     bind_result (mapM json_field (zip names (row_values row))) (\<lambda>fields. Inr (''{'' @ comma_separated fields @ ''}''))"

definition QueryResultToJson :: "QueryResult \<Rightarrow> string Result" where
  "QueryResultToJson r =
     bind_result (mapM (json_row (column_names r)) (result_rows r)) (\<lambda>rows. Inr (''['' @ comma_separated rows @ '']''))"

end
