(* ===== verification/Access_Persistence.thy ===== *)
theory Access_Persistence
  imports Access_Control
begin

text \<open>
  Loading the accounts and the grants (\<^verbatim>\<open>AccessController::Load\<close> and the constructor in \<^verbatim>\<open>src/catalog/rbac.cpp\<close>), and what is left
  of a controller after it was saved and loaded.
\<close>

section \<open>Loading\<close>

text \<open>A field \<^verbatim>\<open>key=value\<close>: the position of the first \<^verbatim>\<open>=\<close> splits it; \<open>None\<close> when there is none.\<close>

definition split_field :: "string \<Rightarrow> (string \<times> string) option" where
  "split_field part =
     (if CHR ''='' \<in> set part
      then Some (takeWhile (\<lambda>c. c \<noteq> CHR ''='') part, drop 1 (dropWhile (\<lambda>c. c \<noteq> CHR ''='') part))
      else None)"

text \<open>The loop of \<^verbatim>\<open>SplitGroups\<close>.\<close>

fun split_groups :: "bool \<Rightarrow> string \<Rightarrow> string list \<Rightarrow> string \<Rightarrow> string list" where
  "split_groups escaped current gs [] = (if current \<noteq> [] then gs @ [Unescape current] else gs)"
| "split_groups escaped current gs (ch # s) =
     (if escaped then split_groups False (current @ [ch]) gs s
      else if ch = backslash then split_groups True (current @ [ch]) gs s
      else if ch = CHR '','' then split_groups False [] (if current \<noteq> [] then gs @ [Unescape current] else gs) s
      else split_groups False (current @ [ch]) gs s)"

definition SplitGroups :: "string \<Rightarrow> string list" where
  "SplitGroups raw = split_groups False [] [] raw"

fun account_fields :: "string list \<Rightarrow> AccountRecord \<Rightarrow> AccountRecord" where
  "account_fields [] record = record"
| "account_fields (part # parts) record =
     account_fields parts
       (case split_field part of
          None \<Rightarrow> record
        | Some (key, raw) \<Rightarrow>
            if key = ''user_id'' then record\<lparr>account_user := Unescape raw\<rparr>
            else if key = ''salt'' then record\<lparr>salt := Unescape raw\<rparr>
            else if key = ''password_hash'' then record\<lparr>password_hash := Unescape raw\<rparr>
            else if key = ''groups'' then record\<lparr>account_groups := SplitGroups raw\<rparr>
            else record)"

definition load_account_line :: "string \<Rightarrow> AccessController \<Rightarrow> AccessController" where
  "load_account_line line ac =
     (if line = [] then ac
      else case SplitByTab line of
             [] \<Rightarrow> ac
           | kind # parts \<Rightarrow>
               if kind = ''FORMAT'' then ac
               else if kind = ''ACCOUNT''
               then (let record = account_fields parts \<lparr>account_user = [], salt = [], password_hash = [], account_groups = []\<rparr>
                     in if account_user record = [] then ac
                        else ac\<lparr>accounts := umap_emplace (account_user record) record (accounts ac),
                                groups := fold set_insert (account_groups record) (groups ac)\<rparr>)
               else if kind = ''GROUP'' \<and> parts \<noteq> []
               then (case split_field (hd parts) of
                       None \<Rightarrow> ac
                     | Some (key, raw) \<Rightarrow> ac\<lparr>groups := set_insert (Unescape raw) (groups ac)\<rparr>)
               else ac)"

text \<open>The fields of one line of the grants. \<open>None\<close> is the exception of \<^verbatim>\<open>std::stoul\<close>.\<close>

record GrantFields =
  field_db :: string
  field_group :: string
  field_user :: string
  field_mask :: "32 word"

fun grant_fields :: "string list \<Rightarrow> GrantFields \<Rightarrow> GrantFields option" where
  "grant_fields [] r = Some r"
| "grant_fields (part # parts) r =
     (case split_field part of
        None \<Rightarrow> grant_fields parts r
      | Some (key, raw) \<Rightarrow>
          if key = ''db'' then grant_fields parts (r\<lparr>field_db := Unescape raw\<rparr>)
          else if key = ''group'' then grant_fields parts (r\<lparr>field_group := Unescape raw\<rparr>)
          else if key = ''user'' then grant_fields parts (r\<lparr>field_user := Unescape raw\<rparr>)
          else if key = ''mask''
          then (case stoull (Unescape raw) of
                  None \<Rightarrow> None
                | Some (w, consumed) \<Rightarrow> grant_fields parts (r\<lparr>field_mask := ucast w\<rparr>))
          else grant_fields parts r)"

definition load_grant_line :: "string \<Rightarrow> AccessController \<Rightarrow> AccessController option" where
  "load_grant_line line ac =
     (if line = [] then Some ac
      else case SplitByTab line of
             [] \<Rightarrow> Some ac
           | kind # parts \<Rightarrow>
               if kind = ''FORMAT'' then Some ac
               else (case grant_fields parts \<lparr>field_db = [], field_group = [], field_user = [], field_mask = 0\<rparr> of
                       None \<Rightarrow> None
                     | Some r \<Rightarrow>
                         if field_db r = [] then Some ac
                         else Some (update_grants (field_db r) (\<lambda>g.
                                if kind = ''DEFAULT'' then g\<lparr>default_permissions := field_mask r\<rparr>
                                else if kind = ''GROUP_GRANT''
                                then g\<lparr>group_permissions := umap_assign (field_group r) (field_mask r) (group_permissions g)\<rparr>
                                else if kind = ''USER_GRANT''
                                then g\<lparr>user_permissions := umap_assign (field_user r) (field_mask r) (user_permissions g)\<rparr>
                                else g) ac)))"

fun load_grant_lines :: "string list \<Rightarrow> AccessController \<Rightarrow> AccessController option" where
  "load_grant_lines [] ac = Some ac"
| "load_grant_lines (line # lines) ac =
     (case load_grant_line line ac of None \<Rightarrow> None | Some ac' \<Rightarrow> load_grant_lines lines ac')"

definition LoadAccess :: "AccessController \<Rightarrow> AccessController option" where
  "LoadAccess ac =
     (let ac0 = ac\<lparr>accounts := [], groups := [], database_grants := []\<rparr>;
          ac1 = (case accounts_file ac of None \<Rightarrow> ac0 | Some txt \<Rightarrow> fold load_account_line (getlines txt) ac0)
      in case grants_file ac of None \<Rightarrow> Some ac1 | Some txt \<Rightarrow> load_grant_lines (getlines txt) ac1)"

text \<open>\<^verbatim>\<open>EnsureJwtSecret\<close>; the new secret and the outcome of writing it are arguments.\<close>

definition EnsureJwtSecret :: "string \<Rightarrow> write_outcome \<Rightarrow> AccessController \<Rightarrow> AccessController \<times> bool" where
  "EnsureJwtSecret new_secret io ac =
     (let kept = (case secret_file ac of None \<Rightarrow> [] | Some txt \<Rightarrow> (case getlines txt of [] \<Rightarrow> [] | l # _ \<Rightarrow> l))
      in if kept \<noteq> [] then (ac\<lparr>jwt_secret := kept\<rparr>, True)
         else (ac\<lparr>jwt_secret := new_secret, secret_file := write_file io new_secret (secret_file ac)\<rparr>, io \<noteq> NotOpened))"

text \<open>The constructor on the files of a directory; \<open>None\<close> is an exception that leaves it.\<close>

definition make_access ::
  "string \<Rightarrow> write_outcome \<Rightarrow> string option \<Rightarrow> string option \<Rightarrow> string option \<Rightarrow> AccessController option" where
  "make_access new_secret io accounts_txt grants_txt secret_txt =
     map_option (\<lambda>ac. fst (EnsureJwtSecret new_secret io ac))
       (LoadAccess \<lparr>jwt_secret = [], accounts = [], groups = [], database_grants = [],
          accounts_file = accounts_txt, grants_file = grants_txt, secret_file = secret_txt\<rparr>)"

section \<open>Fields and groups read back\<close>

lemma split_field_key: "CHR ''='' \<notin> set key \<Longrightarrow> split_field (key @ CHR ''='' # raw) = Some (key, raw)"
proof -
  assume "CHR ''='' \<notin> set key"
  then have "takeWhile (\<lambda>c. c \<noteq> CHR ''='') (key @ CHR ''='' # raw) = key"
    "dropWhile (\<lambda>c. c \<noteq> CHR ''='') (key @ CHR ''='' # raw) = CHR ''='' # raw"
    by (induction key) auto
  then show ?thesis by (simp add: split_field_def)
qed

lemmas split_field_keys [simp] =
  split_field_key [of "''user_id''", simplified] split_field_key [of "''salt''", simplified]
  split_field_key [of "''password_hash''", simplified] split_field_key [of "''groups''", simplified]
  split_field_key [of "''name''", simplified] split_field_key [of "''db''", simplified] split_field_key [of "''group''", simplified]
  split_field_key [of "''user''", simplified] split_field_key [of "''mask''", simplified]

lemma split_groups_plain:
  "closed_field e x \<Longrightarrow> CHR '','' \<notin> set x \<Longrightarrow> split_groups e current gs (x @ s) = split_groups False (current @ x) gs s"
  by (induction e x arbitrary: current rule: closed_field.induct) (auto split: if_splits)

lemma Escape_not_Nil [simp]: "Escape g = [] \<longleftrightarrow> g = []"
  by (cases g) auto

lemma Escape_comma [simp]: "CHR '','' \<in> set (Escape g) \<longleftrightarrow> CHR '','' \<in> set g"
  by (induction g) auto

lemma split_join_groups:
  "\<forall>g \<in> set gs. g \<noteq> [] \<and> CHR '','' \<notin> set g \<Longrightarrow> split_groups False [] acc (join_groups gs) = acc @ gs"
proof (induction gs arbitrary: acc rule: join_groups.induct)
  case (2 g)
  then show ?case using split_groups_plain [of False "Escape g" "[]" acc "[]"] by simp
next
  case (3 g h gs)
  then show ?case using split_groups_plain [of False "Escape g" "[]" acc "'','' @ join_groups (h # gs)"] by simp
qed simp

lemma SplitGroups_join: "\<forall>g \<in> set gs. g \<noteq> [] \<and> CHR '','' \<notin> set g \<Longrightarrow> SplitGroups (join_groups gs) = gs"
  by (simp add: SplitGroups_def split_join_groups)

lemma field_join_groups: "field (join_groups gs)"
  by (induction gs rule: join_groups.induct) auto

lemma newline_join_groups [simp]: "newline \<in> set (join_groups gs) \<longleftrightarrow> (\<exists>g \<in> set gs. newline \<in> set g)"
  by (induction gs rule: join_groups.induct) auto

section \<open>The invariant\<close>

definition account_inv :: "string list \<Rightarrow> string \<times> AccountRecord \<Rightarrow> bool" where
  "account_inv gs a \<longleftrightarrow> account_user (snd a) = fst a \<and> fst a \<noteq> [] \<and> set (account_groups (snd a)) \<subseteq> set gs"

definition rbac_inv :: "AccessController \<Rightarrow> bool" where
  "rbac_inv ac \<longleftrightarrow>
     umap_wf (accounts ac) \<and> (\<forall>a \<in> set (accounts ac). account_inv (groups ac) a) \<and> [] \<notin> set (groups ac) \<and>
     umap_wf (database_grants ac) \<and>
     (\<forall>(db, r) \<in> set (database_grants ac). umap_wf (group_permissions r) \<and> umap_wf (user_permissions r))"

lemma set_set_insert [simp]: "set (set_insert x xs) = insert x (set xs)"
  by (auto simp: set_insert_def)

lemma account_inv_mono: "account_inv gs a \<Longrightarrow> set gs \<subseteq> set hs \<Longrightarrow> account_inv hs a"
  by (auto simp: account_inv_def)

lemma umap_emplace_set: "x \<in> set (umap_emplace k v m) \<Longrightarrow> x = (k, v) \<or> x \<in> set m"
  by (auto simp: umap_emplace_def split: if_splits)

lemma rbac_inv_cong:
  "rbac_inv ac \<Longrightarrow> accounts ac' = accounts ac \<Longrightarrow> groups ac' = groups ac \<Longrightarrow> database_grants ac' = database_grants ac \<Longrightarrow> rbac_inv ac'"
  by (simp add: rbac_inv_def)

lemma rbac_inv_Persist: "rbac_inv ac \<Longrightarrow> rbac_inv (fst (Persist io ac))"
  by (erule rbac_inv_cong) simp_all

lemma RegisterAccount_inv: "rbac_inv ac \<Longrightarrow> rbac_inv (fst (RegisterAccount hmac new_salt io user password g ac))"
  unfolding RegisterAccount_def Let_def
  by (auto intro!: rbac_inv_Persist)
    (auto simp: rbac_inv_def account_inv_def dest!: umap_emplace_set)

lemma CreateGroup_inv: "rbac_inv ac \<Longrightarrow> rbac_inv (fst (CreateGroup io g ac))"
  unfolding CreateGroup_def by (auto intro!: rbac_inv_Persist) (auto simp: rbac_inv_def account_inv_def)

lemma AddUserToGroup_inv: "rbac_inv ac \<Longrightarrow> rbac_inv (fst (AddUserToGroup io user g ac))"
  unfolding AddUserToGroup_def
  by (auto split: option.split intro!: rbac_inv_Persist)
    (fastforce simp: rbac_inv_def account_inv_def dest!: umap_assign_set umap_find_in_set)

lemma update_grants_inv:
  assumes "rbac_inv ac" "\<And>r. umap_wf (group_permissions r) \<Longrightarrow> umap_wf (user_permissions r) \<Longrightarrow>
    umap_wf (group_permissions (f r)) \<and> umap_wf (user_permissions (f r))"
  shows "rbac_inv (update_grants db f ac)"
proof -
  let ?r = "umap_index (database_grants ac) db no_grants"
  have "umap_wf (group_permissions ?r) \<and> umap_wf (user_permissions ?r)"
    using assms(1) by (auto simp: umap_index_def no_grants_def rbac_inv_def split: option.splits dest!: umap_find_in_set)
  then have "umap_wf (group_permissions (f ?r)) \<and> umap_wf (user_permissions (f ?r))" using assms(2) by blast
  with assms(1) show ?thesis by (auto simp: rbac_inv_def update_grants_def dest!: umap_assign_set)
qed

lemma Grant_inv: "rbac_inv ac \<Longrightarrow> rbac_inv (fst (Grant io db who p ac))"
  by (cases who) (auto simp: GrantDefault_def GrantGroup_def GrantUser_def intro!: rbac_inv_Persist update_grants_inv)

lemma Revoke_inv: "rbac_inv ac \<Longrightarrow> rbac_inv (fst (Revoke io db who p ac))"
  by (cases who) (auto simp: RevokeDefault_def RevokeGroup_def RevokeUser_def intro!: rbac_inv_Persist update_grants_inv)

text \<open>The controllers that the operations reach from an empty directory.\<close>

definition new_access :: "string \<Rightarrow> AccessController" where
  "new_access secret = \<lparr>jwt_secret = secret, accounts = [], groups = [], database_grants = [],
     accounts_file = None, grants_file = None, secret_file = Some secret\<rparr>"

inductive administered :: "hmac \<Rightarrow> AccessController \<Rightarrow> bool" for hmac where
  administered_init: "administered hmac (new_access secret)"
| administered_register: "administered hmac ac \<Longrightarrow> administered hmac (fst (RegisterAccount hmac new_salt io user password g ac))"
| administered_group: "administered hmac ac \<Longrightarrow> administered hmac (fst (CreateGroup io g ac))"
| administered_member: "administered hmac ac \<Longrightarrow> administered hmac (fst (AddUserToGroup io user g ac))"
| administered_grant: "administered hmac ac \<Longrightarrow> administered hmac (fst (Grant io db who p ac))"
| administered_revoke: "administered hmac ac \<Longrightarrow> administered hmac (fst (Revoke io db who p ac))"

lemma administered_inv: "administered hmac ac \<Longrightarrow> rbac_inv ac"
  by (induction rule: administered.induct)
    (simp_all add: RegisterAccount_inv CreateGroup_inv AddUserToGroup_inv Grant_inv Revoke_inv,
     simp add: new_access_def rbac_inv_def)

section \<open>Saving and loading\<close>

lemma umap_assign_append: "k \<notin> fst ` set m \<Longrightarrow> umap_assign k v (m @ (k, w) # n) = m @ (k, v) # n"
  unfolding umap_assign_def by (induction m) auto

lemma umap_assign_new: "k \<notin> fst ` set m \<Longrightarrow> umap_assign k v m = m @ [(k, v)]"
  unfolding umap_assign_def by (induction m) auto

lemma umap_emplace_new: "k \<notin> fst ` set m \<Longrightarrow> umap_emplace k v m = m @ [(k, v)]"
  by (auto simp: umap_emplace_def map_of_eq_None_iff)

text \<open>The conditions on the texts: one line, and no comma in the name of a group.\<close>

definition one_line_account :: "string \<times> AccountRecord \<Rightarrow> bool" where
  "one_line_account a \<longleftrightarrow> newline \<notin> set (fst a) \<and> newline \<notin> set (salt (snd a)) \<and> newline \<notin> set (password_hash (snd a))"

definition one_line_grant :: "string \<times> DatabaseGrantRecord \<Rightarrow> bool" where
  "one_line_grant g \<longleftrightarrow> fst g \<noteq> [] \<and> newline \<notin> set (fst g) \<and>
     (\<forall>k \<in> fst ` set (group_permissions (snd g)) \<union> fst ` set (user_permissions (snd g)). newline \<notin> set k)"

definition rbac_saveable :: "AccessController \<Rightarrow> bool" where
  "rbac_saveable ac \<longleftrightarrow> (\<forall>a \<in> set (accounts ac). one_line_account a) \<and> (\<forall>g \<in> set (database_grants ac). one_line_grant g) \<and>
     (\<forall>g \<in> set (groups ac). newline \<notin> set g \<and> CHR '','' \<notin> set g)"

lemma load_format: "load_account_line (''FORMAT'' @ [tab] @ ''1'') ac = ac" "load_grant_line (''FORMAT'' @ [tab] @ ''1'') ac = Some ac"
  using SplitByTab_join [of "[''FORMAT'', ''1'']"] by (simp_all add: load_account_line_def load_grant_line_def)

lemma load_account:
  assumes "account_inv gs (u, r)" "\<forall>g \<in> set (account_groups r). g \<noteq> [] \<and> CHR '','' \<notin> set g"
  shows "load_account_line (account_line (u, r)) ac =
    ac\<lparr>accounts := umap_emplace u r (accounts ac), groups := fold set_insert (account_groups r) (groups ac)\<rparr>"
proof -
  have "SplitByTab (account_line (u, r)) = [''ACCOUNT'', ''user_id='' @ Escape u, ''salt='' @ Escape (salt r),
      ''password_hash='' @ Escape (password_hash r), ''groups='' @ join_groups (account_groups r)]" (is "_ = ?parts")
    using SplitByTab_join [of ?parts] by (simp add: account_line_def field_join_groups)
  moreover have "account_line (u, r) \<noteq> []" by (simp add: account_line_def)
  ultimately show ?thesis
    using assms by (cases r) (simp add: load_account_line_def account_inv_def SplitGroups_join)
qed

lemma load_group: "load_account_line (group_line g) ac = ac\<lparr>groups := set_insert g (groups ac)\<rparr>"
proof -
  have "SplitByTab (group_line g) = [''GROUP'', ''name='' @ Escape g]"
    using SplitByTab_join [of "[''GROUP'', ''name='' @ Escape g]"] by (simp add: group_line_def)
  then show ?thesis by (simp add: load_account_line_def group_line_def)
qed

lemma load_groups:
  "\<exists>gs'. fold load_account_line (map group_line gs) ac = ac\<lparr>groups := gs'\<rparr> \<and> set gs' = set (groups ac) \<union> set gs"
proof (induction gs arbitrary: ac)
  case Nil
  show ?case by (rule exI [of _ "groups ac"]) simp
next
  case (Cons g gs)
  from Cons [of "ac\<lparr>groups := set_insert g (groups ac)\<rparr>"] show ?case by (auto simp: load_group)
qed

lemma set_fold_insert [simp]: "set (fold set_insert xs gs) = set gs \<union> set xs"
  by (induction xs arbitrary: gs) auto

lemma load_accounts:
  assumes "\<forall>a \<in> set as. account_inv gs a" "\<forall>g \<in> set gs. g \<noteq> [] \<and> CHR '','' \<notin> set g" "umap_wf (accounts ac @ as)"
  shows "\<exists>hs. fold load_account_line (map account_line as) ac = ac\<lparr>accounts := accounts ac @ as, groups := hs\<rparr> \<and>
    set hs \<subseteq> set (groups ac) \<union> set gs \<and> set (groups ac) \<subseteq> set hs"
  using assms
proof (induction as arbitrary: ac)
  case Nil
  show ?case by (rule exI [of _ "groups ac"]) simp
next
  case (Cons a as)
  obtain u r where a: "a = (u, r)" by (cases a)
  let ?ac = "ac\<lparr>accounts := accounts ac @ [a], groups := fold set_insert (account_groups r) (groups ac)\<rparr>"
  have "\<forall>g \<in> set (account_groups r). g \<noteq> [] \<and> CHR '','' \<notin> set g"
    using Cons.prems(1,2) by (auto simp: a account_inv_def)
  moreover have "u \<notin> fst ` set (accounts ac)" using Cons.prems(3) by (auto simp: a umap_wf_def)
  ultimately have "load_account_line (account_line a) ac = ?ac"
    using Cons.prems(1) load_account [of gs u r] by (simp add: a umap_emplace_new)
  moreover from Cons.IH [of ?ac] Cons.prems obtain hs where
    "fold load_account_line (map account_line as) ?ac = ?ac\<lparr>accounts := accounts ?ac @ as, groups := hs\<rparr>"
    "set hs \<subseteq> set (groups ?ac) \<union> set gs" "set (groups ?ac) \<subseteq> set hs" by auto
  moreover have "set (account_groups r) \<subseteq> set gs" using Cons.prems(1) by (simp add: a account_inv_def)
  ultimately show ?case by (auto intro!: exI [of _ hs])
qed

lemma ucast_up_down [simp]: "ucast (ucast (w :: 32 word) :: 64 word) = w"
  by (rule bit_word_eqI) (simp add: bit_simps)

lemma stoull_mask [simp]: "stoull (nat_to_string (unat (w :: 32 word))) = Some (ucast w, length (nat_to_string (unat w)))"
proof -
  have "unat w < 2 ^ 32" using unsigned_less [of w] by simp
  then have "unat w < 2 ^ 64" by simp
  then show ?thesis by simp
qed

lemma mask_field_plain [simp]: "field (mask_field w)" "newline \<notin> set (mask_field w)"
  using nat_to_string_plain [of "unat w"] by (auto simp: mask_field_def intro!: field_plain)

lemma Unescape_plain: "backslash \<notin> set s \<Longrightarrow> Unescape s = s"
  unfolding Unescape_def by (induction s) auto

lemma split_mask_field [simp]: "split_field (mask_field w) = Some (''mask'', nat_to_string (unat w))"
  by (simp add: mask_field_def)

lemma Unescape_nat [simp]: "Unescape (nat_to_string n) = nat_to_string n"
  using nat_to_string_plain by (simp add: Unescape_plain)

lemma load_default:
  assumes "db \<noteq> []"
  shows "load_grant_line (default_line db w) ac =
    Some (update_grants db (\<lambda>g. g\<lparr>default_permissions := w\<rparr>) ac)"
  using assms SplitByTab_join [of "[''DEFAULT'', ''db='' @ Escape db, mask_field w]"]
  by (simp add: load_grant_line_def default_line_def)

lemma load_group_grant:
  assumes "db \<noteq> []"
  shows "load_grant_line (group_grant_line db (g, w)) ac =
    Some (update_grants db (\<lambda>r. r\<lparr>group_permissions := umap_assign g w (group_permissions r)\<rparr>) ac)"
  using assms SplitByTab_join [of "[''GROUP_GRANT'', ''db='' @ Escape db, ''group='' @ Escape g, mask_field w]"]
  by (simp add: load_grant_line_def group_grant_line_def)

lemma load_user_grant:
  assumes "db \<noteq> []"
  shows "load_grant_line (user_grant_line db (u, w)) ac =
    Some (update_grants db (\<lambda>r. r\<lparr>user_permissions := umap_assign u w (user_permissions r)\<rparr>) ac)"
  using assms SplitByTab_join [of "[''USER_GRANT'', ''db='' @ Escape db, ''user='' @ Escape u, mask_field w]"]
  by (simp add: load_grant_line_def user_grant_line_def)

lemma load_grant_lines_append:
  "load_grant_lines (xs @ ys) ac = (case load_grant_lines xs ac of None \<Rightarrow> None | Some ac' \<Rightarrow> load_grant_lines ys ac')"
  by (induction xs arbitrary: ac) (auto split: option.split)

text \<open>The grants of the database that is being read are the last ones.\<close>

lemma update_grants_last:
  assumes "database_grants ac = m @ [(db, r)]" "db \<notin> fst ` set m"
  shows "update_grants db f ac = ac\<lparr>database_grants := m @ [(db, f r)]\<rparr>"
proof -
  have "umap_index (database_grants ac) db no_grants = r"
    using assms by (simp add: umap_index_def umap_find_def map_add_def map_of_eq_None_iff [THEN iffD2])
  then show ?thesis using assms by (simp add: update_grants_def umap_assign_append)
qed

lemma load_group_grants:
  assumes "db \<noteq> []" "database_grants ac = m @ [(db, r)]" "db \<notin> fst ` set m" "umap_wf (group_permissions r @ gs)"
  shows "load_grant_lines (map (group_grant_line db) gs) ac
    = Some (ac\<lparr>database_grants := m @ [(db, r\<lparr>group_permissions := group_permissions r @ gs\<rparr>)]\<rparr>)"
  using assms(2,4)
proof (induction gs arbitrary: ac r)
  case (Cons gw gs)
  obtain g w where gw: "gw = (g, w)" by (cases gw)
  let ?r = "r\<lparr>group_permissions := group_permissions r @ [(g, w)]\<rparr>"
  have "g \<notin> fst ` set (group_permissions r)" using Cons.prems(2) by (auto simp: gw umap_wf_def)
  then have "update_grants db (\<lambda>r. r\<lparr>group_permissions := umap_assign g w (group_permissions r)\<rparr>) ac = ac\<lparr>database_grants := m @ [(db, ?r)]\<rparr>"
    using update_grants_last [OF Cons.prems(1) assms(3)] by (simp add: umap_assign_new)
  with Cons.IH [of "ac\<lparr>database_grants := m @ [(db, ?r)]\<rparr>" ?r] Cons.prems(2) show ?case
    using load_group_grant [OF assms(1)] by (simp add: gw)
qed simp

lemma load_user_grants:
  assumes "db \<noteq> []" "database_grants ac = m @ [(db, r)]" "db \<notin> fst ` set m" "umap_wf (user_permissions r @ us)"
  shows "load_grant_lines (map (user_grant_line db) us) ac
    = Some (ac\<lparr>database_grants := m @ [(db, r\<lparr>user_permissions := user_permissions r @ us\<rparr>)]\<rparr>)"
  using assms(2,4)
proof (induction us arbitrary: ac r)
  case (Cons uw us)
  obtain u w where uw: "uw = (u, w)" by (cases uw)
  let ?r = "r\<lparr>user_permissions := user_permissions r @ [(u, w)]\<rparr>"
  have "u \<notin> fst ` set (user_permissions r)" using Cons.prems(2) by (auto simp: uw umap_wf_def)
  then have "update_grants db (\<lambda>r. r\<lparr>user_permissions := umap_assign u w (user_permissions r)\<rparr>) ac = ac\<lparr>database_grants := m @ [(db, ?r)]\<rparr>"
    using update_grants_last [OF Cons.prems(1) assms(3)] by (simp add: umap_assign_new)
  with Cons.IH [of "ac\<lparr>database_grants := m @ [(db, ?r)]\<rparr>" ?r] Cons.prems(2) show ?case
    using load_user_grant [OF assms(1)] by (simp add: uw)
qed simp

lemma load_database:
  assumes "db \<noteq> []" "db \<notin> fst ` set (database_grants ac)" "umap_wf (group_permissions r)" "umap_wf (user_permissions r)"
  shows "load_grant_lines (grant_lines (db, r)) ac = Some (ac\<lparr>database_grants := database_grants ac @ [(db, r)]\<rparr>)"
proof -
  let ?m = "database_grants ac" let ?w = "default_permissions r"
  let ?r1 = "no_grants\<lparr>default_permissions := ?w\<rparr>" let ?r2 = "?r1\<lparr>group_permissions := group_permissions r\<rparr>"
  have "umap_find ?m db = None" using assms(2) by (simp add: umap_find_def map_of_eq_None_iff)
  then have "update_grants db (\<lambda>g. g\<lparr>default_permissions := ?w\<rparr>) ac = ac\<lparr>database_grants := ?m @ [(db, ?r1)]\<rparr>"
    using assms(2) by (simp add: update_grants_def umap_assign_new umap_index_def)
  moreover have "group_permissions ?r1 = []" "user_permissions ?r2 = []" "?r2\<lparr>user_permissions := user_permissions r\<rparr> = r"
    by (simp_all add: no_grants_def)
  ultimately show ?thesis
    using load_default [OF assms(1), of ?w ac]
      load_group_grants [OF assms(1) _ assms(2), of "ac\<lparr>database_grants := ?m @ [(db, ?r1)]\<rparr>" ?r1 "group_permissions r"]
      load_user_grants [OF assms(1) _ assms(2), of "ac\<lparr>database_grants := ?m @ [(db, ?r2)]\<rparr>" ?r2 "user_permissions r"] assms(3,4)
    by (simp add: grant_lines_def load_grant_lines_append)
qed

lemma load_databases:
  assumes "\<forall>g \<in> set gs. one_line_grant g" "\<forall>(db, r) \<in> set gs. umap_wf (group_permissions r) \<and> umap_wf (user_permissions r)"
    "umap_wf (database_grants ac @ gs)"
  shows "load_grant_lines (concat (map grant_lines gs)) ac = Some (ac\<lparr>database_grants := database_grants ac @ gs\<rparr>)"
  using assms
proof (induction gs arbitrary: ac)
  case (Cons g gs)
  obtain db r where g: "g = (db, r)" by (cases g)
  have "load_grant_lines (grant_lines (db, r)) ac = Some (ac\<lparr>database_grants := database_grants ac @ [(db, r)]\<rparr>)"
    using Cons.prems by (intro load_database) (auto simp: g one_line_grant_def umap_wf_def)
  with Cons.IH [of "ac\<lparr>database_grants := database_grants ac @ [(db, r)]\<rparr>"] Cons.prems show ?case
    by (simp add: g load_grant_lines_append)
qed simp

lemma accounts_text_lines:
  assumes "rbac_inv ac" "rbac_saveable ac"
  shows "getlines (accounts_text ac) = (''FORMAT'' @ [tab] @ ''1'') # map account_line (accounts ac) @ map group_line (groups ac)"
proof -
  have "newline \<notin> set (account_line a)" if "a \<in> set (accounts ac)" for a
  proof -
    from assms that have "one_line_account a" "\<forall>g \<in> set (account_groups (snd a)). newline \<notin> set g"
      by (simp add: rbac_saveable_def, fastforce simp: rbac_inv_def rbac_saveable_def account_inv_def)
    then show ?thesis by (auto simp: account_line_def one_line_account_def)
  qed
  moreover have "\<forall>g \<in> set (groups ac). newline \<notin> set (group_line g)"
    using assms(2) by (auto simp: rbac_saveable_def group_line_def)
  ultimately have "\<forall>l \<in> set ((''FORMAT'' @ [tab] @ ''1'') # map account_line (accounts ac) @ map group_line (groups ac)). newline \<notin> set l"
    by auto
  from getlines_unlines [OF this, of "[]"] show ?thesis by (simp only: accounts_text_def append_Nil2 getlines.simps)
qed

lemma grants_text_lines:
  assumes "rbac_saveable ac"
  shows "getlines (grants_text ac) = (''FORMAT'' @ [tab] @ ''1'') # concat (map grant_lines (database_grants ac))"
proof -
  have line: "newline \<in> set (default_line db w) \<longleftrightarrow> newline \<in> set db"
    "newline \<in> set (group_grant_line db k) \<longleftrightarrow> newline \<in> set db \<or> newline \<in> set (fst k)"
    "newline \<in> set (user_grant_line db k) \<longleftrightarrow> newline \<in> set db \<or> newline \<in> set (fst k)" for db w k
    by (simp_all add: default_line_def group_grant_line_def user_grant_line_def)
  have "newline \<notin> set l" if "one_line_grant g" "l \<in> set (grant_lines g)" for g l
    using that by (force simp: one_line_grant_def grant_lines_def line)
  then have "\<forall>l \<in> set ((''FORMAT'' @ [tab] @ ''1'') # concat (map grant_lines (database_grants ac))). newline \<notin> set l"
    using assms by (auto simp: rbac_saveable_def)
  from getlines_unlines [OF this, of "[]"] show ?thesis by (simp only: grants_text_def append_Nil2 getlines.simps)
qed

section \<open>Properties\<close>

text \<open>
  C16. Accounts and grants survive a restart: when both files were written, a new process has the same accounts with the
  same groups and password hashes, the same groups and the same grants, as long as no name has a newline, no group a comma and
  no database an empty name.
\<close>

theorem access_roundtrip:
  assumes "administered hmac ac" "rbac_saveable ac" "fst (Persist (Written, Written) ac) = saved"
  shows "\<exists>ac'. make_access new_secret io (accounts_file saved) (grants_file saved) secret_txt = Some ac' \<and>
    accounts ac' = accounts ac \<and> set (groups ac') = set (groups ac) \<and> database_grants ac' = database_grants ac"
proof -
  have inv: "rbac_inv ac" by (rule administered_inv [OF assms(1)])
  have files: "accounts_file saved = Some (accounts_text ac)" "grants_file saved = Some (grants_text ac)"
    using assms(3) by (auto simp: Persist_def Let_def)
  let ?ac0 = "\<lparr>jwt_secret = [], accounts = [], groups = [], database_grants = [],
     accounts_file = accounts_file saved, grants_file = grants_file saved, secret_file = secret_txt\<rparr>"
  have gs: "\<forall>g \<in> set (groups ac). g \<noteq> [] \<and> CHR '','' \<notin> set g"
    using inv assms(2) by (auto simp: rbac_inv_def rbac_saveable_def)
  obtain hs where hs: "fold load_account_line (map account_line (accounts ac)) ?ac0 = ?ac0\<lparr>accounts := accounts ac, groups := hs\<rparr>"
    "set hs \<subseteq> set (groups ac)"
    using load_accounts [of "accounts ac" "groups ac" ?ac0] gs inv by (auto simp: rbac_inv_def)
  obtain ks where ks: "fold load_account_line (map group_line (groups ac)) (?ac0\<lparr>accounts := accounts ac, groups := hs\<rparr>)
      = ?ac0\<lparr>accounts := accounts ac, groups := ks\<rparr>" "set ks = set hs \<union> set (groups ac)"
    using load_groups [of "groups ac" "?ac0\<lparr>accounts := accounts ac, groups := hs\<rparr>"] by auto
  have "LoadAccess ?ac0 = Some (?ac0\<lparr>accounts := accounts ac, groups := ks, database_grants := database_grants ac\<rparr>)"
    using hs(1) ks(1) load_databases [of "database_grants ac" "?ac0\<lparr>accounts := accounts ac, groups := ks\<rparr>"] inv assms(2)
    by (simp add: LoadAccess_def files accounts_text_lines [OF inv assms(2)] grants_text_lines [OF assms(2)] load_format [simplified]
        rbac_inv_def rbac_saveable_def)
  then show ?thesis
    using hs(2) ks(2) by (auto simp: make_access_def EnsureJwtSecret_def Let_def)
qed

definition sample_members :: AccessController where
  "sample_members = fst (RegisterAccount (\<lambda>k m. Some ''d'') ''s'' (Written, Written) ''ann'' ''pw'' ''staff'' (new_access ''key''))"

lemma access_roundtrip_witness:
  "\<exists>ac'. make_access ''new'' Written (accounts_file (fst (Persist (Written, Written) sample_members)))
      (grants_file (fst (Persist (Written, Written) sample_members))) (Some ''key'') = Some ac' \<and>
    accounts ac' = accounts sample_members \<and> set (groups ac') = set (groups sample_members) \<and>
    database_grants ac' = database_grants sample_members"
proof (rule access_roundtrip [OF _ _ refl])
  show "administered (\<lambda>k m. Some ''d'') sample_members"
    unfolding sample_members_def by (intro administered_register administered_init)
  show "rbac_saveable sample_members" by code_simp
qed

text \<open>
  The names of the groups are joined with commas that are not escaped: a group \<^verbatim>\<open>x,admin\<close> is read back as the groups
  \<^verbatim>\<open>x\<close> and \<^verbatim>\<open>admin\<close>.
\<close>

lemma SplitGroups_comma: "SplitGroups (join_groups [''x,admin'']) = [''x'', ''admin'']"
  by code_simp

end
