(* ===== verification/Tokens.thy ===== *)
theory Tokens
  imports Access_Persistence
begin

text \<open>
  Bearer tokens (\<^verbatim>\<open>src/catalog/rbac.cpp\<close>): base64url, the two claims, issuing a token at login and validating it with every
  request. The keyed hash is an argument.
\<close>

section \<open>base64url\<close>

definition kBase64UrlAlphabet :: string where
  "kBase64UrlAlphabet = ''ABCDEFGHIJKLMNOPQRSTUVWXYZabcdefghijklmnopqrstuvwxyz0123456789-_''"

definition char_word :: "char \<Rightarrow> 32 word" where
  "char_word c = of_nat (of_char c)"

text \<open>The digit of a group of 24 bits at a shift.\<close>

definition base64_digit :: "32 word \<Rightarrow> nat \<Rightarrow> char" where
  "base64_digit v n = kBase64UrlAlphabet ! unat (drop_bit n v AND 0x3F)"

fun Base64UrlEncode :: "string \<Rightarrow> string" where
  "Base64UrlEncode (a # b # c # s) =
     (let v = push_bit 16 (char_word a) OR push_bit 8 (char_word b) OR char_word c
      in base64_digit v 18 # base64_digit v 12 # base64_digit v 6 # base64_digit v 0 # Base64UrlEncode s)"
| "Base64UrlEncode [a, b] =
     (let v = push_bit 16 (char_word a) OR push_bit 8 (char_word b)
      in [base64_digit v 18, base64_digit v 12, base64_digit v 6])"
| "Base64UrlEncode [a] = (let v = push_bit 16 (char_word a) in [base64_digit v 18, base64_digit v 12])"
| "Base64UrlEncode [] = []"

text \<open>The table \<^verbatim>\<open>reverse\<close>: the position of a character in the alphabet.\<close>

fun position :: "'a \<Rightarrow> 'a list \<Rightarrow> nat option" where
  "position x [] = None"
| "position x (y # ys) = (if x = y then Some 0 else map_option Suc (position x ys))"

text \<open>
  The loop of \<^verbatim>\<open>Base64UrlDecode\<close> with its accumulator and the number of bits that it holds, which stays below 8, so that the inner
  loop runs at most once.
\<close>

fun decode_digits :: "32 word \<Rightarrow> nat \<Rightarrow> string \<Rightarrow> string \<Rightarrow> string option" where
  "decode_digits v bits out [] = (if bits = 1 \<or> bits = 3 \<or> bits = 5 then None else Some out)"
| "decode_digits v bits out (ch # s) =
     (case position ch kBase64UrlAlphabet of
        None \<Rightarrow> None
      | Some d \<Rightarrow>
          (let v' = push_bit 6 v OR of_nat d; bits' = bits + 6
           in if bits' \<ge> 8 then decode_digits v' (bits' - 8) (out @ [char_of (unat (drop_bit (bits' - 8) v' AND 0xFF))]) s
              else decode_digits v' bits' out s))"

definition Base64UrlDecode :: "string \<Rightarrow> string option" where
  "Base64UrlDecode data = decode_digits 0 0 [] data"

section \<open>Claims\<close>

text \<open>\<^verbatim>\<open>std::string::find\<close>: the text after the first occurrence of a pattern.\<close>

fun after_first :: "string \<Rightarrow> string \<Rightarrow> string option" where
  "after_first marker [] = (if marker = [] then Some [] else None)"
| "after_first marker (c # s) =
     (if take (length marker) (c # s) = marker then Some (drop (length marker) (c # s)) else after_first marker s)"

definition ExtractNumericClaim :: "string \<Rightarrow> string \<Rightarrow> int option" where
  "ExtractNumericClaim json key =
     (case after_first ([quotation_mark] @ key @ [quotation_mark, CHR '':'']) json of
        None \<Rightarrow> None
      | Some rest \<Rightarrow>
          (let digits = takeWhile (\<lambda>c. is_digit c \<or> c = CHR ''-'') (dropWhile is_space rest)
           in if digits = [] then None else map_option fst (stoll digits)))"

definition ExtractStringClaim :: "string \<Rightarrow> string \<Rightarrow> string option" where
  "ExtractStringClaim json key =
     (case after_first ([quotation_mark] @ key @ [quotation_mark, CHR '':'', quotation_mark]) json of
        None \<Rightarrow> None
      | Some rest \<Rightarrow>
          if quotation_mark \<in> set rest then Some (takeWhile (\<lambda>c. c \<noteq> quotation_mark) rest) else None)"

section \<open>Tokens\<close>

definition quoted :: "string \<Rightarrow> string" where
  "quoted s = [quotation_mark] @ s @ [quotation_mark]"

definition kJwtHeaderJson :: string where
  "kJwtHeaderJson = ''{'' @ quoted ''alg'' @ '':'' @ quoted ''HS256'' @ '','' @ quoted ''typ'' @ '':'' @ quoted ''JWT'' @ ''}''"

definition SignTokenPayload :: "hmac \<Rightarrow> AccessController \<Rightarrow> string \<Rightarrow> string" where
  "SignTokenPayload hmac ac payload =
     (case hmac (jwt_secret ac) payload of None \<Rightarrow> [] | Some digest \<Rightarrow> Base64UrlEncode digest)"

definition payload_json :: "string \<Rightarrow> int \<Rightarrow> string" where
  "payload_json user expires =
     ''{'' @ quoted ''sub'' @ '':'' @ [quotation_mark] @ user @ [quotation_mark] @ '','' @ quoted ''exp'' @ '':'' @
     int_to_string expires @ ''}''"

definition IssueToken :: "hmac \<Rightarrow> AccessController \<Rightarrow> string \<Rightarrow> int \<Rightarrow> string" where
  "IssueToken hmac ac user expires =
     (let signing_input = Base64UrlEncode kJwtHeaderJson @ ''.'' @ Base64UrlEncode (payload_json user expires)
      in signing_input @ ''.'' @ SignTokenPayload hmac ac signing_input)"

text \<open>The time is in seconds. The result is the token or the error message.\<close>

definition LoginAndIssueToken :: "hmac \<Rightarrow> int \<Rightarrow> AccessController \<Rightarrow> string \<Rightarrow> string \<Rightarrow> string + string" where
  "LoginAndIssueToken hmac now ac user password =
     (case umap_find (accounts ac) user of
        None \<Rightarrow> Inl ''user not found''
      | Some record \<Rightarrow>
          if HashPassword hmac (salt record) password \<noteq> password_hash record then Inl ''invalid credentials''
          else Inr (IssueToken hmac ac user (now + 3600)))"

text \<open>The parts of a token: it must have exactly two dots.\<close>

definition token_parts :: "string \<Rightarrow> (string \<times> string \<times> string) option" where
  "token_parts t =
     (let h = takeWhile (\<lambda>c. c \<noteq> CHR ''.'') t; r = dropWhile (\<lambda>c. c \<noteq> CHR ''.'') t;
          p = takeWhile (\<lambda>c. c \<noteq> CHR ''.'') (drop 1 r); q = dropWhile (\<lambda>c. c \<noteq> CHR ''.'') (drop 1 r)
      in if r = [] \<or> q = [] \<or> CHR ''.'' \<in> set (drop 1 q) then None else Some (h, p, drop 1 q))"

definition ValidateTokenAndGetUser :: "hmac \<Rightarrow> int \<Rightarrow> AccessController \<Rightarrow> string \<Rightarrow> string option" where
  "ValidateTokenAndGetUser hmac now ac t =
     (case token_parts t of
        None \<Rightarrow> None
      | Some (header_b64, payload_b64, signature_b64) \<Rightarrow>
          if header_b64 = [] \<or> payload_b64 = [] \<or> signature_b64 = [] then None
          else case (Base64UrlDecode header_b64, Base64UrlDecode payload_b64) of
                 (Some header, Some payload) \<Rightarrow>
                   if header \<noteq> kJwtHeaderJson then None
                   else if SignTokenPayload hmac ac (header_b64 @ ''.'' @ payload_b64) \<noteq> signature_b64 then None
                   else (case (ExtractStringClaim payload ''sub'', ExtractNumericClaim payload ''exp'') of
                           (Some user, Some expires) \<Rightarrow>
                             if now > expires then None
                             else if \<not> umap_contains (accounts ac) user then None
                             else Some user
                         | _ \<Rightarrow> None)
               | _ \<Rightarrow> None)"

section \<open>base64url reads back\<close>

lemma alphabet_length [simp]: "length kBase64UrlAlphabet = 64"
  by (simp add: kBase64UrlAlphabet_def)

lemma alphabet_distinct: "distinct kBase64UrlAlphabet"
  by code_simp

lemma position_nth: "distinct xs \<Longrightarrow> i < length xs \<Longrightarrow> position (xs ! i) xs = Some i"
  by (induction xs arbitrary: i) (auto simp: nth_Cons split: nat.splits)

lemma digit_less: "unat (w AND 0x3F :: 32 word) < 64"
proof -
  have "w AND 0x3F = take_bit 6 w" by (simp add: take_bit_eq_mask mask_numeral)
  then show ?thesis using take_bit_nat_less_exp [of 6 "unat w"] by (simp add: unsigned_take_bit_eq)
qed

lemma position_digit: "position (base64_digit v n) kBase64UrlAlphabet = Some (unat (drop_bit n v AND 0x3F))"
  unfolding base64_digit_def by (rule position_nth [OF alphabet_distinct]) (simp add: digit_less)

lemma masks: "(0x3F :: 32 word) = mask 6" "(0xFF :: 32 word) = mask 8"
  by (simp_all add: mask_numeral)

lemma bits_below: "n < 8 \<Longrightarrow> n = 0 \<or> n = 1 \<or> n = 2 \<or> n = 3 \<or> n = 4 \<or> n = 5 \<or> n = 6 \<or> n = (7 :: nat)"
  by arith

lemma byte_eqI: "(\<And>n. n < 8 \<Longrightarrow> bit a n = bit b n) \<Longrightarrow> a AND 0xFF = b AND (0xFF :: 32 word)"
  unfolding masks by (rule bit_word_eqI) (auto simp: bit_and_iff bit_mask_iff)

lemmas bit_rules = bit_and_iff bit_or_iff bit_push_bit_iff bit_drop_bit_eq bit_mask_iff comp_def

text \<open>The three bytes of a group, whatever is left in the accumulator above them.\<close>

lemma byte_1:
  fixes x v :: "32 word"
  shows "drop_bit 4 (push_bit 6 (push_bit 6 v OR (drop_bit 18 x AND 0x3F)) OR (drop_bit 12 x AND 0x3F)) AND 0xFF = drop_bit 16 x AND 0xFF"
  by (rule byte_eqI, drule bits_below, unfold masks, elim disjE; simp only: bit_rules; simp)

lemma byte_2:
  fixes x v :: "32 word"
  shows "drop_bit 2 (push_bit 6 (push_bit 6 v OR (drop_bit 12 x AND 0x3F)) OR (drop_bit 6 x AND 0x3F)) AND 0xFF = drop_bit 8 x AND 0xFF"
  by (rule byte_eqI, drule bits_below, unfold masks, elim disjE; simp only: bit_rules; simp)

lemma byte_3:
  fixes x v :: "32 word"
  shows "(push_bit 6 (push_bit 6 v OR (drop_bit 6 x AND 0x3F)) OR (drop_bit 0 x AND 0x3F)) AND 0xFF = x AND 0xFF"
  by (rule byte_eqI, drule bits_below, unfold masks, elim disjE; simp only: bit_rules; simp add: numeral_2_eq_2)

lemma char_word_bits: "bit (char_word c) n \<Longrightarrow> n < 8"
proof -
  assume "bit (char_word c) n"
  then have "bit (of_char c :: nat) n" by (simp add: char_word_def bit_simps)
  moreover have "(of_char c :: nat) < 2 ^ 8" by simp
  ultimately show ?thesis by (metis bit_take_bit_iff take_bit_nat_eq_self)
qed

lemma char_word_mask: "char_word c AND 0xFF = char_word c"
  unfolding masks by (rule bit_word_eqI) (auto simp: bit_simps dest: char_word_bits)

lemma char_of_char_word: "char_of (unat (char_word c)) = c"
proof -
  have "(of_char c :: nat) < 2 ^ LENGTH(32)" by (rule less_trans [of _ 256]) simp_all
  then show ?thesis by (simp add: char_word_def unsigned_of_nat take_bit_nat_eq_self)
qed

lemma group_bytes:
  fixes a b c :: char
  defines "x \<equiv> push_bit 16 (char_word a) OR push_bit 8 (char_word b) OR char_word c"
  shows "drop_bit 16 x AND 0xFF = char_word a" "drop_bit 8 x AND 0xFF = char_word b" "x AND 0xFF = char_word c"
proof -
  have "drop_bit 16 x AND 0xFF = char_word a AND 0xFF" "drop_bit 8 x AND 0xFF = char_word b AND 0xFF" "x AND 0xFF = char_word c AND 0xFF"
    unfolding x_def
    by (rule byte_eqI; simp only: bit_rules; use char_word_bits in fastforce)+
  then show "drop_bit 16 x AND 0xFF = char_word a" "drop_bit 8 x AND 0xFF = char_word b" "x AND 0xFF = char_word c"
    by (simp_all add: char_word_mask)
qed

lemma group_bytes_2:
  fixes a b :: char
  defines "x \<equiv> push_bit 16 (char_word a) OR push_bit 8 (char_word b)"
  shows "drop_bit 16 x AND 0xFF = char_word a" "drop_bit 8 x AND 0xFF = char_word b"
proof -
  have "drop_bit 16 x AND 0xFF = char_word a AND 0xFF" "drop_bit 8 x AND 0xFF = char_word b AND 0xFF"
    unfolding x_def by (rule byte_eqI; simp only: bit_rules; use char_word_bits in fastforce)+
  then show "drop_bit 16 x AND 0xFF = char_word a" "drop_bit 8 x AND 0xFF = char_word b"
    by (simp_all add: char_word_mask)
qed

lemma group_bytes_1: "drop_bit 16 (push_bit 16 (char_word a)) AND 0xFF = char_word a"
proof -
  have "drop_bit 16 (push_bit 16 (char_word a)) AND 0xFF = char_word a AND 0xFF"
    by (rule byte_eqI; simp only: bit_rules; simp)
  then show ?thesis by (simp add: char_word_mask)
qed

lemma of_nat_digit: "of_nat (unat (w :: 32 word)) = w"
  by simp

text \<open>One digit, for each number of bits that the accumulator holds.\<close>

lemma digit_steps:
  fixes v x :: "32 word"
  defines "w n \<equiv> push_bit 6 v OR (drop_bit n x AND 0x3F)"
  shows "decode_digits v 0 out (base64_digit x n # s) = decode_digits (w n) 6 out s"
    and "decode_digits v 6 out (base64_digit x n # s) = decode_digits (w n) 4 (out @ [char_of (unat (drop_bit 4 (w n) AND 0xFF))]) s"
    and "decode_digits v 4 out (base64_digit x n # s) = decode_digits (w n) 2 (out @ [char_of (unat (drop_bit 2 (w n) AND 0xFF))]) s"
    and "decode_digits v 2 out (base64_digit x n # s) = decode_digits (w n) 0 (out @ [char_of (unat (w n AND 0xFF))]) s"
  unfolding w_def by (simp_all add: position_digit Let_def)

lemma decode_encode: "decode_digits v 0 out (Base64UrlEncode s) = Some (out @ s)"
proof (induction s arbitrary: v out rule: Base64UrlEncode.induct)
  case (1 a b c s)
  show ?case
    by (simp only: Base64UrlEncode.simps Let_def digit_steps byte_1 byte_2 byte_3 group_bytes char_of_char_word 1) simp
next
  case (2 a b)
  show ?case
    by (simp only: Base64UrlEncode.simps Let_def digit_steps byte_1 byte_2 group_bytes_2 char_of_char_word) simp
next
  case (3 a)
  show ?case
    by (simp only: Base64UrlEncode.simps Let_def digit_steps byte_1 group_bytes_1 char_of_char_word) simp
qed simp

lemma Base64Url_roundtrip: "Base64UrlDecode (Base64UrlEncode s) = Some s"
  by (simp add: Base64UrlDecode_def decode_encode)

section \<open>The parts of a token\<close>

lemma base64_digit_in: "base64_digit v n \<in> set kBase64UrlAlphabet"
  unfolding base64_digit_def by (rule nth_mem) (simp add: digit_less)

lemma base64_digit_plain [simp]: "base64_digit v n \<noteq> CHR ''.''" "CHR ''.'' \<noteq> base64_digit v n"
  using base64_digit_in [of v n] by (auto simp: kBase64UrlAlphabet_def)

lemma encoded_no_dot [simp]: "CHR ''.'' \<notin> set (Base64UrlEncode s)"
  by (induction s rule: Base64UrlEncode.induct) (simp_all add: Let_def)

lemma encoded_Nil [simp]: "Base64UrlEncode s = [] \<longleftrightarrow> s = []"
  by (cases s rule: Base64UrlEncode.cases) (simp_all add: Let_def)

lemma before_dot:
  "CHR ''.'' \<notin> set h \<Longrightarrow> takeWhile (\<lambda>c. c \<noteq> CHR ''.'') (h @ CHR ''.'' # r) = h"
  "CHR ''.'' \<notin> set h \<Longrightarrow> dropWhile (\<lambda>c. c \<noteq> CHR ''.'') (h @ CHR ''.'' # r) = CHR ''.'' # r"
  by (induction h) auto

lemma token_parts_join:
  "CHR ''.'' \<notin> set h \<Longrightarrow> CHR ''.'' \<notin> set p \<Longrightarrow> CHR ''.'' \<notin> set q \<Longrightarrow>
   token_parts (h @ CHR ''.'' # p @ CHR ''.'' # q) = Some (h, p, q)"
  by (simp add: token_parts_def before_dot)

lemma split_at_dot: "dropWhile (\<lambda>c. c \<noteq> CHR ''.'') t \<noteq> [] \<Longrightarrow>
  t = takeWhile (\<lambda>c. c \<noteq> CHR ''.'') t @ CHR ''.'' # drop 1 (dropWhile (\<lambda>c. c \<noteq> CHR ''.'') t)"
  by (induction t) auto

lemma token_parts_Some:
  assumes "token_parts t = Some (h, p, q)"
  shows "t = h @ ''.'' @ p @ ''.'' @ q"
proof -
  let ?r = "dropWhile (\<lambda>c. c \<noteq> CHR ''.'') t"
  let ?q = "dropWhile (\<lambda>c. c \<noteq> CHR ''.'') (drop 1 ?r)"
  have "?r \<noteq> []" "?q \<noteq> []" and parts: "h = takeWhile (\<lambda>c. c \<noteq> CHR ''.'') t"
    "p = takeWhile (\<lambda>c. c \<noteq> CHR ''.'') (drop 1 ?r)" "q = drop 1 ?q"
    using assms by (auto simp: token_parts_def Let_def split: if_splits)
  from split_at_dot [OF this(1)] split_at_dot [OF this(2)] parts show ?thesis by simp
qed

section \<open>The claims of an issued token\<close>

lemma after_first_skip: "c \<noteq> d \<Longrightarrow> after_first (d # m) (c # s) = after_first (d # m) s"
  by simp

lemma after_first_skip_all: "d \<notin> set u \<Longrightarrow> after_first (d # m) (u @ s) = after_first (d # m) s"
  by (induction u) auto

lemma after_first_here: "after_first (d # m) (d # m @ s) = Some s"
  by simp

declare after_first.simps(2) [simp del]

lemma before_quote: "quotation_mark \<notin> set u \<Longrightarrow> takeWhile (\<lambda>c. c \<noteq> quotation_mark) (u @ quotation_mark # s) = u"
  by (induction u) auto

lemma letters_quote [simp]:
  "CHR ''{'' \<noteq> quotation_mark" "CHR '':'' \<noteq> quotation_mark" "CHR '','' \<noteq> quotation_mark" "CHR ''e'' \<noteq> quotation_mark"
  "CHR ''x'' \<noteq> quotation_mark" "quotation_mark \<noteq> CHR '':''" "CHR ''p'' \<noteq> quotation_mark" "CHR ''s'' \<noteq> quotation_mark" "CHR ''u'' \<noteq> quotation_mark" "CHR ''b'' \<noteq> quotation_mark"
  by (simp_all add: quotation_mark_def)

text \<open>The subject is what stands before the first quotation mark of the name.\<close>

lemma subject_claim:
  assumes "quotation_mark \<notin> set u"
  shows "ExtractStringClaim (payload_json (u @ w) e) ''sub'' = Some (u @ takeWhile (\<lambda>c. c \<noteq> quotation_mark) w)"
proof -
  let ?m = "''sub'' @ [quotation_mark, CHR '':'', quotation_mark]"
  let ?r = "quotation_mark # '','' @ quoted ''exp'' @ '':'' @ int_to_string e @ ''}''"
  have "payload_json (u @ w) e = CHR ''{'' # quotation_mark # ?m @ (u @ w @ ?r)"
    by (simp add: payload_json_def quoted_def)
  then have "after_first (quotation_mark # ?m) (payload_json (u @ w) e) = Some (u @ w @ ?r)"
    by (simp only: after_first_skip [OF letters_quote(1)] after_first_here)
  moreover have "takeWhile (\<lambda>c. c \<noteq> quotation_mark) (w @ quotation_mark # s) = takeWhile (\<lambda>c. c \<noteq> quotation_mark) w" for s
    by (induction w) auto
  moreover have "takeWhile (\<lambda>c. c \<noteq> quotation_mark) (u @ s) = u @ takeWhile (\<lambda>c. c \<noteq> quotation_mark) s" for s
    using assms by (induction u) auto
  ultimately show ?thesis by (simp add: ExtractStringClaim_def)
qed

lemma expiry_digits:
  assumes "- (2 ^ 63) \<le> e" "e < 2 ^ 63"
  shows "takeWhile (\<lambda>c. is_digit c \<or> c = CHR ''-'') (dropWhile is_space (int_to_string e @ ''}'')) = int_to_string e"
proof -
  have digits: "\<forall>c \<in> set (int_to_string e). is_digit c \<or> c = CHR ''-''"
    by (auto simp: int_to_string_def dest: nat_to_string_all_digits)
  have "int_to_string e \<noteq> []" by (simp add: int_to_string_def)
  then obtain c s where cs: "int_to_string e = c # s" by (cases "int_to_string e") simp_all
  have "is_digit c \<or> c = CHR ''-''" using digits by (simp add: cs)
  then have "\<not> is_space c" using digit_not_special [of c] by (elim disjE) (simp_all add: is_space_def)
  then have "dropWhile is_space (int_to_string e @ ''}'') = int_to_string e @ ''}''" by (simp add: cs)
  moreover have "takeWhile (\<lambda>c. is_digit c \<or> c = CHR ''-'') (int_to_string e @ ''}'') = int_to_string e"
    using digits by (subst takeWhile_append2) (simp_all add: is_digit_def)
  ultimately show ?thesis by (simp only:)
qed

text \<open>The expiry is found behind a name without a quotation mark, also when the name is \<^verbatim>\<open>exp\<close>.\<close>

lemma expiry_not_in_name:
  assumes "quotation_mark \<notin> set u" "c \<noteq> CHR '':''"
  shows "take 5 (u @ quotation_mark # c # s) \<noteq> ''exp'' @ [quotation_mark, CHR '':'']" (is "take 5 ?l \<noteq> ?m")
proof
  assume eq: "take 5 ?l = ?m"
  have "takeWhile (\<lambda>c. c \<noteq> quotation_mark) (?m @ drop 5 ?l) = ''exp''" by simp
  then have "takeWhile (\<lambda>c. c \<noteq> quotation_mark) ?l = ''exp''" by (metis eq append_take_drop_id)
  with before_quote [OF assms(1)] have "u = ''exp''" by simp
  with eq assms(2) show False by simp
qed

lemma expiry_claim:
  assumes "quotation_mark \<notin> set u" "- (2 ^ 63) \<le> e" "e < 2 ^ 63"
  shows "ExtractNumericClaim (payload_json u e) ''exp'' = Some e"
    and "ExtractNumericClaim (payload_json (u @ [quotation_mark]) e) ''exp'' = Some e"
proof -
  let ?m = "''exp'' @ [quotation_mark, CHR '':'']"
  let ?r = "int_to_string e @ ''}''"
  have skip: "after_first (quotation_mark # ?m) (payload_json (u @ w) e) =
      after_first (quotation_mark # ?m) (quotation_mark # u @ w @ quotation_mark # CHR '','' # quotation_mark # ?m @ ?r)" for w
    by (simp add: payload_json_def quoted_def after_first.simps(2))
  have name: "after_first (quotation_mark # ?m) (quotation_mark # u @ quotation_mark # c # s) =
      after_first (quotation_mark # ?m) (quotation_mark # c # s)" if "c \<noteq> CHR '':''" for c s
    using expiry_not_in_name [OF assms(1) that, of s]
    by (simp add: after_first.simps(2) [of _ _ "u @ _"] after_first_skip_all [OF assms(1)] numeral_eq_Suc)
  have tail: "after_first (quotation_mark # ?m) (quotation_mark # CHR '','' # quotation_mark # ?m @ ?r) = Some ?r"
    "after_first (quotation_mark # ?m) (quotation_mark # quotation_mark # CHR '','' # quotation_mark # ?m @ ?r) = Some ?r"
    by (simp_all add: after_first.simps(2))
  have "after_first (quotation_mark # ?m) (payload_json u e) = Some ?r"
    using skip [of "[]"] name [of "CHR '',''" "quotation_mark # ?m @ ?r"] tail(1) by simp
  moreover have "after_first (quotation_mark # ?m) (payload_json (u @ [quotation_mark]) e) = Some ?r"
    using skip [of "[quotation_mark]"] name [of quotation_mark "CHR '','' # quotation_mark # ?m @ ?r"] tail(2) by simp
  moreover have "stoll (int_to_string e) = Some (e, length (int_to_string e))"
    unfolding stoll_def by (rule scan_signed_int) (use assms(2, 3) in simp_all)
  moreover have "int_to_string e \<noteq> []" by (simp add: int_to_string_def)
  ultimately show "ExtractNumericClaim (payload_json u e) ''exp'' = Some e"
    and "ExtractNumericClaim (payload_json (u @ [quotation_mark]) e) ''exp'' = Some e"
    using expiry_digits [OF assms(2, 3)] by (simp_all add: ExtractNumericClaim_def)
qed

section \<open>Issued tokens\<close>

text \<open>What the code relies on: OpenSSL returns a digest, which is not empty.\<close>

definition returns_digests :: "hmac \<Rightarrow> bool" where
  "returns_digests hmac \<longleftrightarrow> (\<forall>k m. \<exists>digest. hmac k m = Some digest \<and> digest \<noteq> [])"

definition int64_seconds :: "int \<Rightarrow> bool" where
  "int64_seconds e \<longleftrightarrow> - (2 ^ 63) \<le> e \<and> e < 2 ^ 63"

lemma issued_token_parts:
  "token_parts (IssueToken hmac ac user e) =
     Some (Base64UrlEncode kJwtHeaderJson, Base64UrlEncode (payload_json user e),
       SignTokenPayload hmac ac (Base64UrlEncode kJwtHeaderJson @ ''.'' @ Base64UrlEncode (payload_json user e)))"
proof -
  have "CHR ''.'' \<notin> set (SignTokenPayload hmac ac m)" for m by (simp add: SignTokenPayload_def split: option.split)
  then show ?thesis by (simp add: IssueToken_def Let_def token_parts_join)
qed

lemma signature_not_Nil: "returns_digests hmac \<Longrightarrow> SignTokenPayload hmac ac m \<noteq> []"
  by (auto simp: returns_digests_def SignTokenPayload_def split: option.split) (metis option.distinct(1) option.inject)

lemma issued_token_read:
  assumes "returns_digests hmac" "ExtractStringClaim (payload_json user e) ''sub'' = Some u"
    "ExtractNumericClaim (payload_json user e) ''exp'' = Some e'"
  shows "ValidateTokenAndGetUser hmac now ac (IssueToken hmac ac user e) =
    (if now \<le> e' \<and> umap_contains (accounts ac) u then Some u else None)"
proof -
  have "kJwtHeaderJson \<noteq> []" "payload_json user e \<noteq> []" by (simp_all add: kJwtHeaderJson_def payload_json_def)
  then show ?thesis
    using assms signature_not_Nil [OF assms(1)]
    by (simp add: ValidateTokenAndGetUser_def issued_token_parts Base64Url_roundtrip)
qed

lemma RegisterAccount_then_login:
  assumes "fst (RegisterAccount hmac new_salt io user password g ac) = ac'" "user \<noteq> []" "password \<noteq> []" "\<not> umap_contains (accounts ac) user"
  shows "LoginAndIssueToken hmac now ac' user password = Inr (IssueToken hmac ac' user (now + 3600))" "umap_contains (accounts ac') user"
  using assms by (auto simp: RegisterAccount_def LoginAndIssueToken_def Let_def umap_contains_find)

text \<open>
  C17. An account that was just registered under a new name, which has no quotation mark, and with a password can log in with
  it, and the token is accepted as that user until an hour after the login and by nobody's clock after it. The HMAC has to return
  digests, and the hour has to fit the range of the clock.
\<close>

theorem registered_login_accepted:
  assumes "returns_digests hmac" "int64_seconds (now + 3600)"
    and "user \<noteq> []" "password \<noteq> []" "\<not> umap_contains (accounts ac) user" "quotation_mark \<notin> set user"
    and "fst (RegisterAccount hmac new_salt io user password g ac) = ac'"
  shows "\<exists>token. LoginAndIssueToken hmac now ac' user password = Inr token \<and>
    (\<forall>later. ValidateTokenAndGetUser hmac later ac' token = (if later \<le> now + 3600 then Some user else None))"
proof -
  note login = RegisterAccount_then_login [OF assms(7) assms(3, 4, 5)]
  have "ExtractStringClaim (payload_json user (now + 3600)) ''sub'' = Some user"
    using subject_claim [OF assms(6), of "[]"] by simp
  moreover have "ExtractNumericClaim (payload_json user (now + 3600)) ''exp'' = Some (now + 3600)"
    using expiry_claim(1) [OF assms(6)] assms(2) by (simp add: int64_seconds_def)
  ultimately show ?thesis using login by (simp add: issued_token_read [OF assms(1)])
qed

definition sample_hmac :: hmac where
  "sample_hmac k m = Some (''d'' @ k)"

lemma sample_digests: "returns_digests sample_hmac"
  by (simp add: returns_digests_def sample_hmac_def)

definition sample_access :: AccessController where
  "sample_access = fst (RegisterAccount sample_hmac ''s'' (Written, Written) ''ann'' ''pw'' [] (new_access ''key''))"

lemma sample_accounts: "umap_contains (accounts sample_access) u \<longleftrightarrow> u = ''ann''"
  by (auto simp: sample_access_def RegisterAccount_def new_access_def Let_def umap_contains_find umap_find_def [of "[]"])

lemma registered_login_accepted_witness:
  "\<exists>token. LoginAndIssueToken sample_hmac 0 sample_access ''ann'' ''pw'' = Inr token \<and>
    (\<forall>later. ValidateTokenAndGetUser sample_hmac later sample_access token = (if later \<le> 0 + 3600 then Some ''ann'' else None))"
  by (rule registered_login_accepted [OF sample_digests])
    (simp_all add: int64_seconds_def new_access_def umap_contains_find umap_find_def [of "[]"] quotation_mark_def sample_access_def)

text \<open>
  C18. A token that is accepted carries the signature of its header and payload under the secret, names an account that exists
  and has not expired: a token with any other signature is refused.
\<close>

theorem accepted_token_signed:
  assumes "ValidateTokenAndGetUser hmac now ac token = Some user"
  shows "\<exists>h p payload expires. token = h @ ''.'' @ p @ ''.'' @ SignTokenPayload hmac ac (h @ ''.'' @ p) \<and>
    SignTokenPayload hmac ac (h @ ''.'' @ p) \<noteq> [] \<and>
    Base64UrlDecode h = Some kJwtHeaderJson \<and> Base64UrlDecode p = Some payload \<and>
    ExtractStringClaim payload ''sub'' = Some user \<and> ExtractNumericClaim payload ''exp'' = Some expires \<and> now \<le> expires \<and>
    umap_contains (accounts ac) user"
proof -
  obtain h p q where parts: "token_parts token = Some (h, p, q)"
    using assms by (auto simp: ValidateTokenAndGetUser_def split: option.splits)
  with assms obtain payload expires where "q = SignTokenPayload hmac ac (h @ ''.'' @ p)" "q \<noteq> []"
    "Base64UrlDecode h = Some kJwtHeaderJson" "Base64UrlDecode p = Some payload"
    "ExtractStringClaim payload ''sub'' = Some user" "ExtractNumericClaim payload ''exp'' = Some expires" "now \<le> expires"
    "umap_contains (accounts ac) user"
    by (auto simp: ValidateTokenAndGetUser_def split: option.splits if_splits)
  with token_parts_Some [OF parts] show ?thesis by metis
qed

lemma accepted_token_signed_witness:
  "\<exists>h p payload expires. IssueToken sample_hmac sample_access ''ann'' 5 = h @ ''.'' @ p @ ''.'' @ SignTokenPayload sample_hmac sample_access (h @ ''.'' @ p) \<and>
    SignTokenPayload sample_hmac sample_access (h @ ''.'' @ p) \<noteq> [] \<and>
    Base64UrlDecode h = Some kJwtHeaderJson \<and> Base64UrlDecode p = Some payload \<and>
    ExtractStringClaim payload ''sub'' = Some ''ann'' \<and> ExtractNumericClaim payload ''exp'' = Some expires \<and> 3 \<le> expires \<and>
    umap_contains (accounts sample_access) ''ann''"
proof (rule accepted_token_signed)
  have "quotation_mark \<notin> set ''ann''" by (simp add: quotation_mark_def)
  then have "ExtractStringClaim (payload_json ''ann'' 5) ''sub'' = Some ''ann''" "ExtractNumericClaim (payload_json ''ann'' 5) ''exp'' = Some 5"
    using subject_claim [of "''ann''" "[]"] expiry_claim(1) [of "''ann''" 5] by simp_all
  then show "ValidateTokenAndGetUser sample_hmac 3 sample_access (IssueToken sample_hmac sample_access ''ann'' 5) = Some ''ann''"
    by (simp add: issued_token_read [OF sample_digests] sample_accounts)
qed

text \<open>
  C37. The name is not escaped in the token. Whoever registers under the name of another user followed by a quotation mark
  gets tokens that are accepted as that other user.
\<close>

theorem quoted_name_impersonates:
  assumes "returns_digests hmac" "int64_seconds (now + 3600)"
    and "quotation_mark \<notin> set victim" "umap_contains (accounts ac) victim"
    and "password \<noteq> []" "\<not> umap_contains (accounts ac) (victim @ [quotation_mark])"
    and "fst (RegisterAccount hmac new_salt io (victim @ [quotation_mark]) password g ac) = ac'"
  shows "\<exists>token. LoginAndIssueToken hmac now ac' (victim @ [quotation_mark]) password = Inr token \<and>
    ValidateTokenAndGetUser hmac now ac' token = Some victim"
proof -
  note login = RegisterAccount_then_login [OF assms(7) _ assms(5, 6), simplified]
  have "umap_contains (accounts ac') victim"
    using assms(4, 5, 6, 7) by (auto simp: RegisterAccount_def Let_def umap_contains_find)
  moreover have "ExtractStringClaim (payload_json (victim @ [quotation_mark]) (now + 3600)) ''sub'' = Some victim"
    using subject_claim [OF assms(3), of "[quotation_mark]"] by simp
  moreover have "ExtractNumericClaim (payload_json (victim @ [quotation_mark]) (now + 3600)) ''exp'' = Some (now + 3600)"
    using expiry_claim(2) [OF assms(3)] assms(2) by (simp add: int64_seconds_def)
  ultimately show ?thesis using login by (simp add: issued_token_read [OF assms(1)])
qed

lemma quoted_name_impersonates_witness:
  "\<exists>token. LoginAndIssueToken sample_hmac 0
      (fst (RegisterAccount sample_hmac ''s'' (Written, Written) (''ann'' @ [quotation_mark]) ''mine'' [] sample_access)) (''ann'' @ [quotation_mark]) ''mine'' = Inr token \<and>
    ValidateTokenAndGetUser sample_hmac 0
      (fst (RegisterAccount sample_hmac ''s'' (Written, Written) (''ann'' @ [quotation_mark]) ''mine'' [] sample_access)) token = Some ''ann''"
  by (rule quoted_name_impersonates [OF sample_digests]) (simp_all add: int64_seconds_def sample_accounts quotation_mark_def)

end
