(* ===== verification/Cluster_Network.thy ===== *)
theory Cluster_Network
  imports Cluster_Sql Tokens
begin

text \<open>
  What the entry point does over the network (\<^verbatim>\<open>src/server/entrypoint.cpp\<close>): forwarding, broadcasting, the two-phase
  commit, the copies of tables when nodes come and go, and the heartbeat. The rest of the cluster is a state \<open>'net\<close> that every
  forwarded request may change; how a node answers is an argument. A handler in the same process may throw.
\<close>

type_synonym 'net forward = "StorageNodeEndpoint \<Rightarrow> RequestEnvelope \<Rightarrow> 'net \<Rightarrow> ResponseEnvelope option Result \<times> 'net"

section \<open>Sequencing\<close>

fun net_bind :: "'a Result \<times> 'net \<Rightarrow> ('a \<Rightarrow> 'net \<Rightarrow> 'b Result \<times> 'net) \<Rightarrow> 'b Result \<times> 'net" where
  "net_bind (Inl e, net) f = (Inl e, net)"
| "net_bind (Inr a, net) f = f a net"

text \<open>A loop that is left at the first \<^verbatim>\<open>return false\<close>.\<close>

fun net_all :: "('a \<Rightarrow> 'net \<Rightarrow> bool Result \<times> 'net) \<Rightarrow> 'a list \<Rightarrow> 'net \<Rightarrow> bool Result \<times> 'net" where
  "net_all f [] net = (Inr True, net)"
| "net_all f (x # xs) net = net_bind (f x net) (\<lambda>b net'. if b then net_all f xs net' else (Inr False, net'))"

definition lift_net :: "'a Result \<Rightarrow> ('a \<Rightarrow> 'net \<Rightarrow> 'b Result \<times> 'net) \<Rightarrow> 'net \<Rightarrow> 'b Result \<times> 'net" where
  "lift_net r f net = net_bind (r, net) f"

definition accepted_response :: "ResponseEnvelope option \<Rightarrow> bool" where
  "accepted_response r = (case r of Some response \<Rightarrow> status_code response = 200 | None \<Rightarrow> False)"

definition ok_response :: "string \<Rightarrow> ResponseEnvelope" where
  "ok_response txt = \<lparr>status_code = 200, response_payload = txt\<rparr>"

definition cluster_request :: "string \<Rightarrow> string \<Rightarrow> RequestEnvelope" where
  "cluster_request client txt = \<lparr>request_client_id = client, jwt_token = [], request_payload = txt\<rparr>"

section \<open>Forwarding\<close>

text \<open>
  \<^verbatim>\<open>local_node_registry_\<close> gives the handlers of servers in the same process; \<open>peer\<close> is the connection to an address: \<open>None\<close>
  when there is none, otherwise what comes back for the bytes that are sent.
\<close>

definition ForwardToStorageNode ::
  "(string \<Rightarrow> (RequestEnvelope \<Rightarrow> 'net \<Rightarrow> ResponseEnvelope Result \<times> 'net) option) \<Rightarrow>
   (string \<Rightarrow> int \<Rightarrow> string \<Rightarrow> 'net \<Rightarrow> string option \<times> 'net) \<Rightarrow> 'net forward" where
  "ForwardToStorageNode registry peer node request net =
     (case registry (host node @ '':'' @ int_to_string (port node)) of
        Some handler \<Rightarrow> net_bind (handler request net) (\<lambda>response net'. (Inr (Some response), net'))
      | None \<Rightarrow>
          (case peer (host node) (port node) (SerializeRequest request) net of
             (None, net') \<Rightarrow> (Inr None, net')
           | (Some answer, net') \<Rightarrow>
               (Inr (case ReadLine answer of None \<Rightarrow> None | Some wire_response \<Rightarrow> DeserializeResponse wire_response), net')))"

section \<open>Broadcasting\<close>

fun broadcast_loop ::
  "'net forward \<Rightarrow> RequestEnvelope \<Rightarrow> StorageNodeEndpoint list \<Rightarrow> string list \<Rightarrow> 'net
     \<Rightarrow> (ResponseEnvelope option + string list) Result \<times> 'net" where
  "broadcast_loop fwd request [] parts net = (Inr (Inr parts), net)"
| "broadcast_loop fwd request (node # nodes) parts net =
     net_bind (fwd node request net) (\<lambda>response net'.
       case response of
         None \<Rightarrow> (Inr (Inl None), net')
       | Some r \<Rightarrow>
           if status_code r \<noteq> 200 then (Inr (Inl (Some r)), net')
           else broadcast_loop fwd request nodes (parts @ [response_payload r]) net')"

definition is_blank :: "char \<Rightarrow> bool" where
  "is_blank c \<longleftrightarrow> c = CHR '' '' \<or> c = tab \<or> c = CHR 0x0D \<or> c = newline"

definition trim :: "string \<Rightarrow> string" where
  "trim s = rev (dropWhile is_blank (rev (dropWhile is_blank s)))"

text \<open>The inside of a JSON array; the empty text where the loop goes on to the next part.\<close>

definition json_inner :: "string \<Rightarrow> string" where
  "json_inner part =
     (let trimmed = trim part
      in if length trimmed < 2 \<or> hd trimmed \<noteq> CHR ''['' \<or> last trimmed \<noteq> CHR '']'' then []
         else take (length trimmed - 2) (drop 1 trimmed))"

definition merge_json :: "string list \<Rightarrow> string" where
  "merge_json parts = ''['' @ comma_separated (filter (\<lambda>t. t \<noteq> []) (map json_inner parts)) @ '']''"

definition BroadcastToStorageNodes ::
  "'net forward \<Rightarrow> StorageNodeEndpoint list \<Rightarrow> RequestEnvelope \<Rightarrow> bool \<Rightarrow> 'net \<Rightarrow> ResponseEnvelope option Result \<times> 'net" where
  "BroadcastToStorageNodes fwd nodes request collect_json net =
     net_bind (broadcast_loop fwd request nodes [] net) (\<lambda>outcome net'.
       case outcome of
         Inl response \<Rightarrow> (Inr response, net')
       | Inr parts \<Rightarrow> (Inr (Some (ok_response (if collect_json then merge_json parts else ''broadcast ok''))), net'))"

fun ExecutePreparedRequests ::
  "'net forward \<Rightarrow> (StorageNodeEndpoint \<times> string) list \<Rightarrow> RequestEnvelope \<Rightarrow> 'net \<Rightarrow> ResponseEnvelope option Result \<times> 'net" where
  "ExecutePreparedRequests fwd [] request net = (Inr (Some (ok_response ''sharded request applied'')), net)"
| "ExecutePreparedRequests fwd ((node, sql) # prepared) request net =
     net_bind (fwd node (request\<lparr>request_payload := sql\<rparr>) net) (\<lambda>response net'.
       if accepted_response response then ExecutePreparedRequests fwd prepared request net' else (Inr None, net'))"

section \<open>Two-phase commit\<close>

definition prepare_payload :: "string \<Rightarrow> string \<Rightarrow> string" where
  "prepare_payload tx sql = ''CLUSTER PREPARE_TX '' @ tx @ '' '' @ sql"

definition commit_payload :: "string \<Rightarrow> string" where
  "commit_payload tx = ''CLUSTER COMMIT_TX '' @ tx"

definition abort_payload :: "string \<Rightarrow> string" where
  "abort_payload tx = ''CLUSTER ABORT_TX '' @ tx"

fun abort_nodes :: "'net forward \<Rightarrow> string \<Rightarrow> RequestEnvelope \<Rightarrow> StorageNodeEndpoint list \<Rightarrow> 'net \<Rightarrow> unit Result \<times> 'net" where
  "abort_nodes fwd tx request [] net = (Inr (), net)"
| "abort_nodes fwd tx request (node # nodes) net =
     net_bind (fwd node (request\<lparr>request_payload := abort_payload tx\<rparr>) net) (\<lambda>_ net'. abort_nodes fwd tx request nodes net')"

text \<open>The first loop, with the nodes that have prepared; \<^verbatim>\<open>false\<close> after the aborts.\<close>

fun prepare_nodes ::
  "'net forward \<Rightarrow> string \<Rightarrow> RequestEnvelope \<Rightarrow> StorageNodeEndpoint list \<Rightarrow> (StorageNodeEndpoint \<times> string) list \<Rightarrow> 'net
     \<Rightarrow> bool Result \<times> 'net" where
  "prepare_nodes fwd tx request prepared_nodes [] net = (Inr True, net)"
| "prepare_nodes fwd tx request prepared_nodes ((node, sql) # prepared) net =
     net_bind (fwd node (request\<lparr>request_payload := prepare_payload tx sql\<rparr>) net) (\<lambda>response net'.
       if accepted_response response then prepare_nodes fwd tx request (prepared_nodes @ [node]) prepared net'
       else net_bind (abort_nodes fwd tx request prepared_nodes net') (\<lambda>_ net''. (Inr False, net'')))"

fun commit_nodes :: "'net forward \<Rightarrow> string \<Rightarrow> RequestEnvelope \<Rightarrow> StorageNodeEndpoint list \<Rightarrow> 'net \<Rightarrow> bool Result \<times> 'net" where
  "commit_nodes fwd tx request [] net = (Inr True, net)"
| "commit_nodes fwd tx request (node # nodes) net =
     net_bind (fwd node (request\<lparr>request_payload := commit_payload tx\<rparr>) net) (\<lambda>response net'.
       if accepted_response response then commit_nodes fwd tx request nodes net' else (Inr False, net'))"

definition ExecuteTwoPhaseCommit ::
  "'net forward \<Rightarrow> string \<Rightarrow> (StorageNodeEndpoint \<times> string) list \<Rightarrow> RequestEnvelope \<Rightarrow> 'net \<Rightarrow> ResponseEnvelope option Result \<times> 'net" where
  "ExecuteTwoPhaseCommit fwd tx prepared request net =
     net_bind (prepare_nodes fwd tx request [] prepared net) (\<lambda>ready net'.
       if \<not> ready then (Inr None, net')
       else net_bind (commit_nodes fwd tx request (map fst prepared) net') (\<lambda>done net''.
              (Inr (if done then Some (ok_response ''2pc committed'') else None), net'')))"

text \<open>The overload that sends the payload of the request to every node.\<close>

definition commit_everywhere ::
  "'net forward \<Rightarrow> string \<Rightarrow> StorageNodeEndpoint list \<Rightarrow> RequestEnvelope \<Rightarrow> 'net \<Rightarrow> ResponseEnvelope option Result \<times> 'net" where
  "commit_everywhere fwd tx nodes request net =
     ExecuteTwoPhaseCommit fwd tx (map (\<lambda>node. (node, request_payload request)) nodes) request net"

section \<open>Copies\<close>

definition FetchTableDump ::
  "'net forward \<Rightarrow> StorageNodeEndpoint \<Rightarrow> string \<Rightarrow> string \<Rightarrow> 'net \<Rightarrow> Value list list option Result \<times> 'net" where
  "FetchTableDump fwd node d t net =
     net_bind (fwd node (cluster_request ''__cluster_rebalance__'' (''CLUSTER DUMP_TABLE '' @ d @ '' '' @ t)) net) (\<lambda>response net'.
       (Inr (if accepted_response response then parse_dump (response_payload (the response)) else None), net'))"

definition already_exists :: "ResponseEnvelope option \<Rightarrow> bool" where
  "already_exists r = (case r of Some response \<Rightarrow> after_first ''already exists'' (response_payload response) \<noteq> None | None \<Rightarrow> False)"

text \<open>A \<^verbatim>\<open>CREATE\<close> may find what it creates.\<close>

definition sync_create :: "'net forward \<Rightarrow> StorageNodeEndpoint \<Rightarrow> string \<Rightarrow> 'net \<Rightarrow> bool Result \<times> 'net" where
  "sync_create fwd node sql net =
     net_bind (fwd node (cluster_request ''__cluster_rebalance__'' sql) net) (\<lambda>response net'.
       (Inr (accepted_response response \<or> already_exists response), net'))"

definition sync_use :: "'net forward \<Rightarrow> StorageNodeEndpoint \<Rightarrow> string \<Rightarrow> 'net \<Rightarrow> bool Result \<times> 'net" where
  "sync_use fwd node sql net =
     net_bind (fwd node (cluster_request ''__cluster_rebalance__'' sql) net) (\<lambda>response net'. (Inr (accepted_response response), net'))"

definition sync_table :: "'net forward \<Rightarrow> StorageNodeEndpoint \<Rightarrow> string \<times> TableRuntime \<Rightarrow> 'net \<Rightarrow> bool Result \<times> 'net" where
  "sync_table fwd node t net = lift_net (RenderCreateTableSql (schema (snd t))) (sync_create fwd node) net"

definition sync_node :: "'net forward \<Rightarrow> string \<times> DatabaseRuntime \<Rightarrow> StorageNodeEndpoint \<Rightarrow> 'net \<Rightarrow> bool Result \<times> 'net" where
  "sync_node fwd db node net =
     net_bind (sync_create fwd node (''CREATE DATABASE '' @ fst db @ '';'') net) (\<lambda>created net1.
       if \<not> created then (Inr False, net1)
       else net_bind (sync_use fwd node (''USE '' @ fst db @ '';'') net1) (\<lambda>used net2.
              if \<not> used then (Inr False, net2)
              else net_all (sync_table fwd node) (tables (snd db)) net2))"

definition SyncMetadataToNodes ::
  "'net forward \<Rightarrow> RuntimeState \<Rightarrow> StorageNodeEndpoint list \<Rightarrow> 'net \<Rightarrow> bool Result \<times> 'net" where
  "SyncMetadataToNodes fwd st target_nodes net =
     net_all (\<lambda>db. net_all (sync_node fwd db) target_nodes) (databases st) net"

text \<open>The rows of the dumps without those whose rendered values were seen before.\<close>

definition fingerprint :: "Value list \<Rightarrow> string Result" where
  "fingerprint row = bind_result (mapM RenderLiteralSql row) (\<lambda>vs. Inr (concat (map (\<lambda>v. v @ ''|'') vs)))"

fun unseen_rows :: "string list \<Rightarrow> Value list list \<Rightarrow> (string list \<times> Value list list) Result" where
  "unseen_rows seen [] = Inr (seen, [])"
| "unseen_rows seen (row # rows) =
     bind_result (fingerprint row) (\<lambda>f.
       if f \<in> set seen then unseen_rows seen rows
       else bind_result (unseen_rows (f # seen) rows) (\<lambda>(seen', kept). Inr (seen', row # kept)))"

fun collect_rows ::
  "'net forward \<Rightarrow> string \<Rightarrow> string \<Rightarrow> StorageNodeEndpoint list \<Rightarrow> string list \<Rightarrow> 'net \<Rightarrow> Value list list option Result \<times> 'net" where
  "collect_rows fwd d t [] seen net = (Inr (Some []), net)"
| "collect_rows fwd d t (node # nodes) seen net =
     net_bind (FetchTableDump fwd node d t net) (\<lambda>dumped net1.
       case dumped of
         None \<Rightarrow> (Inr None, net1)
       | Some rows \<Rightarrow>
           lift_net (unseen_rows seen rows) (\<lambda>(seen', kept) net2.
             net_bind (collect_rows fwd d t nodes seen' net2) (\<lambda>rest net3. (Inr (map_option (\<lambda>more. kept @ more) rest), net3))) net1)"

definition truncate_node :: "'net forward \<Rightarrow> string \<Rightarrow> string \<Rightarrow> StorageNodeEndpoint \<Rightarrow> 'net \<Rightarrow> bool Result \<times> 'net" where
  "truncate_node fwd d t node net =
     net_bind (sync_use fwd node (''USE '' @ d @ '';'') net) (\<lambda>used net1.
       if used then sync_use fwd node (''DELETE FROM '' @ t @ '';'') net1 else (Inr False, net1))"

fun place_rows ::
  "hashes \<Rightarrow> StorageNodeEndpoint list \<Rightarrow> nat \<Rightarrow> Value list list \<Rightarrow> (nat, Value list list) umap \<Rightarrow> (nat, Value list list) umap option Result" where
  "place_rows h nodes i [] m = Inr (Some m)"
| "place_rows h nodes i (row # rows) m =
     (if i \<ge> length row then Inr None
      else bind_result (RouteValueToNode h (row ! i) nodes) (\<lambda>d. place_rows h nodes i rows (umap_push (node_index d) row m)))"

text \<open>One table: its rows are collected, spread over the targets and inserted with one two-phase commit.\<close>

definition rebalance_table ::
  "'net forward \<Rightarrow> hashes \<Rightarrow> string \<Rightarrow> StorageNodeEndpoint list \<Rightarrow> StorageNodeEndpoint list \<Rightarrow> bool \<Rightarrow> string \<Rightarrow> string \<Rightarrow> TableSchema \<Rightarrow> nat
     \<Rightarrow> 'net \<Rightarrow> bool Result \<times> 'net" where
  "rebalance_table fwd h tx source_nodes target_nodes truncate_targets d t s i net =
     net_bind (collect_rows fwd d t source_nodes [] net) (\<lambda>collected net1.
       case collected of
         None \<Rightarrow> (Inr False, net1)
       | Some all_rows \<Rightarrow>
           net_bind (if truncate_targets then net_all (truncate_node fwd d t) target_nodes net1 else (Inr True, net1)) (\<lambda>truncated net2.
             if \<not> truncated then (Inr False, net2)
             else lift_net (place_rows h target_nodes i all_rows []) (\<lambda>placed net3.
               case placed of
                 None \<Rightarrow> (Inr False, net3)
               | Some rows_by_node \<Rightarrow>
                   lift_net (render_nodes \<lparr>database_name = Some d, object_name = t\<rparr> (map col_name (columns s)) rows_by_node) (\<lambda>texts net4.
                     if texts = [] then (Inr True, net4)
                     else net_bind (ExecuteTwoPhaseCommit fwd tx (map (\<lambda>(n, sql). (target_nodes ! n, sql)) texts)
                            (cluster_request ''__cluster_rebalance__'' (''REBALANCE '' @ d @ ''.'' @ t)) net4) (\<lambda>tx_result net5.
                              (Inr (accepted_response tx_result), net5))) net3) net2))"

text \<open>The tables without a shard key are left where they are. Every two-phase commit has its own identifier.\<close>

fun rebalance_tables ::
  "'net forward \<Rightarrow> hashes \<Rightarrow> (nat \<Rightarrow> string) \<Rightarrow> nat \<Rightarrow> StorageNodeEndpoint list \<Rightarrow> StorageNodeEndpoint list \<Rightarrow> bool \<Rightarrow>
   (string \<times> string \<times> TableSchema) list \<Rightarrow> 'net \<Rightarrow> bool Result \<times> 'net" where
  "rebalance_tables fwd h guid k source_nodes target_nodes truncate_targets [] net = (Inr True, net)"
| "rebalance_tables fwd h guid k source_nodes target_nodes truncate_targets ((d, t, s) # ts) net =
     (case ResolveShardKeyColumn s of
        None \<Rightarrow> rebalance_tables fwd h guid k source_nodes target_nodes truncate_targets ts net
      | Some key \<Rightarrow>
          (case FindColumnIndex s key of
             None \<Rightarrow> rebalance_tables fwd h guid k source_nodes target_nodes truncate_targets ts net
           | Some i \<Rightarrow>
               net_bind (rebalance_table fwd h (guid k) source_nodes target_nodes truncate_targets d t s i net) (\<lambda>moved net'.
                 if moved then rebalance_tables fwd h guid (Suc k) source_nodes target_nodes truncate_targets ts net' else (Inr False, net'))))"

definition RebalanceClusterData ::
  "'net forward \<Rightarrow> hashes \<Rightarrow> (nat \<Rightarrow> string) \<Rightarrow> RuntimeState \<Rightarrow> StorageNodeEndpoint list \<Rightarrow> StorageNodeEndpoint list \<Rightarrow> bool
     \<Rightarrow> 'net \<Rightarrow> bool Result \<times> 'net" where
  "RebalanceClusterData fwd h guid st source_nodes target_nodes truncate_targets net =
     (if source_nodes = [] \<or> target_nodes = [] then (Inr True, net)
      else net_bind (SyncMetadataToNodes fwd st target_nodes net) (\<lambda>synced net'.
             if \<not> synced then (Inr False, net')
             else rebalance_tables fwd h guid 0 source_nodes target_nodes truncate_targets
                    (concat (map (\<lambda>(d, db). map (\<lambda>(t, rt). (d, t, schema rt)) (tables db)) (databases st))) net'))"

section \<open>Heartbeat\<close>

fun ping_nodes :: "'net forward \<Rightarrow> StorageNodeEndpoint list \<Rightarrow> 'net \<Rightarrow> bool list Result \<times> 'net" where
  "ping_nodes fwd [] net = (Inr [], net)"
| "ping_nodes fwd (node # nodes) net =
     net_bind (fwd node (cluster_request ''__cluster_heartbeat__'' ''CLUSTER PING'') net) (\<lambda>response net1.
       net_bind (ping_nodes fwd nodes net1) (\<lambda>healthy net2. (Inr ((response = Some (ok_response ''pong'')) # healthy), net2)))"

text \<open>Whether the fork succeeds is an argument.\<close>

definition RestartManagedNode :: "bool \<Rightarrow> StorageNodeEndpoint \<Rightarrow> bool" where
  "RestartManagedNode forked node \<longleftrightarrow> managed node \<and> (host node = ''127.0.0.1'' \<or> host node = ''localhost'') \<and> forked"

text \<open>One node in the second loop: the node and whether it was restarted.\<close>

definition heartbeat_node :: "bool \<Rightarrow> bool \<Rightarrow> StorageNodeEndpoint \<Rightarrow> StorageNodeEndpoint \<times> bool" where
  "heartbeat_node forked healthy node =
     (if healthy then (node\<lparr>fail_count := 0\<rparr>, False)
      else let failed = node\<lparr>fail_count := fail_count node + 1\<rparr>
           in if managed failed \<and> sint (fail_count failed) \<ge> 3 \<and> RestartManagedNode forked failed then (failed\<lparr>fail_count := 0\<rparr>, True)
              else (failed, False))"

text \<open>The second loop; every node has been pinged.\<close>

fun heartbeat_nodes :: "(nat \<Rightarrow> bool) \<Rightarrow> nat \<Rightarrow> bool list \<Rightarrow> StorageNodeEndpoint list \<Rightarrow> StorageNodeEndpoint list \<times> bool" where
  "heartbeat_nodes forks i (healthy # bs) (node # nodes) =
     (case heartbeat_node (forks i) healthy node of
        (node', restarted) \<Rightarrow> (case heartbeat_nodes forks (Suc i) bs nodes of (nodes', changed) \<Rightarrow> (node' # nodes', restarted \<or> changed)))"
| "heartbeat_nodes forks i _ nodes = (nodes, False)"

definition RunHeartbeatCycle ::
  "'net forward \<Rightarrow> (nat \<Rightarrow> bool) \<Rightarrow> StorageNodeEndpoint list \<Rightarrow> 'net \<Rightarrow> (StorageNodeEndpoint list \<times> bool) Result \<times> 'net" where
  "RunHeartbeatCycle fwd forks nodes net =
     net_bind (ping_nodes fwd nodes net) (\<lambda>healthy net'. (Inr (heartbeat_nodes forks 0 healthy nodes), net'))"

end
