(* ===== verification/Entrypoint.thy ===== *)
theory Entrypoint
  imports Cluster_Network Dbms_Engine Job_Queue
begin

text \<open>
  The entry point itself (\<^verbatim>\<open>src/server/entrypoint.hpp\<close>, \<^verbatim>\<open>src/server/entrypoint.cpp\<close>): its state, the four groups of
  commands and \<^verbatim>\<open>HandleRequest\<close>. Time, random identifiers, the disk and the network are arguments, and so is the text of the
  telemetry, whose numbers are floating point. The access log is not part of the state.
\<close>

section \<open>State\<close>

record PendingClusterTransaction =
  pending_sql :: string
  pending_client_id :: string
  pending_database :: string

record EntrypointServer =
  dbms :: DbmsEngine
  job_queue :: JobQueue
  access_controller :: AccessController
  sessions :: "(string, SessionContext) umap"
  storage_nodes :: "StorageNodeEndpoint list"
  pending_cluster_transactions :: "(string, PendingClusterTransaction) umap"

text \<open>What one request meets: the clock, the random source, the disk and the network.\<close>

record 'net Platform =
  matcher :: regex
  engine_clock :: clock
  engine_disk :: "nat \<Rightarrow> disk"
  keyed_hash :: hmac
  hash_functions :: hashes
  now_unix :: int
  random_salt :: string
  access_disk :: persist_outcome
  guid :: "nat \<Rightarrow> string"
  telemetry_local :: string
  telemetry_snapshot :: "ResponseEnvelope option list \<Rightarrow> string"
  network :: "'net forward"

type_synonym 'net server_state = "EntrypointServer \<times> 'net"

text \<open>The answer of a group of commands: \<open>None\<close> when the request is not one of them.\<close>

type_synonym 'net answer = "ResponseEnvelope option Result \<times> 'net server_state"

section \<open>Texts\<close>

function SplitWhitespace :: "string \<Rightarrow> string list" where
  "SplitWhitespace s =
     (let r = dropWhile is_space s
      in if r = [] then [] else takeWhile (\<lambda>c. \<not> is_space c) r # SplitWhitespace (dropWhile (\<lambda>c. \<not> is_space c) r))"
  by pat_completeness auto
termination
proof (relation "measure length")
  fix s r :: string
  assume r: "r = dropWhile is_space s" "r \<noteq> []"
  then obtain c u where "r = c # u" "\<not> is_space c" by (metis hd_dropWhile list.exhaust_sel)
  then have "length (dropWhile (\<lambda>c. \<not> is_space c) r) \<le> length u" by (simp add: length_dropWhile_le)
  also have "length u < length r" using \<open>r = c # u\<close> by simp
  also have "length r \<le> length s" using r(1) by (simp add: length_dropWhile_le)
  finally show "(dropWhile (\<lambda>c. \<not> is_space c) r, s) \<in> measure length" by simp
qed simp

declare SplitWhitespace.simps [simp del]

definition ParseEndpoint :: "string \<Rightarrow> (string \<times> int) option" where
  "ParseEndpoint endpoint =
     (let port_text = rev (takeWhile (\<lambda>c. c \<noteq> CHR '':'') (rev endpoint));
          host_text = rev (drop 1 (dropWhile (\<lambda>c. c \<noteq> CHR '':'') (rev endpoint)))
      in if CHR '':'' \<notin> set endpoint \<or> host_text = [] \<or> port_text = [] then None
         else case stoi port_text of
                None \<Rightarrow> None
              | Some (n, consumed) \<Rightarrow> if n \<le> 0 \<or> n > 65535 then None else Some (host_text, n))"

definition begins_with :: "string \<Rightarrow> string \<Rightarrow> bool" where
  "begins_with prefix s \<longleftrightarrow> take (length prefix) s = prefix"

definition contract :: "int \<Rightarrow> string \<Rightarrow> string \<Rightarrow> ResponseEnvelope" where
  "contract n kind m =
     \<lparr>status_code = n, response_payload = ''type='' @ kind @ '' message='' @ m @ '' sql='' @ [quotation_mark, quotation_mark]\<rparr>"

definition validation_error :: "string \<Rightarrow> ResponseEnvelope" where
  "validation_error m = contract 400 ''VALIDATION_ERROR code=3'' m"

definition authorization_error :: "int \<Rightarrow> string \<Rightarrow> ResponseEnvelope" where
  "authorization_error n m = contract n ''AUTHORIZATION_ERROR code=5'' m"

definition not_found :: "string \<Rightarrow> ResponseEnvelope" where
  "not_found m = contract 404 ''NOT_FOUND code=7'' m"

definition network_error :: "string \<Rightarrow> ResponseEnvelope" where
  "network_error m = contract 502 ''NETWORK_ERROR code=6'' m"

section \<open>Sessions and statements\<close>

definition new_session :: "string \<Rightarrow> SessionContext" where
  "new_session client = \<lparr>client_id = client, user_id = None, current_database = []\<rparr>"

definition GetOrCreateSession :: "string \<Rightarrow> EntrypointServer \<Rightarrow> SessionContext \<times> EntrypointServer" where
  "GetOrCreateSession client sv =
     (case umap_find (sessions sv) client of
        Some session \<Rightarrow> (session, sv)
      | None \<Rightarrow> (new_session client, sv\<lparr>sessions := umap_emplace client (new_session client) (sessions sv)\<rparr>))"

text \<open>Executing a statement in a session that is held by reference.\<close>

definition execute_in :: "'net Platform \<Rightarrow> string \<Rightarrow> SessionContext \<Rightarrow> string \<Rightarrow> EntrypointServer \<Rightarrow> QueryResult Result \<times> EntrypointServer" where
  "execute_in p client session sql sv =
     (case ExecuteSql (matcher p) (engine_clock p) (engine_disk p) sql (dbms sv, session) of
        ((db, session'), r) \<Rightarrow> (r, sv\<lparr>dbms := db, sessions := umap_assign client session' (sessions sv)\<rparr>))"

text \<open>The answer for the result of a statement; an exception leaves the handler.\<close>

definition statement_response :: "bool \<Rightarrow> string \<Rightarrow> QueryResult Result \<Rightarrow> ResponseEnvelope Result" where
  "statement_response is_select sql r =
     (case r of
        Inl (Err e) \<Rightarrow> Inr \<lparr>status_code = 400, response_payload = FormatErrorContract e sql\<rparr>
      | Inl (Thrown x) \<Rightarrow> Inl (Thrown x)
      | Inr q \<Rightarrow> if is_select then bind_result (QueryResultToJson q) (\<lambda>json. Inr (ok_response json)) else Inr (ok_response (result_message q)))"

text \<open>The function that the constructor gives to the job queue.\<close>

definition async_execute :: "'net Platform \<Rightarrow> string \<Rightarrow> EntrypointServer \<Rightarrow> ResponseEnvelope Result \<times> EntrypointServer" where
  "async_execute p sql sv =
     (case Parse sql of
        Inl (Err e) \<Rightarrow> (Inr \<lparr>status_code = 400, response_payload = FormatErrorContract e sql\<rparr>, sv)
      | Inl (Thrown x) \<Rightarrow> (Inl (Thrown x), sv)
      | Inr stmt \<Rightarrow>
          (case GetOrCreateSession ''__async_worker__'' sv of
             (session, sv1) \<Rightarrow>
               (case execute_in p ''__async_worker__'' session sql sv1 of
                  (r, sv2) \<Rightarrow> (statement_response (IsSelectStatement stmt) sql r, sv2))))"

section \<open>Cluster commands\<close>

definition cluster_prepare :: "RequestEnvelope \<Rightarrow> string \<Rightarrow> EntrypointServer \<Rightarrow> ResponseEnvelope Result \<times> EntrypointServer" where
  "cluster_prepare request rest sv =
     (let tx = takeWhile (\<lambda>c. c \<noteq> CHR '' '') rest; sql = drop 1 (dropWhile (\<lambda>c. c \<noteq> CHR '' '') rest)
      in if CHR '' '' \<notin> set rest \<or> tx = [] \<or> sql = [] then (Inr (validation_error ''missing tx id/sql''), sv)
         else case Parse sql of
                Inl (Err e) \<Rightarrow> (Inr \<lparr>status_code = 400, response_payload = FormatErrorContract e sql\<rparr>, sv)
              | Inl (Thrown x) \<Rightarrow> (Inl (Thrown x), sv)
              | Inr stmt \<Rightarrow>
                  if \<not> cluster_IsMutatingStatement stmt then (Inr (validation_error ''PREPARE_TX requires mutating sql''), sv)
                  else case GetOrCreateSession (request_client_id request) sv of
                         (session, sv1) \<Rightarrow>
                           (Inr (ok_response ''prepared''),
                            sv1\<lparr>pending_cluster_transactions := umap_assign tx
                              \<lparr>pending_sql = sql, pending_client_id = request_client_id request,
                               pending_database = current_database session\<rparr> (pending_cluster_transactions sv1)\<rparr>))"

definition cluster_commit :: "'net Platform \<Rightarrow> string \<Rightarrow> EntrypointServer \<Rightarrow> ResponseEnvelope Result \<times> EntrypointServer" where
  "cluster_commit p tx sv =
     (if tx = [] then (Inr (validation_error ''missing tx id''), sv)
      else case umap_find (pending_cluster_transactions sv) tx of
             None \<Rightarrow> (Inr (not_found ''unknown tx id''), sv)
           | Some pending \<Rightarrow>
               (case GetOrCreateSession (pending_client_id pending)
                       (sv\<lparr>pending_cluster_transactions := umap_erase tx (pending_cluster_transactions sv)\<rparr>) of
                  (session, sv1) \<Rightarrow>
                    (case execute_in p (pending_client_id pending) (session\<lparr>current_database := pending_database pending\<rparr>)
                            (pending_sql pending) sv1 of
                       (r, sv2) \<Rightarrow> (statement_response False (pending_sql pending) r, sv2))))"

definition cluster_abort :: "string \<Rightarrow> EntrypointServer \<Rightarrow> ResponseEnvelope Result \<times> EntrypointServer" where
  "cluster_abort tx sv =
     (if tx = [] then (Inr (validation_error ''missing tx id''), sv)
      else (Inr (ok_response ''aborted''), sv\<lparr>pending_cluster_transactions := umap_erase tx (pending_cluster_transactions sv)\<rparr>))"

text \<open>The dump runs in a session of its own, which is dropped afterwards.\<close>

definition cluster_dump :: "'net Platform \<Rightarrow> string \<Rightarrow> string \<Rightarrow> EntrypointServer \<Rightarrow> ResponseEnvelope Result \<times> EntrypointServer" where
  "cluster_dump p d t sv =
     (let run = ExecuteSql (matcher p) (engine_clock p) (engine_disk p);
          failed = (\<lambda>e txt. case e of Err x \<Rightarrow> Inr \<lparr>status_code = 400, response_payload = FormatErrorContract x txt\<rparr> | Thrown x \<Rightarrow> Inl (Thrown x))
      in case run (''USE '' @ d @ '';'') (dbms sv, new_session ''__cluster_dump__'') of
           ((db1, session), Inl e) \<Rightarrow> (failed e d, sv\<lparr>dbms := db1\<rparr>)
         | ((db1, session), Inr _) \<Rightarrow>
             (case run (''SELECT * FROM '' @ t @ '';'') (db1, session) of
                ((db2, _), Inl e) \<Rightarrow> (failed e t, sv\<lparr>dbms := db2\<rparr>)
              | ((db2, _), Inr r) \<Rightarrow>
                  (bind_result (dump_rows (result_rows r)) (\<lambda>txt. Inr (ok_response txt)), sv\<lparr>dbms := db2\<rparr>)))"

fun list_nodes :: "nat \<Rightarrow> StorageNodeEndpoint list \<Rightarrow> string" where
  "list_nodes i [] = []"
| "list_nodes i (node # nodes) =
     '' ['' @ nat_to_string i @ ''] '' @ host node @ '':'' @ int_to_string (port node) @
     '' managed='' @ (if managed node then ''true'' else ''false'') @ '' fail_count='' @ int_to_string (sint (fail_count node)) @
     list_nodes (Suc i) nodes"

definition same_endpoint :: "string \<times> int \<Rightarrow> StorageNodeEndpoint \<Rightarrow> bool" where
  "same_endpoint e node \<longleftrightarrow> host node = fst e \<and> port node = snd e"

definition runtime_of :: "EntrypointServer \<Rightarrow> RuntimeState" where
  "runtime_of sv = runtime (engine (dbms sv))"

definition cluster_add_node :: "'net Platform \<Rightarrow> string \<times> int \<Rightarrow> bool \<Rightarrow> 'net server_state \<Rightarrow> ResponseEnvelope Result \<times> 'net server_state" where
  "cluster_add_node p e is_managed s =
     (case s of (sv, net) \<Rightarrow>
        (let node = \<lparr>host = fst e, port = snd e, managed = is_managed, fail_count = 0\<rparr>;
             added = (\<not> list_ex (same_endpoint e) (storage_nodes sv));
             sv1 = (if added then sv\<lparr>storage_nodes := storage_nodes sv @ [node]\<rparr> else sv)
         in if added \<and> storage_nodes sv \<noteq> []
            then (case SyncMetadataToNodes (network p) (runtime_of sv) [node] net of
                    (Inl x, net') \<Rightarrow> (Inl x, (sv1, net'))
                  | (Inr _, net') \<Rightarrow> (Inr (ok_response ''node added''), (sv1, net')))
            else (Inr (ok_response ''node added''), (sv1, net))))"

definition cluster_remove_node :: "'net Platform \<Rightarrow> string \<times> int \<Rightarrow> 'net server_state \<Rightarrow> ResponseEnvelope Result \<times> 'net server_state" where
  "cluster_remove_node p e s =
     (case s of (sv, net) \<Rightarrow>
        (let removed = list_ex (same_endpoint e) (storage_nodes sv);
             after = takeWhile (\<lambda>n. \<not> same_endpoint e n) (storage_nodes sv) @ drop 1 (dropWhile (\<lambda>n. \<not> same_endpoint e n) (storage_nodes sv));
             sv1 = sv\<lparr>storage_nodes := after\<rparr>
         in if removed \<and> after \<noteq> []
            then (case RebalanceClusterData (network p) (hash_functions p) (guid p) (runtime_of sv)
                         (filter (same_endpoint e) (storage_nodes sv)) after False net of
                    (Inl x, net') \<Rightarrow> (Inl x, (sv1, net'))
                  | (Inr b, net') \<Rightarrow> (Inr (if b then ok_response ''node removed'' else network_error ''rebalance after remove failed''), (sv1, net')))
            else (Inr (ok_response ''node removed''), (sv1, net))))"

text \<open>A handler that does not use the network.\<close>

definition local_answer :: "'net \<Rightarrow> ResponseEnvelope Result \<times> EntrypointServer \<Rightarrow> 'net answer" where
  "local_answer net r = (case r of (response, sv) \<Rightarrow> (bind_result response (\<lambda>x. Inr (Some x)), (sv, net)))"

definition answer_of :: "ResponseEnvelope Result \<times> 'net server_state \<Rightarrow> 'net answer" where
  "answer_of r = (case r of (response, s) \<Rightarrow> (bind_result response (\<lambda>x. Inr (Some x)), s))"

definition cluster_words :: "'net Platform \<Rightarrow> string list \<Rightarrow> 'net server_state \<Rightarrow> 'net answer" where
  "cluster_words p words s =
     (case s of (sv, net) \<Rightarrow>
        (let command = ToUpper (words ! 1); reply = (\<lambda>r. (Inr (Some r), s)) in
         if command = ''PING'' then reply (ok_response ''pong'')
         else if command = ''DUMP_TABLE'' \<and> length words \<ge> 4 then local_answer net (cluster_dump p (words ! 2) (words ! 3) sv)
         else if command = ''LIST_NODES''
         then reply (ok_response (''nodes='' @ nat_to_string (length (storage_nodes sv)) @ list_nodes 0 (storage_nodes sv)))
         else if (command = ''ADD_NODE'' \<or> command = ''REMOVE_NODE'') \<and> length words \<ge> 3
         then (case ParseEndpoint (words ! 2) of
                 None \<Rightarrow> reply (validation_error ''invalid endpoint'')
               | Some e \<Rightarrow>
                   if command = ''ADD_NODE''
                   then answer_of (cluster_add_node p e (length words \<ge> 4 \<and> ToUpper (words ! 3) = ''MANAGED'') s)
                   else answer_of (cluster_remove_node p e s))
         else reply (validation_error ''invalid CLUSTER command'')))"

definition ParseClusterCommand :: "'net Platform \<Rightarrow> RequestEnvelope \<Rightarrow> 'net server_state \<Rightarrow> 'net answer" where
  "ParseClusterCommand p request s =
     (case s of (sv, net) \<Rightarrow>
        (let payload = request_payload request;
             prepare_prefix = ''CLUSTER PREPARE_TX ''; commit_prefix = ''CLUSTER COMMIT_TX ''; abort_prefix = ''CLUSTER ABORT_TX ''
         in if begins_with prepare_prefix payload then local_answer net (cluster_prepare request (drop (length prepare_prefix) payload) sv)
            else if begins_with commit_prefix payload then local_answer net (cluster_commit p (drop (length commit_prefix) payload) sv)
            else if begins_with abort_prefix payload then local_answer net (cluster_abort (drop (length abort_prefix) payload) sv)
            else let words = SplitWhitespace payload
                 in if length words < 2 \<or> ToUpper (words ! 0) \<noteq> ''CLUSTER'' then (Inr None, s) else cluster_words p words s))"

section \<open>Asynchronous requests and telemetry\<close>

definition job_line :: "JobRecord \<Rightarrow> string" where
  "job_line job = ''job_id='' @ job_id job @ '' status='' @ status job"

definition ParseAsyncCommand :: "'net Platform \<Rightarrow> RequestEnvelope \<Rightarrow> 'net server_state \<Rightarrow> 'net answer" where
  "ParseAsyncCommand p request s =
     (case s of (sv, net) \<Rightarrow>
        (let words = SplitWhitespace (request_payload request); reply = (\<lambda>r. (Inr (Some r), s)) in
         if length words < 2 \<or> ToUpper (words ! 0) \<noteq> ''ASYNC'' then (Inr None, s)
         else let command = ToUpper (words ! 1) in
           if command = ''SUBMIT''
           then if length words < 3 \<or> length (request_payload request) \<le> length ''ASYNC SUBMIT ''
                then reply (validation_error ''missing sql for ASYNC SUBMIT'')
                else let job = \<lparr>job_id = guid p 0, job_sql = drop (length ''ASYNC SUBMIT '') (request_payload request),
                                status = ''QUEUED'', result_payload = [], result_code = 0\<rparr>
                     in (Inr (Some \<lparr>status_code = 202, response_payload = ''job_id='' @ job_id job\<rparr>),
                         (sv\<lparr>job_queue := Enqueue job (job_queue sv)\<rparr>, net))
           else if (command = ''STATUS'' \<or> command = ''RESULT'') \<and> length words \<ge> 3
           then (case FindJob (job_queue sv) (words ! 2) of
                   None \<Rightarrow> reply (not_found ''job not found'')
                 | Some job \<Rightarrow>
                     if command = ''STATUS'' then reply (ok_response (job_line job))
                     else if status job = ''QUEUED'' \<or> status job = ''RUNNING''
                     then reply \<lparr>status_code = 202, response_payload = job_line job\<rparr>
                     else reply \<lparr>status_code = result_code job, response_payload = result_payload job\<rparr>)
           else reply (validation_error ''invalid ASYNC command'')))"

fun poll_nodes :: "'net forward \<Rightarrow> StorageNodeEndpoint list \<Rightarrow> 'net \<Rightarrow> ResponseEnvelope option list Result \<times> 'net" where
  "poll_nodes fwd [] net = (Inr [], net)"
| "poll_nodes fwd (node # nodes) net =
     net_bind (fwd node (cluster_request ''__telemetry__'' ''TELEMETRY LOCAL'') net) (\<lambda>response net1.
       net_bind (poll_nodes fwd nodes net1) (\<lambda>responses net2. (Inr (response # responses), net2)))"

definition ParseTelemetryCommand :: "'net Platform \<Rightarrow> string \<Rightarrow> 'net server_state \<Rightarrow> 'net answer" where
  "ParseTelemetryCommand p payload s =
     (case s of (sv, net) \<Rightarrow>
        (let words = SplitWhitespace payload in
         if length words < 2 \<or> ToUpper (words ! 0) \<noteq> ''TELEMETRY'' then (Inr None, s)
         else let command = ToUpper (words ! 1) in
           if command = ''LOCAL'' then (Inr (Some (ok_response (telemetry_local p))), s)
           else if command \<noteq> ''SNAPSHOT'' then (Inr (Some (validation_error ''invalid TELEMETRY command'')), s)
           else case poll_nodes (network p) (storage_nodes sv) net of
                  (Inl x, net') \<Rightarrow> (Inl x, (sv, net'))
                | (Inr responses, net') \<Rightarrow> (Inr (Some (ok_response (telemetry_snapshot p responses))), (sv, net'))))"

section \<open>Accounts\<close>

definition request_user :: "'net Platform \<Rightarrow> RequestEnvelope \<Rightarrow> EntrypointServer \<Rightarrow> string option" where
  "request_user p request sv = ValidateTokenAndGetUser (keyed_hash p) (now_unix p) (access_controller sv) (jwt_token request)"

text \<open>The lambda \<^verbatim>\<open>require_admin\<close>: the refusal, if any.\<close>

definition require_admin :: "'net Platform \<Rightarrow> RequestEnvelope \<Rightarrow> EntrypointServer \<Rightarrow> ResponseEnvelope option" where
  "require_admin p request sv =
     (if \<not> HasAccounts (access_controller sv) then Some (authorization_error 403 ''admin required'')
      else case request_user p request sv of
             None \<Rightarrow> Some (authorization_error 401 ''invalid or expired jwt token'')
           | Some user \<Rightarrow>
               if \<not> IsAdmin (access_controller sv) user then Some (authorization_error 403 ''admin required'') else None)"

text \<open>The result of an operation on the accounts, with the text of its success.\<close>

definition access_reply :: "string \<Rightarrow> EntrypointServer \<Rightarrow> AccessController \<times> string option \<Rightarrow> ResponseEnvelope \<times> EntrypointServer" where
  "access_reply success sv r =
     (case r of (ac, error) \<Rightarrow>
        ((case error of None \<Rightarrow> ok_response success | Some m \<Rightarrow> validation_error m), sv\<lparr>access_controller := ac\<rparr>))"

definition auth_register :: "'net Platform \<Rightarrow> string list \<Rightarrow> EntrypointServer \<Rightarrow> ResponseEnvelope \<times> EntrypointServer" where
  "auth_register p words sv =
     (let group_name = (if length words \<ge> 5 then words ! 4 else if HasAccounts (access_controller sv) then ''user'' else ''admin'')
      in access_reply ''registered'' sv
           (RegisterAccount (keyed_hash p) (random_salt p) (access_disk p) (words ! 2) (words ! 3) group_name (access_controller sv)))"

definition auth_login :: "'net Platform \<Rightarrow> string list \<Rightarrow> EntrypointServer \<Rightarrow> ResponseEnvelope" where
  "auth_login p words sv =
     (case LoginAndIssueToken (keyed_hash p) (now_unix p) (access_controller sv) (words ! 2) (words ! 3) of
        Inl m \<Rightarrow> authorization_error 401 m
      | Inr t \<Rightarrow> ok_response (''token='' @ t))"

text \<open>The two operations of a \<^verbatim>\<open>GRANT\<close> and \<^verbatim>\<open>REVOKE\<close> command on one permission.\<close>

definition auth_grant ::
  "string \<Rightarrow> string \<Rightarrow> (Permission \<Rightarrow> AccessController \<Rightarrow> AccessController \<times> string option) \<Rightarrow> EntrypointServer \<Rightarrow> ResponseEnvelope \<times> EntrypointServer" where
  "auth_grant permission_name success operation sv =
     (case ParsePermissionName permission_name of
        None \<Rightarrow> (validation_error ''invalid permission'', sv)
      | Some permission \<Rightarrow> access_reply success sv (operation permission (access_controller sv)))"

definition auth_whoami :: "'net Platform \<Rightarrow> RequestEnvelope \<Rightarrow> EntrypointServer \<Rightarrow> ResponseEnvelope" where
  "auth_whoami p request sv =
     (if \<not> HasAccounts (access_controller sv) then ok_response ''anonymous''
      else case request_user p request sv of
             None \<Rightarrow> authorization_error 401 ''invalid or expired jwt token''
           | Some user \<Rightarrow>
               ok_response (''user='' @ user @ '' groups='' @
                 concat (map2 (\<lambda>i g. (if i \<noteq> 0 then '','' else []) @ g) [0..<length (UserGroups (access_controller sv) user)]
                   (UserGroups (access_controller sv) user))))"

text \<open>The operations that only an administrator may call.\<close>

definition auth_admin :: "'net Platform \<Rightarrow> string \<Rightarrow> string list \<Rightarrow> (EntrypointServer \<Rightarrow> ResponseEnvelope \<times> EntrypointServer) option" where
  "auth_admin p command words =
     (let io = access_disk p in
      if command = ''CREATE_GROUP'' \<and> length words \<ge> 3
      then Some (\<lambda>sv. access_reply ''group created'' sv (CreateGroup io (words ! 2) (access_controller sv)))
      else if command = ''ADD_USER_GROUP'' \<and> length words \<ge> 4
      then Some (\<lambda>sv. access_reply ''user added to group'' sv (AddUserToGroup io (words ! 2) (words ! 3) (access_controller sv)))
      else if (command = ''GRANT_DEFAULT'' \<or> command = ''REVOKE_DEFAULT'') \<and> length words \<ge> 4
      then Some (auth_grant (words ! 3) ''default grant updated''
             (if command = ''GRANT_DEFAULT'' then GrantDefault io (words ! 2) else RevokeDefault io (words ! 2)))
      else if (command = ''GRANT_GROUP'' \<or> command = ''REVOKE_GROUP'') \<and> length words \<ge> 5
      then Some (auth_grant (words ! 4) ''group grant updated''
             (if command = ''GRANT_GROUP'' then GrantGroup io (words ! 2) (words ! 3) else RevokeGroup io (words ! 2) (words ! 3)))
      else if (command = ''GRANT_USER'' \<or> command = ''REVOKE_USER'') \<and> length words \<ge> 5
      then Some (auth_grant (words ! 4) ''user grant updated''
             (if command = ''GRANT_USER'' then GrantUser io (words ! 2) (words ! 3) else RevokeUser io (words ! 2) (words ! 3)))
      else None)"

definition ParseAuthCommand :: "'net Platform \<Rightarrow> RequestEnvelope \<Rightarrow> EntrypointServer \<Rightarrow> ResponseEnvelope option \<times> EntrypointServer" where
  "ParseAuthCommand p request sv =
     (let words = SplitWhitespace (request_payload request) in
      if length words < 2 \<or> ToUpper (words ! 0) \<noteq> ''AUTH'' then (None, sv)
      else let command = ToUpper (words ! 1) in
        if command = ''REGISTER'' \<and> length words \<ge> 4 then (case auth_register p words sv of (r, sv') \<Rightarrow> (Some r, sv'))
        else if command = ''LOGIN'' \<and> length words \<ge> 4 then (Some (auth_login p words sv), sv)
        else case auth_admin p command words of
               Some operation \<Rightarrow>
                 (case require_admin p request sv of
                    Some refusal \<Rightarrow> (Some refusal, sv)
                  | None \<Rightarrow> (case operation sv of (r, sv') \<Rightarrow> (Some r, sv')))
             | None \<Rightarrow>
                 if command = ''WHOAMI'' then (Some (auth_whoami p request sv), sv)
                 else (Some (validation_error ''invalid AUTH command''), sv))"

section \<open>Requests\<close>

text \<open>The check before a statement: the refusal, or the session with the user.\<close>

definition authorize_statement ::
  "'net Platform \<Rightarrow> RequestEnvelope \<Rightarrow> Statement \<Rightarrow> SessionContext \<Rightarrow> EntrypointServer \<Rightarrow> ResponseEnvelope option \<times> SessionContext" where
  "authorize_statement p request stmt session sv =
     (if \<not> HasAccounts (access_controller sv) then (None, session)
      else case request_user p request sv of
             None \<Rightarrow> (Some (authorization_error 401 ''invalid or expired jwt token''), session)
           | Some user \<Rightarrow>
               (let session' = session\<lparr>user_id := Some user\<rparr> in
                case RequiredPermission stmt of
                  None \<Rightarrow> (None, session')
                | Some permission \<Rightarrow>
                    if Authorize (access_controller sv) user (ResolveAuthorizationDatabaseName stmt session') permission
                    then (None, session')
                    else (Some (authorization_error 403 ''permission denied''), session')))"

text \<open>An answer from the cluster, or the error when there is none.\<close>

definition cluster_reply ::
  "string \<Rightarrow> (ResponseEnvelope \<Rightarrow> ResponseEnvelope Result) \<Rightarrow> EntrypointServer \<Rightarrow> ResponseEnvelope option Result \<times> 'net
     \<Rightarrow> ResponseEnvelope Result \<times> 'net server_state" where
  "cluster_reply failure finish_with sv r =
     (case r of
        (Inl x, net) \<Rightarrow> (Inl x, (sv, net))
      | (Inr None, net) \<Rightarrow> (Inr (network_error failure), (sv, net))
      | (Inr (Some response), net) \<Rightarrow> (finish_with response, (sv, net)))"

text \<open>A statement on the catalog runs here first and then on every node.\<close>

definition metadata_statement ::
  "'net Platform \<Rightarrow> RequestEnvelope \<Rightarrow> Statement \<Rightarrow> SessionContext \<Rightarrow> 'net server_state \<Rightarrow> ResponseEnvelope Result \<times> 'net server_state" where
  "metadata_statement p request stmt session s =
     (case s of (sv, net) \<Rightarrow>
        (let sql = request_payload request; nodes = storage_nodes sv in
         case execute_in p (request_client_id request) session sql sv of
           (Inl e, sv1) \<Rightarrow> (statement_response False sql (Inl e), (sv1, net))
         | (Inr q, sv1) \<Rightarrow>
             (let answer = statement_response (IsSelectStatement stmt) sql (Inr q) in
              if \<not> ShouldBroadcast stmt then (answer, (sv1, net))
              else cluster_reply ''cluster metadata broadcast failed'' (\<lambda>_. answer) sv1
                     (if cluster_IsMutatingStatement stmt then commit_everywhere (network p) (guid p 0) nodes request net
                      else BroadcastToStorageNodes (network p) nodes request False net))))"

definition sharded_insert ::
  "'net Platform \<Rightarrow> RequestEnvelope \<Rightarrow> InsertStatement \<Rightarrow> SessionContext \<Rightarrow> 'net server_state \<Rightarrow> ResponseEnvelope Result \<times> 'net server_state" where
  "sharded_insert p request ins session s =
     (case s of (sv, net) \<Rightarrow>
        (case SplitInsertByShard (hash_functions p) (runtime_of sv) ins (storage_nodes sv) session of
           Inl x \<Rightarrow> (Inl x, s)
         | Inr None \<Rightarrow> (Inr (network_error ''unable to shard insert''), s)
         | Inr (Some routed) \<Rightarrow>
             cluster_reply ''cluster sharded insert failed'' Inr sv
               (ExecuteTwoPhaseCommit (network p) (guid p 0) (map (\<lambda>(n, sql). (storage_nodes sv ! n, sql)) routed) request net)))"

text \<open>\<^verbatim>\<open>merged_json\<close> after a broadcast: it is only assigned when every node has answered with 200.\<close>

definition merged_json :: "ResponseEnvelope \<Rightarrow> string" where
  "merged_json r = (if status_code r = 200 then response_payload r else [])"

definition routed_statement ::
  "'net Platform \<Rightarrow> RequestEnvelope \<Rightarrow> Statement \<Rightarrow> SessionContext \<Rightarrow> 'net server_state \<Rightarrow> ResponseEnvelope Result \<times> 'net server_state" where
  "routed_statement p request stmt session s =
     (case s of (sv, net) \<Rightarrow>
        (let nodes = storage_nodes sv in
         case RouteNodeIndex (hash_functions p) (runtime_of sv) stmt nodes session of
           Inl x \<Rightarrow> (Inl x, s)
         | Inr None \<Rightarrow>
             if IsSelectStatement stmt
             then cluster_reply ''cluster fan-out failed'' (\<lambda>r. Inr (ok_response (merged_json r))) sv
                    (BroadcastToStorageNodes (network p) nodes request True net)
             else (Inr (network_error ''unable to route request''), s)
         | Inr (Some n) \<Rightarrow> cluster_reply ''target storage node unavailable'' Inr sv (network p (nodes ! n) request net)))"

definition cluster_statement ::
  "'net Platform \<Rightarrow> RequestEnvelope \<Rightarrow> Statement \<Rightarrow> SessionContext \<Rightarrow> 'net server_state \<Rightarrow> ResponseEnvelope Result \<times> 'net server_state" where
  "cluster_statement p request stmt session s =
     (if IsMetadataStatement stmt then metadata_statement p request stmt session s
      else case stmt of
             InsertStmt ins \<Rightarrow> sharded_insert p request ins session s
           | _ \<Rightarrow>
               (case s of (sv, net) \<Rightarrow>
                  if ShouldBroadcast stmt
                  then if cluster_IsMutatingStatement stmt
                       then cluster_reply ''cluster 2pc failed'' Inr sv (commit_everywhere (network p) (guid p 0) (storage_nodes sv) request net)
                       else cluster_reply ''cluster broadcast failed'' Inr sv (BroadcastToStorageNodes (network p) (storage_nodes sv) request False net)
                  else routed_statement p request stmt session s))"

definition handle_statement ::
  "'net Platform \<Rightarrow> RequestEnvelope \<Rightarrow> Statement \<Rightarrow> 'net server_state \<Rightarrow> ResponseEnvelope Result \<times> 'net server_state" where
  "handle_statement p request stmt s =
     (case s of (sv, net) \<Rightarrow>
        (let client = request_client_id request in
         case GetOrCreateSession client sv of
           (session, sv1) \<Rightarrow>
             (case authorize_statement p request stmt (session\<lparr>client_id := client\<rparr>) sv1 of
                (refusal, session') \<Rightarrow>
                  (let sv2 = sv1\<lparr>sessions := umap_assign client session' (sessions sv1)\<rparr> in
                   case refusal of
                     Some response \<Rightarrow> (Inr response, (sv2, net))
                   | None \<Rightarrow>
                       if storage_nodes sv2 \<noteq> [] then cluster_statement p request stmt session' (sv2, net)
                       else (case execute_in p client session' (request_payload request) sv2 of
                               (r, sv3) \<Rightarrow> (statement_response (IsSelectStatement stmt) (request_payload request) r, (sv3, net)))))))"

definition HandleRequest :: "'net Platform \<Rightarrow> RequestEnvelope \<Rightarrow> 'net server_state \<Rightarrow> ResponseEnvelope Result \<times> 'net server_state" where
  "HandleRequest p request s =
     (case ParseClusterCommand p request s of
        (Inl x, s1) \<Rightarrow> (Inl x, s1)
      | (Inr (Some response), s1) \<Rightarrow> (Inr response, s1)
      | (Inr None, _) \<Rightarrow>
     (case ParseAsyncCommand p request s of
        (Inl x, s1) \<Rightarrow> (Inl x, s1)
      | (Inr (Some response), s1) \<Rightarrow> (Inr response, s1)
      | (Inr None, _) \<Rightarrow>
     (case ParseTelemetryCommand p (request_payload request) s of
        (Inl x, s1) \<Rightarrow> (Inl x, s1)
      | (Inr (Some response), s1) \<Rightarrow> (Inr response, s1)
      | (Inr None, _) \<Rightarrow>
     (case ParseAuthCommand p request (fst s) of
        (Some response, sv) \<Rightarrow> (Inr response, (sv, snd s))
      | (None, _) \<Rightarrow>
     (case Parse (request_payload request) of
        Inl (Err e) \<Rightarrow> (Inr \<lparr>status_code = 400, response_payload = FormatErrorContract e (request_payload request)\<rparr>, s)
      | Inl (Thrown x) \<Rightarrow> (Inl (Thrown x), s)
      | Inr stmt \<Rightarrow> handle_statement p request stmt s)))))"

end
