(* ===== verification/Parser_Sound.thy ===== *)
theory Parser_Sound
  imports Parser
begin

text \<open>
  What the parser accepts: a predicate on statements that every parsed statement satisfies. It has the condition on
  string literals as an argument.
\<close>

section \<open>Accepted statements\<close>

definition accepted_name :: "QualifiedName \<Rightarrow> bool" where
  "accepted_name q \<longleftrightarrow> (case database_name q of Some d \<Rightarrow> IsIdentifier d | None \<Rightarrow> True) \<and> IsIdentifier (object_name q)"

fun accepted_value :: "(string \<Rightarrow> bool) \<Rightarrow> Value \<Rightarrow> bool" where
  "accepted_value Q Monostate = True"
| "accepted_value Q (Int64 w) = True"
| "accepted_value Q (Str s) = Q s"
| "accepted_value Q (IStr p) = False"

fun accepted_expression :: "(string \<Rightarrow> bool) \<Rightarrow> Expression \<Rightarrow> bool" where
  "accepted_expression Q (LiteralExpression v) = (accepted_value Q v \<and> \<not> IsNull v)"
| "accepted_expression Q (ColumnReferenceExpression d t n) = (t = None \<and> accepted_name \<lparr>database_name = d, object_name = n\<rparr>)"
| "accepted_expression Q (BinaryComparisonExpression op l r) = (accepted_expression Q l \<and> accepted_expression Q r)"
| "accepted_expression Q (LogicalExpression op l r) = (accepted_expression Q l \<and> accepted_expression Q r)"
| "accepted_expression Q (BetweenExpression v l u) =
     (accepted_expression Q v \<and> accepted_expression Q l \<and> accepted_expression Q u)"
| "accepted_expression Q (LikeExpression v p) = (accepted_expression Q v \<and> accepted_expression Q p)"
| "accepted_expression Q (AggregateCallExpression k n) = False"

definition accepted_where :: "(string \<Rightarrow> bool) \<Rightarrow> Expression option \<Rightarrow> bool" where
  "accepted_where Q w = (case w of Some e \<Rightarrow> accepted_expression Q e | None \<Rightarrow> True)"

text \<open>A column of \<^verbatim>\<open>CREATE TABLE\<close>: an indexed column is not null, and a default has the type of the column.\<close>

definition accepted_column :: "(string \<Rightarrow> bool) \<Rightarrow> AstColumn \<Rightarrow> bool" where
  "accepted_column Q col \<longleftrightarrow>
     IsIdentifier (ast_name col) \<and> (ast_type col = kInt64 \<or> ast_type col = kString) \<and> (ast_indexed col \<longrightarrow> ast_not_null col) \<and>
     (case ast_default col of
        Some v \<Rightarrow> accepted_value Q v \<and> CanAssignToType v (ast_type col) (\<not> ast_not_null col)
      | None \<Rightarrow> True)"

fun accepted_literal :: "(string \<Rightarrow> bool) \<Rightarrow> Expression \<Rightarrow> bool" where
  "accepted_literal Q (LiteralExpression v) = accepted_value Q v"
| "accepted_literal Q _ = False"

text \<open>An item of a list: a column whose name is no aggregate, or an aggregate of a column; only \<^verbatim>\<open>COUNT\<close> takes a star.\<close>

definition accepted_item :: "SelectItem \<Rightarrow> bool" where
  "accepted_item item \<longleftrightarrow>
     \<not> is_wildcard item \<and> (case item_alias item of Some a \<Rightarrow> IsIdentifier a | None \<Rightarrow> True) \<and>
     (case item_aggregate item of
        None \<Rightarrow> IsIdentifier (item_column item) \<and> ParseAgg (item_column item) = None
      | Some agg \<Rightarrow> IsIdentifier (item_column item) \<or> item_column item = ''*'' \<and> agg = kCount)"

definition accepted_items :: "SelectItem list \<Rightarrow> bool" where
  "accepted_items items \<longleftrightarrow>
     items = [\<lparr>is_wildcard = True, item_column = [], item_alias = None, item_aggregate = None\<rparr>] \<or>
     items \<noteq> [] \<and> list_all accepted_item items \<and>
     (list_all (\<lambda>item. item_aggregate item = None) items \<or> list_all (\<lambda>item. item_aggregate item \<noteq> None) items)"

fun accepted :: "(string \<Rightarrow> bool) \<Rightarrow> Statement \<Rightarrow> bool" where
  "accepted Q (UnknownStatement s) = False"
| "accepted Q (CreateDatabaseStatement n) = IsIdentifier n"
| "accepted Q (DropDatabaseStatement n) = IsIdentifier n"
| "accepted Q (UseDatabaseStatement n) = IsIdentifier n"
| "accepted Q (CreateTableStatement q cols) =
     (accepted_name q \<and> cols \<noteq> [] \<and> list_all (accepted_column Q) cols \<and> distinct (map ast_name cols))"
| "accepted Q (DropTableStatement q) = accepted_name q"
| "accepted Q (InsertStmt ins) =
     (accepted_name (insert_table ins) \<and> insert_columns ins \<noteq> [] \<and> list_all IsIdentifier (insert_columns ins) \<and>
      distinct (insert_columns ins) \<and> insert_rows ins \<noteq> [] \<and>
      list_all (\<lambda>row. length row = length (insert_columns ins) \<and> list_all (accepted_literal Q) row) (insert_rows ins))"
| "accepted Q (UpdateStmt upd) =
     (accepted_name (update_table upd) \<and> assignments upd \<noteq> [] \<and> distinct (map fst (assignments upd)) \<and>
      list_all (\<lambda>(n, v). IsIdentifier n \<and> accepted_expression Q v) (assignments upd) \<and> accepted_where Q (update_where upd))"
| "accepted Q (DeleteStmt del) = (accepted_name (delete_table del) \<and> accepted_where Q (delete_where del))"
| "accepted Q (SelectStmt sel) =
     (accepted_name (select_table sel) \<and> accepted_items (select_items sel) \<and> accepted_where Q (select_where sel))"
| "accepted Q (RevertStmt r) =
     (accepted_name (revert_table r) \<and> (revert_mode r = kLatest \<longrightarrow> revert_timestamp r = ''LATEST''))"
| "accepted Q _ = True"

section \<open>Names and literals\<close>

lemma TakeIdentifier_accepted: "TakeIdentifier c = Inr (x, c') \<Longrightarrow> IsIdentifier x"
  unfolding TakeIdentifier_def by (erule parse_bindE) (auto split: if_splits)

lemma ParseQualifiedName_accepted: "ParseQualifiedName c = Inr (q, c') \<Longrightarrow> accepted_name q"
  unfolding ParseQualifiedName_def
  by (elim parse_elims) (auto elim!: parse_elims dest!: TakeIdentifier_accepted simp: accepted_name_def)

lemma ParseLiteral_accepted: "ParseLiteral t = Inr v \<Longrightarrow> accepted_value (\<lambda>_. True) v"
  by (auto simp: ParseLiteral_def split: if_splits option.splits)

lemma ParseLiteral_null: "ParseLiteral t = Inr v \<Longrightarrow> IsNull v \<longleftrightarrow> t = ''NULL'' \<or> t = ''null''"
  by (auto simp: ParseLiteral_def split: if_splits option.splits)

lemma ParseLiteralToken_accepted: "ParseLiteralToken c = Inr (v, c') \<Longrightarrow> accepted_value (\<lambda>_. True) v"
  unfolding ParseLiteralToken_def
  by (elim parse_elims) (auto split: sum.splits dest: ParseLiteral_accepted)

lemma null_identifier: "IsIdentifier ''NULL''" "IsIdentifier ''null''"
  by (simp_all add: IsIdentifier_def is_alnum_def is_alpha_def is_upper_def is_lower_def)

lemma Take_Peek: "Take c = Inr (t, c') \<Longrightarrow> t = Peek c"
  by (auto simp: Take_def Peek_def split: if_splits)

lemma ParseLiteralToken_not_null:
  assumes "ParseLiteralToken c = Inr (v, c')" "\<not> IsIdentifier (Peek c)"
  shows "\<not> IsNull v"
  using assms(1) unfolding ParseLiteralToken_def
proof (elim Match_caseE)
  fix c1
  assume "parse_bind (Take c1) (\<lambda>token c. case ParseLiteral (if True then ''-'' @ token else token) of
    Inl e \<Rightarrow> Inl e | Inr v \<Rightarrow> Inr (v, c)) = Inr (v, c')"
  then show ?thesis by (auto elim!: parse_bindE split: sum.splits dest: ParseLiteral_null)
next
  assume "parse_bind (Take c) (\<lambda>token c. case ParseLiteral (if False then ''-'' @ token else token) of
    Inl e \<Rightarrow> Inl e | Inr v \<Rightarrow> Inr (v, c)) = Inr (v, c')"
  then show ?thesis
    using assms(2) null_identifier by (auto elim!: parse_bindE split: sum.splits dest!: ParseLiteral_null Take_Peek)
qed

section \<open>Expressions\<close>

text \<open>A property of the result of a call.\<close>

definition returns :: "('a \<Rightarrow> bool) \<Rightarrow> 'a Parsed \<Rightarrow> bool" where
  "returns P r \<longleftrightarrow> (\<forall>x c. r = Inr (x, c) \<longrightarrow> P x)"

lemma returns_simps [simp]: "returns P (Inl e)" "returns P (Inr (x, c)) \<longleftrightarrow> P x"
  by (simp_all add: returns_def)

lemma returnsD: "returns P r \<Longrightarrow> r = Inr (x, c) \<Longrightarrow> P x"
  by (auto simp: returns_def)

lemma returns_bindI: "(\<And>x c. r = Inr (x, c) \<Longrightarrow> returns P (f x c)) \<Longrightarrow> returns P (parse_bind r f)"
  unfolding returns_def by (auto elim!: parse_bindE)

lemma returns_MatchI:
  "(\<And>c'. Match t c = (True, c') \<Longrightarrow> returns P (f True c')) \<Longrightarrow> (Match t c = (False, c) \<Longrightarrow> returns P (f False c)) \<Longrightarrow>
   returns P (case Match t c of (m, c') \<Rightarrow> f m c')"
  unfolding returns_def by (auto elim!: Match_caseE)

lemma returns_MatchKeywordI:
  "(\<And>c'. MatchKeyword t c = Inr (True, c') \<Longrightarrow> returns P (f True c')) \<Longrightarrow>
   (MatchKeyword t c = Inr (False, c) \<Longrightarrow> returns P (f False c)) \<Longrightarrow> returns P (parse_bind (MatchKeyword t c) f)"
  unfolding returns_def by (auto elim!: MatchKeyword_bindE)

abbreviation expression_accepted :: "Expression Parsed \<Rightarrow> bool" where
  "expression_accepted \<equiv> returns (accepted_expression (\<lambda>_. True))"

lemma expressions_accepted:
  "expression_accepted (ParsePrimary c)"
  "expression_accepted (ParsePredicate c1)"
  "accepted_expression (\<lambda>_. True) left \<longrightarrow> expression_accepted (and_loop left c2)"
  "expression_accepted (ParseAnd c3)"
  "accepted_expression (\<lambda>_. True) left' \<longrightarrow> expression_accepted (or_loop left' c4)"
  "expression_accepted (ParseExpression c5)"
proof (induction c and c1 and left c2 and c3 and left' c4 and c5
    rule: ParsePrimary_ParsePredicate_and_loop_ParseAnd_or_loop_ParseExpression.induct)
  case (1 c)
  show ?case unfolding ParsePrimary.simps [of c]
  proof (rule returns_MatchI)
    fix c'
    assume "Match ''('' c = (True, c')"
    with 1 have "expression_accepted (ParseExpression c')" by simp
    then show "expression_accepted (if True then parse_bind (ParseExpression c') (\<lambda>inner c. parse_bind (Expect '')'' c) (\<lambda>_ c. Inr (inner, c)))
        else if IsIdentifier (Peek c')
        then parse_bind (ParseQualifiedName c') (\<lambda>q c. Inr (ColumnReferenceExpression (database_name q) None (object_name q), c))
        else parse_bind (ParseLiteralToken c') (\<lambda>v c. Inr (LiteralExpression v, c)))"
      by (auto intro!: returns_bindI dest: returnsD)
  next
    show "expression_accepted (if False then parse_bind (ParseExpression c) (\<lambda>inner c. parse_bind (Expect '')'' c) (\<lambda>_ c. Inr (inner, c)))
        else if IsIdentifier (Peek c)
        then parse_bind (ParseQualifiedName c) (\<lambda>q c. Inr (ColumnReferenceExpression (database_name q) None (object_name q), c))
        else parse_bind (ParseLiteralToken c) (\<lambda>v c. Inr (LiteralExpression v, c)))"
      by (auto intro!: returns_bindI dest: ParseQualifiedName_accepted ParseLiteralToken_accepted ParseLiteralToken_not_null
          simp: accepted_name_def)
  qed
next
  case (2 c)
  show ?case unfolding ParsePredicate.simps [of c]
    apply (rule returns_bindI, frule returnsD [OF 2(1)])
    apply (rule returns_MatchKeywordI; simp only: if_True if_False)
    subgoal for left c1 c2
      using 2(2) [of left c1 True c2] 2(3) [of left c1 True c2]
      by (intro returns_bindI) (auto dest: returnsD)
    apply (rule returns_MatchKeywordI; simp only: if_True if_False)
    subgoal for left c1 c2
      using 2(4) [of left c1 False c1 True c2] by (intro returns_bindI) (auto dest: returnsD)
    subgoal for left c1
    proof (cases "ends_predicate c1")
      case False
      assume a: "accepted_expression (\<lambda>_. True) left" "ParsePrimary c = Inr (left, c1)" "MatchKeyword ''BETWEEN'' c1 = Inr (False, c1)"
        "MatchKeyword ''LIKE'' c1 = Inr (False, c1)"
      have "accepted_expression (\<lambda>_. True) right" if "Take c1 = Inr (op, c3)" "ParsePrimary c3 = Inr (right, c4)" for op c3 right c4
        using returnsD [OF 2(5) [OF a(2,3) _ a(4) _ False that(1)] that(2)] by simp
      with a(1) show ?thesis unfolding if_not_P [OF False]
        by (intro returns_bindI) (simp split: sum.split)
    qed simp
    done
next
  case (3 left c)
  show ?case unfolding and_loop.simps [of left c]
    apply (intro impI returns_MatchKeywordI; simp only: if_True if_False returns_simps)
    subgoal for c' using 3(1) [of True c'] 3(2) [of True c'] by (intro returns_bindI) (auto dest: returnsD)
    done
next
  case (4 c)
  then show ?case unfolding ParseAnd.simps [of c] by (intro returns_bindI) (auto dest: returnsD)
next
  case (5 left c)
  show ?case unfolding or_loop.simps [of left c]
    apply (intro impI returns_MatchKeywordI; simp only: if_True if_False returns_simps)
    subgoal for c' using 5(1) [of True c'] 5(2) [of True c'] by (intro returns_bindI) (auto dest: returnsD)
    done
next
  case (6 c)
  then show ?case unfolding ParseExpression.simps [of c] by (intro returns_bindI) (auto dest: returnsD)
qed

section \<open>Statements\<close>

lemma ParseWhere_accepted: "ParseWhere c = Inr (w, c') \<Longrightarrow> accepted_where (\<lambda>_. True) w"
  unfolding ParseWhere_def
  by (erule MatchKeyword_bindE)
    (auto elim!: parse_bindE simp: accepted_where_def dest: returnsD [OF expressions_accepted(6)])

text \<open>A column before the validation of its default.\<close>

definition parsed_column :: "AstColumn \<Rightarrow> bool" where
  "parsed_column col \<longleftrightarrow>
     IsIdentifier (ast_name col) \<and> (ast_type col = kInt64 \<or> ast_type col = kString) \<and> (ast_indexed col \<longrightarrow> ast_not_null col) \<and>
     (case ast_default col of Some v \<Rightarrow> accepted_value (\<lambda>_. True) v | None \<Rightarrow> True)"

lemma column_constraints_parsed: "parsed_column col \<Longrightarrow> returns parsed_column (column_constraints col c)"
proof (induction col c rule: column_constraints.induct)
  case (1 col c)
  show ?case unfolding column_constraints.simps [of col c]
    apply (rule returns_MatchKeywordI; simp only: if_True if_False)
    subgoal for c' using 1(4) by (intro 1(1) [of True c']) (simp_all add: parsed_column_def)
    apply (rule returns_MatchKeywordI; simp only: if_True if_False)
    subgoal for c' using 1(4) by (intro 1(2) [of False c True c']) (simp_all add: parsed_column_def)
    apply (rule returns_MatchKeywordI; simp add: 1(4))
    apply (rule returns_bindI)
    subgoal for c' v c''
      using 1(4) ParseLiteralToken_accepted [of c' v c'']
      by (intro 1(3) [of False c False c True c' v c'']) (simp_all add: parsed_column_def)
    done
qed

lemma column_list_parsed:
  "list_all parsed_column cols \<Longrightarrow> returns (\<lambda>cols'. cols' \<noteq> [] \<and> list_all parsed_column cols') (column_list cols c)"
proof (induction cols c rule: column_list.induct)
  case (1 cols c)
  show ?case unfolding column_list.simps [of cols c]
  proof (intro returns_bindI)
    fix name c1 type c2
    assume a: "TakeIdentifier c = Inr (name, c1)" "Take c1 = Inr (type, c2)"
    show "returns (\<lambda>cols'. cols' \<noteq> [] \<and> list_all parsed_column cols')
      (case column_type (ToUpper type) of
         Inl e \<Rightarrow> Inl e
       | Inr t \<Rightarrow> parse_bind (column_constraints \<lparr>ast_name = name, ast_type = t, ast_not_null = False, ast_indexed = False,
                 ast_default = None\<rparr> c2) (\<lambda>col c.
               case Match '')'' c of (m, c) \<Rightarrow>
                 if m then Inr (cols @ [col], c)
                 else parse_bind (Expect '','' c) (\<lambda>_ c. column_list (cols @ [col]) c)))"
    proof (cases "column_type (ToUpper type)")
      case (Inr t)
      have start: "parsed_column \<lparr>ast_name = name, ast_type = t, ast_not_null = False, ast_indexed = False, ast_default = None\<rparr>"
        using TakeIdentifier_accepted [OF a(1)] Inr by (auto simp: parsed_column_def column_type_def split: if_splits)
      show ?thesis unfolding Inr sum.case
        apply (rule returns_bindI)
        apply (frule returnsD [OF column_constraints_parsed [OF start]])
        apply (rule returns_MatchI; simp)
        using 1(2) apply simp
        apply (rule returns_bindI)
        apply (rule 1(1) [OF a Inr]; (assumption | erule sym | simp add: 1(2))+)
        apply simp
        done
    qed simp
  qed
qed

lemma name_list_accepted:
  "list_all IsIdentifier names \<Longrightarrow> returns (list_all IsIdentifier) (name_list names c)"
proof (induction names c rule: name_list.induct)
  case (1 names c)
  show ?case unfolding name_list.simps [of names c]
    apply (rule returns_bindI, frule TakeIdentifier_accepted)
    apply (rule returns_MatchI; simp)
    using 1(2) apply simp
    apply (rule returns_bindI)
    apply (rule 1(1); (assumption | erule sym | simp add: 1(2))+)
    apply simp
    done
qed

lemma value_list_accepted:
  "list_all (accepted_literal (\<lambda>_. True)) row \<Longrightarrow> returns (list_all (accepted_literal (\<lambda>_. True))) (value_list row c)"
proof (induction row c rule: value_list.induct)
  case (1 row c)
  show ?case unfolding value_list.simps [of row c]
    apply (rule returns_bindI, frule ParseLiteralToken_accepted)
    apply (rule returns_MatchI; simp)
    using 1(2) apply simp
    apply (rule returns_bindI)
    apply (rule 1(1); (assumption | erule sym | simp add: 1(2))+)
    apply simp
    done
qed

lemma row_list_accepted:
  "list_all (list_all (accepted_literal (\<lambda>_. True))) rows \<Longrightarrow>
   returns (list_all (list_all (accepted_literal (\<lambda>_. True)))) (row_list rows c)"
proof (induction rows c rule: row_list.induct)
  case (1 rows c)
  show ?case unfolding row_list.simps [of rows c]
    apply (rule returns_bindI)
    apply (rule returns_bindI, frule returnsD [OF value_list_accepted [of "[]", simplified]])
    apply (rule returns_MatchI; simp)
     apply (rule 1(1); (assumption | erule sym | simp add: 1(2))+)
    using 1(2) apply simp
    done
qed

lemma assignment_list_accepted:
  "list_all (\<lambda>(n, v). IsIdentifier n \<and> accepted_expression (\<lambda>_. True) v) as \<Longrightarrow>
   returns (list_all (\<lambda>(n, v). IsIdentifier n \<and> accepted_expression (\<lambda>_. True) v)) (assignment_list as c)"
proof (induction as c rule: assignment_list.induct)
  case (1 as c)
  show ?case unfolding assignment_list.simps [of as c]
    apply (rule returns_bindI, frule TakeIdentifier_accepted)
    apply (rule returns_bindI)
    apply (rule returns_bindI, frule returnsD [OF expressions_accepted(1)])
    apply (rule returns_MatchI; simp)
     apply (rule 1(1); (assumption | erule sym | simp add: 1(2))+)
    using 1(2) apply simp
    done
qed

lemma TakeIdentifier_Peek: "TakeIdentifier c = Inr (t, c') \<Longrightarrow> t = Peek c"
  unfolding TakeIdentifier_def by (erule parse_bindE) (auto split: if_splits dest: Take_Peek)

text \<open>An item before the validation of the list.\<close>

definition parsed_source :: "string \<Rightarrow> AggregateKind option \<Rightarrow> bool" where
  "parsed_source column agg \<longleftrightarrow>
     (case agg of
        None \<Rightarrow> IsIdentifier column \<and> ParseAgg column = None
      | Some _ \<Rightarrow> IsIdentifier column \<or> column = ''*'')"

definition parsed_item :: "SelectItem \<Rightarrow> bool" where
  "parsed_item item \<longleftrightarrow>
     \<not> is_wildcard item \<and> (case item_alias item of Some a \<Rightarrow> IsIdentifier a | None \<Rightarrow> True) \<and>
     parsed_source (item_column item) (item_aggregate item)"

lemma parsed_item_make [simp]:
  "parsed_item \<lparr>is_wildcard = False, item_column = column, item_alias = a, item_aggregate = agg\<rparr> \<longleftrightarrow>
     (case a of Some a \<Rightarrow> IsIdentifier a | None \<Rightarrow> True) \<and> parsed_source column agg"
  by (simp add: parsed_item_def)

lemma item_source_parsed: "item_source c = Inr (s, c') \<Longrightarrow> parsed_source (fst s) (snd s)"
  unfolding item_source_def
  by (auto split: option.splits elim!: parse_elims dest: TakeIdentifier_accepted TakeIdentifier_Peek simp: parsed_source_def)

lemma item_as_accepted: "item_as c = Inr (a, c') \<Longrightarrow> (case a of Some a \<Rightarrow> IsIdentifier a | None \<Rightarrow> True)"
  unfolding item_as_def
  by (erule MatchKeyword_bindE) (auto elim!: parse_bindE dest: TakeIdentifier_accepted)

lemma item_list_parsed:
  "list_all parsed_item items \<Longrightarrow> returns (\<lambda>items'. items' \<noteq> [] \<and> list_all parsed_item items') (item_list items c)"
proof (induction items c rule: item_list.induct)
  case (1 items c)
  show ?case unfolding item_list.simps [of items c] Let_def
    apply (rule returns_bindI, frule item_source_parsed)
    apply (rule returns_bindI, frule item_as_accepted)
    apply (rule returns_MatchI; simp)
     apply (rule 1(1); (assumption | rule refl | erule sym | simp add: 1(2))+)
    using 1(2) apply simp_all
    done
qed

section \<open>Validation\<close>

lemma validate_columns_None:
  "validate_columns names cols = None \<longleftrightarrow>
     distinct (map ast_name cols) \<and> set (map ast_name cols) \<inter> set names = {} \<and>
     list_all (\<lambda>col. case ast_default col of
       Some v \<Rightarrow> CanAssignToType v (ast_type col) (\<not> ast_not_null col) | None \<Rightarrow> True) cols"
  by (induction names cols rule: validate_columns.induct) (auto split: option.splits if_splits)

lemma validate_names_None:
  "validate_names complaint names xs = None \<longleftrightarrow> distinct xs \<and> set xs \<inter> set names = {}"
  by (induction complaint names xs rule: validate_names.induct) auto

lemma ValidateInsert_None:
  "ValidateInsert ins = None \<longleftrightarrow> insert_columns ins \<noteq> [] \<and> insert_rows ins \<noteq> [] \<and> distinct (insert_columns ins) \<and>
     list_all (\<lambda>row. length row = length (insert_columns ins)) (insert_rows ins)"
  using validate_names_None [of "''duplicate INSERT column: ''" "[]" "insert_columns ins"]
  by (auto simp: ValidateInsert_def list_ex_iff list_all_iff split: option.splits)

lemma accepted_column_iff:
  "accepted_column (\<lambda>_. True) col \<longleftrightarrow> parsed_column col \<and>
     (case ast_default col of Some v \<Rightarrow> CanAssignToType v (ast_type col) (\<not> ast_not_null col) | None \<Rightarrow> True)"
  by (auto simp: accepted_column_def parsed_column_def split: option.splits)

lemma ValidateSelect_items:
  assumes "ValidateSelect sel = None" "list_all parsed_item (select_items sel)"
  shows "accepted_items (select_items sel)"
proof -
  have "list_all accepted_item (select_items sel)"
    using assms
    by (fastforce simp: ValidateSelect_def Let_def accepted_item_def parsed_item_def parsed_source_def list_all_iff list_ex_iff
        split: option.splits if_splits)
  moreover have "list_all (\<lambda>item. item_aggregate item = None) (select_items sel) \<or>
      list_all (\<lambda>item. item_aggregate item \<noteq> None) (select_items sel)"
  proof (cases "length (select_items sel) > 1")
    case True
    with assms(1) show ?thesis by (auto simp: ValidateSelect_def Let_def list_all_iff list_ex_iff split: if_splits)
  next
    case False
    then show ?thesis by (cases "select_items sel"; cases "tl (select_items sel)") auto
  qed
  ultimately show ?thesis using assms(1) by (auto simp: accepted_items_def ValidateSelect_def Let_def split: if_splits)
qed

lemmas ValidateSelect_record = ValidateSelect_items [of "\<lparr>select_table = q, select_items = items, select_where = w\<rparr>" for q items w, simplified]

lemma accepted_items_wildcard [simp]:
  "accepted_items [\<lparr>is_wildcard = True, item_column = [], item_alias = None, item_aggregate = None\<rparr>]"
  by (simp add: accepted_items_def)

section \<open>Every parsed statement is accepted\<close>

lemmas list_results = returnsD [OF column_list_parsed [of "[]", simplified]] returnsD [OF name_list_accepted [of "[]", simplified]]
  returnsD [OF row_list_accepted [of "[]", simplified]] returnsD [OF assignment_list_accepted [of "[]", simplified]]
  returnsD [OF item_list_parsed [of "[]", simplified]]

text \<open>A statement before the validation.\<close>

abbreviation valid_accepted :: "Statement Parsed \<Rightarrow> bool" where
  "valid_accepted \<equiv> returns (\<lambda>stmt. ValidateStatement stmt = None \<longrightarrow> accepted (\<lambda>_. True) stmt)"

lemma ParseCreate_accepted: "valid_accepted (ParseCreate c)"
  unfolding ParseCreate_def
  by (rule returns_MatchKeywordI)
    (auto intro!: returns_bindI dest!: TakeIdentifier_accepted ParseQualifiedName_accepted list_results
      simp: ValidateStatement_def ValidateCreateTable_def validate_columns_None accepted_column_iff list_all_iff)

lemma ParseDrop_accepted: "valid_accepted (ParseDrop c)"
  unfolding ParseDrop_def
  by (rule returns_MatchKeywordI) (auto intro!: returns_bindI dest!: TakeIdentifier_accepted ParseQualifiedName_accepted)

lemma ParseUse_accepted: "valid_accepted (ParseUse c)"
  unfolding ParseUse_def by (auto intro!: returns_bindI dest: TakeIdentifier_accepted)

lemma ParseInsert_accepted: "valid_accepted (ParseInsert c)"
  unfolding ParseInsert_def
  by (auto intro!: returns_bindI dest!: ParseQualifiedName_accepted list_results
      simp: ValidateStatement_def ValidateInsert_None list_all_iff)

lemma ParseUpdate_accepted: "valid_accepted (ParseUpdate c)"
  unfolding ParseUpdate_def
  by (auto intro!: returns_bindI dest!: ParseQualifiedName_accepted list_results ParseWhere_accepted
      simp: ValidateStatement_def ValidateUpdate_def validate_names_None split: if_splits)

lemma ParseDelete_accepted: "valid_accepted (ParseDelete c)"
  unfolding ParseDelete_def by (auto intro!: returns_bindI dest!: ParseQualifiedName_accepted ParseWhere_accepted)

lemma ParseSelect_accepted: "valid_accepted (ParseSelect c)"
  unfolding ParseSelect_def
  apply (rule returns_bindI)
  apply (erule Match_caseE)
  by (auto intro!: returns_bindI dest!: ParseQualifiedName_accepted ParseWhere_accepted list_results
      simp: ValidateStatement_def intro: ValidateSelect_record)

lemma ParseRevert_accepted: "valid_accepted (ParseRevert c)"
  unfolding ParseRevert_def
  by (auto intro!: returns_bindI returns_MatchKeywordI dest!: ParseQualifiedName_accepted elim!: parse_bindE split: if_splits)

lemma dispatch_accepted:
  "list_all (\<lambda>(kw, p). \<forall>c. valid_accepted (p c)) ps \<Longrightarrow> valid_accepted (dispatch ps c)"
  by (induction ps arbitrary: c) (auto intro!: returns_MatchKeywordI)

lemma statement_parsers_accepted: "list_all (\<lambda>(kw, p). \<forall>c. valid_accepted (p c)) statement_parsers"
  by (simp add: statement_parsers_def ParseCreate_accepted ParseDrop_accepted ParseUse_accepted ParseInsert_accepted ParseUpdate_accepted
      ParseDelete_accepted ParseSelect_accepted ParseRevert_accepted ParseBegin_def ParseCommit_def ParseRollback_def ParseCheck_def
      ParseRebuild_def returns_bindI)

lemma Parse_cases:
  obtains m where "Parse sql = Inl (Err \<lparr>code = kParseError, message = m\<rparr>)"
  | stmt where "Parse sql = Inr stmt" "accepted (\<lambda>_. True) stmt"
proof -
  let ?c = "\<lparr>tokens = Tokenize sql, pos = 0\<rparr>"
  have "accepted (\<lambda>_. True) stmt" if "dispatch statement_parsers ?c = Inr (stmt, c)" "ValidateStatement stmt = None" for stmt c
    using returnsD [OF dispatch_accepted [OF statement_parsers_accepted] that(1)] that(2) by blast
  then have "(\<exists>m. Parse sql = Inl (Err \<lparr>code = kParseError, message = m\<rparr>)) \<or> (\<exists>stmt. Parse sql = Inr stmt \<and> accepted (\<lambda>_. True) stmt)"
    by (auto simp: Parse_def Let_def finish_def MakeError_def MakeSuccess_def split: sum.split option.split prod.split)
  with that show ?thesis by blast
qed

lemma Parse_accepted: "Parse sql = Inr stmt \<Longrightarrow> accepted (\<lambda>_. True) stmt"
  by (rule Parse_cases [of sql]) auto

section \<open>Every statement consumes tokens\<close>

lemma column_list_leaves: "leaves_less (remaining c) (column_list cols c)"
proof (induction cols c rule: column_list.induct)
  case (1 cols c)
  show ?case unfolding column_list.simps [of cols c]
    apply (rule leaves_less_bindI, rule leaves_less_bindI)
    apply (split sum.split, intro conjI allI impI)
     apply simp
    apply (rule leaves_less_bindI)
    apply (rule leaves_less_MatchI; simp)
     apply (auto dest!: shrink_rules column_constraints_shrinks)[1]
    apply (rule leaves_less_bindI)
    apply (rule leaves_less_mono [OF 1]; (assumption | erule sym)?)
     apply simp
    apply (auto dest!: shrink_rules column_constraints_shrinks)[1]
    done
qed

lemma name_list_leaves: "leaves_less (remaining c) (name_list names c)"
proof (induction names c rule: name_list.induct)
  case (1 names c)
  show ?case unfolding name_list.simps [of names c]
    apply (rule leaves_less_bindI)
    apply (rule leaves_less_MatchI; simp)
     apply (auto dest!: shrink_rules)[1]
    apply (rule leaves_less_bindI)
    apply (rule leaves_less_mono [OF 1]; (assumption | erule sym)?)
     apply simp
    apply (auto dest!: shrink_rules)[1]
    done
qed

lemma row_list_leaves: "leaves_less (remaining c) (row_list rows c)"
proof (induction rows c rule: row_list.induct)
  case (1 rows c)
  show ?case unfolding row_list.simps [of rows c]
    apply (rule leaves_less_bindI, rule leaves_less_bindI)
    apply (rule leaves_less_MatchI; simp)
     apply (rule leaves_less_mono [OF 1]; (assumption | erule sym)?)
      apply simp
     apply (auto dest!: shrink_rules value_list_shrinks)
    done
qed

lemma assignment_list_leaves: "leaves_less (remaining c) (assignment_list as c)"
proof (induction as c rule: assignment_list.induct)
  case (1 as c)
  show ?case unfolding assignment_list.simps [of as c]
    apply (rule leaves_less_bindI, rule leaves_less_bindI, rule leaves_less_bindI)
    apply (rule leaves_less_MatchI; simp)
     apply (rule leaves_less_mono [OF 1]; (assumption | erule sym)?)
      apply simp
     apply (auto dest!: shrink_rules ParsePrimary_shrinks)
    done
qed

lemma item_list_leaves: "leaves_less (remaining c) (item_list items c)"
proof (induction items c rule: item_list.induct)
  case (1 items c)
  show ?case unfolding item_list.simps [of items c] Let_def
    apply (rule leaves_less_bindI, rule leaves_less_bindI)
    apply (rule leaves_less_MatchI; simp)
     apply (rule leaves_less_mono [OF 1]; (assumption | rule refl | erule sym)?)
      apply simp
     apply (auto dest!: shrink_rules item_source_shrinks item_as_shrinks)
    done
qed

lemma ParseWhere_shrinks: "ParseWhere c = Inr (w, c') \<Longrightarrow> remaining c' \<le> remaining c"
  unfolding ParseWhere_def
  by (erule MatchKeyword_bindE) (auto elim!: parse_bindE dest!: ParseExpression_shrinks)

lemmas list_shrinks = leaves_lessD [OF column_list_leaves] leaves_lessD [OF name_list_leaves] leaves_lessD [OF row_list_leaves]
  leaves_lessD [OF assignment_list_leaves] leaves_lessD [OF item_list_leaves] ParseWhere_shrinks

lemma MatchKeyword_leaves: "MatchKeyword kw c = Inr (m, c') \<Longrightarrow> remaining c' \<le> remaining c"
  using MatchKeyword_shrinks [of kw c c'] by (cases m) auto

lemma statement_parsers_leave:
  "list_all (\<lambda>(kw, p). \<forall>c. leaves_less (Suc (remaining c)) (p c)) statement_parsers"
proof -
  have "leaves_less (Suc (remaining c)) (ParseCreate c)" for c
    unfolding ParseCreate_def by (rule leaves_less_MatchKeywordI) (auto intro!: leaves_less_bindI dest!: shrink_rules list_shrinks)
  moreover have "leaves_less (Suc (remaining c)) (ParseDrop c)" for c
    unfolding ParseDrop_def by (rule leaves_less_MatchKeywordI) (auto intro!: leaves_less_bindI dest!: shrink_rules)
  moreover have "leaves_less (Suc (remaining c)) (ParseUse c)" for c
    unfolding ParseUse_def by (auto intro!: leaves_less_bindI dest!: shrink_rules)
  moreover have "leaves_less (Suc (remaining c)) (ParseInsert c)" for c
    unfolding ParseInsert_def
    by (auto intro!: leaves_less_bindI dest!: ExpectKeyword_shrinks Expect_shrinks ParseQualifiedName_shrinks MatchKeyword_leaves list_shrinks split: if_splits)
  moreover have "leaves_less (Suc (remaining c)) (ParseUpdate c)" for c
    unfolding ParseUpdate_def by (auto intro!: leaves_less_bindI dest!: ExpectKeyword_shrinks ParseQualifiedName_shrinks list_shrinks)
  moreover have "leaves_less (Suc (remaining c)) (ParseDelete c)" for c
    unfolding ParseDelete_def by (auto intro!: leaves_less_bindI dest!: ExpectKeyword_shrinks ParseQualifiedName_shrinks list_shrinks)
  moreover have "leaves_less (Suc (remaining c)) (ParseSelect c)" for c
    unfolding ParseSelect_def
    by (rule leaves_less_bindI, erule Match_caseE)
      (auto intro!: leaves_less_bindI dest!: ExpectKeyword_shrinks ParseQualifiedName_shrinks list_shrinks)
  moreover have "leaves_less (Suc (remaining c)) (ParseRevert c)" for c
    unfolding ParseRevert_def
    by (auto intro!: leaves_less_bindI elim!: parse_bindE dest!: ParseQualifiedName_shrinks MatchKeyword_leaves Take_shrinks split: if_splits)
  ultimately show ?thesis
    by (auto simp: statement_parsers_def ParseBegin_def ParseCommit_def ParseRollback_def ParseCheck_def ParseRebuild_def less_Suc_eq_le
        intro!: leaves_less_bindI dest!: MatchKeyword_leaves ExpectKeyword_shrinks)
qed

lemma dispatch_leaves:
  "list_all (\<lambda>(kw, p). \<forall>c. leaves_less (Suc (remaining c)) (p c)) ps \<Longrightarrow> leaves_less (remaining c) (dispatch ps c)"
proof (induction ps)
  case (Cons kp ps)
  obtain kw p where kp: "kp = (kw, p)" by (cases kp)
  with Cons.prems have p: "leaves_less (Suc (remaining c')) (p c')" for c' by simp
  show ?case unfolding kp dispatch.simps
    by (rule leaves_less_MatchKeywordI) (use Cons leaves_less_mono [OF p] in simp_all)
qed simp

end
