(* ===== verification/Parser_Print.thy ===== *)
theory Parser_Print
  imports Parser_Sound
begin

text \<open>
  A printer for statements, and the proof that the parser reads what it prints: every accepted statement whose strings
  can be quoted has an SQL text. The printer puts a space after every token and parentheses around every composite
  expression.
\<close>

section \<open>Reading tokens back\<close>

text \<open>A text that the lexer reads as the inside of one string literal; \<open>p\<close> is the character before it.\<close>

fun quotable_after :: "char \<Rightarrow> string \<Rightarrow> bool" where
  "quotable_after p [] = (p \<noteq> backslash)"
| "quotable_after p (c # s) = ((c = quotation_mark \<longrightarrow> p = backslash) \<and> quotable_after c s)"

definition quotable :: "string \<Rightarrow> bool" where
  "quotable s = quotable_after quotation_mark s"

definition quote :: "string \<Rightarrow> string" where
  "quote s = quotation_mark # s @ [quotation_mark]"

lemma scan_literal_quotable:
  "quotable_after (last literal) s \<Longrightarrow> literal \<noteq> [] \<Longrightarrow>
   scan_literal literal (s @ quotation_mark # r) = (literal @ s @ [quotation_mark], r)"
proof (induction s arbitrary: literal)
  case Nil
  then show ?case by (auto simp: nth_append last_conv_nth)
next
  case (Cons c s)
  have "\<not> (c = quotation_mark \<and> (literal @ [c]) ! (length literal - Suc 0) \<noteq> backslash)"
    using Cons.prems by (cases literal rule: rev_cases) (auto simp: nth_append)
  then show ?case using Cons.prems Cons.IH [of "literal @ [c]"] by (auto simp: Let_def)
qed

text \<open>The tokens of the language: words, quoted strings, the two-character operators and single marks.\<close>

definition lexable :: "string \<Rightarrow> bool" where
  "lexable t \<longleftrightarrow>
     t \<noteq> [] \<and> list_all word_char t \<or>
     (\<exists>s. t = quote s \<and> quotable s) \<or>
     operator_pair t \<or>
     (\<exists>ch. t = [ch] \<and> \<not> is_space ch \<and> ch \<noteq> quotation_mark \<and> \<not> word_char ch)"

lemma word_char_not_special:
  "word_char c \<Longrightarrow> \<not> is_space c \<and> c \<noteq> quotation_mark \<and> c \<noteq> CHR ''='' \<and> c \<noteq> CHR ''!'' \<and> c \<noteq> CHR ''<'' \<and> c \<noteq> CHR ''>'' \<and>
     c \<noteq> CHR ''('' \<and> c \<noteq> CHR '')'' \<and> c \<noteq> CHR '','' \<and> c \<noteq> CHR '';'' \<and> c \<noteq> CHR ''.'' \<and> c \<noteq> CHR ''*'' \<and> c \<noteq> CHR ''-''"
  by (auto simp: is_space_def is_alnum_def is_alpha_def is_upper_def is_lower_def is_digit_def quotation_mark_def)

lemma blank [simp]: "is_space CHR '' ''" "\<not> word_char CHR '' ''"
  by (simp_all add: is_space_def is_alnum_def is_alpha_def is_upper_def is_lower_def is_digit_def)

lemma next_token_lexable:
  assumes "lexable (ch # t)"
  shows "\<not> is_space ch \<and> next_token ch (t @ CHR '' '' # r) = (\<lparr>lexeme = ch # t\<rparr>, CHR '' '' # r)"
proof -
  consider (word) "list_all word_char (ch # t)" | (quoted) s where "ch # t = quote s" "quotable s" | (pair) "operator_pair (ch # t)"
    | (mark) "t = []" "\<not> is_space ch" "ch \<noteq> quotation_mark" "\<not> word_char ch"
    using assms by (auto simp: lexable_def)
  then show ?thesis
  proof cases
    case word
    then have "takeWhile word_char (ch # t @ CHR '' '' # r) = ch # t" "dropWhile word_char (ch # t @ CHR '' '' # r) = CHR '' '' # r"
      using blank(2) by (simp_all add: list_all_iff takeWhile_append dropWhile_append)
    moreover have "\<not> operator_pair (take 2 (ch # t @ CHR '' '' # r))" "ch \<noteq> quotation_mark" "\<not> is_space ch" "word_char ch"
      using word word_char_not_special [of ch] by (auto simp: operator_pair_def)
    ultimately show ?thesis by (simp add: next_token_def del: takeWhile.simps dropWhile.simps)
  next
    case quoted
    then have ch: "ch = quotation_mark" "t = s @ [quotation_mark]" by (simp_all add: quote_def)
    have "scan_literal [quotation_mark] (s @ quotation_mark # CHR '' '' # r) = (quotation_mark # s @ [quotation_mark], CHR '' '' # r)"
      using scan_literal_quotable [of "[quotation_mark]" s] quoted(2) by (simp add: quotable_def)
    then show ?thesis unfolding ch
      by (simp add: next_token_def operator_pair_def is_space_def quotation_mark_def)
  next
    case pair
    then have "length t = 1" "\<not> is_space ch" by (auto simp: operator_pair_def is_space_def)
    with pair show ?thesis by (cases t) (simp_all add: next_token_def)
  next
    case mark
    then show ?thesis by (auto simp: next_token_def operator_pair_def)
  qed
qed

definition print_tokens :: "string list \<Rightarrow> string" where
  "print_tokens ts = concat (map (\<lambda>t. t @ '' '') ts)"

abbreviation token :: "string \<Rightarrow> Token" where "token t \<equiv> \<lparr>lexeme = t\<rparr>"

lemma Tokenize_print: "\<forall>t \<in> set ts. lexable t \<Longrightarrow> Tokenize (print_tokens ts) = map token ts"
proof (induction ts)
  case (Cons t ts)
  then obtain ch u where "t = ch # u" by (cases t) (auto simp: lexable_def quote_def operator_pair_def)
  with Cons next_token_lexable [of ch u "print_tokens ts"] show ?case by (simp add: print_tokens_def)
qed (simp add: print_tokens_def)

section \<open>Cursors in the middle of a text\<close>

text \<open>The cursor after the tokens \<open>pre\<close>, the last one first, and before the tokens \<open>ts\<close>.\<close>

definition cursor_at :: "string list \<Rightarrow> string list \<Rightarrow> Cursor" where
  "cursor_at pre ts = \<lparr>tokens = map token (rev pre @ ts), pos = length pre\<rparr>"

lemma cursor_at_start: "\<lparr>tokens = map token ts, pos = 0\<rparr> = cursor_at [] ts"
  by (simp add: cursor_at_def)

lemma Has_at [simp]: "Has (cursor_at pre ts) \<longleftrightarrow> ts \<noteq> []"
  by (simp add: Has_def cursor_at_def)

lemma Peek_at [simp]: "Peek (cursor_at pre (t # ts)) = t" "Peek (cursor_at pre []) = []"
  by (simp_all add: Peek_def Has_def cursor_at_def nth_append)

lemma cursor_at_step: "(cursor_at pre (t # ts))\<lparr>pos := Suc (pos (cursor_at pre (t # ts)))\<rparr> = cursor_at (t # pre) ts"
  by (simp add: cursor_at_def)

lemma Take_at [simp]: "Take (cursor_at pre (t # ts)) = Inr (t, cursor_at (t # pre) ts)"
  using cursor_at_step [of pre t ts] by (simp add: Take_def) (simp add: cursor_at_def nth_append)

lemma Match_at [simp]:
  "Match s (cursor_at pre (t # ts)) = (if t = s then (True, cursor_at (t # pre) ts) else (False, cursor_at pre (t # ts)))"
  "Match s (cursor_at pre []) = (False, cursor_at pre [])"
  using cursor_at_step [of pre t ts] by (auto simp: Match_def)

lemma MatchKeyword_at [simp]:
  "MatchKeyword s (cursor_at pre (t # ts)) =
     (if ToUpper t \<noteq> s then Inr (False, cursor_at pre (t # ts))
      else if HasMixedLetterCase t then Inl (''mixed keyword case is not allowed: '' @ t)
      else Inr (True, cursor_at (t # pre) ts))"
  "MatchKeyword s (cursor_at pre []) = Inr (False, cursor_at pre [])"
  using cursor_at_step [of pre t ts] by (simp_all add: MatchKeyword_def)

lemma Expect_at [simp]:
  "Expect s (cursor_at pre (s # ts)) = Inr ((), cursor_at (s # pre) ts)"
  by (simp add: Expect_def)

lemma TakeIdentifier_at [simp]:
  "IsIdentifier t \<Longrightarrow> TakeIdentifier (cursor_at pre (t # ts)) = Inr (t, cursor_at (t # pre) ts)"
  by (simp add: TakeIdentifier_def)

text \<open>The words of the language, as the printer writes them: upper case.\<close>

lemma upper_char [simp]: "\<not> is_lower c \<Longrightarrow> to_upper c = c"
  by (simp add: to_upper_def)

definition upper_word :: "string \<Rightarrow> bool" where
  "upper_word s \<longleftrightarrow> list_all (\<lambda>c. \<not> is_lower c) s"

lemma upper_word_simps [simp]:
  "upper_word s \<Longrightarrow> ToUpper s = s" "upper_word s \<Longrightarrow> \<not> HasMixedLetterCase s"
  by (auto simp: upper_word_def ToUpper_def HasMixedLetterCase_def list_ex_iff list_all_iff intro: map_idI)

lemma ExpectKeyword_at [simp]:
  "upper_word s \<Longrightarrow> ExpectKeyword s (cursor_at pre (s # ts)) = Inr ((), cursor_at (s # pre) ts)"
  by (simp add: ExpectKeyword_def)

lemma upper_words [simp]:
  "upper_word ''BETWEEN''" "upper_word ''LIKE''" "upper_word ''AND''" "upper_word ''OR''" "upper_word ''WHERE''" "upper_word ''AS''"
  "upper_word ''FROM''" "upper_word ''INTO''" "upper_word ''SET''" "upper_word ''TABLE''" "upper_word ''DATABASE''" "upper_word ''VALUES''"
  "upper_word ''NOT_NULL''" "upper_word ''INDEXED''" "upper_word ''DEFAULT''" "upper_word ''INT''" "upper_word ''STRING''" "upper_word ''INDEX''"
  "upper_word ''LATEST''" "upper_word ''EXACT''" "upper_word ''AT_OR_BEFORE''" "upper_word ''SUM''" "upper_word ''COUNT''" "upper_word ''AVG''"
  "upper_word ''CREATE''" "upper_word ''DROP''" "upper_word ''USE''" "upper_word ''INSERT''" "upper_word ''UPDATE''" "upper_word ''DELETE''"
  "upper_word ''SELECT''" "upper_word ''REVERT''" "upper_word ''BEGIN''" "upper_word ''COMMIT''" "upper_word ''ROLLBACK''" "upper_word ''CHECK''"
  "upper_word ''REBUILD''"
  "upper_word ''('' " "upper_word '')'' " "upper_word '',''" "upper_word '';''" "upper_word ''=''" "upper_word ''*''"
  "upper_word ''==''" "upper_word ''!=''" "upper_word ''<''" "upper_word ''>''" "upper_word ''<=''" "upper_word ''>=''"
  by (simp_all add: upper_word_def is_lower_def)

section \<open>Names and literals\<close>

definition name_tokens :: "QualifiedName \<Rightarrow> string list" where
  "name_tokens q = (case database_name q of Some d \<Rightarrow> [d, ''.'', object_name q] | None \<Rightarrow> [object_name q])"

fun value_tokens :: "Value \<Rightarrow> string list" where
  "value_tokens Monostate = [''NULL'']"
| "value_tokens (Int64 w) =
     (if sint w < 0 then [''-'', nat_to_string (nat (- sint w))] else [nat_to_string (nat (sint w))])"
| "value_tokens (Str s) = [quote s]"
| "value_tokens (IStr p) = []"

text \<open>The token after a name is not a dot.\<close>

definition follows :: "string list \<Rightarrow> bool" where
  "follows ts \<longleftrightarrow> (case ts of [] \<Rightarrow> True | t # _ \<Rightarrow> t \<noteq> ''.'')"

lemma follows_simps [simp]: "follows []" "follows (t # ts) \<longleftrightarrow> t \<noteq> ''.''"
  by (simp_all add: follows_def)

lemma ParseQualifiedName_at:
  assumes "accepted_name q" "follows ts"
  shows "ParseQualifiedName (cursor_at pre (name_tokens q @ ts)) = Inr (q, cursor_at (rev (name_tokens q) @ pre) ts)"
proof (cases "database_name q")
  case None
  with assms show ?thesis
    by (cases ts) (auto simp: ParseQualifiedName_def name_tokens_def accepted_name_def intro: QualifiedName.equality)
next
  case (Some d)
  with assms show ?thesis
    by (auto simp: ParseQualifiedName_def name_tokens_def accepted_name_def intro: QualifiedName.equality)
qed

lemma sint_word_range: "- (2 ^ 63) \<le> sint (w :: 64 word)" "sint (w :: 64 word) < 2 ^ 63"
  using sint_greater_eq [of w] sint_less [of w] by simp_all

lemma stoll_sint: "stoll (int_to_string (sint (w :: 64 word))) = Some (sint w, length (int_to_string (sint w)))"
  unfolding stoll_def by (rule scan_signed_int) (use sint_word_range [of w] in simp_all)

lemma ParseLiteral_digit:
  assumes "is_digit c \<or> c = CHR ''-''"
  shows "ParseLiteral (c # s) = (case stoll (c # s) of None \<Rightarrow> Inl ''stoll''
     | Some (v, idx) \<Rightarrow> if idx \<noteq> length (c # s) then Inl (''invalid literal: '' @ c # s) else Inr (Int64 (word_of_int v)))"
  using assms by (auto simp: ParseLiteral_def is_digit_def quotation_mark_def)

lemma ParseLiteral_int: "ParseLiteral (int_to_string (sint w)) = Inr (Int64 w)"
proof -
  obtain c s where c: "int_to_string (sint w) = c # s" "is_digit c \<or> c = CHR ''-''"
    using nat_to_string_Cons [of "nat (sint w)"] unfolding int_to_string_def by (metis (full_types))
  show ?thesis unfolding c(1) ParseLiteral_digit [OF c(2)] using stoll_sint [of w] by (simp add: c(1))
qed

lemma ParseLiteral_quote: "ParseLiteral (quote s) = Inr (Str s)"
  by (simp add: ParseLiteral_def quote_def quotation_mark_def)

lemma nat_to_string_not_sign: "nat_to_string n \<noteq> ''-''"
  using nat_to_string_Cons [of n] digit_not_special by (metis list.inject)

lemma quote_not_mark: "quote s \<noteq> [c]"
  by (simp add: quote_def)

lemma ParseLiteralToken_at:
  assumes "accepted_value quotable v"
  shows "ParseLiteralToken (cursor_at pre (value_tokens v @ ts)) = Inr (v, cursor_at (rev (value_tokens v) @ pre) ts)"
proof (cases v)
  case Monostate
  then show ?thesis by (simp add: ParseLiteralToken_def ParseLiteral_def)
next
  case (Int64 w)
  with ParseLiteral_int [of w] nat_to_string_not_sign show ?thesis
    by (simp add: ParseLiteralToken_def int_to_string_def split: if_splits)
next
  case (Str s)
  then show ?thesis by (simp add: ParseLiteralToken_def ParseLiteral_quote quote_not_mark)
qed (use assms in simp)

section \<open>Expressions\<close>

fun cmp_token :: "ComparisonOperator \<Rightarrow> string" where
  "cmp_token kEqual = ''==''"
| "cmp_token kNotEqual = ''!=''"
| "cmp_token kLess = ''<''"
| "cmp_token kGreater = ''>''"
| "cmp_token kLessEqual = ''<=''"
| "cmp_token kGreaterEqual = ''>=''"

fun logical_token :: "LogicalOperator \<Rightarrow> string" where
  "logical_token kAnd = ''AND''"
| "logical_token kOr = ''OR''"

fun primary_tokens :: "Expression \<Rightarrow> string list" where
  "primary_tokens (LiteralExpression v) = value_tokens v"
| "primary_tokens (ColumnReferenceExpression d t n) = name_tokens \<lparr>database_name = d, object_name = n\<rparr>"
| "primary_tokens (BinaryComparisonExpression op l r) = ''('' # primary_tokens l @ cmp_token op # primary_tokens r @ ['')'']"
| "primary_tokens (LogicalExpression op l r) = ''('' # primary_tokens l @ logical_token op # primary_tokens r @ ['')'']"
| "primary_tokens (BetweenExpression v l u) =
     ''('' # primary_tokens v @ ''BETWEEN'' # primary_tokens l @ ''AND'' # primary_tokens u @ ['')'']"
| "primary_tokens (LikeExpression v p) = ''('' # primary_tokens v @ ''LIKE'' # primary_tokens p @ ['')'']"
| "primary_tokens (AggregateCallExpression k n) = []"

lemma primary_of_expression:
  "ParseExpression (cursor_at (''('' # pre) ts) = Inr (e, cursor_at pre' ('')'' # rest)) \<Longrightarrow>
   ParsePrimary (cursor_at pre (''('' # ts)) = Inr (e, cursor_at ('')'' # pre') rest)"
  by (simp add: ParsePrimary.simps [of "cursor_at pre _"])

lemma predicate_of_primary:
  assumes "ParsePrimary c = Inr (e, cursor_at pre (t # rest))" "t = '')'' \<or> t = '';'' \<or> t = ''AND'' \<or> t = ''OR''"
  shows "ParsePredicate c = Inr (e, cursor_at pre (t # rest))"
  using assms(2) by (auto simp: ParsePredicate.simps [of c] assms(1) ends_predicate_def)

lemma expression_of_predicate:
  assumes "ParsePredicate c = Inr (e, cursor_at pre (t # rest))" "t = '')'' \<or> t = '';''"
  shows "ParseExpression c = Inr (e, cursor_at pre (t # rest))"
  using assms(2) by (auto simp: ParseExpression.simps [of c] ParseAnd.simps [of c] assms(1) and_loop.simps [of e] or_loop.simps [of e])

lemma expression_of_and:
  assumes "ParsePredicate c = Inr (l, cursor_at pre (''AND'' # ts))"
    and "ParsePredicate (cursor_at (''AND'' # pre) ts) = Inr (r, cursor_at pre' ('')'' # rest))"
  shows "ParseExpression c = Inr (LogicalExpression kAnd l r, cursor_at pre' ('')'' # rest))"
  by (simp add: ParseExpression.simps [of c] ParseAnd.simps [of c] assms and_loop.simps [of l]
      and_loop.simps [of "LogicalExpression kAnd l r"] or_loop.simps [of "LogicalExpression kAnd l r"])

lemma expression_of_or:
  assumes "ParsePredicate c = Inr (l, cursor_at pre (''OR'' # ts))"
    and "ParsePredicate (cursor_at (''OR'' # pre) ts) = Inr (r, cursor_at pre' ('')'' # rest))"
  shows "ParseExpression c = Inr (LogicalExpression kOr l r, cursor_at pre' ('')'' # rest))"
  by (simp add: ParseExpression.simps [of c] ParseAnd.simps [of c] ParseAnd.simps [of "cursor_at (''OR'' # pre) ts"] assms
      and_loop.simps [of l] and_loop.simps [of r] or_loop.simps [of l] or_loop.simps [of "LogicalExpression kOr l r"])

text \<open>The first token of a literal that is not null is no word.\<close>

lemma value_not_identifier:
  assumes "accepted_value Q v" "\<not> IsNull v"
  obtains t ts where "value_tokens v = t # ts" "\<not> IsIdentifier t" "t \<noteq> ''(''"
proof (cases v)
  case (Int64 w)
  obtain c s where "nat_to_string (nat (sint w)) = c # s" "is_digit c" by (rule nat_to_string_Cons)
  moreover from this have "\<not> IsIdentifier (c # s)" "c \<noteq> CHR ''(''"
    by (auto simp: IsIdentifier_def is_alpha_def is_upper_def is_lower_def is_digit_def)
  moreover have "\<not> IsIdentifier ''-''" by (simp add: IsIdentifier_def is_alpha_def is_upper_def is_lower_def)
  ultimately show ?thesis using that Int64 by (cases "sint w < 0") auto
next
  case (Str s)
  moreover have "\<not> IsIdentifier (quote s)"
    by (simp add: IsIdentifier_def quote_def quotation_mark_def is_alpha_def is_upper_def is_lower_def)
  ultimately show ?thesis using that by (auto simp: quote_not_mark)
qed (use assms in auto)

lemma name_first:
  assumes "accepted_name q"
  obtains t ts where "name_tokens q = t # ts" "IsIdentifier t" "t \<noteq> ''(''"
proof -
  have "\<not> IsIdentifier ''(''" by (simp add: IsIdentifier_def is_alpha_def is_upper_def is_lower_def)
  then have "t \<noteq> ''(''" if "IsIdentifier t" for t using that by auto
  with assms that show ?thesis by (auto simp: name_tokens_def accepted_name_def split: option.splits)
qed

lemma cmp_token_simps [simp]:
  "ParseCmpOp (cmp_token op) = Inr op" "upper_word (cmp_token op)" "cmp_token op \<noteq> ''BETWEEN''" "cmp_token op \<noteq> ''LIKE''"
  "cmp_token op \<noteq> ''.''" "cmp_token op \<noteq> '')''" "cmp_token op \<noteq> '';''" "cmp_token op \<noteq> ''AND''" "cmp_token op \<noteq> ''OR''"
  by (cases op; simp add: ParseCmpOp_def)+

lemma ParsePrimary_at:
  "accepted_expression quotable e \<Longrightarrow> follows rest \<Longrightarrow>
   ParsePrimary (cursor_at pre (primary_tokens e @ rest)) = Inr (e, cursor_at (rev (primary_tokens e) @ pre) rest)"
proof (induction e arbitrary: pre rest)
  case (LiteralExpression v)
  then obtain t ts where t: "value_tokens v = t # ts" "\<not> IsIdentifier t" "t \<noteq> ''(''"
    using value_not_identifier [of quotable v] by auto
  with LiteralExpression ParseLiteralToken_at [of v pre rest] show ?case
    by (simp add: ParsePrimary.simps [of "cursor_at pre _"])
next
  case (ColumnReferenceExpression d u n)
  let ?q = "\<lparr>database_name = d, object_name = n\<rparr>"
  from ColumnReferenceExpression have q: "accepted_name ?q" "u = None" by simp_all
  from q(1) obtain t ts where t: "name_tokens ?q = t # ts" "IsIdentifier t" "t \<noteq> ''(''" by (rule name_first)
  with ParseQualifiedName_at [OF q(1) ColumnReferenceExpression(2), of pre] q(2) show ?case
    by (simp add: ParsePrimary.simps [of "cursor_at pre _"])
next
  case (BinaryComparisonExpression op l r)
  have "ParsePredicate (cursor_at (''('' # pre) (primary_tokens l @ cmp_token op # primary_tokens r @ '')'' # rest))
    = Inr (BinaryComparisonExpression op l r,
        cursor_at (rev (primary_tokens r) @ cmp_token op # rev (primary_tokens l) @ ''('' # pre) ('')'' # rest))"
    using BinaryComparisonExpression by (simp add: ParsePredicate.simps [of "cursor_at (''('' # pre) _"] ends_predicate_def)
  from primary_of_expression [OF expression_of_predicate [OF this]] show ?case by simp
next
  case (LogicalExpression op l r)
  have l: "ParsePredicate (cursor_at (''('' # pre) (primary_tokens l @ t # ts)) = Inr (l, cursor_at (rev (primary_tokens l) @ ''('' # pre) (t # ts))"
    if "t = ''AND'' \<or> t = ''OR''" for t ts
    by (rule predicate_of_primary) (use that LogicalExpression in auto)
  have r: "ParsePredicate (cursor_at pre' (primary_tokens r @ '')'' # rest)) = Inr (r, cursor_at (rev (primary_tokens r) @ pre') ('')'' # rest))" for pre'
    by (rule predicate_of_primary) (use LogicalExpression in auto)
  show ?case
  proof (cases op)
    case kAnd
    from primary_of_expression [OF expression_of_and [OF l r]] kAnd show ?thesis by simp
  next
    case kOr
    from primary_of_expression [OF expression_of_or [OF l r]] kOr show ?thesis by simp
  qed
next
  case (BetweenExpression v l u)
  have "ParsePredicate (cursor_at (''('' # pre) (primary_tokens v @ ''BETWEEN'' # primary_tokens l @ ''AND'' # primary_tokens u @ '')'' # rest))
    = Inr (BetweenExpression v l u, cursor_at (rev (primary_tokens u) @ ''AND'' # rev (primary_tokens l) @ ''BETWEEN'' #
        rev (primary_tokens v) @ ''('' # pre) ('')'' # rest))"
    using BetweenExpression by (simp add: ParsePredicate.simps [of "cursor_at (''('' # pre) _"])
  from primary_of_expression [OF expression_of_predicate [OF this]] show ?case by simp
next
  case (LikeExpression v p)
  have "ParsePredicate (cursor_at (''('' # pre) (primary_tokens v @ ''LIKE'' # primary_tokens p @ '')'' # rest))
    = Inr (LikeExpression v p, cursor_at (rev (primary_tokens p) @ ''LIKE'' # rev (primary_tokens v) @ ''('' # pre) ('')'' # rest))"
    using LikeExpression by (simp add: ParsePredicate.simps [of "cursor_at (''('' # pre) _"])
  from primary_of_expression [OF expression_of_predicate [OF this]] show ?case by simp
qed simp

end
