(* ===== verification/Parser_Roundtrip.thy ===== *)
theory Parser_Roundtrip
  imports Parser_Print
begin

text \<open>
  The tokens of the statements, and the properties of the parser as a whole: it only returns accepted statements, it
  returns every one of them on its printed text, and its exceptions never leave it.
\<close>

section \<open>Lists\<close>

fun comma_tokens :: "string list list \<Rightarrow> string list" where
  "comma_tokens [] = []"
| "comma_tokens [x] = x"
| "comma_tokens (x # y # xs) = x @ '','' # comma_tokens (y # xs)"

lemma comma_tokens_Cons: "xs \<noteq> [] \<Longrightarrow> comma_tokens (x # xs) = x @ '','' # comma_tokens xs"
  by (cases xs) auto

lemma set_comma_tokens: "t \<in> set (comma_tokens xs) \<Longrightarrow> t = '','' \<or> (\<exists>x \<in> set xs. t \<in> set x)"
  by (induction xs rule: comma_tokens.induct) auto

fun type_token :: "ValueType \<Rightarrow> string" where
  "type_token kInt64 = ''INT''"
| "type_token kString = ''STRING''"
| "type_token kNull = []"

definition constraint_tokens :: "AstColumn \<Rightarrow> string list" where
  "constraint_tokens col =
     (if ast_not_null col then [''NOT_NULL''] else []) @ (if ast_indexed col then [''INDEXED''] else []) @
     (case ast_default col of Some v \<Rightarrow> ''DEFAULT'' # value_tokens v | None \<Rightarrow> [])"

definition column_tokens :: "AstColumn \<Rightarrow> string list" where
  "column_tokens col = ast_name col # type_token (ast_type col) # constraint_tokens col"

lemma column_constraints_at:
  "column_constraints col (cursor_at pre (''NOT_NULL'' # ts)) =
     column_constraints (col\<lparr>ast_not_null := True\<rparr>) (cursor_at (''NOT_NULL'' # pre) ts)"
  "column_constraints col (cursor_at pre (''INDEXED'' # ts)) =
     column_constraints (col\<lparr>ast_indexed := True, ast_not_null := True\<rparr>) (cursor_at (''INDEXED'' # pre) ts)"
  "accepted_value quotable v \<Longrightarrow> column_constraints col (cursor_at pre (''DEFAULT'' # value_tokens v @ ts)) =
     column_constraints (col\<lparr>ast_default := Some v\<rparr>) (cursor_at (rev (value_tokens v) @ ''DEFAULT'' # pre) ts)"
  "t = '')'' \<or> t = '','' \<Longrightarrow> column_constraints col (cursor_at pre (t # ts)) = Inr (col, cursor_at pre (t # ts))"
  by (auto simp: column_constraints.simps [of col] ParseLiteralToken_at)

lemma column_constraints_print:
  assumes "accepted_column quotable col" "t = '')'' \<or> t = '',''"
  shows "column_constraints \<lparr>ast_name = ast_name col, ast_type = ast_type col, ast_not_null = False, ast_indexed = False, ast_default = None\<rparr>
      (cursor_at pre (constraint_tokens col @ t # ts)) = Inr (col, cursor_at (rev (constraint_tokens col) @ pre) (t # ts))"
  using assms
  by (cases col; cases "ast_default col")
    (auto simp: constraint_tokens_def column_constraints_at accepted_column_def)

lemma column_list_at:
  "cols \<noteq> [] \<Longrightarrow> list_all (accepted_column quotable) cols \<Longrightarrow>
   column_list acc (cursor_at pre (comma_tokens (map column_tokens cols) @ '')'' # ts)) =
     Inr (acc @ cols, cursor_at ('')'' # rev (comma_tokens (map column_tokens cols)) @ pre) ts)"
proof (induction cols arbitrary: acc pre)
  case (Cons col cols)
  from Cons.prems have col: "accepted_column quotable col" by simp
  then have type: "column_type (ToUpper (type_token (ast_type col))) = Inr (ast_type col)" "IsIdentifier (ast_name col)"
    by (auto simp: accepted_column_def column_type_def)
  show ?case
  proof (cases "cols = []")
    case True
    then show ?thesis
      using type column_constraints_print [OF col, of "'')''"] by (simp add: column_list.simps [of acc] column_tokens_def)
  next
    case False
    then show ?thesis
      using Cons type column_constraints_print [OF col, of "'',''"]
      by (simp add: comma_tokens_Cons column_list.simps [of acc] column_tokens_def)
  qed
qed simp

lemma identifier_not_mark: "IsIdentifier t \<Longrightarrow> \<not> word_char c \<Longrightarrow> t \<noteq> [c]"
  by (auto simp: IsIdentifier_def split: if_splits)

lemma name_list_at:
  "names \<noteq> [] \<Longrightarrow> list_all IsIdentifier names \<Longrightarrow>
   name_list acc (cursor_at pre (comma_tokens (map (\<lambda>n. [n]) names) @ '')'' # ts)) =
     Inr (acc @ names, cursor_at ('')'' # rev (comma_tokens (map (\<lambda>n. [n]) names)) @ pre) ts)"
proof (induction names arbitrary: acc pre)
  case (Cons n names)
  then show ?case by (cases "names = []") (simp_all add: comma_tokens_Cons name_list.simps [of acc])
qed simp

fun literal_tokens :: "Expression \<Rightarrow> string list" where
  "literal_tokens (LiteralExpression v) = value_tokens v"
| "literal_tokens _ = []"

definition row_tokens :: "Expression list \<Rightarrow> string list" where
  "row_tokens row = ''('' # comma_tokens (map literal_tokens row) @ ['')'']"

lemma value_list_at:
  "row \<noteq> [] \<Longrightarrow> list_all (accepted_literal quotable) row \<Longrightarrow>
   value_list acc (cursor_at pre (comma_tokens (map literal_tokens row) @ '')'' # ts)) =
     Inr (acc @ row, cursor_at ('')'' # rev (comma_tokens (map literal_tokens row)) @ pre) ts)"
proof (induction row arbitrary: acc pre)
  case (Cons e row)
  then obtain v where "e = LiteralExpression v" "accepted_value quotable v" by (cases e) auto
  with Cons show ?case
    by (cases "row = []") (simp_all add: comma_tokens_Cons value_list.simps [of acc] ParseLiteralToken_at)
qed simp

lemma row_list_at:
  "rows \<noteq> [] \<Longrightarrow> list_all (\<lambda>row. row \<noteq> [] \<and> list_all (accepted_literal quotable) row) rows \<Longrightarrow> t \<noteq> '','' \<Longrightarrow>
   row_list acc (cursor_at pre (comma_tokens (map row_tokens rows) @ t # ts)) =
     Inr (acc @ rows, cursor_at (rev (comma_tokens (map row_tokens rows)) @ pre) (t # ts))"
proof (induction rows arbitrary: acc pre)
  case (Cons row rows)
  then show ?case
    by (cases "rows = []") (simp_all add: comma_tokens_Cons row_list.simps [of acc] row_tokens_def value_list_at)
qed simp

definition assignment_tokens :: "Assignment \<Rightarrow> string list" where
  "assignment_tokens a = fst a # ''='' # primary_tokens (snd a)"

lemma assignment_list_at:
  "as \<noteq> [] \<Longrightarrow> list_all (\<lambda>(n, v). IsIdentifier n \<and> accepted_expression quotable v) as \<Longrightarrow> t \<noteq> '','' \<Longrightarrow> t \<noteq> ''.'' \<Longrightarrow>
   assignment_list acc (cursor_at pre (comma_tokens (map assignment_tokens as) @ t # ts)) =
     Inr (acc @ as, cursor_at (rev (comma_tokens (map assignment_tokens as)) @ pre) (t # ts))"
proof (induction as arbitrary: acc pre)
  case (Cons a as)
  then show ?case
    by (cases "as = []"; cases a)
      (simp_all add: comma_tokens_Cons assignment_list.simps [of acc] assignment_tokens_def ParsePrimary_at)
qed simp

fun aggregate_token :: "AggregateKind \<Rightarrow> string" where
  "aggregate_token kSum = ''SUM''"
| "aggregate_token kCount = ''COUNT''"
| "aggregate_token kAvg = ''AVG''"

definition item_tokens :: "SelectItem \<Rightarrow> string list" where
  "item_tokens item =
     (case item_aggregate item of
        Some agg \<Rightarrow> [aggregate_token agg, ''('', item_column item, '')'']
      | None \<Rightarrow> [item_column item]) @
     (case item_alias item of Some a \<Rightarrow> [''AS'', a] | None \<Rightarrow> [])"

lemma ParseAgg_token [simp]: "ParseAgg (aggregate_token agg) = Some agg"
  by (cases agg) (simp_all add: ParseAgg_def)

lemma item_at:
  assumes "accepted_item item" "t = '','' \<or> t = ''FROM''"
  shows "parse_bind (item_source (cursor_at pre (item_tokens item @ t # ts))) (\<lambda>source c. parse_bind (item_as c) (\<lambda>alias c. f source alias c)) =
    f (item_column item, item_aggregate item) (item_alias item) (cursor_at (rev (item_tokens item) @ pre) (t # ts))"
proof -
  have star: "\<not> IsIdentifier ''*''" by (simp add: IsIdentifier_def is_alpha_def is_upper_def is_lower_def)
  have as: "item_as (cursor_at p ((case item_alias item of Some a \<Rightarrow> [''AS'', a] | None \<Rightarrow> []) @ t # ts)) =
      Inr (item_alias item, cursor_at (rev (case item_alias item of Some a \<Rightarrow> [''AS'', a] | None \<Rightarrow> []) @ p) (t # ts))" for p
    using assms by (auto simp: item_as_def accepted_item_def split: option.splits)
  show ?thesis
  proof (cases "item_aggregate item")
    case None
    with assms(1) as show ?thesis by (simp add: item_tokens_def item_source_def accepted_item_def)
  next
    case (Some agg)
    with assms(1) as star show ?thesis by (auto simp: item_tokens_def item_source_def accepted_item_def)
  qed
qed

lemma item_list_at:
  "items \<noteq> [] \<Longrightarrow> list_all accepted_item items \<Longrightarrow>
   item_list acc (cursor_at pre (comma_tokens (map item_tokens items) @ ''FROM'' # ts)) =
     Inr (acc @ items, cursor_at (rev (comma_tokens (map item_tokens items)) @ pre) (''FROM'' # ts))"
proof (induction items arbitrary: acc pre)
  case (Cons item items)
  then have item: "accepted_item item" by simp
  then have "\<lparr>is_wildcard = False, item_column = item_column item, item_alias = item_alias item, item_aggregate = item_aggregate item\<rparr> = item"
    by (simp add: accepted_item_def)
  with Cons show ?case
    by (cases "items = []") (simp_all add: comma_tokens_Cons item_list.simps [of acc] item_at [OF item])
qed simp

definition where_tokens :: "Expression option \<Rightarrow> string list" where
  "where_tokens w = (case w of Some e \<Rightarrow> ''WHERE'' # primary_tokens e | None \<Rightarrow> [])"

lemma ParseWhere_at:
  assumes "accepted_where quotable w"
  shows "ParseWhere (cursor_at pre (where_tokens w @ ['';''])) = Inr (w, cursor_at (rev (where_tokens w) @ pre) ['';''])"
proof (cases w)
  case None
  then show ?thesis by (simp add: ParseWhere_def where_tokens_def)
next
  case (Some e)
  with assms have "ParsePrimary (cursor_at (''WHERE'' # pre) (primary_tokens e @ ['';''])) =
      Inr (e, cursor_at (rev (primary_tokens e) @ ''WHERE'' # pre) ['';''])"
    by (intro ParsePrimary_at) (simp_all add: accepted_where_def)
  from expression_of_predicate [OF predicate_of_primary [OF this]] Some show ?thesis
    by (simp add: ParseWhere_def where_tokens_def)
qed

section \<open>Statements\<close>

text \<open>The condition on the strings of a statement: a timestamp is printed as a quoted string too.\<close>

definition printable :: "Statement \<Rightarrow> bool" where
  "printable stmt \<longleftrightarrow> accepted quotable stmt \<and> (case stmt of RevertStmt r \<Rightarrow> quotable (revert_timestamp r) | _ \<Rightarrow> True)"

fun statement_tokens :: "Statement \<Rightarrow> string list" where
  "statement_tokens (UnknownStatement s) = []"
| "statement_tokens (CreateDatabaseStatement n) = [''CREATE'', ''DATABASE'', n]"
| "statement_tokens (DropDatabaseStatement n) = [''DROP'', ''DATABASE'', n]"
| "statement_tokens (UseDatabaseStatement n) = [''USE'', n]"
| "statement_tokens (CreateTableStatement q cols) =
     [''CREATE'', ''TABLE''] @ name_tokens q @ ''('' # comma_tokens (map column_tokens cols) @ ['')'']"
| "statement_tokens (DropTableStatement q) = [''DROP'', ''TABLE''] @ name_tokens q"
| "statement_tokens (InsertStmt ins) =
     [''INSERT'', ''INTO''] @ name_tokens (insert_table ins) @ ''('' # comma_tokens (map (\<lambda>n. [n]) (insert_columns ins)) @
     [ '')'', ''VALUES''] @ comma_tokens (map row_tokens (insert_rows ins))"
| "statement_tokens (UpdateStmt upd) =
     ''UPDATE'' # name_tokens (update_table upd) @ ''SET'' # comma_tokens (map assignment_tokens (assignments upd)) @
     where_tokens (update_where upd)"
| "statement_tokens (DeleteStmt del) =
     [''DELETE'', ''FROM''] @ name_tokens (delete_table del) @ where_tokens (delete_where del)"
| "statement_tokens (SelectStmt sel) =
     ''SELECT'' # (if map is_wildcard (select_items sel) = [True] then [''*''] else comma_tokens (map item_tokens (select_items sel))) @
     ''FROM'' # name_tokens (select_table sel) @ where_tokens (select_where sel)"
| "statement_tokens (RevertStmt r) =
     ''REVERT'' # name_tokens (revert_table r) @
     (case revert_mode r of
        kLatest \<Rightarrow> [''LATEST'']
      | kExact \<Rightarrow> [''EXACT'', quote (revert_timestamp r)]
      | kAtOrBefore \<Rightarrow> [''AT_OR_BEFORE'', quote (revert_timestamp r)])"
| "statement_tokens BeginTransactionStatement = [''BEGIN'']"
| "statement_tokens CommitTransactionStatement = [''COMMIT'']"
| "statement_tokens RollbackTransactionStatement = [''ROLLBACK'']"
| "statement_tokens CheckIndexStatement = [''CHECK'', ''INDEX'']"
| "statement_tokens RebuildIndexStatement = [''REBUILD'', ''INDEX'']"

definition to_sql :: "Statement \<Rightarrow> string" where
  "to_sql stmt = print_tokens (statement_tokens stmt @ ['';''])"

lemma dispatch_at:
  "dispatch statement_parsers (cursor_at [] (''CREATE'' # ts)) = ParseCreate (cursor_at [''CREATE''] ts)"
  "dispatch statement_parsers (cursor_at [] (''DROP'' # ts)) = ParseDrop (cursor_at [''DROP''] ts)"
  "dispatch statement_parsers (cursor_at [] (''USE'' # ts)) = ParseUse (cursor_at [''USE''] ts)"
  "dispatch statement_parsers (cursor_at [] (''INSERT'' # ts)) = ParseInsert (cursor_at [''INSERT''] ts)"
  "dispatch statement_parsers (cursor_at [] (''UPDATE'' # ts)) = ParseUpdate (cursor_at [''UPDATE''] ts)"
  "dispatch statement_parsers (cursor_at [] (''DELETE'' # ts)) = ParseDelete (cursor_at [''DELETE''] ts)"
  "dispatch statement_parsers (cursor_at [] (''SELECT'' # ts)) = ParseSelect (cursor_at [''SELECT''] ts)"
  "dispatch statement_parsers (cursor_at [] (''REVERT'' # ts)) = ParseRevert (cursor_at [''REVERT''] ts)"
  "dispatch statement_parsers (cursor_at [] (''BEGIN'' # ts)) = ParseBegin (cursor_at [''BEGIN''] ts)"
  "dispatch statement_parsers (cursor_at [] (''COMMIT'' # ts)) = ParseCommit (cursor_at [''COMMIT''] ts)"
  "dispatch statement_parsers (cursor_at [] (''ROLLBACK'' # ts)) = ParseRollback (cursor_at [''ROLLBACK''] ts)"
  "dispatch statement_parsers (cursor_at [] (''CHECK'' # ts)) = ParseCheck (cursor_at [''CHECK''] ts)"
  "dispatch statement_parsers (cursor_at [] (''REBUILD'' # ts)) = ParseRebuild (cursor_at [''REBUILD''] ts)"
  by (simp_all add: statement_parsers_def)

text \<open>Reading back one kind of statement: the whole text is consumed up to the semicolon.\<close>

definition reads :: "Statement \<Rightarrow> bool" where
  "reads stmt \<longleftrightarrow> dispatch statement_parsers (cursor_at [] (statement_tokens stmt @ ['';''])) =
     Inr (stmt, cursor_at (rev (statement_tokens stmt)) ['';''])"

lemma reads_create:
  assumes "accepted quotable (CreateTableStatement q cols)"
  shows "reads (CreateTableStatement q cols)"
  using assms ParseQualifiedName_at [of q "''('' # comma_tokens (map column_tokens cols) @ [ '')'', '';'']" "[''TABLE'', ''CREATE'']"]
  by (simp add: reads_def dispatch_at ParseCreate_def column_list_at)

lemma reads_insert:
  assumes "accepted quotable (InsertStmt ins)"
  shows "reads (InsertStmt ins)"
proof -
  have "list_all (\<lambda>row. row \<noteq> [] \<and> list_all (accepted_literal quotable) row) (insert_rows ins)"
    using assms by (auto simp: list_all_iff)
  with assms show ?thesis
    by (simp add: reads_def dispatch_at ParseInsert_def ParseQualifiedName_at name_list_at row_list_at)
qed

lemma where_first: "where_tokens w @ ['';''] = t # ts \<Longrightarrow> t = ''WHERE'' \<or> t = '';''"
  by (auto simp: where_tokens_def split: option.splits)

lemma where_follows [simp]: "follows (where_tokens w @ ['';''])"
  by (simp add: where_tokens_def split: option.splits)

lemma reads_update:
  assumes "accepted quotable (UpdateStmt upd)"
  shows "reads (UpdateStmt upd)"
proof -
  obtain t ts where t: "where_tokens (update_where upd) @ ['';''] = t # ts" "t = ''WHERE'' \<or> t = '';''"
    using where_first by (cases "where_tokens (update_where upd) @ ['';'']") auto
  have "assignment_list [] (cursor_at pre (comma_tokens (map assignment_tokens (assignments upd)) @ where_tokens (update_where upd) @ ['';'']))
      = Inr (assignments upd, cursor_at (rev (comma_tokens (map assignment_tokens (assignments upd))) @ pre) (where_tokens (update_where upd) @ ['';'']))" for pre
    unfolding t(1) using assms t(2) assignment_list_at [of "assignments upd" t "[]"] by auto
  with assms show ?thesis
    by (simp add: reads_def dispatch_at ParseUpdate_def ParseQualifiedName_at ParseWhere_at)
qed

lemma reads_delete:
  assumes "accepted quotable (DeleteStmt del)"
  shows "reads (DeleteStmt del)"
  using assms by (simp add: reads_def dispatch_at ParseDelete_def ParseQualifiedName_at ParseWhere_at)

lemma item_first:
  assumes "accepted_item item"
  obtains t ts where "item_tokens item = t # ts" "t \<noteq> ''*''"
proof (cases "item_aggregate item")
  case None
  with assms identifier_not_mark [of "item_column item" "CHR ''*''"] that show ?thesis
    by (auto simp: item_tokens_def accepted_item_def is_alnum_def is_alpha_def is_upper_def is_lower_def is_digit_def)
next
  case (Some agg)
  with that show ?thesis by (cases agg) (auto simp: item_tokens_def)
qed

lemma reads_select:
  assumes "accepted quotable (SelectStmt sel)"
  shows "reads (SelectStmt sel)"
proof (cases "map is_wildcard (select_items sel) = [True]")
  case True
  then have "select_items sel = [\<lparr>is_wildcard = True, item_column = [], item_alias = None, item_aggregate = None\<rparr>]"
    using assms by (auto simp: accepted_items_def accepted_item_def)
  with assms True show ?thesis
    by (simp add: reads_def dispatch_at ParseSelect_def ParseQualifiedName_at ParseWhere_at)
next
  case False
  then have items: "select_items sel \<noteq> []" "list_all accepted_item (select_items sel)"
    using assms by (auto simp: accepted_items_def)
  then obtain t ts where t: "comma_tokens (map item_tokens (select_items sel)) = t # ts" "t \<noteq> ''*''"
  proof (cases "select_items sel")
    case (Cons item more)
    with items item_first [of item] obtain t ts where "item_tokens item = t # ts" "t \<noteq> ''*''" by auto
    with that Cons show ?thesis by (cases more) auto
  qed simp
  have "item_list [] (cursor_at pre (comma_tokens (map item_tokens (select_items sel)) @ ''FROM'' # us)) = Inr (select_items sel,
      cursor_at (rev (comma_tokens (map item_tokens (select_items sel))) @ pre) (''FROM'' # us))" for pre us
    using item_list_at [OF items, of "[]"] by simp
  with assms False t show ?thesis
    by (simp add: reads_def dispatch_at ParseSelect_def ParseQualifiedName_at ParseWhere_at)
qed

lemma strip_quotes_quote [simp]: "strip_quotes (quote s) = s"
  by (simp add: strip_quotes_def quote_def)

lemma ToUpper_quote [simp]: "ToUpper (quote s) \<noteq> CHR ''L'' # w" "ToUpper (quote s) \<noteq> CHR ''E'' # w" "ToUpper (quote s) \<noteq> CHR ''A'' # w"
  by (simp_all add: ToUpper_def quote_def quotation_mark_def is_lower_def)

lemma reads_revert:
  assumes "accepted quotable (RevertStmt r)"
  shows "reads (RevertStmt r)"
  using assms
  by (cases "revert_mode r")
    (auto simp: reads_def dispatch_at ParseRevert_def ParseQualifiedName_at intro: RevertStatement.equality)

lemma reads_other:
  "IsIdentifier n \<Longrightarrow> reads (CreateDatabaseStatement n)" "IsIdentifier n \<Longrightarrow> reads (DropDatabaseStatement n)"
  "IsIdentifier n \<Longrightarrow> reads (UseDatabaseStatement n)" "accepted_name q \<Longrightarrow> reads (DropTableStatement q)"
  "reads BeginTransactionStatement" "reads CommitTransactionStatement" "reads RollbackTransactionStatement"
  "reads CheckIndexStatement" "reads RebuildIndexStatement"
  by (simp_all add: reads_def dispatch_at ParseCreate_def ParseDrop_def ParseUse_def ParseQualifiedName_at ParseBegin_def ParseCommit_def
      ParseRollback_def ParseCheck_def ParseRebuild_def)

lemma accepted_reads: "accepted quotable stmt \<Longrightarrow> reads stmt"
  using reads_create reads_insert reads_update reads_delete reads_select reads_revert reads_other
  by (cases stmt) (simp_all del: accepted.simps(5,7-11))

section \<open>The tokens are read back\<close>

lemma lexable_word: "t \<noteq> [] \<Longrightarrow> list_all word_char t \<Longrightarrow> lexable t"
  by (simp add: lexable_def)

lemma lexable_identifier: "IsIdentifier t \<Longrightarrow> lexable t"
  by (rule lexable_word) (auto simp: IsIdentifier_def split: list.splits if_splits)

lemma lexable_fixed [simp]:
  "lexable ''BETWEEN''" "lexable ''LIKE''" "lexable ''AND''" "lexable ''OR''" "lexable ''WHERE''" "lexable ''AS''"
  "lexable ''FROM''" "lexable ''INTO''" "lexable ''SET''" "lexable ''TABLE''" "lexable ''DATABASE''" "lexable ''VALUES''"
  "lexable ''NOT_NULL''" "lexable ''INDEXED''" "lexable ''DEFAULT''" "lexable ''INT''" "lexable ''STRING''" "lexable ''INDEX''"
  "lexable ''LATEST''" "lexable ''EXACT''" "lexable ''AT_OR_BEFORE''" "lexable ''SUM''" "lexable ''COUNT''" "lexable ''AVG''"
  "lexable ''CREATE''" "lexable ''DROP''" "lexable ''USE''" "lexable ''INSERT''" "lexable ''UPDATE''" "lexable ''DELETE''"
  "lexable ''SELECT''" "lexable ''REVERT''" "lexable ''BEGIN''" "lexable ''COMMIT''" "lexable ''ROLLBACK''" "lexable ''CHECK''"
  "lexable ''REBUILD''" "lexable ''NULL''"
  by (rule lexable_word; simp add: is_alnum_def is_alpha_def is_upper_def)+

lemma lexable_mark [simp]:
  "lexable ''('' " "lexable '')'' " "lexable '',''" "lexable '';''" "lexable ''=''" "lexable ''*''" "lexable ''.''" "lexable ''-''"
  "lexable ''<''" "lexable ''>''"
  by (simp_all add: lexable_def is_space_def quotation_mark_def is_alnum_def is_alpha_def is_upper_def is_lower_def is_digit_def)

lemma lexable_operator [simp]: "lexable (cmp_token op)" "lexable (logical_token lop)" "lexable (aggregate_token agg)"
proof -
  have "lexable ''==''" "lexable ''!=''" "lexable ''<=''" "lexable ''>=''" by (simp_all add: lexable_def operator_pair_def)
  then show "lexable (cmp_token op)" by (cases op) simp_all
  show "lexable (logical_token lop)" by (cases lop) simp_all
  show "lexable (aggregate_token agg)" by (cases agg) simp_all
qed

lemma lexable_nat [simp]: "lexable (nat_to_string n)"
  by (rule lexable_word) (use nat_to_string_all_digits in \<open>auto simp: list_all_iff is_alnum_def\<close>)

lemma lexable_quote [simp]: "quotable s \<Longrightarrow> lexable (quote s)"
  by (auto simp: lexable_def)

abbreviation all_lexable :: "string list \<Rightarrow> bool" where "all_lexable ts \<equiv> \<forall>t \<in> set ts. lexable t"

lemma lexable_comma: "(\<And>x. x \<in> set xs \<Longrightarrow> all_lexable (f x)) \<Longrightarrow> all_lexable (comma_tokens (map f xs))"
  using set_comma_tokens [of _ "map f xs"] by fastforce

lemma lexable_name: "accepted_name q \<Longrightarrow> all_lexable (name_tokens q)"
  by (auto simp: name_tokens_def accepted_name_def lexable_identifier split: option.splits)

lemma lexable_value: "accepted_value quotable v \<Longrightarrow> all_lexable (value_tokens v)"
  by (cases v) auto

lemma lexable_primary: "accepted_expression quotable e \<Longrightarrow> all_lexable (primary_tokens e)"
  by (induction e) (auto dest: lexable_name lexable_value)

lemma lexable_where: "accepted_where quotable w \<Longrightarrow> all_lexable (where_tokens w)"
  using lexable_primary by (auto simp: where_tokens_def accepted_where_def split: option.splits)

lemma lexable_column: "accepted_column quotable col \<Longrightarrow> all_lexable (column_tokens col)"
  using lexable_value
  by (auto simp: column_tokens_def constraint_tokens_def accepted_column_def lexable_identifier split: option.splits)

lemma lexable_literal: "accepted_literal quotable e \<Longrightarrow> all_lexable (literal_tokens e)"
  using lexable_value by (cases e) auto

lemma lexable_item: "accepted_item item \<Longrightarrow> all_lexable (item_tokens item)"
  by (auto simp: item_tokens_def accepted_item_def lexable_identifier split: option.splits)

lemma lexable_row: "list_all (accepted_literal quotable) row \<Longrightarrow> all_lexable (row_tokens row)"
  using lexable_comma [of row literal_tokens] lexable_literal by (auto simp: row_tokens_def list_all_iff)

lemma lexable_items: "accepted_items items \<Longrightarrow> map is_wildcard items \<noteq> [True] \<Longrightarrow> all_lexable (comma_tokens (map item_tokens items))"
  by (rule lexable_comma) (auto simp: accepted_items_def list_all_iff dest: lexable_item)

lemma lexable_assignments:
  "list_all (\<lambda>(n, v). IsIdentifier n \<and> accepted_expression quotable v) as \<Longrightarrow> all_lexable (comma_tokens (map assignment_tokens as))"
  by (rule lexable_comma)
    (use lexable_primary in \<open>fastforce simp: assignment_tokens_def list_all_iff lexable_identifier\<close>)

lemma lexable_columns: "list_all (accepted_column quotable) cols \<Longrightarrow> all_lexable (comma_tokens (map column_tokens cols))"
  by (rule lexable_comma) (auto simp: list_all_iff dest: lexable_column)

lemma lexable_names: "list_all IsIdentifier names \<Longrightarrow> all_lexable (comma_tokens (map (\<lambda>n. [n]) names))"
  by (rule lexable_comma) (auto simp: list_all_iff lexable_identifier)

lemma lexable_rows: "list_all (\<lambda>row. length row = n \<and> list_all (accepted_literal quotable) row) rows \<Longrightarrow> all_lexable (comma_tokens (map row_tokens rows))"
  by (rule lexable_comma) (use lexable_row in \<open>fastforce simp: list_all_iff\<close>)

lemmas lexable_parts = lexable_name lexable_where lexable_items lexable_assignments lexable_columns lexable_names lexable_rows

lemma lexable_statement:
  assumes "printable stmt"
  shows "all_lexable (statement_tokens stmt)"
proof (cases stmt)
  case (InsertStmt ins)
  with assms have "all_lexable (name_tokens (insert_table ins))" "all_lexable (comma_tokens (map (\<lambda>n. [n]) (insert_columns ins)))"
    "all_lexable (comma_tokens (map row_tokens (insert_rows ins)))"
    by (auto simp: printable_def intro!: lexable_name lexable_names lexable_rows)
  then show ?thesis by (auto simp: InsertStmt)
next
  case (RevertStmt r)
  with assms show ?thesis by (auto simp: printable_def dest: lexable_name split: RevertMode.splits)
qed (use assms in \<open>auto simp: printable_def lexable_identifier dest!: lexable_parts split: if_splits\<close>)

lemma accepted_select_valid:
  assumes "accepted_items (select_items sel)"
  shows "ValidateSelect sel = None"
proof (cases "select_items sel = [\<lparr>is_wildcard = True, item_column = [], item_alias = None, item_aggregate = None\<rparr>]")
  case True
  then show ?thesis by (simp add: ValidateSelect_def Let_def)
next
  case False
  with assms have items: "select_items sel \<noteq> []" "\<forall>item \<in> set (select_items sel). accepted_item item"
    "(\<forall>item \<in> set (select_items sel). item_aggregate item = None) \<or> (\<forall>item \<in> set (select_items sel). item_aggregate item \<noteq> None)"
    by (auto simp: accepted_items_def list_all_iff)
  have star: "\<not> IsIdentifier ''*''" by (simp add: IsIdentifier_def is_alpha_def is_upper_def is_lower_def)
  have "\<not> list_ex is_wildcard (select_items sel)"
    using items(2) by (auto simp: list_ex_iff accepted_item_def)
  moreover have "\<not> list_ex (\<lambda>item. item_aggregate item \<noteq> None \<and> item_column item = ''*'' \<and> item_aggregate item \<noteq> Some kCount) (select_items sel)"
    using items(2) star by (force simp: list_ex_iff accepted_item_def split: option.splits)
  moreover have "\<not> (list_ex (\<lambda>item. item_aggregate item \<noteq> None) (select_items sel) \<and>
      list_ex (\<lambda>item. \<not> item_aggregate item \<noteq> None) (select_items sel))"
    using items(3) by (auto simp: list_ex_iff)
  ultimately show ?thesis using items(1) by (auto simp: ValidateSelect_def Let_def)
qed

lemma accepted_valid: "accepted Q stmt \<Longrightarrow> ValidateStatement stmt = None"
  by (cases stmt)
    (auto simp: ValidateStatement_def ValidateCreateTable_def validate_columns_None ValidateInsert_None ValidateUpdate_def
      validate_names_None accepted_select_valid list_all_iff accepted_column_def split: option.splits)

text \<open>Any text with the tokens of a statement is read as the statement.\<close>

lemma Parse_tokens:
  assumes "accepted quotable stmt" "Tokenize sql = map token (statement_tokens stmt @ ['';''])"
  shows "Parse sql = Inr stmt"
proof -
  have c: "\<lparr>tokens = Tokenize sql, pos = 0\<rparr> = cursor_at [] (statement_tokens stmt @ ['';''])"
    using assms(2) by (simp add: cursor_at_def)
  have "dispatch statement_parsers (cursor_at [] (statement_tokens stmt @ ['';''])) = Inr (stmt, cursor_at (rev (statement_tokens stmt)) ['';''])"
    using accepted_reads [OF assms(1)] by (simp add: reads_def)
  then show ?thesis unfolding Parse_def c using accepted_valid [OF assms(1)] by (simp add: finish_def MakeSuccess_def)
qed

section \<open>Properties\<close>

text \<open>
  C6. Every statement that the parser can accept, with strings that can be quoted, is what the parser returns for its
  SQL text: no well-formed statement is out of reach, and the reading is unambiguous.
\<close>

theorem parse_prints_back:
  assumes "printable stmt"
  shows "Parse (to_sql stmt) = Inr stmt"
proof (rule Parse_tokens)
  show "accepted quotable stmt" using assms by (simp add: printable_def)
  have "\<forall>t \<in> set (statement_tokens stmt @ ['';'']). lexable t" using lexable_statement [OF assms] by auto
  then show "Tokenize (to_sql stmt) = map token (statement_tokens stmt @ ['';''])" by (simp add: to_sql_def Tokenize_print)
qed

definition printed_update :: Statement where
  "printed_update = UpdateStmt \<lparr>update_table = \<lparr>database_name = Some ''shop'', object_name = ''items''\<rparr>,
     assignments = [(''price'', LiteralExpression (Int64 (- 5))), (''name'', LiteralExpression (Str ''a b''))],
     update_where = Some (LogicalExpression kOr
       (BinaryComparisonExpression kLessEqual (ColumnReferenceExpression None None ''price'') (LiteralExpression (Int64 10)))
       (LikeExpression (ColumnReferenceExpression None None ''name'') (LiteralExpression (Str ''x.*''))))\<rparr>"

theorem parse_prints_back_witness: "Parse (to_sql printed_update) = Inr printed_update"
proof -
  have "printable printed_update"
    by (simp add: printable_def printed_update_def accepted_name_def accepted_where_def quotable_def backslash_def quotation_mark_def
        IsIdentifier_def is_alnum_def is_alpha_def is_upper_def is_lower_def)
  then show ?thesis by (rule parse_prints_back)
qed

text \<open>
  C23. \<^verbatim>\<open>Parse\<close> never throws: every text gives either an error with the code of a parse error, or a statement whose names
  are identifiers, whose columns are distinct, whose rows have one literal for every column, whose defaults have the type of
  their columns and whose expressions have no \<^verbatim>\<open>NULL\<close> and no aggregate.
\<close>

theorem parse_sound:
  "(\<exists>m. Parse sql = Inl (Err \<lparr>code = kParseError, message = m\<rparr>)) \<or> (\<exists>stmt. Parse sql = Inr stmt \<and> accepted (\<lambda>_. True) stmt)"
  by (rule Parse_cases [of sql]) blast+

text \<open>
  C24. The recursive descent ends: an expression or a statement that has been read has consumed tokens, so every nested call
  and every turn of a loop starts with fewer tokens than the one before.
\<close>

theorem parsing_consumes:
  "leaves_less (remaining c) (ParsePrimary c) \<and> leaves_less (remaining c) (ParseExpression c) \<and>
   leaves_less (remaining c) (dispatch statement_parsers c)"
  by (auto simp: leaves_less_def ParsePrimary_shrinks ParseExpression_shrinks dest: leaves_lessD [OF dispatch_leaves [OF statement_parsers_leave]])

text \<open>The expressions of a statement, apart from the rows of an \<^verbatim>\<open>INSERT\<close>.\<close>

fun statement_expressions :: "Statement \<Rightarrow> Expression list" where
  "statement_expressions (UpdateStmt upd) = map snd (assignments upd) @ (case update_where upd of Some e \<Rightarrow> [e] | None \<Rightarrow> [])"
| "statement_expressions (DeleteStmt del) = (case delete_where del of Some e \<Rightarrow> [e] | None \<Rightarrow> [])"
| "statement_expressions (SelectStmt sel) = (case select_where sel of Some e \<Rightarrow> [e] | None \<Rightarrow> [])"
| "statement_expressions _ = []"

fun null_free :: "Expression \<Rightarrow> bool" where
  "null_free (LiteralExpression v) = (\<not> IsNull v)"
| "null_free (BinaryComparisonExpression op l r) = (null_free l \<and> null_free r)"
| "null_free (LogicalExpression op l r) = (null_free l \<and> null_free r)"
| "null_free (BetweenExpression v l u) = (null_free v \<and> null_free l \<and> null_free u)"
| "null_free (LikeExpression v p) = (null_free v \<and> null_free p)"
| "null_free _ = True"

lemma accepted_null_free: "accepted_expression Q e \<Longrightarrow> null_free e"
  by (induction e) auto

text \<open>
  \<^verbatim>\<open>NULL\<close> in a condition or in an assignment is read as the name of a column: no \<^verbatim>\<open>UPDATE\<close>, \<^verbatim>\<open>DELETE\<close> or \<^verbatim>\<open>SELECT\<close>
  ever holds the literal \<^verbatim>\<open>NULL\<close>, so a column cannot be set to null or compared with it.
\<close>

theorem null_never_parsed:
  assumes "Parse sql = Inr stmt"
  shows "list_all null_free (statement_expressions stmt)"
proof -
  have "accepted (\<lambda>_. True) stmt" using Parse_accepted [OF assms] .
  then show ?thesis
    by (cases stmt) (fastforce simp: list_all_iff accepted_where_def split: option.splits dest: accepted_null_free)+
qed

theorem null_never_parsed_witness:
  "list_all null_free (statement_expressions (UpdateStmt
     \<lparr>update_table = \<lparr>database_name = None, object_name = ''t''\<rparr>,
      assignments = [(''a'', ColumnReferenceExpression None None ''NULL'')], update_where = None\<rparr>))"
  by (rule null_never_parsed [of "''UPDATE t SET a = NULL;''"]) code_simp

end
