(* ===== verification/Cluster_Routing.thy ===== *)
theory Cluster_Routing
  imports Cluster_Sql Parser_Roundtrip
begin

text \<open>
  The texts that the entry point sends to the nodes are read there as what was meant, an \<^verbatim>\<open>INSERT\<close> is split into disjoint
  parts that together are the whole, and a statement that goes to one node finds all its rows on that node.
\<close>

section \<open>Texts that are not separated by spaces\<close>

text \<open>A text that is read as some tokens wherever no letter, digit or underscore follows it.\<close>

definition breaks :: "string \<Rightarrow> bool" where
  "breaks r \<longleftrightarrow> (case r of [] \<Rightarrow> True | c # _ \<Rightarrow> \<not> word_char c)"

definition lexes :: "string \<Rightarrow> string list \<Rightarrow> bool" where
  "lexes x ts \<longleftrightarrow> (\<forall>r. breaks r \<longrightarrow> Tokenize (x @ r) = map token ts @ Tokenize r)"

lemma breaks_append: "breaks y \<Longrightarrow> breaks r \<Longrightarrow> breaks (y @ r)"
  by (cases y) (simp_all add: breaks_def)

lemma lexes_Nil: "lexes [] []"
  by (simp add: lexes_def)

lemma lexes_whole: "lexes x ts \<Longrightarrow> Tokenize x = map token ts"
  unfolding lexes_def by (erule allE [of _ "[]"]) (simp add: breaks_def)

lemma lexes_append:
  assumes "lexes x ts" "lexes y us" "breaks y"
  shows "lexes (x @ y) (ts @ us)"
  using assms breaks_append [OF assms(3)] by (simp add: lexes_def)

lemma lexes_space: "lexes y us \<Longrightarrow> lexes (CHR '' '' # y) us"
  by (simp add: lexes_def)

definition plain_mark :: "char \<Rightarrow> bool" where
  "plain_mark c \<longleftrightarrow> c = CHR ''('' \<or> c = CHR '')'' \<or> c = CHR '','' \<or> c = CHR '';'' \<or> c = CHR ''.'' \<or> c = CHR ''-''"

lemma plain_mark_not: "plain_mark c \<Longrightarrow> \<not> is_space c \<and> c \<noteq> quotation_mark \<and> \<not> word_char c \<and> \<not> operator_pair (take 2 (c # s))"
  by (auto simp: plain_mark_def is_space_def quotation_mark_def operator_pair_def is_alnum_def is_alpha_def is_upper_def is_lower_def is_digit_def)

lemma Tokenize_mark: "plain_mark c \<Longrightarrow> Tokenize (c # s) = token [c] # Tokenize s"
  using plain_mark_not [of c s] by (simp add: next_token_def)

lemma lexes_mark: "plain_mark c \<Longrightarrow> lexes y us \<Longrightarrow> lexes (c # y) ([c] # us)"
  by (simp add: lexes_def Tokenize_mark del: Tokenize.simps)

lemma breaks_mark: "plain_mark c \<Longrightarrow> breaks (c # y)"
  using plain_mark_not [of c] by (simp add: breaks_def)

lemma breaks_space: "breaks (CHR '' '' # y)"
  using blank(2) by (simp add: breaks_def)

lemma plain_marks [simp]:
  "plain_mark CHR ''(''" "plain_mark CHR '')''" "plain_mark CHR '',''" "plain_mark CHR '';''" "plain_mark CHR ''.''" "plain_mark CHR ''-''"
  by (simp_all add: plain_mark_def)

lemma lexes_word:
  assumes "t \<noteq> []" "list_all word_char t"
  shows "lexes t [t]"
  unfolding lexes_def
proof (intro allI impI)
  fix r :: string assume r: "breaks r"
  obtain ch u where t: "t = ch # u" using assms(1) by (cases t) simp_all
  have "takeWhile word_char (t @ r) = t" "dropWhile word_char (t @ r) = r"
    using assms(2) r by (cases r; auto simp: breaks_def list_all_iff takeWhile_append dropWhile_append)+
  moreover have "\<not> operator_pair (take 2 (t @ r))" "ch \<noteq> quotation_mark" "\<not> is_space ch" "word_char ch"
    using assms(2) word_char_not_special [of ch] by (auto simp: t operator_pair_def)
  ultimately show "Tokenize (t @ r) = map token [t] @ Tokenize r"
    unfolding t by (simp add: next_token_def del: takeWhile.simps dropWhile.simps)
qed

lemma lexes_quote:
  assumes "quotable s"
  shows "lexes (quotation_mark # s @ [quotation_mark]) [quote s]"
  unfolding lexes_def
proof (intro allI impI)
  fix r
  have "scan_literal [quotation_mark] (s @ quotation_mark # r) = (quotation_mark # s @ [quotation_mark], r)"
    using scan_literal_quotable [of "[quotation_mark]" s] assms by (simp add: quotable_def)
  then show "Tokenize ((quotation_mark # s @ [quotation_mark]) @ r) = map token [quote s] @ Tokenize r"
    by (simp add: next_token_def operator_pair_def is_space_def quotation_mark_def quote_def)
qed

lemma lexes_nat: "lexes (nat_to_string n) [nat_to_string n]"
  by (rule lexes_word) (use nat_to_string_all_digits in \<open>auto simp: list_all_iff is_alnum_def\<close>)

lemma lexes_int: "lexes (int_to_string (sint w)) (value_tokens (Int64 w))"
  using lexes_mark [of "CHR ''-''", OF _ lexes_nat] lexes_nat by (simp add: int_to_string_def plain_mark_def)

lemma lexes_comma: "list_all2 lexes xs tss \<Longrightarrow> lexes (comma_separated xs) (comma_tokens tss)"
proof (induction xs tss rule: list_all2_induct)
  case (Cons x xs ts tss)
  show ?case
  proof (cases xs)
    case Nil
    with Cons show ?thesis by simp
  next
    case (Cons y ys)
    with \<open>list_all2 lexes xs tss\<close> have "xs \<noteq> []" "tss \<noteq> []" by auto
    moreover have "lexes (x @ CHR '','' # CHR '' '' # comma_separated xs) (ts @ '','' # comma_tokens tss)"
      by (intro lexes_append lexes_mark lexes_space breaks_mark Cons.IH \<open>lexes x ts\<close>) simp_all
    ultimately show ?thesis using Cons by (simp add: comma_tokens_Cons)
  qed
qed (simp add: lexes_Nil)

section \<open>The text of an INSERT\<close>

text \<open>What a value becomes on its way: the parser keeps the backslashes that the renderer writes.\<close>

fun sent_value :: "Value \<Rightarrow> Value" where
  "sent_value (Str s) = Str (EscapeJsonText s)"
| "sent_value (IStr p) = Str (EscapeJsonText (chars p))"
| "sent_value v = v"

definition sendable_value :: "Value \<Rightarrow> bool" where
  "sendable_value v \<longleftrightarrow> accepted_value quotable (sent_value v)"

lemma render_value_lexes:
  assumes "sendable_value v"
  shows "\<exists>t. RenderLiteralSql v = Inr t \<and> lexes t (value_tokens (sent_value v))"
  using assms lexes_int lexes_quote lexes_word [of "''NULL''"]
  by (cases v) (auto simp: RenderLiteralSql_def sendable_value_def is_alnum_def is_alpha_def is_upper_def simp del: value_tokens.simps(2))

lemma mapM_lexes:
  assumes "\<forall>x \<in> set xs. \<exists>t. f x = Inr t \<and> lexes t (g x)"
  shows "\<exists>ts. mapM f xs = Inr ts \<and> list_all2 lexes ts (map g xs)"
  using assms by (induction xs) auto

lemma render_row_lexes:
  assumes "list_all sendable_value row"
  shows "\<exists>t. render_row row = Inr t \<and> lexes t (row_tokens (map (LiteralExpression \<circ> sent_value) row))"
proof -
  have "\<forall>v \<in> set row. \<exists>t. RenderLiteralSql v = Inr t \<and> lexes t (value_tokens (sent_value v))"
    using assms render_value_lexes by (simp add: list_all_iff)
  from mapM_lexes [OF this]
  obtain ts where ts: "mapM RenderLiteralSql row = Inr ts" "list_all2 lexes ts (map (\<lambda>v. value_tokens (sent_value v)) row)" by auto
  have "lexes (CHR ''('' # comma_separated ts @ CHR '')'' # []) (''('' # comma_tokens (map (\<lambda>v. value_tokens (sent_value v)) row) @ '')'' # [])"
    by (intro lexes_mark lexes_append lexes_comma ts(2) lexes_Nil breaks_mark) simp_all
  then show ?thesis using ts(1) by (simp add: render_row_def row_tokens_def comp_def)
qed

lemma lexes_identifier: "IsIdentifier n \<Longrightarrow> lexes n [n]"
  by (rule lexes_word) (auto simp: IsIdentifier_def split: list.splits if_splits)

lemma lexes_name: "accepted_name q \<Longrightarrow> lexes (render_name q) (name_tokens q)"
  using lexes_append [OF lexes_identifier lexes_mark [of "CHR ''.''", OF _ lexes_identifier]] lexes_identifier
  by (auto simp: accepted_name_def render_name_def name_tokens_def breaks_mark split: option.splits)

lemma lexes_keywords:
  "lexes ''INSERT'' [''INSERT'']" "lexes ''INTO'' [''INTO'']" "lexes ''VALUES'' [''VALUES'']"
  by (rule lexes_word; simp add: is_alnum_def is_alpha_def is_upper_def)+

text \<open>The rows of an \<^verbatim>\<open>INSERT\<close> as the receiving node reads them.\<close>

definition sent_insert :: "QualifiedName \<Rightarrow> string list \<Rightarrow> Value list list \<Rightarrow> InsertStatement" where
  "sent_insert q names rows =
     \<lparr>insert_table = q, insert_columns = names, insert_rows = map (map (LiteralExpression \<circ> sent_value)) rows\<rparr>"

lemma rendered_insert_tokens:
  assumes "accepted_name q" "list_all IsIdentifier names" "list_all (list_all sendable_value) rows"
  shows "\<exists>sql. RenderInsertSql q names rows = Inr sql \<and> Tokenize sql = map token (statement_tokens (InsertStmt (sent_insert q names rows)) @ ['';''])"
proof -
  let ?g = "\<lambda>row. row_tokens (map (LiteralExpression \<circ> sent_value) row)"
  have "\<forall>row \<in> set rows. \<exists>t. render_row row = Inr t \<and> lexes t (?g row)"
    using assms(3) render_row_lexes by (simp add: list_all_iff)
  from mapM_lexes [OF this] obtain ts where ts: "mapM render_row rows = Inr ts" "list_all2 lexes ts (map ?g rows)" by auto
  have names: "list_all2 lexes names (map (\<lambda>n. [n]) names)"
    using assms(2) by (simp add: list_all_iff list_all2_conv_all_nth lexes_identifier)
  have "lexes (''INSERT'' @ CHR '' '' # ''INTO'' @ CHR '' '' # render_name q @ CHR '' '' # CHR ''('' # comma_separated names @
      CHR '')'' # CHR '' '' # ''VALUES'' @ CHR '' '' # comma_separated ts @ CHR '';'' # [])
    ([''INSERT''] @ [''INTO''] @ name_tokens q @ ''('' # comma_tokens (map (\<lambda>n. [n]) names) @ '')'' # [''VALUES''] @ comma_tokens (map ?g rows) @ ['';''])"
    by (intro lexes_append lexes_space lexes_mark lexes_comma lexes_name lexes_keywords lexes_Nil breaks_mark breaks_space plain_marks
        assms(1) names ts(2))
  from lexes_whole [OF this] show ?thesis using ts(1)
    by (simp add: RenderInsertSql_def sent_insert_def comp_def del: Tokenize.simps)
qed

lemma rendered_insert_read:
  assumes "accepted quotable (InsertStmt (sent_insert q names rows))" "list_all (list_all sendable_value) rows"
  shows "\<exists>sql. RenderInsertSql q names rows = Inr sql \<and> Parse sql = Inr (InsertStmt (sent_insert q names rows))"
proof -
  have "accepted_name q" "list_all IsIdentifier names" using assms(1) by (simp_all add: sent_insert_def)
  from rendered_insert_tokens [OF this assms(2)] Parse_tokens [OF assms(1)] show ?thesis by blast
qed

text \<open>A string without quotation marks and backslashes arrives as it is.\<close>

definition plain_string :: "string \<Rightarrow> bool" where
  "plain_string s \<longleftrightarrow> quotation_mark \<notin> set s \<and> backslash \<notin> set s"

lemma EscapeJsonText_plain: "plain_string s \<Longrightarrow> EscapeJsonText s = s"
  by (induction s) (auto simp: plain_string_def)

lemma quotable_after_plain: "p \<noteq> backslash \<Longrightarrow> plain_string s \<Longrightarrow> quotable_after p s"
proof (induction s arbitrary: p)
  case (Cons c s)
  then have "c \<noteq> backslash" "plain_string s" "c \<noteq> quotation_mark" by (auto simp: plain_string_def)
  with Cons.IH [of c] show ?case by simp
qed simp

lemma plain_quotable: "plain_string s \<Longrightarrow> quotable s"
  by (simp add: quotable_def quotable_after_plain quotation_mark_def backslash_def)

lemma plain_value_sent: "accepted_value plain_string v \<Longrightarrow> sent_value v = v \<and> sendable_value v \<and> accepted_value quotable v"
  by (cases v) (simp_all add: sendable_value_def EscapeJsonText_plain plain_quotable)

section \<open>Routing\<close>

lemma extract_key_Some: "extract_key key a b = Some v \<Longrightarrow> \<exists>d t. a = ColumnReferenceExpression d t key \<and> b = LiteralExpression v"
  by (cases "(key, a, b)" rule: extract_key.cases) (auto split: if_splits)

lemma column_value:
  "EvaluateValueExpression (ColumnReferenceExpression d t key) s row = Inr x \<Longrightarrow>
   \<exists>i. FindColumnIndex s key = Some i \<and> row_value row i = Inr x"
  by (auto simp: MakeError_def split: option.splits)

lemma same_value_commute: "same_value a b \<Longrightarrow> same_value b a"
  by (cases a; cases b) auto

text \<open>A row that satisfies the condition has the extracted value in the column of the shard key.\<close>

lemma TryExtractShardKeyValue_sound:
  assumes "EvaluatePredicate rx e s row = Inr True" "TryExtractShardKeyValue key e = Some v"
  shows "\<exists>i x. FindColumnIndex s key = Some i \<and> row_value row i = Inr x \<and> same_value x v"
  using assms
proof (induction e)
  case (BinaryComparisonExpression op l r)
  then have op: "op = kEqual" by (simp split: if_splits)
  with BinaryComparisonExpression.prems(1) obtain a b where
    ab: "EvaluateValueExpression l s row = Inr a" "EvaluateValueExpression r s row = Inr b" "CompareValues a b = Inr 0"
    by (auto simp: MakeError_def MakeSuccess_def split: if_splits)
  then have same: "same_value a b" by (simp add: CompareValues_zero_iff)
  from BinaryComparisonExpression.prems(2) op consider "extract_key key l r = Some v" | "extract_key key r l = Some v"
    by (auto split: option.splits)
  then show ?case
  proof cases
    case 1
    then obtain d t where "l = ColumnReferenceExpression d t key" "r = LiteralExpression v" using extract_key_Some by blast
    with ab same column_value [of d t key s row a] show ?thesis by (auto simp: MakeSuccess_def)
  next
    case 2
    then obtain d t where "r = ColumnReferenceExpression d t key" "l = LiteralExpression v" using extract_key_Some by blast
    with ab same_value_commute [OF same] column_value [of d t key s row b] show ?thesis by (auto simp: MakeSuccess_def)
  qed
next
  case (LogicalExpression op l r)
  then show ?case by (cases op) (auto simp: MakeSuccess_def split: option.splits)
qed simp_all

lemma hash_value_same: "same_value a b \<Longrightarrow> hash_value h a = hash_value h b"
  by (cases a; cases b) (auto simp: hash_value_def)

lemma RouteValueToNode_same: "same_value a b \<Longrightarrow> RouteValueToNode h a nodes = RouteValueToNode h b nodes"
  using hash_value_same [of a b h] by (simp add: RouteValueToNode_def)

lemma RouteValueToNode_bound: "RouteValueToNode h v nodes = Inr d \<Longrightarrow> nodes \<noteq> [] \<Longrightarrow> node_index d < length nodes"
  by (auto simp: RouteValueToNode_def)

text \<open>The node of a value; \<open>None\<close> for \<^verbatim>\<open>NULL\<close>.\<close>

definition value_node :: "hashes \<Rightarrow> StorageNodeEndpoint list \<Rightarrow> Value \<Rightarrow> nat option" where
  "value_node h nodes v = (case RouteValueToNode h v nodes of Inr d \<Rightarrow> Some (node_index d) | Inl _ \<Rightarrow> None)"

fun statement_where :: "Statement \<Rightarrow> Expression option" where
  "statement_where (SelectStmt sel) = select_where sel"
| "statement_where (UpdateStmt upd) = update_where upd"
| "statement_where (DeleteStmt del) = delete_where del"
| "statement_where _ = None"

lemma RouteNodeIndex_where:
  assumes "RouteNodeIndex h st stmt nodes session = Inr (Some n)"
  shows "\<exists>q. statement_table stmt = Some q \<and> evaluate_route h st nodes session q (statement_where stmt) = Inr (Some n) \<and> nodes \<noteq> []"
  using assms by (cases stmt) (auto simp: RouteNodeIndex_def statement_table_def split: if_splits)

lemma evaluate_route_Some:
  assumes "evaluate_route h st nodes session q clause = Inr (Some n)"
  obtains e s key v where "clause = Some e" "ResolveClusterTableSchema st q session = Some s" "ResolveShardKeyColumn s = Some key"
    "TryExtractShardKeyValue key e = Some v" "value_node h nodes v = Some n"
  using assms by (auto simp: evaluate_route_def value_node_def split: option.splits)

text \<open>
  C11. A \<^verbatim>\<open>SELECT\<close>, \<^verbatim>\<open>UPDATE\<close> or \<^verbatim>\<open>DELETE\<close> that is sent to one node needs no other: every row that its condition accepts,
  wherever it is stored, has a shard key that belongs to that node.
\<close>

theorem routed_statement_complete:
  assumes "RouteNodeIndex h st stmt nodes session = Inr (Some n)"
    and "statement_table stmt = Some q" "ResolveClusterTableSchema st q session = Some s"
    and "passes rx (statement_where stmt) s row = Inr True"
  shows "n < length nodes \<and> (\<exists>key i x. ResolveShardKeyColumn s = Some key \<and> FindColumnIndex s key = Some i \<and>
    row_value row i = Inr x \<and> value_node h nodes x = Some n)"
proof -
  have route: "evaluate_route h st nodes session q (statement_where stmt) = Inr (Some n)" "nodes \<noteq> []"
    using RouteNodeIndex_where [OF assms(1)] assms(2) by auto
  from route(1) obtain e key v where e: "statement_where stmt = Some e" "ResolveShardKeyColumn s = Some key"
    "TryExtractShardKeyValue key e = Some v" "value_node h nodes v = Some n"
    using assms(3) by (elim evaluate_route_Some) auto
  then have "EvaluatePredicate rx e s row = Inr True" using assms(4) by (simp add: passes_def)
  from TryExtractShardKeyValue_sound [OF this e(3)] obtain i x where
    "FindColumnIndex s key = Some i" "row_value row i = Inr x" "same_value x v" by blast
  moreover from this(3) e(4) have "value_node h nodes x = Some n" by (simp add: value_node_def RouteValueToNode_same)
  moreover have "n < length nodes"
    using e(4) route(2) RouteValueToNode_bound by (auto simp: value_node_def split: sum.splits)
  ultimately show ?thesis using e(2) by blast
qed

section \<open>Splitting\<close>

definition row_literals :: "Expression list \<Rightarrow> Value list" where
  "row_literals row = the (literal_values row)"

text \<open>The node of a row of an \<^verbatim>\<open>INSERT\<close> whose shard key is at position \<open>i\<close>.\<close>

definition row_node :: "hashes \<Rightarrow> StorageNodeEndpoint list \<Rightarrow> nat \<Rightarrow> Expression list \<Rightarrow> nat option" where
  "row_node h nodes i row = value_node h nodes (row_literals row ! i)"

definition rows_at :: "hashes \<Rightarrow> StorageNodeEndpoint list \<Rightarrow> nat \<Rightarrow> Expression list list \<Rightarrow> nat \<Rightarrow> Expression list list" where
  "rows_at h nodes i rows n = filter (\<lambda>row. row_node h nodes i row = Some n) rows"

lemma umap_index_push: "umap_index (umap_push k x m) j [] = (if j = k then umap_index m k [] @ [x] else umap_index m j [])"
  by (simp add: umap_push_def umap_index_def)

lemma umap_push_wf: "umap_wf m \<Longrightarrow> umap_wf (umap_push k x m)"
  by (simp add: umap_push_def)

lemma umap_push_nonempty: "\<forall>(k, v) \<in> set m. v \<noteq> [] \<Longrightarrow> \<forall>(k, v) \<in> set (umap_push k x m). v \<noteq> []"
  by (auto simp: umap_push_def dest!: umap_assign_set)

lemma shard_rows_spec:
  assumes "shard_rows h nodes i rows m = Inr (Some m')"
  shows "(\<forall>row \<in> set rows. literal_values row \<noteq> None \<and> row_node h nodes i row \<noteq> None) \<and>
    (\<forall>n. umap_index m' n [] = umap_index m n [] @ map row_literals (rows_at h nodes i rows n)) \<and>
    (umap_wf m \<longrightarrow> umap_wf m') \<and> ((\<forall>(k, v) \<in> set m. v \<noteq> []) \<longrightarrow> (\<forall>(k, v) \<in> set m'. v \<noteq> []))"
  using assms
proof (induction rows arbitrary: m)
  case (Cons row rows)
  then obtain vs d where vs: "literal_values row = Some vs" and d: "RouteValueToNode h (vs ! i) nodes = Inr d"
    and rec: "shard_rows h nodes i rows (umap_push (node_index d) vs m) = Inr (Some m')"
    by (auto split: if_splits option.splits)
  have node: "row_node h nodes i row = Some (node_index d)" "row_literals row = vs"
    using vs d by (simp_all add: row_node_def row_literals_def value_node_def)
  note IH = Cons.IH [OF rec]
  show ?case
  proof (intro conjI impI)
    show "\<forall>row \<in> set (row # rows). literal_values row \<noteq> None \<and> row_node h nodes i row \<noteq> None" using IH node vs by simp
    show "\<forall>n. umap_index m' n [] = umap_index m n [] @ map row_literals (rows_at h nodes i (row # rows) n)"
      using IH node by (simp add: umap_index_push rows_at_def)
  next
    assume "umap_wf m"
    with IH umap_push_wf [of m "node_index d" vs] show "umap_wf m'" by simp
  next
    assume "\<forall>(k, v) \<in> set m. v \<noteq> []"
    from umap_push_nonempty [OF this] IH show "\<forall>(k, v) \<in> set m'. v \<noteq> []" by simp
  qed
qed (simp add: rows_at_def)

lemma literal_values_map: "literal_values row = Some vs \<Longrightarrow> row = map LiteralExpression vs"
  by (induction row arbitrary: vs rule: literal_values.induct) auto

lemma accepted_literals:
  assumes "list_all (accepted_literal plain_string) row"
  shows "list_all sendable_value (row_literals row) \<and> map (LiteralExpression \<circ> sent_value) (row_literals row) = row \<and>
    list_all (accepted_literal quotable) row"
proof -
  have "\<exists>vs. literal_values row = Some vs \<and> row = map LiteralExpression vs \<and> list_all (accepted_value plain_string) vs"
    using assms
  proof (induction row)
    case (Cons e row)
    then show ?case by (cases e) auto
  qed simp
  then obtain vs where vs: "literal_values row = Some vs" "row = map LiteralExpression vs" "list_all (accepted_value plain_string) vs"
    by blast
  then have "row_literals row = vs" by (simp add: row_literals_def)
  with vs(2, 3) plain_value_sent show ?thesis by (auto simp: list_all_iff)
qed

lemma render_nodes_Inr:
  assumes "render_nodes q names m = Inr texts" "(n, sql) \<in> set texts"
  shows "\<exists>rows. (n, rows) \<in> set m \<and> RenderInsertSql q names rows = Inr sql"
proof -
  have "list_all2 (\<lambda>(n, rows) (k, sql). n = k \<and> RenderInsertSql q names rows = Inr sql) m texts"
    using assms(1) by (auto simp: render_nodes_def mapM_Inr_iff elim!: list.rel_mono_strong)
  then show ?thesis using assms(2) by (induction rule: list_all2_induct) auto
qed

lemma render_nodes_keys: "render_nodes q names m = Inr texts \<Longrightarrow> map fst texts = map fst m"
  unfolding render_nodes_def mapM_Inr_iff by (induction rule: list_all2_induct) auto

lemma index_of_Some: "index_of x xs = Some i \<Longrightarrow> i < length xs \<and> xs ! i = x \<and> x \<notin> set (take i xs)"
  by (induction xs arbitrary: i) (auto split: if_splits)

lemma ResolveShardKeyColumn_indexed:
  "ResolveShardKeyColumn s = Some key \<Longrightarrow> \<exists>c \<in> set (columns s). col_name c = key \<and> col_constraint c = kIndexed"
  by (auto simp: ResolveShardKeyColumn_def find_Some_iff split: option.splits)

lemma SplitInsertByShard_Some:
  assumes "SplitInsertByShard h st ins nodes session = Inr (Some texts)"
  obtains s key i d m where "ResolveClusterTableSchema st (insert_table ins) session = Some s" "ResolveShardKeyColumn s = Some key"
    "index_of key (insert_columns ins) = Some i" "ResolveClusterDatabaseName (insert_table ins) session = Some d"
    "shard_rows h nodes i (insert_rows ins) [] = Inr (Some m)"
    "render_nodes ((insert_table ins)\<lparr>database_name := Some d\<rparr>) (insert_columns ins) m = Inr texts"
  using assms by (auto simp: SplitInsertByShard_def split: option.splits)

text \<open>The statement that one node should get.\<close>

definition node_insert :: "hashes \<Rightarrow> StorageNodeEndpoint list \<Rightarrow> nat \<Rightarrow> string \<Rightarrow> InsertStatement \<Rightarrow> nat \<Rightarrow> InsertStatement" where
  "node_insert h nodes i d ins n = ins\<lparr>insert_table := (insert_table ins)\<lparr>database_name := Some d\<rparr>, insert_rows := rows_at h nodes i (insert_rows ins) n\<rparr>"

lemma rendered_part_read:
  assumes "accepted plain_string (InsertStmt ins)" "IsIdentifier d" "rows_at h nodes i (insert_rows ins) n \<noteq> []"
    and "RenderInsertSql ((insert_table ins)\<lparr>database_name := Some d\<rparr>) (insert_columns ins)
      (map row_literals (rows_at h nodes i (insert_rows ins) n)) = Inr sql"
  shows "Parse sql = Inr (InsertStmt (node_insert h nodes i d ins n))"
proof -
  let ?rows = "rows_at h nodes i (insert_rows ins) n"
  have rows: "\<forall>row \<in> set ?rows. length row = length (insert_columns ins) \<and> list_all (accepted_literal plain_string) row"
    using assms(1) by (auto simp: rows_at_def list_all_iff)
  have sent: "sent_insert ((insert_table ins)\<lparr>database_name := Some d\<rparr>) (insert_columns ins) (map row_literals ?rows) = node_insert h nodes i d ins n"
  proof -
    have "map (map (LiteralExpression \<circ> sent_value) \<circ> row_literals) ?rows = ?rows"
      by (rule map_idI) (use rows accepted_literals in simp)
    then show ?thesis by (cases ins) (simp add: sent_insert_def node_insert_def)
  qed
  have "accepted quotable (InsertStmt (node_insert h nodes i d ins n))"
    using assms(1,2,3) rows accepted_literals by (auto simp: node_insert_def accepted_name_def list_all_iff)
  moreover have "list_all (list_all sendable_value) (map row_literals ?rows)"
    using rows accepted_literals by (auto simp: list_all_iff)
  ultimately show ?thesis using rendered_insert_read [of _ _ "map row_literals ?rows"] assms(4) unfolding sent [symmetric] by fastforce
qed

text \<open>
  C12. An \<^verbatim>\<open>INSERT\<close> that is split over the nodes loses, repeats and moves no row: every node gets at most one text, the node
  reads it as the \<^verbatim>\<open>INSERT\<close> of exactly those rows, in their order, whose shard key belongs to it, and every row belongs to one
  of the nodes that get a text. The shard key is the value at the first position where the statement names the shard key column, an
  indexed column of the table's schema. This is for a statement as the parser accepts it, with strings without quotation marks and
  backslashes, and for a database whose name is an identifier.
\<close>

theorem sharded_insert_partition:
  assumes "SplitInsertByShard h st ins nodes session = Inr (Some texts)"
    and "accepted plain_string (InsertStmt ins)" "nodes \<noteq> []"
    and "ResolveClusterDatabaseName (insert_table ins) session = Some d" "IsIdentifier d"
  shows "\<exists>s key i. ResolveClusterTableSchema st (insert_table ins) session = Some s \<and> ResolveShardKeyColumn s = Some key \<and>
    (\<exists>c \<in> set (columns s). col_name c = key \<and> col_constraint c = kIndexed) \<and>
    i < length (insert_columns ins) \<and> insert_columns ins ! i = key \<and> key \<notin> set (take i (insert_columns ins)) \<and>
    distinct (map fst texts) \<and>
    (\<forall>(n, sql) \<in> set texts. n < length nodes \<and> Parse sql = Inr (InsertStmt (node_insert h nodes i d ins n))) \<and>
    (\<forall>row \<in> set (insert_rows ins). \<exists>(n, sql) \<in> set texts. row_node h nodes i row = Some n)"
proof -
  obtain s key i m where key: "ResolveClusterTableSchema st (insert_table ins) session = Some s" "ResolveShardKeyColumn s = Some key"
    "index_of key (insert_columns ins) = Some i" and m: "shard_rows h nodes i (insert_rows ins) [] = Inr (Some m)"
    and texts: "render_nodes ((insert_table ins)\<lparr>database_name := Some d\<rparr>) (insert_columns ins) m = Inr texts"
    using SplitInsertByShard_Some [OF assms(1)] assms(4) by (metis option.inject)
  note spec = shard_rows_spec [OF m]
  have wf: "umap_wf m" and rows: "\<forall>n. umap_index m n [] = map row_literals (rows_at h nodes i (insert_rows ins) n)"
    and full: "\<forall>(k, v) \<in> set m. v \<noteq> []" and nodes: "\<forall>row \<in> set (insert_rows ins). row_node h nodes i row \<noteq> None"
    using spec by (auto simp: umap_index_def umap_find_def umap_wf_def)
  have entry: "rs = map row_literals (rows_at h nodes i (insert_rows ins) n) \<and> rs \<noteq> []" if "(n, rs) \<in> set m" for n rs
    using umap_wf_find [OF wf that] rows [rule_format, of n] full that by (auto simp: umap_index_def)
  have "n < length nodes \<and> Parse sql = Inr (InsertStmt (node_insert h nodes i d ins n))" if sql: "(n, sql) \<in> set texts" for n sql
  proof -
    obtain rs where rs: "(n, rs) \<in> set m" "RenderInsertSql ((insert_table ins)\<lparr>database_name := Some d\<rparr>) (insert_columns ins) rs = Inr sql"
      using render_nodes_Inr [OF texts sql] by blast
    with entry have rs': "rs = map row_literals (rows_at h nodes i (insert_rows ins) n)" "rows_at h nodes i (insert_rows ins) n \<noteq> []" by auto
    then obtain row where "row_node h nodes i row = Some n" by (auto simp: rows_at_def filter_empty_conv)
    then have "n < length nodes"
      using RouteValueToNode_bound [OF _ assms(3)] by (auto simp: row_node_def value_node_def split: sum.splits)
    with rendered_part_read [OF assms(2,5) rs'(2)] rs(2) rs'(1) show ?thesis by simp
  qed
  moreover have "\<exists>(n, sql) \<in> set texts. row_node h nodes i row = Some n" if row: "row \<in> set (insert_rows ins)" for row
  proof -
    obtain n where n: "row_node h nodes i row = Some n" using nodes row by blast
    then have "umap_index m n [] \<noteq> []" using rows row by (auto simp: rows_at_def filter_empty_conv)
    then have "n \<in> fst ` set m" by (auto simp: umap_index_def split: option.splits dest!: umap_find_in_set intro: rev_image_eqI)
    then have "n \<in> fst ` set texts" using render_nodes_keys [OF texts] by (metis list.set_map)
    with n show ?thesis by auto
  qed
  moreover have "distinct (map fst texts)" using wf render_nodes_keys [OF texts] by (simp add: umap_wf_def)
  ultimately show ?thesis using key ResolveShardKeyColumn_indexed [OF key(2)] index_of_Some [OF key(3)] by blast
qed

text \<open>A table with two columns on two nodes, for the witnesses.\<close>

definition sample_hashes :: hashes where
  "sample_hashes = \<lparr>hash_int64 = (\<lambda>w. w), hash_string = (\<lambda>s. of_nat (length s))\<rparr>"

definition sample_nodes :: "StorageNodeEndpoint list" where
  "sample_nodes = [\<lparr>host = ''127.0.0.1'', port = 7001, managed = False, fail_count = 0\<rparr>,
     \<lparr>host = ''127.0.0.1'', port = 7002, managed = False, fail_count = 0\<rparr>]"

definition sample_schema :: TableSchema where
  "sample_schema = \<lparr>schema_database = ''shop'', schema_table = ''items'',
     columns = [\<lparr>col_name = ''id'', col_type = kInt64, col_constraint = kIndexed, col_default = None\<rparr>,
                \<lparr>col_name = ''name'', col_type = kString, col_constraint = kNotNull, col_default = None\<rparr>],
     schema_indexes = []\<rparr>"

definition sample_runtime :: RuntimeState where
  "sample_runtime = \<lparr>databases = [(''shop'', \<lparr>db_name = ''shop'',
     tables = [(''items'', \<lparr>schema = sample_schema, heap = make_heap sample_schema, indexes = []\<rparr>)]\<rparr>)]\<rparr>"

definition shop_session :: SessionContext where
  "shop_session = \<lparr>client_id = ''c'', user_id = None, current_database = ''shop''\<rparr>"

definition shop_insert :: InsertStatement where
  "shop_insert = \<lparr>insert_table = \<lparr>database_name = None, object_name = ''items''\<rparr>, insert_columns = [''id'', ''name''],
     insert_rows = [[LiteralExpression (Int64 1), LiteralExpression (Str ''a'')], [LiteralExpression (Int64 2), LiteralExpression (Str ''b'')],
                    [LiteralExpression (Int64 3), LiteralExpression (Str ''c'')]]\<rparr>"

definition shop_texts :: "(nat \<times> string) list" where
  "shop_texts =
     [(1, ''INSERT INTO shop.items (id, name) VALUES (1, '' @ quote ''a'' @ ''), (3, '' @ quote ''c'' @ '');''),
      (0, ''INSERT INTO shop.items (id, name) VALUES (2, '' @ quote ''b'' @ '');'')]"

theorem sharded_insert_partition_witness:
  "\<exists>s key i. ResolveClusterTableSchema sample_runtime (insert_table shop_insert) shop_session = Some s \<and>
    ResolveShardKeyColumn s = Some key \<and> (\<exists>c \<in> set (columns s). col_name c = key \<and> col_constraint c = kIndexed) \<and>
    i < length (insert_columns shop_insert) \<and> insert_columns shop_insert ! i = key \<and>
    key \<notin> set (take i (insert_columns shop_insert)) \<and> distinct (map fst shop_texts) \<and>
    (\<forall>(n, sql) \<in> set shop_texts. n < length sample_nodes \<and>
       Parse sql = Inr (InsertStmt (node_insert sample_hashes sample_nodes i ''shop'' shop_insert n))) \<and>
    (\<forall>row \<in> set (insert_rows shop_insert). \<exists>(n, sql) \<in> set shop_texts. row_node sample_hashes sample_nodes i row = Some n)"
proof (rule sharded_insert_partition)
  show "SplitInsertByShard sample_hashes sample_runtime shop_insert sample_nodes shop_session = Inr (Some shop_texts)" by code_simp
  show "accepted plain_string (InsertStmt shop_insert)" by code_simp
  show "sample_nodes \<noteq> []" by (simp add: sample_nodes_def)
  show "ResolveClusterDatabaseName (insert_table shop_insert) shop_session = Some ''shop''" by code_simp
  show "IsIdentifier ''shop''" by code_simp
qed

definition sample_select :: Statement where
  "sample_select = SelectStmt \<lparr>select_table = \<lparr>database_name = None, object_name = ''items''\<rparr>,
     select_items = [\<lparr>is_wildcard = True, item_column = [], item_alias = None, item_aggregate = None\<rparr>],
     select_where = Some (BinaryComparisonExpression kEqual (ColumnReferenceExpression None None ''id'') (LiteralExpression (Int64 3)))\<rparr>"

definition sample_row :: RowData where
  "sample_row = \<lparr>row_id = 0, row_values = [Int64 3, Str ''c'']\<rparr>"

theorem routed_statement_complete_witness:
  "1 < length sample_nodes \<and> (\<exists>key i x. ResolveShardKeyColumn sample_schema = Some key \<and> FindColumnIndex sample_schema key = Some i \<and>
    row_value sample_row i = Inr x \<and> value_node sample_hashes sample_nodes x = Some 1)"
proof (rule routed_statement_complete)
  show "RouteNodeIndex sample_hashes sample_runtime sample_select sample_nodes shop_session = Inr (Some 1)" by code_simp
  show "statement_table sample_select = Some \<lparr>database_name = None, object_name = ''items''\<rparr>" by code_simp
  show "ResolveClusterTableSchema sample_runtime \<lparr>database_name = None, object_name = ''items''\<rparr> shop_session = Some sample_schema"
    by code_simp
  show "passes (\<lambda>p t. None) (statement_where sample_select) sample_schema sample_row = Inr True" by code_simp
qed

text \<open>
  The text for a table with a \<^verbatim>\<open>NOT NULL\<close> column is no statement: the renderer writes two words where the parser knows
  only \<^verbatim>\<open>NOT_NULL\<close>, so the table is never created on a node that is added later.
\<close>

theorem rendered_not_null_rejected:
  "\<exists>sql m. RenderCreateTableSql sample_schema = Inr sql \<and> Parse sql = Inl (Err \<lparr>code = kParseError, message = m\<rparr>)"
proof -
  have "RenderCreateTableSql sample_schema = Inr ''CREATE TABLE items (id INT INDEXED, name STRING NOT NULL);''" by code_simp
  moreover have "\<exists>m. Parse ''CREATE TABLE items (id INT INDEXED, name STRING NOT NULL);'' = Inl (Err \<lparr>code = kParseError, message = m\<rparr>)"
    by (rule exI [of _ "''expected token: ,''"]) code_simp
  ultimately show ?thesis by blast
qed

end
