(* ===== verification/Two_Phase.thy ===== *)
theory Two_Phase
  imports Cluster_Network
begin

text \<open>
  The messages of the two-phase commit, for every way in which the nodes may answer, and the dumps of tables, in one process
  and over a socket.
\<close>

section \<open>Messages\<close>

text \<open>A network that answers by a fixed function and records what it was sent.\<close>

type_synonym messages = "(StorageNodeEndpoint \<times> string) list"

definition recording :: "(StorageNodeEndpoint \<Rightarrow> string \<Rightarrow> ResponseEnvelope option) \<Rightarrow> messages forward" where
  "recording answer node request sent = (Inr (answer node (request_payload request)), sent @ [(node, request_payload request)])"

definition accepts :: "(StorageNodeEndpoint \<Rightarrow> string \<Rightarrow> ResponseEnvelope option) \<Rightarrow> StorageNodeEndpoint \<times> string \<Rightarrow> bool" where
  "accepts answer m \<longleftrightarrow> accepted_response (answer (fst m) (snd m))"

definition prepare_messages :: "string \<Rightarrow> (StorageNodeEndpoint \<times> string) list \<Rightarrow> messages" where
  "prepare_messages tx prepared = map (\<lambda>(node, sql). (node, prepare_payload tx sql)) prepared"

definition commit_messages :: "string \<Rightarrow> (StorageNodeEndpoint \<times> string) list \<Rightarrow> messages" where
  "commit_messages tx prepared = map (\<lambda>(node, sql). (node, commit_payload tx)) prepared"

definition abort_messages :: "string \<Rightarrow> StorageNodeEndpoint list \<Rightarrow> messages" where
  "abort_messages tx nodes = map (\<lambda>node. (node, abort_payload tx)) nodes"

text \<open>The messages up to the first that is refused, that one included.\<close>

definition until_refused :: "(StorageNodeEndpoint \<Rightarrow> string \<Rightarrow> ResponseEnvelope option) \<Rightarrow> messages \<Rightarrow> messages" where
  "until_refused answer ms = takeWhile (accepts answer) ms @ take 1 (dropWhile (accepts answer) ms)"

lemma until_refused_simps [simp]:
  "until_refused answer [] = []"
  "until_refused answer (m # ms) = (if accepts answer m then m # until_refused answer ms else [m])"
  by (simp_all add: until_refused_def)

lemma until_refused_all: "list_all (accepts answer) ms \<Longrightarrow> until_refused answer ms = ms"
  by (induction ms) simp_all

lemma accepts_pair: "accepted_response (answer node txt) \<longleftrightarrow> accepts answer (node, txt)"
  by (simp add: accepts_def)

lemma recording_step:
  "net_bind (recording answer node request sent) f = f (answer node (request_payload request)) (sent @ [(node, request_payload request)])"
  by (simp add: recording_def)

lemma prepare_messages_Cons: "prepare_messages tx ((node, sql) # prepared) = (node, prepare_payload tx sql) # prepare_messages tx prepared"
  by (simp add: prepare_messages_def)

lemma abort_nodes_recording:
  "abort_nodes (recording answer) tx request nodes sent = (Inr (), sent @ abort_messages tx nodes)"
  by (induction nodes arbitrary: sent) (simp_all add: recording_step abort_messages_def)

lemma commit_nodes_recording:
  "commit_nodes (recording answer) tx request (map fst prepared) sent =
     (Inr (list_all (accepts answer) (commit_messages tx prepared)), sent @ until_refused answer (commit_messages tx prepared))"
  by (induction prepared arbitrary: sent) (auto simp: recording_step commit_messages_def accepts_def)

lemma prepare_nodes_recording:
  "prepare_nodes (recording answer) tx request ready prepared sent =
     (if list_all (accepts answer) (prepare_messages tx prepared) then (Inr True, sent @ prepare_messages tx prepared)
      else (Inr False, sent @ until_refused answer (prepare_messages tx prepared) @
              abort_messages tx (ready @ map fst (takeWhile (accepts answer) (prepare_messages tx prepared)))))"
proof (induction prepared arbitrary: ready sent)
  case (Cons m prepared)
  obtain node sql where m: "m = (node, sql)" by (cases m)
  show ?case
  proof (cases "accepts answer (node, prepare_payload tx sql)")
    case True
    with Cons.IH [of "ready @ [node]"] show ?thesis by (simp add: m recording_step accepts_pair prepare_messages_Cons)
  next
    case False
    then show ?thesis by (simp add: m recording_step accepts_pair prepare_messages_Cons abort_nodes_recording)
  qed
qed (simp add: prepare_messages_def)

text \<open>
  C19. What the two-phase commit sends, for every way in which the nodes answer: a \<^verbatim>\<open>COMMIT_TX\<close> goes out only after every node
  has prepared; if one refuses, exactly the nodes before it get an \<^verbatim>\<open>ABORT_TX\<close> and nothing is committed; success is reported
  exactly when every prepare and every commit was accepted. After a commit that fails nothing more is sent: the nodes
  that have committed keep their change.
\<close>

theorem two_phase_commit_messages:
  "ExecuteTwoPhaseCommit (recording answer) tx prepared request sent =
     (let prepares = prepare_messages tx prepared; commits = commit_messages tx prepared
      in if list_all (accepts answer) prepares
         then (Inr (if list_all (accepts answer) commits then Some (ok_response ''2pc committed'') else None),
               sent @ prepares @ until_refused answer commits)
         else (Inr None, sent @ until_refused answer prepares @ abort_messages tx (map fst (takeWhile (accepts answer) prepares))))"
  by (simp add: ExecuteTwoPhaseCommit_def prepare_nodes_recording commit_nodes_recording Let_def)

section \<open>Participants\<close>

text \<open>
  What the coordinator relies on: a node that is asked to prepare or to abort, by a request that the network can carry, changes
  nothing but the transactions it holds (\<open>same\<close>), it holds the transaction only after it has accepted, and no longer after an abort.
\<close>

locale commit_participants =
  fixes fwd :: "'net forward"
    and key :: "StorageNodeEndpoint \<Rightarrow> 'k"
    and same :: "string \<Rightarrow> 'net \<Rightarrow> 'net \<Rightarrow> bool"
    and holding :: "string \<Rightarrow> 'net \<Rightarrow> 'k set"
    and valid_id :: "string \<Rightarrow> bool"
    and carries :: "RequestEnvelope \<Rightarrow> bool"
  assumes same_refl: "same tx net net"
    and same_trans: "same tx a b \<Longrightarrow> same tx b c \<Longrightarrow> same tx a c"
    and prepare_law: "valid_id tx \<Longrightarrow> sql \<noteq> [] \<Longrightarrow> carries (request\<lparr>request_payload := prepare_payload tx sql\<rparr>) \<Longrightarrow>
      \<exists>response net'. fwd node (request\<lparr>request_payload := prepare_payload tx sql\<rparr>) net = (Inr response, net') \<and>
        same tx net net' \<and> holding tx net' \<subseteq> insert (key node) (holding tx net) \<and>
        (\<not> accepted_response response \<longrightarrow> holding tx net' \<subseteq> holding tx net)"
    and abort_law: "valid_id tx \<Longrightarrow> carries (request\<lparr>request_payload := abort_payload tx\<rparr>) \<Longrightarrow>
      \<exists>response net'. fwd node (request\<lparr>request_payload := abort_payload tx\<rparr>) net = (Inr response, net') \<and>
        same tx net net' \<and> holding tx net' \<subseteq> holding tx net - {key node}"
begin

lemma abort_nodes_clean:
  assumes "valid_id tx" "carries (request\<lparr>request_payload := abort_payload tx\<rparr>)"
  shows "\<exists>net'. abort_nodes fwd tx request nodes net = (Inr (), net') \<and> same tx net net' \<and>
    holding tx net' \<subseteq> holding tx net - key ` set nodes"
proof (induction nodes arbitrary: net)
  case (Cons node nodes)
  obtain response net1 where s: "fwd node (request\<lparr>request_payload := abort_payload tx\<rparr>) net = (Inr response, net1)"
    "same tx net net1" "holding tx net1 \<subseteq> holding tx net - {key node}" using abort_law [OF assms] by blast
  obtain net2 where t: "abort_nodes fwd tx request nodes net1 = (Inr (), net2)" "same tx net1 net2"
    "holding tx net2 \<subseteq> holding tx net1 - key ` set nodes" using Cons.IH by blast
  show ?case using s t same_trans [OF s(2) t(2)] by auto
qed (simp add: same_refl)

lemma prepare_nodes_clean:
  assumes "valid_id tx" "carries (request\<lparr>request_payload := abort_payload tx\<rparr>)"
      "\<forall>(node, sql) \<in> set prepared. sql \<noteq> [] \<and> carries (request\<lparr>request_payload := prepare_payload tx sql\<rparr>)"
    and "holding tx net \<subseteq> key ` set ready"
  shows "\<exists>b net'. prepare_nodes fwd tx request ready prepared net = (Inr b, net') \<and> same tx net net' \<and>
    (\<not> b \<longrightarrow> holding tx net' = {})"
  using assms(3, 4)
proof (induction prepared arbitrary: ready net)
  case (Cons m prepared)
  obtain node sql where m: "m = (node, sql)" by (cases m)
  with Cons.prems have sql: "sql \<noteq> []" "carries (request\<lparr>request_payload := prepare_payload tx sql\<rparr>)" by simp_all
  obtain response net1 where s: "fwd node (request\<lparr>request_payload := prepare_payload tx sql\<rparr>) net = (Inr response, net1)"
    "same tx net net1" "holding tx net1 \<subseteq> insert (key node) (holding tx net)"
    "\<not> accepted_response response \<longrightarrow> holding tx net1 \<subseteq> holding tx net" using prepare_law [OF assms(1) sql] by blast
  show ?case
  proof (cases "accepted_response response")
    case True
    have "holding tx net1 \<subseteq> key ` set (ready @ [node])" using Cons.prems s(3) by auto
    then obtain b net2 where "prepare_nodes fwd tx request (ready @ [node]) prepared net1 = (Inr b, net2)" "same tx net1 net2"
      "\<not> b \<longrightarrow> holding tx net2 = {}" using Cons.IH [of net1 "ready @ [node]"] Cons.prems(1) by auto
    with s True same_trans [OF s(2)] show ?thesis by (auto simp: m)
  next
    case False
    obtain net2 where t: "abort_nodes fwd tx request ready net1 = (Inr (), net2)" "same tx net1 net2"
      "holding tx net2 \<subseteq> holding tx net1 - key ` set ready" using abort_nodes_clean [OF assms(1, 2)] by blast
    moreover have "holding tx net2 = {}" using t(3) s(4) False Cons.prems(2) by blast
    ultimately show ?thesis using s False same_trans [OF s(2) t(2)] by (auto simp: m)
  qed
qed (auto simp: same_refl)

lemma refused_commit:
  assumes "valid_id tx" "carries (request\<lparr>request_payload := abort_payload tx\<rparr>)"
      "\<forall>(node, sql) \<in> set prepared. sql \<noteq> [] \<and> carries (request\<lparr>request_payload := prepare_payload tx sql\<rparr>)"
    and "holding tx net = {}"
    and "fst (prepare_nodes fwd tx request [] prepared net) \<noteq> Inr True"
  shows "\<exists>net'. ExecuteTwoPhaseCommit fwd tx prepared request net = (Inr None, net') \<and> same tx net net' \<and> holding tx net' = {}"
proof -
  obtain b net' where "prepare_nodes fwd tx request [] prepared net = (Inr b, net')" "same tx net net'"
    "\<not> b \<longrightarrow> holding tx net' = {}" using prepare_nodes_clean [OF assms(1-3), of net "[]"] assms(4) by blast
  with assms(5) show ?thesis by (auto simp: ExecuteTwoPhaseCommit_def)
qed

end

section \<open>Dumps\<close>

fun plain_value_of :: "Value \<Rightarrow> Value" where
  "plain_value_of (IStr p) = Str (chars p)"
| "plain_value_of v = v"

definition one_line_value :: "Value \<Rightarrow> bool" where
  "one_line_value v \<longleftrightarrow> (case AsString v of Inr s \<Rightarrow> newline \<notin> set s | Inl _ \<Rightarrow> True)"

lemma stoll_word64: "stoll (int_to_string (sint (w :: 64 word))) = Some (sint w, length (int_to_string (sint w)))"
  unfolding stoll_def by (rule scan_signed_int) (use sint_greater_eq [of w] sint_less [of w] in simp_all)

lemma encode_value_decode:
  assumes "one_line_value v"
  shows "\<exists>t. encode_cluster_value v = Inr t \<and> DecodeClusterValue t = Some (plain_value_of v) \<and> field t \<and> newline \<notin> set t"
proof (cases v)
  case (Int64 w)
  have "field (''Int:'' @ int_to_string (sint w))" by (rule field_plain) simp_all
  with Int64 show ?thesis by (simp add: encode_cluster_value_def DecodeClusterValue_def stoll_word64)
qed (use assms in \<open>auto simp: encode_cluster_value_def DecodeClusterValue_def one_line_value_def\<close>)

lemma tabbed: "x @ concat (map (\<lambda>v. tab # v) vs) = join_tab (x # vs)"
proof (induction vs arbitrary: x)
  case (Cons v vs)
  show ?case using Cons.IH [of v] by simp
qed simp

lemma getlines_last: "x \<noteq> [] \<Longrightarrow> newline \<notin> set x \<Longrightarrow> getlines x = [x]"
proof -
  assume x: "x \<noteq> []" "newline \<notin> set x"
  then have "takeWhile (\<lambda>c. c \<noteq> newline) x = x" "dropWhile (\<lambda>c. c \<noteq> newline) x = []"
    by (auto simp: takeWhile_eq_all_conv dropWhile_eq_Nil_conv)
  moreover have "getlines x = takeWhile (\<lambda>c. c \<noteq> newline) x # getlines (drop 1 (dropWhile (\<lambda>c. c \<noteq> newline) x))"
    using x(1) getlines.simps(2) [of "hd x" "tl x"] by simp
  ultimately show ?thesis by (simp only: drop_Nil getlines.simps(1))
qed

lemma getlines_between:
  "x \<noteq> [] \<Longrightarrow> newline \<notin> set x \<Longrightarrow> \<forall>l \<in> set ls. l \<noteq> [] \<and> newline \<notin> set l \<Longrightarrow>
   getlines (x @ concat (map (\<lambda>l. newline # l) ls)) = x # ls"
proof (induction ls arbitrary: x)
  case (Cons l ls)
  then show ?case using getlines_line [of x "l @ concat (map (\<lambda>l. newline # l) ls)"] by simp
qed (simp add: getlines_last)

definition dump_line :: "string list \<Rightarrow> string" where
  "dump_line vs = join_tab (''ROW'' # vs)"

lemma dump_line_facts:
  assumes "\<forall>v \<in> set vs. field v \<and> newline \<notin> set v"
  shows "dump_line vs \<noteq> []" "newline \<notin> set (dump_line vs)" "protocol_SplitByTab (dump_line vs) = ''ROW'' # vs"
proof -
  show "dump_line vs \<noteq> []" by (cases vs) (simp_all add: dump_line_def)
  show "newline \<notin> set (dump_line vs)" using assms set_join_tab [of newline "''ROW'' # vs"] by (auto simp: dump_line_def)
  have "\<forall>x \<in> set (''ROW'' # vs). field x" using assms by simp
  from split_join [OF _ this, of "[]"] show "protocol_SplitByTab (dump_line vs) = ''ROW'' # vs"
    by (simp add: protocol_SplitByTab_def dump_line_def)
qed

definition readable_line :: "string list \<Rightarrow> Value list \<Rightarrow> bool" where
  "readable_line ts vs \<longleftrightarrow> (\<forall>t \<in> set ts. field t \<and> newline \<notin> set t) \<and> decode_values ts = Some vs"

lemma dump_row_readable:
  assumes "list_all one_line_value (row_values row)"
  shows "\<exists>ts. dump_row row = Inr (newline # dump_line ts) \<and> readable_line ts (map plain_value_of (row_values row))"
proof -
  have "\<exists>ts. mapM encode_cluster_value vs = Inr ts \<and> readable_line ts (map plain_value_of vs)" if "list_all one_line_value vs" for vs
    using that
  proof (induction vs)
    case (Cons v vs)
    then show ?case using encode_value_decode [of v] by (auto simp: readable_line_def)
  qed (simp add: readable_line_def)
  from this [OF assms] show ?thesis using tabbed [of "''ROW''"] by (auto simp: dump_row_def dump_line_def)
qed

lemma parse_dump_readable:
  "list_all2 readable_line tss vss \<Longrightarrow> parse_dump_lines (map dump_line tss) = Some vss"
  by (induction tss vss rule: list_all2_induct) (auto simp: readable_line_def dump_line_facts)

lemma dump_rows_readable:
  assumes "list_all (\<lambda>row. list_all one_line_value (row_values row)) rows"
  shows "\<exists>tss. dump_rows rows = Inr (''ROWS'' @ concat (map (\<lambda>l. newline # l) (map dump_line tss))) \<and>
    list_all2 readable_line tss (map (\<lambda>row. map plain_value_of (row_values row)) rows)"
proof -
  have "\<exists>tss. mapM dump_row rows = Inr (map (\<lambda>l. newline # l) (map dump_line tss)) \<and>
      list_all2 readable_line tss (map (\<lambda>row. map plain_value_of (row_values row)) rows)"
    using assms
  proof (induction rows)
    case (Cons row rows)
    then obtain ts tss where "dump_row row = Inr (newline # dump_line ts)" "readable_line ts (map plain_value_of (row_values row))"
      "mapM dump_row rows = Inr (map (\<lambda>l. newline # l) (map dump_line tss))"
      "list_all2 readable_line tss (map (\<lambda>row. map plain_value_of (row_values row)) rows)"
      using dump_row_readable [of row] by auto
    then show ?case by (intro exI [of _ "ts # tss"]) simp
  qed simp
  then show ?thesis by (auto simp: dump_rows_def)
qed

text \<open>
  C29. A dump of a table is read back as its rows, whatever tabs and backslashes its strings have, as long as no string has
  a newline.
\<close>

theorem dump_roundtrip:
  assumes "list_all (\<lambda>row. list_all one_line_value (row_values row)) rows"
  shows "\<exists>txt. dump_rows rows = Inr txt \<and> parse_dump txt = Some (map (\<lambda>row. map plain_value_of (row_values row)) rows)"
proof -
  obtain tss where tss: "dump_rows rows = Inr (''ROWS'' @ concat (map (\<lambda>l. newline # l) (map dump_line tss)))"
    "list_all2 readable_line tss (map (\<lambda>row. map plain_value_of (row_values row)) rows)"
    using dump_rows_readable [OF assms] by blast
  have "\<forall>ts \<in> set tss. \<forall>t \<in> set ts. field t \<and> newline \<notin> set t"
    using tss(2) by (induction rule: list_all2_induct) (auto simp: readable_line_def)
  then have "\<forall>l \<in> set (map dump_line tss). l \<noteq> [] \<and> newline \<notin> set l" using dump_line_facts by auto
  from getlines_between [OF _ _ this, of "''ROWS''"] show ?thesis
    using tss(1) parse_dump_readable [OF tss(2)] by (auto simp: parse_dump_def)
qed

definition sample_dump :: "RowData list" where
  "sample_dump = [\<lparr>row_id = 0, row_values = [Int64 7, IStr (Interned 0 [tab, CHR ''a''])]\<rparr>, \<lparr>row_id = 1, row_values = [Monostate, Str []]\<rparr>]"

theorem dump_roundtrip_witness:
  "\<exists>txt. dump_rows sample_dump = Inr txt \<and> parse_dump txt = Some [[Int64 7, Str [tab, CHR ''a'']], [Monostate, Str []]]"
  using dump_roundtrip [of sample_dump] by (simp add: sample_dump_def one_line_value_def)

text \<open>
  Over a socket every dump arrives empty: the answer has one line for every row, the reader of the answer stops at the
  first newline, and what is left is the heading. A node that is removed therefore loses its rows, and the answer is
  \<^verbatim>\<open>node removed\<close>.
\<close>

theorem remote_dump_empty:
  assumes "registry (host node @ '':'' @ int_to_string (port node)) = None"
    and "\<And>bytes. peer (host node) (port node) bytes net = (Some (SerializeResponse (ok_response txt)), net')"
    and "list_all (\<lambda>row. list_all one_line_value (row_values row)) rows" "dump_rows rows = Inr txt"
  shows "FetchTableDump (ForwardToStorageNode registry peer) node d t net = (Inr (Some []), net')"
proof -
  obtain ls where shape: "txt = ''ROWS'' @ concat (map (\<lambda>l. newline # l) ls)"
    using dump_rows_readable [OF assms(3)] unfolding assms(4) by blast
  have split: "protocol_SplitByTab (''200'' @ [tab] @ ''ROWS'' @ b) = [''200'', ''ROWS'' @ b]" if "b = [] \<or> b = [CHR 0x5C]" for b
    using that by (auto simp: protocol_SplitByTab_def)
  have code: "int_to_string 200 = ''200''" "stoi ''200'' = Some (200, 3)" by code_simp+
  obtain b where b: "b = [] \<or> b = [CHR 0x5C]" "ReadLine (SerializeResponse (ok_response txt)) = Some (''200'' @ [tab] @ ''ROWS'' @ b)"
  proof (cases ls)
    case Nil
    then show ?thesis using that [of "[]"] ReadLine_line [of "''200'' @ [tab] @ ''ROWS''" "[]"]
      by (simp add: shape SerializeResponse_def ok_response_def EscapeField_def code)
  next
    case (Cons l more)
    have "Escape (x @ y) = Escape x @ Escape y" for x y by (induction x) auto
    then show ?thesis using that [of "[CHR 0x5C]"] ReadLine_line [of "''200'' @ [tab] @ ''ROWS'' @ [CHR 0x5C]"] Cons
      by (simp add: shape SerializeResponse_def ok_response_def EscapeField_def code)
  qed
  have "unescape False (''ROWS'' @ b) = ''ROWS''" using b(1) by auto
  then have "DeserializeResponse (''200'' @ [tab] @ ''ROWS'' @ b) = Some (ok_response ''ROWS'')"
    unfolding DeserializeResponse_def split [OF b(1)] by (simp add: code UnescapeField_def ok_response_def)
  moreover have "parse_dump ''ROWS'' = Some []" by code_simp
  ultimately show ?thesis using assms(1, 2) b(2)
    by (simp add: FetchTableDump_def ForwardToStorageNode_def accepted_response_def ok_response_def)
qed

definition sample_node :: StorageNodeEndpoint where
  "sample_node = \<lparr>host = ''10.0.0.7'', port = 7001, managed = False, fail_count = 0\<rparr>"

theorem remote_dump_empty_witness:
  "\<exists>txt. dump_rows sample_dump = Inr txt \<and>
    FetchTableDump (ForwardToStorageNode (\<lambda>_. None) (\<lambda>h n bytes net. (Some (SerializeResponse (ok_response txt)), net))) sample_node ''d'' ''t'' ()
      = (Inr (Some []), ())"
proof -
  have lines: "list_all (\<lambda>row. list_all one_line_value (row_values row)) sample_dump"
    by (simp add: sample_dump_def one_line_value_def)
  then obtain content where "dump_rows sample_dump = Inr content" using dump_rows_readable by blast
  moreover have "FetchTableDump (ForwardToStorageNode (\<lambda>_. None) (\<lambda>h n bytes net. (Some (SerializeResponse (ok_response content)), net)))
      sample_node ''d'' ''t'' () = (Inr (Some []), ())"
    by (rule remote_dump_empty [OF _ _ lines \<open>dump_rows sample_dump = Inr content\<close>]) simp_all
  ultimately show ?thesis by blast
qed

section \<open>Heartbeat\<close>

definition restartable :: "StorageNodeEndpoint \<Rightarrow> bool" where
  "restartable node \<longleftrightarrow> managed node \<and> (host node = ''127.0.0.1'' \<or> host node = ''localhost'')"

text \<open>
  A series of heartbeats on the same nodes, the rest of the cluster changing in between: for every cycle what the pings and
  the forks gave, the nodes afterwards and what the cycle returned.
\<close>

record heartbeat_cycle =
  cycle_pings :: "bool list"
  cycle_forks :: "nat \<Rightarrow> bool"
  cycle_nodes :: "StorageNodeEndpoint list"
  cycle_changed :: bool

inductive heartbeats :: "'net forward \<Rightarrow> StorageNodeEndpoint list \<Rightarrow> heartbeat_cycle list \<Rightarrow> StorageNodeEndpoint list \<Rightarrow> bool"
  for fwd :: "'net forward" and nodes0 :: "StorageNodeEndpoint list" where
  heartbeats_none: "heartbeats fwd nodes0 [] nodes0"
| heartbeats_cycle: "heartbeats fwd nodes0 hist nodes \<Longrightarrow> ping_nodes fwd nodes net = (Inr pings, net') \<Longrightarrow>
    RunHeartbeatCycle fwd forks nodes net = (Inr (nodes', changed), net') \<Longrightarrow>
    heartbeats fwd nodes0 (hist @ [\<lparr>cycle_pings = pings, cycle_forks = forks, cycle_nodes = nodes', cycle_changed = changed\<rparr>]) nodes'"

definition missed :: "heartbeat_cycle list \<Rightarrow> nat \<Rightarrow> nat \<Rightarrow> bool" where
  "missed hist i c \<longleftrightarrow> \<not> cycle_pings (hist ! c) ! i"

definition count_after :: "heartbeat_cycle list \<Rightarrow> nat \<Rightarrow> nat \<Rightarrow> int" where
  "count_after hist i c = sint (fail_count (cycle_nodes (hist ! c) ! i))"

text \<open>A node was restarted in a cycle when its ping failed and its counter is zero afterwards.\<close>

definition restarted_in :: "heartbeat_cycle list \<Rightarrow> nat \<Rightarrow> nat \<Rightarrow> bool" where
  "restarted_in hist i c \<longleftrightarrow> missed hist i c \<and> count_after hist i c = 0"

definition count_before :: "heartbeat_cycle list \<Rightarrow> nat \<Rightarrow> nat \<Rightarrow> int" where
  "count_before hist i c = (if c = 0 then 0 else count_after hist i (c - 1))"

lemma sint_succ32: "0 \<le> sint w \<Longrightarrow> sint w < 2 ^ 31 - 1 \<Longrightarrow> sint (w + 1 :: 32 word) = sint w + 1"
  by (simp add: sint_word_ariths signed_take_bit_int_eq_self)

lemma net_bind_Inr: "net_bind m f = (Inr b, net') \<Longrightarrow> \<exists>a net1. m = (Inr a, net1) \<and> f a net1 = (Inr b, net')"
  by (cases m; cases "fst m") auto

lemma ping_nodes_length: "ping_nodes fwd nodes net = (Inr pings, net') \<Longrightarrow> length pings = length nodes"
  by (induction nodes arbitrary: net pings) (auto dest!: net_bind_Inr)

definition same_endpoint :: "StorageNodeEndpoint \<Rightarrow> StorageNodeEndpoint \<Rightarrow> bool" where
  "same_endpoint a b \<longleftrightarrow> host a = host b \<and> port a = port b \<and> managed a = managed b"

lemma heartbeat_node_step:
  assumes "heartbeat_node forked healthy node = (node', restarted)" "0 \<le> sint (fail_count node)" "sint (fail_count node) < 2 ^ 31 - 1"
  shows "same_endpoint node' node \<and> restarted = (\<not> healthy \<and> restartable node \<and> 2 \<le> sint (fail_count node) \<and> forked) \<and>
    sint (fail_count node') = (if healthy \<or> restarted then 0 else sint (fail_count node) + 1)"
  using assms sint_succ32 [OF assms(2,3)]
  by (auto simp: heartbeat_node_def RestartManagedNode_def restartable_def same_endpoint_def Let_def split: if_splits)

lemma heartbeat_nodes_nth:
  assumes "heartbeat_nodes forks k pings nodes = (nodes', changed)" "length pings = length nodes"
  shows "length nodes' = length nodes \<and>
    (\<forall>i < length nodes. nodes' ! i = fst (heartbeat_node (forks (k + i)) (pings ! i) (nodes ! i))) \<and>
    (changed \<longleftrightarrow> (\<exists>i < length nodes. snd (heartbeat_node (forks (k + i)) (pings ! i) (nodes ! i))))"
  using assms
proof (induction forks k pings nodes arbitrary: nodes' changed rule: heartbeat_nodes.induct)
  case (1 forks k healthy bs node nodes)
  obtain n r where n: "heartbeat_node (forks k) healthy node = (n, r)" by fastforce
  obtain ns c where ns: "heartbeat_nodes forks (Suc k) bs nodes = (ns, c)" by fastforce
  have "nodes' = n # ns" "changed = (r \<or> c)" "length bs = length nodes" using "1.prems" n ns by simp_all
  with "1.IH" [OF n [symmetric] ns] n show ?case by (simp add: All_less_Suc2 Ex_less_Suc2)
qed auto

text \<open>What one cycle of a series does with one node; the counter cannot exceed the number of cycles.\<close>

definition cycle_step :: "StorageNodeEndpoint list \<Rightarrow> heartbeat_cycle list \<Rightarrow> nat \<Rightarrow> nat \<Rightarrow> bool" where
  "cycle_step nodes0 hist i c \<longleftrightarrow>
     0 \<le> count_before hist i c \<and> count_before hist i c \<le> int c \<and>
     count_after hist i c =
       (if \<not> missed hist i c \<or> restartable (nodes0 ! i) \<and> 2 \<le> count_before hist i c \<and> cycle_forks (hist ! c) i then 0
        else count_before hist i c + 1)"

lemma cycle_step_append: "c < length hist \<Longrightarrow> cycle_step nodes0 (hist @ hs) i c = cycle_step nodes0 hist i c"
  by (cases c) (simp_all add: cycle_step_def count_before_def count_after_def missed_def nth_append)

lemma same_endpoint_restartable: "same_endpoint a b \<Longrightarrow> restartable a = restartable b"
  by (simp add: same_endpoint_def restartable_def)

lemma count_before_range:
  assumes "\<forall>c < length hist. cycle_step nodes0 hist i c"
  shows "0 \<le> count_before hist i (length hist) \<and> count_before hist i (length hist) \<le> int (length hist)"
proof (cases "length hist")
  case (Suc c)
  with assms have "cycle_step nodes0 hist i c" by simp
  then show ?thesis by (simp add: Suc cycle_step_def count_before_def [of hist i "Suc c"])
qed (simp add: count_before_def)

lemma heartbeats_inv:
  assumes "heartbeats fwd nodes0 hist nodes" "\<forall>node \<in> set nodes0. fail_count node = 0" "length hist < 2 ^ 31"
  shows "length nodes = length nodes0 \<and>
    (\<forall>i < length nodes0. same_endpoint (nodes ! i) (nodes0 ! i) \<and> sint (fail_count (nodes ! i)) = count_before hist i (length hist) \<and>
      (\<forall>c < length hist. cycle_step nodes0 hist i c)) \<and>
    (\<forall>c < length hist. cycle_changed (hist ! c) \<longleftrightarrow> (\<exists>i < length nodes0. restarted_in hist i c))"
  using assms
proof (induction rule: heartbeats.induct)
  case heartbeats_none
  then show ?case by (simp add: count_before_def same_endpoint_def)
next
  case (heartbeats_cycle hist nodes net pings net' forks nodes' changed)
  define hist' where "hist' = hist @ [\<lparr>cycle_pings = pings, cycle_forks = forks, cycle_nodes = nodes', cycle_changed = changed\<rparr>]"
  from heartbeats_cycle have inv: "length nodes = length nodes0"
    "\<And>i. i < length nodes0 \<Longrightarrow> same_endpoint (nodes ! i) (nodes0 ! i) \<and> sint (fail_count (nodes ! i)) = count_before hist i (length hist) \<and>
      (\<forall>c < length hist. cycle_step nodes0 hist i c)"
    "\<And>c. c < length hist \<Longrightarrow> cycle_changed (hist ! c) \<longleftrightarrow> (\<exists>i < length nodes0. restarted_in hist i c)" by simp_all
  have cycle: "heartbeat_nodes forks 0 pings nodes = (nodes', changed)" "length pings = length nodes"
    using heartbeats_cycle.hyps ping_nodes_length by (auto simp: RunHeartbeatCycle_def)
  note nth = heartbeat_nodes_nth [OF cycle]
  have old: "count_before hist' i (length hist) = count_before hist i (length hist)" for i
    by (simp add: hist'_def count_before_def count_after_def nth_append)
  have last: "hist' ! length hist = \<lparr>cycle_pings = pings, cycle_forks = forks, cycle_nodes = nodes', cycle_changed = changed\<rparr>"
    by (simp add: hist'_def)
  have node: "same_endpoint (nodes' ! i) (nodes0 ! i) \<and> sint (fail_count (nodes' ! i)) = count_after hist' i (length hist) \<and>
      cycle_step nodes0 hist' i (length hist) \<and>
      (restarted_in hist' i (length hist) \<longleftrightarrow> snd (heartbeat_node (forks i) (pings ! i) (nodes ! i)))" if i: "i < length nodes0" for i
  proof -
    obtain n r where n: "heartbeat_node (forks i) (pings ! i) (nodes ! i) = (n, r)" by fastforce
    have range: "0 \<le> sint (fail_count (nodes ! i))" "sint (fail_count (nodes ! i)) \<le> int (length hist)"
      using inv(2) [OF i] count_before_range by metis+
    with heartbeats_cycle.prems have bound: "sint (fail_count (nodes ! i)) < 2 ^ 31 - 1" by simp
    have n': "nodes' ! i = n" using nth i inv(1) n by simp
    from heartbeat_node_step [OF n range(1) bound] inv(2) [OF i] range show ?thesis
      by (auto simp: cycle_step_def restarted_in_def missed_def count_after_def last old n n' same_endpoint_def restartable_def split: if_splits)
  qed
  have "\<forall>c < length hist'. cycle_step nodes0 hist' i c" if "i < length nodes0" for i
    using node [OF that] inv(2) [OF that] by (auto simp: hist'_def less_Suc_eq cycle_step_append)
  moreover have "cycle_changed (hist' ! c) \<longleftrightarrow> (\<exists>i < length nodes0. restarted_in hist' i c)" if "c < length hist'" for c
  proof (cases "c = length hist")
    case True
    with nth node inv(1) last show ?thesis by auto
  next
    case False
    with that have "c < length hist" by (simp add: hist'_def)
    with inv(3) [of c] show ?thesis by (simp add: hist'_def restarted_in_def missed_def count_after_def nth_append)
  qed
  moreover have "count_before hist' i (length hist') = count_after hist' i (length hist)" for i by (simp add: hist'_def count_before_def)
  ultimately show ?case using node nth inv(1) unfolding hist'_def by simp
qed

text \<open>The counter after \<open>n\<close> cycles, read as a statement about the pings.\<close>

definition streak :: "heartbeat_cycle list \<Rightarrow> nat \<Rightarrow> nat \<Rightarrow> nat \<Rightarrow> bool" where
  "streak hist i n k \<longleftrightarrow> (\<forall>c < n. n - k \<le> c \<longrightarrow> missed hist i c \<and> \<not> restarted_in hist i c) \<and>
     (k < n \<longrightarrow> \<not> missed hist i (n - k - 1) \<or> restarted_in hist i (n - k - 1))"

lemma streak_count:
  assumes "\<And>c. c < n \<Longrightarrow> cycle_step nodes0 hist i c"
  shows "\<exists>k \<le> n. count_before hist i n = int k \<and> streak hist i n k"
  using assms
proof (induction n)
  case (Suc n)
  then obtain k where k: "k \<le> n" "count_before hist i n = int k" "streak hist i n k" by auto
  have step: "cycle_step nodes0 hist i n" using Suc.prems by simp
  have next_count: "count_before hist i (Suc n) = count_after hist i n" by (simp add: count_before_def)
  show ?case
  proof (cases "\<not> missed hist i n \<or> restarted_in hist i n")
    case True
    then have "count_after hist i n = 0" using step by (auto simp: cycle_step_def restarted_in_def split: if_splits)
    with True have "count_before hist i (Suc n) = int 0 \<and> streak hist i (Suc n) 0" by (simp add: next_count streak_def)
    then show ?thesis by blast
  next
    case False
    then have "count_after hist i n = int (Suc k)"
      using step k(2) by (auto simp: cycle_step_def restarted_in_def split: if_splits)
    moreover have "streak hist i (Suc n) (Suc k)" using k False by (auto simp: streak_def less_Suc_eq)
    ultimately show ?thesis using k(1) by (metis Suc_le_mono next_count)
  qed
qed (simp add: count_before_def streak_def)

lemma restart_after_three:
  assumes "\<And>c. c < length hist \<Longrightarrow> cycle_step nodes0 hist i c" "c < length hist" "restarted_in hist i c"
  shows "restartable (nodes0 ! i) \<and> 2 \<le> c \<and> missed hist i c \<and> missed hist i (c - 1) \<and> missed hist i (c - 2)"
proof -
  have restart: "missed hist i c" "restartable (nodes0 ! i)" "2 \<le> count_before hist i c" "count_before hist i c \<le> int c"
    using assms(1) [OF assms(2)] assms(3) by (auto simp: cycle_step_def restarted_in_def split: if_splits)
  obtain k where k: "k \<le> c" "count_before hist i c = int k" "streak hist i c k"
    using streak_count [of c nodes0 hist i] assms(1,2) by auto
  with restart show ?thesis by (auto simp: streak_def)
qed

lemma three_then_restart:
  assumes "\<And>c. c < length hist \<Longrightarrow> cycle_step nodes0 hist i c" "c < length hist" "2 \<le> c" "restartable (nodes0 ! i)"
    "missed hist i c" "missed hist i (c - 1)" "missed hist i (c - 2)" "cycle_forks (hist ! c) i"
  shows "restarted_in hist i c \<or> restarted_in hist i (c - 1) \<or> restarted_in hist i (c - 2)"
proof (rule ccontr)
  assume none: "\<not> ?thesis"
  obtain k where k: "k \<le> c" "count_before hist i c = int k" "streak hist i c k"
    using streak_count [of c nodes0 hist i] assms(1,2) by auto
  have "k \<noteq> 0" using k(3) none assms(3,6) by (intro notI) (simp add: streak_def)
  moreover have "k \<noteq> 1" using k(3) none assms(3,7) by (intro notI) (simp add: streak_def numeral_2_eq_2)
  ultimately have "2 \<le> k" by simp
  with k(2) have "2 \<le> count_before hist i c" by simp
  with assms(1) [OF assms(2)] assms(4,5,8) none show False by (auto simp: cycle_step_def restarted_in_def)
qed

text \<open>
  C30. After any number of heartbeats (fewer than \<open>2 ^ 31\<close>) on nodes whose counters were zero, whatever the pings and the forks
  give: the addresses of the nodes are unchanged; a counter of \<open>k\<close> says that the last \<open>k\<close> pings of the node failed and that it was not
  restarted in these cycles; a node is restarted only when the server can restart it and its last three pings failed; a node that the
  server can restart, whose last three pings failed and whose fork succeeds, is restarted in this cycle unless it was in one of the
  two before; and a cycle returns true exactly when it restarted a node.
\<close>

theorem heartbeats_restart:
  assumes "heartbeats fwd nodes0 hist nodes" "\<forall>node \<in> set nodes0. fail_count node = 0" "length hist < 2 ^ 31" "i < length nodes0"
  shows "length nodes = length nodes0 \<and> same_endpoint (nodes ! i) (nodes0 ! i) \<and>
    (\<exists>k \<le> length hist. sint (fail_count (nodes ! i)) = int k \<and>
       (\<forall>c < length hist. length hist - k \<le> c \<longrightarrow> missed hist i c \<and> \<not> restarted_in hist i c) \<and>
       (k < length hist \<longrightarrow> \<not> missed hist i (length hist - k - 1) \<or> restarted_in hist i (length hist - k - 1))) \<and>
    (\<forall>c < length hist. restarted_in hist i c \<longrightarrow>
       restartable (nodes0 ! i) \<and> 2 \<le> c \<and> missed hist i c \<and> missed hist i (c - 1) \<and> missed hist i (c - 2)) \<and>
    (\<forall>c < length hist. 2 \<le> c \<and> restartable (nodes0 ! i) \<and> missed hist i c \<and> missed hist i (c - 1) \<and> missed hist i (c - 2) \<and>
       cycle_forks (hist ! c) i \<longrightarrow> restarted_in hist i c \<or> restarted_in hist i (c - 1) \<or> restarted_in hist i (c - 2)) \<and>
    (\<forall>c < length hist. cycle_changed (hist ! c) \<longleftrightarrow> (\<exists>i < length nodes0. restarted_in hist i c))"
proof -
  note inv = heartbeats_inv [OF assms(1-3)]
  have steps: "\<And>c. c < length hist \<Longrightarrow> cycle_step nodes0 hist i c" using inv assms(4) by blast
  have count: "sint (fail_count (nodes ! i)) = count_before hist i (length hist)" using inv assms(4) by blast
  have "\<forall>c < length hist. restarted_in hist i c \<longrightarrow>
       restartable (nodes0 ! i) \<and> 2 \<le> c \<and> missed hist i c \<and> missed hist i (c - 1) \<and> missed hist i (c - 2)"
    using restart_after_three steps by blast
  moreover have "\<forall>c < length hist. 2 \<le> c \<and> restartable (nodes0 ! i) \<and> missed hist i c \<and> missed hist i (c - 1) \<and> missed hist i (c - 2) \<and>
       cycle_forks (hist ! c) i \<longrightarrow> restarted_in hist i c \<or> restarted_in hist i (c - 1) \<or> restarted_in hist i (c - 2)"
    using three_then_restart steps by blast
  moreover have "\<exists>k \<le> length hist. sint (fail_count (nodes ! i)) = int k \<and> streak hist i (length hist) k"
    unfolding count by (rule streak_count) (use steps in auto)
  ultimately show ?thesis using inv assms(4) unfolding streak_def by blast
qed

definition sample_worker :: StorageNodeEndpoint where
  "sample_worker = \<lparr>host = ''localhost'', port = 7002, managed = True, fail_count = 0\<rparr>"

text \<open>No answer to three pings in a row, and a restart in the third cycle.\<close>

definition sample_cycles :: "heartbeat_cycle list" where
  "sample_cycles = map (\<lambda>(n, r). \<lparr>cycle_pings = [False], cycle_forks = (\<lambda>_. True), cycle_nodes = [sample_worker\<lparr>fail_count := n\<rparr>],
     cycle_changed = r\<rparr>) [(1, False), (2, False), (0, True)]"

lemma sample_heartbeats:
  "heartbeats (\<lambda>node request net :: unit. (Inr None, net)) [sample_worker] sample_cycles [sample_worker\<lparr>fail_count := 0\<rparr>]"
proof -
  let ?fwd = "\<lambda>node request net :: unit. (Inr None, net)"
  have cycle: "heartbeats ?fwd [sample_worker] (hist @ [\<lparr>cycle_pings = [False], cycle_forks = (\<lambda>_. True),
      cycle_nodes = [sample_worker\<lparr>fail_count := n\<rparr>], cycle_changed = r\<rparr>]) [sample_worker\<lparr>fail_count := n\<rparr>]"
    if "heartbeats ?fwd [sample_worker] hist [sample_worker\<lparr>fail_count := m\<rparr>]" "(m, n, r) \<in> {(0, 1, False), (1, 2, False), (2, 0, True)}"
    for hist m n r
  proof (rule heartbeats_cycle [OF that(1)])
    show "ping_nodes ?fwd [sample_worker\<lparr>fail_count := m\<rparr>] () = (Inr [False], ())" by simp
    show "RunHeartbeatCycle ?fwd (\<lambda>_. True) [sample_worker\<lparr>fail_count := m\<rparr>] () = (Inr ([sample_worker\<lparr>fail_count := n\<rparr>], r), ())"
      using that(2) by (auto simp: RunHeartbeatCycle_def heartbeat_node_def RestartManagedNode_def sample_worker_def)
  qed
  have "heartbeats ?fwd [sample_worker] [] [sample_worker\<lparr>fail_count := 0\<rparr>]"
    using heartbeats_none [of ?fwd "[sample_worker]"] by (simp add: sample_worker_def)
  from cycle [OF cycle [OF cycle [OF this]], of 1 False 2 False 0 True] show ?thesis by (simp add: sample_cycles_def)
qed

theorem heartbeats_restart_witness:
  "restarted_in sample_cycles 0 2 \<and> restartable sample_worker \<and> missed sample_cycles 0 2 \<and> missed sample_cycles 0 1 \<and> missed sample_cycles 0 0"
proof -
  have "\<forall>node \<in> set [sample_worker]. fail_count node = 0" "length sample_cycles < 2 ^ 31" "0 < length [sample_worker]"
    by (simp_all add: sample_worker_def sample_cycles_def)
  note restart = heartbeats_restart [OF sample_heartbeats this]
  moreover have "restarted_in sample_cycles 0 2" "2 < length sample_cycles"
    by (simp_all add: restarted_in_def missed_def count_after_def sample_cycles_def)
  ultimately show ?thesis by (metis (no_types, lifting) One_nat_def diff_self_eq_0 diff_Suc_1 nth_Cons_0 numeral_2_eq_2)
qed

end
