(* ===== verification/Entrypoint_Properties.thy ===== *)
theory Entrypoint_Properties
  imports Entrypoint Cluster_Routing Two_Phase
begin

text \<open>
  Properties of the entry point as a whole: what a request without the right permission can change, which commands
  run without one, what a prepared transaction does, and which answers hide a failure.
\<close>

section \<open>SQL is no command\<close>

lemma SplitWhitespace_first:
  assumes "SplitWhitespace s = w # x # ws"
  obtains spaces c rest where "s = spaces @ w @ c # rest" "list_all is_space spaces" "is_space c" "w \<noteq> []"
proof -
  let ?r = "dropWhile is_space s"
  let ?t = "dropWhile (\<lambda>c. \<not> is_space c) ?r"
  have r: "?r \<noteq> []" and w: "w = takeWhile (\<lambda>c. \<not> is_space c) ?r" and t: "SplitWhitespace ?t = x # ws"
    using assms by (subst (asm) SplitWhitespace.simps; simp add: Let_def split: if_splits)+
  have "?t \<noteq> []" using t by (metis SplitWhitespace.simps dropWhile.simps(1) list.distinct(1))
  then have c: "?t = hd ?t # tl ?t" "is_space (hd ?t)" using hd_dropWhile [of "\<lambda>c. \<not> is_space c" ?r] by simp_all
  have "\<not> is_space (hd ?r)" using r hd_dropWhile by blast
  then have "w \<noteq> []" using r by (cases ?r) (simp_all add: w)
  moreover have "s = takeWhile is_space s @ w @ hd ?t # tl ?t"
    using c(1) w by (metis takeWhile_dropWhile_id)
  moreover have "list_all is_space (takeWhile is_space s)" by (auto simp: list_all_iff dest: set_takeWhileD)
  ultimately show ?thesis using that c(2) by blast
qed

lemma Tokenize_spaces: "list_all is_space spaces \<Longrightarrow> Tokenize (spaces @ s) = Tokenize s"
  by (induction spaces) simp_all

lemma to_upper_alpha: "is_upper (to_upper c) \<Longrightarrow> is_alpha c"
  by (auto simp: to_upper_def is_alpha_def split: if_splits)

lemma upper_word_chars: "list_all is_upper (ToUpper w) \<Longrightarrow> list_all word_char w"
  by (auto simp: ToUpper_def list_all_iff is_alnum_def dest!: to_upper_alpha)

lemma space_breaks: "is_space c \<Longrightarrow> breaks (c # s)"
  using word_char_not_special [of c] by (auto simp: breaks_def)

definition command_word :: "string \<Rightarrow> bool" where
  "command_word w \<longleftrightarrow> w = ''CLUSTER'' \<or> w = ''ASYNC'' \<or> w = ''TELEMETRY'' \<or> w = ''AUTH''"

lemma command_not_sql:
  assumes "SplitWhitespace s = w # x # ws" "command_word (ToUpper w)"
  shows "\<exists>e. Parse s = Inl e"
proof -
  obtain spaces c rest where s: "s = spaces @ w @ c # rest" "list_all is_space spaces" "is_space c" "w \<noteq> []"
    using SplitWhitespace_first [OF assms(1)] .
  have "list_all is_upper (ToUpper w)" using assms(2) by (auto simp: command_word_def is_upper_def)
  then have "lexes w [w]" by (intro lexes_word s(4) upper_word_chars)
  then have "Tokenize s = token w # Tokenize (c # rest)"
    unfolding s(1) Tokenize_spaces [OF s(2)] using space_breaks [OF s(3)] by (simp add: lexes_def del: Tokenize.simps)
  moreover have "dispatch statement_parsers \<lparr>tokens = token w # ts, pos = 0\<rparr> = Inl ''unsupported statement''" for ts
    using assms(2) by (auto simp: statement_parsers_def command_word_def MatchKeyword_def Has_def Peek_def)
  ultimately show ?thesis by (simp add: Parse_def Has_def MakeError_def)
qed

lemma SplitWhitespace_word:
  assumes "w \<noteq> []" "\<forall>c \<in> set w. \<not> is_space c" "is_space c"
  shows "SplitWhitespace (w @ c # s) = w # SplitWhitespace s"
proof -
  have d: "dropWhile is_space (w @ c # s) = w @ c # s" using assms by (cases w) simp_all
  have "takeWhile (\<lambda>c. \<not> is_space c) (w @ c # s) = w" "dropWhile (\<lambda>c. \<not> is_space c) (w @ c # s) = c # s"
    using assms by (simp_all add: takeWhile_append dropWhile_append)
  moreover have "SplitWhitespace (c # s) = SplitWhitespace s"
    using assms(3) by (subst (1 2) SplitWhitespace.simps) simp
  ultimately show ?thesis by (subst SplitWhitespace.simps) (simp add: d assms(1) Let_def)
qed

lemma SplitWhitespace_last: "w \<noteq> [] \<Longrightarrow> \<forall>c \<in> set w. \<not> is_space c \<Longrightarrow> SplitWhitespace w = [w]"
proof -
  assume w: "w \<noteq> []" "\<forall>c \<in> set w. \<not> is_space c"
  then have "dropWhile is_space w = w" by (cases w) simp_all
  moreover have "takeWhile (\<lambda>c. \<not> is_space c) w = w" "dropWhile (\<lambda>c. \<not> is_space c) w = []"
    using w(2) by (auto simp: takeWhile_eq_all_conv dropWhile_eq_Nil_conv)
  moreover have "SplitWhitespace [] = []" by (subst SplitWhitespace.simps) simp
  ultimately show ?thesis using w(1) by (subst SplitWhitespace.simps) (simp only: Let_def if_False)
qed

lemma begins_with_append: "begins_with x s \<longleftrightarrow> (\<exists>r. s = x @ r)"
  by (auto simp: begins_with_def) (metis append_take_drop_id)

lemma plain_words: "\<forall>c \<in> set ''CLUSTER''. \<not> is_space c" "\<forall>c \<in> set ''PREPARE_TX''. \<not> is_space c"
  "\<forall>c \<in> set ''COMMIT_TX''. \<not> is_space c" "\<forall>c \<in> set ''ABORT_TX''. \<not> is_space c"
  "\<forall>c \<in> set ''AUTH''. \<not> is_space c" "\<forall>c \<in> set ''REGISTER''. \<not> is_space c" "\<forall>c \<in> set ''admin''. \<not> is_space c"
  by (simp_all add: is_space_def)

lemma prefix_words:
  assumes "x \<noteq> []" "\<forall>c \<in> set x. \<not> is_space c" "begins_with (''CLUSTER'' @ CHR '' '' # x @ [CHR '' '']) s"
  shows "\<exists>ws. SplitWhitespace s = ''CLUSTER'' # x # ws"
proof -
  obtain r where "s = ''CLUSTER'' @ CHR '' '' # x @ CHR '' '' # r" using assms(3) by (auto simp: begins_with_append)
  then show ?thesis using assms(1, 2) plain_words(1) blank(1)
    by (simp only: SplitWhitespace_word [of "''CLUSTER''"] SplitWhitespace_word [of x] list.distinct not_False_eq_True) blast
qed

lemma cluster_prefix_words:
  assumes "begins_with ''CLUSTER PREPARE_TX '' s \<or> begins_with ''CLUSTER COMMIT_TX '' s \<or> begins_with ''CLUSTER ABORT_TX '' s"
  shows "\<exists>x ws. SplitWhitespace s = ''CLUSTER'' # x # ws"
  using assms prefix_words [OF _ plain_words(2), of s] prefix_words [OF _ plain_words(3), of s] prefix_words [OF _ plain_words(4), of s] by auto

lemma sql_no_command:
  assumes "Parse s = Inr stmt"
  shows "\<not> begins_with ''CLUSTER PREPARE_TX '' s" "\<not> begins_with ''CLUSTER COMMIT_TX '' s" "\<not> begins_with ''CLUSTER ABORT_TX '' s"
    and "length (SplitWhitespace s) < 2 \<or> \<not> command_word (ToUpper (SplitWhitespace s ! 0))"
proof -
  have no: "\<not> command_word (ToUpper w)" if "SplitWhitespace s = w # x # ws" for w x ws
    using command_not_sql [OF that] assms by auto
  have "command_word (ToUpper ''CLUSTER'')" by code_simp
  with no cluster_prefix_words [of s] show "\<not> begins_with ''CLUSTER PREPARE_TX '' s" "\<not> begins_with ''CLUSTER COMMIT_TX '' s"
    "\<not> begins_with ''CLUSTER ABORT_TX '' s" by blast+
  show "length (SplitWhitespace s) < 2 \<or> \<not> command_word (ToUpper (SplitWhitespace s ! 0))"
    using no by (cases "SplitWhitespace s"; cases "tl (SplitWhitespace s)") auto
qed

text \<open>A text that the parser accepts reaches the statement handler.\<close>

lemma HandleRequest_sql:
  assumes "Parse (request_payload request) = Inr stmt"
  shows "HandleRequest p request s = handle_statement p request stmt s"
proof -
  obtain sv net where s: "s = (sv, net)" by (cases s)
  show ?thesis
    using sql_no_command [OF assms] assms
    unfolding HandleRequest_def ParseClusterCommand_def ParseAsyncCommand_def ParseTelemetryCommand_def ParseAuthCommand_def s Let_def command_word_def
    by auto
qed

section \<open>A small server\<close>

definition request_of :: "string \<Rightarrow> string \<Rightarrow> string \<Rightarrow> RequestEnvelope" where
  "request_of client t txt = \<lparr>request_client_id = client, jwt_token = t, request_payload = txt\<rparr>"

definition sample_time :: clock_reading where
  "sample_time = \<lparr>year = 2026, month = 1, day = 1, hour = 0, minute = 0, second = 0, micros = 0\<rparr>"

definition sample_disk :: disk where
  "sample_disk = \<lparr>wal_append = Written, save_state = \<lparr>write_ok = True, remove_ok = True, rename_ok = True\<rparr>,
     save_history = \<lparr>write_ok = True, remove_ok = True, rename_ok = True\<rparr>, wal_reset = Written\<rparr>"

definition sample_platform :: "unit Platform" where
  "sample_platform = \<lparr>matcher = (\<lambda>p t. None), engine_clock = (\<lambda>n. sample_time), engine_disk = (\<lambda>n. sample_disk), keyed_hash = sample_hmac,
     hash_functions = sample_hashes, now_unix = 0, random_salt = ''s'', access_disk = (Written, Written), guid = (\<lambda>n. ''g''),
     telemetry_local = [], telemetry_snapshot = (\<lambda>rs. []),
     network = (\<lambda>node request net. (Inr (Some \<lparr>status_code = 400, response_payload = ''no''\<rparr>), net))\<rparr>"

definition sample_server :: EntrypointServer where
  "sample_server = \<lparr>dbms = loaded_engine ''d'' (None, None) None (sample_runtime, \<lparr>records = []\<rparr>, empty_pool), job_queue = make_queue,
     access_controller = new_access ''key'', sessions = [], storage_nodes = sample_nodes, pending_cluster_transactions = []\<rparr>"

section \<open>Permissions\<close>

definition may_run :: "'net Platform \<Rightarrow> RequestEnvelope \<Rightarrow> Statement \<Rightarrow> EntrypointServer \<Rightarrow> bool" where
  "may_run p request stmt sv \<longleftrightarrow>
     (\<exists>user. request_user p request sv = Some user \<and>
        (\<forall>permission. RequiredPermission stmt = Some permission \<longrightarrow>
           Authorize (access_controller sv) user
             (ResolveAuthorizationDatabaseName stmt (fst (GetOrCreateSession (request_client_id request) sv))) permission))"

lemma ResolveAuthorization_session:
  "current_database session' = current_database session \<Longrightarrow>
   ResolveAuthorizationDatabaseName stmt session' = ResolveAuthorizationDatabaseName stmt session"
  by (cases stmt) (simp_all add: ResolveAuthorizationDatabaseName_def statement_table_def split: option.split)

lemma GetOrCreateSession_kept:
  "access_controller (snd (GetOrCreateSession client sv)) = access_controller sv"
  "dbms (snd (GetOrCreateSession client sv)) = dbms sv"
  "\<exists>ss. snd (GetOrCreateSession client sv) = sv\<lparr>sessions := ss\<rparr>"
  by (auto simp: GetOrCreateSession_def split: option.splits intro: exI [of _ "sessions sv"])

text \<open>
  C13. With accounts, a statement whose token is not valid or whose user lacks the permission on the database changes nothing
  but the session of the client: no database, account, job, node or transaction, and no message is sent. The answer is 401 or 403.
\<close>

theorem refused_request_unchanged:
  assumes "HasAccounts (access_controller sv)" "Parse (request_payload request) = Inr stmt" "\<not> may_run p request stmt sv"
  shows "\<exists>response ss. HandleRequest p request (sv, net) = (Inr response, (sv\<lparr>sessions := ss\<rparr>, net)) \<and>
    (status_code response = 401 \<or> status_code response = 403)"
proof -
  obtain session sv1 where g: "GetOrCreateSession (request_client_id request) sv = (session, sv1)" by fastforce
  obtain ss where sv1: "sv1 = sv\<lparr>sessions := ss\<rparr>" using GetOrCreateSession_kept(3) [of "request_client_id request" sv] g by auto
  let ?session = "session\<lparr>client_id := request_client_id request\<rparr>"
  have user: "request_user p request (sv\<lparr>sessions := ss\<rparr>) = request_user p request sv" by (simp add: request_user_def)
  have "\<exists>response session'. authorize_statement p request stmt ?session sv1 = (Some response, session') \<and>
      (status_code response = 401 \<or> status_code response = 403)"
    using assms(1, 3) ResolveAuthorization_session [of "?session\<lparr>user_id := _\<rparr>" session stmt]
    by (auto simp: authorize_statement_def may_run_def g user sv1 authorization_error_def contract_def Let_def split: option.splits)
  then show ?thesis
    unfolding HandleRequest_sql [OF assms(2)] handle_statement_def by (auto simp: g sv1 Let_def)
qed

theorem refused_request_unchanged_witness:
  "\<exists>response ss. HandleRequest sample_platform (request_of ''c'' ''no token'' ''DROP DATABASE shop;'') (sample_server\<lparr>access_controller := sample_access\<rparr>, ()) =
      (Inr response, (sample_server\<lparr>access_controller := sample_access, sessions := ss\<rparr>, ())) \<and>
    (status_code response = 401 \<or> status_code response = 403)"
proof -
  have "HasAccounts sample_access" by code_simp
  moreover have "Parse ''DROP DATABASE shop;'' = Inr (DropDatabaseStatement ''shop'')" by code_simp
  moreover have "token_parts ''no token'' = None" by code_simp
  then have "\<not> may_run sample_platform (request_of ''c'' ''no token'' ''DROP DATABASE shop;'') (DropDatabaseStatement ''shop'')
      (sample_server\<lparr>access_controller := sample_access\<rparr>)"
    by (simp add: may_run_def request_user_def ValidateTokenAndGetUser_def request_of_def)
  ultimately show ?thesis
    using refused_request_unchanged [of "sample_server\<lparr>access_controller := sample_access\<rparr>" "request_of ''c'' ''no token'' ''DROP DATABASE shop;''"
        "DropDatabaseStatement ''shop''" sample_platform "()"]
    by (simp add: request_of_def)
qed

section \<open>Prepared transactions\<close>

definition transaction_id :: "string \<Rightarrow> bool" where
  "transaction_id tx \<longleftrightarrow> tx \<noteq> [] \<and> CHR '' '' \<notin> set tx"

lemma at_space: "CHR '' '' \<notin> set tx \<Longrightarrow> takeWhile (\<lambda>c. c \<noteq> CHR '' '') (tx @ CHR '' '' # s) = tx"
  "CHR '' '' \<notin> set tx \<Longrightarrow> dropWhile (\<lambda>c. c \<noteq> CHR '' '') (tx @ CHR '' '' # s) = CHR '' '' # s"
  by (induction tx) auto

lemma Parse_Nil: "Parse [] = MakeError kParseError ''empty SQL''"
  by (simp add: Parse_def Has_def)

text \<open>What the three messages of the two-phase commit do at a node.\<close>

lemma HandleRequest_local:
  assumes "ParseClusterCommand p request s = answer_of r"
  shows "HandleRequest p request s = r"
  using assms by (cases r; cases "fst r") (auto simp: HandleRequest_def answer_of_def)

lemma local_answer_of: "local_answer net (r, sv) = answer_of (r, (sv, net))"
  by (simp add: local_answer_def answer_of_def)

lemma prepare_request:
  assumes "transaction_id tx" "sql \<noteq> []" "request_payload request = prepare_payload tx sql"
  shows "HandleRequest p request (sv, net) =
    (case Parse sql of
       Inl (Err e) \<Rightarrow> (Inr \<lparr>status_code = 400, response_payload = FormatErrorContract e sql\<rparr>, (sv, net))
     | Inl (Thrown x) \<Rightarrow> (Inl (Thrown x), (sv, net))
     | Inr stmt \<Rightarrow>
         if \<not> cluster_IsMutatingStatement stmt then (Inr (validation_error ''PREPARE_TX requires mutating sql''), (sv, net))
         else (Inr (ok_response ''prepared''),
                ((snd (GetOrCreateSession (request_client_id request) sv))\<lparr>pending_cluster_transactions := umap_assign tx
                   \<lparr>pending_sql = sql, pending_client_id = request_client_id request,
                    pending_database = current_database (fst (GetOrCreateSession (request_client_id request) sv))\<rparr>
                   (pending_cluster_transactions sv)\<rparr>, net)))"
proof (rule HandleRequest_local)
  have kept: "pending_cluster_transactions (snd (GetOrCreateSession client sv)) = pending_cluster_transactions sv" for client
    by (simp add: GetOrCreateSession_def split: option.split)
  have "begins_with ''CLUSTER PREPARE_TX '' (request_payload request)" "drop (length ''CLUSTER PREPARE_TX '') (request_payload request) = tx @ CHR '' '' # sql"
    by (simp_all add: assms(3) prepare_payload_def begins_with_def)
  then show "ParseClusterCommand p request (sv, net) = answer_of
    (case Parse sql of
       Inl (Err e) \<Rightarrow> (Inr \<lparr>status_code = 400, response_payload = FormatErrorContract e sql\<rparr>, (sv, net))
     | Inl (Thrown x) \<Rightarrow> (Inl (Thrown x), (sv, net))
     | Inr stmt \<Rightarrow>
         if \<not> cluster_IsMutatingStatement stmt then (Inr (validation_error ''PREPARE_TX requires mutating sql''), (sv, net))
         else (Inr (ok_response ''prepared''),
                ((snd (GetOrCreateSession (request_client_id request) sv))\<lparr>pending_cluster_transactions := umap_assign tx
                   \<lparr>pending_sql = sql, pending_client_id = request_client_id request,
                    pending_database = current_database (fst (GetOrCreateSession (request_client_id request) sv))\<rparr>
                   (pending_cluster_transactions sv)\<rparr>, net)))"
    using assms(1, 2) kept
    by (auto simp: ParseClusterCommand_def cluster_prepare_def Let_def local_answer_of at_space transaction_id_def case_prod_beta
        split: sum.split failure.split)
qed

lemma commit_request:
  assumes "tx \<noteq> []" "request_payload request = commit_payload tx"
  shows "HandleRequest p request (sv, net) = (case cluster_commit p tx sv of (r, sv') \<Rightarrow> (r, (sv', net)))"
proof (rule HandleRequest_local)
  have "\<not> begins_with ''CLUSTER PREPARE_TX '' (request_payload request)" "begins_with ''CLUSTER COMMIT_TX '' (request_payload request)"
    "drop (length ''CLUSTER COMMIT_TX '') (request_payload request) = tx"
    by (simp_all add: assms(2) commit_payload_def begins_with_def)
  then show "ParseClusterCommand p request (sv, net) = answer_of (case cluster_commit p tx sv of (r, sv') \<Rightarrow> (r, (sv', net)))"
    by (auto simp: ParseClusterCommand_def Let_def local_answer_of split: prod.split)
qed

lemma abort_request:
  assumes "tx \<noteq> []" "request_payload request = abort_payload tx"
  shows "HandleRequest p request (sv, net) = (Inr (ok_response ''aborted''),
    (sv\<lparr>pending_cluster_transactions := umap_erase tx (pending_cluster_transactions sv)\<rparr>, net))"
proof (rule HandleRequest_local)
  have "\<not> begins_with ''CLUSTER PREPARE_TX '' (request_payload request)" "\<not> begins_with ''CLUSTER COMMIT_TX '' (request_payload request)"
    "begins_with ''CLUSTER ABORT_TX '' (request_payload request)" "drop (length ''CLUSTER ABORT_TX '') (request_payload request) = tx"
    by (simp_all add: assms(2) abort_payload_def begins_with_def)
  then show "ParseClusterCommand p request (sv, net) = answer_of (Inr (ok_response ''aborted''),
    (sv\<lparr>pending_cluster_transactions := umap_erase tx (pending_cluster_transactions sv)\<rparr>, net))"
    by (simp add: ParseClusterCommand_def Let_def cluster_abort_def assms(1) local_answer_of)
qed

lemma GetOrCreateSession_again:
  "GetOrCreateSession client ((snd (GetOrCreateSession client sv))\<lparr>pending_cluster_transactions := ts\<rparr>) =
     (fst (GetOrCreateSession client sv), (snd (GetOrCreateSession client sv))\<lparr>pending_cluster_transactions := ts\<rparr>)"
  by (auto simp: GetOrCreateSession_def split: option.splits)

text \<open>
  C36. The two messages of the two-phase commit run a statement without looking at the accounts: whatever token they carry, a
  statement that is prepared and committed is executed in the session of the client, exactly as a permitted one would be.
\<close>

theorem prepared_commit_unchecked:
  assumes "transaction_id tx" "Parse sql = Inr stmt" "cluster_IsMutatingStatement stmt"
    and "HandleRequest p (request_of client t (prepare_payload tx sql)) (sv, net) = (r, s)"
  shows "r = Inr (ok_response ''prepared'') \<and> dbms (fst s) = dbms sv \<and>
    dbms (fst (snd (HandleRequest q (request_of client' t' (commit_payload tx)) s))) =
      fst (fst (ExecuteSql (matcher q) (engine_clock q) (engine_disk q) sql (dbms sv, fst (GetOrCreateSession client sv))))"
proof -
  have sql: "sql \<noteq> []" using assms(2) by (auto simp: Parse_Nil MakeError_def)
  let ?session = "fst (GetOrCreateSession client sv)"
  let ?pending = "\<lparr>pending_sql = sql, pending_client_id = client, pending_database = current_database ?session\<rparr>"
  let ?sv1 = "(snd (GetOrCreateSession client sv))\<lparr>pending_cluster_transactions := umap_assign tx ?pending (pending_cluster_transactions sv)\<rparr>"
  have "HandleRequest p (request_of client t (prepare_payload tx sql)) (sv, net) = (Inr (ok_response ''prepared''), (?sv1, net))"
    using prepare_request [OF assms(1) sql, of "request_of client t (prepare_payload tx sql)"] assms(2, 3) by (simp add: request_of_def)
  then have rs: "r = Inr (ok_response ''prepared'')" "s = (?sv1, net)" using assms(4) by simp_all
  have tx: "tx \<noteq> []" using assms(1) by (simp add: transaction_id_def)
  have "dbms (snd (cluster_commit q tx ?sv1)) =
      fst (fst (ExecuteSql (matcher q) (engine_clock q) (engine_disk q) sql (dbms sv, ?session)))"
    using tx by (simp add: cluster_commit_def GetOrCreateSession_again execute_in_def GetOrCreateSession_kept(2) case_prod_beta)
  then show ?thesis
    using commit_request [OF tx, of "request_of client' t' (commit_payload tx)" q ?sv1 net]
    by (simp add: rs request_of_def GetOrCreateSession_kept(2) case_prod_beta)
qed

theorem prepared_commit_unchecked_witness:
  "\<exists>r s. HandleRequest sample_platform (request_of ''c'' [] (prepare_payload ''t1'' ''DROP DATABASE shop;'')) (sample_server\<lparr>access_controller := sample_access\<rparr>, ()) = (r, s) \<and>
    r = Inr (ok_response ''prepared'') \<and> dbms (fst s) = dbms sample_server \<and>
    dbms (fst (snd (HandleRequest sample_platform (request_of ''c'' [] (commit_payload ''t1'')) s))) =
      fst (fst (ExecuteSql (matcher sample_platform) (engine_clock sample_platform) (engine_disk sample_platform) ''DROP DATABASE shop;''
        (dbms sample_server, new_session ''c'')))"
proof -
  let ?sv = "sample_server\<lparr>access_controller := sample_access\<rparr>"
  obtain r s where rs: "HandleRequest sample_platform (request_of ''c'' [] (prepare_payload ''t1'' ''DROP DATABASE shop;'')) (?sv, ()) = (r, s)"
    by (rule prod.exhaust)
  have "transaction_id ''t1''" "Parse ''DROP DATABASE shop;'' = Inr (DropDatabaseStatement ''shop'')"
    "cluster_IsMutatingStatement (DropDatabaseStatement ''shop'')" by code_simp+
  moreover have "fst (GetOrCreateSession ''c'' ?sv) = new_session ''c''"
    by (simp add: GetOrCreateSession_def sample_server_def umap_find_def)
  ultimately show ?thesis
    using rs prepared_commit_unchecked [of "''t1''" "''DROP DATABASE shop;''" "DropDatabaseStatement ''shop''" sample_platform "''c''" "[]" ?sv "()" r s sample_platform "''c''" "[]"]
    by auto
qed

section \<open>Accounts\<close>

definition spaceless :: "string \<Rightarrow> bool" where
  "spaceless w \<longleftrightarrow> w \<noteq> [] \<and> (\<forall>c \<in> set w. \<not> is_space c)"

lemma register_words:
  assumes "spaceless user" "spaceless password"
  shows "SplitWhitespace (''AUTH REGISTER '' @ user @ '' '' @ password @ '' admin'') = [''AUTH'', ''REGISTER'', user, password, ''admin'']"
proof -
  have "SplitWhitespace (''AUTH'' @ CHR '' '' # ''REGISTER'' @ CHR '' '' # user @ CHR '' '' # password @ CHR '' '' # ''admin'')
      = [''AUTH'', ''REGISTER'', user, password, ''admin'']"
    using assms SplitWhitespace_word [OF _ plain_words(5) blank(1)] SplitWhitespace_word [OF _ plain_words(6) blank(1)]
      SplitWhitespace_word [OF _ _ blank(1)] SplitWhitespace_last [OF _ plain_words(7)]
    by (simp add: spaceless_def)
  then show ?thesis by simp
qed

text \<open>
  Anyone can become an administrator: registration takes the name of the group from the request and asks for no token.
\<close>

theorem register_grants_admin:
  assumes "spaceless user" "spaceless password" "\<not> umap_contains (accounts (access_controller sv)) user"
    and "request_payload request = ''AUTH REGISTER '' @ user @ '' '' @ password @ '' admin''"
  shows "IsAdmin (access_controller (fst (snd (HandleRequest p request (sv, net))))) user"
proof -
  have words: "SplitWhitespace (request_payload request) = [''AUTH'', ''REGISTER'', user, password, ''admin'']"
    using register_words [OF assms(1, 2)] assms(4) by simp
  have up: "ToUpper ''AUTH'' = ''AUTH''" "ToUpper ''REGISTER'' = ''REGISTER''" by code_simp+
  have "\<not> begins_with ''CLUSTER PREPARE_TX '' (request_payload request)" "\<not> begins_with ''CLUSTER COMMIT_TX '' (request_payload request)"
    "\<not> begins_with ''CLUSTER ABORT_TX '' (request_payload request)"
    using cluster_prefix_words [of "request_payload request"] words by auto
  then have "ParseClusterCommand p request (sv, net) = (Inr None, (sv, net))" "ParseAsyncCommand p request (sv, net) = (Inr None, (sv, net))"
    "ParseTelemetryCommand p (request_payload request) (sv, net) = (Inr None, (sv, net))"
    by (simp_all add: ParseClusterCommand_def ParseAsyncCommand_def ParseTelemetryCommand_def Let_def words up)
  moreover have "ParseAuthCommand p request sv = (case auth_register p [''AUTH'', ''REGISTER'', user, password, ''admin''] sv of (r, sv') \<Rightarrow> (Some r, sv'))"
    by (simp add: ParseAuthCommand_def Let_def words up)
  ultimately show ?thesis using assms(1, 2, 3)
    by (simp add: HandleRequest_def auth_register_def access_reply_def RegisterAccount_def Let_def IsAdmin_def spaceless_def umap_contains_find
        split: prod.split)
      (auto simp: Persist_def Let_def split: prod.splits if_splits)
qed

theorem register_grants_admin_witness:
  "IsAdmin (access_controller (fst (snd (HandleRequest sample_platform (request_of ''c'' [] ''AUTH REGISTER eve pw admin'')
     (sample_server\<lparr>access_controller := sample_access\<rparr>, ()))))) ''eve''"
  by (rule register_grants_admin [of _ "''pw''"]) (simp_all add: spaceless_def is_space_def sample_accounts request_of_def)

section \<open>Hidden failures\<close>

text \<open>
  A \<^verbatim>\<open>SELECT\<close> that is sent to all nodes hides their errors: when a node refuses it, the client gets the status 200 and an
  empty text.
\<close>

theorem fanout_error_hidden:
  assumes "Parse (request_payload request) = Inr (SelectStmt sel)" "\<not> HasAccounts (access_controller sv)"
    and "storage_nodes sv = node # nodes"
    and "\<And>session. RouteNodeIndex (hash_functions p) (runtime_of sv) (SelectStmt sel) (storage_nodes sv) session = Inr None"
    and "network p node request net = (Inr (Some response), net')" "status_code response \<noteq> 200"
  shows "fst (HandleRequest p request (sv, net)) = Inr (ok_response [])"
proof -
  obtain session sv1 where g: "GetOrCreateSession (request_client_id request) sv = (session, sv1)" by fastforce
  obtain ss where sv1: "sv1 = sv\<lparr>sessions := ss\<rparr>" using GetOrCreateSession_kept(3) [of "request_client_id request" sv] g by auto
  show ?thesis
    using assms(2-6)
    by (simp add: HandleRequest_sql [OF assms(1)] handle_statement_def g sv1 authorize_statement_def cluster_statement_def
        IsMetadataStatement_def ShouldBroadcast_def routed_statement_def IsSelectStatement_def BroadcastToStorageNodes_def
        cluster_reply_def merged_json_def runtime_of_def Let_def)
qed

theorem fanout_error_hidden_witness:
  "fst (HandleRequest sample_platform (request_of ''c'' [] ''SELECT * FROM items;'') (sample_server, ())) = Inr (ok_response [])"
proof (rule fanout_error_hidden)
  show "Parse (request_payload (request_of ''c'' [] ''SELECT * FROM items;'')) = Inr (SelectStmt \<lparr>select_table = \<lparr>database_name = None, object_name = ''items''\<rparr>,
      select_items = [\<lparr>is_wildcard = True, item_column = [], item_alias = None, item_aggregate = None\<rparr>], select_where = None\<rparr>)" by code_simp
  show "\<not> HasAccounts (access_controller sample_server)" by (simp add: sample_server_def new_access_def HasAccounts_def)
  show "storage_nodes sample_server = hd sample_nodes # tl sample_nodes" by (simp add: sample_server_def sample_nodes_def)
  show "network sample_platform (hd sample_nodes) (request_of ''c'' [] ''SELECT * FROM items;'') () =
      (Inr (Some \<lparr>status_code = 400, response_payload = ''no''\<rparr>), ())" by (simp add: sample_platform_def)
  show "status_code \<lparr>status_code = 400, response_payload = ''no''\<rparr> \<noteq> 200" by simp
qed (simp add: RouteNodeIndex_def evaluate_route_def)

section \<open>Two-phase commit between servers\<close>

text \<open>
  The servers of a cluster by their addresses; nobody else can be reached. Those that \<open>registered\<close> names are in the same process,
  the others are reached over a connection that loses nothing.
\<close>

type_synonym cluster = "(string, EntrypointServer) umap"

definition node_key :: "StorageNodeEndpoint \<Rightarrow> string" where
  "node_key node = host node @ '':'' @ int_to_string (port node)"

definition handler_at :: "unit Platform \<Rightarrow> string \<Rightarrow> EntrypointServer \<Rightarrow> RequestEnvelope \<Rightarrow> cluster \<Rightarrow> ResponseEnvelope Result \<times> cluster" where
  "handler_at p key sv request net = (case HandleRequest p request (sv, ()) of (r, (sv', _)) \<Rightarrow> (r, umap_assign key sv' net))"

definition socket_at :: "unit Platform \<Rightarrow> string \<Rightarrow> EntrypointServer \<Rightarrow> string \<Rightarrow> cluster \<Rightarrow> string option \<times> cluster" where
  "socket_at p key sv received net =
     (case ReadLine received of
        None \<Rightarrow> (None, net)
      | Some wire_request \<Rightarrow>
          (case DeserializeRequest wire_request of
             None \<Rightarrow> (Some (SerializeResponse invalid_envelope), net)
           | Some request \<Rightarrow>
               (case handler_at p key sv request net of
                  (Inl x, net') \<Rightarrow> (None, net')
                | (Inr response, net') \<Rightarrow> (Some (SerializeResponse response), net'))))"

definition cluster_forward :: "unit Platform \<Rightarrow> (string \<Rightarrow> bool) \<Rightarrow> cluster forward" where
  "cluster_forward p registered node request net =
     ForwardToStorageNode (\<lambda>key. if registered key then map_option (handler_at p key) (umap_find net key) else None)
       (\<lambda>h n bytes net. case umap_find net (h @ '':'' @ int_to_string n) of
            None \<Rightarrow> (None, net)
          | Some sv \<Rightarrow> socket_at p (h @ '':'' @ int_to_string n) sv bytes net) node request net"

lemma cluster_forward_None: "umap_find net (node_key node) = None \<Longrightarrow> cluster_forward p registered node request net = (Inr None, net)"
  by (simp add: cluster_forward_def ForwardToStorageNode_def node_key_def)

definition fits_int :: "int \<Rightarrow> bool" where
  "fits_int n \<longleftrightarrow> - (2 ^ 31) \<le> n \<and> n < 2 ^ 31"

text \<open>Whatever the text of a response, its status arrives.\<close>

lemma response_status:
  assumes "fits_int (status_code response)"
  shows "\<exists>wire r. ReadLine (SerializeResponse response) = Some wire \<and> DeserializeResponse wire = Some r \<and> status_code r = status_code response"
proof (cases "newline \<in> set (response_payload response)")
  case False
  then have "sendable_response response" using assms by (simp add: sendable_response_def fits_int_def)
  from responses.received [OF this] show ?thesis by blast
next
  case True
  then obtain a b where cut: "response_payload response = a @ newline # b" "newline \<notin> set a" by (metis split_list_first)
  let ?w = "int_to_string (status_code response) @ [tab] @ Escape a @ [CHR 0x5C]"
  have "Escape (x @ y) = Escape x @ Escape y" for x y by (induction x) auto
  then have "SerializeResponse response = ?w @ newline # (Escape b @ [newline])"
    using cut(1) by (simp add: SerializeResponse_def EscapeField_def)
  moreover have "newline \<notin> set ?w" using cut(2) by simp
  ultimately have "ReadLine (SerializeResponse response) = Some ?w" by (metis ReadLine_line)
  moreover have "protocol_SplitByTab ?w = [int_to_string (status_code response), Escape a @ [CHR 0x5C]]"
    using split_tab_field [OF field_plain [of "int_to_string (status_code response)"], of "[]" "[]" "tab # Escape a @ [CHR 0x5C]"]
    by (simp add: protocol_SplitByTab_def split_tab_Escape)
  moreover have "stoi (int_to_string (status_code response)) = Some (status_code response, length (int_to_string (status_code response)))"
    using assms scan_signed_int [of 32 "status_code response"] by (simp add: fits_int_def stoi_def)
  ultimately show ?thesis by (simp add: DeserializeResponse_def)
qed

lemma cluster_forward_Some:
  assumes "umap_find net (node_key node) = Some sv" "sendable_request request"
    and "HandleRequest p request (sv, ()) = (Inr response, (sv', ()))" "fits_int (status_code response)"
  shows "\<exists>r. cluster_forward p registered node request net = (Inr (Some r), umap_assign (node_key node) sv' net) \<and>
    status_code r = status_code response"
proof (cases "registered (node_key node)")
  case True
  with assms show ?thesis by (simp add: cluster_forward_def ForwardToStorageNode_def node_key_def handler_at_def)
next
  case False
  with assms(1,3) requests.received [OF assms(2)] response_status [OF assms(4)] show ?thesis
    by (auto simp: cluster_forward_def ForwardToStorageNode_def node_key_def handler_at_def socket_at_def)
qed

text \<open>Two states of a server that differ at most in its sessions and in one pending transaction.\<close>

definition same_server :: "string \<Rightarrow> EntrypointServer \<Rightarrow> EntrypointServer \<Rightarrow> bool" where
  "same_server tx sv sv' \<longleftrightarrow> dbms sv' = dbms sv \<and> job_queue sv' = job_queue sv \<and> access_controller sv' = access_controller sv \<and>
     storage_nodes sv' = storage_nodes sv \<and>
     (\<forall>t. t \<noteq> tx \<longrightarrow> umap_find (pending_cluster_transactions sv') t = umap_find (pending_cluster_transactions sv) t)"

definition same_cluster :: "string \<Rightarrow> cluster \<Rightarrow> cluster \<Rightarrow> bool" where
  "same_cluster tx net net' \<longleftrightarrow> (\<forall>key. rel_option (same_server tx) (umap_find net key) (umap_find net' key))"

definition holders :: "string \<Rightarrow> cluster \<Rightarrow> string set" where
  "holders tx net = {key. \<exists>sv. umap_find net key = Some sv \<and> umap_contains (pending_cluster_transactions sv) tx}"

lemma same_server_refl: "same_server tx sv sv"
  by (simp add: same_server_def)

lemma same_server_trans: "same_server tx a b \<Longrightarrow> same_server tx b c \<Longrightarrow> same_server tx a c"
  by (simp add: same_server_def)

lemma same_cluster_refl: "same_cluster tx net net"
  by (simp add: same_cluster_def option.rel_refl same_server_refl)

lemma same_cluster_trans:
  assumes "same_cluster tx a b" "same_cluster tx b c"
  shows "same_cluster tx a c"
  unfolding same_cluster_def
proof
  fix key
  have "rel_option (same_server tx) (umap_find a key) (umap_find b key)" "rel_option (same_server tx) (umap_find b key) (umap_find c key)"
    using assms by (simp_all add: same_cluster_def)
  then show "rel_option (same_server tx) (umap_find a key) (umap_find c key)"
    by (cases "umap_find a key"; cases "umap_find b key"; cases "umap_find c key") (auto intro: same_server_trans)
qed

lemma same_cluster_assign: "umap_find net key = Some sv \<Longrightarrow> same_server tx sv sv' \<Longrightarrow> same_cluster tx net (umap_assign key sv' net)"
  by (auto simp: same_cluster_def option.rel_refl same_server_refl)

lemma holders_assign:
  "holders tx (umap_assign key sv net) =
     (if umap_contains (pending_cluster_transactions sv) tx then insert key (holders tx net) else holders tx net - {key})"
  by (auto simp: holders_def split: if_splits)

lemma holders_subset: "holders tx (umap_assign key sv net) \<subseteq> insert key (holders tx net)"
  by (auto simp: holders_assign)

lemma holders_same:
  "umap_find net key = Some sv \<Longrightarrow> pending_cluster_transactions sv' = pending_cluster_transactions sv \<Longrightarrow>
   holders tx (umap_assign key sv' net) = holders tx net"
  by (auto simp: holders_def)

lemma GetOrCreateSession_same: "same_server tx sv (snd (GetOrCreateSession client sv))"
  by (simp add: GetOrCreateSession_def same_server_def split: option.split)

lemma prepare_at_server:
  assumes "transaction_id tx" "sql \<noteq> []" "request_payload request = prepare_payload tx sql"
  shows "\<exists>response sv'. HandleRequest p request (sv, ()) = (Inr response, (sv', ())) \<and> same_server tx sv sv' \<and>
    fits_int (status_code response) \<and>
    (status_code response \<noteq> 200 \<longrightarrow> pending_cluster_transactions sv' = pending_cluster_transactions sv)"
proof (cases rule: Parse_cases [of sql])
  case (1 m)
  then show ?thesis by (simp add: prepare_request [OF assms] same_server_refl fits_int_def)
next
  case (2 stmt)
  then show ?thesis using GetOrCreateSession_same [of tx sv "request_client_id request"]
    by (simp add: prepare_request [OF assms] same_server_refl validation_error_def contract_def fits_int_def) (simp add: same_server_def ok_response_def fits_int_def)
qed

lemma forward_step:
  assumes "sendable_request request"
    and "\<And>sv. umap_find net (node_key node) = Some sv \<Longrightarrow>
      \<exists>response sv'. HandleRequest p request (sv, ()) = (Inr response, (sv', ())) \<and> same_server tx sv sv' \<and>
        fits_int (status_code response) \<and> P (status_code response) sv sv'"
  shows "\<exists>response net'. cluster_forward p registered node request net = (Inr response, net') \<and> same_cluster tx net net' \<and>
    (response = None \<and> net' = net \<and> umap_find net (node_key node) = None \<or>
     (\<exists>r sv sv'. response = Some r \<and> umap_find net (node_key node) = Some sv \<and> net' = umap_assign (node_key node) sv' net \<and>
        P (status_code r) sv sv'))"
proof (cases "umap_find net (node_key node)")
  case None
  then show ?thesis by (simp add: cluster_forward_None same_cluster_refl)
next
  case (Some sv)
  from assms(2) [OF Some] obtain response sv' where h: "HandleRequest p request (sv, ()) = (Inr response, (sv', ()))" "same_server tx sv sv'"
    "fits_int (status_code response)" "P (status_code response) sv sv'" by blast
  from cluster_forward_Some [OF Some assms(1) h(1,3), of registered] obtain r where
    "cluster_forward p registered node request net = (Inr (Some r), umap_assign (node_key node) sv' net)"
    "status_code r = status_code response" by blast
  with Some same_cluster_assign [OF Some h(2)] h(4) show ?thesis by auto
qed

lemma prepare_step:
  assumes "transaction_id tx" "sql \<noteq> []" "sendable_request (request\<lparr>request_payload := prepare_payload tx sql\<rparr>)"
  shows "\<exists>response net'. cluster_forward p registered node (request\<lparr>request_payload := prepare_payload tx sql\<rparr>) net = (Inr response, net') \<and>
    same_cluster tx net net' \<and> holders tx net' \<subseteq> insert (node_key node) (holders tx net) \<and>
    (\<not> accepted_response response \<longrightarrow> holders tx net' \<subseteq> holders tx net)"
proof -
  have "\<exists>response net'. cluster_forward p registered node (request\<lparr>request_payload := prepare_payload tx sql\<rparr>) net = (Inr response, net') \<and>
    same_cluster tx net net' \<and>
    (response = None \<and> net' = net \<and> umap_find net (node_key node) = None \<or>
     (\<exists>r sv sv'. response = Some r \<and> umap_find net (node_key node) = Some sv \<and> net' = umap_assign (node_key node) sv' net \<and>
       (status_code r \<noteq> 200 \<longrightarrow> pending_cluster_transactions sv' = pending_cluster_transactions sv)))"
    by (rule forward_step [OF assms(3)]) (rule prepare_at_server [OF assms(1,2)], simp)
  then show ?thesis
  proof (elim exE conjE disjE)
    fix response net' r sv sv'
    assume step: "cluster_forward p registered node (request\<lparr>request_payload := prepare_payload tx sql\<rparr>) net = (Inr response, net')"
      "same_cluster tx net net'"
      "response = Some r" "umap_find net (node_key node) = Some sv" "net' = umap_assign (node_key node) sv' net"
      "status_code r \<noteq> 200 \<longrightarrow> pending_cluster_transactions sv' = pending_cluster_transactions sv"
    have "\<not> accepted_response response \<longrightarrow> holders tx net' \<subseteq> holders tx net"
      using step(3, 6) holders_same [OF step(4)] by (simp add: step(5) accepted_response_def)
    with step holders_subset show ?thesis by blast
  qed (auto simp: accepted_response_def)
qed

lemma abort_step:
  assumes "tx \<noteq> []" "sendable_request (request\<lparr>request_payload := abort_payload tx\<rparr>)"
  shows "\<exists>response net'. cluster_forward p registered node (request\<lparr>request_payload := abort_payload tx\<rparr>) net = (Inr response, net') \<and>
    same_cluster tx net net' \<and> holders tx net' \<subseteq> holders tx net - {node_key node}"
proof -
  have "\<exists>response net'. cluster_forward p registered node (request\<lparr>request_payload := abort_payload tx\<rparr>) net = (Inr response, net') \<and>
    same_cluster tx net net' \<and>
    (response = None \<and> net' = net \<and> umap_find net (node_key node) = None \<or>
     (\<exists>r sv sv'. response = Some r \<and> umap_find net (node_key node) = Some sv \<and> net' = umap_assign (node_key node) sv' net \<and>
       \<not> umap_contains (pending_cluster_transactions sv') tx))"
    by (rule forward_step [OF assms(2)])
      (simp add: abort_request [OF assms(1)] same_server_def umap_contains_find fits_int_def ok_response_def)
  then show ?thesis by (elim exE conjE disjE) (auto simp: holders_def holders_assign)
qed

interpretation servers: commit_participants "cluster_forward p registered" node_key same_cluster holders transaction_id sendable_request
  for p registered
proof unfold_locales
  fix tx sql :: string and request node net
  assume "transaction_id tx" "sql \<noteq> []" "sendable_request (request\<lparr>request_payload := prepare_payload tx sql\<rparr>)"
  then show "\<exists>response net'. cluster_forward p registered node (request\<lparr>request_payload := prepare_payload tx sql\<rparr>) net = (Inr response, net') \<and>
      same_cluster tx net net' \<and> holders tx net' \<subseteq> insert (node_key node) (holders tx net) \<and>
      (\<not> accepted_response response \<longrightarrow> holders tx net' \<subseteq> holders tx net)" by (rule prepare_step)
next
  fix tx request node net
  assume "transaction_id tx" "sendable_request (request\<lparr>request_payload := abort_payload tx\<rparr>)"
  then show "\<exists>response net'. cluster_forward p registered node (request\<lparr>request_payload := abort_payload tx\<rparr>) net = (Inr response, net') \<and>
      same_cluster tx net net' \<and> holders tx net' \<subseteq> holders tx net - {node_key node}"
    by (intro abort_step) (simp_all add: transaction_id_def)
qed (auto intro: same_cluster_refl same_cluster_trans)

lemma carried_requests:
  assumes "newline \<notin> set (request_client_id request) \<union> set (jwt_token request) \<union> set tx" "\<forall>(node, sql) \<in> set prepared. sql \<noteq> [] \<and> newline \<notin> set sql"
  shows "sendable_request (request\<lparr>request_payload := abort_payload tx\<rparr>)"
    "\<forall>(node, sql) \<in> set prepared. sql \<noteq> [] \<and> sendable_request (request\<lparr>request_payload := prepare_payload tx sql\<rparr>)"
  using assms by (auto simp: sendable_request_def abort_payload_def prepare_payload_def)

text \<open>
  C10. A two-phase commit that does not reach its second phase leaves nothing behind but sessions: in a cluster of servers, in the same
  process or reached over connections that lose nothing, when any of them refuses to prepare or there is no server at its address,
  every server has the databases, accounts, jobs, nodes and other pending transactions that it had, and none holds the
  transaction. The servers answer and do nothing else meanwhile; the identifier is not empty and has no blank, and neither it, the
  client, the token nor the statements, which are not empty, have a newline.
\<close>

theorem refused_commit_leaves_no_trace:
  assumes "transaction_id tx" "newline \<notin> set (request_client_id request) \<union> set (jwt_token request) \<union> set tx"
    and "\<forall>(node, sql) \<in> set prepared. sql \<noteq> [] \<and> newline \<notin> set sql" "holders tx net = {}"
    and "fst (prepare_nodes (cluster_forward p registered) tx request [] prepared net) \<noteq> Inr True"
  shows "\<exists>net'. ExecuteTwoPhaseCommit (cluster_forward p registered) tx prepared request net = (Inr None, net') \<and>
    same_cluster tx net net' \<and> holders tx net' = {}"
  by (rule servers.refused_commit [OF assms(1) carried_requests [OF assms(2,3)] assms(4,5)])

text \<open>One server that is reached over a connection, and an address without one.\<close>

theorem refused_commit_leaves_no_trace_witness:
  "\<exists>net'. ExecuteTwoPhaseCommit (cluster_forward sample_platform (\<lambda>_. False)) ''t1''
      [(hd sample_nodes, ''DROP DATABASE shop;''), (sample_node, ''DROP DATABASE shop;'')]
      (request_of ''c'' [] []) [(''127.0.0.1:7001'', sample_server)] = (Inr None, net') \<and>
    same_cluster ''t1'' [(''127.0.0.1:7001'', sample_server)] net' \<and> holders ''t1'' net' = {}"
proof (rule refused_commit_leaves_no_trace)
  show "transaction_id ''t1''" by code_simp
  show newlines: "newline \<notin> set (request_client_id (request_of ''c'' [] [])) \<union> set (jwt_token (request_of ''c'' [] [])) \<union> set ''t1''"
    by (simp add: request_of_def)
  show "holders ''t1'' [(''127.0.0.1:7001'', sample_server)] = {}"
    by (auto simp: holders_def umap_find_def sample_server_def umap_contains_find split: if_splits)
  have keys: "node_key (hd sample_nodes) = ''127.0.0.1:7001''" "node_key sample_node = ''10.0.0.7:7001''"
    by (simp_all add: node_key_def sample_nodes_def sample_node_def int_to_string_def nat_to_string.simps digit_char_def char_of_def bit_0)
  let ?net = "[(''127.0.0.1:7001'', sample_server)]" and ?sql = "''DROP DATABASE shop;''" and ?r = "request_of ''c'' [] []"
  have tx: "transaction_id ''t1''" "?sql \<noteq> []" by code_simp+
  show sqls: "\<forall>(node, sql) \<in> set [(hd sample_nodes, ?sql), (sample_node, ?sql)]. sql \<noteq> [] \<and> newline \<notin> set sql" by simp
  note carried = carried_requests [OF newlines sqls]
  have prepare: "sendable_request (?r\<lparr>request_payload := prepare_payload ''t1'' ?sql\<rparr>)" using carried(2) by simp
  obtain response net1 where first: "cluster_forward sample_platform (\<lambda>_. False) (hd sample_nodes)
      (?r\<lparr>request_payload := prepare_payload ''t1'' ?sql\<rparr>) ?net = (Inr response, net1)" "same_cluster ''t1'' ?net net1"
    using prepare_step [OF tx prepare, of sample_platform "\<lambda>_. False" "hd sample_nodes" ?net] by blast
  have "umap_find ?net (node_key sample_node) = None" by (simp add: keys umap_find_def)
  then have "umap_find net1 (node_key sample_node) = None"
    using first(2) unfolding same_cluster_def by (metis option.rel_distinct(1) option.exhaust)
  then have second: "cluster_forward sample_platform (\<lambda>_. False) sample_node request net1 = (Inr None, net1)" for request
    by (rule cluster_forward_None)
  obtain net2 where "abort_nodes (cluster_forward sample_platform (\<lambda>_. False)) ''t1'' ?r [hd sample_nodes] net1 = (Inr (), net2)"
    using servers.abort_nodes_clean [OF tx(1) carried(1)] by blast
  then show "fst (prepare_nodes (cluster_forward sample_platform (\<lambda>_. False)) ''t1'' ?r []
      [(hd sample_nodes, ?sql), (sample_node, ?sql)] ?net) \<noteq> Inr True"
    using first(1) second by (simp add: accepted_response_def)
qed

end
