(* ===== verification/Cli.thy ===== *)
theory Cli
  imports Entrypoint
begin

text \<open>
  The command line client (\<^verbatim>\<open>apps/cli/main.cpp\<close>): its arguments, the division of scripts and of typed lines into statements, and
  the three modes, on a local engine or over a connection. What is printed is part of the result. How one statement is
  executed is an argument of the modes, so that they are the same for both.
\<close>

section \<open>Texts\<close>

definition TrimCopy :: "string \<Rightarrow> string" where
  "TrimCopy text_in = rev (dropWhile is_blank (rev (dropWhile is_blank text_in)))"

definition HasNonSpace :: "string \<Rightarrow> bool" where
  "HasNonSpace text_in \<longleftrightarrow> (\<exists>c \<in> set text_in. \<not> is_blank c)"

definition EndsWithSemicolonIgnoringSpaces :: "string \<Rightarrow> bool" where
  "EndsWithSemicolonIgnoringSpaces text_in =
     (case dropWhile is_blank (rev text_in) of [] \<Rightarrow> False | c # _ \<Rightarrow> c = CHR '';'')"

definition StripOneTrailingSemicolon :: "string \<Rightarrow> string" where
  "StripOneTrailingSemicolon text_in =
     (let trimmed = TrimCopy text_in
      in TrimCopy (if trimmed \<noteq> [] \<and> last trimmed = CHR '';'' then butlast trimmed else trimmed))"

definition StartsWithKeyword :: "string \<Rightarrow> string \<Rightarrow> bool" where
  "StartsWithKeyword text_in keyword =
     (let trimmed = TrimCopy text_in
      in length trimmed \<ge> length keyword \<and> map to_upper (take (length keyword) trimmed) = map to_upper keyword \<and>
         (length trimmed = length keyword \<or> is_space (trimmed ! length keyword)))"

definition IsRemoteMetaCommand :: "string \<Rightarrow> bool" where
  "IsRemoteMetaCommand text_in \<longleftrightarrow>
     StartsWithKeyword text_in ''CLUSTER'' \<or> StartsWithKeyword text_in ''AUTH'' \<or> StartsWithKeyword text_in ''ASYNC'' \<or>
     StartsWithKeyword text_in ''TELEMETRY''"

text \<open>The loop of \<^verbatim>\<open>SplitStatements\<close> with its two flags and the statement so far.\<close>

fun split_statements :: "bool \<Rightarrow> bool \<Rightarrow> string \<Rightarrow> string \<Rightarrow> string list" where
  "split_statements in_string escaped current [] = (if current \<noteq> [] then [current] else [])"
| "split_statements in_string escaped current (ch # s) =
     (let current' = current @ [ch] in
      if in_string
      then if escaped then split_statements True False current' s
           else if ch = backslash then split_statements True True current' s
           else if ch = quotation_mark then split_statements False escaped current' s
           else split_statements True escaped current' s
      else if ch = quotation_mark then split_statements True escaped current' s
      else if ch = CHR '';'' then current' # split_statements False escaped [] s
      else split_statements False escaped current' s)"

definition SplitStatements :: "string \<Rightarrow> string list" where
  "SplitStatements input = split_statements False False [] input"

section \<open>One statement\<close>

definition ValueToJson :: "Value \<Rightarrow> string Result" where
  "ValueToJson v =
     (case v of
        Monostate \<Rightarrow> Inr ''null''
      | Int64 w \<Rightarrow> Inr (int_to_string (sint w))
      | _ \<Rightarrow> bind_result (AsString v) (\<lambda>s. Inr ([quotation_mark] @ EscapeJsonText s @ [quotation_mark])))"

definition select_field :: "string \<times> Value \<Rightarrow> string Result" where
  "select_field f =
     bind_result (ValueToJson (snd f)) (\<lambda>t. Inr ([quotation_mark] @ EscapeJsonText (fst f) @ [quotation_mark] @ '': '' @ t))"

definition PrintSelectJson :: "QueryResult \<Rightarrow> string Result" where
  "PrintSelectJson r =
     bind_result (mapM (\<lambda>row. bind_result (mapM select_field (zip (column_names r) (row_values row)))
                    (\<lambda>fields. Inr (''{'' @ comma_separated fields @ ''}''))) (result_rows r))
       (\<lambda>rows. Inr (''['' @ comma_separated rows @ '']'' @ [newline]))"

text \<open>The exit code and what is printed; an exception ends the program.\<close>

type_synonym 's runner = "string \<Rightarrow> nat \<Rightarrow> 's \<Rightarrow> (int \<times> string) Result \<times> 's"

definition ExecuteAndPrint :: "regex \<Rightarrow> clock \<Rightarrow> (nat \<Rightarrow> disk) \<Rightarrow> (DbmsEngine \<times> SessionContext) runner" where
  "ExecuteAndPrint rx clk io sql statement_index s =
     (if \<not> HasNonSpace sql then (Inr (0, []), s)
      else case ExecuteSql rx clk io sql s of
             (s', Inl (Thrown x)) \<Rightarrow> (Inl (Thrown x), s')
           | (s', Inl (Err e)) \<Rightarrow>
               (Inr (1, ''error['' @ nat_to_string statement_index @ '']: '' @ FormatErrorContract e sql @ [newline]), s')
           | (s', Inr r) \<Rightarrow>
               (if column_names r \<noteq> [] then bind_result (PrintSelectJson r) (\<lambda>t. Inr (0, t)) else Inr (0, result_message r @ [newline]), s'))"

definition ExecuteAndPrintRemote ::
  "(RequestEnvelope \<Rightarrow> 'net \<Rightarrow> ResponseEnvelope option \<times> 'net) \<Rightarrow> string \<Rightarrow> string \<Rightarrow> 'net runner" where
  "ExecuteAndPrintRemote send client token sql statement_index net =
     (if \<not> HasNonSpace sql then (Inr (0, []), net)
      else let payload = (if IsRemoteMetaCommand sql then StripOneTrailingSemicolon sql else sql)
           in case send \<lparr>request_client_id = client, jwt_token = token, request_payload = payload\<rparr> net of
                (None, net') \<Rightarrow>
                  (Inr (1, ''error['' @ nat_to_string statement_index @ '']: type=NETWORK_ERROR code=6 message=failed to reach server sql='' @
                     [quotation_mark] @ EscapeJsonText payload @ [quotation_mark, newline]), net')
              | (Some response, net') \<Rightarrow>
                  (Inr (if status_code response = 200 then 0 else 1, response_payload response @ [newline]), net'))"

section \<open>Modes\<close>

definition BuildDemoStatements :: "string list" where
  "BuildDemoStatements =
     [''CREATE DATABASE demo;'', ''USE demo;'',
      ''CREATE TABLE users (id INT INDEXED, name STRING, score INT DEFAULT 0);'',
      ''INSERT INTO users (id, name) VALUES (1, '' @ [quotation_mark] @ ''Ann'' @ [quotation_mark] @ ''), (2, '' @ [quotation_mark] @ ''Bob'' @ [quotation_mark] @ '');'',
      ''UPDATE users SET score = 42 WHERE id == 2;'', ''SELECT * FROM users;'', ''SELECT COUNT(*), SUM(score), AVG(score) FROM users;'']"

text \<open>A list of statements in order: the exit code is 1 when one of them failed, but all are run.\<close>

fun run_statements :: "'s runner \<Rightarrow> string list \<Rightarrow> nat \<Rightarrow> 's \<Rightarrow> (int \<times> string) Result \<times> 's" where
  "run_statements exec_one [] statement_index s = (Inr (0, []), s)"
| "run_statements exec_one (sql # sqls) statement_index s =
     (case exec_one sql statement_index s of
        (Inl x, s1) \<Rightarrow> (Inl x, s1)
      | (Inr (rc, out), s1) \<Rightarrow>
          (case run_statements exec_one sqls (Suc statement_index) s1 of
             (r, s2) \<Rightarrow> (bind_result r (\<lambda>(rc', out'). Inr (if rc \<noteq> 0 then 1 else rc', out @ out')), s2)))"

definition run_demo :: "'s runner \<Rightarrow> 's \<Rightarrow> (int \<times> string) Result \<times> 's" where
  "run_demo exec_one s = run_statements exec_one BuildDemoStatements 1 s"

definition run_script :: "'s runner \<Rightarrow> string \<Rightarrow> 's \<Rightarrow> (int \<times> string) Result \<times> 's" where
  "run_script exec_one script s = run_statements exec_one (filter HasNonSpace (SplitStatements script)) 1 s"

text \<open>One typed line: what is run at once, and what stays in the buffer.\<close>

definition typed_line :: "string \<Rightarrow> string \<Rightarrow> string list \<times> string" where
  "typed_line buffer line =
     (let buffer' = buffer @ line @ [newline];
          statements = SplitStatements buffer';
          command_is_complete = EndsWithSemicolonIgnoringSpaces buffer';
          executable_count = (if command_is_complete then length statements else length statements - 1)
      in if statements = [] then ([], buffer')
         else (filter HasNonSpace (take executable_count statements),
               if command_is_complete then [] else if executable_count < length statements then last statements else []))"

fun interactive_loop :: "'s runner \<Rightarrow> string list \<Rightarrow> string \<Rightarrow> nat \<Rightarrow> 's \<Rightarrow> string Result \<times> 's" where
  "interactive_loop exec_one [] buffer statement_index s = (Inr [], s)"
| "interactive_loop exec_one (line # lines) buffer statement_index s =
     (case typed_line buffer line of
        (sqls, buffer') \<Rightarrow>
          (case run_statements exec_one sqls statement_index s of
             (Inl x, s1) \<Rightarrow> (Inl x, s1)
           | (Inr (_, out), s1) \<Rightarrow>
               (case interactive_loop exec_one lines buffer' (statement_index + length sqls) s1 of
                  (r, s2) \<Rightarrow> (bind_result r (\<lambda>more. Inr (out @ more)), s2))))"

section \<open>Arguments\<close>

record cli_options =
  use_remote :: bool
  run_demo_mode :: bool
  remote_host :: string
  remote_port :: int
  cli_token :: string

datatype cli_arguments = ShowUsage | BadArgument string | Options cli_options "string list"

fun parse_arguments :: "cli_options \<Rightarrow> string list \<Rightarrow> cli_arguments" where
  "parse_arguments opts [] = Options opts []"
| "parse_arguments opts (arg # args) =
     (if arg = ''--help'' then ShowUsage
      else if arg = ''--demo'' then parse_arguments (opts\<lparr>run_demo_mode := True\<rparr>) args
      else if arg = ''--server''
      then (case args of
              [] \<Rightarrow> BadArgument ''error: --server requires host:port''
            | endpoint # rest \<Rightarrow>
                (case ParseEndpoint endpoint of
                   None \<Rightarrow> BadArgument ''error: invalid endpoint, expected host:port''
                 | Some (h, n) \<Rightarrow> parse_arguments (opts\<lparr>use_remote := True, remote_host := h, remote_port := n\<rparr>) rest))
      else if arg = ''--jwt''
      then (case args of
              [] \<Rightarrow> BadArgument ''error: --jwt requires token''
            | t # rest \<Rightarrow> parse_arguments (opts\<lparr>cli_token := t\<rparr>) rest)
      else Options opts (arg # args))"

definition default_options :: cli_options where
  "default_options = \<lparr>use_remote = False, run_demo_mode = False, remote_host = ''127.0.0.1'', remote_port = 4545, cli_token = []\<rparr>"

text \<open>
  The mode that \<^verbatim>\<open>main\<close> chooses on the arguments after the options. \<open>script\<close> is the text of the named file, \<open>None\<close> when it cannot be
  opened, \<open>typed\<close> the lines of the standard input. With more than one argument left the lines are read, too.
\<close>

definition run_mode ::
  "'s runner \<Rightarrow> bool \<Rightarrow> string list \<Rightarrow> (string \<Rightarrow> string option) \<Rightarrow> string list \<Rightarrow> 's \<Rightarrow> (int \<times> string) Result \<times> 's" where
  "run_mode exec_one demo rest script typed s =
     (if demo then run_demo exec_one s
      else case rest of
             [file_name] \<Rightarrow>
               (case script file_name of
                  None \<Rightarrow> (Inr (1, ''error: cannot open script file: '' @ file_name @ [newline]), s)
                | Some content \<Rightarrow> run_script exec_one content s)
           | _ \<Rightarrow>
               (case interactive_loop exec_one typed [] 1 s of (r, s') \<Rightarrow> (bind_result r (\<lambda>out. Inr (0, out)), s')))"

text \<open>
  The two server programs take a port in the same way, and differ in its default and in the directory of their files.
  \<^verbatim>\<open>std::stoi\<close> accepts what follows the digits.
\<close>

definition port_argument :: "int \<Rightarrow> string list \<Rightarrow> string + int" where
  "port_argument default_port args =
     (case (case args of [] \<Rightarrow> Some default_port | arg # _ \<Rightarrow> map_option fst (stoi arg)) of
        None \<Rightarrow> Inl ''invalid port''
      | Some n \<Rightarrow> if n \<le> 0 \<or> n > 65535 then Inl ''invalid port range'' else Inr n)"

definition server_port :: "string list \<Rightarrow> string + int" where
  "server_port args = port_argument 4545 args"

definition storage_node_port :: "string list \<Rightarrow> (string + int \<times> string)" where
  "storage_node_port args =
     (case port_argument 4546 args of Inl e \<Rightarrow> Inl e | Inr n \<Rightarrow> Inr (n, ''./storage_data_'' @ int_to_string n))"

section \<open>Splitting\<close>

lemma split_statements_concat: "concat (split_statements i e current s) = current @ s"
  by (induction i e current s rule: split_statements.induct) (auto simp: Let_def)

text \<open>The loop as a scan: the statements that it has ended, its flags, and the statement it is in.\<close>

fun scan_statements :: "bool \<Rightarrow> bool \<Rightarrow> string \<Rightarrow> string \<Rightarrow> string list \<times> bool \<times> bool \<times> string" where
  "scan_statements in_string escaped current [] = ([], in_string, escaped, current)"
| "scan_statements in_string escaped current (ch # s) =
     (let current' = current @ [ch] in
      if in_string
      then if escaped then scan_statements True False current' s
           else scan_statements (ch \<noteq> quotation_mark) (ch = backslash) current' s
      else if ch = CHR '';'' then apfst (Cons current') (scan_statements False escaped [] s)
      else scan_statements (ch = quotation_mark) escaped current' s)"

lemma quote_apart [simp]: "quotation_mark \<noteq> CHR 0x5C" "CHR 0x5C \<noteq> quotation_mark" "quotation_mark \<noteq> CHR '';''" "CHR '';'' \<noteq> quotation_mark"
  by (simp_all add: quotation_mark_def)

lemma scan_append:
  "scan_statements i e c s = (ps, i', e', c') \<Longrightarrow>
   scan_statements i e c (s @ t) = apfst ((@) ps) (scan_statements i' e' c' t)"
  by (induction i e c s arbitrary: ps rule: scan_statements.induct)
    (auto simp: Let_def apfst_def map_prod_def split: if_splits prod.splits)

lemma split_scan:
  "scan_statements i e c s = (ps, i', e', c') \<Longrightarrow> split_statements i e c (s @ t) = ps @ split_statements i' e' c' t"
proof (induction i e c s arbitrary: ps rule: scan_statements.induct)
  case (2 i e c ch s)
  then show ?case
    by (cases "scan_statements False e [] s") (auto simp: Let_def apfst_def map_prod_def split: if_splits)
qed simp

lemma scan_concat: "scan_statements i e c s = (ps, i', e', c') \<Longrightarrow> concat ps @ c' = c @ s"
  using split_scan [of i e c s ps i' e' c' "[]"] split_statements_concat [of i e c s]
  by (auto split: if_splits)

lemma scan_outside: "scan_statements i e c s = (ps, i', e', c') \<Longrightarrow> (\<not> i \<longrightarrow> \<not> e) \<Longrightarrow> \<not> i' \<Longrightarrow> \<not> e'"
  by (induction i e c s arbitrary: ps rule: scan_statements.induct)
    (auto simp: Let_def apfst_def map_prod_def split: if_splits prod.splits)

text \<open>The loop may start again at the statement that it is in: that text alone leads to the same flags.\<close>

definition resumable :: "bool \<Rightarrow> bool \<Rightarrow> string \<Rightarrow> bool" where
  "resumable in_string escaped current \<longleftrightarrow> scan_statements False False [] current = ([], in_string, escaped, current)"

lemma resumable_empty [simp]: "resumable False False []"
  by (simp add: resumable_def)

lemma resumable_step:
  assumes "resumable i e c" "scan_statements i e c [ch] = ([], i', e', c')"
  shows "resumable i' e' c'"
proof -
  have "c' = c @ [ch]" using scan_concat [OF assms(2)] by simp
  with assms scan_append [of False False "[]" c "[]" i e c "[ch]"] show ?thesis
    by (simp add: resumable_def)
qed

lemma resumable_scan:
  "resumable i e c \<Longrightarrow> scan_statements i e c s = (ps, i', e', c') \<Longrightarrow> resumable i' e' c'"
proof (induction s arbitrary: i e c ps)
  case (Cons ch s)
  obtain p1 i1 e1 c1 where one: "scan_statements i e c [ch] = (p1, i1, e1, c1)" by (metis prod_cases4)
  have outside: "\<not> i \<longrightarrow> \<not> e"
    using scan_outside Cons.prems(1) unfolding resumable_def by blast
  have r: "resumable i1 e1 c1"
  proof (cases "p1 = []")
    case True
    then show ?thesis using resumable_step [OF Cons.prems(1)] one by simp
  next
    case False
    then have "i1 = False" "e1 = e" "c1 = []" "\<not> i" using one by (auto simp: Let_def split: if_splits)
    with outside show ?thesis by simp
  qed
  obtain ps' where "scan_statements i1 e1 c1 s = (ps', i', e', c')"
    using scan_append [OF one, of s] Cons.prems(2) by (cases "scan_statements i1 e1 c1 s") auto
  with r show ?case by (rule Cons.IH)
qed simp

lemma split_resumed: "resumable i e c \<Longrightarrow> split_statements False False [] (c @ s) = split_statements i e c s"
  using split_scan [of False False "[]" c "[]" i e c s] by (simp add: resumable_def)

lemma scan_statement_alone:
  "resumable i e c \<Longrightarrow> scan_statements i e c s = (ps, i', e', c') \<Longrightarrow> list_all (\<lambda>p. SplitStatements p = [p]) ps"
proof (induction s arbitrary: i e c ps)
  case (Cons ch s)
  obtain p1 i1 e1 c1 where one: "scan_statements i e c [ch] = (p1, i1, e1, c1)" by (metis prod_cases4)
  obtain ps' where rest: "scan_statements i1 e1 c1 s = (ps', i', e', c')" "ps = p1 @ ps'"
    using scan_append [OF one, of s] Cons.prems(2) by (cases "scan_statements i1 e1 c1 s") auto
  have "list_all (\<lambda>p. SplitStatements p = [p]) ps'"
    using Cons.IH [OF resumable_scan [OF Cons.prems(1) one] rest(1)] .
  moreover have "p1 = [] \<or> p1 = [c @ [ch]] \<and> SplitStatements (c @ [ch]) = [c @ [ch]]"
    using one split_resumed [OF Cons.prems(1), of "[ch]"]
    by (auto simp: SplitStatements_def Let_def split: if_splits)
  ultimately show ?case using rest(2) by auto
qed simp

lemma resumable_alone: "resumable i e c \<Longrightarrow> c \<noteq> [] \<Longrightarrow> SplitStatements c = [c]"
  using split_resumed [of i e c "[]"] by (simp add: SplitStatements_def)

lemma split_alone: "list_all (\<lambda>p. SplitStatements p = [p]) (SplitStatements s)"
proof -
  obtain ps i e c where scan: "scan_statements False False [] s = (ps, i, e, c)" by (metis prod_cases4)
  then have "SplitStatements s = ps @ (if c \<noteq> [] then [c] else [])"
    using split_scan [of False False "[]" s ps i e c "[]"] by (simp add: SplitStatements_def)
  with scan_statement_alone [OF resumable_empty scan] resumable_alone [OF resumable_scan [OF resumable_empty scan]]
  show ?thesis by simp
qed

section \<open>Typed lines\<close>

text \<open>The statements that typed lines run, and what is left in the buffer.\<close>

fun typed_statements :: "string list \<Rightarrow> string \<Rightarrow> string list \<times> string" where
  "typed_statements [] buffer = ([], buffer)"
| "typed_statements (line # lines) buffer =
     (case typed_line buffer line of (sqls, buffer') \<Rightarrow> apfst ((@) sqls) (typed_statements lines buffer'))"

lemma bind_result_case: "bind_result r f = (case r of Inl x \<Rightarrow> Inl x | Inr v \<Rightarrow> f v)"
  by (cases r) auto

lemma run_statements_append:
  "run_statements f (xs @ ys) n s =
     (case run_statements f xs n s of
        (Inl x, s') \<Rightarrow> (Inl x, s')
      | (Inr (rc, out), s') \<Rightarrow>
          (case run_statements f ys (n + length xs) s' of
             (r, s'') \<Rightarrow> (bind_result r (\<lambda>(rc', out'). Inr (if rc \<noteq> 0 then 1 else rc', out @ out')), s'')))"
  by (induction xs arbitrary: n s) (auto simp: bind_result_case split: sum.splits prod.splits)

lemma interactive_loop_statements:
  "interactive_loop f lines buffer n s =
     (case run_statements f (fst (typed_statements lines buffer)) n s of
        (r, s') \<Rightarrow> (bind_result r (\<lambda>(rc, out). Inr out), s'))"
  by (induction lines arbitrary: buffer n s)
    (auto simp: run_statements_append bind_result_case split: sum.splits prod.splits)

lemma blank_plain: "is_blank ch \<Longrightarrow> ch \<noteq> CHR '';'' \<and> ch \<noteq> quotation_mark \<and> ch \<noteq> CHR 0x5C"
  by (auto simp: is_blank_def quotation_mark_def)

lemma scan_blank: "list_all is_blank w \<Longrightarrow> \<exists>e'. scan_statements i e c w = ([], i, e', c @ w)"
proof (induction w arbitrary: e c)
  case (Cons ch w)
  then have "ch \<noteq> CHR '';'' \<and> ch \<noteq> quotation_mark \<and> ch \<noteq> CHR 0x5C" by (simp add: blank_plain)
  with Cons.IH [of False "c @ [ch]"] Cons.IH [of True "c @ [ch]"] Cons.prems show ?case
    by (cases i; cases e) (simp_all add: Let_def)
qed simp

definition in_literal :: "string \<Rightarrow> bool" where
  "in_literal s = (case scan_statements False False [] s of (_, in_string, _, _) \<Rightarrow> in_string)"

lemma semicolon_outside:
  assumes scan: "scan_statements False False [] s = (ps, False, e, c)" and semicolon: "EndsWithSemicolonIgnoringSpaces s"
  shows "list_all is_blank c"
proof -
  let ?w = "rev (takeWhile is_blank (rev s))"
  from semicolon obtain r where "dropWhile is_blank (rev s) = CHR '';'' # r"
    by (auto simp: EndsWithSemicolonIgnoringSpaces_def split: list.splits)
  then have "rev s = takeWhile is_blank (rev s) @ CHR '';'' # r" by (metis takeWhile_dropWhile_id)
  then have s: "s = rev r @ CHR '';'' # ?w" by (metis append.assoc append_Cons append_Nil rev.simps(2) rev_append rev_rev_ident)
  have w: "list_all is_blank ?w" by (auto simp: list_all_iff dest: set_takeWhileD)
  obtain p1 i1 e1 c1 where one: "scan_statements False False [] (rev r) = (p1, i1, e1, c1)" by (metis prod_cases4)
  have "\<not> i1"
  proof
    assume "i1"
    with scan_blank [OF w, of True _ "c1 @ '';''"] have "\<exists>e'. scan_statements i1 e1 c1 (CHR '';'' # ?w) = ([], True, e', c1 @ '';'' @ ?w)"
      by (auto simp: Let_def)
    then show False using scan scan_append [OF one, of "CHR '';'' # ?w"] s by (auto simp: apfst_def map_prod_def)
  qed
  with scan_blank [OF w, of False e1 "[]"] scan scan_append [OF one, of "CHR '';'' # ?w"] s w show ?thesis
    by (auto simp: apfst_def map_prod_def)
qed

lemma HasNonSpace_semicolon [simp]: "HasNonSpace (s @ '';'')" "HasNonSpace (s @ t @ '';'')"
  by (simp_all add: HasNonSpace_def is_blank_def)

lemma trimmed_split:
  "list_all is_blank w \<Longrightarrow>
   map (dropWhile is_blank) (filter HasNonSpace (split_statements i e (w @ c) s)) =
   map (dropWhile is_blank) (filter HasNonSpace (split_statements i e c s))"
proof (induction i e c s rule: split_statements.induct)
  case (1 i e c)
  then show ?case by (auto simp: HasNonSpace_def list_all_iff dropWhile_append)
next
  case (2 i e c ch s)
  have "dropWhile is_blank (w @ c @ '';'') = dropWhile is_blank (c @ '';'')"
    using "2.prems" by (auto simp: list_all_iff dropWhile_append)
  then show ?case using 2 by (auto simp: Let_def)
qed

text \<open>No line ends in a semicolon within a literal.\<close>

fun literals_closed :: "string \<Rightarrow> string list \<Rightarrow> bool" where
  "literals_closed buffer [] = True"
| "literals_closed buffer (line # lines) =
     (\<not> (EndsWithSemicolonIgnoringSpaces (buffer @ line @ [newline]) \<and> in_literal (buffer @ line @ [newline])) \<and>
      literals_closed (snd (typed_line buffer line)) lines)"

definition lines_text :: "string list \<Rightarrow> string" where
  "lines_text lines = concat (map (\<lambda>line. line @ [newline]) lines)"

lemma typed_line_scan:
  assumes r: "resumable i e c" and scan: "scan_statements i e c (line @ [newline]) = (ps, i', e', c')"
  shows "typed_line c line =
    (if EndsWithSemicolonIgnoringSpaces (c @ line @ [newline]) then (filter HasNonSpace (ps @ [c']), [])
     else (filter HasNonSpace ps, c'))"
proof -
  obtain p1 i1 e1 c1 where one: "scan_statements i e c line = (p1, i1, e1, c1)" by (metis prod_cases4)
  have "c' \<noteq> []" using scan_append [OF one, of "[newline]"] scan
    by (auto simp: Let_def split: if_splits)
  then have "SplitStatements (c @ line @ [newline]) = ps @ [c']"
    using split_resumed [OF r, of "line @ [newline]"] split_scan [OF scan, of "[]"] by (simp add: SplitStatements_def)
  then show ?thesis by (simp add: typed_line_def Let_def)
qed

lemma typed_statements_split:
  "resumable i e c \<Longrightarrow> literals_closed c lines \<Longrightarrow>
   (case typed_statements lines c of (sqls, buffer) \<Rightarrow> map (dropWhile is_blank) (sqls @ filter HasNonSpace [buffer])) =
   map (dropWhile is_blank) (filter HasNonSpace (split_statements i e c (lines_text lines)))"
proof (induction lines arbitrary: i e c)
  case Nil
  then show ?case by (auto simp: lines_text_def HasNonSpace_def)
next
  case (Cons line lines)
  obtain ps i' e' c' where scan: "scan_statements i e c (line @ [newline]) = (ps, i', e', c')" by (metis prod_cases4)
  note r' = resumable_scan [OF Cons.prems(1) scan]
  note line = typed_line_scan [OF Cons.prems(1) scan]
  have split: "split_statements i e c (lines_text (line # lines)) = ps @ split_statements i' e' c' (lines_text lines)"
    using split_scan [OF scan, of "lines_text lines"] by (simp add: lines_text_def)
  show ?case
  proof (cases "EndsWithSemicolonIgnoringSpaces (c @ line @ [newline])")
    case False
    with Cons.IH [OF r'] Cons.prems(2) line split show ?thesis by (auto split: prod.splits)
  next
    case True
    have whole: "scan_statements False False [] (c @ line @ [newline]) = (ps, i', e', c')"
      using Cons.prems(1) scan_append [of False False "[]" c "[]" i e c "line @ [newline]"] scan
      by (simp add: resumable_def)
    with True Cons.prems(2) have flags: "\<not> i'" by (simp add: in_literal_def)
    moreover have "\<not> e'" using scan_outside [OF whole] flags by simp
    moreover have "list_all is_blank c'" using semicolon_outside True whole flags by auto
    moreover from this have "\<not> HasNonSpace c'" by (simp add: HasNonSpace_def list_all_iff)
    ultimately show ?thesis
      using True Cons.IH [OF resumable_empty] Cons.prems(2) line split trimmed_split [of c' False False "[]" "lines_text lines"]
      by (auto split: prod.splits)
  qed
qed

text \<open>What typed lines leave in the buffer, when it is not blank, is the end of the text and does not end in a semicolon.\<close>

lemma semicolon_append:
  "EndsWithSemicolonIgnoringSpaces (s @ t) = (if HasNonSpace t then EndsWithSemicolonIgnoringSpaces t else EndsWithSemicolonIgnoringSpaces s)"
proof -
  have "dropWhile is_blank (rev t @ rev s) = (if HasNonSpace t then dropWhile is_blank (rev t) @ rev s else dropWhile is_blank (rev s))"
    by (auto simp: HasNonSpace_def dropWhile_append)
  moreover have "dropWhile is_blank (rev t) \<noteq> []" if "HasNonSpace t" using that by (auto simp: HasNonSpace_def)
  ultimately show ?thesis by (auto simp: EndsWithSemicolonIgnoringSpaces_def split: list.splits)
qed

lemma typed_buffer:
  "resumable i e c \<Longrightarrow> (HasNonSpace c \<Longrightarrow> \<not> EndsWithSemicolonIgnoringSpaces c) \<Longrightarrow> HasNonSpace (snd (typed_statements lines c)) \<Longrightarrow>
   HasNonSpace (c @ lines_text lines) \<and> \<not> EndsWithSemicolonIgnoringSpaces (c @ lines_text lines)"
proof (induction lines arbitrary: i e c)
  case Nil
  then show ?case by (simp add: lines_text_def)
next
  case (Cons line lines)
  obtain ps i' e' c' where scan: "scan_statements i e c (line @ [newline]) = (ps, i', e', c')" by (metis prod_cases4)
  note line = typed_line_scan [OF Cons.prems(1) scan]
  have all: "c @ lines_text (line # lines) = (c @ line @ [newline]) @ lines_text lines" by (simp add: lines_text_def)
  show ?case
  proof (cases "EndsWithSemicolonIgnoringSpaces (c @ line @ [newline])")
    case True
    then have "HasNonSpace (snd (typed_statements lines []))" using Cons.prems(3) line by (auto split: prod.splits)
    from Cons.IH [OF resumable_empty _ this] show ?thesis unfolding all semicolon_append [of "c @ line @ [newline]"]
      by (auto simp: HasNonSpace_def)
  next
    case False
    have "c @ line @ [newline] = concat ps @ c'" using scan_concat [OF scan] by simp
    moreover from this False have "HasNonSpace c' \<Longrightarrow> \<not> EndsWithSemicolonIgnoringSpaces c'" by (simp add: semicolon_append)
    moreover have "HasNonSpace (snd (typed_statements lines c'))" using Cons.prems(3) line False by (auto split: prod.splits)
    ultimately show ?thesis using Cons.IH [OF resumable_scan [OF Cons.prems(1) scan]]
      unfolding all by (auto simp: semicolon_append [of "concat ps"] HasNonSpace_def)
  qed
qed

section \<open>Statements and literals\<close>

text \<open>
  The texts as the syntax describes them: the body of a string literal, where a backslash takes the next character with it;
  a text whose literals are all closed and which has no semicolon outside of them; such a text with a literal that is not closed.
\<close>

inductive literal_body :: "string \<Rightarrow> bool" where
  body_empty: "literal_body []"
| body_char: "c \<noteq> quotation_mark \<Longrightarrow> c \<noteq> backslash \<Longrightarrow> literal_body s \<Longrightarrow> literal_body (c # s)"
| body_escape: "literal_body s \<Longrightarrow> literal_body (backslash # c # s)"

inductive closed_text :: "string \<Rightarrow> bool" where
  closed_empty: "closed_text []"
| closed_char: "c \<noteq> quotation_mark \<Longrightarrow> c \<noteq> CHR '';'' \<Longrightarrow> closed_text s \<Longrightarrow> closed_text (c # s)"
| closed_literal: "literal_body b \<Longrightarrow> closed_text s \<Longrightarrow> closed_text (quotation_mark # b @ quotation_mark # s)"

definition open_text :: "string \<Rightarrow> bool" where
  "open_text s \<longleftrightarrow> (\<exists>a b. closed_text a \<and> literal_body b \<and> (s = a @ quotation_mark # b \<or> s = a @ quotation_mark # b @ [backslash]))"

text \<open>A division into statements: all end in the semicolon, but for the last one, which may lack it.\<close>

fun statement_pieces :: "string list \<Rightarrow> bool" where
  "statement_pieces [] = True"
| "statement_pieces (p # ps) \<longleftrightarrow>
     (\<exists>s. closed_text s \<and> p = s @ '';'') \<and> statement_pieces ps \<or> ps = [] \<and> p \<noteq> [] \<and> (closed_text p \<or> open_text p)"

lemma body_append: "literal_body a \<Longrightarrow> literal_body b \<Longrightarrow> literal_body (a @ b)"
  by (induction rule: literal_body.induct) (auto simp only: append.simps intro!: literal_body.intros)

lemma closed_append: "closed_text a \<Longrightarrow> closed_text b \<Longrightarrow> closed_text (a @ b)"
  by (induction rule: closed_text.induct) (auto intro: closed_text.intros)

definition reading :: "bool \<Rightarrow> bool \<Rightarrow> string \<Rightarrow> bool" where
  "reading in_string escaped current \<longleftrightarrow>
     (if in_string then \<exists>a b. closed_text a \<and> literal_body b \<and> current = a @ quotation_mark # b @ (if escaped then [backslash] else [])
      else \<not> escaped \<and> closed_text current)"

lemma reading_outside:
  "reading False e c \<Longrightarrow> ch \<noteq> CHR '';'' \<Longrightarrow> reading (ch = quotation_mark) e (c @ [ch])"
  using closed_append [OF _ closed_char [OF _ _ closed_empty], of c ch] body_empty by (fastforce simp: reading_def)

lemma reading_inside:
  assumes "reading True e c"
  shows "reading (e \<or> ch \<noteq> quotation_mark) (\<not> e \<and> ch = backslash) (c @ [ch])"
proof -
  from assms obtain a b where c: "closed_text a" "literal_body b" "c = a @ quotation_mark # b @ (if e then [backslash] else [])"
    by (auto simp: reading_def)
  show ?thesis
  proof (cases "e \<or> ch \<notin> {quotation_mark, backslash}")
    case True
    then have "literal_body (if e then [backslash, ch] else [ch])"
      using body_escape [OF body_empty] body_char [OF _ _ body_empty, of ch] by auto
    from True c(1) body_append [OF c(2) this] show ?thesis
      by (cases e) (fastforce simp: reading_def c(3))+
  next
    case False
    then show ?thesis using c closed_append [OF c(1) closed_literal [OF c(2) closed_empty]]
      by (cases "ch = quotation_mark") (fastforce simp: reading_def)+
  qed
qed

lemma split_pieces: "reading i e c \<Longrightarrow> statement_pieces (split_statements i e c s)"
proof (induction i e c s rule: split_statements.induct)
  case (1 i e c)
  then show ?case by (cases e) (fastforce simp: reading_def open_text_def split: if_splits)+
next
  case (2 i e c ch s)
  show ?case
  proof (cases i)
    case True
    with 2 reading_inside [of e c ch] show ?thesis by (cases e; cases "ch = backslash"; cases "ch = quotation_mark") (simp_all add: Let_def)
  next
    case False
    with "2.prems" have "\<not> e" "closed_text c" by (simp_all add: reading_def)
    moreover have "reading False False []" by (simp add: reading_def closed_empty)
    ultimately show ?thesis using False 2 reading_outside [of e c ch]
      by (cases "ch = quotation_mark"; cases "ch = CHR '';''") (auto simp: Let_def)
  qed
qed

section \<open>Properties\<close>

text \<open>
  C31. \<^verbatim>\<open>SplitStatements\<close> divides every text exactly at the semicolons outside its string literals: the pieces put together are the
  text, every piece but the last is a text of closed literals and other characters, none of them a semicolon, followed by one
  semicolon, and the last piece may lack the semicolon or end within a literal. A quotation mark after a backslash does not close
  a literal. Splitting a piece again gives just this piece.
\<close>

theorem split_lossless:
  "concat (SplitStatements input) = input \<and> statement_pieces (SplitStatements input) \<and>
   map SplitStatements (SplitStatements input) = map (\<lambda>sql. [sql]) (SplitStatements input)"
proof (intro conjI)
  show "concat (SplitStatements input) = input" by (simp add: SplitStatements_def split_statements_concat)
  show "statement_pieces (SplitStatements input)"
    using split_pieces [of False False "[]" input] by (simp add: SplitStatements_def reading_def closed_empty)
  show "map SplitStatements (SplitStatements input) = map (\<lambda>sql. [sql]) (SplitStatements input)"
    using split_alone [of input] by (simp add: list_all_iff)
qed

text \<open>
  C32. Typed lines are divided into the statements that \<^verbatim>\<open>SplitStatements\<close> finds in their whole text: when no line ends in a semicolon
  within a literal, the interactive loop runs a list of statements in order and leaves a text in its buffer that it never runs, and
  the list followed by that text, unless it is blank, are the statements of the whole text, up to the blanks in front of each.
  When the last character that is not blank is a semicolon, the text in the buffer is blank, and the loop has run all of them.
\<close>

theorem typed_as_script:
  assumes "literals_closed [] lines"
  shows "\<exists>sqls buffer. interactive_loop exec_one lines [] 1 s =
      (case run_statements exec_one sqls 1 s of (r, s') \<Rightarrow> (bind_result r (\<lambda>(rc, out). Inr out), s')) \<and>
    map (dropWhile is_blank) (sqls @ filter HasNonSpace [buffer]) =
      map (dropWhile is_blank) (filter HasNonSpace (SplitStatements (lines_text lines))) \<and>
    (EndsWithSemicolonIgnoringSpaces (lines_text lines) \<longrightarrow> \<not> HasNonSpace buffer)"
proof -
  obtain sqls buffer where typed: "typed_statements lines [] = (sqls, buffer)" by fastforce
  then show ?thesis
    using typed_statements_split [OF resumable_empty assms] interactive_loop_statements [of exec_one lines "[]" 1 s]
      typed_buffer [OF resumable_empty, of lines]
    by (intro exI [of _ sqls] exI [of _ buffer]) (auto simp: SplitStatements_def HasNonSpace_def)
qed

theorem typed_as_script_witness:
  "\<exists>sqls buffer. interactive_loop (\<lambda>sql n s. (Inr (0, sql), s)) [''SELECT a'', ''FROM t; USE d;'', []] [] 1 () =
      (case run_statements (\<lambda>sql n s. (Inr (0, sql), s)) sqls 1 () of (r, s') \<Rightarrow> (bind_result r (\<lambda>(rc, out). Inr out), s')) \<and>
    map (dropWhile is_blank) (sqls @ filter HasNonSpace [buffer]) =
      map (dropWhile is_blank) (filter HasNonSpace (SplitStatements (lines_text [''SELECT a'', ''FROM t; USE d;'', []]))) \<and>
    (EndsWithSemicolonIgnoringSpaces (lines_text [''SELECT a'', ''FROM t; USE d;'', []]) \<longrightarrow> \<not> HasNonSpace buffer)"
  by (rule typed_as_script) code_simp

text \<open>A line that ends in a semicolon within a literal is run as it stands, and the rest of the literal as another statement.\<close>

lemma literal_cut:
  "typed_line [] (''SELECT a FROM t WHERE b == '' @ quotation_mark # ''x;'') =
     ([''SELECT a FROM t WHERE b == '' @ quotation_mark # ''x;'' @ [newline]], [])"
  by code_simp

lemma split_plain:
  "quotation_mark \<notin> set s \<Longrightarrow> CHR '';'' \<notin> set s \<Longrightarrow>
   split_statements False e c (s @ CHR '';'' # t) = (c @ s @ '';'') # split_statements False e [] t"
  by (induction s arbitrary: c) (auto simp: Let_def)

text \<open>
  Of a script that is sent to a server, statements on a new line never arrive: \<^verbatim>\<open>SplitStatements\<close> leaves the line break at the
  front of the second statement, and the server reads the request up to that break, which is an empty statement.
\<close>

theorem second_line_lost:
  fixes HandleRequest :: "RequestEnvelope \<Rightarrow> ResponseEnvelope"
  assumes "\<And>payload. sendable_response (HandleRequest \<lparr>request_client_id = client, jwt_token = token, request_payload = payload\<rparr>)"
    and names: "newline \<notin> set client \<union> set token \<union> set sql\<^sub>1"
    and plain: "{quotation_mark, CHR '';''} \<inter> (set sql\<^sub>1 \<union> set sql\<^sub>2) = {}"
    and statements: "\<not> IsRemoteMetaCommand (sql\<^sub>1 @ '';'')" "\<not> IsRemoteMetaCommand (newline # sql\<^sub>2 @ '';'')"
  defines "answer \<equiv> \<lambda>payload. HandleRequest \<lparr>request_client_id = client, jwt_token = token, request_payload = payload\<rparr>"
  shows "run_script (ExecuteAndPrintRemote (\<lambda>request net. (SendRemote (HandleClientSocket HandleRequest) request, net)) client token)
      (sql\<^sub>1 @ '';'' @ newline # sql\<^sub>2 @ '';'') net =
    (Inr (if status_code (answer (sql\<^sub>1 @ '';'')) = 200 \<and> status_code (answer []) = 200 then 0 else 1,
       response_payload (answer (sql\<^sub>1 @ '';'')) @ newline # response_payload (answer []) @ [newline]), net)"
proof -
  let ?request = "\<lambda>payload. \<lparr>request_client_id = client, jwt_token = token, request_payload = payload\<rparr>"
  have first: "SendRemote (HandleClientSocket HandleRequest) (?request (sql\<^sub>1 @ '';'')) = Some (answer (sql\<^sub>1 @ '';''))"
    using requests.received [of "?request (sql\<^sub>1 @ '';'')"] responses.received [OF assms(1) [of "sql\<^sub>1 @ '';''"]] names
    by (auto simp: SendRemote_def HandleClientSocket_def answer_def sendable_request_def)
  have second: "SendRemote (HandleClientSocket HandleRequest) (?request (newline # sql\<^sub>2 @ '';'')) = Some (answer [])"
    using multiline_request_cut [of "?request (newline # sql\<^sub>2 @ '';'')" "[]" "sql\<^sub>2 @ '';''" HandleRequest]
      responses.received [OF assms(1) [of "[]"]] names
    by (auto simp: SendRemote_def answer_def)
  have "filter HasNonSpace (SplitStatements (sql\<^sub>1 @ '';'' @ newline # sql\<^sub>2 @ '';'')) = [sql\<^sub>1 @ '';'', newline # sql\<^sub>2 @ '';'']"
    using split_plain [of sql\<^sub>1 False "[]" "newline # sql\<^sub>2 @ '';''"] split_plain [of "newline # sql\<^sub>2" False "[]" "[]"] plain
      HasNonSpace_semicolon(1) [of "newline # sql\<^sub>2"]
    by (auto simp: SplitStatements_def quotation_mark_def)
  then show ?thesis
    using first second statements HasNonSpace_semicolon(1) [of "newline # sql\<^sub>2"]
    by (simp add: run_script_def ExecuteAndPrintRemote_def Let_def)
qed

theorem second_line_lost_witness:
  "run_script (ExecuteAndPrintRemote (\<lambda>request net.
       (SendRemote (HandleClientSocket (\<lambda>r. \<lparr>status_code = 200, response_payload = ''['' @ filter ((\<noteq>) newline) (request_payload r) @ '']''\<rparr>)) request, net))
       ''cli'' []) (''USE d'' @ '';'' @ newline # ''DROP TABLE t'' @ '';'') () =
     (Inr (0, ''[USE d;]'' @ newline # ''[]'' @ [newline]), ())"
proof -
  have "\<not> IsRemoteMetaCommand (''USE d'' @ '';'')" "\<not> IsRemoteMetaCommand (newline # ''DROP TABLE t'' @ '';'')" by code_simp+
  then show ?thesis
    using second_line_lost [of "\<lambda>r. \<lparr>status_code = 200, response_payload = ''['' @ filter ((\<noteq>) newline) (request_payload r) @ '']''\<rparr>"
        "''cli''" "[]" "''USE d''" "''DROP TABLE t''" "()"]
    by (simp add: sendable_response_def quotation_mark_def)
qed

end
