(* ===== verification/Telemetry.thy ===== *)
theory Telemetry
  imports Access_Persistence "HOL-Library.Signed_Division"
begin

text \<open>
  The rolling counters of a server (\<^verbatim>\<open>src/runtime/telemetry.cpp\<close>), their text form and their aggregation over the storage
  nodes (\<^verbatim>\<open>src/server/entrypoint.cpp\<close>). A point in time is its number of nanoseconds. A \<^verbatim>\<open>double\<close> is its 64 bits, and
  what the processor and the library do with it is an argument; all counters are exact.
\<close>

section \<open>Floating point numbers\<close>

type_synonym double = "64 word"

record floats =
  from_count :: "64 word \<Rightarrow> double"
  from_int64 :: "64 word \<Rightarrow> double"
  add_double :: "double \<Rightarrow> double \<Rightarrow> double"
  divide_double :: "double \<Rightarrow> double \<Rightarrow> double"
  show_double :: "double \<Rightarrow> string"
  stod :: "string \<Rightarrow> double option"

section \<open>Buckets\<close>

text \<open>\<^verbatim>\<open>std::map<int64_t, uint64_t>\<close>: the requests of every second, in ascending order.\<close>

type_synonym buckets = "(int \<times> 64 word) list"

text \<open>\<^verbatim>\<open>operator[]\<close> followed by an update of the value, and \<^verbatim>\<open>emplace\<close>.\<close>

fun bucket_update :: "(64 word \<Rightarrow> 64 word) \<Rightarrow> int \<Rightarrow> buckets \<Rightarrow> buckets" where
  "bucket_update f k [] = [(k, f 0)]"
| "bucket_update f k ((j, n) # bs) =
     (if k < j then (k, f 0) # (j, n) # bs else if k = j then (k, f n) # bs else (j, n) # bucket_update f k bs)"

fun bucket_emplace :: "int \<Rightarrow> 64 word \<Rightarrow> buckets \<Rightarrow> buckets" where
  "bucket_emplace k v [] = [(k, v)]"
| "bucket_emplace k v ((j, n) # bs) =
     (if k < j then (k, v) # (j, n) # bs else if k = j then (j, n) # bs else (j, n) # bucket_emplace k v bs)"

definition bucket :: "buckets \<Rightarrow> int \<Rightarrow> 64 word" where
  "bucket bs k = (case map_of bs k of Some n \<Rightarrow> n | None \<Rightarrow> 0)"

section \<open>The registry\<close>

record TelemetrySnapshot =
  current_rps :: double
  average_rps_10m :: double
  max_rps_10m :: double
  average_latency_10s_ms :: double
  error_count_1m :: "64 word"
  error_rate_1m :: double
  requests_1m :: "64 word"
  latency_samples_10s :: "64 word"
  latency_sum_10s_ms :: double
  requests_per_second_10m :: buckets

record RequestEvent =
  event_time :: int
  latency_ms :: double
  failed :: bool

definition kWindow10Minutes :: int where "kWindow10Minutes = 600 * 10 ^ 9"
definition kWindow1Minute :: int where "kWindow1Minute = 60 * 10 ^ 9"
definition kWindow10Seconds :: int where "kWindow10Seconds = 10 * 10 ^ 9"

text \<open>\<^verbatim>\<open>duration_cast\<close> to seconds, which truncates.\<close>

definition second_key :: "int \<Rightarrow> int" where
  "second_key t = t sdiv 10 ^ 9"

definition PruneLocked :: "int \<Rightarrow> RequestEvent list \<Rightarrow> RequestEvent list" where
  "PruneLocked now = dropWhile (\<lambda>e. now - event_time e > kWindow10Minutes)"

definition RecordSuccess :: "int \<Rightarrow> double \<Rightarrow> RequestEvent list \<Rightarrow> RequestEvent list" where
  "RecordSuccess now latency events = PruneLocked now events @ [\<lparr>event_time = now, latency_ms = latency, failed = False\<rparr>]"

definition RecordFailure :: "int \<Rightarrow> double \<Rightarrow> RequestEvent list \<Rightarrow> RequestEvent list" where
  "RecordFailure now latency events = PruneLocked now events @ [\<lparr>event_time = now, latency_ms = latency, failed = True\<rparr>]"

definition empty_snapshot :: TelemetrySnapshot where
  "empty_snapshot = \<lparr>current_rps = 0, average_rps_10m = 0, max_rps_10m = 0, average_latency_10s_ms = 0, error_count_1m = 0,
     error_rate_1m = 0, requests_1m = 0, latency_samples_10s = 0, latency_sum_10s_ms = 0, requests_per_second_10m = []\<rparr>"

definition count_event :: "floats \<Rightarrow> int \<Rightarrow> TelemetrySnapshot \<Rightarrow> RequestEvent \<Rightarrow> TelemetrySnapshot" where
  "count_event fl now s e =
     (let age = now - event_time e;
          s1 = s\<lparr>requests_per_second_10m := bucket_update (\<lambda>n. n + 1) (second_key (event_time e)) (requests_per_second_10m s)\<rparr>;
          s2 = (if age \<le> kWindow1Minute
                then s1\<lparr>requests_1m := requests_1m s1 + 1,
                        error_count_1m := (if failed e then error_count_1m s1 + 1 else error_count_1m s1)\<rparr>
                else s1)
      in if age \<le> kWindow10Seconds
         then s2\<lparr>latency_sum_10s_ms := add_double fl (latency_sum_10s_ms s2) (latency_ms e),
                 latency_samples_10s := latency_samples_10s s2 + 1\<rparr>
         else s2)"

text \<open>
  The rates, from the counters and the second that has begun: the same statements end \<^verbatim>\<open>Snapshot\<close> and \<^verbatim>\<open>AggregateTelemetry\<close>.
  Reading the bucket of that second creates it.
\<close>

definition with_rates :: "floats \<Rightarrow> int \<Rightarrow> TelemetrySnapshot \<Rightarrow> TelemetrySnapshot" where
  "with_rates fl now_second s =
     (let bs = bucket_update (\<lambda>n. n) now_second (requests_per_second_10m s);
          total = foldl (\<lambda>n b. n + snd b) 0 bs;
          max_bucket = foldl (\<lambda>n b. max n (snd b)) 0 bs
      in s\<lparr>requests_per_second_10m := bs,
           current_rps := from_count fl (bucket bs now_second),
           average_rps_10m := divide_double fl (from_count fl total) (from_count fl 600),
           max_rps_10m := from_count fl max_bucket,
           average_latency_10s_ms :=
             (if latency_samples_10s s = 0 then 0
              else divide_double fl (latency_sum_10s_ms s) (from_count fl (latency_samples_10s s))),
           error_rate_1m :=
             (if requests_1m s = 0 then 0
              else divide_double fl (from_count fl (error_count_1m s)) (from_count fl (requests_1m s)))\<rparr>)"

text \<open>\<^verbatim>\<open>Snapshot\<close> also prunes the events, which are a mutable member.\<close>

definition Snapshot :: "floats \<Rightarrow> int \<Rightarrow> RequestEvent list \<Rightarrow> TelemetrySnapshot \<times> RequestEvent list" where
  "Snapshot fl now events =
     (let kept = PruneLocked now events
      in (if kept = [] then empty_snapshot
          else with_rates fl (second_key now) (foldl (count_event fl now) empty_snapshot kept), kept))"

section \<open>Text form\<close>

fun bucket_list :: "buckets \<Rightarrow> string" where
  "bucket_list [] = []"
| "bucket_list [(k, n)] = int_to_string k @ '':'' @ nat_to_string (unat n)"
| "bucket_list ((k, n) # b # bs) = int_to_string k @ '':'' @ nat_to_string (unat n) @ '','' @ bucket_list (b # bs)"

definition SerializeLocalTelemetry :: "floats \<Rightarrow> TelemetrySnapshot \<Rightarrow> string" where
  "SerializeLocalTelemetry fl s =
     join_tab
       [''current_rps='' @ show_double fl (current_rps s),
        ''average_rps_10m='' @ show_double fl (average_rps_10m s),
        ''max_rps_10m='' @ show_double fl (max_rps_10m s),
        ''average_latency_10s_ms='' @ show_double fl (average_latency_10s_ms s),
        ''error_count_1m='' @ nat_to_string (unat (error_count_1m s)),
        ''error_rate_1m='' @ show_double fl (error_rate_1m s),
        ''requests_1m='' @ nat_to_string (unat (requests_1m s)),
        ''latency_samples_10s='' @ nat_to_string (unat (latency_samples_10s s)),
        ''latency_sum_10s_ms='' @ show_double fl (latency_sum_10s_ms s),
        ''buckets='' @ bucket_list (requests_per_second_10m s)]"

text \<open>\<^verbatim>\<open>std::getline\<close> with a delimiter of its own.\<close>

fun getlines_on :: "char \<Rightarrow> string \<Rightarrow> string \<Rightarrow> string list" where
  "getlines_on d current [] = (if current = [] then [] else [current])"
| "getlines_on d current (c # s) = (if c = d then current # getlines_on d [] s else getlines_on d (current @ [c]) s)"

definition read_bucket :: "string \<Rightarrow> (int \<times> 64 word) option" where
  "read_bucket b =
     (if CHR '':'' \<notin> set b then None
      else case (stoll (takeWhile (\<lambda>c. c \<noteq> CHR '':'') b), stoull (drop 1 (dropWhile (\<lambda>c. c \<noteq> CHR '':'') b))) of
             (Some (k, _), Some (n, _)) \<Rightarrow> Some (k, n)
           | _ \<Rightarrow> None)"

fun read_buckets :: "string list \<Rightarrow> buckets \<Rightarrow> buckets option" where
  "read_buckets [] bs = Some bs"
| "read_buckets (b # parts) bs =
     (case read_bucket b of None \<Rightarrow> None | Some (k, n) \<Rightarrow> read_buckets parts (bucket_emplace k n bs))"

definition read_telemetry_field :: "floats \<Rightarrow> string \<Rightarrow> string \<Rightarrow> TelemetrySnapshot \<Rightarrow> TelemetrySnapshot option" where
  "read_telemetry_field fl key v s =
     (let real = (\<lambda>set. map_option set (stod fl v)); count = (\<lambda>set. map_option (\<lambda>(n, _). set n) (stoull v)) in
      if key = ''current_rps'' then real (\<lambda>x. s\<lparr>current_rps := x\<rparr>)
      else if key = ''average_rps_10m'' then real (\<lambda>x. s\<lparr>average_rps_10m := x\<rparr>)
      else if key = ''max_rps_10m'' then real (\<lambda>x. s\<lparr>max_rps_10m := x\<rparr>)
      else if key = ''average_latency_10s_ms'' then real (\<lambda>x. s\<lparr>average_latency_10s_ms := x\<rparr>)
      else if key = ''error_count_1m'' then count (\<lambda>n. s\<lparr>error_count_1m := n\<rparr>)
      else if key = ''error_rate_1m'' then real (\<lambda>x. s\<lparr>error_rate_1m := x\<rparr>)
      else if key = ''requests_1m'' then count (\<lambda>n. s\<lparr>requests_1m := n\<rparr>)
      else if key = ''latency_samples_10s'' then count (\<lambda>n. s\<lparr>latency_samples_10s := n\<rparr>)
      else if key = ''latency_sum_10s_ms'' then real (\<lambda>x. s\<lparr>latency_sum_10s_ms := x\<rparr>)
      else if key = ''buckets'' \<and> v \<noteq> []
      then map_option (\<lambda>bs. s\<lparr>requests_per_second_10m := bs\<rparr>) (read_buckets (getlines_on (CHR '','') [] v) (requests_per_second_10m s))
      else Some s)"

fun read_telemetry_parts :: "floats \<Rightarrow> string list \<Rightarrow> TelemetrySnapshot \<Rightarrow> TelemetrySnapshot option" where
  "read_telemetry_parts fl [] s = Some s"
| "read_telemetry_parts fl (part # parts) s =
     (case split_field part of
        None \<Rightarrow> read_telemetry_parts fl parts s
      | Some (key, v) \<Rightarrow>
          (case read_telemetry_field fl key v s of None \<Rightarrow> None | Some s' \<Rightarrow> read_telemetry_parts fl parts s'))"

definition ParseLocalTelemetry :: "floats \<Rightarrow> string \<Rightarrow> TelemetrySnapshot option" where
  "ParseLocalTelemetry fl payload = read_telemetry_parts fl (SplitByTab payload) empty_snapshot"

section \<open>Aggregation\<close>

definition merge_snapshot :: "floats \<Rightarrow> TelemetrySnapshot \<Rightarrow> TelemetrySnapshot \<Rightarrow> TelemetrySnapshot" where
  "merge_snapshot fl merged s =
     merged\<lparr>error_count_1m := error_count_1m merged + error_count_1m s,
            requests_1m := requests_1m merged + requests_1m s,
            latency_samples_10s := latency_samples_10s merged + latency_samples_10s s,
            latency_sum_10s_ms := add_double fl (latency_sum_10s_ms merged) (latency_sum_10s_ms s),
            requests_per_second_10m :=
              foldl (\<lambda>bs (k, n). bucket_update (\<lambda>m. m + n) k bs) (requests_per_second_10m merged) (requests_per_second_10m s)\<rparr>"

definition AggregateTelemetry :: "floats \<Rightarrow> int \<Rightarrow> TelemetrySnapshot \<Rightarrow> TelemetrySnapshot list \<Rightarrow> TelemetrySnapshot" where
  "AggregateTelemetry fl now local_snapshot remote_snapshots =
     with_rates fl (second_key now) (foldl (merge_snapshot fl) local_snapshot remote_snapshots)"

definition telemetry_report :: "floats \<Rightarrow> TelemetrySnapshot \<Rightarrow> nat \<Rightarrow> nat \<Rightarrow> string" where
  "telemetry_report fl s nodes_total nodes_available =
     ''current_rps='' @ show_double fl (current_rps s) @ '' average_rps_10m='' @ show_double fl (average_rps_10m s) @
     '' max_rps_10m='' @ show_double fl (max_rps_10m s) @ '' average_latency_10s_ms='' @ show_double fl (average_latency_10s_ms s) @
     '' error_count_1m='' @ nat_to_string (unat (error_count_1m s)) @ '' error_rate_1m='' @ show_double fl (error_rate_1m s) @
     '' nodes_total='' @ nat_to_string (nodes_total + 1) @ '' nodes_available='' @ nat_to_string (nodes_available + 1)"

section \<open>Counting\<close>

definition ordered :: "buckets \<Rightarrow> bool" where
  "ordered bs \<longleftrightarrow> sorted_wrt (<) (map fst bs)"

lemma bucket_simps [simp]:
  "bucket [] k = 0" "bucket ((j, n) # bs) k = (if j = k then n else bucket bs k)"
  by (simp_all add: bucket_def)

lemma ordered_simps [simp]:
  "ordered []" "ordered ((j, n) # bs) \<longleftrightarrow> (\<forall>k \<in> fst ` set bs. j < k) \<and> ordered bs"
  by (simp_all add: ordered_def)

lemma bucket_absent: "k \<notin> fst ` set bs \<Longrightarrow> bucket bs k = 0"
  by (induction bs) auto

lemma keys_bucket_update [simp]: "fst ` set (bucket_update f k bs) = insert k (fst ` set bs)"
  by (induction f k bs rule: bucket_update.induct) auto

lemma ordered_bucket_update [simp]: "ordered bs \<Longrightarrow> ordered (bucket_update f k bs)"
  by (induction f k bs rule: bucket_update.induct) (auto dest: less_trans)

lemma bucket_bucket_update [simp]:
  "ordered bs \<Longrightarrow> bucket (bucket_update f k bs) j = (if j = k then f (bucket bs k) else bucket bs j)"
proof (induction f k bs rule: bucket_update.induct)
  case (2 f k i n bs)
  have "k < i \<Longrightarrow> bucket bs k = 0" using 2(2) by (intro bucket_absent) auto
  with 2 show ?case by auto
qed simp

definition total :: "buckets \<Rightarrow> 64 word" where
  "total bs = sum_list (map snd bs)"

lemma total_simps [simp]: "total [] = 0" "total ((k, n) # bs) = n + total bs"
  by (simp_all add: total_def)

lemma foldl_total: "foldl (\<lambda>n b. n + snd b) a bs = a + total bs"
  by (induction bs arbitrary: a) (auto simp: total_def)

lemma total_bucket_update: "ordered bs \<Longrightarrow> total (bucket_update (\<lambda>m. m + n) k bs) = total bs + n"
  by (induction "\<lambda>m. m + n" k bs rule: bucket_update.induct) (auto simp: algebra_simps)

lemma total_touch [simp]: "total (bucket_update (\<lambda>n. n) k bs) = total bs"
  by (induction "\<lambda>n::64 word. n" k bs rule: bucket_update.induct) auto

definition merge_buckets :: "buckets \<Rightarrow> buckets \<Rightarrow> buckets" where
  "merge_buckets = foldl (\<lambda>bs (k, n). bucket_update (\<lambda>m. m + n) k bs)"

lemma merge_buckets_simps [simp]:
  "merge_buckets as [] = as" "merge_buckets as ((k, n) # bs) = merge_buckets (bucket_update (\<lambda>m. m + n) k as) bs"
  by (simp_all add: merge_buckets_def)

lemma merge_buckets_facts:
  "ordered as \<Longrightarrow> ordered bs \<Longrightarrow> ordered (merge_buckets as bs) \<and>
     bucket (merge_buckets as bs) j = bucket as j + bucket bs j \<and> total (merge_buckets as bs) = total as + total bs"
proof (induction bs arbitrary: as)
  case (Cons b bs)
  obtain k n where b: "b = (k, n)" by fastforce
  have "k \<notin> fst ` set bs" using Cons.prems(2) b by auto
  then show ?case
    using Cons.IH [of "bucket_update (\<lambda>m. m + n) k as"] Cons.prems b
    by (auto simp: total_bucket_update bucket_absent add.assoc)
qed simp

text \<open>The number of events of a kind, as a counter of 64 bits has it.\<close>

definition count :: "(RequestEvent \<Rightarrow> bool) \<Rightarrow> RequestEvent list \<Rightarrow> 64 word" where
  "count P es = of_nat (length (filter P es))"

lemma count_simps [simp]:
  "count P [] = 0" "count P (e # es) = (if P e then 1 else 0) + count P es" "count P (es @ es') = count P es + count P es'"
  by (simp_all add: count_def)

definition recent :: "int \<Rightarrow> int \<Rightarrow> RequestEvent \<Rightarrow> bool" where
  "recent now window e \<longleftrightarrow> now - event_time e \<le> window"

definition at_second :: "int \<Rightarrow> RequestEvent \<Rightarrow> bool" where
  "at_second k e \<longleftrightarrow> second_key (event_time e) = k"

lemma counted_events:
  "ordered (requests_per_second_10m s) \<Longrightarrow> foldl (count_event fl now) s es = s' \<Longrightarrow>
     ordered (requests_per_second_10m s') \<and>
     requests_1m s' = requests_1m s + count (recent now kWindow1Minute) es \<and>
     error_count_1m s' = error_count_1m s + count (\<lambda>e. failed e \<and> recent now kWindow1Minute e) es \<and>
     latency_samples_10s s' = latency_samples_10s s + count (recent now kWindow10Seconds) es \<and>
     bucket (requests_per_second_10m s') k = bucket (requests_per_second_10m s) k + count (at_second k) es \<and>
     total (requests_per_second_10m s') = total (requests_per_second_10m s) + of_nat (length es)"
proof (induction es arbitrary: s)
  case (Cons e es)
  have "foldl (count_event fl now) (count_event fl now s e) es = s'" using Cons.prems(2) by simp
  from Cons.IH [OF _ this] Cons.prems(1) show ?case
    by (auto simp: count_event_def Let_def recent_def at_second_def total_bucket_update)
qed simp

section \<open>The log of events\<close>

text \<open>All requests of a server in the order of its clock, and the events that it still has.\<close>

definition in_order :: "RequestEvent list \<Rightarrow> bool" where
  "in_order history \<longleftrightarrow> sorted (map event_time history)"

definition record_all :: "RequestEvent list \<Rightarrow> RequestEvent list" where
  "record_all history = foldl (\<lambda>events e. PruneLocked (event_time e) events @ [e]) [] history"

lemma record_steps:
  "RecordSuccess now latency events = PruneLocked (event_time \<lparr>event_time = now, latency_ms = latency, failed = False\<rparr>) events @
     [\<lparr>event_time = now, latency_ms = latency, failed = False\<rparr>]"
  "RecordFailure now latency events = PruneLocked (event_time \<lparr>event_time = now, latency_ms = latency, failed = True\<rparr>) events @
     [\<lparr>event_time = now, latency_ms = latency, failed = True\<rparr>]"
  by (simp_all add: RecordSuccess_def RecordFailure_def)

lemma PruneLocked_filter: "in_order es \<Longrightarrow> PruneLocked now es = filter (recent now kWindow10Minutes) es"
proof (induction es)
  case (Cons e es)
  show ?case
  proof (cases "recent now kWindow10Minutes e")
    case True
    have "\<forall>x \<in> set es. recent now kWindow10Minutes x" using Cons.prems True by (auto simp: in_order_def recent_def)
    then show ?thesis using True by (simp add: PruneLocked_def recent_def)
  next
    case False
    then show ?thesis using Cons by (simp add: PruneLocked_def recent_def in_order_def)
  qed
qed (simp add: PruneLocked_def)

lemma in_order_filter: "in_order es \<Longrightarrow> in_order (filter P es)"
  by (simp add: in_order_def sorted_map sorted_wrt_filter)

lemma pruned_record_all:
  assumes "in_order history" "\<forall>e \<in> set history. event_time e \<le> now"
  shows "PruneLocked now (record_all history) = filter (recent now kWindow10Minutes) history"
  using assms
proof (induction history arbitrary: now rule: rev_induct)
  case (snoc e es)
  have es: "in_order es" "\<forall>x \<in> set es. event_time x \<le> event_time e" "event_time e \<le> now"
    using snoc.prems by (auto simp: in_order_def sorted_append)
  have kept: "record_all (es @ [e]) = filter (recent (event_time e) kWindow10Minutes) es @ [e]"
    using snoc.IH [OF es(1,2)] by (simp add: record_all_def)
  have "in_order (record_all (es @ [e]))"
    unfolding kept using in_order_filter [OF es(1)] es(2) by (auto simp: in_order_def sorted_append)
  moreover have "recent now kWindow10Minutes x \<Longrightarrow> recent (event_time e) kWindow10Minutes x" for x
    using es(3) by (simp add: recent_def)
  ultimately show ?case by (auto simp: PruneLocked_filter kept intro: filter_cong)
qed (simp add: record_all_def PruneLocked_def)

section \<open>The text read back\<close>

text \<open>What the reader needs of the numbers: they are printed without tabs and backslashes, and can be read.\<close>

definition readable :: "floats \<Rightarrow> bool" where
  "readable fl \<longleftrightarrow> (\<forall>x. set (show_double fl x) \<inter> {tab, CHR 0x5C} = {} \<and> stod fl (show_double fl x) \<noteq> None)"

text \<open>A number after printing and reading, which may lose digits.\<close>

definition reread :: "floats \<Rightarrow> double \<Rightarrow> double" where
  "reread fl x = the (stod fl (show_double fl x))"

definition bucket_text :: "int \<times> 64 word \<Rightarrow> string" where
  "bucket_text b = int_to_string (fst b) @ '':'' @ nat_to_string (unat (snd b))"

lemma bucket_list_Cons: "bucket_list (b # bs) = bucket_text b @ (if bs = [] then [] else CHR '','' # bucket_list bs)"
  by (cases b; cases bs) (auto simp: bucket_text_def)

lemma number_plain: "c \<in> set (int_to_string k) \<union> set (nat_to_string n) \<Longrightarrow> is_digit c \<or> c = CHR ''-''"
  by (auto simp: int_to_string_def dest: nat_to_string_all_digits split: if_splits)

lemma bucket_text_plain: "c \<in> set (bucket_text b) \<Longrightarrow> c \<noteq> CHR '','' \<and> c \<noteq> tab \<and> c \<noteq> CHR 0x5C"
  using number_plain [of c "fst b" "unat (snd b)"] by (auto simp: bucket_text_def is_digit_def)

lemma bucket_list_plain: "c \<in> set (bucket_list bs) \<Longrightarrow> c \<noteq> tab \<and> c \<noteq> CHR 0x5C"
proof (induction bs)
  case (Cons b bs)
  then show ?case using bucket_text_plain [of c b] by (auto simp: bucket_list_Cons split: if_splits)
qed simp

lemma getlines_on_plain: "d \<notin> set x \<Longrightarrow> getlines_on d c (x @ s) = getlines_on d (c @ x) s"
  by (induction x arbitrary: c) auto

lemma getlines_on_buckets: "getlines_on (CHR '','') [] (bucket_list bs) = map bucket_text bs"
proof (induction bs)
  case (Cons b bs)
  have "CHR '','' \<notin> set (bucket_text b)" using bucket_text_plain by blast
  moreover have "bucket_text b \<noteq> []" by (simp add: bucket_text_def)
  ultimately show ?case
    using Cons getlines_on_plain [of "CHR '',''" "bucket_text b" "[]" "[]"]
    by (auto simp: bucket_list_Cons getlines_on_plain)
qed simp

definition int64_keys :: "buckets \<Rightarrow> bool" where
  "int64_keys bs \<longleftrightarrow> (\<forall>k \<in> fst ` set bs. - (2 ^ 63) \<le> k \<and> k < 2 ^ 63)"

lemma read_bucket_text:
  assumes "- (2 ^ 63) \<le> k" "k < 2 ^ 63"
  shows "read_bucket (bucket_text (k, n)) = Some (k, n)"
proof -
  have colon: "CHR '':'' \<notin> set (int_to_string k)" using number_plain [of "CHR '':''" k 0] by (auto simp: is_digit_def)
  then have "takeWhile (\<lambda>c. c \<noteq> CHR '':'') (bucket_text (k, n)) = int_to_string k"
    "dropWhile (\<lambda>c. c \<noteq> CHR '':'') (bucket_text (k, n)) = CHR '':'' # nat_to_string (unat n)"
    by (auto simp: bucket_text_def takeWhile_append dropWhile_append)
  moreover have "stoll (int_to_string k) = Some (k, length (int_to_string k))"
    using assms scan_signed_int [of 64 k] by (simp add: stoll_def)
  moreover have "unat n < 2 ^ 64" using unsigned_less [of n] by simp
  ultimately show ?thesis by (simp add: read_bucket_def bucket_text_def)
qed

lemma bucket_emplace_last: "\<forall>j \<in> fst ` set bs. j < k \<Longrightarrow> bucket_emplace k v bs = bs @ [(k, v)]"
  by (induction k v bs rule: bucket_emplace.induct) auto

lemma read_buckets_text:
  "ordered (as @ bs) \<Longrightarrow> int64_keys bs \<Longrightarrow> read_buckets (map bucket_text bs) as = Some (as @ bs)"
proof (induction bs arbitrary: as)
  case (Cons b bs)
  obtain k n where b: "b = (k, n)" by fastforce
  have "\<forall>j \<in> fst ` set as. j < k" using Cons.prems(1) b by (auto simp: ordered_def sorted_wrt_append)
  then show ?case
    using Cons.IH [of "as @ [b]"] Cons.prems b by (simp add: read_bucket_text bucket_emplace_last int64_keys_def)
qed simp

lemmas telemetry_keys [simp] =
  split_field_key [of "''current_rps''", simplified]
  split_field_key [of "''average_rps_10m''", simplified]
  split_field_key [of "''max_rps_10m''", simplified]
  split_field_key [of "''average_latency_10s_ms''", simplified]
  split_field_key [of "''error_count_1m''", simplified]
  split_field_key [of "''error_rate_1m''", simplified]
  split_field_key [of "''requests_1m''", simplified]
  split_field_key [of "''latency_samples_10s''", simplified]
  split_field_key [of "''latency_sum_10s_ms''", simplified]
  split_field_key [of "''buckets''", simplified]

lemma read_telemetry_field_simps [simp]:
  "read_telemetry_field fl ''current_rps'' v s = map_option (\<lambda>x. s\<lparr>current_rps := x\<rparr>) (stod fl v)"
  "read_telemetry_field fl ''average_rps_10m'' v s = map_option (\<lambda>x. s\<lparr>average_rps_10m := x\<rparr>) (stod fl v)"
  "read_telemetry_field fl ''max_rps_10m'' v s = map_option (\<lambda>x. s\<lparr>max_rps_10m := x\<rparr>) (stod fl v)"
  "read_telemetry_field fl ''average_latency_10s_ms'' v s = map_option (\<lambda>x. s\<lparr>average_latency_10s_ms := x\<rparr>) (stod fl v)"
  "read_telemetry_field fl ''error_count_1m'' v s = map_option (\<lambda>(n, _). s\<lparr>error_count_1m := n\<rparr>) (stoull v)"
  "read_telemetry_field fl ''error_rate_1m'' v s = map_option (\<lambda>x. s\<lparr>error_rate_1m := x\<rparr>) (stod fl v)"
  "read_telemetry_field fl ''requests_1m'' v s = map_option (\<lambda>(n, _). s\<lparr>requests_1m := n\<rparr>) (stoull v)"
  "read_telemetry_field fl ''latency_samples_10s'' v s = map_option (\<lambda>(n, _). s\<lparr>latency_samples_10s := n\<rparr>) (stoull v)"
  "read_telemetry_field fl ''latency_sum_10s_ms'' v s = map_option (\<lambda>x. s\<lparr>latency_sum_10s_ms := x\<rparr>) (stod fl v)"
  "read_telemetry_field fl ''buckets'' v s = (if v = [] then Some s else
     map_option (\<lambda>bs. s\<lparr>requests_per_second_10m := bs\<rparr>) (read_buckets (getlines_on (CHR '','') [] v) (requests_per_second_10m s)))"
  by (simp_all add: read_telemetry_field_def Let_def)

lemma telemetry_roundtrip:
  assumes fl: "readable fl" and bs: "ordered (requests_per_second_10m s)" "int64_keys (requests_per_second_10m s)"
  shows "\<exists>s'. ParseLocalTelemetry fl (SerializeLocalTelemetry fl s) = Some s' \<and>
    error_count_1m s' = error_count_1m s \<and> requests_1m s' = requests_1m s \<and> latency_samples_10s s' = latency_samples_10s s \<and>
    latency_sum_10s_ms s' = reread fl (latency_sum_10s_ms s) \<and> requests_per_second_10m s' = requests_per_second_10m s"
proof -
  have show_field: "field (show_double fl x)" for x
    using fl by (intro field_plain) (auto simp: readable_def disjoint_iff)
  have nat_field: "field (nat_to_string n)" for n by (intro field_plain) (use nat_to_string_plain in auto)
  have list_field: "field (bucket_list (requests_per_second_10m s))"
    by (intro field_plain) (use bucket_list_plain in auto)
  have d: "stod fl (show_double fl x) = Some (reread fl x)" for x using fl by (simp add: readable_def reread_def)
  have word: "stoull (nat_to_string (unat n)) = Some (n, length (nat_to_string (unat n)))" for n :: "64 word"
    by (rule trans [OF stoull_nat]) (use unsigned_less [of n] in simp_all)
  have list: "bucket_list (requests_per_second_10m s) \<noteq> [] \<Longrightarrow>
      read_buckets (getlines_on (CHR '','') [] (bucket_list (requests_per_second_10m s))) [] = Some (requests_per_second_10m s)"
    using read_buckets_text [of "[]" "requests_per_second_10m s"] bs by (simp add: getlines_on_buckets)
  have empty: "bucket_list (requests_per_second_10m s) = [] \<Longrightarrow> requests_per_second_10m s = []"
    by (cases "requests_per_second_10m s") (auto simp: bucket_list_Cons bucket_text_def)
  have parts: "SplitByTab (join_tab parts) = parts" if "parts \<noteq> []" "list_all field parts" for parts
    using SplitByTab_join [of parts] that by (simp add: list_all_iff)
  show ?thesis
    unfolding ParseLocalTelemetry_def SerializeLocalTelemetry_def
    using list by (subst parts) (simp_all add: show_field nat_field list_field d word empty_snapshot_def, use empty in auto)
qed

section \<open>Snapshots\<close>

text \<open>What a snapshot at a point in time has to say about a history of requests.\<close>

definition faithful :: "int \<Rightarrow> RequestEvent list \<Rightarrow> TelemetrySnapshot \<Rightarrow> bool" where
  "faithful now history s \<longleftrightarrow> ordered (requests_per_second_10m s) \<and>
     requests_1m s = count (recent now kWindow1Minute) history \<and>
     error_count_1m s = count (\<lambda>e. failed e \<and> recent now kWindow1Minute e) history \<and>
     latency_samples_10s s = count (recent now kWindow10Seconds) history \<and>
     (\<forall>k. bucket (requests_per_second_10m s) k = count (\<lambda>e. at_second k e \<and> recent now kWindow10Minutes e) history) \<and>
     total (requests_per_second_10m s) = count (recent now kWindow10Minutes) history"

lemma with_rates_counters [simp]:
  "requests_1m (with_rates fl k s) = requests_1m s" "error_count_1m (with_rates fl k s) = error_count_1m s"
  "latency_samples_10s (with_rates fl k s) = latency_samples_10s s" "latency_sum_10s_ms (with_rates fl k s) = latency_sum_10s_ms s"
  "requests_per_second_10m (with_rates fl k s) = bucket_update (\<lambda>n. n) k (requests_per_second_10m s)"
  by (simp_all add: with_rates_def Let_def)

lemma foldl_max_buckets: "foldl (\<lambda>n b. max n (snd b)) a bs = Max (insert a (snd ` set bs))" for bs :: buckets
proof (induction bs arbitrary: a)
  case (Cons b bs)
  then show ?case by (cases "bs = []") (simp_all add: max.assoc)
qed simp

lemma max_bucket:
  assumes "ordered bs"
  shows "bucket bs j \<le> foldl (\<lambda>n b. max n (snd b)) 0 bs" "\<exists>j. bucket bs j = foldl (\<lambda>n b. max n (snd b)) 0 bs"
proof -
  let ?M = "Max (insert 0 (snd ` set bs))"
  have le: "bucket bs j \<le> ?M" for j by (auto simp: bucket_def split: option.splits dest!: map_of_SomeD intro!: Max_ge rev_image_eqI)
  then show "bucket bs j \<le> foldl (\<lambda>n b. max n (snd b)) 0 bs" by (simp add: foldl_max_buckets)
  have "?M \<in> insert 0 (snd ` set bs)" by (intro Max_in) auto
  then have "\<exists>j. bucket bs j = ?M"
  proof
    assume "?M = 0"
    with le [of 0] show ?thesis by (metis word_le_0_iff)
  next
    assume "?M \<in> snd ` set bs"
    then obtain k where "(k, ?M) \<in> set bs" by force
    moreover have "distinct (map fst bs)" using assms by (simp add: ordered_def strict_sorted_iff)
    ultimately show ?thesis by (auto simp: bucket_def dest: map_of_is_SomeI intro!: exI [of _ k])
  qed
  then show "\<exists>j. bucket bs j = foldl (\<lambda>n b. max n (snd b)) 0 bs" by (simp add: foldl_max_buckets)
qed

lemma with_rates_values:
  "ordered (requests_per_second_10m s) \<Longrightarrow> current_rps (with_rates fl k s) = from_count fl (bucket (requests_per_second_10m s) k)"
  "average_rps_10m (with_rates fl k s) = divide_double fl (from_count fl (total (requests_per_second_10m s))) (from_count fl 600)"
  "error_rate_1m (with_rates fl k s) = (if requests_1m s = 0 then 0
     else divide_double fl (from_count fl (error_count_1m s)) (from_count fl (requests_1m s)))"
  "average_latency_10s_ms (with_rates fl k s) = (if latency_samples_10s s = 0 then 0
     else divide_double fl (latency_sum_10s_ms s) (from_count fl (latency_samples_10s s)))"
  "max_rps_10m (with_rates fl k s) = from_count fl (foldl (\<lambda>n b. max n (snd b)) 0 (requests_per_second_10m (with_rates fl k s)))"
  by (simp_all add: with_rates_def Let_def foldl_total)

lemma count_filter: "count P (filter Q es) = count (\<lambda>e. P e \<and> Q e) es"
  by (induction es) auto

lemma count_filter_within: "window \<le> kWindow10Minutes \<Longrightarrow>
  count (\<lambda>e. P e \<and> recent now window e) (filter (recent now kWindow10Minutes) es) = count (\<lambda>e. P e \<and> recent now window e) es"
  by (induction es) (auto simp: recent_def)

lemma windows [simp]: "kWindow1Minute \<le> kWindow10Minutes" "kWindow10Seconds \<le> kWindow10Minutes"
  by (simp_all add: kWindow1Minute_def kWindow10Seconds_def kWindow10Minutes_def)

lemma Snapshot_faithful:
  assumes "in_order history" "\<forall>e \<in> set history. event_time e \<le> now"
  shows "faithful now history (fst (Snapshot fl now (record_all history)))"
proof -
  let ?kept = "filter (recent now kWindow10Minutes) history"
  let ?s = "foldl (count_event fl now) empty_snapshot ?kept"
  have start: "ordered (requests_per_second_10m empty_snapshot)" by (simp add: empty_snapshot_def)
  have kept: "PruneLocked now (record_all history) = ?kept" by (rule pruned_record_all [OF assms])
  have always: "count (recent now kWindow10Minutes) history = of_nat (length ?kept)" by (simp add: count_def)
  have seconds: "count (at_second k) ?kept = count (\<lambda>e. at_second k e \<and> recent now kWindow10Minutes e) history" for k
    by (rule count_filter)
  note counted = count_filter_within [OF windows(1), of "\<lambda>e. True" now history, simplified]
    count_filter_within [OF windows(1), of failed now history] count_filter_within [OF windows(2), of "\<lambda>e. True" now history, simplified]
  have "faithful now history (if ?kept = [] then empty_snapshot else with_rates fl (second_key now) ?s)"
  proof (cases "?kept = []")
    case True
    then show ?thesis using counted seconds always by (simp add: faithful_def empty_snapshot_def)
  next
    case False
    have zero: "requests_1m empty_snapshot = 0" "error_count_1m empty_snapshot = 0" "latency_samples_10s empty_snapshot = 0"
      "requests_per_second_10m empty_snapshot = []" by (simp_all add: empty_snapshot_def)
    show ?thesis using False counted_events [OF start refl, of fl now ?kept] always
      by (simp add: faithful_def counted seconds zero)
  qed
  then show ?thesis by (simp add: Snapshot_def kept Let_def)
qed

text \<open>The sum of the latencies of the last ten seconds, in the order of the requests.\<close>

definition latency_total :: "floats \<Rightarrow> int \<Rightarrow> RequestEvent list \<Rightarrow> double" where
  "latency_total fl now history = foldl (add_double fl) 0 (map latency_ms (filter (recent now kWindow10Seconds) history))"

lemma counted_latency:
  "latency_sum_10s_ms (foldl (count_event fl now) s es) =
     foldl (add_double fl) (latency_sum_10s_ms s) (map latency_ms (filter (recent now kWindow10Seconds) es))"
  by (induction es arbitrary: s) (auto simp: count_event_def Let_def recent_def)

lemma Snapshot_latency:
  assumes "in_order history" "\<forall>e \<in> set history. event_time e \<le> now"
  shows "latency_sum_10s_ms (fst (Snapshot fl now (record_all history))) = latency_total fl now history"
proof -
  have "recent now kWindow10Seconds e \<Longrightarrow> recent now kWindow10Minutes e" for e by (simp add: recent_def kWindow10Seconds_def kWindow10Minutes_def)
  then have filters: "filter (recent now kWindow10Seconds) (filter (recent now kWindow10Minutes) history) = filter (recent now kWindow10Seconds) history"
    by (auto intro: filter_cong)
  have "latency_sum_10s_ms (fst (Snapshot fl now (record_all history))) =
      foldl (add_double fl) 0 (map latency_ms (filter (recent now kWindow10Seconds) (filter (recent now kWindow10Minutes) history)))"
    by (cases "filter (recent now kWindow10Minutes) history = []")
      (simp_all add: Snapshot_def Let_def pruned_record_all [OF assms] counted_latency empty_snapshot_def del: filter_filter)
  then show ?thesis unfolding filters latency_total_def .
qed

lemma counted_keys:
  "fst ` set (requests_per_second_10m (foldl (count_event fl now) s es)) =
     fst ` set (requests_per_second_10m s) \<union> (\<lambda>e. second_key (event_time e)) ` set es"
  by (induction es arbitrary: s) (auto simp: count_event_def Let_def)

definition int64_time :: "int \<Rightarrow> bool" where
  "int64_time t \<longleftrightarrow> - (2 ^ 63) \<le> t \<and> t < 2 ^ 63"

lemma second_key_range: "int64_time t \<Longrightarrow> - (2 ^ 63) \<le> second_key t \<and> second_key t < 2 ^ 63"
  unfolding int64_time_def second_key_def
  by (cases "t < 0") (auto simp: signed_divide_int_def sgn_if)

lemma Snapshot_keys:
  assumes "int64_time now" "\<forall>e \<in> set events. int64_time (event_time e)"
  shows "int64_keys (requests_per_second_10m (fst (Snapshot fl now events)))"
proof -
  have "set (PruneLocked now events) \<subseteq> set events" by (auto simp: PruneLocked_def dest: set_dropWhileD)
  then have "fst ` set (requests_per_second_10m (fst (Snapshot fl now events))) \<subseteq>
      insert (second_key now) ((\<lambda>e. second_key (event_time e)) ` set events)"
    by (auto simp add: Snapshot_def Let_def counted_keys empty_snapshot_def simp del: set_map)
  moreover have "\<forall>k \<in> insert (second_key now) ((\<lambda>e. second_key (event_time e)) ` set events). - (2 ^ 63) \<le> k \<and> k < 2 ^ 63"
    using assms second_key_range by blast
  ultimately show ?thesis unfolding int64_keys_def by blast
qed

section \<open>The cluster\<close>

text \<open>A counter over all nodes: every node with the time of its snapshot and the history of its requests.\<close>

definition tally :: "(int \<Rightarrow> RequestEvent list \<Rightarrow> 64 word) \<Rightarrow> (int \<times> RequestEvent list) list \<Rightarrow> 64 word" where
  "tally f logs = sum_list (map (\<lambda>(t, history). f t history) logs)"

lemma tally_simps [simp]: "tally f [] = 0" "tally f ((t, h) # logs) = f t h + tally f logs"
  by (simp_all add: tally_def)

lemma merge_snapshot_counters [simp]:
  "error_count_1m (merge_snapshot fl s r) = error_count_1m s + error_count_1m r"
  "requests_1m (merge_snapshot fl s r) = requests_1m s + requests_1m r"
  "latency_samples_10s (merge_snapshot fl s r) = latency_samples_10s s + latency_samples_10s r"
  "requests_per_second_10m (merge_snapshot fl s r) = merge_buckets (requests_per_second_10m s) (requests_per_second_10m r)"
  by (simp_all add: merge_snapshot_def merge_buckets_def)

lemma merged_counters:
  "ordered (requests_per_second_10m s) \<Longrightarrow> list_all2 (\<lambda>(t, h) r. faithful t h r) logs rs \<Longrightarrow> foldl (merge_snapshot fl) s rs = m \<Longrightarrow>
     ordered (requests_per_second_10m m) \<and>
     requests_1m m = requests_1m s + tally (\<lambda>t. count (recent t kWindow1Minute)) logs \<and>
     error_count_1m m = error_count_1m s + tally (\<lambda>t. count (\<lambda>e. failed e \<and> recent t kWindow1Minute e)) logs \<and>
     latency_samples_10s m = latency_samples_10s s + tally (\<lambda>t. count (recent t kWindow10Seconds)) logs \<and>
     bucket (requests_per_second_10m m) k =
       bucket (requests_per_second_10m s) k + tally (\<lambda>t. count (\<lambda>e. at_second k e \<and> recent t kWindow10Minutes e)) logs \<and>
     total (requests_per_second_10m m) = total (requests_per_second_10m s) + tally (\<lambda>t. count (recent t kWindow10Minutes)) logs"
proof (induction rs arbitrary: s logs)
  case (Cons r rs)
  obtain t h logs' where logs: "logs = (t, h) # logs'" "faithful t h r" "list_all2 (\<lambda>(t, h) r. faithful t h r) logs' rs"
    using Cons.prems(2) by (auto simp: list_all2_Cons2)
  have "foldl (merge_snapshot fl) (merge_snapshot fl s r) rs = m" using Cons.prems(3) by simp
  moreover have r: "ordered (requests_per_second_10m r)" using logs(2) by (simp add: faithful_def)
  moreover note merge_buckets_facts [OF Cons.prems(1) r, of k]
  ultimately show ?case using Cons.IH [OF _ logs(3), of "merge_snapshot fl s r"] logs(1,2)
    by (simp add: faithful_def add.assoc)
qed simp

lemma merged_latency:
  "latency_sum_10s_ms (foldl (merge_snapshot fl) s rs) = foldl (add_double fl) (latency_sum_10s_ms s) (map latency_sum_10s_ms rs)"
  by (induction rs arbitrary: s) (simp_all add: merge_snapshot_def)

definition node_log :: "int \<times> RequestEvent list \<Rightarrow> bool" where
  "node_log l \<longleftrightarrow> (case l of (t, history) \<Rightarrow> in_order history \<and> int64_time t \<and>
     (\<forall>e \<in> set history. event_time e \<le> t \<and> int64_time (event_time e)))"

text \<open>The snapshot of a node as it comes over the network.\<close>

definition reported :: "floats \<Rightarrow> int \<times> RequestEvent list \<Rightarrow> TelemetrySnapshot option" where
  "reported fl l = (case l of (t, history) \<Rightarrow>
     ParseLocalTelemetry fl (SerializeLocalTelemetry fl (fst (Snapshot fl t (record_all history)))))"

lemma set_record_all: "set (record_all history) \<subseteq> set history"
  by (induction history rule: rev_induct) (auto simp: record_all_def PruneLocked_def dest: set_dropWhileD)

lemma reported_faithful:
  assumes "readable fl" "node_log (t, h)"
  shows "\<exists>s. reported fl (t, h) = Some s \<and> faithful t h s \<and> latency_sum_10s_ms s = reread fl (latency_total fl t h)"
proof -
  let ?s = "fst (Snapshot fl t (record_all h))"
  have s: "faithful t h ?s" using assms(2) by (intro Snapshot_faithful) (auto simp: node_log_def)
  have "int64_keys (requests_per_second_10m ?s)"
    using assms(2) set_record_all [of h] by (intro Snapshot_keys) (auto simp: node_log_def)
  then obtain s' where "reported fl (t, h) = Some s'" "error_count_1m s' = error_count_1m ?s" "requests_1m s' = requests_1m ?s"
    "latency_samples_10s s' = latency_samples_10s ?s" "requests_per_second_10m s' = requests_per_second_10m ?s"
    "latency_sum_10s_ms s' = reread fl (latency_sum_10s_ms ?s)"
    using telemetry_roundtrip [OF assms(1), of ?s] s by (auto simp: reported_def faithful_def)
  moreover have "latency_sum_10s_ms ?s = latency_total fl t h" using assms(2) by (intro Snapshot_latency) (auto simp: node_log_def)
  ultimately show ?thesis using s by (auto simp: faithful_def)
qed

lemma reported_all:
  "readable fl \<Longrightarrow> list_all node_log logs \<Longrightarrow> list_all2 (\<lambda>(t, h) r. faithful t h r) logs (List.map_filter (reported fl) logs)"
proof (induction logs)
  case (Cons l logs)
  then show ?case using reported_faithful [of fl "fst l" "snd l"] by (cases l) (auto simp: List.map_filter_simps)
qed (simp add: List.map_filter_simps)

lemma reported_latency:
  "readable fl \<Longrightarrow> list_all node_log logs \<Longrightarrow>
   map latency_sum_10s_ms (List.map_filter (reported fl) logs) = map (\<lambda>(t, h). reread fl (latency_total fl t h)) logs"
proof (induction logs)
  case (Cons l logs)
  then show ?case using reported_faithful [of fl "fst l" "snd l"] by (cases l) (auto simp: List.map_filter_simps)
qed (simp add: List.map_filter_simps)

section \<open>Sample numbers\<close>

text \<open>Operations for which whole numbers stand for themselves.\<close>

definition sample_floats :: floats where
  "sample_floats = \<lparr>from_count = (\<lambda>n. n), from_int64 = (\<lambda>n. n), add_double = (+), divide_double = (div),
     show_double = (\<lambda>x. nat_to_string (unat x)), stod = (\<lambda>v. map_option fst (stoull v))\<rparr>"

lemma sample_readable: "readable sample_floats"
proof -
  have "set (nat_to_string n) \<inter> {tab, CHR 0x5C} = {}" for n
    using nat_to_string_all_digits [of _ n] by (fastforce simp: Text_Fields.is_digit_def)
  moreover have "stoull (nat_to_string (unat x)) = Some (x, length (nat_to_string (unat x)))" for x :: "64 word"
    by (rule trans [OF stoull_nat]) (use unsigned_less [of x] in simp_all)
  ultimately show ?thesis by (simp add: readable_def sample_floats_def)
qed

definition sample_event :: "int \<Rightarrow> bool \<Rightarrow> RequestEvent" where
  "sample_event t f = \<lparr>event_time = t, latency_ms = 1, failed = f\<rparr>"

section \<open>Properties\<close>



end
