(* ===== verification/Identifiers.thy ===== *)
theory Identifiers
  imports Access_Persistence Protocol
begin

text \<open>
  Names that are made at random (\<^verbatim>\<open>src/common/uuid.cpp\<close>, and salts and secrets in \<^verbatim>\<open>src/catalog/rbac.cpp\<close>), the files of the
  access controller, and the loop that sends a text (\<^verbatim>\<open>WriteAll\<close> of \<^verbatim>\<open>src/server/entrypoint.cpp\<close>). The random numbers and the results
  of \<^verbatim>\<open>send\<close> are arguments.
\<close>

unbundle bit_operations_syntax

section \<open>Random identifiers\<close>

text \<open>A number after \<^verbatim>\<open>std::hex\<close>.\<close>

fun hex_text :: "nat \<Rightarrow> string" where
  "hex_text n = (if n < 16 then [hex_character n] else hex_text (n div 16) @ [hex_character (n mod 16)])"

declare hex_text.simps [simp del]

definition mark_version :: "32 word list \<Rightarrow> 32 word list" where
  "mark_version bytes = bytes[6 := (bytes ! 6 AND 0x0F) OR 0x40, 8 := (bytes ! 8 AND 0x3F) OR 0x80]"

definition guid_byte :: "nat \<times> 32 word \<Rightarrow> string" where
  "guid_byte ib = (case ib of (index, byte) \<Rightarrow>
     (if index = 4 \<or> index = 6 \<or> index = 8 \<or> index = 10 then ''-'' else []) @ (if byte < 16 then ''0'' else []) @ hex_text (unat byte))"

text \<open>The sixteen numbers are those that the generator has drawn.\<close>

definition NewGuidV4 :: "32 word list \<Rightarrow> string" where
  "NewGuidV4 bytes = concat (map guid_byte (enumerate 0 (mark_version bytes)))"

text \<open>\<open>None\<close> when \<^verbatim>\<open>RAND_bytes\<close> fails.\<close>

definition NewSalt :: "string option \<Rightarrow> 64 word \<Rightarrow> string" where
  "NewSalt random fallback = (case random of None \<Rightarrow> hex_text (unat fallback) | Some bytes \<Rightarrow> concat (map hex_byte bytes))"

definition NewSecret :: "string option \<Rightarrow> string \<Rightarrow> string \<Rightarrow> string" where
  "NewSecret random salt\<^sub>1 salt\<^sub>2 = (case random of None \<Rightarrow> salt\<^sub>1 @ salt\<^sub>2 | Some bytes \<Rightarrow> concat (map hex_byte bytes))"

section \<open>Files\<close>

definition AccountsFilePath :: "string \<Rightarrow> string" where
  "AccountsFilePath root = root @ ''/accounts.tsv''"

definition GrantsFilePath :: "string \<Rightarrow> string" where
  "GrantsFilePath root = root @ ''/rbac_grants.tsv''"

definition SecretFilePath :: "string \<Rightarrow> string" where
  "SecretFilePath root = root @ ''/jwt_secret.txt''"

section \<open>Sending\<close>

text \<open>What has been sent, and the result; the \<open>k\<close>-th call of \<^verbatim>\<open>send\<close> is asked to send the rest and says how much of it was sent.\<close>

function WriteAll :: "(nat \<Rightarrow> string \<Rightarrow> int) \<Rightarrow> nat \<Rightarrow> string \<Rightarrow> string \<times> bool" where
  "WriteAll send k buffer =
     (if buffer = [] then ([], True)
      else if send k buffer \<le> 0 then ([], False)
      else case WriteAll send (Suc k) (drop (nat (send k buffer)) buffer) of
             (sent, complete) \<Rightarrow> (take (nat (send k buffer)) buffer @ sent, complete))"
  by pat_completeness auto
termination WriteAll
  by (relation "measure (\<lambda>(send, k, buffer). length buffer)") (auto simp: not_le)

declare WriteAll.simps [simp del]

section \<open>Lemmas\<close>

lemma hex_character_digits: "n < 16 \<Longrightarrow> hex_character n \<in> set ''0123456789abcdef''"
  unfolding hex_character_def by (rule nth_mem) simp

lemma hex_character_eq: "a < 16 \<Longrightarrow> b < 16 \<Longrightarrow> hex_character a = hex_character b \<longleftrightarrow> a = b"
  unfolding hex_character_def by (rule nth_eq_iff_index_eq) simp_all

lemma hex_text_digits: "set (hex_text n) \<subseteq> set ''0123456789abcdef''" "hex_text n \<noteq> []"
proof -
  show "set (hex_text n) \<subseteq> set ''0123456789abcdef''"
  proof (induction n rule: hex_text.induct)
    case (1 n)
    then show ?case using hex_character_digits [of n] hex_character_digits [of "n mod 16"] by (subst hex_text.simps) auto
  qed
  show "hex_text n \<noteq> []" by (subst hex_text.simps) simp
qed

definition hex_pair :: "32 word \<Rightarrow> string" where
  "hex_pair b = [hex_character (unat b div 16), hex_character (unat b mod 16)]"

lemma guid_byte_pair:
  assumes "b < 256"
  shows "guid_byte (i, b) = (if i = 4 \<or> i = 6 \<or> i = 8 \<or> i = 10 then ''-'' else []) @ hex_pair b"
proof -
  have b: "unat b < 256" using assms by (simp add: word_less_nat_alt)
  have "(if b < 16 then ''0'' else []) @ hex_text (unat b) = hex_pair b"
  proof (cases "b < 16")
    case True
    then have "unat b < 16" by (simp add: word_less_nat_alt)
    then show ?thesis using True by (simp add: hex_pair_def hex_text.simps [of "unat b"]) (simp add: hex_character_def)
  next
    case False
    then have "\<not> unat b < 16" "unat b div 16 < 16" using b by (auto simp: word_less_nat_alt)
    then show ?thesis using False by (simp add: hex_pair_def hex_text.simps [of "unat b"] hex_text.simps [of "unat b div 16"])
  qed
  then show ?thesis by (simp add: guid_byte_def)
qed

lemma hex_pair_eq: "a < 256 \<Longrightarrow> b < 256 \<Longrightarrow> hex_pair a = hex_pair b \<longleftrightarrow> a = b"
proof -
  assume "a < 256" "b < 256"
  then have "unat a div 16 < 16" "unat b div 16 < 16" by (auto simp: word_less_nat_alt)
  then have "hex_pair a = hex_pair b \<longleftrightarrow> unat a div 16 = unat b div 16 \<and> unat a mod 16 = unat b mod 16"
    by (simp add: hex_pair_def hex_character_eq)
  also have "\<dots> \<longleftrightarrow> unat a = unat b" by (metis div_mult_mod_eq)
  finally show ?thesis by (simp add: word_unat_eq_iff)
qed


lemma below_256: "w AND 0xFF = w \<Longrightarrow> w < (256 :: 32 word)"
proof -
  assume "w AND 0xFF = w"
  then have "w \<le> 0xFF" using word_and_le1 [of w "0xFF"] by simp
  then show "w < 256" by (simp add: word_le_nat_alt word_less_nat_alt)
qed

lemma marked_six: "(x AND 0x0F) OR 0x40 < (256 :: 32 word)" "unat ((x AND 0x0F) OR (0x40 :: 32 word)) div 16 = 4"
proof -
  show "(x AND 0x0F) OR 0x40 < (256 :: 32 word)"
    by (rule below_256) (simp add: and.assoc bit.conj_disj_distrib2)
  have "drop_bit 4 ((x AND 0x0F) OR 0x40) = (4 :: 32 word)" by (simp add: drop_bit_and drop_bit_or)
  then have "unat (drop_bit 4 ((x AND 0x0F) OR (0x40 :: 32 word))) = 4" by simp
  then show "unat ((x AND 0x0F) OR (0x40 :: 32 word)) div 16 = 4" by (simp add: drop_bit_eq_div unat_div)
qed

lemma marked_eight: "(x AND 0x3F) OR 0x80 < (256 :: 32 word)" "unat ((x AND 0x3F) OR (0x80 :: 32 word)) div 16 \<in> {8, 9, 10, 11}"
proof -
  show "(x AND 0x3F) OR 0x80 < (256 :: 32 word)"
    by (rule below_256) (simp add: and.assoc bit.conj_disj_distrib2)
  have d: "drop_bit 4 ((x AND 0x3F) OR 0x80) = (drop_bit 4 x AND 3) OR (8 :: 32 word)" by (simp add: drop_bit_and drop_bit_or)
  have "drop_bit 4 x AND (3 :: 32 word) \<le> 3" by (rule word_and_le1)
  then have "drop_bit 4 x AND (3 :: 32 word) \<in> {0, 1, 2, 3}" by (auto simp: word_le_nat_alt word_unat_eq_iff)
  then have "unat (drop_bit 4 ((x AND 0x3F) OR (0x80 :: 32 word))) \<in> {8, 9, 10, 11}" unfolding d by auto
  then show "unat ((x AND 0x3F) OR (0x80 :: 32 word)) div 16 \<in> {8, 9, 10, 11}"
    by (simp add: drop_bit_eq_div unat_div)
qed


text \<open>The text of a guid, byte by byte.\<close>

lemma guid_text:
  assumes "length bytes = 16" "list_all (\<lambda>b. b < 256) bytes"
  shows "list_all (\<lambda>b. b < 256) (mark_version bytes)"
    and "NewGuidV4 bytes = concat (map hex_pair (take 4 (mark_version bytes))) @ ''-'' @ concat (map hex_pair (take 2 (drop 4 (mark_version bytes)))) @ ''-'' @
      concat (map hex_pair (take 2 (drop 6 (mark_version bytes)))) @ ''-'' @ concat (map hex_pair (take 2 (drop 8 (mark_version bytes)))) @ ''-'' @
      concat (map hex_pair (drop 10 (mark_version bytes)))"
proof -
  obtain b0 b1 b2 b3 b4 b5 b6 b7 b8 b9 b10 b11 b12 b13 b14 b15 where b: "bytes = [b0, b1, b2, b3, b4, b5, b6, b7, b8, b9, b10, b11, b12, b13, b14, b15]"
    using assms(1) by (auto simp: length_Suc_conv eval_nat_numeral)
  show small: "list_all (\<lambda>b. b < 256) (mark_version bytes)"
    using assms(2) marked_six(1) marked_eight(1) by (simp add: b mark_version_def)
  then show "NewGuidV4 bytes = concat (map hex_pair (take 4 (mark_version bytes))) @ ''-'' @ concat (map hex_pair (take 2 (drop 4 (mark_version bytes)))) @ ''-'' @
      concat (map hex_pair (take 2 (drop 6 (mark_version bytes)))) @ ''-'' @ concat (map hex_pair (take 2 (drop 8 (mark_version bytes)))) @ ''-'' @
      concat (map hex_pair (drop 10 (mark_version bytes)))"
    by (simp add: b mark_version_def NewGuidV4_def guid_byte_pair enumerate_simps)
qed

lemma concat_pairs_eq:
  "list_all (\<lambda>b. b < 256) xs \<Longrightarrow> list_all (\<lambda>b. b < 256) ys \<Longrightarrow> length xs = length ys \<Longrightarrow>
     concat (map hex_pair xs) = concat (map hex_pair ys) \<longleftrightarrow> xs = ys"
proof (induction xs ys rule: list_induct2')
  case (4 x xs y ys)
  have "concat (map hex_pair (x # xs)) = concat (map hex_pair (y # ys)) \<longleftrightarrow>
      hex_pair x = hex_pair y \<and> concat (map hex_pair xs) = concat (map hex_pair ys)"
    by (simp add: hex_pair_def)
  then show ?case using 4 by (simp add: hex_pair_eq)
qed simp_all

lemma length_pairs [simp]: "length (concat (map hex_pair xs)) = 2 * length xs"
  by (induction xs) (simp_all add: hex_pair_def)

text \<open>Two guids are the same only when all the bits that were drawn and kept are.\<close>

lemma guid_eq:
  assumes "length bytes = 16" "list_all (\<lambda>b. b < 256) bytes" "length bytes' = 16" "list_all (\<lambda>b. b < 256) bytes'"
  shows "NewGuidV4 bytes = NewGuidV4 bytes' \<longleftrightarrow> mark_version bytes = mark_version bytes'"
proof
  let ?a = "mark_version bytes" and ?b = "mark_version bytes'"
  have l: "length ?a = 16" "length ?b = 16" using assms by (simp_all add: mark_version_def)
  have part: "concat (map hex_pair (take m (drop n ?a))) = concat (map hex_pair (take m (drop n ?b))) \<longleftrightarrow> take m (drop n ?a) = take m (drop n ?b)" for m n
    using guid_text(1) [OF assms(1,2)] guid_text(1) [OF assms(3,4)] l
    by (intro concat_pairs_eq) (auto simp: list_all_iff dest: in_set_takeD in_set_dropD)
  assume "NewGuidV4 bytes = NewGuidV4 bytes'"
  then have "take 4 ?a = take 4 ?b \<and> take 2 (drop 4 ?a) = take 2 (drop 4 ?b) \<and> take 2 (drop 6 ?a) = take 2 (drop 6 ?b) \<and>
      take 2 (drop 8 ?a) = take 2 (drop 8 ?b) \<and> drop 10 ?a = drop 10 ?b"
    unfolding guid_text(2) [OF assms(1,2)] guid_text(2) [OF assms(3,4)]
    using l part [of 4 0] part [of 2 4] part [of 2 6] part [of 2 8] part [of 6 10] by simp
  moreover have "xs = take 4 xs @ take 2 (drop 4 xs) @ take 2 (drop 6 xs) @ take 2 (drop 8 xs) @ drop 10 xs" for xs :: "32 word list"
    using append_take_drop_id [of 4 xs] append_take_drop_id [of 2 "drop 4 xs"] append_take_drop_id [of 2 "drop 6 xs"]
      append_take_drop_id [of 2 "drop 8 xs"] by simp
  ultimately show "?a = ?b" by metis
qed (simp add: NewGuidV4_def)

lemma char_of_char_less: "of_char (c :: char) < (256 :: nat)"
  by (cases c) (simp add: of_char_def horner_sum_simps)

lemma salt_digits: "set (NewSalt random fallback) \<subseteq> set ''0123456789abcdef''"
proof -
  have "set (hex_byte c) \<subseteq> set ''0123456789abcdef''" for c
    using hex_character_digits [of "of_char c div 16"] hex_character_digits [of "of_char c mod 16"] char_of_char_less [of c]
    by (simp add: hex_byte_def less_mult_imp_div_less)
  then show ?thesis using hex_text_digits(1) by (fastforce simp: NewSalt_def split: option.splits)
qed

text \<open>A secret that was written is the one that every later start of the program reads, so that its tokens stay valid.\<close>

lemma load_lines_secret:
  "secret_file (fold load_account_line lines ac) = secret_file ac"
  "load_grant_lines lines ac = Some ac' \<Longrightarrow> secret_file ac' = secret_file ac"
proof -
  show "secret_file (fold load_account_line lines ac) = secret_file ac"
    by (induction lines arbitrary: ac) (auto simp: load_account_line_def Let_def split: list.split option.split)
  show "load_grant_lines lines ac = Some ac' \<Longrightarrow> secret_file ac' = secret_file ac"
    by (induction lines arbitrary: ac) (auto simp: load_grant_line_def update_grants_def split: list.splits option.splits if_splits)
qed

lemma LoadAccess_secret_file: "LoadAccess ac = Some ac' \<Longrightarrow> secret_file ac' = secret_file ac"
  by (auto simp: LoadAccess_def Let_def load_lines_secret split: option.splits dest: load_lines_secret(2))

lemma getlines_single: "newline \<notin> set x \<Longrightarrow> x \<noteq> [] \<Longrightarrow> getlines x = [x]"
proof -
  assume x: "newline \<notin> set x" "x \<noteq> []"
  then have "takeWhile (\<lambda>c. c \<noteq> newline) x = x" "dropWhile (\<lambda>c. c \<noteq> newline) x = []"
    by (auto simp: takeWhile_eq_all_conv dropWhile_eq_Nil_conv)
  then show "getlines x = [x]" using x(2) getlines.simps(2) by (metis drop_Nil getlines.simps(1) neq_Nil_conv)
qed

lemma secret_kept:
  assumes "make_access (NewSecret (Some bytes) salt\<^sub>1 salt\<^sub>2) Written accounts_txt grants_txt None = Some ac" "length bytes = 32"
    and "make_access other io accounts_txt' grants_txt' (secret_file ac) = Some ac'"
  shows "jwt_secret ac' = NewSecret (Some bytes) salt\<^sub>1 salt\<^sub>2 \<and> jwt_secret ac = jwt_secret ac'"
proof -
  let ?secret = "NewSecret (Some bytes) salt\<^sub>1 salt\<^sub>2"
  have digits: "set ?secret \<subseteq> set ''0123456789abcdef''"
    using salt_digits [of "Some bytes" 0] by (simp add: NewSecret_def NewSalt_def)
  then have "newline \<notin> set ?secret" by auto
  moreover have "?secret \<noteq> []" using assms(2) by (cases bytes) (auto simp: NewSecret_def hex_byte_def)
  ultimately have "getlines ?secret = [?secret]" by (rule getlines_single)
  then show ?thesis using assms(1,3) by (auto simp: make_access_def EnsureJwtSecret_def Let_def dest!: LoadAccess_secret_file)
qed

text \<open>Everything is sent when the loop says so; otherwise a beginning of the text is.\<close>

lemma WriteAll_sent:
  "(case WriteAll send k buffer of (sent, complete) \<Rightarrow> if complete then sent = buffer else (\<exists>rest. rest \<noteq> [] \<and> buffer = sent @ rest))"
proof (induction send k buffer rule: WriteAll.induct)
  case (1 send k buffer)
  show ?case
  proof (cases "buffer = [] \<or> send k buffer \<le> 0")
    case True
    then show ?thesis by (subst WriteAll.simps) auto
  next
    case False
    let ?n = "nat (send k buffer)"
    obtain sent complete where more: "WriteAll send (Suc k) (drop ?n buffer) = (sent, complete)" by fastforce
    have "if complete then sent = drop ?n buffer else (\<exists>rest. rest \<noteq> [] \<and> drop ?n buffer = sent @ rest)"
      using "1.IH" False more by simp
    then have "if complete then take ?n buffer @ sent = buffer else (\<exists>rest. rest \<noteq> [] \<and> buffer = (take ?n buffer @ sent) @ rest)"
      by (cases complete) (simp, metis append.assoc append_take_drop_id)
    moreover have "WriteAll send k buffer = (take ?n buffer @ sent, complete)" using False more by (subst WriteAll.simps) simp
    ultimately show ?thesis by simp
  qed
qed

end
