(* ===== verification/Server.thy ===== *)
theory Server
  imports Telemetry Identifiers Entrypoint_Properties Transactions Cli
begin

text \<open>
  A server process (\<^verbatim>\<open>HandleRequest\<close> with its \<^verbatim>\<open>finalize\<close> in \<^verbatim>\<open>src/server/entrypoint.cpp\<close>, and the loops of
  \<^verbatim>\<open>apps/server/main.cpp\<close> and \<^verbatim>\<open>apps/storage_node/main.cpp\<close>): every answered request is counted and logged, and requests, jobs and
  heartbeats follow each other in any order. The texts of the telemetry, arguments of \<^verbatim>\<open>Entrypoint\<close>, are those of
  \<^verbatim>\<open>Telemetry\<close> here.
\<close>

section \<open>The access log\<close>

definition SanitizeLogField :: "string \<Rightarrow> string" where
  "SanitizeLogField v =
     map (\<lambda>ch. if ch = newline \<or> ch = CHR 0x0D \<or> ch = tab \<or> (of_char ch :: nat) < 32 then CHR '' '' else ch) v"

text \<open>The broken-down time in UTC is an argument, as in \<^verbatim>\<open>Version_Store\<close>.\<close>

definition FormatUtcTimestamp :: "clock_reading \<Rightarrow> string" where
  "FormatUtcTimestamp t =
     nat_to_string (year t) @ ''-'' @ zero_padded 2 (month t) @ ''-'' @ zero_padded 2 (day t) @ ''T'' @
     zero_padded 2 (hour t) @ '':'' @ zero_padded 2 (minute t) @ '':'' @ zero_padded 2 (second t) @
     ''.'' @ zero_padded 3 (micros t div 1000) @ ''Z''"

text \<open>What the clocks say around one request; the latency is a signed number of milliseconds.\<close>

record request_times =
  started_at_utc :: clock_reading
  finished_at_utc :: clock_reading
  request_latency :: "64 word"
  recorded_at :: int
  snapshot_at :: int
  aggregated_at :: int

definition access_fields :: "RequestEnvelope \<Rightarrow> ResponseEnvelope \<Rightarrow> string \<Rightarrow> request_times \<Rightarrow> string list" where
  "access_fields request response handler_id tms =
     [''start='' @ FormatUtcTimestamp (started_at_utc tms), ''finish='' @ FormatUtcTimestamp (finished_at_utc tms),
      ''client_id='' @ SanitizeLogField (request_client_id request), ''handler_id='' @ SanitizeLogField handler_id,
      ''status_code='' @ int_to_string (status_code response), ''latency_ms='' @ int_to_string (sint (request_latency tms)),
      ''sql='' @ [quotation_mark] @ SanitizeLogField (request_payload request) @ [quotation_mark]]"

text \<open>
  The file is its text, to which the line is appended; what the disk does with it goes unnoticed. The line is lost when the file
  cannot be opened, and may end up there in part.
\<close>

definition WriteAccessLog ::
  "write_outcome \<Rightarrow> RequestEnvelope \<Rightarrow> ResponseEnvelope \<Rightarrow> string \<Rightarrow> request_times \<Rightarrow> string \<Rightarrow> string" where
  "WriteAccessLog log_io request response handler_id tms log =
     (let line = join_tab (access_fields request response handler_id tms) @ [newline]
      in case log_io of NotOpened \<Rightarrow> log | Torn n noticed \<Rightarrow> log @ take n line | Written \<Rightarrow> log @ line)"

section \<open>Start\<close>

record ServerProcess =
  entry :: EntrypointServer
  telemetry :: "RequestEvent list"
  access_log :: string
  next_handler_id :: "64 word"

text \<open>The files of a data directory.\<close>

record data_directory =
  snapshot_files :: snapshot
  log_file :: wal_file
  accounts_in :: "string option"
  grants_in :: "string option"
  secret_in :: "string option"
  access_lines :: string

definition empty_directory :: data_directory where
  "empty_directory = \<lparr>snapshot_files = (None, None), log_file = None, accounts_in = None, grants_in = None, secret_in = None, access_lines = []\<rparr>"

text \<open>The constructor; \<open>None\<close> is an exception that leaves it. The random secret and what the disk does with it are arguments.\<close>

definition make_server ::
  "regex \<Rightarrow> clock \<Rightarrow> (nat \<Rightarrow> disk) \<Rightarrow> bool \<Rightarrow> nat \<Rightarrow> string \<Rightarrow> write_outcome \<Rightarrow> string \<Rightarrow> data_directory \<Rightarrow> ServerProcess option" where
  "make_server rx clk io rename_works now new_secret secret_io directory dir =
     (case make_engine rx clk io rename_works now directory (snapshot_files dir) (log_file dir) of
        None \<Rightarrow> None
      | Some db \<Rightarrow>
          (case make_access new_secret secret_io (accounts_in dir) (grants_in dir) (secret_in dir) of
             None \<Rightarrow> None
           | Some ac \<Rightarrow>
               (case Start True make_queue of
                  None \<Rightarrow> None
                | Some q \<Rightarrow>
                    Some \<lparr>entry = \<lparr>dbms = db, job_queue = q, access_controller = ac, sessions = [], storage_nodes = [],
                                   pending_cluster_transactions = []\<rparr>,
                          telemetry = [], access_log = access_lines dir, next_handler_id = 1\<rparr>)))"

text \<open>The programs up to the loop that accepts connections: they end with a message, by an exception, or listen on a port.\<close>

datatype startup = Exits string | Terminates | Listens int ServerProcess

definition open_listener :: "bool \<Rightarrow> bool \<Rightarrow> bool \<Rightarrow> string option" where
  "open_listener socket_ok bind_ok listen_ok =
     (if \<not> socket_ok then Some ''socket create failed''
      else if \<not> bind_ok then Some ''bind failed''
      else if \<not> listen_ok then Some ''listen failed'' else None)"

definition start_listening :: "string option \<Rightarrow> int \<Rightarrow> ServerProcess option \<Rightarrow> startup" where
  "start_listening refused tcp_port made =
     (case made of None \<Rightarrow> Terminates | Some srv \<Rightarrow> (case refused of Some e \<Rightarrow> Exits e | None \<Rightarrow> Listens tcp_port srv))"

text \<open>What the constructor does in a given directory is an argument of the two programs, with its other arguments fixed.\<close>

definition server_main :: "(string \<Rightarrow> ServerProcess option) \<Rightarrow> string option \<Rightarrow> string list \<Rightarrow> startup" where
  "server_main construct refused args =
     (case server_port args of Inl e \<Rightarrow> Exits e | Inr tcp_port \<Rightarrow> start_listening refused tcp_port (construct ''./data''))"

definition storage_node_main :: "(string \<Rightarrow> ServerProcess option) \<Rightarrow> string option \<Rightarrow> string list \<Rightarrow> startup" where
  "storage_node_main construct refused args =
     (case storage_node_port args of
        Inl e \<Rightarrow> Exits e
      | Inr (tcp_port, directory) \<Rightarrow> start_listening refused tcp_port (construct directory))"

section \<open>One request\<close>

definition new_handler_id :: "64 word \<Rightarrow> string" where
  "new_handler_id n = ''handler-'' @ zero_padded 6 (unat n)"

text \<open>The snapshots that the nodes have answered with.\<close>

definition available_snapshots :: "floats \<Rightarrow> ResponseEnvelope option list \<Rightarrow> TelemetrySnapshot list" where
  "available_snapshots fl responses =
     List.map_filter (\<lambda>r. case r of
         None \<Rightarrow> None
       | Some response \<Rightarrow> if status_code response \<noteq> 200 then None else ParseLocalTelemetry fl (response_payload response)) responses"

definition telemetry_platform :: "floats \<Rightarrow> request_times \<Rightarrow> RequestEvent list \<Rightarrow> 'net Platform \<Rightarrow> 'net Platform" where
  "telemetry_platform fl tms evs p =
     (let snapshot = fst (Snapshot fl (snapshot_at tms) evs) in
      p\<lparr>telemetry_local := SerializeLocalTelemetry fl snapshot,
        telemetry_snapshot := (\<lambda>responses. let remotes = available_snapshots fl responses
          in telemetry_report fl (AggregateTelemetry fl (aggregated_at tms) snapshot remotes) (length responses) (length remotes))\<rparr>)"

text \<open>Whether a request reads the counters, which prunes the events.\<close>

definition reads_telemetry :: "string \<Rightarrow> bool" where
  "reads_telemetry payload \<longleftrightarrow>
     (let words = SplitWhitespace payload
      in length words \<ge> 2 \<and> ToUpper (words ! 0) = ''TELEMETRY'' \<and> (ToUpper (words ! 1) = ''LOCAL'' \<or> ToUpper (words ! 1) = ''SNAPSHOT''))"

definition record_response :: "floats \<Rightarrow> request_times \<Rightarrow> ResponseEnvelope \<Rightarrow> RequestEvent list \<Rightarrow> RequestEvent list" where
  "record_response fl tms response evs =
     (let latency = from_int64 fl (request_latency tms)
      in if status_code response \<ge> 400 then RecordFailure (recorded_at tms) latency evs
         else RecordSuccess (recorded_at tms) latency evs)"

text \<open>An exception leaves the handler before anything is recorded.\<close>

definition process_request ::
  "floats \<Rightarrow> request_times \<Rightarrow> write_outcome \<Rightarrow> 'net Platform \<Rightarrow> RequestEnvelope \<Rightarrow> ServerProcess \<times> 'net
     \<Rightarrow> ResponseEnvelope Result \<times> ServerProcess \<times> 'net" where
  "process_request fl tms log_io p request s =
     (case s of (srv, net) \<Rightarrow>
        (let handler_id = new_handler_id (next_handler_id srv);
             evs = (if reads_telemetry (request_payload request) then snd (Snapshot fl (snapshot_at tms) (telemetry srv)) else telemetry srv)
         in case HandleRequest (telemetry_platform fl tms (telemetry srv) p) request (entry srv, net) of
              (r, (sv', net')) \<Rightarrow>
                (let srv1 = srv\<lparr>entry := sv', telemetry := evs, next_handler_id := next_handler_id srv + 1\<rparr> in
                 case r of
                   Inl x \<Rightarrow> (Inl x, (srv1, net'))
                 | Inr response \<Rightarrow>
                     (Inr response,
                      (srv1\<lparr>telemetry := record_response fl tms response evs,
                            access_log := WriteAccessLog log_io request response handler_id tms (access_log srv)\<rparr>, net')))))"

section \<open>Lines of the log\<close>

definition log_char :: "char \<Rightarrow> bool" where
  "log_char c \<longleftrightarrow> 32 \<le> (of_char c :: nat)"

lemma SanitizeLogField_chars: "list_all log_char (SanitizeLogField v)"
  by (auto simp: SanitizeLogField_def log_char_def list_all_iff)

lemma digits_log: "list_all log_char (nat_to_string n)"
proof -
  have "Text_Fields.is_digit c \<Longrightarrow> log_char c" for c unfolding Text_Fields.is_digit_def log_char_def by linarith
  then show ?thesis using nat_to_string_all_digits [of _ n] by (auto simp: list_all_iff)
qed

lemma padded_log: "list_all log_char (zero_padded w n)"
  using digits_log [of n] by (auto simp: zero_padded_def Let_def list_all_iff log_char_def)

lemma int_log: "list_all log_char (int_to_string n)"
  using digits_log by (auto simp: int_to_string_def log_char_def)

lemma access_fields_chars: "list_all (list_all log_char) (access_fields request response handler_id tms)"
  by (simp add: access_fields_def FormatUtcTimestamp_def SanitizeLogField_chars padded_log digits_log int_log,
      simp add: log_char_def quotation_mark_def)

lemma log_field: "list_all log_char x \<Longrightarrow> tab \<notin> set x \<and> newline \<notin> set x"
  by (auto simp: list_all_iff log_char_def)

text \<open>The fields of a line of the log, which has no escapes.\<close>

lemma getlines_on_join:
  "xs \<noteq> [] \<Longrightarrow> \<forall>x \<in> set xs. x \<noteq> [] \<and> d \<notin> set x \<Longrightarrow> d = tab \<Longrightarrow> getlines_on d [] (join_tab xs) = xs"
proof (induction xs rule: join_tab.induct)
  case (2 x)
  then show ?case using getlines_on_plain [of d x "[]" "[]"] by simp
next
  case (3 x y xs)
  then show ?case using getlines_on_plain [of d x "[]" "d # join_tab (y # xs)"] by simp
qed simp

end
