(* ===== verification/Server_Properties.thy ===== *)
theory Server_Properties
  imports Server
begin

text \<open>
  Properties of a server process: which statements a request runs on the databases, the states that connections, jobs and heartbeats
  reach, what is logged and counted of a sequence of requests, and what an acknowledged request leaves on the disk.
\<close>

section \<open>Databases\<close>

text \<open>The statements that a request runs on the databases of the server, each with the session in which it runs.\<close>

definition commit_statements :: "string \<Rightarrow> EntrypointServer \<Rightarrow> (SessionContext \<times> string) list" where
  "commit_statements tx sv =
     (if tx = [] then []
      else case umap_find (pending_cluster_transactions sv) tx of
             None \<Rightarrow> []
           | Some pending \<Rightarrow>
               [((fst (GetOrCreateSession (pending_client_id pending) sv))\<lparr>current_database := pending_database pending\<rparr>, pending_sql pending)])"

definition dump_statements :: "'net Platform \<Rightarrow> string \<Rightarrow> string \<Rightarrow> EntrypointServer \<Rightarrow> (SessionContext \<times> string) list" where
  "dump_statements p d t sv =
     (case ExecuteSql (matcher p) (engine_clock p) (engine_disk p) (''USE '' @ d @ '';'') (dbms sv, new_session ''__cluster_dump__'') of
        ((_, session), r) \<Rightarrow>
          (new_session ''__cluster_dump__'', ''USE '' @ d @ '';'') # (if ok r then [(session, ''SELECT * FROM '' @ t @ '';'')] else []))"

definition cluster_statements :: "'net Platform \<Rightarrow> string \<Rightarrow> EntrypointServer \<Rightarrow> (SessionContext \<times> string) list" where
  "cluster_statements p payload sv =
     (let words = SplitWhitespace payload in
      if begins_with ''CLUSTER PREPARE_TX '' payload then []
      else if begins_with ''CLUSTER COMMIT_TX '' payload then commit_statements (drop (length ''CLUSTER COMMIT_TX '') payload) sv
      else if begins_with ''CLUSTER ABORT_TX '' payload then []
      else if length words \<ge> 4 \<and> ToUpper (words ! 0) = ''CLUSTER'' \<and> ToUpper (words ! 1) = ''DUMP_TABLE''
      then dump_statements p (words ! 2) (words ! 3) sv
      else [])"

definition sql_statements :: "'net Platform \<Rightarrow> RequestEnvelope \<Rightarrow> Statement \<Rightarrow> EntrypointServer \<Rightarrow> (SessionContext \<times> string) list" where
  "sql_statements p request stmt sv =
     (case GetOrCreateSession (request_client_id request) sv of
        (session, sv1) \<Rightarrow>
          (case authorize_statement p request stmt (session\<lparr>client_id := request_client_id request\<rparr>) sv1 of
             (Some _, _) \<Rightarrow> []
           | (None, session') \<Rightarrow>
               if storage_nodes sv = [] \<or> IsMetadataStatement stmt then [(session', request_payload request)] else []))"

definition request_statements :: "'net Platform \<Rightarrow> RequestEnvelope \<Rightarrow> EntrypointServer \<Rightarrow> (SessionContext \<times> string) list" where
  "request_statements p request sv =
     (case Parse (request_payload request) of
        Inl _ \<Rightarrow> cluster_statements p (request_payload request) sv
      | Inr stmt \<Rightarrow> sql_statements p request stmt sv)"

definition job_statements :: "string \<Rightarrow> EntrypointServer \<Rightarrow> (SessionContext \<times> string) list" where
  "job_statements sql sv =
     (case Parse sql of Inl _ \<Rightarrow> [] | Inr _ \<Rightarrow> [(fst (GetOrCreateSession ''__async_worker__'' sv), sql)])"

abbreviation run_on :: "'net Platform \<Rightarrow> (SessionContext \<times> string) list \<Rightarrow> DbmsEngine \<Rightarrow> DbmsEngine" where
  "run_on p \<equiv> serve (matcher p) (engine_clock p) (engine_disk p)"

lemma GetOrCreateSession_frame [simp]:
  "dbms (snd (GetOrCreateSession client sv)) = dbms sv" "storage_nodes (snd (GetOrCreateSession client sv)) = storage_nodes sv"
  "fst (GetOrCreateSession client (sv\<lparr>pending_cluster_transactions := x\<rparr>)) = fst (GetOrCreateSession client sv)"
  by (auto simp: GetOrCreateSession_def split: option.splits)

lemma execute_in_dbms [simp]: "dbms (snd (execute_in p client session sql sv)) = run_on p [(session, sql)] (dbms sv)"
  by (simp add: execute_in_def split: prod.splits)

lemma async_execute_dbms: "dbms (snd (async_execute p sql sv)) = run_on p (job_statements sql sv) (dbms sv)"
  by (auto simp: async_execute_def job_statements_def case_prod_beta split: sum.splits failure.splits)

lemma cluster_prepare_dbms [simp]: "dbms (snd (cluster_prepare request rest sv)) = dbms sv"
  by (simp add: cluster_prepare_def Let_def case_prod_beta split: sum.split failure.split)

lemma cluster_abort_dbms [simp]: "dbms (snd (cluster_abort tx sv)) = dbms sv"
  by (simp add: cluster_abort_def)

lemma cluster_commit_dbms: "dbms (snd (cluster_commit p tx sv)) = run_on p (commit_statements tx sv) (dbms sv)"
  by (simp add: cluster_commit_def commit_statements_def case_prod_beta split: option.split)

lemma cluster_dump_dbms: "dbms (snd (cluster_dump p d t sv)) = run_on p (dump_statements p d t sv) (dbms sv)"
  by (auto simp: cluster_dump_def dump_statements_def Let_def ok_iff split: prod.splits sum.splits)

lemma local_answer_dbms [simp]: "dbms (fst (snd (local_answer net r))) = dbms (snd r)"
  by (simp add: local_answer_def split: prod.splits)

lemma node_commands_dbms [simp]:
  "dbms (fst (snd (answer_of (cluster_add_node p e m (sv, net))))) = dbms sv"
  "dbms (fst (snd (answer_of (cluster_remove_node p e (sv, net))))) = dbms sv"
  by (auto simp: answer_of_def cluster_add_node_def cluster_remove_node_def Let_def split: prod.splits sum.splits)

lemma cluster_words_dbms:
  "dbms (fst (snd (cluster_words p words (sv, net)))) =
     (if ToUpper (words ! 1) = ''DUMP_TABLE'' \<and> length words \<ge> 4 then run_on p (dump_statements p (words ! 2) (words ! 3) sv) (dbms sv)
      else dbms sv)"
  by (simp add: cluster_words_def Let_def cluster_dump_dbms split: option.split)

lemma ParseClusterCommand_dbms:
  "dbms (fst (snd (ParseClusterCommand p request (sv, net)))) = run_on p (cluster_statements p (request_payload request) sv) (dbms sv)"
  by (simp add: ParseClusterCommand_def cluster_statements_def Let_def cluster_commit_dbms cluster_words_dbms)

lemma no_cluster_command: "fst (ParseClusterCommand p request (sv, net)) = Inr None \<Longrightarrow> cluster_statements p (request_payload request) sv = []"
proof -
  have never: "fst (local_answer net r) \<noteq> Inr None" "fst (answer_of q) \<noteq> Inr None" for r q
    by (auto simp: local_answer_def answer_of_def split: prod.splits)
  have "fst (cluster_words p words (sv, net)) \<noteq> Inr None" for words
    by (simp add: cluster_words_def Let_def split: option.split) (use never in blast)
  with never show "fst (ParseClusterCommand p request (sv, net)) = Inr None \<Longrightarrow> cluster_statements p (request_payload request) sv = []"
    by (auto simp: ParseClusterCommand_def cluster_statements_def Let_def split: if_splits)
qed

lemma ParseAsyncCommand_dbms: "dbms (fst (snd (ParseAsyncCommand p request (sv, net)))) = dbms sv"
  by (simp add: ParseAsyncCommand_def Let_def split: option.split)

lemma ParseTelemetryCommand_dbms: "dbms (fst (snd (ParseTelemetryCommand p payload (sv, net)))) = dbms sv"
  by (simp add: ParseTelemetryCommand_def Let_def split: prod.split sum.split)

lemma access_reply_dbms [simp]: "dbms (snd (access_reply t sv r)) = dbms sv"
  by (simp add: access_reply_def split: prod.splits)

lemma auth_admin_dbms: "auth_admin p command words = Some f \<Longrightarrow> dbms (snd (f sv)) = dbms sv"
  by (auto simp: auth_admin_def auth_grant_def Let_def split: if_splits option.splits)

lemma ParseAuthCommand_dbms: "dbms (snd (ParseAuthCommand p request sv)) = dbms sv"
  unfolding ParseAuthCommand_def Let_def
  by (simp add: auth_register_def Let_def case_prod_beta split: option.split) (auto dest: auth_admin_dbms)

lemma cluster_reply_state [simp]: "fst (snd (cluster_reply failure f sv r)) = sv"
  by (auto simp: cluster_reply_def split: prod.splits sum.splits option.splits)

lemma metadata_statement_dbms:
  "dbms (fst (snd (metadata_statement p request stmt session (sv, net)))) = run_on p [(session, request_payload request)] (dbms sv)"
proof -
  obtain r sv1 where e: "execute_in p (request_client_id request) session (request_payload request) sv = (r, sv1)" by fastforce
  have "fst (snd (metadata_statement p request stmt session (sv, net))) = sv1"
    by (auto simp: metadata_statement_def e Let_def split: sum.splits)
  then show ?thesis using execute_in_dbms [of p "request_client_id request" session "request_payload request" sv] e by simp
qed

lemma cluster_statement_dbms:
  "dbms (fst (snd (cluster_statement p request stmt session (sv, net)))) =
     run_on p (if IsMetadataStatement stmt then [(session, request_payload request)] else []) (dbms sv)"
proof (cases "IsMetadataStatement stmt")
  case False
  have "fst (snd (sharded_insert p request ins session (sv, net))) = sv" for ins
    by (auto simp: sharded_insert_def split: sum.splits option.splits)
  moreover have "fst (snd (routed_statement p request stmt session (sv, net))) = sv"
    by (auto simp: routed_statement_def Let_def split: sum.splits option.splits)
  ultimately have "fst (snd (cluster_statement p request stmt session (sv, net))) = sv"
    using False by (cases stmt) (simp_all add: cluster_statement_def)
  with False show ?thesis by simp
qed (simp add: cluster_statement_def metadata_statement_dbms del: serve.simps(2))

lemma handle_statement_dbms:
  "dbms (fst (snd (handle_statement p request stmt (sv, net)))) = run_on p (sql_statements p request stmt sv) (dbms sv)"
proof -
  obtain session sv1 where g: "GetOrCreateSession (request_client_id request) sv = (session, sv1)" by fastforce
  have sv1: "dbms sv1 = dbms sv" "storage_nodes sv1 = storage_nodes sv"
    using GetOrCreateSession_frame(1,2) [of "request_client_id request" sv] g by simp_all
  obtain refusal session' where a: "authorize_statement p request stmt (session\<lparr>client_id := request_client_id request\<rparr>) sv1 = (refusal, session')"
    by fastforce
  show ?thesis
    by (cases refusal)
      (simp_all add: handle_statement_def sql_statements_def g a sv1 Let_def cluster_statement_dbms case_prod_beta del: serve.simps(2))
qed

lemma HandleRequest_dbms:
  "dbms (fst (snd (HandleRequest p request (sv, net)))) = run_on p (request_statements p request sv) (dbms sv)"
proof (cases "Parse (request_payload request)")
  case (Inr stmt)
  then show ?thesis by (simp add: HandleRequest_sql request_statements_def handle_statement_dbms)
next
  case (Inl e)
  obtain a\<^sub>1 sv\<^sub>1 n\<^sub>1 where c: "ParseClusterCommand p request (sv, net) = (a\<^sub>1, (sv\<^sub>1, n\<^sub>1))" by (metis prod.collapse)
  obtain a\<^sub>2 sv\<^sub>2 n\<^sub>2 where y: "ParseAsyncCommand p request (sv, net) = (a\<^sub>2, (sv\<^sub>2, n\<^sub>2))" by (metis prod.collapse)
  obtain a\<^sub>3 sv\<^sub>3 n\<^sub>3 where t: "ParseTelemetryCommand p (request_payload request) (sv, net) = (a\<^sub>3, (sv\<^sub>3, n\<^sub>3))" by (metis prod.collapse)
  obtain a\<^sub>4 sv\<^sub>4 where u: "ParseAuthCommand p request sv = (a\<^sub>4, sv\<^sub>4)" by fastforce
  have frame: "dbms sv\<^sub>2 = dbms sv" "dbms sv\<^sub>3 = dbms sv" "dbms sv\<^sub>4 = dbms sv"
    using ParseAsyncCommand_dbms [of p request sv net] ParseTelemetryCommand_dbms [of p "request_payload request" sv net]
      ParseAuthCommand_dbms [of p request sv] y t u by simp_all
  have none: "a\<^sub>1 = Inr None \<Longrightarrow> cluster_statements p (request_payload request) sv = []"
    using no_cluster_command [of p request sv net] c by simp
  have some: "dbms sv\<^sub>1 = run_on p (cluster_statements p (request_payload request) sv) (dbms sv)"
    using ParseClusterCommand_dbms [of p request sv net] c by simp
  show ?thesis
    using none some
    by (auto simp: HandleRequest_def request_statements_def Inl c y t u frame split: sum.splits option.splits failure.splits)
qed

section \<open>A process\<close>

text \<open>
  One connection (\<^verbatim>\<open>HandleClientSocket\<close> on the state of the process): what has been sent back when it is closed. An exception ends
  the thread and with it the process, as nothing catches it.
\<close>

datatype connection_end = ClosedSilently | Answered string | ProcessTerminated

definition serve_connection ::
  "floats \<Rightarrow> request_times \<Rightarrow> write_outcome \<Rightarrow> (nat \<Rightarrow> string \<Rightarrow> int) \<Rightarrow> 'net Platform \<Rightarrow> string \<Rightarrow> ServerProcess \<times> 'net
     \<Rightarrow> connection_end \<times> ServerProcess \<times> 'net" where
  "serve_connection fl tms log_io send p received s =
     (case ReadLine received of
        None \<Rightarrow> (ClosedSilently, s)
      | Some wire_request \<Rightarrow>
          (case DeserializeRequest wire_request of
             None \<Rightarrow> (Answered (fst (WriteAll send 0 (SerializeResponse invalid_envelope))), s)
           | Some request \<Rightarrow>
               (case process_request fl tms log_io p request s of
                  (Inl x, s') \<Rightarrow> (ProcessTerminated, s')
                | (Inr response, s') \<Rightarrow> (Answered (fst (WriteAll send 0 (SerializeResponse response))), s'))))"

definition connection_statements :: "'net Platform \<Rightarrow> string \<Rightarrow> EntrypointServer \<Rightarrow> (SessionContext \<times> string) list" where
  "connection_statements p received sv =
     (case Option.bind (ReadLine received) DeserializeRequest of None \<Rightarrow> [] | Some request \<Rightarrow> request_statements p request sv)"

text \<open>Admissible statements, one after the other.\<close>

fun admissible_requests :: "regex \<Rightarrow> clock \<Rightarrow> (nat \<Rightarrow> disk) \<Rightarrow> (SessionContext \<times> string) list \<Rightarrow> DbmsEngine \<Rightarrow> bool" where
  "admissible_requests rx clk io [] db = True"
| "admissible_requests rx clk io ((session, sql) # requests) db =
     (admissible_sql sql db session \<and> admissible_requests rx clk io requests (fst (fst (ExecuteSql rx clk io sql (db, session)))))"

text \<open>
  The states of a process that began with an empty directory, and of everything outside: connections, the jobs of the worker and
  heartbeats in any order, with changes outside in between. The worker and the heartbeats also change the queue and the nodes.
\<close>

inductive reachable_process :: "regex \<Rightarrow> clock \<Rightarrow> (nat \<Rightarrow> disk) \<Rightarrow> ServerProcess \<times> 'net \<Rightarrow> bool" for rx clk io where
  process_start: "make_server rx clk io rename_works now new_secret secret_io directory empty_directory = Some srv \<Longrightarrow> reachable_process rx clk io (srv, net)"
| process_outside: "reachable_process rx clk io (srv, net) \<Longrightarrow> reachable_process rx clk io (srv, net')"
| process_connection: "reachable_process rx clk io (srv, net) \<Longrightarrow> matcher p = rx \<Longrightarrow> engine_clock p = clk \<Longrightarrow> engine_disk p = io \<Longrightarrow>
    admissible_requests rx clk io (connection_statements p received (entry srv)) (dbms (entry srv)) \<Longrightarrow>
    serve_connection fl tms log_io send p received (srv, net) = (out, (srv', net')) \<Longrightarrow> reachable_process rx clk io (srv', net')"
| process_job: "reachable_process rx clk io (srv, net) \<Longrightarrow> matcher p = rx \<Longrightarrow> engine_clock p = clk \<Longrightarrow> engine_disk p = io \<Longrightarrow>
    admissible_requests rx clk io (job_statements sql (entry srv)) (dbms (entry srv)) \<Longrightarrow>
    async_execute (p :: 'net Platform) sql (entry srv) = (r, sv') \<Longrightarrow>
    reachable_process rx clk io (srv\<lparr>entry := sv'\<lparr>job_queue := q\<rparr>\<rparr>, net)"
| process_heartbeat: "reachable_process rx clk io (srv, net) \<Longrightarrow>
    RunHeartbeatCycle fwd restarts (storage_nodes (entry srv)) net = (Inr (nodes, changed), net') \<Longrightarrow>
    reachable_process rx clk io (srv\<lparr>entry := (entry srv)\<lparr>storage_nodes := nodes\<rparr>\<rparr>, net')"

lemma telemetry_platform_engine [simp]:
  "matcher (telemetry_platform fl tms evs p) = matcher p" "engine_clock (telemetry_platform fl tms evs p) = engine_clock p"
  "engine_disk (telemetry_platform fl tms evs p) = engine_disk p"
  by (simp_all add: telemetry_platform_def Let_def)

lemma telemetry_platform_statements [simp]:
  "request_statements (telemetry_platform fl tms evs p) request sv = request_statements p request sv"
proof -
  have "authorize_statement (telemetry_platform fl tms evs p) = authorize_statement p"
    by (intro ext) (simp add: authorize_statement_def request_user_def telemetry_platform_def Let_def)
  then show ?thesis
    by (simp add: request_statements_def sql_statements_def cluster_statements_def dump_statements_def Let_def split: sum.split)
qed

lemma process_request_dbms:
  "dbms (entry (fst (snd (process_request fl tms log_io p request (srv, net))))) =
     run_on p (request_statements p request (entry srv)) (dbms (entry srv))"
proof -
  obtain q sv n where h: "HandleRequest (telemetry_platform fl tms (telemetry srv) p) request (entry srv, net) = (q, (sv, n))"
    by (metis prod.collapse)
  then have "entry (fst (snd (process_request fl tms log_io p request (srv, net)))) = sv"
    by (auto simp: process_request_def Let_def split: sum.splits)
  with HandleRequest_dbms [of "telemetry_platform fl tms (telemetry srv) p" request "entry srv" net] h show ?thesis by simp
qed

lemma serve_connection_dbms:
  assumes "serve_connection fl tms log_io send p received (srv, net) = (out, (srv', net'))"
  shows "dbms (entry srv') = run_on p (connection_statements p received (entry srv)) (dbms (entry srv))"
proof (cases "Option.bind (ReadLine received) DeserializeRequest")
  case None
  with assms show ?thesis by (auto simp: serve_connection_def connection_statements_def split: option.splits)
next
  case (Some request)
  then obtain wire where "ReadLine received = Some wire" "DeserializeRequest wire = Some request" by (auto simp: bind_eq_Some_conv)
  with assms have "fst (snd (process_request fl tms log_io p request (srv, net))) = srv'"
    by (auto simp: serve_connection_def split: prod.splits sum.splits)
  with process_request_dbms [of fl tms log_io p request srv net] Some show ?thesis by (simp add: connection_statements_def)
qed

lemma admissible_append:
  "admissible_requests rx clk io (xs @ ys) db \<longleftrightarrow>
     admissible_requests rx clk io xs db \<and> admissible_requests rx clk io ys (serve rx clk io xs db)"
  by (induction xs arbitrary: db) auto

lemma admissible_served: "served rx clk io db \<Longrightarrow> admissible_requests rx clk io requests db \<Longrightarrow> served rx clk io (serve rx clk io requests db)"
proof (induction requests arbitrary: db)
  case (Cons x requests)
  then show ?case using served_step [of rx clk io db "snd x" "fst x"]
    by (cases x) (metis admissible_requests.simps(2) fst_conv prod.collapse serve.simps(2) snd_conv)
qed simp

lemma make_server_dbms:
  "make_server rx clk io rename_works now new_secret secret_io directory empty_directory = Some srv \<Longrightarrow> dbms (entry srv) = fresh_dbms io directory"
  by (auto simp: make_server_def empty_directory_def make_engine_empty split: option.splits)

text \<open>Databases that the statements of some history have made out of an empty directory.\<close>

definition has_history :: "regex \<Rightarrow> clock \<Rightarrow> (nat \<Rightarrow> disk) \<Rightarrow> DbmsEngine \<Rightarrow> bool" where
  "has_history rx clk io db \<longleftrightarrow>
     (\<exists>path requests. db = serve rx clk io requests (fresh_dbms io path) \<and> admissible_requests rx clk io requests (fresh_dbms io path))"

lemma has_history_served: "has_history rx clk io db \<Longrightarrow> served rx clk io db"
  using admissible_served [OF served_fresh] by (auto simp: has_history_def)

text \<open>What uses the engine: it acts on the databases through statements alone, and so goes on with their history.\<close>

locale engine_client =
  fixes database :: "'s \<Rightarrow> DbmsEngine" and statements :: "'s \<Rightarrow> (SessionContext \<times> string) list" and act :: "'s \<Rightarrow> 's"
    and rx :: regex and clk :: clock and io :: "nat \<Rightarrow> disk"
  assumes acts: "database (act s) = serve rx clk io (statements s) (database s)"
begin

lemma keeps_history:
  assumes "has_history rx clk io (database s)" "admissible_requests rx clk io (statements s) (database s)"
  shows "has_history rx clk io (database (act s))"
proof -
  obtain path requests where "database s = serve rx clk io requests (fresh_dbms io path)"
    "admissible_requests rx clk io requests (fresh_dbms io path)" using assms(1) by (auto simp: has_history_def)
  with assms(2) have "database (act s) = serve rx clk io (requests @ statements s) (fresh_dbms io path) \<and>
      admissible_requests rx clk io (requests @ statements s) (fresh_dbms io path)"
    by (simp add: acts serve_append admissible_append)
  then show ?thesis unfolding has_history_def by blast
qed

lemma keeps_served: "served rx clk io (database s) \<Longrightarrow> admissible_requests rx clk io (statements s) (database s) \<Longrightarrow> served rx clk io (database (act s))"
  by (simp add: acts admissible_served)

end

interpretation request: engine_client "\<lambda>s. dbms (entry (fst s))" "\<lambda>s. request_statements p request (entry (fst s))"
  "\<lambda>s. snd (process_request fl tms log_io p request s)" "matcher p" "engine_clock p" "engine_disk p"
  for p :: "'net Platform" and request fl tms log_io
  by unfold_locales (metis process_request_dbms prod.collapse)

interpretation connection: engine_client "\<lambda>s. dbms (entry (fst s))" "\<lambda>s. connection_statements p received (entry (fst s))"
  "\<lambda>s. snd (serve_connection fl tms log_io send p received s)" "matcher p" "engine_clock p" "engine_disk p"
  for p :: "'net Platform" and received fl tms log_io send
  by unfold_locales (metis serve_connection_dbms prod.collapse)

interpretation job: engine_client dbms "job_statements sql" "\<lambda>sv. snd (async_execute p sql sv)" "matcher p" "engine_clock p" "engine_disk p"
  for p :: "'net Platform" and sql
  by unfold_locales (rule async_execute_dbms)

lemma process_history: "reachable_process rx clk io (srv, net) \<Longrightarrow> has_history rx clk io (dbms (entry srv))"
proof (induction "(srv, net)" arbitrary: srv net rule: reachable_process.induct)
  case (process_start rename_works now new_secret secret_io directory srv net)
  then have "dbms (entry srv) = serve rx clk io [] (fresh_dbms io directory)" by (simp add: make_server_dbms)
  then show ?case unfolding has_history_def by (metis admissible_requests.simps(1))
next
  case (process_connection srv net p received fl tms log_io send out srv' net')
  then show ?case using connection.keeps_history [where s = "(srv, net)" and p = p and received = received and fl = fl and tms = tms and log_io = log_io and send = send]
    by simp
next
  case (process_job srv net p sql r sv' q)
  then show ?case using job.keeps_history [where s = "entry srv" and p = p and sql = sql] by simp
qed auto

lemma listening_reachable:
  "server_main (\<lambda>d. make_server rx clk io rename_works now new_secret secret_io d empty_directory) refused args = Listens n srv \<Longrightarrow>
     reachable_process rx clk io (srv, net) \<and> 0 < n \<and> n \<le> 65535 \<and> refused = None"
  by (auto simp: server_main_def start_listening_def server_port_def port_argument_def split: sum.splits option.splits list.splits if_splits
      intro: process_start)

section \<open>Several requests\<close>

text \<open>Requests one after the other, each with what the world around it says, until one raises; the answers that were given.\<close>

type_synonym answered = "request_times \<times> write_outcome \<times> RequestEnvelope \<times> ResponseEnvelope"

fun serve_requests ::
  "floats \<Rightarrow> ('net Platform \<times> request_times \<times> write_outcome \<times> RequestEnvelope) list \<Rightarrow> ServerProcess \<times> 'net
     \<Rightarrow> answered list \<times> ServerProcess \<times> 'net" where
  "serve_requests fl [] s = ([], s)"
| "serve_requests fl ((p, tms, log_io, request) # rs) s =
     (case process_request fl tms log_io p request s of
        (Inl x, s') \<Rightarrow> ([], s')
      | (Inr response, s') \<Rightarrow> (case serve_requests fl rs s' of (answers, s'') \<Rightarrow> ((tms, log_io, request, response) # answers, s'')))"

text \<open>
  The fields of the lines that the log should get: a line for every answer that the disk has taken, while every answer has the next
  handler identifier.
\<close>

fun expected_lines :: "64 word \<Rightarrow> answered list \<Rightarrow> string list list" where
  "expected_lines n [] = []"
| "expected_lines n ((tms, log_io, request, response) # answers) =
     (if log_io = Written then [access_fields request response (new_handler_id n) tms] else []) @ expected_lines (n + 1) answers"

definition not_torn :: "write_outcome \<Rightarrow> bool" where
  "not_torn log_io \<longleftrightarrow> log_io = NotOpened \<or> log_io = Written"

definition log_text :: "string list list \<Rightarrow> string" where
  "log_text expected = concat (map (\<lambda>fs. join_tab fs @ [newline]) expected)"

definition event_of :: "floats \<Rightarrow> answered \<Rightarrow> RequestEvent" where
  "event_of fl a = (case a of (tms, log_io, request, response) \<Rightarrow>
     \<lparr>event_time = recorded_at tms, latency_ms = from_int64 fl (request_latency tms), failed = (status_code response \<ge> 400)\<rparr>)"

text \<open>A clock that does not go back, from one request to the next and within one.\<close>

fun clock_forward :: "int \<Rightarrow> request_times list \<Rightarrow> bool" where
  "clock_forward t [] = True"
| "clock_forward t (tms # ts) \<longleftrightarrow> t \<le> snapshot_at tms \<and> snapshot_at tms \<le> recorded_at tms \<and> clock_forward (recorded_at tms) ts"

lemma process_request_answered:
  assumes "process_request fl tms log_io p request (srv, net) = (Inr response, (srv', net'))"
  shows "access_log srv' = WriteAccessLog log_io request response (new_handler_id (next_handler_id srv)) tms (access_log srv)"
    and "next_handler_id srv' = next_handler_id srv + 1"
    and "telemetry srv' = record_response fl tms response
      (if reads_telemetry (request_payload request) then PruneLocked (snapshot_at tms) (telemetry srv) else telemetry srv)"
  using assms by (auto simp: process_request_def Let_def Snapshot_def split: prod.splits sum.splits)

lemma process_request_raised:
  assumes "process_request fl tms log_io p request (srv, net) = (Inl x, (srv', net'))"
  shows "access_log srv' = access_log srv"
    and "telemetry srv' = (if reads_telemetry (request_payload request) then PruneLocked (snapshot_at tms) (telemetry srv) else telemetry srv)"
  using assms by (auto simp: process_request_def Let_def Snapshot_def split: prod.splits sum.splits)

lemma serve_requests_log:
  "serve_requests fl rs (srv, net) = (answers, (srv', net')) \<Longrightarrow> list_all (\<lambda>(p, tms, log_io, request). not_torn log_io) rs \<Longrightarrow>
     access_log srv' = access_log srv @ log_text (expected_lines (next_handler_id srv) answers)"
proof (induction rs arbitrary: srv net answers)
  case (Cons a rs)
  obtain p tms log_io request where a: "a = (p, tms, log_io, request)" by (metis prod.collapse)
  obtain r srv1 net1 where one: "process_request fl tms log_io p request (srv, net) = (r, (srv1, net1))" by (metis prod.collapse)
  show ?case
  proof (cases r)
    case (Inl x)
    with Cons.prems one process_request_raised(1) [of fl tms log_io p request srv net x srv1 net1] show ?thesis
      by (simp add: a log_text_def)
  next
    case (Inr response)
    with Cons.prems one obtain rest where more: "serve_requests fl rs (srv1, net1) = (rest, (srv', net'))"
      "answers = (tms, log_io, request, response) # rest" by (auto simp: a split: prod.splits)
    have "not_torn log_io" "list_all (\<lambda>(p, tms, log_io, request). not_torn log_io) rs" using Cons.prems(2) by (simp_all add: a)
    with one Inr more Cons.IH [OF more(1)] process_request_answered [of fl tms log_io p request srv net response srv1 net1]
    show ?thesis by (auto simp: a log_text_def WriteAccessLog_def not_torn_def)
  qed
qed (simp add: log_text_def)

lemma getlines_on_append:
  "(if s = [] then current = [] else last s = d) \<Longrightarrow> getlines_on d current (s @ t) = getlines_on d current s @ getlines_on d [] t"
  by (induction d current s rule: getlines_on.induct) (auto split: if_splits)

lemma join_tab_no_newline: "list_all (list_all log_char) xs \<Longrightarrow> newline \<notin> set (join_tab xs)"
  by (induction xs rule: join_tab.induct) (auto dest: log_field)

lemma log_lines: "list_all (list_all (list_all log_char)) expected \<Longrightarrow> getlines_on newline [] (log_text expected) = map join_tab expected"
proof (induction expected)
  case (Cons fs expected)
  then show ?case
    using getlines_on_plain [of newline "join_tab fs" "[]" "newline # log_text expected"] join_tab_no_newline [of fs]
    by (simp add: log_text_def)
qed (simp add: log_text_def)

lemma access_fields_nonempty: "access_fields request response handler_id tms \<noteq> []" "f \<in> set (access_fields request response handler_id tms) \<Longrightarrow> f \<noteq> []"
  by (auto simp: access_fields_def)

lemma expected_lines_fields: "fs \<in> set (expected_lines n answers) \<Longrightarrow> list_all (list_all log_char) fs \<and> getlines_on tab [] (join_tab fs) = fs"
proof (induction n answers rule: expected_lines.induct)
  case (2 n tms log_io request response answers)
  have "getlines_on tab [] (join_tab (access_fields request response (new_handler_id n) tms)) = access_fields request response (new_handler_id n) tms"
    using access_fields_chars [of request response "new_handler_id n" tms] access_fields_nonempty
    by (intro getlines_on_join ballI conjI) (auto simp: list_all_iff [of "list_all log_char"] dest: log_field)
  with 2 access_fields_chars show ?case by (auto split: if_splits)
qed simp

text \<open>What the counters need of the kept events: from the time \<open>t\<close> on, pruning them gives what is recent of the whole history.\<close>

definition keeps :: "int \<Rightarrow> RequestEvent list \<Rightarrow> RequestEvent list \<Rightarrow> bool" where
  "keeps t history es \<longleftrightarrow> in_order es \<and> in_order history \<and> list_all (\<lambda>e. event_time e \<le> t) (history @ es) \<and>
     (\<forall>now \<ge> t. PruneLocked now es = filter (recent now kWindow10Minutes) history)"

lemma keeps_later: "keeps t history es \<Longrightarrow> t \<le> t' \<Longrightarrow> keeps t' history es"
  unfolding keeps_def list_all_iff by (meson order.trans)

lemma keeps_pruned:
  assumes "keeps t history es" "t \<le> now"
  shows "keeps now history (PruneLocked now es)"
proof -
  have "PruneLocked now' (PruneLocked now es) = PruneLocked now' es" if "now \<le> now'" for now'
    using assms that by (auto simp: keeps_def PruneLocked_filter in_order_filter recent_def intro!: filter_cong)
  then show ?thesis
    using keeps_later [OF assms] in_order_filter by (auto simp: keeps_def PruneLocked_filter list_all_iff)
qed

lemma keeps_recorded:
  assumes "keeps t history es" "t \<le> event_time e"
  shows "keeps (event_time e) (history @ [e]) (PruneLocked (event_time e) es @ [e])"
proof -
  let ?es = "PruneLocked (event_time e) es"
  have k: "keeps (event_time e) history ?es" by (rule keeps_pruned [OF assms])
  then have "in_order (?es @ [e])" "in_order (history @ [e])"
    by (auto simp: keeps_def in_order_def sorted_append list_all_iff)
  moreover have "PruneLocked now (?es @ [e]) = filter (recent now kWindow10Minutes) (history @ [e])" if "event_time e \<le> now" for now
    using k that PruneLocked_filter [OF calculation(1)] PruneLocked_filter [of ?es now] by (simp add: keeps_def)
  ultimately show ?thesis using k by (auto simp: keeps_def)
qed

lemma serve_requests_keeps:
  "serve_requests fl rs (srv, net) = (answers, (srv', net')) \<Longrightarrow> keeps t history (telemetry srv) \<Longrightarrow>
     clock_forward t (map (\<lambda>(p, tms, log_io, request). tms) rs) \<Longrightarrow> list_all (\<lambda>(p, tms, log_io, request). recorded_at tms \<le> now) rs \<Longrightarrow> t \<le> now \<Longrightarrow>
     keeps now (history @ map (event_of fl) answers) (telemetry srv')"
proof (induction rs arbitrary: srv net answers t history)
  case (Cons a rs)
  obtain p tms log_io request where a: "a = (p, tms, log_io, request)" by (metis prod.collapse)
  obtain r srv1 net1 where one: "process_request fl tms log_io p request (srv, net) = (r, (srv1, net1))" by (metis prod.collapse)
  let ?es = "if reads_telemetry (request_payload request) then PruneLocked (snapshot_at tms) (telemetry srv) else telemetry srv"
  have t: "t \<le> snapshot_at tms" "snapshot_at tms \<le> recorded_at tms" "recorded_at tms \<le> now" using Cons.prems by (auto simp: a)
  then have es: "keeps (snapshot_at tms) history ?es" using Cons.prems(2) keeps_pruned keeps_later by auto
  show ?case
  proof (cases r)
    case (Inl x)
    with Cons.prems one process_request_raised(2) [of fl tms log_io p request srv net x srv1 net1] es t show ?thesis
      by (auto simp: a intro: keeps_later)
  next
    case (Inr response)
    with Cons.prems(1) one obtain rest where more: "serve_requests fl rs (srv1, net1) = (rest, (srv', net'))"
      "answers = (tms, log_io, request, response) # rest" by (auto simp: a split: prod.splits)
    let ?e = "event_of fl (tms, log_io, request, response)"
    have "telemetry srv1 = PruneLocked (event_time ?e) ?es @ [?e]"
      using one Inr process_request_answered(3) [of fl tms log_io p request srv net response srv1 net1]
      by (simp add: record_response_def RecordSuccess_def RecordFailure_def event_of_def Let_def)
    moreover have "keeps (event_time ?e) (history @ [?e]) (PruneLocked (event_time ?e) ?es @ [?e])"
      by (rule keeps_recorded [OF es]) (simp add: event_of_def t)
    ultimately have "keeps (recorded_at tms) (history @ [?e]) (telemetry srv1)" by (simp add: event_of_def)
    from Cons.IH [OF more(1) this] Cons.prems more t show ?thesis by (simp add: a)
  qed
qed (auto intro: keeps_later)

section \<open>Acknowledged requests\<close>

text \<open>On a server without storage nodes, an answer with status 200 means that the engine has run the statement in the session of the client.\<close>

lemma handle_statement_ok:
  assumes "handle_statement p request stmt (sv, net) = (Inr response, (sv', net'))" "storage_nodes sv = []" "status_code response = 200"
  obtains session q session' where "client_id session = request_client_id request"
    "sql_statements p request stmt sv = [(session, request_payload request)]"
    "ExecuteSql (matcher p) (engine_clock p) (engine_disk p) (request_payload request) (dbms sv, session) = ((dbms sv', session'), Inr q)"
proof -
  obtain s\<^sub>0 sv\<^sub>1 where g: "GetOrCreateSession (request_client_id request) sv = (s\<^sub>0, sv\<^sub>1)" by fastforce
  have sv1: "dbms sv\<^sub>1 = dbms sv" "storage_nodes sv\<^sub>1 = []"
    using GetOrCreateSession_frame(1,2) [of "request_client_id request" sv] g assms(2) by simp_all
  obtain refusal session where a: "authorize_statement p request stmt (s\<^sub>0\<lparr>client_id := request_client_id request\<rparr>) sv\<^sub>1 = (refusal, session)"
    by fastforce
  have client: "client_id session = request_client_id request"
    using a by (auto simp: authorize_statement_def Let_def split: if_splits option.splits)
  have refused: "refusal = Some r \<Longrightarrow> status_code r \<noteq> 200" for r
    using a by (auto simp: authorize_statement_def Let_def authorization_error_def contract_def split: if_splits option.splits)
  obtain db session' q where e:
    "ExecuteSql (matcher p) (engine_clock p) (engine_disk p) (request_payload request) (dbms sv, session) = ((db, session'), q)"
    by (metis prod.collapse)
  show thesis
  proof (cases refusal)
    case (Some r)
    with assms g a sv1 refused show thesis by (auto simp: handle_statement_def Let_def)
  next
    case None
    with assms g a sv1 e have "dbms sv' = db" "statement_response (IsSelectStatement stmt) (request_payload request) q = Inr response"
      by (auto simp: handle_statement_def Let_def execute_in_def)
    with assms(3) obtain v where "q = Inr v" by (cases q) (auto simp: statement_response_def split: failure.splits)
    with that [OF client _ ] e None g a sv1 \<open>dbms sv' = db\<close> assms(2) show thesis by (simp add: sql_statements_def)
  qed
qed

section \<open>A small process\<close>

definition sample_world :: "unit Platform" where
  "sample_world = sample_platform\<lparr>matcher := no_regex, engine_clock := sample_clock, engine_disk := good_disk\<rparr>"

definition sample_times :: request_times where
  "sample_times = \<lparr>started_at_utc = sample_time, finished_at_utc = sample_time, request_latency = 1, recorded_at = 5, snapshot_at = 4,
     aggregated_at = 4\<rparr>"

definition sample_process :: ServerProcess where
  "sample_process = the (make_server no_regex sample_clock good_disk True 0 ''key'' Written ''db'' empty_directory)"

lemma sample_made:
  "make_server no_regex sample_clock good_disk True 0 ''key'' Written ''db'' empty_directory = Some sample_process"
  "dbms (entry sample_process) = fresh_dbms good_disk ''db''" "sessions (entry sample_process) = []"
  "storage_nodes (entry sample_process) = []" "accounts (access_controller (entry sample_process)) = []"
  "telemetry sample_process = []" "access_log sample_process = []" "next_handler_id sample_process = 1"
  by (simp_all add: sample_process_def make_server_def empty_directory_def make_engine_empty make_access_def LoadAccess_def
      EnsureJwtSecret_def Start_def make_queue_def)

lemma sample_run:
  "\<exists>db ts. ExecuteSql no_regex sample_clock good_disk ''CREATE DATABASE d'' (fresh_dbms good_disk ''db'', new_session ''c'')
      = ((db, new_session ''c''), message_result ''database created'') \<and>
    databases (runtime (engine db)) = [(''d'', \<lparr>db_name = ''d'', tables = []\<rparr>)] \<and>
    records (versions (engine db)) = [\<lparr>rec_kind = kCreateDatabase, rec_database = ''d'', rec_table = [],
      rec_timestamp = GenerateTimestamp ts, rec_row_id = kInvalidRowId, rec_schema = None, before_row = None, after_row = None\<rparr>]"
  by (simp add: server_defs Let_def umap_find_def new_session_def ExecuteAlone_def submit_def BuildPlan_def
      plan_leaf_def Execute_def ExecuteCreateDatabase_def umap_contains_def umap_emplace_def AppendChangeEvent_def VersionAppend_def
      message_result_def MakeSuccess_def IsMutatingStatement_def AppendSql_def good_disk_def good_write_def checkpoint_def Save_def
      replace_file_def Reset_def empty_pool_def exI)

text \<open>One request with a line break and a tab, which is not a statement.\<close>

definition sample_requests :: "(unit Platform \<times> request_times \<times> write_outcome \<times> RequestEnvelope) list" where
  "sample_requests = [(sample_world, sample_times, Written, request_of ''c'' [] (''no'' @ [newline, tab] @ ''sql''))]"

lemma sample_answers: "map (\<lambda>(tms, log_io, request, response). status_code response) (fst (serve_requests sample_floats sample_requests (sample_process, ()))) = [400]"
  by code_simp

lemma sample_process_reachable: "reachable_process no_regex sample_clock good_disk (sample_process, net)"
  by (rule process_start [OF sample_made(1)])

lemma sample_created:
  "\<exists>response srv net. process_request sample_floats sample_times Written sample_world (request_of ''c'' [] ''CREATE DATABASE d'') (sample_process, ()) =
     (Inr response, (srv, net)) \<and> status_code response = 200 \<and>
     saveable (runtime (engine (dbms (entry srv)))) (versions (engine (dbms (entry srv))))"
  "request_statements sample_world (request_of ''c'' [] ''CREATE DATABASE d'') (entry sample_process) = [(new_session ''c'', ''CREATE DATABASE d'')]"
proof -
  have parsed: "Parse (request_payload (request_of ''c'' [] ''CREATE DATABASE d'')) = Inr (CreateDatabaseStatement ''d'')"
    by (simp add: request_of_def)
  obtain db where db: "ExecuteSql no_regex sample_clock good_disk ''CREATE DATABASE d'' (fresh_dbms good_disk ''db'', new_session ''c'')
      = ((db, new_session ''c''), message_result ''database created'')" "saveable (runtime (engine db)) (versions (engine db))"
    using sample_run
    by (fastforce simp: saveable_def state_one_line_def AllRecords_def record_one_line_def schema_columns_def)
  have handled: "\<exists>sv. HandleRequest (telemetry_platform sample_floats tms evs sample_world) (request_of ''c'' [] ''CREATE DATABASE d'')
      (entry sample_process, ()) = (Inr (ok_response ''database created''), (sv, ())) \<and> dbms sv = db" for tms evs
    unfolding HandleRequest_sql [OF parsed]
    using db(1)
    by (simp add: handle_statement_def Let_def request_of_def sample_made GetOrCreateSession_def umap_find_def new_session_def
        authorize_statement_def HasAccounts_def execute_in_def sample_world_def
        statement_response_def IsSelectStatement_def message_result_def MakeSuccess_def)
  show "\<exists>response srv net. process_request sample_floats sample_times Written sample_world (request_of ''c'' [] ''CREATE DATABASE d'') (sample_process, ()) =
     (Inr response, (srv, net)) \<and> status_code response = 200 \<and>
     saveable (runtime (engine (dbms (entry srv)))) (versions (engine (dbms (entry srv))))"
    using handled [of sample_times "telemetry sample_process"] db(2) by (auto simp: process_request_def Let_def ok_response_def)
  show "request_statements sample_world (request_of ''c'' [] ''CREATE DATABASE d'') (entry sample_process) = [(new_session ''c'', ''CREATE DATABASE d'')]"
    using parsed
    by (simp add: request_statements_def sql_statements_def request_of_def sample_made GetOrCreateSession_def umap_find_def
        authorize_statement_def HasAccounts_def new_session_def)
qed

section \<open>Properties\<close>

text \<open>
  C21. A server that was started on an empty directory, whatever it is asked for, in whatever order and by whomever, as long as the
  statements that it runs are admissible: its databases are those that the engine has after one sequence of statements, since SQL
  requests, prepared transactions, dumps, jobs and all other commands act on them through \<^verbatim>\<open>ExecuteSql\<close> alone. Every session of the process
  sees data that passes the index check.
\<close>

theorem process_consistent:
  assumes "reachable_process rx clk io (srv, net)"
  shows "(\<exists>path requests. dbms (entry srv) = serve rx clk io requests (fresh_dbms io path) \<and>
      admissible_requests rx clk io requests (fresh_dbms io path)) \<and>
    ExecuteCheckIndex (session_engine (dbms (entry srv)) session) = message_result ''index check passed''"
  using process_history [OF assms] sessions_consistent [OF has_history_served [OF process_history [OF assms]]]
  by (simp add: has_history_def)

theorem process_consistent_witness:
  "ExecuteCheckIndex (session_engine (dbms (snd (async_execute sample_world ''CREATE DATABASE d'' (entry sample_process)))) sample_session) =
     message_result ''index check passed''"
proof -
  let ?sv = "snd (async_execute sample_world ''CREATE DATABASE d'' (entry sample_process))"
  have "reachable_process no_regex sample_clock good_disk (sample_process\<lparr>entry := ?sv\<lparr>job_queue := make_queue\<rparr>\<rparr>, ())"
    by (rule process_job [OF sample_process_reachable, where p = sample_world])
      (simp_all add: sample_world_def job_statements_def admissible_sql_def admissible_def prod_eq_iff)
  from process_consistent [OF this] show ?thesis by simp
qed

text \<open>
  C39. The access log can be read back: after any sequence of requests to a server whose log was empty or ended with a line break,
  provided that no line was written in part, the file has the lines it had and one more for each answered request for which the file
  could be opened, in order, whatever the texts of the requests hold. The fields of a line are the times, the client, the handler
  identifier, the status of the answer, the latency and the statement, cleaned of control characters; the identifiers count the
  answered requests of this process, also those whose line is lost.
\<close>

theorem access_log_complete:
  assumes "serve_requests fl rs (srv, net) = (answers, (srv', net'))" "list_all (\<lambda>(p, tms, log_io, request). not_torn log_io) rs"
    and "access_log srv = [] \<or> last (access_log srv) = newline"
  shows "\<exists>added. getlines_on newline [] (access_log srv') = getlines_on newline [] (access_log srv) @ added \<and>
    map (getlines_on tab []) added = expected_lines (next_handler_id srv) answers"
proof -
  let ?es = "expected_lines (next_handler_id srv) answers"
  have "list_all (list_all (list_all log_char)) ?es" using expected_lines_fields by (auto simp: list_all_iff)
  then have "getlines_on newline [] (access_log srv') = getlines_on newline [] (access_log srv) @ map join_tab ?es"
    using serve_requests_log [OF assms(1,2)] getlines_on_append [of "access_log srv" "[]" newline "log_text ?es"] assms(3)
    by (auto simp: log_lines)
  then show ?thesis using expected_lines_fields by (simp add: map_idI)
qed

theorem access_log_complete_witness:
  "map (getlines_on tab []) (getlines_on newline [] (access_log (fst (snd (serve_requests sample_floats sample_requests (sample_process, ())))))) =
     expected_lines 1 (fst (serve_requests sample_floats sample_requests (sample_process, ()))) \<and>
   map (\<lambda>(tms, log_io, request, response). status_code response) (fst (serve_requests sample_floats sample_requests (sample_process, ()))) = [400]"
proof -
  obtain answers srv net where run: "serve_requests sample_floats sample_requests (sample_process, ()) = (answers, (srv, net))"
    by (metis prod.collapse)
  have "list_all (\<lambda>(p, tms, log_io, request). not_torn log_io) sample_requests" by (simp add: sample_requests_def not_torn_def)
  from access_log_complete [OF run this] sample_answers run show ?thesis by (auto simp: sample_made)
qed

text \<open>
  C40. Every answered request is counted, and no other: after any sequence of requests to a server without events, during which the
  clock has not gone back, and whether or not some of them read the counters, a snapshot counts the requests of the last minute,
  those answered with an error, and the latency samples of the last ten seconds as they are among the answers given, modulo
  \<open>2 ^ 64\<close>.
\<close>

theorem answered_requests_counted:
  assumes "serve_requests fl rs (srv, net) = (answers, (srv', net'))" "telemetry srv = []"
    and "clock_forward 0 (map (\<lambda>(p, tms, log_io, request). tms) rs)" "list_all (\<lambda>(p, tms, log_io, request). recorded_at tms \<le> now) rs" "0 \<le> now"
    and "fst (Snapshot fl now (telemetry srv')) = s" "map (event_of fl) answers = history"
  shows "requests_1m s = count (recent now kWindow1Minute) history \<and>
    error_count_1m s = count (\<lambda>e. failed e \<and> recent now kWindow1Minute e) history \<and>
    latency_samples_10s s = count (recent now kWindow10Seconds) history \<and>
    bucket (requests_per_second_10m s) k = count (\<lambda>e. at_second k e \<and> recent now kWindow10Minutes e) history"
proof -
  have "keeps 0 [] (telemetry srv)" using assms(2) by (simp add: keeps_def in_order_def PruneLocked_def)
  from serve_requests_keeps [OF assms(1) this assms(3,4,5)] have k: "keeps now history (telemetry srv')" using assms(7) by simp
  then have "PruneLocked now (telemetry srv') = PruneLocked now (record_all history)"
    using pruned_record_all [of history now] by (auto simp: keeps_def list_all_iff)
  then have "fst (Snapshot fl now (record_all history)) = s" using assms(6) by (simp add: Snapshot_def Let_def)
  moreover have "faithful now history (fst (Snapshot fl now (record_all history)))"
    using k by (intro Snapshot_faithful) (auto simp: keeps_def list_all_iff)
  ultimately show ?thesis by (simp add: faithful_def)
qed

theorem answered_requests_counted_witness:
  "error_count_1m (fst (Snapshot sample_floats 9 (telemetry (fst (snd (serve_requests sample_floats sample_requests (sample_process, ()))))))) = 1"
proof -
  obtain answers srv net where run: "serve_requests sample_floats sample_requests (sample_process, ()) = (answers, (srv, net))"
    by (metis prod.collapse)
  obtain a where a: "answers = [(sample_times, a)]" "status_code (snd (snd a)) = 400"
    using sample_answers run by (auto simp: sample_requests_def split: prod.splits sum.splits)
  from answered_requests_counted [OF run, of 9 _ _ 0, OF _ _ _ _ refl refl] a run show ?thesis
    by (simp add: sample_made sample_requests_def sample_times_def event_of_def recent_def kWindow1Minute_def case_prod_beta)
qed

text \<open>
  C5. What a server without storage nodes acknowledges is durable: once a client has status 200 for \<^verbatim>\<open>COMMIT\<close>, or for a changing
  statement outside a transaction, a process started anew on the files and the log on the disk at that moment, with whatever clock
  and disk, comes up with the same databases and history. The server was started on an empty directory and may have served any
  requests before, as long as the statements that it ran were admissible; no name and no text in its state and history has a newline.
\<close>

theorem acknowledged_request_durable:
  assumes "reachable_process (matcher p) (engine_clock p) (engine_disk p) (srv, net)" "storage_nodes (entry srv) = []"
    and "process_request fl tms log_io p request (srv, net) = (Inr response, (srv', net'))" "status_code response = 200"
    and "Parse (request_payload request) = Inr stmt"
    and "admissible_requests (matcher p) (engine_clock p) (engine_disk p) (request_statements p request (entry srv)) (dbms (entry srv))"
    and "stmt = CommitTransactionStatement \<or> \<not> transaction_command stmt \<and> IsMutatingStatement stmt \<and>
      umap_find (transactions (dbms (entry srv))) (TransactionKey (new_session (request_client_id request))) = None"
    and "dbms (entry srv') = db" "saveable (runtime (engine db)) (versions (engine db))"
  shows "\<exists>db'. make_engine rx clk io rename_works now path (files db) (wal db) = Some db' \<and>
    restored (runtime (engine db)) (runtime (engine db')) \<and>
    list_all2 restored_record (AllRecords (versions (engine db))) (AllRecords (versions (engine db')))"
proof -
  let ?p = "telemetry_platform fl tms (telemetry srv) p"
  have "handle_statement ?p request stmt (entry srv, net) = (Inr response, (entry srv', net'))"
    using assms(3) HandleRequest_sql [OF assms(5), of ?p] by (auto simp: process_request_def Let_def split: prod.splits sum.splits)
  from handle_statement_ok [OF this assms(2,4), unfolded telemetry_platform_engine assms(8)] obtain session q session' where run: "client_id session = request_client_id request"
    "sql_statements ?p request stmt (entry srv) = [(session, request_payload request)]"
    "ExecuteSql (matcher p) (engine_clock p) (engine_disk p) (request_payload request) (dbms (entry srv), session) = ((db, session'), Inr q)"
    by metis
  have "request_statements p request (entry srv) = [(session, request_payload request)]"
    using run(2) assms(5) telemetry_platform_statements [of fl tms "telemetry srv" p request "entry srv"] by (simp add: request_statements_def)
  then have admissible: "admissible_sql (request_payload request) (dbms (entry srv)) session" using assms(6) by simp
  have "TransactionKey session = TransactionKey (new_session (request_client_id request))"
    using run(1) by (simp add: TransactionKey_def new_session_def)
  with assms(7) have alone: "stmt = CommitTransactionStatement \<or> \<not> transaction_command stmt \<and> IsMutatingStatement stmt \<and>
      umap_find (transactions (dbms (entry srv))) (TransactionKey session) = None" by simp
  have "served (matcher p) (engine_clock p) (engine_disk p) (dbms (entry srv))"
    by (rule has_history_served [OF process_history [OF assms(1)]])
  from acknowledged_durable [OF this admissible assms(5) run(3) alone assms(9)] show ?thesis .
qed

theorem acknowledged_request_durable_witness:
  "\<exists>db db'. dbms (entry (fst (snd (process_request sample_floats sample_times Written sample_world (request_of ''c'' [] ''CREATE DATABASE d'')
      (sample_process, ()))))) = db \<and>
    make_engine no_regex sample_clock good_disk True 0 ''db'' (files db) (wal db) = Some db' \<and> restored (runtime (engine db)) (runtime (engine db'))"
proof -
  let ?r = "request_of ''c'' [] ''CREATE DATABASE d''"
  obtain response srv net where one: "process_request sample_floats sample_times Written sample_world ?r (sample_process, ()) = (Inr response, (srv, net))"
    and response: "status_code response = 200" "saveable (runtime (engine (dbms (entry srv)))) (versions (engine (dbms (entry srv))))"
    using sample_created by blast
  have world: "matcher sample_world = no_regex" "engine_clock sample_world = sample_clock" "engine_disk sample_world = good_disk"
    by (simp_all add: sample_world_def)
  have "Parse (request_payload ?r) = Inr (CreateDatabaseStatement ''d'')" by (simp add: request_of_def)
  moreover have "admissible_requests no_regex sample_clock good_disk (request_statements sample_world ?r (entry sample_process)) (dbms (entry sample_process))"
    unfolding sample_created(2) by (simp add: admissible_sql_def admissible_def)
  moreover have "umap_find (transactions (dbms (entry sample_process))) (TransactionKey (new_session (request_client_id ?r))) = None"
    by (simp add: sample_made server_defs umap_find_def)
  moreover note sample_made(4)
  moreover have "\<not> transaction_command (CreateDatabaseStatement ''d'') \<and> IsMutatingStatement (CreateDatabaseStatement ''d'')"
    by (simp add: transaction_command_def IsMutatingStatement_def)
  ultimately have "\<exists>db'. make_engine no_regex sample_clock good_disk True 0 ''db'' (files (dbms (entry srv))) (wal (dbms (entry srv))) = Some db' \<and>
      restored (runtime (engine (dbms (entry srv)))) (runtime (engine db'))"
    using acknowledged_request_durable [OF _ _ one response(1) _ _ _ refl response(2), unfolded world, OF sample_process_reachable] by blast
  moreover have "dbms (entry (fst (snd (process_request sample_floats sample_times Written sample_world ?r (sample_process, ()))))) = dbms (entry srv)"
    unfolding one by simp
  ultimately show ?thesis by blast
qed

end
