(* ===== verification/Spec2Isabelle.thy ===== *)
theory Spec2Isabelle
  imports Index_Interface Query_Properties Wal Persistence_Roundtrip Transactions Protocol Job_Queue Entrypoint_Properties Cli Server_Properties
begin

text \<open>
  Verification library of a distributed database management system written in C++. Paths below are relative to the
  repository's directory \<^verbatim>\<open>src\<close>; the programs are in \<^verbatim>\<open>apps\<close> beside it.

  \<^bold>\<open>The program.\<close> A client sends SQL text over a connection to an entrypoint server. The server checks the client's token and
  permissions, and either runs the statement on its own engine or, when storage nodes have been added, sends it to
  the nodes that hold the rows: rows are spread over the nodes by the hash of a column, statements with a condition on that
  column go to one node, changes of several nodes go through a two-phase commit. The facade \<^verbatim>\<open>DbmsEngine\<close> parses the text, the
  planner makes a plan, and the execution engine runs the plan on the runtime state: databases, their tables, and for each
  indexed column of a table a B*+ tree from encoded values to row ids. Every change of a table is also an event in the
  version store, which \<^verbatim>\<open>REVERT\<close> replays. A transaction works on a copy of the state, which \<^verbatim>\<open>COMMIT\<close> puts in place. Every
  acknowledged change is written to the write-ahead log, then the state and the history are saved as text files and the log is
  emptied; a start loads the files and runs what is left in the log. Long requests go through a queue with a worker
  thread.

  \<^bold>\<open>Theories and code.\<close>
  \<^item> \<^verbatim>\<open>Prelude\<close>: results as sums, word and list lemmas, maps with insertion order for \<^verbatim>\<open>std::unordered_map\<close>.
  \<^item> \<^verbatim>\<open>Types\<close>: \<^verbatim>\<open>common/types\<close>, \<^verbatim>\<open>common/error\<close>, \<^verbatim>\<open>common/result\<close>, \<^verbatim>\<open>common/error_contract\<close>. An exception that escapes
    a function is an error value of its own, apart from the errors the code returns.
  \<^item> \<^verbatim>\<open>Leaf_Chain\<close>, \<^verbatim>\<open>BStar_Tree\<close>, \<^verbatim>\<open>BStar_View\<close>, \<^verbatim>\<open>BStar_Insert\<close>, \<^verbatim>\<open>BStar_Remove\<close>, \<^verbatim>\<open>BStar_Scan\<close>: \<^verbatim>\<open>index/b_star_plus_tree\<close>.
    Nodes are a tree; the \<^verbatim>\<open>prev\<close> and \<^verbatim>\<open>next\<close> pointers of leaves are a separate store from leaf addresses to
    addresses that every split and merge updates in the order of the code, so that a range scan follows the
    pointers and not the tree. \<^verbatim>\<open>Index_Interface\<close> states what the engine uses of an index as a locale and
    interprets it on the tree.
  \<^item> \<^verbatim>\<open>Storage\<close>: \<^verbatim>\<open>storage/string_pool\<close> (interned strings with their addresses), \<^verbatim>\<open>storage/table_heap\<close> (64-bit row
    ids), \<^verbatim>\<open>catalog/schema\<close>, \<^verbatim>\<open>catalog/catalog\<close>.
  \<^item> \<^verbatim>\<open>Version_Store\<close>: \<^verbatim>\<open>versioning/version_store\<close>. The clock is an argument: the sequence of its readings.
  \<^item> \<^verbatim>\<open>Ast\<close>: \<^verbatim>\<open>parser/ast.hpp\<close>. \<^verbatim>\<open>Lexer\<close>: \<^verbatim>\<open>parser/lexer\<close>. \<^verbatim>\<open>Parser\<close>: \<^verbatim>\<open>parser/parser\<close>, the recursive descent over a cursor and the
    validation after it; the mutual recursion of expressions is shown to end by the number of tokens left. \<^verbatim>\<open>Parser_Sound\<close>,
    \<^verbatim>\<open>Parser_Print\<close>, \<^verbatim>\<open>Parser_Roundtrip\<close>: what the parser accepts, a printer, and the proofs about both.
  \<^item> \<^verbatim>\<open>Planner\<close>: \<^verbatim>\<open>planner\<close>. \<^verbatim>\<open>Runtime_State\<close>: \<^verbatim>\<open>core/runtime_state\<close>.
  \<^item> \<^verbatim>\<open>Index_Key\<close>, \<^verbatim>\<open>Expressions\<close>, \<^verbatim>\<open>Execution\<close>: \<^verbatim>\<open>execution/execution_engine\<close>, one definition per kind of statement with
    all its error branches. The state \<open>Engine\<close> holds the runtime state, catalog, string pool and version store
    that the code passes by reference, and the number of clock readings so far. The regular expression matcher of
    \<^verbatim>\<open>LIKE\<close> is an argument.
  \<^item> \<^verbatim>\<open>Execution_Invariant\<close>, \<^verbatim>\<open>Execution_History\<close>, \<^verbatim>\<open>Execution_Run\<close>, \<^verbatim>\<open>Query_Properties\<close>: what holds of the engine.
  \<^item> \<^verbatim>\<open>Text_Fields\<close>: lines, escaped fields and numbers, shared by all text formats.
  \<^item> \<^verbatim>\<open>Wal\<close>: \<^verbatim>\<open>core/wal_manager\<close>. The file is its text; the outcome of a write is an argument: the file may not open, the text may be
    there in part, and a part may go unnoticed, as the code looks at the stream before it is flushed.
  \<^item> \<^verbatim>\<open>Persistence\<close>, \<^verbatim>\<open>Persistence_Roundtrip\<close>: \<^verbatim>\<open>core/runtime_persistence\<close>, saving and loading of both snapshot files, older
    formats included.
  \<^item> \<^verbatim>\<open>Protocol\<close>: \<^verbatim>\<open>network/protocol\<close> and the exchange of a request in \<^verbatim>\<open>apps/server/main.cpp\<close> and \<^verbatim>\<open>apps/cli/main.cpp\<close>; the handler of
    requests is an argument.
  \<^item> \<^verbatim>\<open>Dbms_Engine\<close>, \<^verbatim>\<open>Transactions\<close>: \<^verbatim>\<open>core/dbms_engine\<close>. The state holds the engine, the open transactions, the log and the files;
    what the disk does in every call is an argument.
  \<^item> \<^verbatim>\<open>Job_Queue\<close>: \<^verbatim>\<open>runtime/job_queue\<close> as a step relation, one step per critical section.
  \<^item> \<^verbatim>\<open>Access_Control\<close>, \<^verbatim>\<open>Access_Persistence\<close>, \<^verbatim>\<open>Tokens\<close>: \<^verbatim>\<open>catalog/rbac\<close>, that is accounts, groups and grants, their files, and
    passwords and tokens. HMAC-SHA256, salts, the secret and the clock are arguments.
  \<^item> \<^verbatim>\<open>Cluster_Sql\<close> (routing, rendering, dumps), \<^verbatim>\<open>Cluster_Network\<close> (broadcast, two-phase commit, metadata, rebalancing,
    heartbeats), \<^verbatim>\<open>Entrypoint\<close> (sessions, commands, \<^verbatim>\<open>HandleRequest\<close>): \<^verbatim>\<open>server/entrypoint\<close>. The state of the server is a record, the other
    nodes are a state that every message passes through; \<^verbatim>\<open>std::hash\<close>, the identifiers of transactions, the restart of a process and the
    texts of the telemetry are arguments. \<^verbatim>\<open>Cluster_Routing\<close>, \<^verbatim>\<open>Two_Phase\<close>, \<^verbatim>\<open>Entrypoint_Properties\<close> hold the proofs.
  \<^item> \<^verbatim>\<open>Cli\<close>: \<^verbatim>\<open>apps/cli/main.cpp\<close>, and the ports of the two server programs.
  \<^item> \<^verbatim>\<open>Telemetry\<close>: \<^verbatim>\<open>runtime/telemetry\<close> and the text form and merging of its counters in \<^verbatim>\<open>server/entrypoint\<close>. Counters are 64-bit words,
    the operations on floating point numbers are a record of functions that is an argument.
  \<^item> \<^verbatim>\<open>Identifiers\<close>: \<^verbatim>\<open>common/uuid\<close>, the salts, secrets and file names of \<^verbatim>\<open>catalog/rbac\<close>, and the loop that sends a text. Random bytes are arguments.
  \<^item> \<^verbatim>\<open>Server\<close>, \<^verbatim>\<open>Server_Properties\<close>: a server process, that is the constructor and \<^verbatim>\<open>HandleRequest\<close> of \<^verbatim>\<open>server/entrypoint\<close> with telemetry and
    access log around it, the start of \<^verbatim>\<open>apps/server/main.cpp\<close> and \<^verbatim>\<open>apps/storage_node/main.cpp\<close> and their handling of a connection. Connections, jobs
    and heartbeats are steps of a relation, in any order.

  \<^bold>\<open>What the lemmas show.\<close>
  \<^item> The index: every insertion and removal returns, keeps the invariant that the code itself checks, and acts on the
    sorted list of entries; lookups and range scans answer from that list. This needs an even order of at
    least 6; the program uses 8, and for odd orders two operations break the invariant.
  \<^item> The parser: it never throws, ends, accepts only well-formed statements, and every well-formed statement is read back from
    its text. \<^verbatim>\<open>NULL\<close> in a condition or an assignment is read as a column.
  \<^item> The engine: after any statements, failed ones included, all indexes agree with the rows, rows fit their
    schemas and indexed columns are unique. Queries through an index return the rows of a sequential scan, as long as
    the comparison of 64-bit integers does not overflow. Aggregates are correct modulo \<open>2 ^ 64\<close>.
  \<^item> History: the events of a table replay to its rows, and \<^verbatim>\<open>REVERT\<close> restores the rows of a moment, unless a
    statement failed after it had logged its events.
  \<^item> The log returns what was appended to it, for statements without newlines; a transaction without its end
    is dropped. A snapshot restores the state and the history, for texts without newlines.
  \<^item> Transactions: what a session does before \<^verbatim>\<open>COMMIT\<close> is invisible to the others, \<^verbatim>\<open>ROLLBACK\<close> undoes it, and what was acknowledged
    is there after a restart. Theorems also show where the code falls short: \<^verbatim>\<open>COMMIT\<close> overwrites what others have committed, a failed
    \<^verbatim>\<open>COMMIT\<close> leaves a broken transaction, and recovery refuses statements without a database name.
  \<^item> The wire format carries requests and responses without newlines; a request of several lines is cut.
  \<^item> The job queue is first in, first out, tells the right status of every job, and \<^verbatim>\<open>Stop\<close> lets the worker finish the queue.
  \<^item> Access control: grants are a set of triples that each operation changes in one place, \<^verbatim>\<open>Authorize\<close> decides by that set, both files
    restore what was saved, tokens of a login are accepted for an hour and only signed tokens are. Names with quotation marks
    impersonate.
  \<^item> The cluster: a routed statement reaches every row it accepts, the parts of a split \<^verbatim>\<open>INSERT\<close> are its rows by their shard keys, a
    refused two-phase commit leaves nothing but sessions on any server as long as no message is lost, a node is restarted after three
    failed pings, a refused request changes nothing. Theorems also show messages that bypass
    authorization, hidden errors and dumps that are cut.
  \<^item> A process that began with an empty directory: as long as it runs admissible statements, its databases are those of a sequence of
    statements and pass the index check, and what it acknowledges is there after a restart, for names and texts without newlines.
    The access log of any process has a line for every answer that the disk has taken and can be read back; its counters, and
    those of a cluster, are exact while clocks do not go back.
  \<^item> The client: scripts are cut exactly at the semicolons outside of literals, and typed lines are cut into the same statements.

  \<^bold>\<open>Interfaces.\<close> What one component relies on in another is a locale, interpreted on the model: \<^verbatim>\<open>Index_Interface\<close> (the index of
  the engine), \<^verbatim>\<open>Storage\<close> (interner, row store), \<^verbatim>\<open>Wal\<close> (statement log), \<^verbatim>\<open>Protocol\<close> (line codec, for requests and for responses),
  \<^verbatim>\<open>Two_Phase\<close> (participants of a commit, interpreted on clusters of servers in \<^verbatim>\<open>Entrypoint_Properties\<close>), \<^verbatim>\<open>Server_Properties\<close> (clients of
  the engine: requests, connections and jobs).

  \<^bold>\<open>Bounds.\<close> An insertion rearranges children before it descends, so its recursion has a bound: the depth of the
  leaves, which the invariant shows to be enough. The loop of a range scan follows leaf pointers, which could form a
  cycle: it is a partial function whose value \<open>None\<close> is a loop without end, and the invariant of the chain shows that it
  always ends. Reachable states exclude statements that would use up the 64-bit row ids,
  and tables created again under a name whose dropped table had rows. The worker of the job queue is followed for as many steps
  as results are given; two per job and two more are enough to drain the queue.

  \<^bold>\<open>Where C++ leaves the result open.\<close> Signed overflow, which is undefined, wraps around in the model: in the difference that
  \<^verbatim>\<open>CompareValues\<close> computes, in the sum of a column, and in the count of failed pings. The theorems on comparisons and on heartbeats
  exclude it, the one on sums is modulo \<open>2 ^ 64\<close>. Containers that have been moved from are empty, as in libstdc++.

  \<^bold>\<open>Not modelled.\<close> Sockets, threads, processes and signals: requests are handled one at a time, although the program starts a thread for every
  connection and has no mutex around the engine, the sessions and the accounts. A message to another node is a function of its state; the registry of
  servers within one process is part of that function. Floating point arithmetic, hash functions, HMAC-SHA256, regular expressions, clocks, random numbers
  and the outcomes of file operations are arguments.
\<close>

end
